(* ===== verification/Ipc_Prelude.thy ===== *)
theory Ipc_Prelude
  imports Main "HOL-Library.Word" "HOL-Library.Monad_Syntax" "HOL-Library.Multiset"
begin

text \<open>
  Prelude of the development: the machine types, the return codes, the panic monad and the
  generic lemmas on words, maps and finite sums that the component theories share.

  A kernel routine is a function of the state that it reads and writes. Its result is an
  option: \<open>None\<close> is a panic, that is a failed \<^verbatim>\<open>assert\<close> of the kernel configured with
  MACH_ASSERT, an explicit \<^verbatim>\<open>panic()\<close>, a null or dangling pointer, an index outside its
  array, or a loop that never ends. \<open>Some\<close> holds the return value and the new state. The
  do-notation of Monad_Syntax at the option type chains the steps.
\<close>

unbundle bit_operations_syntax

section \<open>Machine types and return codes\<close>

text \<open>\<^verbatim>\<open>natural_t\<close>, \<^verbatim>\<open>mach_port_name_t\<close>, \<^verbatim>\<open>ipc_entry_bits_t\<close> and the addresses
  of kernel objects are 32-bit words.\<close>

type_synonym u32 = "32 word"
type_synonym mach_port_name_t = u32
type_synonym ipc_object_t = u32
type_synonym ipc_port_t = u32
type_synonym ipc_space_t = u32

datatype kern_return_t =
    KERN_SUCCESS | KERN_INVALID_ARGUMENT | KERN_NO_SPACE | KERN_FAILURE
  | KERN_RESOURCE_SHORTAGE | KERN_NAME_EXISTS | KERN_INVALID_NAME | KERN_INVALID_TASK
  | KERN_INVALID_RIGHT | KERN_INVALID_VALUE | KERN_UREFS_OVERFLOW | KERN_INVALID_CAPABILITY
  | KERN_RIGHT_EXISTS | KERN_NOT_IN_SET | KERN_ALREADY_IN_SET

section \<open>The panic monad\<close>

definition kassert :: "bool \<Rightarrow> unit option" where
  "kassert b = (if b then Some () else None)"

lemma kassert_True [simp]: "b \<Longrightarrow> kassert b = Some ()"
  by (simp add: kassert_def)

lemma kassert_bind_Some [simp]:
  "(kassert b \<bind> f) = Some r \<longleftrightarrow> b \<and> f () = Some r"
  by (simp add: kassert_def)

lemma kassert_eq_Some [simp]: "kassert b = Some u \<longleftrightarrow> b"
  by (simp add: kassert_def)

section \<open>Collections of facts\<close>

named_theorems mask_bits \<open>which bits the masks of the layout have\<close>
named_theorems type_bits \<open>the capability type after an update of the bits\<close>
named_theorems uref_bits \<open>the user references after an update of the bits\<close>

section \<open>Small numbers\<close>

lemma less_4: "(p :: nat) < 4 \<longleftrightarrow> p = 0 \<or> p = 1 \<or> p = 2 \<or> p = 3"
  by auto

section \<open>Words\<close>

lemma unat_dec: "0 < (w :: u32) \<Longrightarrow> unat (w - 1) = unat w - 1"
  by (rule unat_minus_one) (simp add: word_gt_0)

lemma unat_inc: "unat (w :: u32) + 1 < 2 ^ 32 \<Longrightarrow> unat (w + 1) = unat w + 1"
  by (simp add: unat_word_ariths)

lemma word_eq_by_bits:
  fixes a b :: u32
  assumes "\<And>n. n < 32 \<Longrightarrow> bit a n = bit b n"
  shows "a = b"
  by (rule bit_word_eqI) (use assms in simp)

lemma bit_u32_bound: "bit (a :: u32) n \<Longrightarrow> n < 32"
  by (drule bit_imp_le_length) simp

lemma u32_plus_one_high:
  fixes a :: u32
  assumes "take_bit 16 a \<noteq> mask 16" and "16 \<le> n"
  shows "bit (a + 1) n = bit a n"
proof -
  have low: "unat a mod 2 ^ 16 \<noteq> 2 ^ 16 - 1"
  proof
    assume "unat a mod 2 ^ 16 = 2 ^ 16 - 1"
    then have "unat (take_bit 16 a) = unat (mask 16 :: u32)"
      by (simp add: unsigned_take_bit_eq take_bit_eq_mod mask_eq_exp_minus_1 unat_mod)
    with assms(1) show False by (simp add: word_unat_eq_iff)
  qed
  have "unat a < 2 ^ 32" using unsigned_less [of a] by simp
  moreover have "unat a + 1 \<noteq> 2 ^ 32" using low by auto
  ultimately have sum: "unat (a + 1) = unat a + 1"
    by (simp add: unat_word_ariths)
  have "(unat a + 1) div 2 ^ 16 = unat a div 2 ^ 16"
    using low by (simp add: div_Suc mod_Suc)
  then have "drop_bit 16 (unat (a + 1)) = drop_bit 16 (unat a)"
    by (simp add: sum drop_bit_eq_div)
  then have "bit (drop_bit 16 (unat (a + 1))) (n - 16) = bit (drop_bit 16 (unat a)) (n - 16)"
    by simp
  with assms(2) show ?thesis
    by (simp add: bit_drop_bit_eq bit_unsigned_iff)
qed

end
