(* ===== verification/Ipc_Bits.thy ===== *)
theory Ipc_Bits
  imports Ipc_Prelude
begin

text \<open>
  The bit layouts of Mach IPC: port names (an index and a generation number packed in one
  word, \<^verbatim>\<open>osfmk/mach/port.h\<close>), the \<^verbatim>\<open>ie_bits\<close> word of a capability entry (16 bits of user
  references, 5 bits of capability type, a collision bit and 8 bits of generation,
  \<^verbatim>\<open>osfmk/ipc/ipc_entry.h\<close>) and the checked arithmetic on user references
  (\<^verbatim>\<open>osfmk/ipc/port.h\<close>). The lemmas are the field calculus that the other theories use
  instead of reasoning about single bits.
\<close>

section \<open>Port names\<close>

abbreviation (input) MACH_PORT_NULL :: mach_port_name_t where "MACH_PORT_NULL \<equiv> 0"
abbreviation (input) MACH_PORT_DEAD :: mach_port_name_t where "MACH_PORT_DEAD \<equiv> - 1"

definition MACH_PORT_VALID :: "mach_port_name_t \<Rightarrow> bool" where
  "MACH_PORT_VALID name \<longleftrightarrow> name \<noteq> MACH_PORT_NULL \<and> name \<noteq> MACH_PORT_DEAD"

definition MACH_PORT_INDEX :: "mach_port_name_t \<Rightarrow> u32" where
  "MACH_PORT_INDEX name = drop_bit 8 name"

definition MACH_PORT_GEN :: "mach_port_name_t \<Rightarrow> u32" where
  "MACH_PORT_GEN name = push_bit 24 (name AND 0xff)"

definition MACH_PORT_MAKE :: "u32 \<Rightarrow> u32 \<Rightarrow> mach_port_name_t" where
  "MACH_PORT_MAKE index gen = push_bit 8 index OR drop_bit 24 gen"

section \<open>Entry bits\<close>

abbreviation IE_BITS_UREFS_MASK :: u32 where "IE_BITS_UREFS_MASK \<equiv> 0x0000ffff"
abbreviation IE_BITS_TYPE_MASK :: u32 where "IE_BITS_TYPE_MASK \<equiv> 0x001f0000"
abbreviation IE_BITS_COLLISION :: u32 where "IE_BITS_COLLISION \<equiv> 0x00800000"
abbreviation IE_BITS_GEN_MASK :: u32 where "IE_BITS_GEN_MASK \<equiv> 0xff000000"
abbreviation IE_BITS_GEN_ONE :: u32 where "IE_BITS_GEN_ONE \<equiv> 0x04000000"
abbreviation IE_BITS_RIGHT_MASK :: u32 where "IE_BITS_RIGHT_MASK \<equiv> 0x007fffff"

definition IE_BITS_UREFS :: "u32 \<Rightarrow> u32" where
  "IE_BITS_UREFS bits = bits AND IE_BITS_UREFS_MASK"

definition IE_BITS_TYPE :: "u32 \<Rightarrow> u32" where
  "IE_BITS_TYPE bits = bits AND IE_BITS_TYPE_MASK"

definition IE_BITS_GEN :: "u32 \<Rightarrow> u32" where
  "IE_BITS_GEN bits = bits AND IE_BITS_GEN_MASK"

definition IE_BITS_NEW_GEN :: "u32 \<Rightarrow> u32" where
  "IE_BITS_NEW_GEN old = (old + IE_BITS_GEN_ONE) AND IE_BITS_GEN_MASK"

text \<open>The rights (the argument of \<^verbatim>\<open>mach_port_mod_refs\<close>) and the type bit of each.\<close>

datatype mach_port_right_t =
    MACH_PORT_RIGHT_SEND | MACH_PORT_RIGHT_RECEIVE | MACH_PORT_RIGHT_SEND_ONCE
  | MACH_PORT_RIGHT_PORT_SET | MACH_PORT_RIGHT_DEAD_NAME

abbreviation (input) MACH_PORT_TYPE_NONE :: u32 where "MACH_PORT_TYPE_NONE \<equiv> 0"
abbreviation MACH_PORT_TYPE_SEND :: u32 where "MACH_PORT_TYPE_SEND \<equiv> 0x10000"
abbreviation MACH_PORT_TYPE_RECEIVE :: u32 where "MACH_PORT_TYPE_RECEIVE \<equiv> 0x20000"
abbreviation MACH_PORT_TYPE_SEND_ONCE :: u32 where "MACH_PORT_TYPE_SEND_ONCE \<equiv> 0x40000"
abbreviation MACH_PORT_TYPE_PORT_SET :: u32 where "MACH_PORT_TYPE_PORT_SET \<equiv> 0x80000"
abbreviation MACH_PORT_TYPE_DEAD_NAME :: u32 where "MACH_PORT_TYPE_DEAD_NAME \<equiv> 0x100000"
abbreviation MACH_PORT_TYPE_SEND_RECEIVE :: u32 where "MACH_PORT_TYPE_SEND_RECEIVE \<equiv> 0x30000"
abbreviation MACH_PORT_TYPE_SEND_RIGHTS :: u32 where "MACH_PORT_TYPE_SEND_RIGHTS \<equiv> 0x50000"
abbreviation MACH_PORT_TYPE_PORT_RIGHTS :: u32 where "MACH_PORT_TYPE_PORT_RIGHTS \<equiv> 0x70000"
abbreviation MACH_PORT_TYPE_PORT_OR_DEAD :: u32 where "MACH_PORT_TYPE_PORT_OR_DEAD \<equiv> 0x170000"
abbreviation MACH_PORT_TYPE_ALL_RIGHTS :: u32 where "MACH_PORT_TYPE_ALL_RIGHTS \<equiv> 0x1f0000"
abbreviation MACH_PORT_TYPE_DNREQUEST :: u32 where "MACH_PORT_TYPE_DNREQUEST \<equiv> 0x80000000"

definition MACH_PORT_TYPE :: "mach_port_right_t \<Rightarrow> u32" where
  "MACH_PORT_TYPE right = (case right of
      MACH_PORT_RIGHT_SEND \<Rightarrow> MACH_PORT_TYPE_SEND
    | MACH_PORT_RIGHT_RECEIVE \<Rightarrow> MACH_PORT_TYPE_RECEIVE
    | MACH_PORT_RIGHT_SEND_ONCE \<Rightarrow> MACH_PORT_TYPE_SEND_ONCE
    | MACH_PORT_RIGHT_PORT_SET \<Rightarrow> MACH_PORT_TYPE_PORT_SET
    | MACH_PORT_RIGHT_DEAD_NAME \<Rightarrow> MACH_PORT_TYPE_DEAD_NAME)"

text \<open>C's \<^verbatim>\<open>bits &~ mask\<close>.\<close>

definition bits_clear :: "u32 \<Rightarrow> u32 \<Rightarrow> u32" where
  "bits_clear bits m = bits AND NOT m"

text \<open>\<^verbatim>\<open>bits & mask\<close> used as a condition.\<close>

definition has :: "u32 \<Rightarrow> u32 \<Rightarrow> bool" where
  "has bits m \<longleftrightarrow> bits AND m \<noteq> 0"

section \<open>User references\<close>

abbreviation MACH_PORT_UREFS_MAX :: u32 where "MACH_PORT_UREFS_MAX \<equiv> 0xffff"

text \<open>\<^verbatim>\<open>urefs\<close> is unsigned and \<^verbatim>\<open>delta\<close> signed: the tests against 0 are signed, the sum
  and the comparison with \<^verbatim>\<open>urefs\<close> are unsigned and wrap.\<close>

definition MACH_PORT_UREFS_OVERFLOW :: "u32 \<Rightarrow> u32 \<Rightarrow> bool" where
  "MACH_PORT_UREFS_OVERFLOW urefs delta \<longleftrightarrow>
     0 <s delta \<and> (urefs + delta \<le> urefs \<or> urefs + delta > MACH_PORT_UREFS_MAX)"

definition MACH_PORT_UREFS_UNDERFLOW :: "u32 \<Rightarrow> u32 \<Rightarrow> bool" where
  "MACH_PORT_UREFS_UNDERFLOW urefs delta \<longleftrightarrow> delta <s 0 \<and> - delta > urefs"

section \<open>The bits of the masks\<close>

lemma mask_as_shift:
  "(0xffff :: u32) = mask 16" "(0xff :: u32) = mask 8"
  "(0x001f0000 :: u32) = push_bit 16 (mask 5)" "(0x00800000 :: u32) = push_bit 23 (mask 1)"
  "(0xff000000 :: u32) = push_bit 24 (mask 8)" "(0x007fffff :: u32) = mask 23"
  "(0x10000 :: u32) = push_bit 16 (mask 1)" "(0x20000 :: u32) = push_bit 17 (mask 1)"
  "(0x40000 :: u32) = push_bit 18 (mask 1)" "(0x80000 :: u32) = push_bit 19 (mask 1)"
  "(0x100000 :: u32) = push_bit 20 (mask 1)"
  by (simp_all add: mask_eq_exp_minus_1 push_bit_eq_mult)

declare bit_numeral_word_iff [simp del]

lemma bit_masks [mask_bits, simp]:
  "bit (0xffff :: u32) n \<longleftrightarrow> n < 16"
  "bit (0xff :: u32) n \<longleftrightarrow> n < 8"
  "bit (0x001f0000 :: u32) n \<longleftrightarrow> 16 \<le> n \<and> n < 21"
  "bit (0x00800000 :: u32) n \<longleftrightarrow> n = 23"
  "bit (0xff000000 :: u32) n \<longleftrightarrow> 24 \<le> n \<and> n < 32"
  "bit (0x007fffff :: u32) n \<longleftrightarrow> n < 23"
  "bit (0x10000 :: u32) n \<longleftrightarrow> n = 16"
  "bit (0x20000 :: u32) n \<longleftrightarrow> n = 17"
  "bit (0x40000 :: u32) n \<longleftrightarrow> n = 18"
  "bit (0x80000 :: u32) n \<longleftrightarrow> n = 19"
  "bit (0x100000 :: u32) n \<longleftrightarrow> n = 20"
  unfolding mask_as_shift bit_push_bit_iff bit_mask_iff
  by auto


lemma bit_bits_clear [simp]: "bit (bits_clear b m) n \<longleftrightarrow> bit b n \<and> \<not> bit m n"
  by (auto simp: bits_clear_def bit_and_iff bit_not_iff dest: bit_u32_bound)

lemmas field_defs = IE_BITS_UREFS_def IE_BITS_TYPE_def IE_BITS_GEN_def
lemmas bit_ops = bit_and_iff bit_or_iff bit_push_bit_iff bit_drop_bit_eq

section \<open>Names: index and generation\<close>

lemma INDEX_MAKE:
  assumes "drop_bit 24 i = (0 :: u32)"
  shows "MACH_PORT_INDEX (MACH_PORT_MAKE i g) = i"
proof (rule word_eq_by_bits)
  fix n :: nat assume n: "n < 32"
  have high: "\<not> bit i m" if "24 \<le> m" for m
  proof -
    have "bit (drop_bit 24 i) (m - 24) = bit i m"
      using that by (simp add: bit_drop_bit_eq)
    with assms show ?thesis by simp
  qed
  show "bit (MACH_PORT_INDEX (MACH_PORT_MAKE i g)) n = bit i n"
  proof (cases "n < 24")
    case True
    have "\<not> bit g (24 + (8 + n))" using bit_u32_bound by fastforce
    with True show ?thesis
      by (simp add: MACH_PORT_INDEX_def MACH_PORT_MAKE_def bit_ops)
  next
    case False
    then have "\<not> bit (MACH_PORT_MAKE i g) (8 + n)"
      using bit_u32_bound by fastforce
    with False high show ?thesis
      by (simp add: MACH_PORT_INDEX_def bit_drop_bit_eq)
  qed
qed

lemma GEN_MAKE: "MACH_PORT_GEN (MACH_PORT_MAKE i g) = IE_BITS_GEN g"
  by (rule word_eq_by_bits)
    (auto simp: MACH_PORT_GEN_def MACH_PORT_MAKE_def IE_BITS_GEN_def bit_ops)

lemma MAKE_INDEX_GEN: "MACH_PORT_MAKE (MACH_PORT_INDEX name) (MACH_PORT_GEN name) = name"
proof (rule word_eq_by_bits)
  fix n :: nat assume n: "n < 32"
  show "bit (MACH_PORT_MAKE (MACH_PORT_INDEX name) (MACH_PORT_GEN name)) n = bit name n"
  proof (cases "n < 8")
    case True
    then show ?thesis
      by (auto simp: MACH_PORT_GEN_def MACH_PORT_MAKE_def MACH_PORT_INDEX_def bit_ops)
  next
    case False
    then show ?thesis using n
      by (auto simp: MACH_PORT_GEN_def MACH_PORT_MAKE_def MACH_PORT_INDEX_def bit_ops not_less)
  qed
qed

lemma INDEX_bound: "MACH_PORT_INDEX name < 2 ^ 24"
proof -
  have "unat name < 2 ^ 32"
    using unsigned_less [of name, where 'a = nat] by simp
  then have "unat name div 256 < 2 ^ 24" by simp
  then show ?thesis by (simp add: MACH_PORT_INDEX_def word_less_nat_alt unat_div drop_bit_eq_div)
qed

lemma IE_BITS_GEN_idem [simp]: "IE_BITS_GEN (IE_BITS_GEN b) = IE_BITS_GEN b"
  by (simp add: IE_BITS_GEN_def and.assoc)

lemma IE_BITS_GEN_MACH_PORT_GEN [simp]: "IE_BITS_GEN (MACH_PORT_GEN n) = MACH_PORT_GEN n"
  by (rule word_eq_by_bits) (auto simp: MACH_PORT_GEN_def IE_BITS_GEN_def bit_ops)

lemma MACH_PORT_GEN_eq_IE_BITS_GEN:
  "MACH_PORT_GEN (MACH_PORT_MAKE i (IE_BITS_GEN b)) = IE_BITS_GEN b"
  by (simp add: GEN_MAKE)

section \<open>The fields of an updated entry word\<close>

lemma low_bits_bound: "x \<le> (0xffff :: u32) \<longleftrightarrow> bits_clear x 0xffff = 0"
proof
  assume x: "x \<le> 0xffff"
  show "bits_clear x 0xffff = 0"
  proof (rule word_eq_by_bits)
    fix n :: nat
    have "take_bit 16 x = x"
    proof -
      have "unat x < 2 ^ 16" using x by (simp add: word_le_nat_alt)
      then show ?thesis by (simp add: take_bit_eq_mod word_unat_eq_iff unat_mod)
    qed
    then have "bit x n \<Longrightarrow> n < 16" by (metis bit_take_bit_iff)
    then show "bit (bits_clear x 0xffff) n = bit 0 n" by auto
  qed
next
  assume c: "bits_clear x 0xffff = 0"
  have "x = x AND 0xffff"
  proof (rule word_eq_by_bits)
    fix n :: nat
    from c have "\<not> bit (bits_clear x 0xffff) n" by simp
    then show "bit x n = bit (x AND 0xffff) n" by (auto simp: bit_ops)
  qed
  also have "\<dots> \<le> 0xffff" by (rule word_and_le1)
  finally show "x \<le> 0xffff" .
qed

lemma UREFS_bound [simp]: "IE_BITS_UREFS b \<le> 0xffff"
  unfolding IE_BITS_UREFS_def by (rule word_and_le1)

lemma clear_or_urefs: "b = bits_clear b 0xffff OR IE_BITS_UREFS b"
  by (rule word_eq_by_bits) (auto simp: IE_BITS_UREFS_def bit_ops)

lemma clear_plus_low:
  assumes "x \<le> 0xffff" shows "bits_clear b 0xffff + x = bits_clear b 0xffff OR x"
proof (rule disjunctive_add_eq_or)
  show "bits_clear b 0xffff AND x = 0"
  proof (rule word_eq_by_bits)
    fix n :: nat
    from assms have "\<not> bit (bits_clear x 0xffff) n" by (simp add: low_bits_bound)
    then show "bit (bits_clear b 0xffff AND x) n = bit 0 n" by (auto simp: bit_ops)
  qed
qed

lemma bits_plus:
  assumes "IE_BITS_UREFS b + d \<le> 0xffff"
  shows "b + d = bits_clear b 0xffff OR (IE_BITS_UREFS b + d)"
proof -
  have "b + d = bits_clear b 0xffff + (IE_BITS_UREFS b + d)"
    using clear_plus_low [of "IE_BITS_UREFS b" b] clear_or_urefs [of b] by (simp add: add.assoc)
  with clear_plus_low [OF assms, of b] show ?thesis by simp
qed

lemma or_low_fields:
  assumes "x \<le> 0xffff"
  shows "IE_BITS_TYPE (bits_clear b 0xffff OR x) = IE_BITS_TYPE b"
    and "IE_BITS_GEN (bits_clear b 0xffff OR x) = IE_BITS_GEN b"
    and "IE_BITS_UREFS (bits_clear b 0xffff OR x) = x"
    and "(bits_clear b 0xffff OR x) AND 0xe00000 = b AND 0xe00000"
proof -
  have x: "bit x n \<Longrightarrow> n < 16" for n
  proof -
    from assms have "\<not> bit (bits_clear x 0xffff) n" by (simp add: low_bits_bound)
    then show "bit x n \<Longrightarrow> n < 16" by auto
  qed
  have e: "(0xe00000 :: u32) = push_bit 21 (mask 3)"
    by (simp add: mask_eq_exp_minus_1 push_bit_eq_mult)
  show "IE_BITS_TYPE (bits_clear b 0xffff OR x) = IE_BITS_TYPE b"
    by (rule word_eq_by_bits) (auto simp: field_defs bit_ops dest: x)
  show "IE_BITS_GEN (bits_clear b 0xffff OR x) = IE_BITS_GEN b"
    by (rule word_eq_by_bits) (auto simp: field_defs bit_ops dest: x)
  show "IE_BITS_UREFS (bits_clear b 0xffff OR x) = x"
    by (rule word_eq_by_bits) (auto simp: field_defs bit_ops dest: x)
  show "(bits_clear b 0xffff OR x) AND 0xe00000 = b AND 0xe00000"
    unfolding e by (rule word_eq_by_bits) (auto simp: bit_ops bit_mask_iff dest: x)
qed

lemma bits_plus_fields [uref_bits]:
  assumes "IE_BITS_UREFS b + d \<le> 0xffff"
  shows "IE_BITS_TYPE (b + d) = IE_BITS_TYPE b" and "IE_BITS_GEN (b + d) = IE_BITS_GEN b"
    and "IE_BITS_UREFS (b + d) = IE_BITS_UREFS b + d"
    and "(b + d) AND 0xe00000 = b AND 0xe00000"
  using or_low_fields [OF assms, of b] by (simp_all add: bits_plus [OF assms])

lemma bits_dec_fields:
  assumes "IE_BITS_UREFS b \<noteq> 0"
  shows "IE_BITS_TYPE (b - 1) = IE_BITS_TYPE b" and "IE_BITS_GEN (b - 1) = IE_BITS_GEN b"
    and "IE_BITS_UREFS (b - 1) = IE_BITS_UREFS b - 1"
    and "(b - 1) AND 0xe00000 = b AND 0xe00000"
proof -
  have "IE_BITS_UREFS b - 1 \<le> IE_BITS_UREFS b"
    unfolding word_le_nat_alt unat_minus_one [OF assms] by (rule diff_le_self)
  also note UREFS_bound
  finally have "IE_BITS_UREFS b + - 1 \<le> 0xffff" by (simp only: add_uminus_conv_diff)
  from bits_plus_fields [OF this] show
    "IE_BITS_TYPE (b - 1) = IE_BITS_TYPE b" "IE_BITS_GEN (b - 1) = IE_BITS_GEN b"
    "IE_BITS_UREFS (b - 1) = IE_BITS_UREFS b - 1" "(b - 1) AND 0xe00000 = b AND 0xe00000"
    by simp_all
qed

section \<open>The fields of a combined word\<close>
lemma right_mask_fields [type_bits]:
  "IE_BITS_TYPE (b AND IE_BITS_RIGHT_MASK) = IE_BITS_TYPE b"
  "IE_BITS_UREFS (b AND IE_BITS_RIGHT_MASK) = IE_BITS_UREFS b"
  by (rule word_eq_by_bits, auto simp: field_defs bit_ops)+

lemma collision_fields [type_bits]:
  "IE_BITS_TYPE (b OR IE_BITS_COLLISION) = IE_BITS_TYPE b"
  "IE_BITS_GEN (b OR IE_BITS_COLLISION) = IE_BITS_GEN b"
  "(b OR IE_BITS_COLLISION) AND IE_BITS_RIGHT_MASK = b AND IE_BITS_RIGHT_MASK"
  "IE_BITS_TYPE (bits_clear b IE_BITS_COLLISION) = IE_BITS_TYPE b"
  "IE_BITS_GEN (bits_clear b IE_BITS_COLLISION) = IE_BITS_GEN b"
  "bits_clear b IE_BITS_COLLISION AND IE_BITS_RIGHT_MASK = b AND IE_BITS_RIGHT_MASK"
  by (rule word_eq_by_bits, auto simp: field_defs bit_ops)+

lemma gen_only_fields [type_bits]:
  "IE_BITS_TYPE (IE_BITS_GEN b) = 0" "IE_BITS_UREFS (IE_BITS_GEN b) = 0"
  "IE_BITS_GEN b AND IE_BITS_RIGHT_MASK = 0"
  by (rule word_eq_by_bits, auto simp: field_defs bit_ops)+

lemma or_right_fields:
  assumes "x AND IE_BITS_RIGHT_MASK = x"
  shows "IE_BITS_GEN (b OR x) = IE_BITS_GEN b"
    and "(IE_BITS_GEN b OR x) AND IE_BITS_RIGHT_MASK = x"
    and "IE_BITS_TYPE (IE_BITS_GEN b OR x) = IE_BITS_TYPE x"
    and "IE_BITS_UREFS (IE_BITS_GEN b OR x) = IE_BITS_UREFS x"
proof -
  have lt: "bit x n \<Longrightarrow> n < 23" for n
    using arg_cong [where f = "\<lambda>w. bit w n", OF assms] by (auto simp: bit_and_iff)
  have x: "\<not> bit x n" if "23 \<le> n" for n using lt [of n] that by auto
  show "IE_BITS_GEN (b OR x) = IE_BITS_GEN b"
    by (rule word_eq_by_bits) (auto simp: field_defs bit_ops x)
  show "(IE_BITS_GEN b OR x) AND IE_BITS_RIGHT_MASK = x"
    by (rule word_eq_by_bits) (auto simp: field_defs bit_ops dest: lt)
  show "IE_BITS_TYPE (IE_BITS_GEN b OR x) = IE_BITS_TYPE x"
    by (rule word_eq_by_bits) (auto simp: field_defs bit_ops)
  show "IE_BITS_UREFS (IE_BITS_GEN b OR x) = IE_BITS_UREFS x"
    by (rule word_eq_by_bits) (auto simp: field_defs bit_ops)
qed

lemma dead_name_fields [type_bits]:
  "IE_BITS_TYPE (bits_clear b IE_BITS_TYPE_MASK OR MACH_PORT_TYPE_DEAD_NAME) = MACH_PORT_TYPE_DEAD_NAME"
  "IE_BITS_UREFS (bits_clear b IE_BITS_TYPE_MASK OR MACH_PORT_TYPE_DEAD_NAME) = IE_BITS_UREFS b"
  "IE_BITS_GEN (bits_clear b IE_BITS_TYPE_MASK OR MACH_PORT_TYPE_DEAD_NAME) = IE_BITS_GEN b"
  by (rule word_eq_by_bits, auto simp: field_defs bit_ops)+

text \<open>A test of a type bit is a test of the type.\<close>

lemma has_mask:
  assumes "m AND IE_BITS_TYPE_MASK = m" shows "has b m \<longleftrightarrow> IE_BITS_TYPE b AND m \<noteq> 0"
proof -
  have "IE_BITS_TYPE b AND m = b AND (IE_BITS_TYPE_MASK AND m)" by (simp add: IE_BITS_TYPE_def and.assoc)
  also have "\<dots> = b AND m" by (subst and.commute [of _ m]) (simp only: assms)
  finally show ?thesis by (simp add: has_def)
qed

lemma has_type:
  "has b MACH_PORT_TYPE_SEND \<longleftrightarrow> IE_BITS_TYPE b AND MACH_PORT_TYPE_SEND \<noteq> 0"
  "has b MACH_PORT_TYPE_RECEIVE \<longleftrightarrow> IE_BITS_TYPE b AND MACH_PORT_TYPE_RECEIVE \<noteq> 0"
  "has b MACH_PORT_TYPE_SEND_ONCE \<longleftrightarrow> IE_BITS_TYPE b AND MACH_PORT_TYPE_SEND_ONCE \<noteq> 0"
  "has b MACH_PORT_TYPE_PORT_SET \<longleftrightarrow> IE_BITS_TYPE b AND MACH_PORT_TYPE_PORT_SET \<noteq> 0"
  "has b MACH_PORT_TYPE_DEAD_NAME \<longleftrightarrow> IE_BITS_TYPE b AND MACH_PORT_TYPE_DEAD_NAME \<noteq> 0"
  "has b MACH_PORT_TYPE_SEND_RECEIVE \<longleftrightarrow> IE_BITS_TYPE b AND MACH_PORT_TYPE_SEND_RECEIVE \<noteq> 0"
  "has b MACH_PORT_TYPE_SEND_RIGHTS \<longleftrightarrow> IE_BITS_TYPE b AND MACH_PORT_TYPE_SEND_RIGHTS \<noteq> 0"
  "has b MACH_PORT_TYPE_PORT_RIGHTS \<longleftrightarrow> IE_BITS_TYPE b AND MACH_PORT_TYPE_PORT_RIGHTS \<noteq> 0"
  "has b MACH_PORT_TYPE_PORT_OR_DEAD \<longleftrightarrow> IE_BITS_TYPE b AND MACH_PORT_TYPE_PORT_OR_DEAD \<noteq> 0"
  by (rule has_mask, simp)+

lemma has_collision:
  "has (b OR IE_BITS_COLLISION) IE_BITS_COLLISION" "\<not> has (bits_clear b IE_BITS_COLLISION) IE_BITS_COLLISION"
  "\<not> has (IE_BITS_GEN b) IE_BITS_COLLISION" "has b IE_BITS_COLLISION \<Longrightarrow> b OR IE_BITS_COLLISION = b"
proof -
  have h: "has x IE_BITS_COLLISION \<longleftrightarrow> bit x 23" for x
  proof
    assume "has x IE_BITS_COLLISION"
    then obtain n where "bit (x AND IE_BITS_COLLISION) n" by (auto simp: has_def bit_eq_iff)
    then show "bit x 23" by (auto simp: bit_ops)
  next
    assume "bit x 23"
    then have "bit (x AND IE_BITS_COLLISION) 23" by (simp add: bit_ops)
    then show "has x IE_BITS_COLLISION" by (auto simp: has_def simp del: bit_masks)
  qed
  show "has (b OR IE_BITS_COLLISION) IE_BITS_COLLISION" "\<not> has (bits_clear b IE_BITS_COLLISION) IE_BITS_COLLISION"
    "\<not> has (IE_BITS_GEN b) IE_BITS_COLLISION"
    by (simp_all add: h bit_ops field_defs)
  show "b OR IE_BITS_COLLISION = b" if "has b IE_BITS_COLLISION"
    by (rule word_eq_by_bits) (use that in \<open>auto simp: h bit_ops\<close>)
qed

text \<open>The generation of a name put into bits without one.\<close>

lemma or_gen_fields:
  "IE_BITS_GEN b = 0 \<Longrightarrow> IE_BITS_GEN (b OR MACH_PORT_GEN n) = MACH_PORT_GEN n"
  "IE_BITS_TYPE (b OR MACH_PORT_GEN n) = IE_BITS_TYPE b"
  "(b OR MACH_PORT_GEN n) AND IE_BITS_RIGHT_MASK = b AND IE_BITS_RIGHT_MASK"
  "has (b OR MACH_PORT_GEN n) IE_BITS_COLLISION = has b IE_BITS_COLLISION"
proof -
  have gen: "bit (MACH_PORT_GEN n) k \<Longrightarrow> 24 \<le> k" for k by (auto simp: MACH_PORT_GEN_def bit_ops)
  show "IE_BITS_GEN (b OR MACH_PORT_GEN n) = MACH_PORT_GEN n" if "IE_BITS_GEN b = 0"
  proof (rule word_eq_by_bits)
    fix k :: nat assume k: "k < 32"
    have "\<not> bit (IE_BITS_GEN b) k" using that by simp
    with k gen [of k] show "bit (IE_BITS_GEN (b OR MACH_PORT_GEN n)) k = bit (MACH_PORT_GEN n) k"
      by (auto simp: IE_BITS_GEN_def bit_ops)
  qed
  show "IE_BITS_TYPE (b OR MACH_PORT_GEN n) = IE_BITS_TYPE b"
    by (rule word_eq_by_bits) (auto simp: IE_BITS_TYPE_def bit_ops dest: gen)
  show "(b OR MACH_PORT_GEN n) AND IE_BITS_RIGHT_MASK = b AND IE_BITS_RIGHT_MASK"
    by (rule word_eq_by_bits) (auto simp: bit_ops dest: gen)
  have "(b OR MACH_PORT_GEN n) AND IE_BITS_COLLISION = b AND IE_BITS_COLLISION"
    by (rule word_eq_by_bits) (auto simp: bit_ops dest: gen)
  then show "has (b OR MACH_PORT_GEN n) IE_BITS_COLLISION = has b IE_BITS_COLLISION" by (simp add: has_def)
qed

text \<open>What an entry says about the right of its name: the type and the user references. The fields
  outside of the right stay when a right is put in or taken out.\<close>

lemma clear_right_fields:
  assumes "m AND IE_BITS_RIGHT_MASK = m"
  shows "IE_BITS_GEN (bits_clear b m) = IE_BITS_GEN b"
    and "has (bits_clear b m) IE_BITS_COLLISION = has b IE_BITS_COLLISION"
proof -
  have m: "bit m k \<Longrightarrow> k < 23" for k
    using bit_and_iff [of m IE_BITS_RIGHT_MASK k] assms by (auto simp: bit_ops)
  show "IE_BITS_GEN (bits_clear b m) = IE_BITS_GEN b"
    unfolding IE_BITS_GEN_def by (rule word_eq_by_bits) (auto simp: bit_ops dest: m)
  have "bits_clear b m AND IE_BITS_COLLISION = b AND IE_BITS_COLLISION"
    by (rule word_eq_by_bits) (auto simp: bit_ops dest: m)
  then show "has (bits_clear b m) IE_BITS_COLLISION = has b IE_BITS_COLLISION" by (simp add: has_def)
qed

lemma or_right_collision:
  assumes "x AND IE_BITS_RIGHT_MASK = x"
  shows "has (b OR x) IE_BITS_COLLISION = has b IE_BITS_COLLISION"
proof -
  have x: "bit x k \<Longrightarrow> k < 23" for k
    using bit_and_iff [of x IE_BITS_RIGHT_MASK k] assms by (auto simp: bit_ops)
  have "(b OR x) AND IE_BITS_COLLISION = b AND IE_BITS_COLLISION"
    by (rule word_eq_by_bits) (auto simp: bit_ops dest: x)
  then show ?thesis by (simp add: has_def)
qed

lemma spare_collision:
  "a AND 0xe00000 = b AND 0xe00000 \<Longrightarrow> has a IE_BITS_COLLISION = has b IE_BITS_COLLISION"
proof -
  assume h: "a AND 0xe00000 = b AND 0xe00000"
  have "c AND IE_BITS_COLLISION = (c AND 0xe00000) AND IE_BITS_COLLISION" for c :: u32
    by (simp add: and.assoc)
  then show ?thesis unfolding has_def by (metis h)
qed

lemma dead_name_collision:
  "has (bits_clear b IE_BITS_TYPE_MASK OR MACH_PORT_TYPE_DEAD_NAME) IE_BITS_COLLISION = has b IE_BITS_COLLISION"
  by (subst or_right_collision, simp, subst clear_right_fields(2), simp, rule refl)

lemma clear_type_urefs:
  "IE_BITS_TYPE (bits_clear b m) = bits_clear (IE_BITS_TYPE b) m"
  "IE_BITS_UREFS (bits_clear b m) = bits_clear (IE_BITS_UREFS b) m"
  unfolding field_defs by (rule word_eq_by_bits, auto simp: bit_ops)+

section \<open>Generations\<close>

lemma GEN_eq_self_iff: "IE_BITS_GEN b = b \<longleftrightarrow> take_bit 24 b = 0"
proof
  assume *: "IE_BITS_GEN b = b"
  show "take_bit 24 b = 0"
  proof (rule word_eq_by_bits)
    fix n :: nat
    have "bit b n \<Longrightarrow> 24 \<le> n" using arg_cong [OF *, of "\<lambda>b. bit b n"] by (simp add: IE_BITS_GEN_def bit_ops)
    then show "bit (take_bit 24 b) n = bit 0 n" by (auto simp: bit_take_bit_iff)
  qed
next
  assume *: "take_bit 24 b = 0"
  show "IE_BITS_GEN b = b"
  proof (rule word_eq_by_bits)
    fix n :: nat assume "n < 32"
    then show "bit (IE_BITS_GEN b) n = bit b n"
      using arg_cong [OF *, of "\<lambda>b. bit b n"] by (auto simp: IE_BITS_GEN_def bit_ops bit_take_bit_iff)
  qed
qed

lemma NEW_GEN_gen [simp]: "IE_BITS_GEN (IE_BITS_NEW_GEN b) = IE_BITS_NEW_GEN b"
  by (simp add: IE_BITS_NEW_GEN_def IE_BITS_GEN_def and.assoc)

lemma NEW_GEN_plus:
  assumes "IE_BITS_GEN b = b" shows "IE_BITS_NEW_GEN b = b + IE_BITS_GEN_ONE"
proof -
  have "unat b mod 2 ^ 24 = 0"
  proof -
    have "unat (take_bit 24 b) = 0" using assms unfolding GEN_eq_self_iff by simp
    then have "take_bit 24 (unat b) = 0" by (simp only: unsigned_take_bit_eq)
    then show ?thesis by (simp add: take_bit_eq_mod)
  qed
  then have "2 ^ 24 dvd (unat b + 2 ^ 26) mod 2 ^ 32"
    by (intro dvd_mod dvd_add) (simp_all add: dvd_eq_mod_eq_0)
  then have "unat (b + IE_BITS_GEN_ONE) mod 2 ^ 24 = 0"
    by (simp add: unat_word_ariths dvd_eq_mod_eq_0)
  then have "unat (take_bit 24 (b + IE_BITS_GEN_ONE)) = unat (0 :: u32)"
    by (simp only: unsigned_take_bit_eq) (simp add: take_bit_eq_mod)
  then have "IE_BITS_GEN (b + IE_BITS_GEN_ONE) = b + IE_BITS_GEN_ONE"
    unfolding GEN_eq_self_iff by (simp only: word_unat_eq_iff)
  then show ?thesis by (simp add: IE_BITS_NEW_GEN_def IE_BITS_GEN_def)
qed

text \<open>The next generation depends on the generation only.\<close>

lemma NEW_GEN_of_gen: "IE_BITS_NEW_GEN (IE_BITS_GEN b) = IE_BITS_NEW_GEN b"
proof -
  have "IE_BITS_GEN b AND bits_clear b IE_BITS_GEN_MASK = 0"
    by (rule word_eq_by_bits) (auto simp: IE_BITS_GEN_def bit_ops)
  then have "IE_BITS_GEN b + bits_clear b IE_BITS_GEN_MASK = IE_BITS_GEN b OR bits_clear b IE_BITS_GEN_MASK"
    by (rule disjunctive_add_eq_or)
  also have "\<dots> = b" by (rule word_eq_by_bits) (auto simp: IE_BITS_GEN_def bit_ops)
  finally have sum: "b + IE_BITS_GEN_ONE = bits_clear b IE_BITS_GEN_MASK + IE_BITS_NEW_GEN (IE_BITS_GEN b)"
    using NEW_GEN_plus [of "IE_BITS_GEN b"] by (simp add: algebra_simps)
  have "bits_clear b IE_BITS_GEN_MASK AND IE_BITS_NEW_GEN (IE_BITS_GEN b) = 0"
    by (rule word_eq_by_bits) (auto simp: IE_BITS_NEW_GEN_def bit_ops)
  then have "bits_clear b IE_BITS_GEN_MASK + IE_BITS_NEW_GEN (IE_BITS_GEN b) =
      bits_clear b IE_BITS_GEN_MASK OR IE_BITS_NEW_GEN (IE_BITS_GEN b)"
    by (rule disjunctive_add_eq_or)
  with sum have "IE_BITS_NEW_GEN b = (bits_clear b IE_BITS_GEN_MASK OR IE_BITS_NEW_GEN (IE_BITS_GEN b)) AND IE_BITS_GEN_MASK"
    by (simp only: IE_BITS_NEW_GEN_def)
  also have "\<dots> = IE_BITS_NEW_GEN (IE_BITS_GEN b)"
    by (rule word_eq_by_bits) (auto simp: IE_BITS_NEW_GEN_def bit_ops)
  finally show ?thesis by simp
qed

lemma NEW_GEN_funpow:
  assumes "IE_BITS_GEN b = b"
  shows "(IE_BITS_NEW_GEN ^^ k) b = b + of_nat k * IE_BITS_GEN_ONE \<and>
         IE_BITS_GEN ((IE_BITS_NEW_GEN ^^ k) b) = (IE_BITS_NEW_GEN ^^ k) b"
proof (induction k)
  case (Suc k)
  have "(IE_BITS_NEW_GEN ^^ Suc k) b = (IE_BITS_NEW_GEN ^^ k) b + IE_BITS_GEN_ONE"
    using NEW_GEN_plus [OF conjunct2 [OF Suc]] by simp
  then show ?case using Suc by (simp add: algebra_simps) (metis NEW_GEN_gen NEW_GEN_plus add.commute)
qed (use assms in simp)

lemma NEW_GEN_period:
  assumes "IE_BITS_GEN b = b"
  shows "(IE_BITS_NEW_GEN ^^ k) b = b \<longleftrightarrow> 64 dvd k"
proof -
  have "(of_nat k * IE_BITS_GEN_ONE :: u32) = of_nat (k * 2 ^ 26)" by simp
  moreover have "(of_nat (k * 2 ^ 26) :: u32) = 0 \<longleftrightarrow> 2 ^ 32 dvd k * 2 ^ 26"
    by (simp only: word_of_nat_eq_0_iff) simp
  moreover have "(2 :: nat) ^ 32 dvd k * 2 ^ 26 \<longleftrightarrow> 64 dvd k"
    by (auto simp: dvd_def)
  ultimately show ?thesis using NEW_GEN_funpow [OF assms, of k] by simp
qed

section \<open>Properties\<close>

text \<open>Port names. Packing an index that fits 24 bits with a generation and unpacking gives them
  back, and every name is what packing its own index and generation gives.\<close>

theorem name_round_trip:
  assumes "drop_bit 24 i = (0 :: u32)"
  shows "MACH_PORT_INDEX (MACH_PORT_MAKE i g) = i \<and> MACH_PORT_GEN (MACH_PORT_MAKE i g) = IE_BITS_GEN g \<and>
         MACH_PORT_MAKE (MACH_PORT_INDEX name) (MACH_PORT_GEN name) = name"
  using INDEX_MAKE [OF assms] GEN_MAKE MAKE_INDEX_GEN by blast

lemma name_round_trip_witness:
  "MACH_PORT_INDEX (MACH_PORT_MAKE 5 0x0c000000) = 5"
  using name_round_trip [where i = 5 and g = "0x0c000000"] by simp

lemma u32_sint: "sint (w :: u32) = (if uint w < 2 ^ 31 then uint w else uint w - 2 ^ 32)"
proof -
  have w: "0 \<le> uint w" "uint w < 2 ^ 32" using uint_lt2p [of w] by simp_all
  have "bit (uint w) 31 \<longleftrightarrow> \<not> uint w < 2 ^ 31"
  proof (cases "uint w < 2 ^ 31")
    case False
    then have "uint w div 2 ^ 31 = 1" using w by (intro int_div_pos_eq [where r = "uint w - 2 ^ 31"]) auto
    with False show ?thesis by (simp add: bit_iff_odd)
  qed (use w in \<open>simp add: bit_iff_odd div_pos_pos_trivial\<close>)
  then show ?thesis using w
    by (simp add: sint_uint signed_take_bit_eq_take_bit_minus take_bit_int_eq_self)
qed

lemma urefs_tests:
  assumes "urefs \<le> MACH_PORT_UREFS_MAX"
  shows "(MACH_PORT_UREFS_OVERFLOW urefs delta \<longleftrightarrow> 0 < sint delta \<and> uint urefs + sint delta > 0xffff) \<and>
         (MACH_PORT_UREFS_UNDERFLOW urefs delta \<longleftrightarrow> uint urefs + sint delta < 0)"
proof -
  have u: "0 \<le> uint urefs" "uint urefs \<le> 0xffff" "0 \<le> uint delta" "uint delta < 2 ^ 32"
    using assms uint_lt2p [of delta] by (simp_all add: word_le_def)
  have neg: "uint (- delta) = 2 ^ 32 - uint delta" if "0 < uint delta"
    using that u by (simp add: uint_word_ariths zmod_zminus1_eq_if)
  have sum: "uint (urefs + delta) = (uint urefs + uint delta) mod 2 ^ 32"
    by (simp add: uint_word_ariths)
  have less: "0 <s delta \<longleftrightarrow> 0 < sint delta" "delta <s 0 \<longleftrightarrow> sint delta < 0"
    by (simp_all add: word_sless_alt)
  show ?thesis
  proof (cases "uint delta < 2 ^ 31")
    case True
    with u have "uint (urefs + delta) = uint urefs + uint delta" unfolding sum by simp
    then show ?thesis using True u
      unfolding MACH_PORT_UREFS_OVERFLOW_def MACH_PORT_UREFS_UNDERFLOW_def less word_le_def word_less_def u32_sint
      by (auto, insert uint_nonnegative [of urefs] uint_nonnegative [of delta], linarith)
  next
    case False
    then have "uint (- delta) = 2 ^ 32 - uint delta" using neg by simp
    with False u show ?thesis
      unfolding MACH_PORT_UREFS_OVERFLOW_def MACH_PORT_UREFS_UNDERFLOW_def less word_le_def word_less_def u32_sint
      by auto
  qed
qed

lemma urefs_plus:
  assumes "urefs \<le> (0xffff :: u32)" and "0 \<le> uint urefs + sint delta" and "uint urefs + sint delta \<le> 0xffff"
  shows "uint (urefs + delta) = uint urefs + sint delta" and "urefs + delta \<le> 0xffff"
proof -
  have "sint delta = uint delta \<or> sint delta = uint delta - 2 ^ 32" by (simp only: u32_sint split: if_split) blast
  then have "(uint urefs + uint delta) mod 2 ^ 32 = (uint urefs + sint delta) mod 2 ^ 32"
    by (elim disjE) (simp_all only: add_diff_eq minus_mod_self2)
  also have "\<dots> = uint urefs + sint delta" using assms(2,3) by (intro mod_pos_pos_trivial) simp_all
  finally show sum: "uint (urefs + delta) = uint urefs + sint delta" by (simp only: uint_word_ariths len_bit0 len_num1) simp
  show "urefs + delta \<le> 0xffff" using sum assms(3) by (simp add: word_le_def)
qed

text \<open>User references. The macros decide overflow and underflow of \<open>urefs + delta\<close> exactly, for
  every signed delta, although the test is done in unsigned arithmetic that wraps around, and when neither
  holds the sum of the words is the sum of the numbers.\<close>

theorem urefs_tests_exact:
  assumes "urefs \<le> MACH_PORT_UREFS_MAX"
  shows "(MACH_PORT_UREFS_OVERFLOW urefs delta \<longleftrightarrow> 0 < sint delta \<and> uint urefs + sint delta > 0xffff) \<and>
         (MACH_PORT_UREFS_UNDERFLOW urefs delta \<longleftrightarrow> uint urefs + sint delta < 0) \<and>
         (\<not> MACH_PORT_UREFS_OVERFLOW urefs delta \<and> \<not> MACH_PORT_UREFS_UNDERFLOW urefs delta \<longrightarrow>
            uint (urefs + delta) = uint urefs + sint delta)"
proof -
  have "uint urefs \<le> 0xffff" using assms by (simp add: word_le_def)
  then show ?thesis using urefs_tests [OF assms, of delta] urefs_plus(1) [OF assms, of delta] by linarith
qed

lemma urefs_tests_exact_witness:
  "MACH_PORT_UREFS_OVERFLOW 0xfffe 2 \<and> \<not> MACH_PORT_UREFS_OVERFLOW 0xfffe 1 \<and>
   MACH_PORT_UREFS_UNDERFLOW 1 (- 2)"
  using urefs_tests_exact [where urefs = "0xfffe" and delta = 2]
    urefs_tests_exact [where urefs = "0xfffe" and delta = 1]
    urefs_tests_exact [where urefs = 1 and delta = "- 2"]
  by (simp add: sint_word_minus)

text \<open>Generations. The generation of a table slot returns to an old value only after 64
  reuses of the slot, so a stale name keeps missing until then.\<close>

theorem generation_period:
  assumes "IE_BITS_GEN gen = gen" and "0 < k" and "k < 64"
  shows "(IE_BITS_NEW_GEN ^^ k) gen \<noteq> gen \<and> (IE_BITS_NEW_GEN ^^ 64) gen = gen"
  using NEW_GEN_period [OF assms(1), of k] NEW_GEN_period [OF assms(1), of 64] assms(2,3)
  by (auto dest: dvd_imp_le)

lemma generation_period_witness:
  "(IE_BITS_NEW_GEN ^^ 3) 0xff000000 \<noteq> 0xff000000"
  using generation_period [where gen = "0xff000000" and k = 3] by (simp add: IE_BITS_GEN_def)

end
