(* ===== verification/Ipc_Splay.thy ===== *)
theory Ipc_Splay
  imports Ipc_Prelude "HOL-Library.Tree"
begin

text \<open>
  The splay tree that holds the capability entries which do not fit in the table of an IPC
  space (\<^verbatim>\<open>osfmk/ipc/ipc_splay.c\<close>). The tree is kept in the unassembled form of a top-down
  splay: a middle tree, and a left and a right tree that each have one uninitialised child
  pointer, \<^verbatim>\<open>ist_ltreep\<close> and \<^verbatim>\<open>ist_rtreep\<close>. A left tree with a hole is modelled by the
  entries on its right spine, innermost first, each with its left child; a right tree by the
  entries on its left spine with their right children. Storing through the pointer is
  \<open>lfill\<close> (\<open>rfill\<close>). An entry (\<^verbatim>\<open>ipc_tree_entry_t\<close>) is a pair of its name and its contents.
\<close>

section \<open>Data\<close>

type_synonym 'e ite = "mach_port_name_t \<times> 'e"
type_synonym 'e ite_tree = "'e ite tree"
type_synonym 'e lspine = "('e ite_tree \<times> 'e ite) list"
type_synonym 'e rspine = "('e ite \<times> 'e ite_tree) list"

record 'e ipc_splay_tree =
  ist_name :: mach_port_name_t
  ist_root :: "'e ite_tree"
  ist_ltree :: "'e lspine"
  ist_rtree :: "'e rspine"

abbreviation (input) MACH_PORT_SMALLEST :: mach_port_name_t where "MACH_PORT_SMALLEST \<equiv> 0"
abbreviation (input) MACH_PORT_LARGEST :: mach_port_name_t where "MACH_PORT_LARGEST \<equiv> - 1"

fun lfill :: "'e lspine \<Rightarrow> 'e ite_tree \<Rightarrow> 'e ite_tree" where
  "lfill [] t = t"
| "lfill ((l, n) # c) t = lfill c (Node l n t)"

fun rfill :: "'e rspine \<Rightarrow> 'e ite_tree \<Rightarrow> 'e ite_tree" where
  "rfill [] t = t"
| "rfill ((n, r) # c) t = rfill c (Node t n r)"

section \<open>Splaying\<close>

text \<open>One turn of the loop per call: the break and return cases, then \<^verbatim>\<open>rotate_right\<close> and
  \<^verbatim>\<open>link_right\<close>, \<^verbatim>\<open>link_right\<close> and \<^verbatim>\<open>link_left\<close>, or \<^verbatim>\<open>link_right\<close> alone, and their mirror
  images.\<close>

fun ipc_splay_prim_lookup ::
  "mach_port_name_t \<Rightarrow> 'e ite_tree \<Rightarrow> 'e lspine \<Rightarrow> 'e rspine \<Rightarrow>
     'e ite_tree \<times> 'e lspine \<times> 'e rspine" where
  "ipc_splay_prim_lookup name Leaf lt rt = (Leaf, lt, rt)"
| "ipc_splay_prim_lookup name (Node l (k, e) r) lt rt =
    (if name = k then (Node l (k, e) r, lt, rt)
     else if name < k then
       (case l of
          Leaf \<Rightarrow> (Node l (k, e) r, lt, rt)
        | Node ll (lk, le) lr \<Rightarrow>
            if name < lk \<and> ll \<noteq> Leaf then
              ipc_splay_prim_lookup name ll lt (((lk, le), Node lr (k, e) r) # rt)
            else if lk < name \<and> lr \<noteq> Leaf then
              ipc_splay_prim_lookup name lr ((ll, (lk, le)) # lt) (((k, e), r) # rt)
            else
              ipc_splay_prim_lookup name l lt (((k, e), r) # rt))
     else
       (case r of
          Leaf \<Rightarrow> (Node l (k, e) r, lt, rt)
        | Node rl (rk, re) rr \<Rightarrow>
            if rk < name \<and> rr \<noteq> Leaf then
              ipc_splay_prim_lookup name rr ((Node l (k, e) rl, (rk, re)) # lt) rt
            else if name < rk \<and> rl \<noteq> Leaf then
              ipc_splay_prim_lookup name rl ((l, (k, e)) # lt) (((rk, re), rr) # rt)
            else
              ipc_splay_prim_lookup name r ((l, (k, e)) # lt) rt))"

fun ipc_splay_prim_assemble ::
  "'e ite_tree \<Rightarrow> 'e lspine \<Rightarrow> 'e rspine \<Rightarrow> 'e ite_tree" where
  "ipc_splay_prim_assemble Leaf lt rt = Leaf"
| "ipc_splay_prim_assemble (Node l n r) lt rt = Node (lfill lt l) n (rfill rt r)"

section \<open>Operations\<close>

definition ipc_splay_tree_init :: "'e ipc_splay_tree \<Rightarrow> 'e ipc_splay_tree" where
  "ipc_splay_tree_init splay = splay\<lparr>ist_root := Leaf\<rparr>"

definition ipc_splay_tree_pick :: "'e ipc_splay_tree \<Rightarrow> 'e ite option" where
  "ipc_splay_tree_pick splay = (case ist_root splay of Leaf \<Rightarrow> None | Node l n r \<Rightarrow> Some n)"

text \<open>The reassembly and the splay that \<^verbatim>\<open>lookup\<close>, \<^verbatim>\<open>insert\<close>, \<^verbatim>\<open>delete\<close>, \<^verbatim>\<open>split\<close> and
  \<^verbatim>\<open>bounds\<close> begin with, when the name is not the one of the last lookup.\<close>

definition ipc_splay_seek ::
  "'e ipc_splay_tree \<Rightarrow> mach_port_name_t \<Rightarrow> 'e ite_tree \<times> 'e lspine \<times> 'e rspine" where
  "ipc_splay_seek splay name =
    (if ist_name splay \<noteq> name then
       ipc_splay_prim_lookup name
         (ipc_splay_prim_assemble (ist_root splay) (ist_ltree splay) (ist_rtree splay)) [] []
     else (ist_root splay, ist_ltree splay, ist_rtree splay))"

definition ipc_splay_tree_lookup ::
  "'e ipc_splay_tree \<Rightarrow> mach_port_name_t \<Rightarrow> 'e option \<times> 'e ipc_splay_tree" where
  "ipc_splay_tree_lookup splay name =
    (case ist_root splay of
       Leaf \<Rightarrow> (None, splay)
     | Node _ _ _ \<Rightarrow>
         (case ipc_splay_seek splay name of (root, lt, rt) \<Rightarrow>
            (case root of
               Leaf \<Rightarrow> None
             | Node _ (k, e) _ \<Rightarrow> if name \<noteq> k then None else Some e,
             \<lparr>ist_name = name, ist_root = root, ist_ltree = lt, ist_rtree = rt\<rparr>)))"

definition ipc_splay_tree_insert ::
  "'e ipc_splay_tree \<Rightarrow> mach_port_name_t \<Rightarrow> 'e \<Rightarrow> 'e ipc_splay_tree option" where
  "ipc_splay_tree_insert splay name entry =
    do { (l, r) \<leftarrow>
           (case ist_root splay of
              Leaf \<Rightarrow> Some (Leaf, Leaf)
            | Node _ _ _ \<Rightarrow>
                (case ipc_splay_seek splay name of
                   (Leaf, lt, rt) \<Rightarrow> None
                 | (Node rl (k, e) rr, lt, rt) \<Rightarrow>
                     do { kassert (k \<noteq> name);
                          if name < k then
                            do { kassert (rl = Leaf);
                                 Some (lfill lt Leaf, rfill rt (Node rl (k, e) rr)) }
                          else
                            do { kassert (rr = Leaf);
                                 Some (lfill lt (Node rl (k, e) rr), rfill rt Leaf) } }));
         Some \<lparr>ist_name = name, ist_root = Node l (name, entry) r,
               ist_ltree = [], ist_rtree = []\<rparr> }"

text \<open>A splay tree whose root is stored anew: if the root is null the other fields keep
  their old values.\<close>

definition ist_set_root :: "'e ipc_splay_tree \<Rightarrow> 'e ite_tree \<Rightarrow> 'e ipc_splay_tree" where
  "ist_set_root splay root =
    (case root of
       Leaf \<Rightarrow> splay\<lparr>ist_root := Leaf\<rparr>
     | Node _ (k, e) _ \<Rightarrow> \<lparr>ist_name = k, ist_root = root, ist_ltree = [], ist_rtree = []\<rparr>)"

text \<open>The part of \<^verbatim>\<open>delete\<close> that joins the two subtrees of the deleted entry: the largest
  entry of the left one is splayed to its root and takes the right one as its child.\<close>

definition ipc_splay_delete_merge :: "'e ite_tree \<Rightarrow> 'e ite_tree \<Rightarrow> 'e ite_tree option" where
  "ipc_splay_delete_merge root saved =
    (if root = Leaf then Some saved
     else if saved \<noteq> Leaf then
       (case ipc_splay_prim_lookup MACH_PORT_LARGEST root [] [] of
          (mid, lt, rt) \<Rightarrow>
            (case ipc_splay_prim_assemble mid lt rt of
               Leaf \<Rightarrow> None
             | Node ml mn mr \<Rightarrow> do { kassert (mr = Leaf); Some (Node ml mn saved) }))
     else Some root)"

definition ipc_splay_tree_delete ::
  "'e ipc_splay_tree \<Rightarrow> mach_port_name_t \<Rightarrow> 'e ipc_splay_tree option" where
  "ipc_splay_tree_delete splay name =
    do { kassert (ist_root splay \<noteq> Leaf);
         (case ipc_splay_seek splay name of
            (Leaf, lt, rt) \<Rightarrow> None
          | (Node l (k, e) r, lt, rt) \<Rightarrow>
              do { kassert (k = name);
                   root \<leftarrow> ipc_splay_delete_merge (lfill lt l) (rfill rt r);
                   Some (ist_set_root splay root) }) }"

definition ipc_splay_tree_split ::
  "'e ipc_splay_tree \<Rightarrow> mach_port_name_t \<Rightarrow> 'e ipc_splay_tree \<Rightarrow>
     ('e ipc_splay_tree \<times> 'e ipc_splay_tree) option" where
  "ipc_splay_tree_split splay name small0 =
    (let small = ipc_splay_tree_init small0 in
     if ist_root splay = Leaf then Some (splay, small)
     else
       (case ipc_splay_seek splay name of
          (Leaf, lt, rt) \<Rightarrow> None
        | (Node l (k, e) r, lt, rt) \<Rightarrow>
            if k < name then
              do { kassert (r = Leaf);
                   Some (ist_set_root splay (rfill rt Leaf),
                         \<lparr>ist_name = k, ist_root = Node (lfill lt l) (k, e) r,
                          ist_ltree = [], ist_rtree = []\<rparr>) }
            else
              Some (\<lparr>ist_name = name, ist_root = Node Leaf (k, e) r,
                     ist_ltree = [], ist_rtree = rt\<rparr>,
                    ist_set_root small (lfill lt l))))"

definition ipc_splay_tree_join ::
  "'e ipc_splay_tree \<Rightarrow> 'e ipc_splay_tree \<Rightarrow>
     ('e ipc_splay_tree \<times> 'e ipc_splay_tree) option" where
  "ipc_splay_tree_join splay small =
    (case ipc_splay_prim_assemble (ist_root small) (ist_ltree small) (ist_rtree small) of
       Leaf \<Rightarrow> Some (splay, small)
     | Node sl (sk, se) sr \<Rightarrow>
         do { root' \<leftarrow>
                (if ist_root splay = Leaf then Some (Node sl (sk, se) sr)
                 else
                   (case ipc_splay_seek splay MACH_PORT_SMALLEST of (root, lt, rt) \<Rightarrow>
                      (case ipc_splay_prim_assemble root lt rt of
                         Leaf \<Rightarrow> None
                       | Node l (k, e) r \<Rightarrow>
                           do { kassert (l = Leaf);
                                kassert (sk < k);
                                Some (Node (Node sl (sk, se) sr) (k, e) r) })));
              Some (ist_set_root splay root', small\<lparr>ist_root := Leaf\<rparr>) })"

text \<open>The name that \<^verbatim>\<open>bounds\<close> reads back through \<^verbatim>\<open>ist_ltreep\<close> is that of the innermost
  entry of the left spine; it is \<^verbatim>\<open>&ist_ltree\<close> itself when the spine is empty.\<close>

definition ipc_splay_tree_bounds ::
  "'e ipc_splay_tree \<Rightarrow> mach_port_name_t \<Rightarrow>
     (mach_port_name_t \<times> mach_port_name_t) \<times> 'e ipc_splay_tree" where
  "ipc_splay_tree_bounds splay name =
    (if ist_root splay = Leaf then ((MACH_PORT_LARGEST, MACH_PORT_SMALLEST), splay)
     else
       (case ipc_splay_seek splay name of (root, lt, rt) \<Rightarrow>
          let rname = (case root of Leaf \<Rightarrow> name | Node _ (k, e) _ \<Rightarrow> k) in
          ((if rname \<le> name then rname
            else (case lt of [] \<Rightarrow> MACH_PORT_LARGEST | (l, (k, e)) # _ \<Rightarrow> k),
            if rname \<ge> name then rname
            else (case rt of [] \<Rightarrow> MACH_PORT_SMALLEST | ((k, e), r) # _ \<Rightarrow> k)),
           \<lparr>ist_name = name, ist_root = root, ist_ltree = lt, ist_rtree = rt\<rparr>)))"

section \<open>The entries of a splay tree\<close>

fun lctx :: "'e lspine \<Rightarrow> 'e ite list" where
  "lctx [] = []"
| "lctx ((l, n) # c) = lctx c @ inorder l @ [n]"

fun rctx :: "'e rspine \<Rightarrow> 'e ite list" where
  "rctx [] = []"
| "rctx ((n, r) # c) = n # inorder r @ rctx c"

definition ist_entries :: "'e ipc_splay_tree \<Rightarrow> 'e ite list" where
  "ist_entries splay =
    (if ist_root splay = Leaf then []
     else lctx (ist_ltree splay) @ inorder (ist_root splay) @ rctx (ist_rtree splay))"

abbreviation names :: "'e ite list \<Rightarrow> mach_port_name_t list" where
  "names xs \<equiv> map fst xs"

abbreviation ascending :: "'e ite list \<Rightarrow> bool" where
  "ascending xs \<equiv> sorted_wrt (<) (names xs)"

text \<open>What a top-down splay for \<open>name\<close> leaves at the root of the middle tree: the name itself,
  or the last entry visited, whose child on the side of \<open>name\<close> is null.\<close>

fun splayed_root :: "mach_port_name_t \<Rightarrow> 'e ite_tree \<Rightarrow> bool" where
  "splayed_root name Leaf = False"
| "splayed_root name (Node l (k, e) r) \<longleftrightarrow>
     k = name \<or> (name < k \<and> l = Leaf) \<or> (k < name \<and> r = Leaf)"

definition splayed :: "mach_port_name_t \<Rightarrow> 'e ite_tree \<Rightarrow> 'e lspine \<Rightarrow> 'e rspine \<Rightarrow> bool" where
  "splayed name t lt rt \<longleftrightarrow>
     splayed_root name t \<and> (\<forall>x \<in> set (lctx lt). fst x < name) \<and> (\<forall>x \<in> set (rctx rt). name < fst x)"

definition ist_inv :: "'e ipc_splay_tree \<Rightarrow> bool" where
  "ist_inv splay \<longleftrightarrow> ascending (ist_entries splay) \<and>
     (ist_root splay \<noteq> Leaf \<longrightarrow>
        splayed (ist_name splay) (ist_root splay) (ist_ltree splay) (ist_rtree splay))"

lemma inorder_lfill [simp]: "inorder (lfill c t) = lctx c @ inorder t"
  by (induction c t rule: lfill.induct) auto

lemma inorder_rfill [simp]: "inorder (rfill c t) = inorder t @ rctx c"
  by (induction c t rule: rfill.induct) auto

lemma lfill_Leaf_iff [simp]: "lfill c t = Leaf \<longleftrightarrow> c = [] \<and> t = Leaf"
  by (induction c t rule: lfill.induct) auto

lemma rfill_Leaf_iff [simp]: "rfill c t = Leaf \<longleftrightarrow> c = [] \<and> t = Leaf"
  by (induction c t rule: rfill.induct) auto

lemma inorder_Nil_iff [simp]: "inorder t = [] \<longleftrightarrow> t = Leaf"
  by (cases t) auto

lemma inorder_assemble:
  "t \<noteq> Leaf \<Longrightarrow> inorder (ipc_splay_prim_assemble t lt rt) = lctx lt @ inorder t @ rctx rt"
  by (cases t) auto

lemma assemble_Leaf_iff [simp]: "ipc_splay_prim_assemble t lt rt = Leaf \<longleftrightarrow> t = Leaf"
  by (cases t) auto

lemma prim_lookup_inorder:
  "ipc_splay_prim_lookup name t lt rt = (t', lt', rt') \<Longrightarrow>
     lctx lt' @ inorder t' @ rctx rt' = lctx lt @ inorder t @ rctx rt"
  by (induction name t lt rt rule: ipc_splay_prim_lookup.induct)
    (auto split: if_splits tree.splits prod.splits)

lemma prim_lookup_not_Leaf:
  "ipc_splay_prim_lookup name t lt rt = (t', lt', rt') \<Longrightarrow> t \<noteq> Leaf \<Longrightarrow> t' \<noteq> Leaf"
  by (induction name t lt rt rule: ipc_splay_prim_lookup.induct)
    (auto split: if_splits tree.splits prod.splits)

lemma ascending_append:
  "ascending (xs @ ys) \<longleftrightarrow>
     ascending xs \<and> ascending ys \<and> (\<forall>x \<in> set xs. \<forall>y \<in> set ys. fst x < fst y)"
  by (simp add: sorted_wrt_append)

lemma ascending_Cons:
  "ascending ((k, e) # ys) \<longleftrightarrow> ascending ys \<and> (\<forall>y \<in> set ys. k < fst y)"
  by auto

lemma ascending_mid:
  "ascending (xs @ (k, e) # ys) \<longleftrightarrow>
     ascending xs \<and> ascending ys \<and> (\<forall>x \<in> set xs. fst x < k) \<and> (\<forall>y \<in> set ys. k < fst y)"
  unfolding ascending_append ascending_Cons by (auto intro: less_trans)

lemma ascending_Node:
  "ascending (inorder (Node l (k, e) r)) \<longleftrightarrow>
     ascending (inorder l) \<and> ascending (inorder r) \<and>
     (\<forall>x \<in> set_tree l. fst x < k) \<and> (\<forall>y \<in> set_tree r. k < fst y)"
  by (simp only: inorder.simps append_Cons append_Nil ascending_mid set_inorder)

lemma prim_lookup_splayed:
  assumes "ipc_splay_prim_lookup name t lt rt = (t', lt', rt')"
    and "ascending (inorder t)" and "t \<noteq> Leaf"
    and "\<forall>x \<in> set (lctx lt). fst x < name" and "\<forall>x \<in> set (rctx rt). name < fst x"
  shows "splayed name t' lt' rt'"
  using assms
proof (induction name t lt rt rule: ipc_splay_prim_lookup.induct)
  case (1 name lt rt)
  then show ?case by simp
next
  case (2 name l k e r lt rt)
  note prems = "2.prems"
  show ?case
  proof (cases "name = k")
    case True
    with prems show ?thesis by (auto simp: splayed_def)
  next
    case neq: False
    show ?thesis
    proof (cases "name < k")
      case lt: True
      show ?thesis
      proof (cases l)
        case Leaf
        with prems lt neq show ?thesis by (auto simp: splayed_def)
      next
        case (Node ll n lr)
        obtain lk le where n: "n = (lk, le)" by (cases n)
        show ?thesis
        proof (cases "name < lk \<and> ll \<noteq> Leaf")
          case True
          show ?thesis
            by (rule "2.IH"(1) [OF neq lt Node n [symmetric] True])
              (use prems neq lt neq Node n True in \<open>auto simp: ascending_Node simp del: inorder.simps intro: less_trans\<close>)
        next
          case no1: False
          show ?thesis
          proof (cases "lk < name \<and> lr \<noteq> Leaf")
            case True
            show ?thesis
              by (rule "2.IH"(2) [OF neq lt Node n [symmetric] no1 True])
                (use prems neq lt neq Node n no1 True in \<open>auto simp: ascending_Node simp del: inorder.simps intro: less_trans\<close>)
          next
            case False
            show ?thesis
              by (rule "2.IH"(3) [OF neq lt Node n [symmetric] no1 False])
                (use prems neq lt neq Node n no1 False in \<open>auto simp: ascending_Node simp del: inorder.simps intro: less_trans\<close>)
          qed
        qed
      qed
    next
      case gt: False
      with neq have gt': "k < name" by auto
      show ?thesis
      proof (cases r)
        case Leaf
        with prems gt gt' neq show ?thesis by (auto simp: splayed_def)
      next
        case (Node rl n rr)
        obtain rk re where n: "n = (rk, re)" by (cases n)
        show ?thesis
        proof (cases "rk < name \<and> rr \<noteq> Leaf")
          case True
          show ?thesis
            by (rule "2.IH"(4) [OF neq gt Node n [symmetric] True])
              (use prems neq gt neq Node n True in \<open>auto simp: ascending_Node simp del: inorder.simps intro: less_trans\<close>)
        next
          case no1: False
          show ?thesis
          proof (cases "name < rk \<and> rl \<noteq> Leaf")
            case True
            show ?thesis
              by (rule "2.IH"(5) [OF neq gt Node n [symmetric] no1 True])
                (use prems neq gt neq Node n no1 True in \<open>auto simp: ascending_Node simp del: inorder.simps intro: less_trans\<close>)
          next
            case False
            show ?thesis
              by (rule "2.IH"(6) [OF neq gt Node n [symmetric] no1 False])
                (use prems neq gt neq Node n no1 False in \<open>auto simp: ascending_Node simp del: inorder.simps intro: less_trans\<close>)
          qed
        qed
      qed
    qed
  qed
qed

abbreviation below :: "mach_port_name_t \<Rightarrow> 'e ite list \<Rightarrow> 'e ite list" where
  "below name xs \<equiv> filter (\<lambda>x. fst x < name) xs"

abbreviation above :: "mach_port_name_t \<Rightarrow> 'e ite list \<Rightarrow> 'e ite list" where
  "above name xs \<equiv> filter (\<lambda>x. name < fst x) xs"

lemma below_all: "\<forall>x \<in> set xs. fst x < name \<Longrightarrow> below name xs = xs \<and> above name xs = []"
  by (induction xs) auto

lemma above_all: "\<forall>x \<in> set xs. name < fst x \<Longrightarrow> above name xs = xs \<and> below name xs = []"
  by (induction xs) auto

lemma ascending_map_of:
  "ascending (xs @ (k, e) # ys) \<Longrightarrow> map_of (xs @ (k, e) # ys) k = Some e"
  unfolding ascending_mid by (force simp: map_add_def split: option.splits dest: map_of_SomeD)

lemma map_of_None_names: "\<forall>x \<in> set xs. fst x \<noteq> k \<Longrightarrow> map_of xs k = None"
  by (auto simp: map_of_eq_None_iff)

lemma splayed_cases:
  assumes "splayed name t lt rt" and es: "lctx lt @ inorder t @ rctx rt = es" and "ascending es"
  obtains (found) l e r where "t = Node l (name, e) r"
      "below name es = lctx lt @ inorder l" "above name es = inorder r @ rctx rt"
      "map_of es name = Some e"
  | (above) k e r where "t = Node Leaf (k, e) r" "name < k"
      "below name es = lctx lt" "above name es = (k, e) # inorder r @ rctx rt"
      "map_of es name = None"
  | (below) l k e where "t = Node l (k, e) Leaf" "k < name"
      "below name es = lctx lt @ inorder l @ [(k, e)]" "above name es = rctx rt"
      "map_of es name = None"
proof -
  from assms(1) obtain l k e r where t: "t = Node l (k, e) r"
    by (cases t) (auto simp: splayed_def)
  have L: "\<forall>x \<in> set (lctx lt). fst x < name" and R: "\<forall>x \<in> set (rctx rt). name < fst x"
    using assms(1) by (auto simp: splayed_def)
  have asc: "ascending ((lctx lt @ inorder l) @ (k, e) # (inorder r @ rctx rt))"
    using assms(2,3) t by simp
  then have lk: "\<forall>x \<in> set (inorder l). fst x < k" and rk: "\<forall>x \<in> set (inorder r). k < fst x"
    unfolding ascending_mid by auto
  note bs = below_all [OF L] above_all [OF R]
  consider "k = name" | "name < k" "l = Leaf" | "k < name" "r = Leaf"
    using assms(1) t by (auto simp: splayed_def)
  then show thesis
  proof cases
    case 1
    show ?thesis
    proof (rule found)
      show "t = Node l (name, e) r" using t 1 by simp
      show "below name es = lctx lt @ inorder l"
        using bs below_all [OF lk] above_all [OF rk] 1 t es [symmetric] by simp
      show "above name es = inorder r @ rctx rt"
        using bs below_all [OF lk] above_all [OF rk] 1 t es [symmetric] by simp
      show "map_of es name = Some e"
        using ascending_map_of [OF asc] 1 t es [symmetric] by simp
    qed
  next
    case 2
    have rk': "\<forall>x \<in> set (inorder r). name < fst x" using rk 2 by (meson less_trans)
    show ?thesis
    proof (rule above)
      show "t = Node Leaf (k, e) r" "name < k" using t 2 by simp_all
      show "below name es = lctx lt"
        using bs above_all [OF rk'] 2 t es [symmetric] by (auto simp: less_not_sym)
      show "above name es = (k, e) # inorder r @ rctx rt"
        using bs above_all [OF rk'] 2 t es [symmetric] by simp
      show "map_of es name = None"
        using L R rk' 2 t es [symmetric] by (intro map_of_None_names) (auto simp del: set_inorder)
    qed
  next
    case 3
    have lk': "\<forall>x \<in> set (inorder l). fst x < name" using lk 3 by (meson less_trans)
    show ?thesis
    proof (rule below)
      show "t = Node l (k, e) Leaf" "k < name" using t 3 by simp_all
      show "below name es = lctx lt @ inorder l @ [(k, e)]"
        using bs below_all [OF lk'] 3 t es [symmetric] by simp
      show "above name es = rctx rt"
        using bs below_all [OF lk'] 3 t es [symmetric] by (auto simp: less_not_sym)
      show "map_of es name = None"
        using L R lk' 3 t es [symmetric] by (intro map_of_None_names) (auto simp del: set_inorder)
    qed
  qed
qed

lemma seek_spec:
  assumes "ist_inv splay" and "ist_root splay \<noteq> Leaf"
    and "ipc_splay_seek splay name = (t, lt, rt)"
  shows "lctx lt @ inorder t @ rctx rt = ist_entries splay" and "splayed name t lt rt" and "t \<noteq> Leaf"
proof -
  let ?a = "ipc_splay_prim_assemble (ist_root splay) (ist_ltree splay) (ist_rtree splay)"
  have a: "?a \<noteq> Leaf" "inorder ?a = ist_entries splay"
    using assms(2) by (simp_all add: inorder_assemble ist_entries_def)
  have "lctx lt @ inorder t @ rctx rt = ist_entries splay \<and> splayed name t lt rt \<and> t \<noteq> Leaf"
  proof (cases "ist_name splay = name")
    case True
    with assms show ?thesis by (auto simp: ipc_splay_seek_def ist_inv_def ist_entries_def)
  next
    case False
    with assms(3) have lk: "ipc_splay_prim_lookup name ?a [] [] = (t, lt, rt)"
      by (simp add: ipc_splay_seek_def)
    have "ascending (inorder ?a)" using assms(1) a by (simp add: ist_inv_def)
    from prim_lookup_splayed [OF lk this a(1)] prim_lookup_inorder [OF lk]
      prim_lookup_not_Leaf [OF lk a(1)] a
    show ?thesis by simp
  qed
  then show "lctx lt @ inorder t @ rctx rt = ist_entries splay" "splayed name t lt rt" "t \<noteq> Leaf"
    by auto
qed

section \<open>What the operations do to the entries\<close>

lemma ist_inv_init [simp]: "ist_inv (ipc_splay_tree_init splay)"
  and ist_entries_init [simp]: "ist_entries (ipc_splay_tree_init splay) = []"
  by (simp_all add: ist_inv_def ist_entries_def ipc_splay_tree_init_def)

lemma ist_inv_empty: "ist_root splay = Leaf \<Longrightarrow> ist_inv splay \<and> ist_entries splay = []"
  by (simp add: ist_inv_def ist_entries_def)

lemma ist_inv_make:
  "ascending (inorder (Node l (k, e) r)) \<Longrightarrow>
   ist_inv \<lparr>ist_name = k, ist_root = Node l (k, e) r, ist_ltree = [], ist_rtree = []\<rparr>"
  by (simp add: ist_inv_def ist_entries_def splayed_def)

lemma ist_set_root_spec:
  assumes "ascending (inorder t)"
  shows "ist_inv (ist_set_root splay t)" and "ist_entries (ist_set_root splay t) = inorder t"
  using assms by (auto simp: ist_set_root_def ist_inv_def ist_entries_def splayed_def split: tree.splits)

lemma ascending_filter: "ascending xs \<Longrightarrow> ascending (filter P xs)"
  by (simp add: sorted_wrt_map sorted_wrt_filter)

lemma lookup_spec:
  assumes "ist_inv splay"
  shows "\<exists>splay'. ipc_splay_tree_lookup splay name = (map_of (ist_entries splay) name, splay') \<and>
           ist_inv splay' \<and> ist_entries splay' = ist_entries splay"
proof (cases "ist_root splay = Leaf")
  case True
  with assms show ?thesis by (simp add: ipc_splay_tree_lookup_def ist_entries_def)
next
  case False
  obtain t lt rt where sk: "ipc_splay_seek splay name = (t, lt, rt)" by (cases "ipc_splay_seek splay name") auto
  note spec = seek_spec [OF assms False sk]
  let ?s = "\<lparr>ist_name = name, ist_root = t, ist_ltree = lt, ist_rtree = rt\<rparr>"
  have asc: "ascending (ist_entries splay)" using assms by (simp add: ist_inv_def)
  have inv: "ist_inv ?s" "ist_entries ?s = ist_entries splay"
    using asc spec by (simp_all add: ist_inv_def ist_entries_def)
  have "ipc_splay_tree_lookup splay name = (map_of (ist_entries splay) name, ?s)"
    by (cases rule: splayed_cases [OF spec(2,1) asc])
      (use False sk in \<open>auto simp: ipc_splay_tree_lookup_def neq_Leaf_iff\<close>)
  with inv show ?thesis by blast
qed

lemma insert_spec:
  assumes "ist_inv splay" and "map_of (ist_entries splay) name = None"
  shows "\<exists>splay'. ipc_splay_tree_insert splay name entry = Some splay' \<and> ist_inv splay' \<and>
           ist_entries splay' = below name (ist_entries splay) @ (name, entry) # above name (ist_entries splay)"
proof -
  let ?es = "ist_entries splay"
  have asc': "ascending (below name ?es @ (name, entry) # above name ?es)"
    using assms(1) by (simp only: ascending_mid) (auto simp: ist_inv_def ascending_filter)
  have goal: ?thesis
    if "ipc_splay_tree_insert splay name entry =
          Some \<lparr>ist_name = name, ist_root = Node l (name, entry) r, ist_ltree = [], ist_rtree = []\<rparr>"
      and "inorder l = below name ?es" and "inorder r = above name ?es" for l r
  proof -
    have "ascending (inorder (Node l (name, entry) r))" using asc' that(2,3) by simp
    from ist_inv_make [OF this] that show ?thesis by (simp add: ist_entries_def)
  qed
  show ?thesis
  proof (cases "ist_root splay = Leaf")
    case True
    show ?thesis
      by (rule goal [of Leaf Leaf]) (use True in \<open>simp_all add: ipc_splay_tree_insert_def ist_entries_def\<close>)
  next
    case False
    obtain t lt rt where sk: "ipc_splay_seek splay name = (t, lt, rt)"
      by (cases "ipc_splay_seek splay name") auto
    note spec = seek_spec [OF assms(1) False sk]
    have asc: "ascending ?es" using assms(1) by (simp add: ist_inv_def)
    from spec(2,1) asc show ?thesis
    proof (cases rule: splayed_cases)
      case found
      with assms(2) show ?thesis by simp
    next
      case (above k e r)
      show ?thesis
        by (rule goal [of "lfill lt Leaf" "rfill rt t"])
          (use above False sk in \<open>auto simp: ipc_splay_tree_insert_def neq_Leaf_iff\<close>)
    next
      case (below l k e)
      show ?thesis
        by (rule goal [of "lfill lt t" "rfill rt Leaf"])
          (use below False sk in \<open>auto simp: ipc_splay_tree_insert_def neq_Leaf_iff\<close>)
    qed
  qed
qed

text \<open>Splaying for the largest name leaves a root with no right child.\<close>

lemma prim_lookup_largest:
  assumes "ipc_splay_prim_lookup MACH_PORT_LARGEST t [] [] = (m, lt, rt)"
    and "ascending (inorder t)" and "t \<noteq> Leaf"
  shows "\<exists>ml mn. ipc_splay_prim_assemble m lt rt = Node ml mn Leaf \<and> inorder ml @ [mn] = inorder t"
proof -
  have sp: "splayed MACH_PORT_LARGEST m lt rt"
    by (rule prim_lookup_splayed [OF assms]) simp_all
  obtain l k e r where m: "m = Node l (k, e) r"
    using prim_lookup_not_Leaf [OF assms(1,3)] by (cases m) auto
  have top: "x \<le> MACH_PORT_LARGEST" for x :: mach_port_name_t by simp
  have rt: "rt = []"
  proof (cases rt)
    case (Cons p c)
    with sp have "MACH_PORT_LARGEST < fst (fst p)" by (cases p) (auto simp: splayed_def)
    with top [of "fst (fst p)"] show ?thesis by (simp add: not_less [symmetric])
  qed simp
  have io: "lctx lt @ inorder m = inorder t"
    using prim_lookup_inorder [OF assms(1)] rt by simp
  have "r = Leaf"
  proof (rule ccontr)
    assume "r \<noteq> Leaf"
    then obtain y where y: "y \<in> set (inorder r)" by (cases r) auto
    have "k = MACH_PORT_LARGEST"
      using sp m \<open>r \<noteq> Leaf\<close> top [of k] by (auto simp: splayed_def not_less [symmetric])
    moreover have "ascending ((lctx lt @ inorder l) @ (k, e) # inorder r)"
      using assms(2) io [symmetric] m by simp
    then have "k < fst y" using y unfolding ascending_mid by blast
    ultimately show False using top [of "fst y"] by (simp add: not_less [symmetric])
  qed
  with m rt io show ?thesis by auto
qed

lemma delete_merge_spec:
  assumes "ascending (inorder root)"
  shows "\<exists>new. ipc_splay_delete_merge root saved = Some new \<and> inorder new = inorder root @ inorder saved"
proof (cases "root = Leaf \<or> saved = Leaf")
  case True
  then show ?thesis by (auto simp: ipc_splay_delete_merge_def)
next
  case False
  obtain m lt rt where lk: "ipc_splay_prim_lookup MACH_PORT_LARGEST root [] [] = (m, lt, rt)"
    by (cases "ipc_splay_prim_lookup MACH_PORT_LARGEST root [] []") auto
  from prim_lookup_largest [OF lk assms] False obtain ml mn where
    "ipc_splay_prim_assemble m lt rt = Node ml mn Leaf" and io: "inorder ml @ [mn] = inorder root"
    by auto
  with lk False have "ipc_splay_delete_merge root saved = Some (Node ml mn saved)"
    by (simp add: ipc_splay_delete_merge_def)
  moreover have "inorder (Node ml mn saved) = inorder root @ inorder saved"
    by (simp flip: io)
  ultimately show ?thesis by blast
qed

lemma delete_spec:
  assumes "ist_inv splay" and "map_of (ist_entries splay) name \<noteq> None"
  shows "\<exists>splay'. ipc_splay_tree_delete splay name = Some splay' \<and> ist_inv splay' \<and>
           ist_entries splay' = below name (ist_entries splay) @ above name (ist_entries splay)"
proof -
  let ?es = "ist_entries splay"
  have asc: "ascending ?es" using assms(1) by (simp add: ist_inv_def)
  have ne: "ist_root splay \<noteq> Leaf" using assms(2) by (auto simp: ist_entries_def)
  obtain t lt rt where sk: "ipc_splay_seek splay name = (t, lt, rt)"
    by (cases "ipc_splay_seek splay name") auto
  note spec = seek_spec [OF assms(1) ne sk]
  from spec(2,1) asc show ?thesis
  proof (cases rule: splayed_cases)
    case (found l e r)
    have asc': "ascending (inorder (lfill lt l))" "ascending (inorder (rfill rt r))"
      "ascending (inorder (lfill lt l) @ inorder (rfill rt r))"
    proof -
      have "?es = (lctx lt @ inorder l) @ (name, e) # (inorder r @ rctx rt)"
        using spec(1) found(1) by simp
      then have mid: "ascending ((lctx lt @ inorder l) @ (name, e) # (inorder r @ rctx rt))"
        using asc by simp
      then have bds: "\<forall>x \<in> set (lctx lt @ inorder l). fst x < name"
          "\<forall>x \<in> set (inorder r @ rctx rt). name < fst x"
        unfolding ascending_mid by blast+
      show 1: "ascending (inorder (lfill lt l))" "ascending (inorder (rfill rt r))"
        using mid by (simp_all only: ascending_mid inorder_lfill inorder_rfill)
      show "ascending (inorder (lfill lt l) @ inorder (rfill rt r))"
        unfolding ascending_append using 1 bds by (auto simp del: set_inorder intro: less_trans)
    qed
    obtain new where new: "ipc_splay_delete_merge (lfill lt l) (rfill rt r) = Some new"
      "inorder new = below name ?es @ above name ?es"
      using delete_merge_spec [OF asc'(1), of "rfill rt r"] found by auto
    have "ipc_splay_tree_delete splay name = Some (ist_set_root splay new)"
      using new(1) ne sk found(1) by (simp add: ipc_splay_tree_delete_def)
    moreover have "ascending (inorder new)" using new(2) asc'(3) found by simp
    ultimately show ?thesis using ist_set_root_spec [of new splay] new(2) by simp
  next
    case above
    with assms(2) show ?thesis by simp
  next
    case below
    with assms(2) show ?thesis by simp
  qed
qed

abbreviation atleast :: "mach_port_name_t \<Rightarrow> 'e ite list \<Rightarrow> 'e ite list" where
  "atleast name xs \<equiv> filter (\<lambda>x. name \<le> fst x) xs"

lemma atleast_None: "map_of es name = None \<Longrightarrow> atleast name es = above name es"
  by (rule filter_cong) (auto simp: map_of_eq_None_iff order_le_less)

lemma atleast_Some:
  assumes "ascending es" and "map_of es name = Some e"
  shows "atleast name es = (name, e) # above name es"
proof -
  obtain xs ys where es: "es = xs @ (name, e) # ys"
    using split_list [OF map_of_SomeD [OF assms(2)]] by blast
  with assms(1) have b: "\<forall>x \<in> set xs. fst x < name" "\<forall>x \<in> set ys. name < fst x"
    unfolding ascending_mid es by auto
  have "atleast name xs = []" using b(1) by (auto simp: filter_empty_conv)
  moreover have "atleast name ys = ys" using b(2) by (auto simp: filter_id_conv)
  ultimately show ?thesis using below_all [OF b(1)] above_all [OF b(2)] es by simp
qed

lemma split_spec:
  assumes "ist_inv splay"
  shows "\<exists>splay' small'. ipc_splay_tree_split splay name small = Some (splay', small') \<and>
           ist_inv splay' \<and> ist_inv small' \<and>
           ist_entries small' = below name (ist_entries splay) \<and>
           ist_entries splay' = atleast name (ist_entries splay)"
proof (cases "ist_root splay = Leaf")
  case True
  with assms show ?thesis by (simp add: ipc_splay_tree_split_def ist_entries_def ist_inv_def ipc_splay_tree_init_def)
next
  case False
  let ?es = "ist_entries splay"
  have asc: "ascending ?es" using assms(1) by (simp add: ist_inv_def)
  obtain t lt rt where sk: "ipc_splay_seek splay name = (t, lt, rt)"
    by (cases "ipc_splay_seek splay name") auto
  note spec = seek_spec [OF assms(1) False sk]
  have below_asc: "ascending (below name ?es)" "ascending (atleast name ?es)"
    using asc by (simp_all only: ascending_filter)
  have stay: ?thesis if t: "t = Node l (k, e) r" and k: "\<not> k < name"
    and b: "below name ?es = lctx lt @ inorder l"
    and a: "atleast name ?es = (k, e) # inorder r @ rctx rt" for l k e r
  proof -
    let ?s = "\<lparr>ist_name = name, ist_root = Node Leaf (k, e) r, ist_ltree = [], ist_rtree = rt\<rparr>"
    have "ipc_splay_tree_split splay name small =
            Some (?s, ist_set_root (ipc_splay_tree_init small) (lfill lt l))"
      using False sk t k by (simp add: ipc_splay_tree_split_def)
    moreover have "ist_entries ?s = atleast name ?es" by (subst a) (simp add: ist_entries_def)
    moreover have "splayed name (Node Leaf (k, e) r) [] rt"
      using spec(2) t k by (auto simp: splayed_def)
    ultimately show ?thesis
      using ist_set_root_spec [of "lfill lt l" "ipc_splay_tree_init small"] below_asc b
      by (simp add: ist_inv_def)
  qed
  from spec(2,1) asc show ?thesis
  proof (cases rule: splayed_cases)
    case (found l e r)
    show ?thesis by (rule stay [OF found(1)]) (use found atleast_Some [OF asc found(4)] in auto)
  next
    case (above k e r)
    show ?thesis by (rule stay [OF above(1)]) (use above atleast_None [OF above(5)] in auto)
  next
    case (below l k e)
    have "ipc_splay_tree_split splay name small =
            Some (ist_set_root splay (rfill rt Leaf),
                  \<lparr>ist_name = k, ist_root = Node (lfill lt l) (k, e) Leaf, ist_ltree = [], ist_rtree = []\<rparr>)"
      using False sk below by (simp add: ipc_splay_tree_split_def)
    moreover have "inorder (Node (lfill lt l) (k, e) Leaf) = below name ?es"
      using below by simp
    ultimately show ?thesis
      using ist_set_root_spec [of "rfill rt Leaf" splay] ist_inv_make [of "lfill lt l" k e Leaf]
        below_asc atleast_None [OF below(5)] below(4)
      by (simp add: ist_entries_def)
  qed
qed

text \<open>Splaying for the smallest name leaves a root with no left child.\<close>

lemma seek_smallest:
  assumes "ist_inv splay" and "ist_root splay \<noteq> Leaf"
    and "ipc_splay_seek splay MACH_PORT_SMALLEST = (t, lt, rt)"
  shows "\<exists>k e r. ipc_splay_prim_assemble t lt rt = Node Leaf (k, e) r \<and>
                 ist_entries splay = (k, e) # inorder r"
proof -
  note spec = seek_spec [OF assms]
  have asc: "ascending (ist_entries splay)" using assms(1) by (simp add: ist_inv_def)
  have none: "below MACH_PORT_SMALLEST (ist_entries splay) = []" by simp
  have lt: "lt = []"
  proof (cases lt)
    case (Cons p c)
    with spec(2) show ?thesis by (cases p) (auto simp: splayed_def)
  qed simp
  from spec(2,1) asc show ?thesis
  proof (cases rule: splayed_cases)
    case (found l e r)
    with none lt have "l = Leaf" by simp
    with found(1) lt spec(1) show ?thesis by auto
  next
    case (above k e r)
    with lt spec(1) show ?thesis by auto
  next
    case (below l k e)
    then show ?thesis by simp
  qed
qed

lemma join_spec:
  assumes "ist_inv splay" and "ist_inv small"
    and less: "\<forall>x \<in> set (ist_entries small). \<forall>y \<in> set (ist_entries splay). fst x < fst y"
  shows "\<exists>splay' small'. ipc_splay_tree_join splay small = Some (splay', small') \<and>
           ist_inv splay' \<and> ist_inv small' \<and> ist_entries small' = [] \<and>
           ist_entries splay' = ist_entries small @ ist_entries splay"
proof (cases "ist_root small = Leaf")
  case True
  with assms show ?thesis by (simp add: ipc_splay_tree_join_def ist_entries_def)
next
  case False
  then obtain sl sk se sr where
    sa: "ipc_splay_prim_assemble (ist_root small) (ist_ltree small) (ist_rtree small) = Node sl (sk, se) sr"
    by (metis assemble_Leaf_iff neq_Leaf_iff prod.exhaust)
  have sin: "inorder (Node sl (sk, se) sr) = ist_entries small"
    using inorder_assemble [OF False, of "ist_ltree small" "ist_rtree small"] sa False
    by (simp add: ist_entries_def)
  let ?es = "ist_entries small @ ist_entries splay"
  have asc: "ascending ?es"
    using assms unfolding ascending_append by (auto simp: ist_inv_def)
  have goal: ?thesis
    if "ipc_splay_tree_join splay small = Some (ist_set_root splay t, small\<lparr>ist_root := Leaf\<rparr>)"
      and "inorder t = ?es" for t
    using ist_set_root_spec [of t splay] that asc ist_inv_empty [of "small\<lparr>ist_root := Leaf\<rparr>"] by simp
  show ?thesis
  proof (cases "ist_root splay = Leaf")
    case True
    show ?thesis
      by (rule goal [of "Node sl (sk, se) sr"])
        (use True sa sin in \<open>simp_all add: ipc_splay_tree_join_def ist_entries_def\<close>)
  next
    case ne: False
    obtain t lt rt where sk: "ipc_splay_seek splay MACH_PORT_SMALLEST = (t, lt, rt)"
      by (cases "ipc_splay_seek splay MACH_PORT_SMALLEST") auto
    from seek_smallest [OF assms(1) ne sk] obtain k e r where
      a: "ipc_splay_prim_assemble t lt rt = Node Leaf (k, e) r"
        "ist_entries splay = (k, e) # inorder r" by blast
    have "(sk, se) \<in> set (ist_entries small)" by (simp flip: sin)
    with less a(2) have "sk < k" by fastforce
    then have "ipc_splay_tree_join splay small =
        Some (ist_set_root splay (Node (Node sl (sk, se) sr) (k, e) r), small\<lparr>ist_root := Leaf\<rparr>)"
      using sa ne sk a(1) by (simp add: ipc_splay_tree_join_def)
    then show ?thesis
      by (rule goal) (use a(2) sin in simp)
  qed
qed

text \<open>\<open>tight_lower K name low\<close>: \<open>low\<close> is the largest name in \<open>K\<close> that is at most \<open>name\<close>,
  or \<open>MACH_PORT_LARGEST\<close> when there is none; \<open>tight_upper\<close> is its mirror image.\<close>

definition tight_lower :: "mach_port_name_t set \<Rightarrow> mach_port_name_t \<Rightarrow> mach_port_name_t \<Rightarrow> bool" where
  "tight_lower K name low \<longleftrightarrow>
     (if \<exists>k \<in> K. k \<le> name then low \<in> K \<and> low \<le> name \<and> (\<forall>k \<in> K. k \<le> name \<longrightarrow> k \<le> low)
      else low = MACH_PORT_LARGEST)"

definition tight_upper :: "mach_port_name_t set \<Rightarrow> mach_port_name_t \<Rightarrow> mach_port_name_t \<Rightarrow> bool" where
  "tight_upper K name high \<longleftrightarrow>
     (if \<exists>k \<in> K. name \<le> k then high \<in> K \<and> name \<le> high \<and> (\<forall>k \<in> K. name \<le> k \<longrightarrow> high \<le> k)
      else high = MACH_PORT_SMALLEST)"

lemma tight_lower_I:
  assumes "low \<in> K" and "low \<le> name" and "\<And>k. k \<in> K \<Longrightarrow> k \<le> name \<Longrightarrow> k \<le> low"
  shows "tight_lower K name low"
  using assms by (auto simp: tight_lower_def)

lemma tight_upper_I:
  assumes "high \<in> K" and "name \<le> high" and "\<And>k. k \<in> K \<Longrightarrow> name \<le> k \<Longrightarrow> high \<le> k"
  shows "tight_upper K name high"
  using assms by (auto simp: tight_upper_def)

text \<open>The names around \<open>name\<close>: the ends of the two parts of an ascending list.\<close>

lemma tight_lower_last:
  assumes "ascending es" and "map_of es name = None" and "below name es = xs"
  shows "tight_lower (set (names es)) name (if xs = [] then MACH_PORT_LARGEST else fst (last xs))"
proof (cases "xs = []")
  case True
  with assms(2,3) show ?thesis
    by (fastforce simp: tight_lower_def filter_empty_conv map_of_eq_None_iff order_le_less)
next
  case False
  have asc: "ascending (butlast xs @ [last xs])"
    using ascending_filter [OF assms(1), of "\<lambda>x. fst x < name"] assms(3) False by simp
  have lx: "last xs \<in> set (below name es)" using False assms(3) by simp
  have mx: "fst x \<le> fst (last xs)" if "x \<in> set (below name es)" for x
  proof -
    have "x \<in> set (butlast xs @ [last xs])" using that assms(3) False by simp
    with asc show ?thesis unfolding ascending_append by (auto simp: order_le_less)
  qed
  have "tight_lower (set (names es)) name (fst (last xs))"
  proof (rule tight_lower_I)
    fix k assume k: "k \<in> set (names es)" "k \<le> name"
    then obtain x where "x \<in> set (below name es)" "fst x = k"
      using assms(2) by (auto simp: map_of_eq_None_iff order_le_less)
    with mx show "k \<le> fst (last xs)" by blast
  qed (use lx in auto)
  with False show ?thesis by simp
qed

lemma tight_upper_hd:
  assumes "ascending es" and "map_of es name = None" and "above name es = xs"
  shows "tight_upper (set (names es)) name (if xs = [] then MACH_PORT_SMALLEST else fst (hd xs))"
proof (cases xs)
  case Nil
  with assms(2,3) show ?thesis
    by (fastforce simp: tight_upper_def filter_empty_conv map_of_eq_None_iff order_le_less)
next
  case (Cons y ys)
  have asc: "ascending ([y] @ ys)"
    using ascending_filter [OF assms(1), of "\<lambda>x. name < fst x"] assms(3) Cons by simp
  have y: "y \<in> set (above name es)" using Cons assms(3) by simp
  have mn: "fst y \<le> fst x" if "x \<in> set (above name es)" for x
  proof -
    have "x \<in> set ([y] @ ys)" using that assms(3) Cons by simp
    with asc show ?thesis unfolding ascending_append by (auto simp: order_le_less)
  qed
  have "tight_upper (set (names es)) name (fst y)"
  proof (rule tight_upper_I)
    fix k assume k: "k \<in> set (names es)" "name \<le> k"
    then obtain x where "x \<in> set (above name es)" "fst x = k"
      using assms(2) by (auto simp: map_of_eq_None_iff order_le_less)
    with mn show "fst y \<le> k" by blast
  qed (use y in auto)
  with Cons show ?thesis by simp
qed

lemma lctx_last:
  "lt \<noteq> [] \<Longrightarrow> lctx lt \<noteq> [] \<and> last (lctx lt) = snd (hd lt)"
  by (cases lt rule: lctx.cases) auto

lemma rctx_hd:
  "rt \<noteq> [] \<Longrightarrow> rctx rt \<noteq> [] \<and> hd (rctx rt) = fst (hd rt)"
  by (cases rt rule: rctx.cases) auto

lemma bounds_spec:
  assumes "ist_inv splay"
  shows "\<exists>low high splay'. ipc_splay_tree_bounds splay name = ((low, high), splay') \<and>
           tight_lower (set (names (ist_entries splay))) name low \<and>
           tight_upper (set (names (ist_entries splay))) name high \<and>
           ist_inv splay' \<and> ist_entries splay' = ist_entries splay"
proof (cases "ist_root splay = Leaf")
  case True
  with assms show ?thesis
    by (simp add: ipc_splay_tree_bounds_def ist_entries_def tight_lower_def tight_upper_def)
next
  case False
  let ?es = "ist_entries splay"
  obtain t lt rt where sk: "ipc_splay_seek splay name = (t, lt, rt)"
    by (cases "ipc_splay_seek splay name") auto
  note spec = seek_spec [OF assms False sk]
  let ?s = "\<lparr>ist_name = name, ist_root = t, ist_ltree = lt, ist_rtree = rt\<rparr>"
  have asc: "ascending ?es" using assms by (simp add: ist_inv_def)
  have inv: "ist_inv ?s \<and> ist_entries ?s = ?es"
    using asc spec by (simp add: ist_inv_def ist_entries_def)
  let ?low = "case lt of [] \<Rightarrow> MACH_PORT_LARGEST | (l, (k, e)) # _ \<Rightarrow> k"
  let ?high = "case rt of [] \<Rightarrow> MACH_PORT_SMALLEST | ((k, e), r) # _ \<Rightarrow> k"
  have low: "?low = (if lctx lt = [] then MACH_PORT_LARGEST else fst (last (lctx lt)))"
    using lctx_last [of lt] by (cases lt rule: lctx.cases) auto
  have high: "?high = (if rctx rt = [] then MACH_PORT_SMALLEST else fst (hd (rctx rt)))"
    using rctx_hd [of rt] by (cases rt rule: rctx.cases) auto
  from spec(2,1) asc show ?thesis
  proof (cases rule: splayed_cases)
    case (found l e r)
    then have "ipc_splay_tree_bounds splay name = ((name, name), ?s)"
      using sk False by (simp add: ipc_splay_tree_bounds_def)
    moreover have n: "name \<in> set (names ?es)" using map_of_SomeD [OF found(4)] by force
    moreover have "tight_lower (set (names ?es)) name name" "tight_upper (set (names ?es)) name name"
      by (rule tight_lower_I; use n in simp) (rule tight_upper_I; use n in simp)
    ultimately show ?thesis using inv by blast
  next
    case (above k e r)
    have "\<not> k \<le> name" "name \<le> k" using above(2) by simp_all
    with above(1) have "ipc_splay_tree_bounds splay name = ((?low, k), ?s)"
      using sk False by (simp add: ipc_splay_tree_bounds_def)
    moreover have "tight_lower (set (names ?es)) name ?low"
      unfolding low using tight_lower_last [OF asc above(5,3)] .
    moreover have "tight_upper (set (names ?es)) name k"
      using tight_upper_hd [OF asc above(5,4)] by simp
    ultimately show ?thesis using inv by blast
  next
    case (below l k e)
    have "\<not> name \<le> k" "k \<le> name" using below(2) by simp_all
    with below(1) have "ipc_splay_tree_bounds splay name = ((k, ?high), ?s)"
      using sk False by (simp add: ipc_splay_tree_bounds_def)
    moreover have "tight_lower (set (names ?es)) name k"
      using tight_lower_last [OF asc below(5,3)] by simp
    moreover have "tight_upper (set (names ?es)) name ?high"
      unfolding high using tight_upper_hd [OF asc below(5,4)] .
    ultimately show ?thesis using inv by blast
  qed
qed

section \<open>Traversal\<close>

text \<open>
  A traversal inverts the child pointers on the path from the root to the current entry: the
  child field that was followed holds the parent. A frame is such an ancestor, tagged with the
  side that the path took. The C code has no tags, it compares names to find the side; a frame
  with the other tag would make it follow a subtree as if it were the parent, which is \<open>None\<close>.
\<close>

datatype 'e ist_frame = Went_left "'e ite" "'e ite_tree" | Went_right "'e ite_tree" "'e ite"

datatype 'e ist_traversal =
    At_entry "'e ite_tree" "'e ist_frame list"
  | At_end "'e ite_tree"

fun ipc_splay_traverse_left :: "'e ite_tree \<Rightarrow> 'e ist_frame list \<Rightarrow> 'e ist_traversal" where
  "ipc_splay_traverse_left (Node (Node ll ln lr) n r) fs =
     ipc_splay_traverse_left (Node ll ln lr) (Went_left n r # fs)"
| "ipc_splay_traverse_left t fs = At_entry t fs"

fun ipc_splay_traverse_back ::
  "'e ite_tree \<Rightarrow> 'e ist_frame list \<Rightarrow> 'e ist_traversal option" where
  "ipc_splay_traverse_back t [] = Some (At_end t)"
| "ipc_splay_traverse_back Leaf (f # fs) = None"
| "ipc_splay_traverse_back (Node cl (ck, ce) cr) (Went_left (k, e) r # fs) =
     (if ck < k then Some (At_entry (Node (Node cl (ck, ce) cr) (k, e) r) fs) else None)"
| "ipc_splay_traverse_back (Node cl (ck, ce) cr) (Went_right l (k, e) # fs) =
     (if ck < k then None else ipc_splay_traverse_back (Node l (k, e) (Node cl (ck, ce) cr)) fs)"

fun ipc_splay_traverse_right ::
  "'e ite_tree \<Rightarrow> 'e ist_frame list \<Rightarrow> 'e ist_traversal option" where
  "ipc_splay_traverse_right Leaf fs = None"
| "ipc_splay_traverse_right (Node l n r) fs =
     (if r \<noteq> Leaf then Some (ipc_splay_traverse_left r (Went_right l n # fs))
      else ipc_splay_traverse_back (Node l n r) fs)"

definition ipc_splay_traverse_start :: "'e ipc_splay_tree \<Rightarrow> 'e ist_traversal" where
  "ipc_splay_traverse_start splay =
    (if ist_root splay \<noteq> Leaf then
       ipc_splay_traverse_left
         (ipc_splay_prim_assemble (ist_root splay) (ist_ltree splay) (ist_rtree splay)) []
     else At_end Leaf)"

text \<open>Deletion of a current entry without children.\<close>

fun ipc_splay_traverse_drop ::
  "mach_port_name_t \<Rightarrow> 'e ist_frame list \<Rightarrow> 'e ist_traversal option" where
  "ipc_splay_traverse_drop ck [] = Some (At_end Leaf)"
| "ipc_splay_traverse_drop ck (Went_left (k, e) r # fs) =
     (if ck < k then Some (At_entry (Node Leaf (k, e) r) fs) else None)"
| "ipc_splay_traverse_drop ck (Went_right l (k, e) # fs) =
     (if ck < k then None else ipc_splay_traverse_back (Node l (k, e) Leaf) fs)"

fun ipc_splay_traverse_next ::
  "bool \<Rightarrow> 'e ist_traversal \<Rightarrow> 'e ist_traversal option" where
  "ipc_splay_traverse_next del (At_end t) = None"
| "ipc_splay_traverse_next del (At_entry Leaf fs) = None"
| "ipc_splay_traverse_next del (At_entry (Node l (k, e) r) fs) =
    (if \<not> del then ipc_splay_traverse_right (Node l (k, e) r) fs
     else if l = Leaf then
       (if r = Leaf then ipc_splay_traverse_drop k fs
        else Some (ipc_splay_traverse_left r fs))
     else if r = Leaf then ipc_splay_traverse_back l fs
     else
       (case ipc_splay_prim_lookup MACH_PORT_LARGEST l [] [] of
          (m, lt, rt) \<Rightarrow>
            (case ipc_splay_prim_assemble m lt rt of
               Leaf \<Rightarrow> None
             | Node ml mn mr \<Rightarrow>
                 do { kassert (mr = Leaf); ipc_splay_traverse_right (Node ml mn r) fs })))"

definition ipc_splay_traverse_finish :: "'e ipc_splay_tree \<Rightarrow> 'e ite_tree \<Rightarrow> 'e ipc_splay_tree" where
  "ipc_splay_traverse_finish splay root =
    (case root of
       Leaf \<Rightarrow> splay\<lparr>ist_root := Leaf\<rparr>
     | Node _ (k, e) _ \<Rightarrow> \<lparr>ist_name = k, ist_root = root, ist_ltree = [], ist_rtree = []\<rparr>)"

text \<open>The loop in the usage comment; \<open>del\<close> decides for each entry whether it is deleted. The
  result is the list of the entries visited and the tree that is left.\<close>

partial_function (option) ipc_splay_traverse_loop ::
  "('e ite \<Rightarrow> bool) \<Rightarrow> 'e ist_traversal \<Rightarrow> 'e ite list \<Rightarrow> ('e ite list \<times> 'e ite_tree) option" where
  "ipc_splay_traverse_loop del trav seen =
    (case trav of
       At_end t \<Rightarrow> Some (seen, t)
     | At_entry t fs \<Rightarrow>
         (case t of
            Leaf \<Rightarrow> None
          | Node l n r \<Rightarrow>
              do { trav' \<leftarrow> ipc_splay_traverse_next (del n) (At_entry t fs);
                   ipc_splay_traverse_loop del trav' (seen @ [n]) }))"

definition ipc_splay_traverse ::
  "('e ite \<Rightarrow> bool) \<Rightarrow> 'e ipc_splay_tree \<Rightarrow> ('e ite list \<times> 'e ipc_splay_tree) option" where
  "ipc_splay_traverse del splay =
    do { (seen, t) \<leftarrow> ipc_splay_traverse_loop del (ipc_splay_traverse_start splay) [];
         Some (seen, ipc_splay_traverse_finish splay t) }"

text \<open>The entries before and after the subtree that the frames surround.\<close>

fun frames_before :: "'e ist_frame list \<Rightarrow> 'e ite list" where
  "frames_before [] = []"
| "frames_before (Went_left n r # fs) = frames_before fs"
| "frames_before (Went_right l n # fs) = frames_before fs @ inorder l @ [n]"

fun frames_after :: "'e ist_frame list \<Rightarrow> 'e ite list" where
  "frames_after [] = []"
| "frames_after (Went_left n r # fs) = n # inorder r @ frames_after fs"
| "frames_after (Went_right l n # fs) = frames_after fs"

text \<open>\<open>trav_at trav done todo\<close>: the traversal has left the entries \<open>done\<close> behind and will visit
  those of \<open>todo\<close>.\<close>

fun trav_at :: "'e ist_traversal \<Rightarrow> 'e ite list \<Rightarrow> 'e ite list \<Rightarrow> bool" where
  "trav_at (At_end t) before todo \<longleftrightarrow> before = inorder t \<and> todo = []"
| "trav_at (At_entry Leaf fs) before todo \<longleftrightarrow> False"
| "trav_at (At_entry (Node l n r) fs) before todo \<longleftrightarrow>
     before = frames_before fs @ inorder l \<and> todo = n # inorder r @ frames_after fs"

lemma traverse_left_at:
  "t \<noteq> Leaf \<Longrightarrow> trav_at (ipc_splay_traverse_left t fs) (frames_before fs) (inorder t @ frames_after fs)"
  by (induction t fs rule: ipc_splay_traverse_left.induct) auto

lemma traverse_start_at:
  "trav_at (ipc_splay_traverse_start splay) [] (ist_entries splay)"
  using traverse_left_at [of "ipc_splay_prim_assemble (ist_root splay) (ist_ltree splay) (ist_rtree splay)" "[]"]
  by (auto simp: ipc_splay_traverse_start_def ist_entries_def inorder_assemble)

lemma traverse_back_at:
  assumes "t \<noteq> Leaf" and "ascending (frames_before fs @ inorder t @ frames_after fs)"
  shows "\<exists>trav. ipc_splay_traverse_back t fs = Some trav \<and>
           trav_at trav (frames_before fs @ inorder t) (frames_after fs)"
  using assms
proof (induction t fs rule: ipc_splay_traverse_back.induct)
  case (3 cl ck ce cr k e r fs)
  have "ascending ((frames_before fs @ inorder cl @ (ck, ce) # inorder cr) @ (k, e) # (inorder r @ frames_after fs))"
    using "3.prems"(2) by simp
  then have "ck < k" unfolding ascending_mid by simp
  then show ?case by simp
next
  case (4 cl ck ce cr l k e fs)
  have "ascending ((frames_before fs @ inorder l) @ (k, e) # (inorder cl @ (ck, ce) # inorder cr @ frames_after fs))"
    using "4.prems"(2) by simp
  then have "k < ck" unfolding ascending_mid by simp
  then have "\<not> ck < k" by simp
  from "4.IH" [OF this] "4.prems"(2) this show ?case by simp
qed simp_all

lemma traverse_right_at:
  assumes "ascending (frames_before fs @ inorder (Node l n r) @ frames_after fs)"
  shows "\<exists>trav. ipc_splay_traverse_right (Node l n r) fs = Some trav \<and>
           trav_at trav (frames_before fs @ inorder l @ [n]) (inorder r @ frames_after fs)"
proof (cases "r = Leaf")
  case True
  with traverse_back_at [OF _ assms] show ?thesis by auto
next
  case False
  with traverse_left_at [OF False, of "Went_right l n # fs"] show ?thesis by simp
qed

lemma ascending_drop:
  "ascending (xs @ n # ys) \<Longrightarrow> ascending (xs @ ys)"
  by (cases n) (auto simp: ascending_append ascending_mid simp del: map_append)

lemma traverse_drop_at:
  assumes "ascending (frames_before fs @ (ck, ce) # frames_after fs)"
  shows "\<exists>trav. ipc_splay_traverse_drop ck fs = Some trav \<and>
           trav_at trav (frames_before fs) (frames_after fs)"
proof (cases "(ck, fs)" rule: ipc_splay_traverse_drop.cases)
  case (2 c k e r gs)
  have "ascending (frames_before gs @ (ck, ce) # ((k, e) # inorder r @ frames_after gs))"
    using assms 2 by simp
  then have "ck < k" unfolding ascending_mid by simp
  with 2 show ?thesis by simp
next
  case (3 c l k e gs)
  have asc: "ascending ((frames_before gs @ inorder l @ [(k, e)]) @ (ck, ce) # frames_after gs)"
    using assms 3 by simp
  then have "k < ck" unfolding ascending_mid by simp
  then have "\<not> ck < k" by simp
  moreover have "ascending (frames_before gs @ inorder (Node l (k, e) Leaf) @ frames_after gs)"
    using ascending_drop [OF asc] by simp
  from traverse_back_at [OF _ this] obtain trav where
    "ipc_splay_traverse_back (Node l (k, e) Leaf) gs = Some trav"
    "trav_at trav (frames_before gs @ inorder l @ [(k, e)]) (frames_after gs)" by auto
  ultimately show ?thesis using 3 by simp
qed simp

text \<open>A step moves to the next entry; the current entry stays behind, or is gone if deleted.\<close>

lemma traverse_next_at:
  assumes "trav_at trav before (n # todo)" and asc: "ascending (before @ n # todo)"
  shows "\<exists>trav'. ipc_splay_traverse_next del trav = Some trav' \<and>
           trav_at trav' (if del then before else before @ [n]) todo"
proof (cases trav)
  case (At_end t)
  with assms(1) show ?thesis by simp
next
  case (At_entry t fs)
  with assms(1) obtain l r where t: "t = Node l n r" by (cases t) auto
  obtain k e where n: "n = (k, e)" by (cases n)
  have bt: "before = frames_before fs @ inorder l" "todo = inorder r @ frames_after fs"
    using assms(1) At_entry t by simp_all
  have asc': "ascending (frames_before fs @ inorder (Node l n r) @ frames_after fs)"
    using asc bt by simp
  note right = traverse_right_at [OF asc']
  have dropped: "ascending (frames_before fs @ inorder l @ inorder r @ frames_after fs)"
    using ascending_drop [OF asc] bt by simp
  show ?thesis
  proof (cases del)
    case False
    with right show ?thesis using At_entry t n bt by simp
  next
    case True
    consider "l = Leaf" "r = Leaf" | "l = Leaf" "r \<noteq> Leaf" | "l \<noteq> Leaf" "r = Leaf" | "l \<noteq> Leaf" "r \<noteq> Leaf"
      by blast
    then show ?thesis
    proof cases
      case 1
      with traverse_drop_at [of fs k e] asc bt n show ?thesis using At_entry t True by simp
    next
      case 2
      with traverse_left_at [OF 2(2), of fs] show ?thesis using At_entry t n bt True by simp
    next
      case 3
      with traverse_back_at [OF 3(1), of fs] dropped show ?thesis using At_entry t n bt True by simp
    next
      case 4
      obtain m lt rt where lk: "ipc_splay_prim_lookup MACH_PORT_LARGEST l [] [] = (m, lt, rt)"
        by (cases "ipc_splay_prim_lookup MACH_PORT_LARGEST l [] []") auto
      have "ascending (inorder l)"
        using dropped unfolding ascending_append by blast
      from prim_lookup_largest [OF lk this 4(1)] obtain ml mn where
        a: "ipc_splay_prim_assemble m lt rt = Node ml mn Leaf" and io: "inorder ml @ [mn] = inorder l"
        by blast
      have "ascending (frames_before fs @ inorder (Node ml mn r) @ frames_after fs)"
        using dropped by (simp flip: io)
      from traverse_right_at [OF this] show ?thesis
        using At_entry t n bt True 4 lk a by (simp add: io [symmetric])
    qed
  qed
qed

lemma traverse_loop_result:
  assumes "trav_at trav before todo" and "ascending (before @ todo)"
  shows "\<exists>t. ipc_splay_traverse_loop del trav seen = Some (seen @ todo, t) \<and>
             inorder t = before @ filter (\<lambda>x. \<not> del x) todo"
  using assms
proof (induction todo arbitrary: trav before seen)
  case Nil
  obtain t where "trav = At_end t" "inorder t = before"
    using Nil.prems(1) by (cases "(trav, before, [] :: 'a ite list)" rule: trav_at.cases) auto
  then show ?case by (simp add: ipc_splay_traverse_loop.simps)
next
  case (Cons n todo)
  obtain trav' where nxt: "ipc_splay_traverse_next (del n) trav = Some trav'"
    and at': "trav_at trav' (if del n then before else before @ [n]) todo"
    using traverse_next_at [OF Cons.prems] by blast
  obtain l r fs where trav: "trav = At_entry (Node l n r) fs"
    using Cons.prems(1) by (cases "(trav, before, n # todo)" rule: trav_at.cases) auto
  have "ascending ((if del n then before else before @ [n]) @ todo)"
    using Cons.prems(2) ascending_drop [of before n todo] by simp
  from Cons.IH [OF at' this, of "seen @ [n]"] show ?case
    using nxt trav by (subst ipc_splay_traverse_loop.simps) auto
qed

lemma traverse_spec:
  assumes "ist_inv splay"
  shows "\<exists>splay'. ipc_splay_traverse del splay = Some (ist_entries splay, splay') \<and> ist_inv splay' \<and>
           ist_entries splay' = filter (\<lambda>x. \<not> del x) (ist_entries splay)"
proof -
  have asc: "ascending (ist_entries splay)" using assms by (simp add: ist_inv_def)
  obtain t where t: "ipc_splay_traverse_loop del (ipc_splay_traverse_start splay) [] = Some (ist_entries splay, t)"
    "inorder t = filter (\<lambda>x. \<not> del x) (ist_entries splay)"
    using traverse_loop_result [OF traverse_start_at, of splay del "[]"] asc by auto
  have "ascending (inorder t)" using t(2) asc by (simp only: ascending_filter)
  with ist_set_root_spec [of t splay] t show ?thesis
    by (simp add: ipc_splay_traverse_def ipc_splay_traverse_finish_def ist_set_root_def)
qed

section \<open>The interface: an ordered map of names\<close>

lemma below_above_append:
  "ascending es \<Longrightarrow> map_of es n = None \<Longrightarrow> below n es @ above n es = es"
proof (induction es)
  case (Cons x es)
  obtain k e where x: "x = (k, e)" by (cases x)
  show ?case
  proof (cases "k < n")
    case True
    with Cons x show ?thesis by (auto simp: ascending_Cons split: if_splits)
  next
    case False
    with Cons.prems x have "n < k" "\<forall>y \<in> set es. n < fst y"
      unfolding x ascending_Cons by (auto simp: not_less order_le_less split: if_splits intro: less_trans)
    with above_all [of es n] x show ?thesis by auto
  qed
qed simp

lemma map_of_filter_key: "map_of (filter (\<lambda>x. P (fst x)) es) k = (if P k then map_of es k else None)"
  by (induction es) auto

lemma map_of_below_above:
  "k \<noteq> n \<Longrightarrow> map_of (below n es @ above n es) k = map_of es k"
  using map_of_filter_key [of "\<lambda>j. j < n" es k] map_of_filter_key [of "\<lambda>j. n < j" es k]
  by (auto simp: map_add_def split: option.splits)

lemma map_of_below_None [simp]: "map_of (below n es) n = None"
  and map_of_above_None [simp]: "map_of (above n es) n = None"
  by (auto simp: map_of_eq_None_iff)

text \<open>What the entry code relies on when it calls a store of named entries.\<close>

locale ordered_name_map =
  fixes inv :: "'s \<Rightarrow> bool"
    and entries :: "'s \<Rightarrow> 'e ite list"
    and lookup :: "'s \<Rightarrow> mach_port_name_t \<Rightarrow> 'e option \<times> 's"
    and insert :: "'s \<Rightarrow> mach_port_name_t \<Rightarrow> 'e \<Rightarrow> 's option"
    and delete :: "'s \<Rightarrow> mach_port_name_t \<Rightarrow> 's option"
  assumes inv_ascending: "inv s \<Longrightarrow> ascending (entries s)"
    and lookup_law: "inv s \<Longrightarrow>
      \<exists>s'. lookup s n = (map_of (entries s) n, s') \<and> inv s' \<and> entries s' = entries s"
    and insert_law: "inv s \<Longrightarrow> map_of (entries s) n = None \<Longrightarrow>
      \<exists>s'. insert s n e = Some s' \<and> inv s' \<and>
        entries s' = below n (entries s) @ (n, e) # above n (entries s)"
    and delete_law: "inv s \<Longrightarrow> map_of (entries s) n \<noteq> None \<Longrightarrow>
      \<exists>s'. delete s n = Some s' \<and> inv s' \<and> entries s' = below n (entries s) @ above n (entries s)"
begin

lemma lookup_result:
  assumes "inv s" and "lookup s n = (r, s')"
  shows "r = map_of (entries s) n" and "inv s'" and "entries s' = entries s"
  using lookup_law [OF assms(1), of n] assms(2) by auto

lemma insert_map:
  assumes "inv s" and "map_of (entries s) n = None"
  shows "\<exists>s'. insert s n e = Some s' \<and> inv s' \<and> map_of (entries s') = (map_of (entries s))(n \<mapsto> e)"
proof -
  obtain s' where s': "insert s n e = Some s'" "inv s'"
      "entries s' = below n (entries s) @ (n, e) # above n (entries s)"
    using insert_law [OF assms, of e] by blast
  have "map_of (entries s') k = ((map_of (entries s))(n \<mapsto> e)) k" for k
    using map_of_below_above [of k n "entries s"]
    by (cases "k = n") (auto simp: s'(3) map_add_def split: option.splits)
  with s' show ?thesis by blast
qed

lemma delete_map:
  assumes "inv s" and "map_of (entries s) n \<noteq> None"
  shows "\<exists>s'. delete s n = Some s' \<and> inv s' \<and> map_of (entries s') = (map_of (entries s))(n := None)"
proof -
  obtain s' where s': "delete s n = Some s'" "inv s'"
      "entries s' = below n (entries s) @ above n (entries s)"
    using delete_law [OF assms] by blast
  have "map_of (entries s') k = ((map_of (entries s))(n := None)) k" for k
    using map_of_below_above [of k n "entries s"]
    by (cases "k = n") (auto simp: s'(3) map_add_def split: option.splits)
  with s' show ?thesis by blast
qed

lemma insert_then_delete:
  assumes "inv s" and "map_of (entries s) n = None"
  shows "\<exists>s1 s2. insert s n e = Some s1 \<and> delete s1 n = Some s2 \<and> inv s2 \<and> entries s2 = entries s"
proof -
  obtain s1 where s1: "insert s n e = Some s1" "inv s1"
    "entries s1 = below n (entries s) @ (n, e) # above n (entries s)"
    using insert_law [OF assms, of e] by blast
  have "map_of (entries s1) n \<noteq> None"
    by (auto simp: s1(3) map_add_def split: option.splits)
  with delete_law [OF s1(2)] obtain s2 where s2: "delete s1 n = Some s2" "inv s2"
    "entries s2 = below n (entries s1) @ above n (entries s1)" by blast
  have "below n (entries s1) = below n (entries s)" "above n (entries s1) = above n (entries s)"
    by (auto simp: s1(3) filter_empty_conv filter_id_conv)
  with s1 s2 below_above_append [OF inv_ascending [OF assms(1)] assms(2)] show ?thesis by auto
qed

end

interpretation splay: ordered_name_map
  ist_inv ist_entries ipc_splay_tree_lookup ipc_splay_tree_insert ipc_splay_tree_delete
proof unfold_locales
  show "ascending (ist_entries s)" if "ist_inv s" for s :: "'e ipc_splay_tree"
    using that by (simp add: ist_inv_def)
qed (rule lookup_spec insert_spec delete_spec; assumption)+

section \<open>Properties\<close>

text \<open>Lookup. On a well-formed splay tree, \<open>ipc_splay_tree_lookup\<close> finds exactly the entry
  stored under the name; it may restructure the tree but neither the entries nor well-formedness
  change, so every later lookup gives what it gave before.\<close>

theorem splay_lookup_correct:
  assumes "ist_inv splay" and "ipc_splay_tree_lookup splay name = (r, splay')"
  shows "r = map_of (ist_entries splay) name \<and> ist_inv splay' \<and>
         ist_entries splay' = ist_entries splay \<and>
         fst (ipc_splay_tree_lookup splay' other) = fst (ipc_splay_tree_lookup splay other)"
proof -
  note r = splay.lookup_result [OF assms]
  obtain a b c d where "ipc_splay_tree_lookup splay' other = (a, b)" "ipc_splay_tree_lookup splay other = (c, d)"
    by fastforce
  with splay.lookup_result(1) [OF r(2), of other a b] splay.lookup_result(1) [OF assms(1), of other c d] r
  show ?thesis by simp
qed

text \<open>A tree with the entries 3, 5, 7 and 9, splayed at 5, for the witnesses.\<close>

definition sample_splay :: "nat ipc_splay_tree" where
  "sample_splay = \<lparr>ist_name = 5, ist_root = Node Leaf (5, 50) Leaf,
     ist_ltree = [(Leaf, (3, 30))], ist_rtree = [((7, 70), Leaf), ((9, 90), Leaf)]\<rparr>"

lemma sample_splay_inv: "ist_inv sample_splay"
  by (simp add: sample_splay_def ist_inv_def ist_entries_def splayed_def)

lemma sample_splay_entries: "ist_entries sample_splay = [(3, 30), (5, 50), (7, 70), (9, 90)]"
  by (simp add: sample_splay_def ist_entries_def)

lemma splay_lookup_correct_witness:
  "fst (ipc_splay_tree_lookup sample_splay 9) = Some 90"
proof -
  obtain r s where "ipc_splay_tree_lookup sample_splay 9 = (r, s)" by fastforce
  with splay_lookup_correct [OF sample_splay_inv this] show ?thesis
    by (simp add: sample_splay_entries)
qed

text \<open>Insertion. A name that is absent can be inserted without a panic; afterwards the map
  from names to entries is the old one updated at the name, and a deletion of the name
  succeeds and restores the very same sequence of entries.\<close>

theorem splay_insert_delete:
  assumes "ist_inv splay" and "map_of (ist_entries splay) name = None"
  shows "\<exists>s1 s2. ipc_splay_tree_insert splay name entry = Some s1 \<and> ist_inv s1 \<and>
           map_of (ist_entries s1) = (map_of (ist_entries splay))(name \<mapsto> entry) \<and>
           ipc_splay_tree_delete s1 name = Some s2 \<and> ist_inv s2 \<and>
           ist_entries s2 = ist_entries splay"
  using splay.insert_then_delete [OF assms, of entry] splay.insert_map [OF assms, of entry] by auto

lemma splay_insert_delete_witness:
  "\<exists>s1. ipc_splay_tree_insert sample_splay 6 60 = Some s1 \<and> map_of (ist_entries s1) 6 = Some 60"
  using splay_insert_delete [OF sample_splay_inv, of 6 60] by (auto simp: sample_splay_entries)

text \<open>C10: deletion. Deleting a name that is present never trips an assertion, removes exactly that
  entry and keeps the order of the others.\<close>

theorem splay_delete_correct:
  assumes "ist_inv splay" and "map_of (ist_entries splay) name \<noteq> None"
  shows "\<exists>s. ipc_splay_tree_delete splay name = Some s \<and> ist_inv s \<and>
           ist_entries s = filter (\<lambda>x. fst x \<noteq> name) (ist_entries splay)"
proof -
  have asc: "ascending (ist_entries splay)" using assms(1) by (simp add: ist_inv_def)
  let ?rest = "filter (\<lambda>x. fst x \<noteq> name) (ist_entries splay)"
  have "map_of ?rest name = None" by (auto simp: map_of_eq_None_iff)
  from below_above_append [OF ascending_filter [OF asc] this]
  have "below name ?rest @ above name ?rest = ?rest" .
  moreover have "below name ?rest = below name (ist_entries splay)"
    "above name ?rest = above name (ist_entries splay)"
    by (auto intro: filter_cong)
  ultimately have "below name (ist_entries splay) @ above name (ist_entries splay) = ?rest" by simp
  with splay.delete_law [OF assms] show ?thesis by auto
qed

lemma splay_delete_correct_witness:
  "\<exists>s. ipc_splay_tree_delete sample_splay 7 = Some s \<and> ist_entries s = [(3, 30), (5, 50), (9, 90)]"
  using splay_delete_correct [OF sample_splay_inv, of 7] by (auto simp: sample_splay_entries)

text \<open>Bounds. \<open>ipc_splay_tree_bounds\<close> returns tight bounds on the name: the largest name present
  that is at most it, the smallest that is at least it, and \<open>~0\<close> and 0 when there is none.\<close>

theorem splay_bounds_tight:
  assumes "ist_inv splay"
  shows "\<exists>low high splay'. ipc_splay_tree_bounds splay name = ((low, high), splay') \<and>
           tight_lower (set (names (ist_entries splay))) name low \<and>
           tight_upper (set (names (ist_entries splay))) name high \<and>
           ist_inv splay' \<and> ist_entries splay' = ist_entries splay"
  by (rule bounds_spec [OF assms])

lemma splay_bounds_tight_witness:
  "\<exists>low high s. ipc_splay_tree_bounds sample_splay 6 = ((low, high), s) \<and> low = 5 \<and> high = 7"
  using splay_bounds_tight [OF sample_splay_inv, of 6]
  by (auto simp: sample_splay_entries tight_lower_def tight_upper_def)

text \<open>Split and join. Splitting at a name moves the entries below it to the small tree and keeps
  the others; joining the two again restores the entries, and neither call panics.\<close>

theorem splay_split_join:
  assumes "ist_inv splay"
  shows "\<exists>s t s' t'. ipc_splay_tree_split splay name small = Some (s, t) \<and>
           ist_entries t = below name (ist_entries splay) \<and>
           ist_entries s = atleast name (ist_entries splay) \<and>
           ipc_splay_tree_join s t = Some (s', t') \<and> ist_inv s' \<and>
           ist_entries s' = ist_entries splay \<and> ist_entries t' = []"
proof -
  let ?es = "ist_entries splay"
  obtain s t where st: "ipc_splay_tree_split splay name small = Some (s, t)" "ist_inv s" "ist_inv t"
    "ist_entries t = below name ?es" "ist_entries s = atleast name ?es"
    using split_spec [OF assms] by blast
  have "\<forall>x \<in> set (ist_entries t). \<forall>y \<in> set (ist_entries s). fst x < fst y"
    unfolding st by (auto intro: less_le_trans)
  from join_spec [OF st(2,3) this] obtain s' t' where
    "ipc_splay_tree_join s t = Some (s', t')" "ist_inv s'" "ist_entries t' = []"
    "ist_entries s' = below name ?es @ atleast name ?es"
    unfolding st by blast
  moreover have "below name ?es @ atleast name ?es = ?es"
  proof (cases "map_of ?es name")
    case None
    with atleast_None [OF None] below_above_append [of ?es name] assms show ?thesis
      by (simp add: ist_inv_def)
  next
    case (Some e)
    obtain xs ys where es: "?es = xs @ (name, e) # ys"
      using split_list [OF map_of_SomeD [OF Some]] by blast
    have "ascending (xs @ (name, e) # ys)" using assms es by (simp add: ist_inv_def)
    then have b: "\<forall>x \<in> set xs. fst x < name" "\<forall>x \<in> set ys. name < fst x"
      unfolding ascending_mid by auto
    have "atleast name xs = []" "atleast name ys = ys"
      using b by (auto simp: filter_empty_conv filter_id_conv)
    with es below_all [OF b(1)] above_all [OF b(2)] show ?thesis by simp
  qed
  ultimately show ?thesis using st by auto
qed

lemma splay_split_join_witness:
  "\<exists>s t. ipc_splay_tree_split sample_splay 6 sample_splay = Some (s, t) \<and>
     ist_entries t = [(3, 30), (5, 50)] \<and> ist_entries s = [(7, 70), (9, 90)]"
  using splay_split_join [OF sample_splay_inv, of 6 sample_splay] by (auto simp: sample_splay_entries)

text \<open>C40: traversal. The loop of \<open>traverse_start\<close>, \<open>traverse_next\<close> and \<open>traverse_finish\<close> ends, follows no
  inverted pointer to the wrong place, visits every entry once in ascending order, deletes
  exactly the entries for which deletion was asked, and leaves a well-formed tree.\<close>

theorem splay_traverse_correct:
  assumes "ist_inv splay"
  shows "\<exists>splay'. ipc_splay_traverse del splay = Some (ist_entries splay, splay') \<and> ist_inv splay' \<and>
           ist_entries splay' = filter (\<lambda>x. \<not> del x) (ist_entries splay)"
  by (rule traverse_spec [OF assms])

lemma splay_traverse_correct_witness:
  "\<exists>s. ipc_splay_traverse (\<lambda>(k, e). k = 5 \<or> k = 9) sample_splay =
         Some ([(3, 30), (5, 50), (7, 70), (9, 90)], s) \<and> ist_entries s = [(3, 30), (7, 70)]"
  using splay_traverse_correct [OF sample_splay_inv, of "\<lambda>(k, e). k = 5 \<or> k = 9"]
  by (auto simp: sample_splay_entries)

end
