(* ===== verification/Ipc_Types.thy ===== *)
theory Ipc_Types
  imports Ipc_Bits Ipc_Splay
begin

text \<open>
  The data of Mach IPC: the header that ports and port sets share
  (\<^verbatim>\<open>osfmk/ipc/ipc_object.h\<close>), ports and their tables of dead-name requests
  (\<^verbatim>\<open>ipc_port.h\<close>), port sets (\<^verbatim>\<open>ipc_pset.h\<close>), capability entries (\<^verbatim>\<open>ipc_entry.h\<close>), spaces
  (\<^verbatim>\<open>ipc_space.h\<close>), and the kernel state: the heap of these structures, by address, and the
  global variables. The macros that read and count references on objects are here as well.

  A union is one field, with an abbreviation for each of its names. A pointer to a structure of
  the heap is its address; a table is the list of its elements. What a routine hands to a part
  of the kernel outside this development (a message to \<^verbatim>\<open>ipc_kmsg_send\<close>, a wakeup, the
  destruction of a message queue or of a kernel object) is an event at the end of a log.
\<close>

section \<open>Arrays\<close>

definition array_get :: "'a list \<Rightarrow> nat \<Rightarrow> 'a option" where
  "array_get xs i = (if i < length xs then Some (xs ! i) else None)"

definition array_upd :: "'a list \<Rightarrow> nat \<Rightarrow> ('a \<Rightarrow> 'a) \<Rightarrow> 'a list option" where
  "array_upd xs i f = (if i < length xs then Some (xs[i := f (xs ! i)]) else None)"

lemma array_get_in [simp]: "i < length xs \<Longrightarrow> array_get xs i = Some (xs ! i)"
  by (simp add: array_get_def)

lemma array_get_eq_Some: "array_get xs i = Some x \<longleftrightarrow> i < length xs \<and> xs ! i = x"
  by (simp add: array_get_def)

lemma array_upd_in [simp]: "i < length xs \<Longrightarrow> array_upd xs i f = Some (xs[i := f (xs ! i)])"
  by (simp add: array_upd_def)

lemma array_upd_eq_Some: "array_upd xs i f = Some ys \<longleftrightarrow> i < length xs \<and> ys = xs[i := f (xs ! i)]"
  by (auto simp: array_upd_def)

section \<open>Objects\<close>

record ipc_object =
  io_references :: u32
  io_bits :: u32
  io_receiver_name :: mach_port_name_t

abbreviation (input) IO_NULL :: ipc_object_t where "IO_NULL \<equiv> 0"
abbreviation (input) IO_DEAD :: ipc_object_t where "IO_DEAD \<equiv> - 1"
abbreviation (input) IP_NULL :: ipc_port_t where "IP_NULL \<equiv> 0"
abbreviation (input) IP_DEAD :: ipc_port_t where "IP_DEAD \<equiv> - 1"

definition IO_VALID :: "ipc_object_t \<Rightarrow> bool" where
  "IO_VALID io \<longleftrightarrow> io \<noteq> IO_NULL \<and> io \<noteq> IO_DEAD"

abbreviation IP_VALID :: "ipc_port_t \<Rightarrow> bool" where "IP_VALID \<equiv> IO_VALID"

abbreviation IO_BITS_ACTIVE :: u32 where "IO_BITS_ACTIVE \<equiv> 0x80000000"
abbreviation IO_BITS_OTYPE :: u32 where "IO_BITS_OTYPE \<equiv> 0x7fff0000"
abbreviation IO_BITS_KOTYPE :: u32 where "IO_BITS_KOTYPE \<equiv> 0x00000fff"

definition io_active :: "'a ipc_object_scheme \<Rightarrow> bool" where
  "io_active io \<longleftrightarrow> io_bits io AND IO_BITS_ACTIVE \<noteq> 0"

definition io_otype :: "'a ipc_object_scheme \<Rightarrow> u32" where
  "io_otype io = drop_bit 16 (io_bits io AND IO_BITS_OTYPE)"

definition io_kotype :: "'a ipc_object_scheme \<Rightarrow> u32" where
  "io_kotype io = io_bits io AND IO_BITS_KOTYPE"

abbreviation (input) IOT_PORT :: u32 where "IOT_PORT \<equiv> 0"
abbreviation (input) IOT_PORT_SET :: u32 where "IOT_PORT_SET \<equiv> 1"

definition io_makebits :: "bool \<Rightarrow> u32 \<Rightarrow> u32 \<Rightarrow> u32" where
  "io_makebits active otype kotype =
     ((if active then IO_BITS_ACTIVE else 0) OR push_bit 16 otype) OR kotype"

definition IO_MAX_REFERENCES :: u32 where
  "IO_MAX_REFERENCES = NOT 0 XOR push_bit 31 1"

definition io_reference :: "'a ipc_object_scheme \<Rightarrow> 'a ipc_object_scheme option" where
  "io_reference io =
    do { kassert (io_references io < IO_MAX_REFERENCES);
         Some (io\<lparr>io_references := io_references io + 1\<rparr>) }"

definition io_release :: "'a ipc_object_scheme \<Rightarrow> 'a ipc_object_scheme option" where
  "io_release io =
    do { kassert (0 < io_references io \<and> io_references io \<le> IO_MAX_REFERENCES);
         Some (io\<lparr>io_references := io_references io - 1\<rparr>) }"

lemma IO_MAX_REFERENCES_eq: "IO_MAX_REFERENCES = 0x7fffffff"
  by (simp add: IO_MAX_REFERENCES_def)

section \<open>Ports and port sets\<close>

text \<open>\<open>ipr_next\<close> and \<open>ipr_soright\<close> are one word, and so are \<open>ipr_name\<close> and \<open>ipr_size\<close>. The
  element 0 of a table holds the head of the free list and the current size, a pointer into
  \<^verbatim>\<open>ipc_table_dnrequests\<close> that is kept as its index there.\<close>

record ipc_port_request =
  ipr_soright :: u32
  ipr_name :: mach_port_name_t

abbreviation "ipr_next \<equiv> ipr_soright"
abbreviation "ipr_next_update \<equiv> ipr_soright_update"
abbreviation "ipr_size \<equiv> ipr_name"
abbreviation "ipr_size_update \<equiv> ipr_name_update"

text \<open>Of a message queue: the sets that its wait queue is linked to, oldest first, and the
  counters.\<close>

record ipc_mqueue =
  imq_sets :: "u32 list"
  imq_msgcount :: u32
  imq_qlimit :: u32
  imq_seqno :: u32
  imq_fullwaiters :: bool

record ipc_port = ipc_object +
  ip_data :: u32
  ip_kobject :: u32
  ip_subsystem :: u32
  ip_mscount :: u32
  ip_srights :: u32
  ip_sorights :: u32
  ip_nsrequest :: ipc_port_t
  ip_pdrequest :: ipc_port_t
  ip_dnrequests :: "ipc_port_request list option"
  ip_pset_count :: u32
  ip_messages :: ipc_mqueue
  ip_flags :: u32

abbreviation "ip_receiver \<equiv> ip_data"
abbreviation "ip_receiver_update \<equiv> ip_data_update"
abbreviation "ip_destination \<equiv> ip_data"
abbreviation "ip_destination_update \<equiv> ip_data_update"
abbreviation "ip_timestamp \<equiv> ip_data"
abbreviation "ip_timestamp_update \<equiv> ip_data_update"

abbreviation IP_BIT_NMS :: u32 where "IP_BIT_NMS \<equiv> 0x00008000"

text \<open>Timestamps wrap around; the order is that of the signed difference.\<close>

definition IP_TIMESTAMP_ORDER :: "u32 \<Rightarrow> u32 \<Rightarrow> bool" where
  "IP_TIMESTAMP_ORDER one two \<longleftrightarrow> one - two <s 0"

record ipc_pset = ipc_object +
  ips_pset_self :: u32

section \<open>Entries and spaces\<close>

text \<open>\<open>ie_next\<close> (in the free list) and \<open>ie_request\<close> are one word. \<open>ie_index\<close> is a slot of the
  reverse hash table that is spread over the entries.\<close>

record ipc_entry =
  ie_object :: ipc_object_t
  ie_bits :: u32
  ie_request :: u32
  ie_index :: u32

abbreviation "ie_next \<equiv> ie_request"
abbreviation "ie_next_update \<equiv> ie_request_update"

text \<open>\<open>is_table_next\<close> points into \<^verbatim>\<open>ipc_table_entries\<close> and is kept as the index there. The
  splay tree holds the \<open>ite_entry\<close> of its entries, under their \<open>ite_name\<close>.\<close>

record ipc_space =
  is_references :: u32
  is_active :: bool
  is_growing :: bool
  is_table :: "ipc_entry list"
  is_table_size :: nat
  is_table_next :: nat
  is_tree :: "ipc_entry ipc_splay_tree"
  is_tree_total :: u32
  is_tree_small :: u32
  is_tree_hash :: u32
  is_fast :: bool

text \<open>A pointer to an entry: the address of a table element, or a node of the splay tree.\<close>

datatype ipc_entry_t = Table_entry nat | Tree_entry mach_port_name_t

section \<open>The kernel state\<close>

datatype ipc_event =
    Sent_port_deleted ipc_port_t mach_port_name_t
  | Sent_port_destroyed ipc_port_t ipc_port_t
  | Sent_no_senders ipc_port_t u32
  | Sent_send_once ipc_port_t
  | Sent_dead_name ipc_port_t mach_port_name_t
  | Mqueue_changed ipc_object_t
  | Senders_woken ipc_port_t nat
  | Mqueue_destroyed ipc_port_t
  | Kobject_destroyed ipc_port_t
  | Subsystem_referenced u32
  | Subsystem_deallocated u32
  | Thread_pool_wakeup ipc_port_t
  | Memory_freed u32
  | Copy_discarded u32
  | Pages_stolen u32
  | Region_removed u32 u32
  | Kernel_region_removed u32 u32
  | Data_copied_out u32 u32 u32
  | Names_copied_out u32 "u32 list"

text \<open>\<open>ks_free_memory\<close> holds what the following calls of the allocators return: an address, or 0
  for a failure; when it is empty they fail. \<open>ks_hash\<close> is the global reverse hash table, whose
  chains hold tree entries, named by their space and name.\<close>

record kernel =
  ks_spaces :: "ipc_space_t \<Rightarrow> ipc_space option"
  ks_ports :: "ipc_port_t \<Rightarrow> ipc_port option"
  ks_psets :: "u32 \<Rightarrow> ipc_pset option"
  ks_hash :: "u32 \<Rightarrow> (ipc_space_t \<times> mach_port_name_t) list"
  ks_hash_mask :: u32
  ks_timestamp :: u32
  ks_table_entries :: "nat list"
  ks_table_dnrequests :: "nat list"
  ks_free_memory :: "u32 list"
  ks_events :: "ipc_event list"

definition kalloc :: "kernel \<Rightarrow> u32 \<times> kernel" where
  "kalloc s = (case ks_free_memory s of [] \<Rightarrow> (0, s) | a # as \<Rightarrow> (a, s\<lparr>ks_free_memory := as\<rparr>))"

definition log_event :: "ipc_event \<Rightarrow> kernel \<Rightarrow> kernel" where
  "log_event e s = s\<lparr>ks_events := ks_events s @ [e]\<rparr>"

definition put_space :: "ipc_space_t \<Rightarrow> ipc_space \<Rightarrow> kernel \<Rightarrow> kernel" where
  "put_space a x s = s\<lparr>ks_spaces := (ks_spaces s)(a \<mapsto> x)\<rparr>"

definition put_port :: "ipc_port_t \<Rightarrow> ipc_port \<Rightarrow> kernel \<Rightarrow> kernel" where
  "put_port a x s = s\<lparr>ks_ports := (ks_ports s)(a \<mapsto> x)\<rparr>"

definition put_pset :: "u32 \<Rightarrow> ipc_pset \<Rightarrow> kernel \<Rightarrow> kernel" where
  "put_pset a x s = s\<lparr>ks_psets := (ks_psets s)(a \<mapsto> x)\<rparr>"

text \<open>Updates through a pointer.\<close>

definition upd_space :: "ipc_space_t \<Rightarrow> (ipc_space \<Rightarrow> ipc_space) \<Rightarrow> kernel \<Rightarrow> kernel option" where
  "upd_space a f s = do { x \<leftarrow> ks_spaces s a; Some (put_space a (f x) s) }"

definition upd_port :: "ipc_port_t \<Rightarrow> (ipc_port \<Rightarrow> ipc_port) \<Rightarrow> kernel \<Rightarrow> kernel option" where
  "upd_port a f s = do { x \<leftarrow> ks_ports s a; Some (put_port a (f x) s) }"

section \<open>Entry pointers\<close>

fun ite_map :: "(ipc_entry \<Rightarrow> ipc_entry) \<Rightarrow> mach_port_name_t \<Rightarrow> ipc_entry ite \<Rightarrow> ipc_entry ite" where
  "ite_map f name (k, e) = (k, if k = name then f e else e)"

definition ist_update ::
  "mach_port_name_t \<Rightarrow> (ipc_entry \<Rightarrow> ipc_entry) \<Rightarrow> ipc_entry ipc_splay_tree \<Rightarrow> ipc_entry ipc_splay_tree" where
  "ist_update name f splay =
     splay\<lparr>ist_root := map_tree (ite_map f name) (ist_root splay),
           ist_ltree := map (\<lambda>(l, n). (map_tree (ite_map f name) l, ite_map f name n)) (ist_ltree splay),
           ist_rtree := map (\<lambda>(n, r). (ite_map f name n, map_tree (ite_map f name) r)) (ist_rtree splay)\<rparr>"

fun is_entry :: "ipc_space \<Rightarrow> ipc_entry_t \<Rightarrow> ipc_entry option" where
  "is_entry sp (Table_entry i) = array_get (is_table sp) i"
| "is_entry sp (Tree_entry name) = map_of (ist_entries (is_tree sp)) name"

fun is_entry_upd :: "ipc_entry_t \<Rightarrow> (ipc_entry \<Rightarrow> ipc_entry) \<Rightarrow> ipc_space \<Rightarrow> ipc_space option" where
  "is_entry_upd (Table_entry i) f sp =
     do { t \<leftarrow> array_upd (is_table sp) i f; Some (sp\<lparr>is_table := t\<rparr>) }"
| "is_entry_upd (Tree_entry name) f sp =
     do { e \<leftarrow> map_of (ist_entries (is_tree sp)) name;
          Some (sp\<lparr>is_tree := ist_update name f (is_tree sp)\<rparr>) }"

definition upd_entry ::
  "ipc_space_t \<Rightarrow> ipc_entry_t \<Rightarrow> (ipc_entry \<Rightarrow> ipc_entry) \<Rightarrow> kernel \<Rightarrow> kernel option" where
  "upd_entry space entry f s =
    do { sp \<leftarrow> ks_spaces s space; sp' \<leftarrow> is_entry_upd entry f sp; Some (put_space space sp' s) }"

definition get_entry :: "ipc_space_t \<Rightarrow> ipc_entry_t \<Rightarrow> kernel \<Rightarrow> ipc_entry option" where
  "get_entry space entry s = do { sp \<leftarrow> ks_spaces s space; is_entry sp entry }"

section \<open>References to ports\<close>

definition ip_reference :: "ipc_port_t \<Rightarrow> kernel \<Rightarrow> kernel option" where
  "ip_reference port s =
    do { p \<leftarrow> ks_ports s port; p' \<leftarrow> io_reference p; Some (put_port port p' s) }"

definition ip_release :: "ipc_port_t \<Rightarrow> kernel \<Rightarrow> kernel option" where
  "ip_release port s =
    do { p \<leftarrow> ks_ports s port; p' \<leftarrow> io_release p; Some (put_port port p' s) }"

text \<open>\<^verbatim>\<open>io_check_unlock\<close>: an object whose last reference is gone is freed.\<close>

definition ip_check_unlock :: "ipc_port_t \<Rightarrow> kernel \<Rightarrow> kernel option" where
  "ip_check_unlock port s =
    do { p \<leftarrow> ks_ports s port;
         Some (if io_references p = 0 then s\<lparr>ks_ports := (ks_ports s)(port := None)\<rparr> else s) }"

definition ips_reference :: "u32 \<Rightarrow> kernel \<Rightarrow> kernel option" where
  "ips_reference pset s =
    do { p \<leftarrow> ks_psets s pset; p' \<leftarrow> io_reference p; Some (put_pset pset p' s) }"

definition ips_release :: "u32 \<Rightarrow> kernel \<Rightarrow> kernel option" where
  "ips_release pset s =
    do { p \<leftarrow> ks_psets s pset; p' \<leftarrow> io_release p; Some (put_pset pset p' s) }"

definition ips_check_unlock :: "u32 \<Rightarrow> kernel \<Rightarrow> kernel option" where
  "ips_check_unlock pset s =
    do { p \<leftarrow> ks_psets s pset;
         Some (if io_references p = 0 then s\<lparr>ks_psets := (ks_psets s)(pset := None)\<rparr> else s) }"

end
