(* ===== verification/Ipc_Hash.thy ===== *)
theory Ipc_Hash
  imports Ipc_Types
begin

text \<open>
  The reverse hash tables of \<^verbatim>\<open>osfmk/ipc/ipc_hash.c\<close>, which convert (space, object) into
  (name, entry) for pure send rights. The local table of a space is an open-addressing table
  with linear probing that is spread over the \<open>ie_index\<close> fields of the entry table; deletion
  moves displaced entries of the clump up into the hole. The global table holds the entries of
  splay trees, in chains with move-to-front.
\<close>

section \<open>The local table\<close>

definition IH_LOCAL_HASH :: "ipc_object_t \<Rightarrow> nat \<Rightarrow> nat" where
  "IH_LOCAL_HASH obj sz = unat (drop_bit 6 obj) mod sz"

text \<open>\<^verbatim>\<open>if (++hindex == sz) hindex = 0\<close>\<close>

definition next_slot :: "nat \<Rightarrow> nat \<Rightarrow> nat" where
  "next_slot sz h = (if h + 1 = sz then 0 else h + 1)"

partial_function (option) ipc_hash_local_probe ::
  "ipc_entry list \<Rightarrow> nat \<Rightarrow> ipc_object_t \<Rightarrow> nat \<Rightarrow> (mach_port_name_t \<times> ipc_entry_t) option option" where
  "ipc_hash_local_probe table sz obj hindex =
    do { slot \<leftarrow> array_get table hindex;
         if ie_index slot = 0 then Some None
         else
           do { entry \<leftarrow> array_get table (unat (ie_index slot));
                if ie_object entry = obj then
                  Some (Some (MACH_PORT_MAKE (ie_index slot) (IE_BITS_GEN (ie_bits entry)),
                              Table_entry (unat (ie_index slot))))
                else ipc_hash_local_probe table sz obj (next_slot sz hindex) } }"

definition ipc_hash_local_lookup ::
  "ipc_space \<Rightarrow> ipc_object_t \<Rightarrow> (mach_port_name_t \<times> ipc_entry_t) option option" where
  "ipc_hash_local_lookup sp obj =
    do { kassert (obj \<noteq> IO_NULL);
         ipc_hash_local_probe (is_table sp) (is_table_size sp) obj (IH_LOCAL_HASH obj (is_table_size sp)) }"

partial_function (option) ipc_hash_local_free_slot ::
  "ipc_entry list \<Rightarrow> nat \<Rightarrow> nat \<Rightarrow> nat option" where
  "ipc_hash_local_free_slot table sz hindex =
    do { slot \<leftarrow> array_get table hindex;
         if ie_index slot \<noteq> 0 then ipc_hash_local_free_slot table sz (next_slot sz hindex)
         else Some hindex }"

definition ipc_hash_local_insert :: "ipc_space \<Rightarrow> ipc_object_t \<Rightarrow> u32 \<Rightarrow> ipc_space option" where
  "ipc_hash_local_insert sp obj index =
    do { kassert (index \<noteq> 0);
         kassert (obj \<noteq> IO_NULL);
         entry \<leftarrow> array_get (is_table sp) (unat index);
         kassert (ie_object entry = obj);
         hindex \<leftarrow> ipc_hash_local_free_slot (is_table sp) (is_table_size sp)
                    (IH_LOCAL_HASH obj (is_table_size sp));
         table \<leftarrow> array_upd (is_table sp) hindex (ie_index_update (\<lambda>_. index));
         Some (sp\<lparr>is_table := table\<rparr>) }"

text \<open>The three loops of the deletion: find the slot of the index, find the next displaced object
  (or the end of the clump), and move displaced objects up until the clump ends.\<close>

partial_function (option) ipc_hash_local_find ::
  "ipc_entry list \<Rightarrow> nat \<Rightarrow> u32 \<Rightarrow> nat \<Rightarrow> nat option" where
  "ipc_hash_local_find table sz index hindex =
    do { slot \<leftarrow> array_get table hindex;
         if ie_index slot \<noteq> index then ipc_hash_local_find table sz index (next_slot sz hindex)
         else Some hindex }"

definition displaced :: "nat \<Rightarrow> nat \<Rightarrow> nat \<Rightarrow> bool" where
  "displaced dindex hindex tindex \<longleftrightarrow>
    (if dindex < hindex then dindex < tindex \<and> tindex \<le> hindex
     else dindex < tindex \<or> tindex \<le> hindex)"

partial_function (option) ipc_hash_local_scan ::
  "ipc_entry list \<Rightarrow> nat \<Rightarrow> nat \<Rightarrow> nat \<Rightarrow> (nat \<times> u32) option" where
  "ipc_hash_local_scan table sz hindex dindex0 =
    (let dindex = next_slot sz dindex0 in
     do { kassert (dindex \<noteq> hindex);
          slot \<leftarrow> array_get table dindex;
          if ie_index slot = 0 then Some (dindex, 0)
          else
            do { tentry \<leftarrow> array_get table (unat (ie_index slot));
                 kassert (ie_object tentry \<noteq> IO_NULL);
                 if displaced dindex hindex (IH_LOCAL_HASH (ie_object tentry) sz)
                 then Some (dindex, ie_index slot)
                 else ipc_hash_local_scan table sz hindex dindex } })"

partial_function (option) ipc_hash_local_close ::
  "ipc_entry list \<Rightarrow> nat \<Rightarrow> nat \<Rightarrow> ipc_entry list option" where
  "ipc_hash_local_close table sz hindex =
    do { (dindex, index) \<leftarrow> ipc_hash_local_scan table sz hindex hindex;
         table' \<leftarrow> array_upd table hindex (ie_index_update (\<lambda>_. index));
         if index = 0 then Some table' else ipc_hash_local_close table' sz dindex }"

definition ipc_hash_local_delete :: "ipc_space \<Rightarrow> ipc_object_t \<Rightarrow> u32 \<Rightarrow> ipc_space option" where
  "ipc_hash_local_delete sp obj index =
    do { kassert (index \<noteq> MACH_PORT_NULL);
         kassert (obj \<noteq> IO_NULL);
         entry \<leftarrow> array_get (is_table sp) (unat index);
         kassert (ie_object entry = obj);
         hindex \<leftarrow> ipc_hash_local_find (is_table sp) (is_table_size sp) index
                    (IH_LOCAL_HASH obj (is_table_size sp));
         table \<leftarrow> ipc_hash_local_close (is_table sp) (is_table_size sp) hindex;
         Some (sp\<lparr>is_table := table\<rparr>) }"

section \<open>The global table\<close>

definition IH_GLOBAL_HASH :: "kernel \<Rightarrow> ipc_space_t \<Rightarrow> ipc_object_t \<Rightarrow> u32" where
  "IH_GLOBAL_HASH s space obj = (drop_bit 4 space + drop_bit 6 obj) AND ks_hash_mask s"

text \<open>The object of a tree entry that a chain points to.\<close>

definition ite_object_at :: "kernel \<Rightarrow> ipc_space_t \<times> mach_port_name_t \<Rightarrow> ipc_object_t option" where
  "ite_object_at s p = do { e \<leftarrow> get_entry (fst p) (Tree_entry (snd p)) s; Some (ie_object e) }"

text \<open>Walks the chain: the entries passed, the entry found, the entries after it.\<close>

fun ipc_hash_global_walk ::
  "kernel \<Rightarrow> ipc_space_t \<Rightarrow> ipc_object_t \<Rightarrow> (ipc_space_t \<times> mach_port_name_t) list \<Rightarrow>
   (ipc_space_t \<times> mach_port_name_t) list \<Rightarrow>
   (mach_port_name_t \<times> (ipc_space_t \<times> mach_port_name_t) list) option option" where
  "ipc_hash_global_walk s space obj passed [] = Some None"
| "ipc_hash_global_walk s space obj passed (this # rest) =
    do { o' \<leftarrow> ite_object_at s this;
         if o' = obj \<and> fst this = space then Some (Some (snd this, this # passed @ rest))
         else ipc_hash_global_walk s space obj (passed @ [this]) rest }"

definition ipc_hash_global_lookup ::
  "ipc_space_t \<Rightarrow> ipc_object_t \<Rightarrow> kernel \<Rightarrow>
   ((mach_port_name_t \<times> ipc_entry_t) option \<times> kernel) option" where
  "ipc_hash_global_lookup space obj s =
    do { sp \<leftarrow> ks_spaces s space;
         kassert (obj \<noteq> IO_NULL);
         kassert (\<not> is_fast sp);
         r \<leftarrow> ipc_hash_global_walk s space obj [] (ks_hash s (IH_GLOBAL_HASH s space obj));
         Some (case r of
             None \<Rightarrow> (None, s)
           | Some (name, chain) \<Rightarrow>
               (Some (name, Tree_entry name),
                s\<lparr>ks_hash := (ks_hash s)(IH_GLOBAL_HASH s space obj := chain)\<rparr>)) }"

text \<open>\<open>entry\<close> is what the tree entry pointer of the C routine points to.\<close>

definition ipc_hash_global_insert ::
  "ipc_space_t \<Rightarrow> ipc_object_t \<Rightarrow> mach_port_name_t \<Rightarrow> ipc_entry \<Rightarrow> kernel \<Rightarrow> kernel option" where
  "ipc_hash_global_insert space obj name entry s =
    do { sp \<leftarrow> ks_spaces s space;
         kassert (\<not> is_fast sp);
         kassert (obj \<noteq> IO_NULL);
         kassert (ie_object entry = obj);
         s \<leftarrow> upd_space space (\<lambda>sp. sp\<lparr>is_tree_hash := is_tree_hash sp + 1\<rparr>) s;
         kassert (is_tree_hash sp + 1 \<le> is_tree_total sp);
         let h = IH_GLOBAL_HASH s space obj in
         Some (s\<lparr>ks_hash := (ks_hash s)(h := (space, name) # ks_hash s h)\<rparr>) }"

definition ipc_hash_global_delete ::
  "ipc_space_t \<Rightarrow> ipc_object_t \<Rightarrow> mach_port_name_t \<Rightarrow> ipc_entry \<Rightarrow> kernel \<Rightarrow> kernel option" where
  "ipc_hash_global_delete space obj name entry s =
    do { sp \<leftarrow> ks_spaces s space;
         kassert (\<not> is_fast sp);
         kassert (obj \<noteq> IO_NULL);
         kassert (ie_object entry = obj);
         kassert (0 < is_tree_hash sp);
         s \<leftarrow> upd_space space (\<lambda>sp. sp\<lparr>is_tree_hash := is_tree_hash sp - 1\<rparr>) s;
         let h = IH_GLOBAL_HASH s space obj in
         do { kassert ((space, name) \<in> set (ks_hash s h));
              Some (s\<lparr>ks_hash := (ks_hash s)(h := remove1 (space, name) (ks_hash s h))\<rparr>) } }"

section \<open>Both tables\<close>

definition ipc_hash_lookup ::
  "ipc_space_t \<Rightarrow> ipc_object_t \<Rightarrow> kernel \<Rightarrow>
   ((mach_port_name_t \<times> ipc_entry_t) option \<times> kernel) option" where
  "ipc_hash_lookup space obj s =
    do { sp \<leftarrow> ks_spaces s space;
         r \<leftarrow> ipc_hash_local_lookup sp obj;
         if r \<noteq> None then Some (r, s)
         else
           do { kassert (\<not> is_fast sp \<or> is_tree_hash sp = 0);
                if 0 < is_tree_hash sp then ipc_hash_global_lookup space obj s
                else Some (None, s) } }"

text \<open>Whether the entry is the table element of the index of the name.\<close>

definition in_table :: "ipc_space \<Rightarrow> mach_port_name_t \<Rightarrow> ipc_entry_t \<Rightarrow> bool" where
  "in_table sp name entry \<longleftrightarrow>
     unat (MACH_PORT_INDEX name) < is_table_size sp \<and> entry = Table_entry (unat (MACH_PORT_INDEX name))"

definition ipc_hash_insert ::
  "ipc_space_t \<Rightarrow> ipc_object_t \<Rightarrow> mach_port_name_t \<Rightarrow> ipc_entry_t \<Rightarrow> kernel \<Rightarrow> kernel option" where
  "ipc_hash_insert space obj name entry s =
    do { sp \<leftarrow> ks_spaces s space;
         if in_table sp name entry then
           do { sp' \<leftarrow> ipc_hash_local_insert sp obj (MACH_PORT_INDEX name);
                Some (put_space space sp' s) }
         else
           do { kassert (\<not> is_fast sp);
                kassert (entry = Tree_entry name);
                e \<leftarrow> is_entry sp entry;
                ipc_hash_global_insert space obj name e s } }"

definition ipc_hash_delete ::
  "ipc_space_t \<Rightarrow> ipc_object_t \<Rightarrow> mach_port_name_t \<Rightarrow> ipc_entry_t \<Rightarrow> kernel \<Rightarrow> kernel option" where
  "ipc_hash_delete space obj name entry s =
    do { sp \<leftarrow> ks_spaces s space;
         if in_table sp name entry then
           do { sp' \<leftarrow> ipc_hash_local_delete sp obj (MACH_PORT_INDEX name);
                Some (put_space space sp' s) }
         else
           do { kassert (\<not> is_fast sp);
                kassert (entry = Tree_entry name);
                e \<leftarrow> is_entry sp entry;
                ipc_hash_global_delete space obj name e s } }"

section \<open>Linear probing\<close>

text \<open>
  \<open>rot n e x\<close> is the position of slot \<open>x\<close> in the cyclic order of \<open>n\<close> slots that ends with slot
  \<open>e\<close>. A probe sequence that does not pass the empty slot \<open>e\<close> is an interval of this order.
\<close>

definition rot :: "nat \<Rightarrow> nat \<Rightarrow> nat \<Rightarrow> nat" where
  "rot n e x = (if x \<le> e then x + n - 1 - e else x - e - 1)"

lemma rot_less: "x < n \<Longrightarrow> e < n \<Longrightarrow> rot n e x < n"
  by (auto simp: rot_def)

lemma rot_end: "e < n \<Longrightarrow> rot n e e = n - 1"
  by (simp add: rot_def)

lemma rot_inj: "x < n \<Longrightarrow> y < n \<Longrightarrow> e < n \<Longrightarrow> rot n e x = rot n e y \<longleftrightarrow> x = y"
  by (auto simp: rot_def split: if_splits)

lemma rot_next: "x < n \<Longrightarrow> e < n \<Longrightarrow> x \<noteq> e \<Longrightarrow> rot n e (next_slot n x) = Suc (rot n e x)"
  by (auto simp: rot_def next_slot_def)

lemma next_slot_less: "x < n \<Longrightarrow> next_slot n x < n"
  by (auto simp: next_slot_def)

lemma rot_last: "x < n \<Longrightarrow> e < n \<Longrightarrow> x \<noteq> e \<Longrightarrow> rot n e x < n - 1"
  by (auto simp: rot_def)

lemma rot_cases:
  "x < n \<Longrightarrow> e < n \<Longrightarrow>
     (x \<le> e \<and> rot n e x + e + 1 = x + n) \<or> (e < x \<and> rot n e x + e + 1 = x)"
  by (auto simp: rot_def)

lemma rot_rot:
  assumes "x < n" "e < n" "y < n"
  shows "rot n e y = rot n (rot n x e) (rot n x y)"
proof -
  have l: "rot n x e < n" "rot n x y < n" using assms by (auto simp: rot_def)
  show ?thesis
    using rot_cases [OF assms(3,2)] rot_cases [OF assms(2,1)] rot_cases [OF assms(3,1)]
      rot_cases [OF l(2,1)] assms
    by (elim disjE conjE; simp)
qed

text \<open>In the order that ends with \<open>x\<close>, the interval from \<open>t\<close> to \<open>p\<close> avoids \<open>e\<close>.\<close>

lemma rot_interval:
  assumes "x < n" "e < n" "t < n" "p < n" and "rot n x t \<le> rot n x p"
  shows "rot n e t \<le> rot n e p \<longleftrightarrow> \<not> (rot n x t \<le> rot n x e \<and> rot n x e < rot n x p)"
proof -
  have "rot n x e < n" "rot n x p < n" using assms by (auto simp: rot_less)
  with assms(5) have "rot n (rot n x e) (rot n x t) \<le> rot n (rot n x e) (rot n x p) \<longleftrightarrow>
      \<not> (rot n x t \<le> rot n x e \<and> rot n x e < rot n x p)"
    by (auto simp: rot_def [of n "rot n x e"])
  then show ?thesis
    by (simp only: rot_rot [OF assms(1,2,3)] rot_rot [OF assms(1,2,4)])
qed

lemma displaced_rot:
  assumes "d < n" "h < n" "t < n" "e < n" and "rot n e h < rot n e d"
  shows "displaced d h t \<longleftrightarrow> rot n e t \<le> rot n e h \<or> rot n e d < rot n e t"
  using assms by (auto simp: displaced_def rot_def split: if_splits)

definition probe_ok :: "nat \<Rightarrow> (nat \<Rightarrow> nat) \<Rightarrow> (nat \<Rightarrow> nat) \<Rightarrow> bool" where
  "probe_ok n slot hm \<longleftrightarrow>
     (\<forall>p < n. \<forall>e < n. slot p \<noteq> 0 \<longrightarrow> slot e = 0 \<longrightarrow> rot n e (hm (slot p)) \<le> rot n e p)"

definition first_empty :: "nat \<Rightarrow> (nat \<Rightarrow> nat) \<Rightarrow> nat \<Rightarrow> nat \<Rightarrow> bool" where
  "first_empty n slot h x \<longleftrightarrow> x < n \<and> slot x = 0 \<and>
     (\<forall>q < n. q \<noteq> x \<longrightarrow> rot n x h \<le> rot n x q \<longrightarrow> slot q \<noteq> 0)"

lemma first_empty_exists:
  assumes "h < n" "e < n" "slot e = 0"
  obtains x where "first_empty n slot h x"
proof -
  obtain x where x: "x < n" "slot x = 0"
    and least: "\<And>y. y < n \<Longrightarrow> slot y = 0 \<Longrightarrow> n - 1 - rot n x h \<le> n - 1 - rot n y h"
    using ex_has_least_nat [of "\<lambda>x. x < n \<and> slot x = 0" e "\<lambda>x. n - 1 - rot n x h"] assms by blast
  have "slot q \<noteq> 0" if q: "q < n" "q \<noteq> x" "rot n x h \<le> rot n x q" for q
  proof
    assume "slot q = 0"
    from least [OF q(1) this] q x(1) assms(1) show False
      by (auto simp: rot_def split: if_splits)
  qed
  with x that show ?thesis by (auto simp: first_empty_def)
qed

lemma first_empty_step:
  assumes "first_empty n slot h x" "h < n" "h \<noteq> x"
  shows "first_empty n slot (next_slot n h) x" and "slot h \<noteq> 0"
  using assms rot_next [of h n x] by (auto simp: first_empty_def)

text \<open>An occupied slot whose probe sequence starts between \<open>h\<close> and the first empty slot after
  it lies in front of that slot.\<close>

lemma probe_ok_before:
  assumes "probe_ok n slot hm" "first_empty n slot h x" "p < n" "slot p \<noteq> 0" "hm (slot p) = h"
  shows "rot n x h \<le> rot n x p" and "p \<noteq> x"
  using assms by (auto simp: probe_ok_def first_empty_def)

lemma probe_ok_insert:
  assumes ok: "probe_ok n slot hm" and x: "first_empty n slot h x" and h: "h < n" "hm j = h"
    and home: "\<And>p. p < n \<Longrightarrow> slot p \<noteq> 0 \<Longrightarrow> hm (slot p) < n"
  shows "probe_ok n (slot(x := j)) hm"
  unfolding probe_ok_def
proof (intro allI impI)
  fix p e assume p: "p < n" "(slot(x := j)) p \<noteq> 0" and e: "e < n" "(slot(x := j)) e = 0"
  show "rot n e (hm ((slot(x := j)) p)) \<le> rot n e p"
  proof (cases "p = x")
    case False
    with p e ok x show ?thesis by (auto simp: probe_ok_def first_empty_def split: if_splits)
  next
    case True
    with p e have "e \<noteq> x" "slot e = 0" by (auto split: if_splits)
    with x e(1) have "\<not> rot n x h \<le> rot n x e" by (auto simp: first_empty_def)
    moreover have "x < n" using x by (simp add: first_empty_def)
    moreover have "rot n x h \<le> rot n x x" using rot_less [OF h(1) \<open>x < n\<close>] rot_end [OF \<open>x < n\<close>] by simp
    ultimately show ?thesis
      using rot_interval [of x n e h x] True h e(1) by auto
  qed
qed

text \<open>The invariant with a hole at \<open>h\<close>: the occupant of \<open>h\<close> is about to go.\<close>

definition hole_ok :: "nat \<Rightarrow> (nat \<Rightarrow> nat) \<Rightarrow> (nat \<Rightarrow> nat) \<Rightarrow> nat \<Rightarrow> bool" where
  "hole_ok n slot hm h \<longleftrightarrow>
     (\<forall>p < n. \<forall>e < n. p \<noteq> h \<longrightarrow> slot p \<noteq> 0 \<longrightarrow> slot e = 0 \<longrightarrow> rot n e (hm (slot p)) \<le> rot n e p)"

lemma probe_ok_hole: "probe_ok n slot hm \<Longrightarrow> hole_ok n slot hm h"
  by (auto simp: probe_ok_def hole_ok_def)

lemma hole_close:
  assumes ok: "hole_ok n slot hm h" and x: "first_empty n slot h x" and h: "h < n" "h \<noteq> x"
    and home: "\<And>p. p < n \<Longrightarrow> slot p \<noteq> 0 \<Longrightarrow> hm (slot p) < n"
    and stay: "\<And>q. q < n \<Longrightarrow> rot n x h < rot n x q \<Longrightarrow> q \<noteq> x \<Longrightarrow> rot n x h < rot n x (hm (slot q))"
  shows "probe_ok n (slot(h := 0)) hm"
  unfolding probe_ok_def
proof (intro allI impI)
  fix p e assume p: "p < n" "(slot(h := 0)) p \<noteq> 0" and e: "e < n" "(slot(h := 0)) e = 0"
  from p have ph: "p \<noteq> h" "slot p \<noteq> 0" by (auto split: if_splits)
  from x have xn: "x < n" "slot x = 0" by (auto simp: first_empty_def)
  have px: "rot n x (hm (slot p)) \<le> rot n x p"
    using ok ph p(1) xn unfolding hole_ok_def by blast
  have "p \<noteq> x" using ph xn by auto
  show "rot n e (hm ((slot(h := 0)) p)) \<le> rot n e p"
  proof (cases "e = h")
    case False
    with e ph p(1) ok show ?thesis by (auto simp: hole_ok_def)
  next
    case True
    have b: "hm (slot p) < n" using home p(1) ph(2) .
    show ?thesis
      using rot_interval [OF xn(1) h(1) b p(1) px] stay [OF p(1) _ \<open>p \<noteq> x\<close>] ph(1) \<open>e = h\<close> by auto
  qed
qed

lemma hole_move:
  assumes ok: "hole_ok n slot hm h" and x: "first_empty n slot h x" and h: "h < n" "h \<noteq> x" "slot h \<noteq> 0"
    and d: "d < n" "d \<noteq> x" "rot n x h < rot n x d" "rot n x (hm (slot d)) \<le> rot n x h"
    and home: "hm (slot d) < n"
  shows "hole_ok n (slot(h := slot d)) hm d" and "first_empty n (slot(h := slot d)) d x"
proof -
  from x have xn: "x < n" "slot x = 0" by (auto simp: first_empty_def)
  have dn: "slot d \<noteq> 0" using x d by (auto simp: first_empty_def)
  show "first_empty n (slot(h := slot d)) d x"
    using x h d dn by (auto simp: first_empty_def)
  show "hole_ok n (slot(h := slot d)) hm d"
    unfolding hole_ok_def
  proof (intro allI impI)
    fix p e assume p: "p < n" "p \<noteq> d" "(slot(h := slot d)) p \<noteq> 0"
      and e: "e < n" "(slot(h := slot d)) e = 0"
    from e dn have eh: "e \<noteq> h" "slot e = 0" by (auto split: if_splits)
    show "rot n e (hm ((slot(h := slot d)) p)) \<le> rot n e p"
    proof (cases "p = h")
      case False
      with ok p e eh show ?thesis by (auto simp: hole_ok_def)
    next
      case True
      have "d \<noteq> h" using d(3) by auto
      then have "rot n e (hm (slot d)) \<le> rot n e d"
        using ok d(1) dn e(1) eh unfolding hole_ok_def by blast
      with rot_interval [OF xn(1) e(1) home d(1)] rot_interval [OF xn(1) e(1) home h(1) d(4)] d(3,4)
      show ?thesis by (auto simp: True)
    qed
  qed
qed

section \<open>The invariant of the local table\<close>

abbreviation slot_of :: "ipc_entry list \<Rightarrow> nat \<Rightarrow> nat" where
  "slot_of t p \<equiv> unat (ie_index (t ! p))"

abbreviation home_of :: "ipc_entry list \<Rightarrow> nat \<Rightarrow> nat" where
  "home_of t j \<equiv> IH_LOCAL_HASH (ie_object (t ! j)) (length t)"

text \<open>The indices of the entries that the reverse table holds.\<close>

definition hashed :: "ipc_entry list \<Rightarrow> nat set" where
  "hashed t = {j. j \<noteq> 0 \<and> (\<exists>p < length t. slot_of t p = j)}"

definition local_hash_ok :: "ipc_entry list \<Rightarrow> bool" where
  "local_hash_ok t \<longleftrightarrow> 0 < length t \<and>
     (\<forall>p < length t. slot_of t p < length t) \<and>
     (\<forall>p < length t. \<forall>q < length t. slot_of t p = slot_of t q \<longrightarrow> slot_of t p \<noteq> 0 \<longrightarrow> p = q) \<and>
     probe_ok (length t) (slot_of t) (home_of t) \<and>
     (\<forall>j \<in> hashed t. ie_object (t ! j) \<noteq> IO_NULL) \<and>
     inj_on (\<lambda>j. ie_object (t ! j)) (hashed t)"

lemma home_less: "0 < n \<Longrightarrow> IH_LOCAL_HASH obj n < n"
  by (simp add: IH_LOCAL_HASH_def)

lemma hashed_bound: "local_hash_ok t \<Longrightarrow> j \<in> hashed t \<Longrightarrow> j < length t"
  by (auto simp: hashed_def local_hash_ok_def)

lemma empty_slot_exists:
  assumes "local_hash_ok t"
  shows "\<exists>e < length t. slot_of t e = 0"
proof (rule ccontr)
  assume *: "\<not> ?thesis"
  let ?n = "length t"
  have nz: "slot_of t p \<noteq> 0" if "p < ?n" for p using * that by auto
  have "inj_on (slot_of t) {..<?n}"
    using assms nz by (auto simp: local_hash_ok_def inj_on_def)
  moreover have "slot_of t ` {..<?n} \<subseteq> {..<?n} - {0}"
    using assms nz unfolding local_hash_ok_def by fastforce
  ultimately have "card {..<?n} \<le> card ({..<?n} - {0})"
    using card_image [of "slot_of t" "{..<?n}"] card_mono [of "{..<?n} - {0}" "slot_of t ` {..<?n}"] by simp
  then show False using assms by (cases t) (auto simp: local_hash_ok_def)
qed

lemma local_first_empty:
  assumes "local_hash_ok t" "h < length t"
  obtains x where "first_empty (length t) (slot_of t) h x"
proof -
  obtain e where "e < length t" "slot_of t e = 0" using empty_slot_exists [OF assms(1)] by auto
  from first_empty_exists [of h "length t" e "slot_of t", OF assms(2) this] that show thesis by blast
qed

text \<open>Induction along a probe sequence, up to the first empty slot.\<close>

lemma probe_induct [consumes 2, case_names empty step]:
  assumes "first_empty n slot h x" "h < n"
    and empty: "P x"
    and step: "\<And>h. h < n \<Longrightarrow> h \<noteq> x \<Longrightarrow> slot h \<noteq> 0 \<Longrightarrow> first_empty n slot h x \<Longrightarrow>
      first_empty n slot (next_slot n h) x \<Longrightarrow> P (next_slot n h) \<Longrightarrow> P h"
  shows "P h"
  using assms(1,2)
proof (induction "n - rot n x h" arbitrary: h rule: less_induct)
  case less
  show ?case
  proof (cases "h = x")
    case True
    with empty show ?thesis by simp
  next
    case False
    have xn: "x < n" using less.prems(1) by (simp add: first_empty_def)
    note s = first_empty_step [OF less.prems False]
    have "n - rot n x (next_slot n h) < n - rot n x h"
      using rot_next [OF less.prems(2) xn False] rot_last [OF less.prems(2) xn False] by simp
    from less.hyps [OF this s(1) next_slot_less [OF less.prems(2)]] step less.prems False s
    show ?thesis by blast
  qed
qed

text \<open>A slot in the rest of a probe sequence is the current one or in the rest after it.\<close>

lemma rest_of_probe:
  assumes "h < n" "x < n" "h \<noteq> x" "q < n" "rot n x h \<le> rot n x q"
  shows "q = h \<or> rot n x (next_slot n h) \<le> rot n x q"
  using assms rot_next [of h n x] rot_inj [of h n q x] by auto

section \<open>Lookup and insertion in the local table\<close>

lemma probe_found:
  assumes ok: "local_hash_ok t" and "first_empty (length t) (slot_of t) h x" "h < length t"
    and q: "q < length t" "q \<noteq> x" "rot (length t) x h \<le> rot (length t) x q"
    and obj: "ie_object (t ! slot_of t q) = obj"
  shows "ipc_hash_local_probe t (length t) obj h =
    Some (Some (MACH_PORT_MAKE (ie_index (t ! q)) (IE_BITS_GEN (ie_bits (t ! slot_of t q))),
                Table_entry (slot_of t q)))"
  using assms(2,3) q(3)
proof (induction rule: probe_induct)
  case empty
  have "x < length t" using assms(2) by (simp add: first_empty_def)
  with empty q(1,2) rot_end rot_last [of q "length t" x] show ?case by simp
next
  case (step h)
  have xn: "x < length t" using assms(2) by (simp add: first_empty_def)
  have qn: "slot_of t q \<noteq> 0" using assms(2) q by (auto simp: first_empty_def)
  have hash: "slot_of t q \<in> hashed t" "slot_of t h \<in> hashed t"
    using qn q(1) step(1,3) by (auto simp: hashed_def)
  have bound: "slot_of t h < length t" using ok step(1) by (simp add: local_hash_ok_def)
  show ?case
  proof (cases "ie_object (t ! slot_of t h) = obj")
    case True
    with obj hash ok have "slot_of t h = slot_of t q" by (auto simp: local_hash_ok_def inj_on_def)
    then have "ie_index (t ! h) = ie_index (t ! q)" by (simp only: word_unat_eq_iff)
    with True step bound show ?thesis by (subst ipc_hash_local_probe.simps) auto
  next
    case False
    with obj have "q \<noteq> h" by auto
    with rest_of_probe [OF step(1) xn step(2) q(1) step(7)] step(6) False bound step(1,3)
    show ?thesis by (subst ipc_hash_local_probe.simps) auto
  qed
qed

lemma probe_not_found:
  assumes ok: "local_hash_ok t" and "first_empty (length t) (slot_of t) h x" "h < length t"
    and "\<forall>j \<in> hashed t. ie_object (t ! j) \<noteq> obj"
  shows "ipc_hash_local_probe t (length t) obj h = Some None"
  using assms(2,3)
proof (induction rule: probe_induct)
  case empty
  with assms(2) show ?case by (subst ipc_hash_local_probe.simps) (auto simp: first_empty_def unat_eq_0)
next
  case (step h)
  have "slot_of t h \<in> hashed t" using step(1,3) by (auto simp: hashed_def)
  moreover have "slot_of t h < length t" using ok step(1) by (simp add: local_hash_ok_def)
  ultimately show ?case using step assms(4) by (subst ipc_hash_local_probe.simps) auto
qed

lemma free_slot_result:
  assumes "first_empty (length t) (slot_of t) h x" "h < length t"
  shows "ipc_hash_local_free_slot t (length t) h = Some x"
  using assms
proof (induction rule: probe_induct)
  case empty
  with assms(1) show ?case
    by (subst ipc_hash_local_free_slot.simps) (auto simp: first_empty_def unat_eq_0)
next
  case (step h)
  then show ?case by (subst ipc_hash_local_free_slot.simps) auto
qed

text \<open>Where the entry of an object sits: between its home and the first empty slot after it.\<close>

lemma hashed_position:
  assumes ok: "local_hash_ok t" and j: "j \<in> hashed t"
    and x: "first_empty (length t) (slot_of t) (home_of t j) x"
  obtains q where "q < length t" "slot_of t q = j" "q \<noteq> x"
    "rot (length t) x (home_of t j) \<le> rot (length t) x q"
proof -
  from j obtain q where q: "q < length t" "slot_of t q = j" "j \<noteq> 0" by (auto simp: hashed_def)
  from ok have p: "probe_ok (length t) (slot_of t) (home_of t)" by (simp add: local_hash_ok_def)
  from probe_ok_before [OF p x q(1)] q that show ?thesis by auto
qed

lemma local_lookup_found:
  assumes ok: "local_hash_ok (is_table sp)" and sz: "is_table_size sp = length (is_table sp)"
    and j: "j \<in> hashed (is_table sp)" "ie_object (is_table sp ! j) = obj"
  shows "ipc_hash_local_lookup sp obj =
    Some (Some (MACH_PORT_MAKE (of_nat j) (IE_BITS_GEN (ie_bits (is_table sp ! j))), Table_entry j))"
proof -
  let ?t = "is_table sp" let ?h = "IH_LOCAL_HASH obj (length ?t)"
  have obj: "obj \<noteq> IO_NULL" using j ok by (auto simp: local_hash_ok_def)
  have h: "?h < length ?t" using ok by (simp add: home_less local_hash_ok_def)
  obtain x where x: "first_empty (length ?t) (slot_of ?t) ?h x"
    using local_first_empty [OF ok h] .
  have "first_empty (length ?t) (slot_of ?t) (home_of ?t j) x" using x j by simp
  from hashed_position [OF ok j(1) this] obtain q where
    q: "q < length ?t" "slot_of ?t q = j" "q \<noteq> x" "rot (length ?t) x ?h \<le> rot (length ?t) x q"
    using j by auto
  have "ie_index (?t ! q) = of_nat j" by (simp flip: q(2))
  with probe_found [OF ok x h q(1,3,4)] j q obj sz show ?thesis
    by (simp add: ipc_hash_local_lookup_def)
qed

lemma local_lookup_not_found:
  assumes ok: "local_hash_ok (is_table sp)" and sz: "is_table_size sp = length (is_table sp)"
    and obj: "obj \<noteq> IO_NULL" "\<forall>j \<in> hashed (is_table sp). ie_object (is_table sp ! j) \<noteq> obj"
  shows "ipc_hash_local_lookup sp obj = Some None"
proof -
  let ?t = "is_table sp" let ?h = "IH_LOCAL_HASH obj (length ?t)"
  have h: "?h < length ?t" using ok by (simp add: home_less local_hash_ok_def)
  obtain x where x: "first_empty (length ?t) (slot_of ?t) ?h x"
    using local_first_empty [OF ok h] .
  from probe_not_found [OF ok x h obj(2)] obj sz show ?thesis
    by (simp add: ipc_hash_local_lookup_def)
qed

text \<open>A store into the slot \<open>x\<close>.\<close>

abbreviation set_slot :: "ipc_entry list \<Rightarrow> nat \<Rightarrow> u32 \<Rightarrow> ipc_entry list" where
  "set_slot t x j \<equiv> t[x := (t ! x)\<lparr>ie_index := j\<rparr>]"

lemma slot_of_set_slot:
  "x < length t \<Longrightarrow> slot_of (set_slot t x j) p = (if p = x then unat j else slot_of t p)"
  by auto

lemma same_but_index:
  "x < length t \<Longrightarrow> ie_object (set_slot t x j ! i) = ie_object (t ! i)"
  "x < length t \<Longrightarrow> ie_bits (set_slot t x j ! i) = ie_bits (t ! i)"
  "x < length t \<Longrightarrow> ie_request (set_slot t x j ! i) = ie_request (t ! i)"
  by (cases "i = x"; simp)+

text \<open>What the hash functions leave alone: everything but the slots.\<close>

definition same_entries :: "ipc_entry list \<Rightarrow> ipc_entry list \<Rightarrow> bool" where
  "same_entries t t' \<longleftrightarrow> length t' = length t \<and>
     (\<forall>i < length t. ie_object (t' ! i) = ie_object (t ! i) \<and> ie_bits (t' ! i) = ie_bits (t ! i) \<and>
        ie_request (t' ! i) = ie_request (t ! i))"

lemma same_entries_set_slot: "x < length t \<Longrightarrow> same_entries t (set_slot t x j)"
  by (auto simp: same_entries_def nth_list_update)

lemma same_entries_refl [simp]: "same_entries t t"
  by (simp add: same_entries_def)

lemma same_entries_trans: "same_entries t u \<Longrightarrow> same_entries u v \<Longrightarrow> same_entries t v"
  by (simp add: same_entries_def)

lemma home_of_set_slot:
  "x < length t \<Longrightarrow> home_of (set_slot t x j) = home_of t"
  by (simp add: fun_eq_iff same_but_index)

lemma hashed_set_slot:
  assumes "x < length t"
  shows "hashed (set_slot t x j) = {i. i \<noteq> 0 \<and> (i = unat j \<or> (\<exists>p < length t. p \<noteq> x \<and> slot_of t p = i))}"
  using assms by (auto simp only: hashed_def slot_of_set_slot [OF assms] length_list_update split: if_splits)

lemma local_insert_spec:
  assumes ok: "local_hash_ok (is_table sp)" and sz: "is_table_size sp = length (is_table sp)"
    and j: "index \<noteq> 0" "unat index < length (is_table sp)" "unat index \<notin> hashed (is_table sp)"
    and obj: "ie_object (is_table sp ! unat index) = obj" "obj \<noteq> IO_NULL"
      "\<forall>i \<in> hashed (is_table sp). ie_object (is_table sp ! i) \<noteq> obj"
  shows "\<exists>t'. ipc_hash_local_insert sp obj index = Some (sp\<lparr>is_table := t'\<rparr>) \<and> local_hash_ok t' \<and>
           hashed t' = insert (unat index) (hashed (is_table sp)) \<and> same_entries (is_table sp) t'"
proof -
  let ?t = "is_table sp" let ?n = "length ?t" let ?h = "IH_LOCAL_HASH obj ?n"
  have h: "?h < ?n" using ok by (simp add: home_less local_hash_ok_def)
  obtain x where x: "first_empty ?n (slot_of ?t) ?h x" using local_first_empty [OF ok h] .
  then have xn: "x < ?n" "slot_of ?t x = 0" by (auto simp: first_empty_def)
  let ?t' = "set_slot ?t x index"
  have uj: "unat index \<noteq> 0" using j(1) by (simp add: unat_eq_0)
  have "ipc_hash_local_insert sp obj index = Some (sp\<lparr>is_table := ?t'\<rparr>)"
    using j obj sz free_slot_result [OF x h] xn(1) by (simp add: ipc_hash_local_insert_def)
  moreover have hashed: "hashed ?t' = insert (unat index) (hashed ?t)"
    unfolding hashed_set_slot [OF xn(1)] unfolding hashed_def using xn(2) uj by auto
  moreover have "local_hash_ok ?t'"
    unfolding local_hash_ok_def
  proof (intro conjI)
    have upd: "slot_of ?t' p = ((slot_of ?t)(x := unat index)) p" for p
      using slot_of_set_slot [OF xn(1), of index p] by simp
    show "0 < length ?t'" using h by auto
    show "\<forall>p<length ?t'. slot_of ?t' p < length ?t'"
      using ok j by (auto simp: upd local_hash_ok_def)
    have fresh: "slot_of ?t p \<noteq> unat index" if "p < ?n" for p
      using j(3) uj that by (auto simp: hashed_def)
    have inj: "p = q" if "p < ?n" "q < ?n" "slot_of ?t p = slot_of ?t q" "slot_of ?t p \<noteq> 0" for p q
      using ok that unfolding local_hash_ok_def by blast
    show "\<forall>p<length ?t'. \<forall>q<length ?t'. slot_of ?t' p = slot_of ?t' q \<longrightarrow> slot_of ?t' p \<noteq> 0 \<longrightarrow> p = q"
      unfolding upd using fresh inj by (auto simp: fun_upd_apply dest: sym)
    have "probe_ok ?n ((slot_of ?t)(x := unat index)) (home_of ?t)"
    proof (rule probe_ok_insert [OF _ x h])
      show "probe_ok ?n (slot_of ?t) (home_of ?t)" using ok by (simp add: local_hash_ok_def)
    qed (use obj h in \<open>auto intro: home_less\<close>)
    then show "probe_ok (length ?t') (slot_of ?t') (home_of ?t')"
      by (simp only: probe_ok_def upd same_but_index [OF xn(1)] length_list_update)
    show "\<forall>i\<in>hashed ?t'. ie_object (?t' ! i) \<noteq> 0"
      using ok obj unfolding hashed by (auto simp: local_hash_ok_def same_but_index [OF xn(1)])
    show "inj_on (\<lambda>i. ie_object (?t' ! i)) (hashed ?t')"
      using ok obj unfolding hashed same_but_index [OF xn(1)]
      by (auto simp: local_hash_ok_def inj_on_insert)
  qed
  moreover have "same_entries ?t ?t'" by (rule same_entries_set_slot [OF xn(1)])
  ultimately show ?thesis by blast
qed

section \<open>Deletion from the local table\<close>

text \<open>The occupants of the slots other than the hole.\<close>

definition occupants :: "ipc_entry list \<Rightarrow> nat \<Rightarrow> nat set" where
  "occupants t h = {j. j \<noteq> 0 \<and> (\<exists>p < length t. p \<noteq> h \<and> slot_of t p = j)}"

text \<open>The invariant of the loop that moves displaced entries up: the table is in order but for
  the hole, whose slot still holds an index.\<close>

definition hole_inv :: "ipc_entry list \<Rightarrow> nat \<Rightarrow> nat \<Rightarrow> bool" where
  "hole_inv t h x \<longleftrightarrow> h < length t \<and> h \<noteq> x \<and> first_empty (length t) (slot_of t) h x \<and>
     hole_ok (length t) (slot_of t) (home_of t) h \<and>
     (\<forall>p < length t. slot_of t p < length t) \<and>
     (\<forall>p < length t. \<forall>q < length t. p \<noteq> h \<longrightarrow> q \<noteq> h \<longrightarrow>
        slot_of t p = slot_of t q \<longrightarrow> slot_of t p \<noteq> 0 \<longrightarrow> p = q) \<and>
     (\<forall>j \<in> occupants t h. ie_object (t ! j) \<noteq> IO_NULL) \<and>
     inj_on (\<lambda>j. ie_object (t ! j)) (occupants t h)"

lemma scan_result:
  assumes inv: "hole_inv t h x" and "first_empty (length t) (slot_of t) d x" "d < length t"
    and d: "d \<noteq> x" "rot (length t) x h \<le> rot (length t) x d"
  shows "(ipc_hash_local_scan t (length t) h d = Some (x, 0) \<and>
           (\<forall>q < length t. rot (length t) x d < rot (length t) x q \<longrightarrow> q \<noteq> x \<longrightarrow>
              rot (length t) x h < rot (length t) x (home_of t (slot_of t q)))) \<or>
         (\<exists>d'. ipc_hash_local_scan t (length t) h d = Some (d', ie_index (t ! d')) \<and>
            d' < length t \<and> d' \<noteq> x \<and> rot (length t) x h < rot (length t) x d' \<and>
            rot (length t) x (home_of t (slot_of t d')) \<le> rot (length t) x h)"
  using assms(2,3) d
proof (induction rule: probe_induct)
  case empty
  then show ?case by simp
next
  case (step d)
  let ?n = "length t" let ?d = "next_slot ?n d"
  have xn: "x < ?n" "slot_of t x = 0" using assms(2) by (auto simp: first_empty_def)
  have h: "h < ?n" using inv by (simp add: hole_inv_def)
  have dn: "?d < ?n" by (rule next_slot_less [OF step(1)])
  have up: "rot ?n x ?d = Suc (rot ?n x d)" by (rule rot_next [OF step(1) xn(1) step(2)])
  have neh: "?d \<noteq> h" using up step(8) by auto
  show ?case
  proof (cases "?d = x")
    case True
    have "ie_index (t ! x) = 0" using xn(2) by (simp add: unat_eq_0)
    then have "ipc_hash_local_scan t ?n h d = Some (x, 0)"
      using True neh xn(1) by (subst ipc_hash_local_scan.simps) (simp add: Let_def)
    moreover have "q = x" if "q < ?n" "rot ?n x d < rot ?n x q" for q
      using that up True rot_end [OF xn(1)] rot_last [OF that(1) xn(1)] by auto
    ultimately show ?thesis by auto
  next
    case False
    note s = first_empty_step [OF step(5) dn False]
    have occ: "slot_of t ?d \<in> occupants t h" using s(2) dn neh by (auto simp: occupants_def)
    have b: "slot_of t ?d < ?n" using inv dn by (simp add: hole_inv_def)
    have "ie_object (t ! slot_of t ?d) \<noteq> IO_NULL" using inv occ by (auto simp: hole_inv_def)
    then have scan: "ipc_hash_local_scan t ?n h d =
        (if displaced ?d h (home_of t (slot_of t ?d)) then Some (?d, ie_index (t ! ?d))
         else ipc_hash_local_scan t ?n h ?d)"
      using neh dn b s(2) by (subst ipc_hash_local_scan.simps) (auto simp: Let_def unat_eq_0)
    have hm: "home_of t (slot_of t ?d) < ?n" using h by (intro home_less) auto
    have "rot ?n x (home_of t (slot_of t ?d)) \<le> rot ?n x ?d"
      using inv dn neh s(2) xn unfolding hole_inv_def hole_ok_def by blast
    then have disp: "displaced ?d h (home_of t (slot_of t ?d)) \<longleftrightarrow>
        rot ?n x (home_of t (slot_of t ?d)) \<le> rot ?n x h"
      using displaced_rot [OF dn h hm xn(1)] up step(8) by auto
    show ?thesis
    proof (cases "displaced ?d h (home_of t (slot_of t ?d))")
      case True
      with scan disp dn False up step(8) show ?thesis by auto
    next
      case nd: False
      have ih: "(ipc_hash_local_scan t ?n h ?d = Some (x, 0) \<and>
           (\<forall>q < ?n. rot ?n x ?d < rot ?n x q \<longrightarrow> q \<noteq> x \<longrightarrow>
              rot ?n x h < rot ?n x (home_of t (slot_of t q)))) \<or>
         (\<exists>d'. ipc_hash_local_scan t ?n h ?d = Some (d', ie_index (t ! d')) \<and>
            d' < ?n \<and> d' \<noteq> x \<and> rot ?n x h < rot ?n x d' \<and>
            rot ?n x (home_of t (slot_of t d')) \<le> rot ?n x h)"
        using step(6) False up step(8) by simp
      have "rot ?n x h < rot ?n x (home_of t (slot_of t q))"
        if "q < ?n" "rot ?n x d < rot ?n x q" "\<not> rot ?n x ?d < rot ?n x q" for q
      proof -
        have "rot ?n x q = rot ?n x ?d" using that(2,3) up by simp
        then have "q = ?d" using rot_inj [OF that(1) dn xn(1)] by simp
        with nd disp show ?thesis by auto
      qed
      with ih scan nd show ?thesis by auto
    qed
  qed
qed

lemma hole_inv_close:
  assumes inv: "hole_inv t h x"
    and stay: "\<forall>q < length t. rot (length t) x h < rot (length t) x q \<longrightarrow> q \<noteq> x \<longrightarrow>
      rot (length t) x h < rot (length t) x (home_of t (slot_of t q))"
  shows "local_hash_ok (set_slot t h 0)" and "hashed (set_slot t h 0) = occupants t h"
proof -
  have h: "h < length t" using inv by (simp add: hole_inv_def)
  show hashed: "hashed (set_slot t h 0) = occupants t h"
    unfolding hashed_set_slot [OF h] by (auto simp: occupants_def)
  have upd: "slot_of (set_slot t h 0) p = ((slot_of t)(h := 0)) p" for p
    using slot_of_set_slot [OF h, of 0 p] by simp
  have "probe_ok (length t) ((slot_of t)(h := 0)) (home_of t)"
  proof (rule hole_close)
    show "hole_ok (length t) (slot_of t) (home_of t) h" "first_empty (length t) (slot_of t) h x" "h \<noteq> x"
      using inv by (simp_all add: hole_inv_def)
    show "home_of t (slot_of t p) < length t" for p using h by (intro home_less) auto
  qed (use h stay in auto)
  then have "probe_ok (length (set_slot t h 0)) (slot_of (set_slot t h 0)) (home_of (set_slot t h 0))"
    by (simp only: probe_ok_def upd same_but_index [OF h] length_list_update)
  moreover have "\<forall>p < length t. ((slot_of t)(h := 0)) p < length t"
    using inv h by (auto simp: hole_inv_def simp del: nth_list_update)
  moreover have "\<forall>p < length t. \<forall>q < length t.
      ((slot_of t)(h := 0)) p = ((slot_of t)(h := 0)) q \<longrightarrow> ((slot_of t)(h := 0)) p \<noteq> 0 \<longrightarrow> p = q"
  proof (intro allI impI)
    fix p q assume *: "p < length t" "q < length t"
      "((slot_of t)(h := 0)) p = ((slot_of t)(h := 0)) q" "((slot_of t)(h := 0)) p \<noteq> 0"
    then have "p \<noteq> h" "q \<noteq> h" by (auto split: if_splits)
    with * inv show "p = q" unfolding hole_inv_def fun_upd_other [OF \<open>p \<noteq> h\<close>] fun_upd_other [OF \<open>q \<noteq> h\<close>]
      by blast
  qed
  moreover have "0 < length t" using h by auto
  moreover have "(\<forall>j \<in> occupants t h. ie_object (t ! j) \<noteq> IO_NULL) \<and>
      inj_on (\<lambda>j. ie_object (t ! j)) (occupants t h)"
    using inv by (simp add: hole_inv_def)
  ultimately show "local_hash_ok (set_slot t h 0)"
    unfolding local_hash_ok_def hashed same_but_index [OF h] length_list_update upd by blast
qed

lemma moved_inj:
  fixes f :: "nat \<Rightarrow> nat"
  assumes inj: "\<forall>p q. p < n \<longrightarrow> q < n \<longrightarrow> p \<noteq> h \<longrightarrow> q \<noteq> h \<longrightarrow> f p = f q \<longrightarrow> f p \<noteq> 0 \<longrightarrow> p = q"
    and "p < n" "q < n" "p \<noteq> d" "q \<noteq> d" "(f(h := f d)) p = (f(h := f d)) q" "(f(h := f d)) p \<noteq> 0"
    and "d < n" "h \<noteq> d"
  shows "p = q"
proof (cases "p = h")
  case True
  show ?thesis
  proof (cases "q = h")
    case False
    with True assms(6,7) have "f d = f q" "f d \<noteq> 0" by simp_all
    with inj assms False show ?thesis by auto
  qed (use True in simp)
next
  case False
  note p = this
  show ?thesis
  proof (cases "q = h")
    case True
    with p assms(6,7) have "f p = f d" "f p \<noteq> 0" by simp_all
    with inj assms p show ?thesis by auto
  next
    case False
    with p assms(6,7) have "f p = f q" "f p \<noteq> 0" by simp_all
    with inj assms p False show ?thesis by auto
  qed
qed

lemma hole_inv_move:
  assumes inv: "hole_inv t h x"
    and d: "d < length t" "d \<noteq> x" "rot (length t) x h < rot (length t) x d"
      "rot (length t) x (home_of t (slot_of t d)) \<le> rot (length t) x h"
  shows "hole_inv (set_slot t h (ie_index (t ! d))) d x"
    and "occupants (set_slot t h (ie_index (t ! d))) d = occupants t h"
proof -
  let ?t = "set_slot t h (ie_index (t ! d))"
  have h: "h < length t" "h \<noteq> x" "first_empty (length t) (slot_of t) h x"
    using inv by (simp_all add: hole_inv_def)
  have hd: "h \<noteq> d" using d(3) by auto
  have upd: "slot_of ?t p = ((slot_of t)(h := slot_of t d)) p" for p
    using slot_of_set_slot [OF h(1), of "ie_index (t ! d)" p] by simp
  show occ: "occupants ?t d = occupants t h"
    unfolding occupants_def length_list_update upd using h(1) d(1) hd by auto
  have nz: "slot_of t h \<noteq> 0" by (rule first_empty_step(2) [OF h(3,1,2)])
  have hm: "home_of t (slot_of t d) < length t" using h by (intro home_less) auto
  have ho: "hole_ok (length t) (slot_of t) (home_of t) h" using inv by (simp add: hole_inv_def)
  note m = hole_move [OF ho h(3,1,2) nz d hm]
  have "hole_ok (length ?t) (slot_of ?t) (home_of ?t) d"
    using m(1) by (simp only: hole_ok_def upd same_but_index [OF h(1)] length_list_update)
  moreover have "first_empty (length ?t) (slot_of ?t) d x"
    using m(2) unfolding first_empty_def upd length_list_update .
  moreover have "\<forall>p < length ?t. slot_of ?t p < length ?t"
    using inv d(1) by (simp add: upd hole_inv_def del: nth_list_update)
  moreover have "p = q" if "p < length t" "q < length t" "p \<noteq> d" "q \<noteq> d"
    "slot_of ?t p = slot_of ?t q" "slot_of ?t p \<noteq> 0" for p q
  proof -
    have inj: "\<forall>p q. p < length t \<longrightarrow> q < length t \<longrightarrow> p \<noteq> h \<longrightarrow> q \<noteq> h \<longrightarrow>
        slot_of t p = slot_of t q \<longrightarrow> slot_of t p \<noteq> 0 \<longrightarrow> p = q"
      using inv unfolding hole_inv_def by blast
    show ?thesis
      by (rule moved_inj [OF inj that [unfolded upd] d(1) hd])
  qed
  moreover have "(\<forall>j \<in> occupants t h. ie_object (?t ! j) \<noteq> IO_NULL) \<and>
      inj_on (\<lambda>j. ie_object (?t ! j)) (occupants t h)"
    using inv unfolding same_but_index [OF h(1)] by (simp add: hole_inv_def)
  ultimately show "hole_inv ?t d x"
    unfolding hole_inv_def occ using d(1,2) by auto
qed

lemma close_result:
  assumes "hole_inv t h x"
  shows "\<exists>t'. ipc_hash_local_close t (length t) h = Some t' \<and> local_hash_ok t' \<and>
           hashed t' = occupants t h \<and> same_entries t t'"
  using assms
proof (induction "length t - rot (length t) x h" arbitrary: t h rule: less_induct)
  case less
  let ?n = "length t"
  have h: "h < ?n" "h \<noteq> x" "first_empty ?n (slot_of t) h x" using less.prems by (simp_all add: hole_inv_def)
  have xn: "x < ?n" using h(3) by (simp add: first_empty_def)
  note same = same_entries_set_slot [OF h(1)]
  from scan_result [OF less.prems h(3,1,2) order_refl] show ?case
  proof (elim disjE conjE exE)
    assume "ipc_hash_local_scan t ?n h h = Some (x, 0)"
      and "\<forall>q<?n. rot ?n x h < rot ?n x q \<longrightarrow> q \<noteq> x \<longrightarrow> rot ?n x h < rot ?n x (home_of t (slot_of t q))"
    with hole_inv_close [OF less.prems] h(1) same show ?thesis
      by (subst ipc_hash_local_close.simps) auto
  next
    fix d assume scan: "ipc_hash_local_scan t ?n h h = Some (d, ie_index (t ! d))"
      and d: "d < ?n" "d \<noteq> x" "rot ?n x h < rot ?n x d" "rot ?n x (home_of t (slot_of t d)) \<le> rot ?n x h"
    let ?t = "set_slot t h (ie_index (t ! d))"
    note m = hole_inv_move [OF less.prems d]
    have "slot_of t d \<noteq> 0" using h(3) d by (auto simp: first_empty_def)
    then have nz: "ie_index (t ! d) \<noteq> 0" by auto
    have "length ?t - rot (length ?t) x d < ?n - rot ?n x h"
      using d(3) rot_less [OF d(1) xn] by simp
    from less.hyps [OF this m(1)] obtain t' where
      "ipc_hash_local_close ?t (length ?t) d = Some t'" "local_hash_ok t'" "hashed t' = occupants t h"
      "same_entries ?t t'" unfolding m(2) by blast
    with scan nz h(1) same_entries_trans [OF same] show ?thesis
      by (subst ipc_hash_local_close.simps) auto
  qed
qed

lemma find_result:
  assumes "first_empty (length t) (slot_of t) h x" "h < length t"
    and q: "q < length t" "q \<noteq> x" "rot (length t) x h \<le> rot (length t) x q" "ie_index (t ! q) = index"
    and uniq: "\<And>p. p < length t \<Longrightarrow> ie_index (t ! p) = index \<Longrightarrow> p = q"
  shows "ipc_hash_local_find t (length t) index h = Some q"
  using assms(1,2) q(3)
proof (induction rule: probe_induct)
  case empty
  have "x < length t" using assms(1) by (simp add: first_empty_def)
  with empty q(1,2) rot_end rot_last [of q "length t" x] show ?case by simp
next
  case (step h)
  have xn: "x < length t" using assms(1) by (simp add: first_empty_def)
  show ?case
  proof (cases "h = q")
    case True
    with step q(4) show ?thesis by (subst ipc_hash_local_find.simps) auto
  next
    case False
    with rest_of_probe [OF step(1) xn step(2) q(1) step(7)] step(1,6) uniq [OF step(1)] show ?thesis
      by (subst ipc_hash_local_find.simps) auto
  qed
qed

lemma local_delete_spec:
  assumes ok: "local_hash_ok (is_table sp)" and sz: "is_table_size sp = length (is_table sp)"
    and j: "unat index \<in> hashed (is_table sp)"
    and obj: "ie_object (is_table sp ! unat index) = obj"
  shows "\<exists>t'. ipc_hash_local_delete sp obj index = Some (sp\<lparr>is_table := t'\<rparr>) \<and> local_hash_ok t' \<and>
           hashed t' = hashed (is_table sp) - {unat index} \<and> same_entries (is_table sp) t'"
proof -
  let ?t = "is_table sp" let ?n = "length ?t" let ?h = "IH_LOCAL_HASH obj ?n"
  have h: "?h < ?n" using ok by (simp add: home_less local_hash_ok_def)
  obtain x where x: "first_empty ?n (slot_of ?t) ?h x" using local_first_empty [OF ok h] .
  have on: "obj \<noteq> IO_NULL" using j obj ok by (auto simp: local_hash_ok_def)
  obtain q where q: "q < ?n" "slot_of ?t q = unat index" "q \<noteq> x" "rot ?n x ?h \<le> rot ?n x q"
    using hashed_position [OF ok j, of x] x obj by auto
  have inj: "p = r" if "p < ?n" "r < ?n" "slot_of ?t p = slot_of ?t r" "slot_of ?t p \<noteq> 0" for p r
    using ok that unfolding local_hash_ok_def by blast
  have nz: "unat index \<noteq> 0" using j by (simp add: hashed_def)
  have find: "ipc_hash_local_find ?t ?n index ?h = Some q"
  proof (rule find_result [OF x h q(1,3,4)])
    show "ie_index (?t ! q) = index" using q(2) by (simp only: word_unat_eq_iff)
    show "p = q" if "p < ?n" "ie_index (?t ! p) = index" for p
      using inj [OF that(1) q(1)] that(2) q(2) nz by simp
  qed
  have occ: "occupants ?t q = hashed ?t - {unat index}"
    using q inj by (auto simp: occupants_def hashed_def)
  have xq: "first_empty ?n (slot_of ?t) q x"
    using x q(4) by (auto simp: first_empty_def)
  have "hole_inv ?t q x"
    unfolding hole_inv_def occ
  proof (intro conjI allI impI)
    show "hole_ok ?n (slot_of ?t) (home_of ?t) q"
      using ok by (simp add: local_hash_ok_def probe_ok_hole)
    show "inj_on (\<lambda>j. ie_object (?t ! j)) (hashed ?t - {unat index})"
      using ok by (auto simp: local_hash_ok_def intro: inj_on_diff)
    show "p = r" if "p < ?n" "r < ?n" "slot_of ?t p = slot_of ?t r" "slot_of ?t p \<noteq> 0" for p r
      using inj [OF that] .
    show "\<forall>j \<in> hashed ?t - {unat index}. ie_object (?t ! j) \<noteq> IO_NULL"
      using ok by (auto simp: local_hash_ok_def)
    show "slot_of ?t p < ?n" if "p < ?n" for p using ok that by (simp add: local_hash_ok_def)
  qed (use q xq in auto)
  from close_result [OF this] obtain t' where t': "ipc_hash_local_close ?t ?n q = Some t'"
    "local_hash_ok t'" "hashed t' = hashed ?t - {unat index}" "same_entries ?t t'"
    unfolding occ by blast
  have "index \<noteq> 0" using nz by auto
  with find on obj sz hashed_bound [OF ok j] t'(1)
  have "ipc_hash_local_delete sp obj index = Some (sp\<lparr>is_table := t'\<rparr>)"
    by (simp add: ipc_hash_local_delete_def)
  with t' show ?thesis by blast
qed

section \<open>The interface: a reverse table\<close>

text \<open>What the rights code relies on: the table finds the one member entry of an object.\<close>

locale reverse_table =
  fixes ok :: "'s \<Rightarrow> bool"
    and bound :: "'s \<Rightarrow> nat"
    and members :: "'s \<Rightarrow> nat set"
    and object :: "'s \<Rightarrow> nat \<Rightarrow> ipc_object_t"
    and lookup :: "'s \<Rightarrow> ipc_object_t \<Rightarrow> (mach_port_name_t \<times> ipc_entry_t) option option"
    and insert :: "'s \<Rightarrow> ipc_object_t \<Rightarrow> u32 \<Rightarrow> 's option"
    and delete :: "'s \<Rightarrow> ipc_object_t \<Rightarrow> u32 \<Rightarrow> 's option"
  assumes members_inj: "ok s \<Longrightarrow> inj_on (object s) (members s)"
    and members_object: "ok s \<Longrightarrow> i \<in> members s \<Longrightarrow> object s i \<noteq> IO_NULL"
    and lookup_member: "ok s \<Longrightarrow> i \<in> members s \<Longrightarrow> object s i = obj \<Longrightarrow>
      \<exists>name. lookup s obj = Some (Some (name, Table_entry i))"
    and lookup_none: "ok s \<Longrightarrow> obj \<noteq> IO_NULL \<Longrightarrow> \<forall>i \<in> members s. object s i \<noteq> obj \<Longrightarrow>
      lookup s obj = Some None"
    and insert_law: "ok s \<Longrightarrow> w \<noteq> 0 \<Longrightarrow> unat w < bound s \<Longrightarrow> unat w \<notin> members s \<Longrightarrow>
      object s (unat w) = obj \<Longrightarrow> obj \<noteq> IO_NULL \<Longrightarrow> \<forall>j \<in> members s. object s j \<noteq> obj \<Longrightarrow>
      \<exists>s'. insert s obj w = Some s' \<and> ok s' \<and> members s' = Set.insert (unat w) (members s) \<and>
        bound s' = bound s \<and> (\<forall>j < bound s. object s' j = object s j)"
    and delete_law: "ok s \<Longrightarrow> unat w \<in> members s \<Longrightarrow> object s (unat w) = obj \<Longrightarrow>
      \<exists>s'. delete s obj w = Some s' \<and> ok s' \<and> members s' = members s - {unat w} \<and>
        bound s' = bound s \<and> (\<forall>j < bound s. object s' j = object s j)"
    and members_bound: "ok s \<Longrightarrow> i \<in> members s \<Longrightarrow> i < bound s"
begin

lemma lookup_iff:
  assumes "ok s" and "obj \<noteq> IO_NULL"
  shows "(\<exists>name. lookup s obj = Some (Some (name, Table_entry i))) \<longleftrightarrow> i \<in> members s \<and> object s i = obj"
proof (cases "\<exists>j \<in> members s. object s j = obj")
  case True
  then obtain j where j: "j \<in> members s" "object s j = obj" by blast
  from lookup_member [OF assms(1) j] members_inj [OF assms(1)] j show ?thesis
    by (auto dest: inj_onD)
next
  case False
  with lookup_none [OF assms] show ?thesis by auto
qed

lemma insert_delete:
  assumes "ok s" "i \<noteq> 0" "unat i < bound s" "unat i \<notin> members s"
    "object s (unat i) = obj" "obj \<noteq> IO_NULL" "\<forall>j \<in> members s. object s j \<noteq> obj"
  shows "\<exists>s1 s2 name. insert s obj i = Some s1 \<and> lookup s1 obj = Some (Some (name, Table_entry (unat i))) \<and>
           delete s1 obj i = Some s2 \<and> ok s2 \<and> members s2 = members s \<and> lookup s2 obj = Some None"
proof -
  obtain s1 where s1: "insert s obj i = Some s1" "ok s1" "members s1 = Set.insert (unat i) (members s)"
    "bound s1 = bound s" "\<forall>j < bound s. object s1 j = object s j"
    using insert_law [OF assms] by blast
  have m: "unat i \<in> members s1" "object s1 (unat i) = obj" using s1 assms by auto
  obtain name where l: "lookup s1 obj = Some (Some (name, Table_entry (unat i)))"
    using lookup_member [OF s1(2) m] by blast
  obtain s2 where s2: "delete s1 obj i = Some s2" "ok s2" "members s2 = members s1 - {unat i}"
    "\<forall>j < bound s1. object s2 j = object s1 j"
    using delete_law [OF s1(2) m] by blast
  have mem: "members s2 = members s" using s2(3) s1(3) assms(4) by simp
  then have "\<forall>j \<in> members s2. object s2 j \<noteq> obj"
    using members_bound [OF assms(1)] s1(4,5) s2(4) assms(7) by auto
  from lookup_none [OF s2(2) assms(6) this] s1 l s2 mem show ?thesis by blast
qed

end

definition space_hash_ok :: "ipc_space \<Rightarrow> bool" where
  "space_hash_ok sp \<longleftrightarrow> local_hash_ok (is_table sp) \<and> is_table_size sp = length (is_table sp)"

interpretation local_table: reverse_table
  space_hash_ok "\<lambda>sp. length (is_table sp)" "\<lambda>sp. hashed (is_table sp)" "\<lambda>sp i. ie_object (is_table sp ! i)"
  ipc_hash_local_lookup ipc_hash_local_insert ipc_hash_local_delete
proof unfold_locales
  fix s i obj
  assume ok: "space_hash_ok s"
  then have ok': "local_hash_ok (is_table s)" "is_table_size s = length (is_table s)"
    by (simp_all add: space_hash_ok_def)
  show "inj_on (\<lambda>i. ie_object (is_table s ! i)) (hashed (is_table s))"
    using ok' by (simp add: local_hash_ok_def)
  show "i \<in> hashed (is_table s) \<Longrightarrow> ie_object (is_table s ! i) \<noteq> IO_NULL"
    using ok' by (simp add: local_hash_ok_def)
  show "i \<in> hashed (is_table s) \<Longrightarrow> i < length (is_table s)"
    using hashed_bound [OF ok'(1)] .
  show "\<exists>name. ipc_hash_local_lookup s obj = Some (Some (name, Table_entry i))"
    if "i \<in> hashed (is_table s)" "ie_object (is_table s ! i) = obj"
    using local_lookup_found [OF ok' that] by blast
  show "ipc_hash_local_lookup s obj = Some None"
    if "obj \<noteq> IO_NULL" "\<forall>i \<in> hashed (is_table s). ie_object (is_table s ! i) \<noteq> obj"
    using local_lookup_not_found [OF ok' that] .
  fix j :: u32
  show "\<exists>s'. ipc_hash_local_insert s obj j = Some s' \<and> space_hash_ok s' \<and>
      hashed (is_table s') = insert (unat j) (hashed (is_table s)) \<and>
      length (is_table s') = length (is_table s) \<and>
      (\<forall>j < length (is_table s). ie_object (is_table s' ! j) = ie_object (is_table s ! j))"
    if "j \<noteq> 0" "unat j < length (is_table s)" "unat j \<notin> hashed (is_table s)"
      "ie_object (is_table s ! unat j) = obj" "obj \<noteq> IO_NULL"
      "\<forall>k \<in> hashed (is_table s). ie_object (is_table s ! k) \<noteq> obj"
    using local_insert_spec [OF ok' that] ok'(2)
    by (auto simp: space_hash_ok_def same_entries_def)
  show "\<exists>s'. ipc_hash_local_delete s obj j = Some s' \<and> space_hash_ok s' \<and>
      hashed (is_table s') = hashed (is_table s) - {unat j} \<and>
      length (is_table s') = length (is_table s) \<and>
      (\<forall>j < length (is_table s). ie_object (is_table s' ! j) = ie_object (is_table s ! j))"
    if "unat j \<in> hashed (is_table s)" "ie_object (is_table s ! unat j) = obj"
    using local_delete_spec [OF ok' that] ok'(2)
    by (auto simp: space_hash_ok_def same_entries_def)
qed

section \<open>Properties\<close>

text \<open>Local lookup. In a well-formed space, the probe for a non-null object always ends (no
  endless probing, no access outside the table), and it returns table entry \<open>i\<close> exactly when \<open>i\<close>
  is hashed and holds the object; the name it builds has the index \<open>i\<close> and the generation of
  the entry.\<close>

theorem hash_local_lookup_correct:
  assumes "space_hash_ok sp" and "obj \<noteq> IO_NULL"
  shows "\<exists>r. ipc_hash_local_lookup sp obj = Some r \<and>
           (\<forall>name e. r = Some (name, e) \<longleftrightarrow>
              (\<exists>i. e = Table_entry i \<and> i \<in> hashed (is_table sp) \<and> ie_object (is_table sp ! i) = obj \<and>
                   name = MACH_PORT_MAKE (of_nat i) (IE_BITS_GEN (ie_bits (is_table sp ! i)))))"
proof -
  have ok: "local_hash_ok (is_table sp)" "is_table_size sp = length (is_table sp)"
    using assms(1) by (simp_all add: space_hash_ok_def)
  show ?thesis
  proof (cases "\<exists>j \<in> hashed (is_table sp). ie_object (is_table sp ! j) = obj")
    case True
    then obtain j where j: "j \<in> hashed (is_table sp)" "ie_object (is_table sp ! j) = obj" by blast
    have "i = j" if "i \<in> hashed (is_table sp)" "ie_object (is_table sp ! i) = obj" for i
      using inj_onD [OF local_table.members_inj [OF assms(1)]] j that by simp
    then have "(\<exists>i. e = Table_entry i \<and> i \<in> hashed (is_table sp) \<and> ie_object (is_table sp ! i) = obj \<and>
          name = MACH_PORT_MAKE (of_nat i) (IE_BITS_GEN (ie_bits (is_table sp ! i)))) \<longleftrightarrow>
        e = Table_entry j \<and> name = MACH_PORT_MAKE (of_nat j) (IE_BITS_GEN (ie_bits (is_table sp ! j)))"
      for name e using j by metis
    with local_lookup_found [OF ok j] show ?thesis by auto
  next
    case False
    with local_lookup_not_found [OF ok assms(2)] show ?thesis by auto
  qed
qed

text \<open>C9: local deletion. Deleting a hashed entry terminates, trips no assertion, unhashes exactly
  that entry and nothing else, leaves the entries alone, and keeps the probe invariant, so that
  every other object is still found although the deletion may have moved it.\<close>

theorem hash_local_delete_correct:
  assumes "space_hash_ok sp" and "unat index \<in> hashed (is_table sp)"
    and "ie_object (is_table sp ! unat index) = obj"
  shows "\<exists>sp'. ipc_hash_local_delete sp obj index = Some sp' \<and> space_hash_ok sp' \<and>
           hashed (is_table sp') = hashed (is_table sp) - {unat index} \<and>
           same_entries (is_table sp) (is_table sp') \<and>
           ipc_hash_local_lookup sp' obj = Some None \<and>
           (\<forall>obj' i. obj' \<noteq> obj \<longrightarrow> obj' \<noteq> IO_NULL \<longrightarrow>
              (\<exists>name. ipc_hash_local_lookup sp' obj' = Some (Some (name, Table_entry i))) =
              (\<exists>name. ipc_hash_local_lookup sp obj' = Some (Some (name, Table_entry i))))"
proof -
  have ok: "local_hash_ok (is_table sp)" "is_table_size sp = length (is_table sp)"
    using assms(1) by (simp_all add: space_hash_ok_def)
  obtain t' where t': "ipc_hash_local_delete sp obj index = Some (sp\<lparr>is_table := t'\<rparr>)"
    "local_hash_ok t'" "hashed t' = hashed (is_table sp) - {unat index}" "same_entries (is_table sp) t'"
    using local_delete_spec [OF ok assms(2,3)] by blast
  let ?sp = "sp\<lparr>is_table := t'\<rparr>"
  have ok': "space_hash_ok ?sp"
    using t' ok(2) by (simp add: space_hash_ok_def same_entries_def)
  have obj: "obj \<noteq> IO_NULL" using local_table.members_object [OF assms(1,2)] assms(3) by simp
  have same: "ie_object (t' ! i) = ie_object (is_table sp ! i)" if "i \<in> hashed (is_table sp)" for i
    using t'(4) hashed_bound [OF ok(1) that] by (simp add: same_entries_def)
  have gone: "\<forall>i \<in> hashed t'. ie_object (t' ! i) \<noteq> obj"
    using local_table.members_inj [OF assms(1)] assms(2,3) t'(3) same by (auto simp: inj_on_def)
  have "ipc_hash_local_lookup ?sp obj = Some None"
    using local_table.lookup_none [OF ok' obj] gone by simp
  moreover have "(\<exists>name. ipc_hash_local_lookup ?sp obj' = Some (Some (name, Table_entry i))) =
      (\<exists>name. ipc_hash_local_lookup sp obj' = Some (Some (name, Table_entry i)))"
    if "obj' \<noteq> obj" "obj' \<noteq> IO_NULL" for obj' i
    using local_table.lookup_iff [OF ok' that(2), of i] local_table.lookup_iff [OF assms(1) that(2), of i]
      t'(3) same [of i] assms(3) that(1) by auto
  ultimately show ?thesis using t' ok' by auto
qed

text \<open>Local insertion. A pure send right of an object that is not yet hashed can be hashed; it is
  then found, and a deletion restores the set of hashed entries.\<close>

theorem hash_local_insert_delete:
  assumes "space_hash_ok sp" and "index \<noteq> 0" and "unat index < length (is_table sp)"
    and "unat index \<notin> hashed (is_table sp)" and "ie_object (is_table sp ! unat index) = obj"
    and "obj \<noteq> IO_NULL" and "\<forall>j \<in> hashed (is_table sp). ie_object (is_table sp ! j) \<noteq> obj"
  shows "\<exists>s1 s2 name. ipc_hash_local_insert sp obj index = Some s1 \<and>
           ipc_hash_local_lookup s1 obj = Some (Some (name, Table_entry (unat index))) \<and>
           ipc_hash_local_delete s1 obj index = Some s2 \<and> space_hash_ok s2 \<and>
           hashed (is_table s2) = hashed (is_table sp) \<and>
           ipc_hash_local_lookup s2 obj = Some None"
  by (rule local_table.insert_delete [OF assms])

text \<open>A table of four entries in which the objects of the entries 1 and 2 collide: both hash to
  slot 1, and entry 2 is displaced to slot 2.\<close>

definition sample_table :: "ipc_entry list" where
  "sample_table =
    [\<lparr>ie_object = 0, ie_bits = 0, ie_request = 3, ie_index = 0\<rparr>,
     \<lparr>ie_object = 0x40, ie_bits = 0x04010001, ie_request = 0, ie_index = 1\<rparr>,
     \<lparr>ie_object = 0x140, ie_bits = 0x08010001, ie_request = 0, ie_index = 2\<rparr>,
     \<lparr>ie_object = 0, ie_bits = 0xff000000, ie_request = 0, ie_index = 0\<rparr>]"

definition sample_space :: ipc_space where
  "sample_space = \<lparr>is_references = 1, is_active = True, is_growing = False, is_table = sample_table,
     is_table_size = 4, is_table_next = 1,
     is_tree = \<lparr>ist_name = 0, ist_root = Leaf, ist_ltree = [], ist_rtree = []\<rparr>,
     is_tree_total = 0, is_tree_small = 0, is_tree_hash = 0, is_fast = False\<rparr>"

lemma sample_slots:
  "slot_of sample_table 0 = 0" "slot_of sample_table 1 = 1" "slot_of sample_table 2 = 2"
  "slot_of sample_table 3 = 0" "ie_object (sample_table ! 1) = 0x40"
  "ie_object (sample_table ! 2) = 0x140" "length sample_table = 4"
  by (simp_all add: sample_table_def)

lemmas sample_simps = sample_slots sample_slots [unfolded One_nat_def]

lemma sample_hashed: "hashed sample_table = {1, 2}"
proof (rule set_eqI)
  fix j
  show "j \<in> hashed sample_table \<longleftrightarrow> j \<in> {1, 2}"
    unfolding hashed_def sample_slots(7) less_4 mem_Collect_eq using sample_slots by auto
qed

lemma sample_space_hash_ok: "space_hash_ok sample_space"
proof -
  have h: "IH_LOCAL_HASH 0x40 4 = 1" "IH_LOCAL_HASH 0x140 4 = 1"
    by (simp_all add: IH_LOCAL_HASH_def)
  have "probe_ok 4 (slot_of sample_table) (home_of sample_table)"
    unfolding probe_ok_def less_4 using sample_slots h by (auto simp: rot_def)
  then have "local_hash_ok sample_table"
    unfolding local_hash_ok_def sample_slots(7) less_4 sample_hashed using sample_slots by auto
  then show ?thesis by (simp add: space_hash_ok_def sample_space_def sample_slots(7))
qed

lemma sample_space_table [simp]: "is_table sample_space = sample_table"
  by (simp add: sample_space_def)

lemma hash_local_lookup_correct_witness:
  "ipc_hash_local_lookup sample_space 0x80 = Some None \<and>
   (\<exists>name. ipc_hash_local_lookup sample_space 0x140 = Some (Some (name, Table_entry 2)))"
proof
  show "ipc_hash_local_lookup sample_space 0x80 = Some None"
  proof -
    from hash_local_lookup_correct [where obj = "0x80", OF sample_space_hash_ok] obtain r where
      r: "ipc_hash_local_lookup sample_space 0x80 = Some r"
      "\<And>name e. r = Some (name, e) \<Longrightarrow>
         \<exists>i \<in> hashed sample_table. ie_object (sample_table ! i) = 0x80" by auto
    then have "r = None" by (cases r) (auto simp: sample_hashed sample_simps)
    with r(1) show ?thesis by simp
  qed
  show "\<exists>name. ipc_hash_local_lookup sample_space 0x140 = Some (Some (name, Table_entry 2))"
    using hash_local_lookup_correct [where obj = "0x140", OF sample_space_hash_ok]
    by (auto simp: sample_hashed sample_simps)
qed

lemma hash_local_delete_correct_witness:
  "\<exists>sp'. ipc_hash_local_delete sample_space 0x40 1 = Some sp' \<and> space_hash_ok sp' \<and>
     hashed (is_table sp') = {2}"
  using hash_local_delete_correct [where obj = "0x40" and index = 1, OF sample_space_hash_ok] sample_simps
  by (auto simp: sample_hashed insert_Diff_if)

text \<open>The same space with entry 3 in use for a third object, not yet hashed.\<close>

definition sample_space3 :: ipc_space where
  "sample_space3 = sample_space\<lparr>is_table := sample_table[3 := (sample_table ! 3)\<lparr>ie_object := 0x80\<rparr>]\<rparr>"

lemma sample_space3_hashed: "hashed (is_table sample_space3) = {1, 2}"
proof -
  let ?t = "sample_table[3 := (sample_table ! 3)\<lparr>ie_object := 0x80\<rparr>]"
  have "slot_of ?t p = slot_of sample_table p" for p
    by (cases "p = 3") (simp_all add: sample_slots nth_list_update)
  with sample_hashed show ?thesis by (simp add: hashed_def sample_space3_def)
qed

lemma sample_space3_hash_ok: "space_hash_ok sample_space3"
proof -
  let ?t = "sample_table[3 := (sample_table ! 3)\<lparr>ie_object := 0x80\<rparr>]"
  have s: "slot_of ?t p = slot_of sample_table p" for p
    by (cases "p = 3") (simp_all add: sample_slots nth_list_update)
  have o': "ie_object (?t ! i) = ie_object (sample_table ! i)" if "i \<noteq> 3" for i
    using that by simp
  have h: "hashed ?t = {1, 2}" using sample_space3_hashed by (simp add: sample_space3_def)
  have ok: "local_hash_ok sample_table" using sample_space_hash_ok by (simp add: space_hash_ok_def sample_space_def)
  have "home_of ?t (slot_of ?t p) = home_of sample_table (slot_of sample_table p)" if "p < 4" for p
    using that sample_slots o' unfolding s less_4 by auto
  with ok have "probe_ok (length ?t) (slot_of ?t) (home_of ?t)"
    by (simp add: local_hash_ok_def probe_ok_def s sample_slots(7))
  with ok sample_slots h o' have "local_hash_ok ?t"
    unfolding local_hash_ok_def s by (auto simp: sample_hashed less_4)
  then show ?thesis by (simp add: space_hash_ok_def sample_space3_def sample_space_def sample_slots(7))
qed

lemma hash_local_insert_delete_witness:
  "\<exists>s1 s2. ipc_hash_local_insert sample_space3 0x80 3 = Some s1 \<and>
     ipc_hash_local_delete s1 0x80 3 = Some s2 \<and> hashed (is_table s2) = {1, 2}"
  using hash_local_insert_delete [where index = 3 and obj = "0x80", OF sample_space3_hash_ok]
    sample_space3_hashed
  by (auto simp: sample_space3_def sample_simps)

end
