(* ===== verification/Ipc_Entry.thy ===== *)
theory Ipc_Entry
  imports Ipc_Hash
begin

text \<open>
  Primitive operations on the capability entries of a space
  (\<^verbatim>\<open>osfmk/ipc/ipc_entry.c\<close>): lookup, allocation from the free list of the table, allocation
  of a given name (possibly in the splay tree), deallocation, and the growth of the table,
  which moves entries of the tree into the new part.

  A result of type \<open>kern_return_t + 'a\<close> is \<open>Inl\<close> of an error code, or \<open>Inr\<close> of what the C
  code returns through its pointer arguments with KERN_SUCCESS. The space is locked throughout,
  so that the branches for a space that died or grew while it was unlocked do not arise.
\<close>

section \<open>Lookup\<close>

definition ipc_entry_tree_collision :: "ipc_space \<Rightarrow> mach_port_name_t \<Rightarrow> (bool \<times> ipc_space) option" where
  "ipc_entry_tree_collision sp name =
    do { kassert (is_active sp);
         case ipc_splay_tree_bounds (is_tree sp) name of ((lower, upper), tree) \<Rightarrow>
           let index = MACH_PORT_INDEX name in
           Some ((lower \<noteq> MACH_PORT_LARGEST \<and> MACH_PORT_INDEX lower = index) \<or>
                 (upper \<noteq> 0 \<and> MACH_PORT_INDEX upper = index),
                 sp\<lparr>is_tree := tree\<rparr>) }"

text \<open>The label \<^verbatim>\<open>tree_lookup\<close>.\<close>

definition ipc_entry_tree_lookup :: "ipc_space \<Rightarrow> mach_port_name_t \<Rightarrow> ipc_entry_t option \<times> ipc_space" where
  "ipc_entry_tree_lookup sp name =
    (case ipc_splay_tree_lookup (is_tree sp) name of (r, tree) \<Rightarrow>
       (case r of
          None \<Rightarrow> None
        | Some e \<Rightarrow> if IE_BITS_TYPE (ie_bits e) = 0 then None else Some (Tree_entry name),
        sp\<lparr>is_tree := tree\<rparr>))"

definition ipc_entry_lookup :: "ipc_space \<Rightarrow> mach_port_name_t \<Rightarrow> (ipc_entry_t option \<times> ipc_space) option" where
  "ipc_entry_lookup sp name =
    do { kassert (is_active sp);
         let index = unat (MACH_PORT_INDEX name) in
         if is_fast sp then
           do { entry \<leftarrow> array_get (is_table sp) index;
                Some (if IE_BITS_GEN (ie_bits entry) \<noteq> MACH_PORT_GEN name \<or>
                         IE_BITS_TYPE (ie_bits entry) = MACH_PORT_TYPE_NONE
                      then None else Some (Table_entry index), sp) }
         else if index < is_table_size sp then
           do { entry \<leftarrow> array_get (is_table sp) index;
                if IE_BITS_GEN (ie_bits entry) \<noteq> MACH_PORT_GEN name then
                  if ie_bits entry AND IE_BITS_COLLISION \<noteq> 0 then
                    do { kassert (0 < is_tree_total sp); Some (ipc_entry_tree_lookup sp name) }
                  else Some (None, sp)
                else if IE_BITS_TYPE (ie_bits entry) = MACH_PORT_TYPE_NONE then Some (None, sp)
                else Some (Some (Table_entry index), sp) }
         else if is_tree_total sp = 0 then Some (None, sp)
         else Some (ipc_entry_tree_lookup sp name) }"

section \<open>Allocation from the free list\<close>

definition ipc_entry_get ::
  "ipc_space \<Rightarrow> ((kern_return_t + mach_port_name_t \<times> ipc_entry_t) \<times> ipc_space) option" where
  "ipc_entry_get sp =
    do { kassert (is_active sp);
         head \<leftarrow> array_get (is_table sp) 0;
         let first_free = ie_next head in
         if first_free = 0 then Some (Inl KERN_NO_SPACE, sp)
         else
           do { free_entry \<leftarrow> array_get (is_table sp) (unat first_free);
                table \<leftarrow> array_upd (is_table sp) 0 (ie_next_update (\<lambda>_. ie_next free_entry));
                let gen = IE_BITS_NEW_GEN (ie_bits free_entry) in
                do { table \<leftarrow> array_upd table (unat first_free) (\<lambda>e. e\<lparr>ie_bits := gen, ie_request := 0\<rparr>);
                     let new_name = MACH_PORT_MAKE first_free gen in
                     do { kassert (MACH_PORT_VALID new_name);
                          kassert (ie_object free_entry = IO_NULL);
                          Some (Inr (new_name, Table_entry (unat first_free)),
                                sp\<lparr>is_table := table\<rparr>) } } } }"

section \<open>Growing the table\<close>

abbreviation SIZEOF_IPC_ENTRY :: nat where "SIZEOF_IPC_ENTRY \<equiv> 16"
abbreviation SIZEOF_IPC_TREE_ENTRY :: nat where "SIZEOF_IPC_TREE_ENTRY \<equiv> 32"

definition ie_zero :: ipc_entry where
  "ie_zero = \<lparr>ie_object = IO_NULL, ie_bits = 0, ie_request = 0, ie_index = 0\<rparr>"

text \<open>The search for the table size that holds \<open>tsize\<close> elements.\<close>

partial_function (option) ipc_entry_target_its ::
  "nat list \<Rightarrow> nat \<Rightarrow> nat \<Rightarrow> nat \<Rightarrow> nat \<Rightarrow> (nat \<times> nat \<times> nat) option" where
  "ipc_entry_target_its entries tsize psize its sz =
    (if psize \<noteq> sz \<and> tsize > sz then
       do { sz' \<leftarrow> array_get entries (its + 1);
            ipc_entry_target_its entries tsize sz (its + 1) sz' }
     else Some (psize, its, sz))"

text \<open>Rebuilding the local reverse hash table over the old part.\<close>

fun ipc_entry_rehash :: "nat list \<Rightarrow> ipc_space \<Rightarrow> ipc_space option" where
  "ipc_entry_rehash [] sp = Some sp"
| "ipc_entry_rehash (i # is) sp =
    do { entry \<leftarrow> array_get (is_table sp) i;
         sp \<leftarrow> (if IE_BITS_TYPE (ie_bits entry) = MACH_PORT_TYPE_SEND
               then ipc_hash_local_insert sp (ie_object entry) (of_nat i) else Some sp);
         ipc_entry_rehash is sp }"

text \<open>A tree entry that becomes an element of the table changes the reverse hash table.\<close>

definition ipc_entry_hash_moved ::
  "ipc_space_t \<Rightarrow> ipc_object_t \<Rightarrow> mach_port_name_t \<Rightarrow> ipc_entry \<Rightarrow> u32 \<Rightarrow> kernel \<Rightarrow> kernel option" where
  "ipc_entry_hash_moved space obj name tentry index s =
    (if IE_BITS_TYPE (ie_bits tentry) = MACH_PORT_TYPE_SEND then
       do { s \<leftarrow> ipc_hash_global_delete space obj name tentry s;
            sp \<leftarrow> ks_spaces s space;
            sp \<leftarrow> ipc_hash_local_insert sp obj index;
            Some (put_space space sp s) }
     else Some s)"

text \<open>The body of the loop over the tree entries that belong into the new part: whether the entry
  is deleted from the tree, and the state.\<close>

definition ipc_entry_move ::
  "ipc_space_t \<Rightarrow> nat \<Rightarrow> nat \<Rightarrow> mach_port_name_t \<Rightarrow> ipc_entry \<Rightarrow> kernel \<Rightarrow> (bool \<times> kernel) option" where
  "ipc_entry_move space osize sz name tentry s =
    (let gen = MACH_PORT_GEN name; index = unat (MACH_PORT_INDEX name) in
     do { kassert (osize \<le> index \<and> index < sz);
          entry \<leftarrow> get_entry space (Table_entry index) s;
          if IE_BITS_TYPE (ie_bits entry) \<noteq> 0 then
            do { kassert (IE_BITS_GEN (ie_bits entry) \<noteq> gen);
                 s \<leftarrow> upd_entry space (Table_entry index)
                       (\<lambda>e. e\<lparr>ie_bits := ie_bits e OR IE_BITS_COLLISION\<rparr>) s;
                 Some (False, s) }
          else
            (let bits = ie_bits tentry; type = IE_BITS_TYPE bits; obj = ie_object tentry in
             do { kassert (type \<noteq> MACH_PORT_TYPE_NONE);
                  s \<leftarrow> upd_entry space (Table_entry index)
                        (\<lambda>e. e\<lparr>ie_bits := bits OR gen, ie_request := ie_request tentry, ie_object := obj\<rparr>) s;
                  s \<leftarrow> ipc_entry_hash_moved space obj name tentry (MACH_PORT_INDEX name) s;
                  s \<leftarrow> upd_space space (\<lambda>sp. sp\<lparr>is_tree_total := is_tree_total sp - 1\<rparr>) s;
                  Some (True, s) }) })"

partial_function (option) ipc_entry_move_loop ::
  "ipc_space_t \<Rightarrow> nat \<Rightarrow> nat \<Rightarrow> ipc_entry ist_traversal \<Rightarrow> kernel \<Rightarrow> (ipc_entry ite_tree \<times> kernel) option" where
  "ipc_entry_move_loop space osize sz trav s =
    (case trav of
       At_end t \<Rightarrow> Some (t, s)
     | At_entry t fs \<Rightarrow>
         (case t of
            Leaf \<Rightarrow> None
          | Node l n r \<Rightarrow>
              do { (del, s) \<leftarrow> ipc_entry_move space osize sz (fst n) (snd n) s;
                   trav' \<leftarrow> ipc_splay_traverse_next del (At_entry t fs);
                   ipc_entry_move_loop space osize sz trav' s }))"

text \<open>\<^verbatim>\<open>nosmall\<close>: how often the index changes along the ascending names.\<close>

fun ipc_entry_count_small :: "mach_port_name_t list \<Rightarrow> u32 \<Rightarrow> u32 \<Rightarrow> u32" where
  "ipc_entry_count_small [] index nosmall = nosmall"
| "ipc_entry_count_small (name # ns) index nosmall =
    (if MACH_PORT_INDEX name \<noteq> index then ipc_entry_count_small ns (MACH_PORT_INDEX name) (nosmall + 1)
     else ipc_entry_count_small ns index nosmall)"

text \<open>The work on the splay tree: split it in four, move, count and join.\<close>

definition ipc_entry_grow_tree ::
  "ipc_space_t \<Rightarrow> nat \<Rightarrow> nat \<Rightarrow> nat \<Rightarrow> kernel \<Rightarrow> kernel option" where
  "ipc_entry_grow_tree space osize sz nsize s =
    do { sp \<leftarrow> ks_spaces s space;
         (tree, small) \<leftarrow> ipc_splay_tree_split (is_tree sp) (MACH_PORT_MAKE (of_nat nsize) 0) (is_tree sp);
         (small, move) \<leftarrow> ipc_splay_tree_split small (MACH_PORT_MAKE (of_nat sz) 0) small;
         (move, ignore) \<leftarrow> ipc_splay_tree_split move (MACH_PORT_MAKE (of_nat osize) 0) move;
         (moved, s) \<leftarrow> ipc_entry_move_loop space osize sz (ipc_splay_traverse_start move) s;
         let move = ipc_splay_traverse_finish move moved in
         do { (seen, small) \<leftarrow> ipc_splay_traverse (\<lambda>_. False) small;
              let nosmall = ipc_entry_count_small (names seen) 0 0 in
              do { sp \<leftarrow> ks_spaces s space;
                   kassert (unat nosmall \<le> nsize - sz);
                   kassert (nosmall \<le> is_tree_total sp);
                   (tree, _) \<leftarrow> ipc_splay_tree_join tree small;
                   (tree, _) \<leftarrow> ipc_splay_tree_join tree move;
                   (tree, _) \<leftarrow> ipc_splay_tree_join tree ignore;
                   Some (put_space space (sp\<lparr>is_tree := tree, is_tree_small := nosmall\<rparr>) s) } } }"

text \<open>The new entries that are still unused, in the given order, go to the free list.\<close>

fun ipc_entry_free_new :: "nat list \<Rightarrow> ipc_entry list \<Rightarrow> u32 \<Rightarrow> (ipc_entry list \<times> u32) option" where
  "ipc_entry_free_new [] table free_index = Some (table, free_index)"
| "ipc_entry_free_new (i # is) table free_index =
    do { entry \<leftarrow> array_get table i;
         if ie_bits entry = 0 then
           do { table \<leftarrow> array_upd table i (\<lambda>e. e\<lparr>ie_bits := IE_BITS_GEN_MASK, ie_request := free_index\<rparr>);
                ipc_entry_free_new is table (of_nat i) }
         else ipc_entry_free_new is table free_index }"

text \<open>The new table is installed: the old part is kept, its slots of the reverse hash table are
  rebuilt, and the rest goes to the free list.\<close>

definition ipc_entry_install_table ::
  "ipc_space_t \<Rightarrow> nat \<Rightarrow> nat \<Rightarrow> nat \<Rightarrow> nat \<Rightarrow> kernel \<Rightarrow> kernel option" where
  "ipc_entry_install_table space osize sz nsize nits s =
    do { sp \<leftarrow> ks_spaces s space;
         kassert (is_table_size sp = osize);
         let table = map (ie_index_update (\<lambda>_. 0)) (take osize (is_table sp)) @ replicate (sz - osize) ie_zero in
         do { sp \<leftarrow> ipc_entry_rehash [0..<osize]
                      (sp\<lparr>is_table := table, is_table_size := sz, is_table_next := nits\<rparr>);
              kassert (\<not> is_fast sp \<or> is_tree_total sp = 0);
              let s = put_space space sp s in
              do { s \<leftarrow> (if 0 < is_tree_total sp then ipc_entry_grow_tree space osize sz nsize s else Some s);
                   sp \<leftarrow> ks_spaces s space;
                   head \<leftarrow> array_get (is_table sp) 0;
                   (table, free_index) \<leftarrow> ipc_entry_free_new (rev [osize..<sz]) (is_table sp) (ie_next head);
                   table \<leftarrow> array_upd table 0 (ie_next_update (\<lambda>_. free_index));
                   Some (put_space space (sp\<lparr>is_table := table\<rparr>) s) } } }"

text \<open>One turn of the loop; the flag tells whether to go on. \<open>nsize\<close> is read here after the test
  that leaves when the table has its largest size: the C code reads it before, one element past
  the end of the array, and then does not use it.\<close>

definition ipc_entry_grow_once ::
  "ipc_space_t \<Rightarrow> nat option \<Rightarrow> kernel \<Rightarrow> (kern_return_t \<times> bool \<times> kernel) option" where
  "ipc_entry_grow_once space tsize s =
    do { sp \<leftarrow> ks_spaces s space;
         kassert (is_active sp);
         if is_growing sp then Some (KERN_SUCCESS, False, s)
         else
           do { sz0 \<leftarrow> array_get (ks_table_entries s) (is_table_next sp);
                kassert (0 < is_table_next sp);
                osize \<leftarrow> array_get (ks_table_entries s) (is_table_next sp - 1);
                (psize, its, sz) \<leftarrow>
                  (case tsize of
                     None \<Rightarrow> Some (osize, is_table_next sp, sz0)
                   | Some ts \<Rightarrow>
                       if ts \<le> osize then Some (osize, is_table_next sp, sz0)
                       else ipc_entry_target_its (ks_table_entries s) ts osize (is_table_next sp) sz0);
                if (\<exists>ts. tsize = Some ts \<and> ts \<le> osize) then Some (KERN_SUCCESS, False, s)
                else if (tsize \<noteq> None \<and> psize = sz) \<or> osize = sz then Some (KERN_NO_SPACE, False, s)
                else
                  do { nsize \<leftarrow> array_get (ks_table_entries s) (its + 1);
                       kassert (osize < sz \<and> sz \<le> nsize);
                       case kalloc s of (table, s) \<Rightarrow>
                         if table = 0 then Some (KERN_RESOURCE_SHORTAGE, False, s)
                         else
                           do { s \<leftarrow> ipc_entry_install_table space osize sz nsize (its + 1) s;
                                sp \<leftarrow> ks_spaces s space;
                                Some (KERN_SUCCESS,
                                      0 < is_tree_small sp \<and>
                                      (nsize - sz) * SIZEOF_IPC_ENTRY < unat (is_tree_small sp) * SIZEOF_IPC_TREE_ENTRY,
                                      s) } } } }"

partial_function (option) ipc_entry_grow_table ::
  "ipc_space_t \<Rightarrow> nat option \<Rightarrow> kernel \<Rightarrow> (kern_return_t \<times> kernel) option" where
  "ipc_entry_grow_table space tsize s =
    do { (kr, again, s) \<leftarrow> ipc_entry_grow_once space tsize s;
         if again then ipc_entry_grow_table space tsize s else Some (kr, s) }"

section \<open>Allocation\<close>

partial_function (option) ipc_entry_alloc ::
  "ipc_space_t \<Rightarrow> kernel \<Rightarrow> ((kern_return_t + mach_port_name_t \<times> ipc_entry_t) \<times> kernel) option" where
  "ipc_entry_alloc space s =
    do { sp \<leftarrow> ks_spaces s space;
         if \<not> is_active sp then Some (Inl KERN_INVALID_TASK, s)
         else
           do { (r, sp) \<leftarrow> ipc_entry_get sp;
                case r of
                  Inr x \<Rightarrow> Some (Inr x, put_space space sp s)
                | Inl _ \<Rightarrow>
                    do { (kr, s) \<leftarrow> ipc_entry_grow_table space None s;
                         if kr \<noteq> KERN_SUCCESS then Some (Inl kr, s) else ipc_entry_alloc space s } } }"

text \<open>The search for the predecessor of a free entry in the free list.\<close>

partial_function (option) ipc_entry_free_pred :: "ipc_entry list \<Rightarrow> u32 \<Rightarrow> u32 \<Rightarrow> u32 option" where
  "ipc_entry_free_pred table index free_index =
    do { e \<leftarrow> array_get table (unat free_index);
         if ie_next e \<noteq> index then ipc_entry_free_pred table index (ie_next e)
         else Some free_index }"

text \<open>The first part of \<^verbatim>\<open>ipc_entry_alloc_name\<close>, for an index below the table size: the entry if
  it serves, \<open>None\<close> if the index is reserved or in use for another name.\<close>

definition ipc_entry_claim ::
  "ipc_space \<Rightarrow> mach_port_name_t \<Rightarrow> bool \<Rightarrow> (ipc_entry_t option \<times> ipc_space) option" where
  "ipc_entry_claim sp name tentry =
    (let index = MACH_PORT_INDEX name; gen = MACH_PORT_GEN name in
     do { entry \<leftarrow> array_get (is_table sp) (unat index);
          if index = 0 then
            do { kassert (IE_BITS_TYPE (ie_bits entry) = 0);
                 kassert (IE_BITS_GEN (ie_bits entry) = 0);
                 Some (None, sp) }
          else if IE_BITS_TYPE (ie_bits entry) \<noteq> 0 then
            (if IE_BITS_GEN (ie_bits entry) = gen then
               do { kassert (\<not> tentry); Some (Some (Table_entry (unat index)), sp) }
             else Some (None, sp))
          else
            do { free_index \<leftarrow> ipc_entry_free_pred (is_table sp) index 0;
                 table \<leftarrow> array_upd (is_table sp) (unat free_index) (ie_next_update (\<lambda>_. ie_next entry));
                 table \<leftarrow> array_upd table (unat index) (\<lambda>e. e\<lparr>ie_bits := gen, ie_request := 0\<rparr>);
                 kassert (ie_object entry = IO_NULL);
                 kassert (\<not> (is_fast sp \<and> tentry));
                 Some (Some (Table_entry (unat index)), sp\<lparr>is_table := table\<rparr>) } })"

text \<open>The last part: an allocated tree entry is entered into the tree.\<close>

definition ipc_entry_insert_tree ::
  "ipc_space \<Rightarrow> nat \<Rightarrow> mach_port_name_t \<Rightarrow> ipc_space option" where
  "ipc_entry_insert_tree sp its_size name =
    (let index = unat (MACH_PORT_INDEX name) in
     do { sp \<leftarrow>
            (let sp = sp\<lparr>is_tree_total := is_tree_total sp + 1\<rparr> in
             if index < is_table_size sp then
               do { table \<leftarrow> array_upd (is_table sp) index (\<lambda>e. e\<lparr>ie_bits := ie_bits e OR IE_BITS_COLLISION\<rparr>);
                    Some (sp\<lparr>is_table := table\<rparr>) }
             else if index < its_size then
               do { (collision, sp) \<leftarrow> ipc_entry_tree_collision sp name;
                    Some (if collision then sp else sp\<lparr>is_tree_small := is_tree_small sp + 1\<rparr>) }
             else Some sp);
          tree \<leftarrow> ipc_splay_tree_insert (is_tree sp) name ie_zero;
          Some (sp\<lparr>is_tree := tree\<rparr>) })"

partial_function (option) ipc_entry_alloc_name_loop ::
  "ipc_space_t \<Rightarrow> mach_port_name_t \<Rightarrow> bool \<Rightarrow> kernel \<Rightarrow> ((kern_return_t + ipc_entry_t) \<times> kernel) option" where
  "ipc_entry_alloc_name_loop space name tentry s =
    do { sp \<leftarrow> ks_spaces s space;
         if \<not> is_active sp then Some (Inl KERN_INVALID_TASK, s)
         else
           do { (found, sp) \<leftarrow> (if unat (MACH_PORT_INDEX name) < is_table_size sp
                               then ipc_entry_claim sp name tentry else Some (None, sp));
                case found of
                  Some e \<Rightarrow> Some (Inr e, put_space space sp s)
                | None \<Rightarrow>
                    if is_fast sp then do { kassert (\<not> tentry); Some (Inl KERN_FAILURE, s) }
                    else
                      do { (e2, tree) \<leftarrow>
                             Some (if 0 < is_tree_total sp then ipc_splay_tree_lookup (is_tree sp) name
                                   else (None, is_tree sp));
                           let sp = sp\<lparr>is_tree := tree\<rparr>; s = put_space space sp s in
                           case e2 of
                             Some te \<Rightarrow>
                               do { kassert (IE_BITS_TYPE (ie_bits te) \<noteq> 0);
                                    Some (Inr (Tree_entry name), s) }
                           | None \<Rightarrow>
                               do { its_size \<leftarrow> array_get (ks_table_entries s) (is_table_next sp);
                                    if is_table_size sp \<le> unat (MACH_PORT_INDEX name) \<and>
                                       unat (MACH_PORT_INDEX name) < its_size \<and>
                                       (its_size - is_table_size sp) * SIZEOF_IPC_ENTRY <
                                         (unat (is_tree_small sp) + 1) * SIZEOF_IPC_TREE_ENTRY then
                                      do { (kr, s) \<leftarrow> ipc_entry_grow_table space None s;
                                           kassert (kr \<noteq> KERN_NO_SPACE);
                                           if kr \<noteq> KERN_SUCCESS then Some (Inl kr, s)
                                           else ipc_entry_alloc_name_loop space name tentry s }
                                    else if tentry then
                                      do { sp \<leftarrow> ipc_entry_insert_tree sp its_size name;
                                           Some (Inr (Tree_entry name), put_space space sp s) }
                                    else
                                      (case kalloc s of (te, s) \<Rightarrow>
                                         if te = 0 then Some (Inl KERN_RESOURCE_SHORTAGE, s)
                                         else ipc_entry_alloc_name_loop space name True s) } } } }"

definition ipc_entry_alloc_name ::
  "ipc_space_t \<Rightarrow> mach_port_name_t \<Rightarrow> kernel \<Rightarrow> ((kern_return_t + ipc_entry_t) \<times> kernel) option" where
  "ipc_entry_alloc_name space name s =
    do { kassert (MACH_PORT_VALID name); ipc_entry_alloc_name_loop space name False s }"

section \<open>Deallocation\<close>

text \<open>Return an entry to the free list.\<close>

definition ipc_entry_free :: "ipc_space \<Rightarrow> u32 \<Rightarrow> ipc_space option" where
  "ipc_entry_free sp index =
    do { head \<leftarrow> array_get (is_table sp) 0;
         table \<leftarrow> array_upd (is_table sp) (unat index)
                   (\<lambda>e. e\<lparr>ie_bits := ie_bits e AND IE_BITS_GEN_MASK, ie_request := ie_next head\<rparr>);
         table \<leftarrow> array_upd table 0 (ie_next_update (\<lambda>_. index));
         Some (sp\<lparr>is_table := table\<rparr>) }"

text \<open>A table entry with the collision bit takes over an entry of the tree with the same index.\<close>

definition ipc_entry_dealloc_collision ::
  "ipc_space_t \<Rightarrow> u32 \<Rightarrow> kernel \<Rightarrow> kernel option" where
  "ipc_entry_dealloc_collision space index s =
    do { sp \<leftarrow> ks_spaces s space;
         (tree, collisions) \<leftarrow> ipc_splay_tree_split (is_tree sp) (MACH_PORT_MAKE (index + 1) 0) (is_tree sp);
         (collisions, small) \<leftarrow> ipc_splay_tree_split collisions (MACH_PORT_MAKE index 0) collisions;
         (tname, tentry) \<leftarrow> ipc_splay_tree_pick collisions;
         kassert (MACH_PORT_INDEX tname = index);
         let obj = ie_object tentry in
         do { s \<leftarrow> upd_entry space (Table_entry (unat index))
                    (\<lambda>e. e\<lparr>ie_object := obj, ie_bits := ie_bits tentry OR MACH_PORT_GEN tname,
                           ie_request := ie_request tentry\<rparr>) s;
              s \<leftarrow> ipc_entry_hash_moved space obj tname tentry index s;
              collisions \<leftarrow> ipc_splay_tree_delete collisions tname;
              sp \<leftarrow> ks_spaces s space;
              kassert (0 < is_tree_total sp);
              let sp = sp\<lparr>is_tree_total := is_tree_total sp - 1\<rparr> in
              do { (sp, tree) \<leftarrow>
                     (if ipc_splay_tree_pick collisions \<noteq> None then
                        do { sp \<leftarrow> is_entry_upd (Table_entry (unat index))
                                   (\<lambda>e. e\<lparr>ie_bits := ie_bits e OR IE_BITS_COLLISION\<rparr>) sp;
                             (tree, _) \<leftarrow> ipc_splay_tree_join tree collisions;
                             Some (sp, tree) }
                      else Some (sp, tree));
                   (tree, _) \<leftarrow> ipc_splay_tree_join tree small;
                   Some (put_space space (sp\<lparr>is_tree := tree\<rparr>) s) } } }"

text \<open>A tree entry leaves the tree.\<close>

definition ipc_entry_dealloc_tree ::
  "ipc_space_t \<Rightarrow> mach_port_name_t \<Rightarrow> kernel \<Rightarrow> kernel option" where
  "ipc_entry_dealloc_tree space name s =
    (let index = unat (MACH_PORT_INDEX name) in
     do { sp \<leftarrow> ks_spaces s space;
          tree \<leftarrow> ipc_splay_tree_delete (is_tree sp) name;
          kassert (0 < is_tree_total sp);
          let sp = sp\<lparr>is_tree := tree, is_tree_total := is_tree_total sp - 1\<rparr> in
          if index < is_table_size sp then
            do { ientry \<leftarrow> array_get (is_table sp) index;
                 kassert (ie_bits ientry AND IE_BITS_COLLISION \<noteq> 0);
                 (collision, sp) \<leftarrow> ipc_entry_tree_collision sp name;
                 if collision then Some (put_space space sp s)
                 else
                   upd_entry space (Table_entry index)
                     (\<lambda>e. e\<lparr>ie_bits := bits_clear (ie_bits e) IE_BITS_COLLISION\<rparr>) (put_space space sp s) }
          else
            do { its_size \<leftarrow> array_get (ks_table_entries s) (is_table_next sp);
                 if index < its_size then
                   do { (collision, sp) \<leftarrow> ipc_entry_tree_collision sp name;
                        if collision then Some (put_space space sp s)
                        else
                          do { kassert (0 < is_tree_small sp);
                               Some (put_space space (sp\<lparr>is_tree_small := is_tree_small sp - 1\<rparr>) s) } }
                 else Some (put_space space sp s) } })"

definition ipc_entry_dealloc ::
  "ipc_space_t \<Rightarrow> mach_port_name_t \<Rightarrow> ipc_entry_t \<Rightarrow> kernel \<Rightarrow> kernel option" where
  "ipc_entry_dealloc space name entry s =
    (let index = MACH_PORT_INDEX name in
     do { sp \<leftarrow> ks_spaces s space;
          kassert (is_active sp);
          e \<leftarrow> is_entry sp entry;
          kassert (ie_object e = IO_NULL);
          kassert (ie_request e = 0);
          if is_fast sp then
            do { kassert (in_table sp name entry);
                 kassert (IE_BITS_GEN (ie_bits e) = MACH_PORT_GEN name);
                 kassert (ie_bits e AND IE_BITS_COLLISION = 0);
                 sp \<leftarrow> ipc_entry_free sp index;
                 Some (put_space space sp s) }
          else if in_table sp name entry then
            do { kassert (IE_BITS_GEN (ie_bits e) = MACH_PORT_GEN name);
                 if ie_bits e AND IE_BITS_COLLISION \<noteq> 0 then ipc_entry_dealloc_collision space index s
                 else do { sp \<leftarrow> ipc_entry_free sp index; Some (put_space space sp s) } }
          else
            do { kassert (entry = Tree_entry name);
                 ipc_entry_dealloc_tree space name s } })"

end
