(* ===== verification/Ipc_Pset.thy ===== *)
theory Ipc_Pset
  imports Ipc_Types
begin

text \<open>
  Port sets (\<^verbatim>\<open>osfmk/ipc/ipc_pset.c\<close>) and the part of message queues that links a port to
  its sets (\<^verbatim>\<open>osfmk/ipc/ipc_mqueue.c\<close>). The wait queue of a port is represented by the list of
  the sets that it is linked to; waking receivers is an event.
\<close>

section \<open>Message queues\<close>

abbreviation MACH_PORT_QLIMIT_DEFAULT :: u32 where "MACH_PORT_QLIMIT_DEFAULT \<equiv> 5"

definition ipc_mqueue_init :: ipc_mqueue where
  "ipc_mqueue_init = \<lparr>imq_sets = [], imq_msgcount = 0, imq_qlimit = MACH_PORT_QLIMIT_DEFAULT,
     imq_seqno = 0, imq_fullwaiters = False\<rparr>"

definition ipc_mqueue_member :: "ipc_mqueue \<Rightarrow> u32 \<Rightarrow> bool" where
  "ipc_mqueue_member port_mqueue set_mqueue \<longleftrightarrow> set_mqueue \<in> set (imq_sets port_mqueue)"

definition ipc_mqueue_add :: "ipc_mqueue \<Rightarrow> u32 \<Rightarrow> ipc_mqueue" where
  "ipc_mqueue_add port_mqueue set_mqueue = port_mqueue\<lparr>imq_sets := imq_sets port_mqueue @ [set_mqueue]\<rparr>"

definition ipc_mqueue_remove :: "ipc_mqueue \<Rightarrow> u32 \<Rightarrow> kern_return_t \<times> ipc_mqueue" where
  "ipc_mqueue_remove mqueue sub_mqueue =
    (if ipc_mqueue_member mqueue sub_mqueue then
       (KERN_SUCCESS, mqueue\<lparr>imq_sets := remove1 sub_mqueue (imq_sets mqueue)\<rparr>)
     else (KERN_NOT_IN_SET, mqueue))"

definition ipc_mqueue_remove_one :: "ipc_mqueue \<Rightarrow> u32 option \<times> ipc_mqueue" where
  "ipc_mqueue_remove_one mqueue =
    (case imq_sets mqueue of
       [] \<Rightarrow> (None, mqueue)
     | sub # rest \<Rightarrow> (Some sub, mqueue\<lparr>imq_sets := rest\<rparr>))"

text \<open>\<open>waiters\<close> is the number of senders that wait for room in the queue: the loop that wakes one
  sender for each new place ends early when nobody is waiting any more.\<close>

definition ipc_mqueue_set_qlimit :: "nat \<Rightarrow> u32 \<Rightarrow> ipc_mqueue \<Rightarrow> nat \<times> ipc_mqueue" where
  "ipc_mqueue_set_qlimit waiters qlimit mqueue =
    (if imq_qlimit mqueue < qlimit then
       (let wakeup = unat (qlimit - imq_qlimit mqueue) in
        (min waiters wakeup,
         mqueue\<lparr>imq_qlimit := qlimit,
                imq_fullwaiters := (if waiters < wakeup then False else imq_fullwaiters mqueue)\<rparr>))
     else (0, mqueue\<lparr>imq_qlimit := qlimit\<rparr>))"

definition ipc_mqueue_set_seqno :: "u32 \<Rightarrow> ipc_mqueue \<Rightarrow> ipc_mqueue" where
  "ipc_mqueue_set_seqno seqno mqueue = mqueue\<lparr>imq_seqno := seqno\<rparr>"

section \<open>Port sets\<close>

definition ipc_pset_member :: "u32 \<Rightarrow> ipc_port_t \<Rightarrow> kernel \<Rightarrow> bool option" where
  "ipc_pset_member pset port s =
    do { p \<leftarrow> ks_ports s port;
         kassert (io_active p);
         Some (ipc_mqueue_member (ip_messages p) pset) }"

definition ipc_pset_add :: "u32 \<Rightarrow> ipc_port_t \<Rightarrow> kernel \<Rightarrow> (kern_return_t \<times> kernel) option" where
  "ipc_pset_add pset port s =
    do { ps \<leftarrow> ks_psets s pset;
         p \<leftarrow> ks_ports s port;
         kassert (io_active ps);
         kassert (io_active p);
         member \<leftarrow> ipc_pset_member pset port s;
         if member then Some (KERN_ALREADY_IN_SET, s)
         else
           do { s \<leftarrow> ips_reference pset s;
                s \<leftarrow> upd_port port (\<lambda>p. p\<lparr>ip_pset_count := ip_pset_count p + 1,
                                         ip_messages := ipc_mqueue_add (ip_messages p) pset\<rparr>) s;
                Some (KERN_SUCCESS, s) } }"

definition ipc_pset_remove :: "u32 \<Rightarrow> ipc_port_t \<Rightarrow> kernel \<Rightarrow> (kern_return_t \<times> kernel) option" where
  "ipc_pset_remove pset port s =
    do { p \<leftarrow> ks_ports s port;
         kassert (io_active p);
         if ip_pset_count p = 0 then Some (KERN_NOT_IN_SET, s)
         else
           (case ipc_mqueue_remove (ip_messages p) pset of (mr, mqueue) \<Rightarrow>
              do { s \<leftarrow> upd_port port (\<lambda>p. p\<lparr>ip_messages := mqueue\<rparr>) s;
                   if mr = KERN_SUCCESS then
                     do { s \<leftarrow> upd_port port (\<lambda>p. p\<lparr>ip_pset_count := ip_pset_count p - 1\<rparr>) s;
                          s \<leftarrow> ips_release pset s;
                          Some (mr, s) }
                   else Some (mr, s) }) }"

partial_function (option) ipc_pset_remove_loop :: "ipc_port_t \<Rightarrow> kernel \<Rightarrow> kernel option" where
  "ipc_pset_remove_loop port s =
    do { p \<leftarrow> ks_ports s port;
         case ipc_mqueue_remove_one (ip_messages p) of (one, mqueue) \<Rightarrow>
           (case one of
              None \<Rightarrow> Some s
            | Some pset \<Rightarrow>
                do { s \<leftarrow> upd_port port (\<lambda>p. p\<lparr>ip_messages := mqueue\<rparr>) s;
                     s \<leftarrow> ips_release pset s;
                     s \<leftarrow> upd_port port (\<lambda>p. p\<lparr>ip_pset_count := ip_pset_count p - 1\<rparr>) s;
                     ipc_pset_remove_loop port s }) }"

definition ipc_pset_remove_all :: "ipc_port_t \<Rightarrow> kernel \<Rightarrow> (kern_return_t \<times> kernel) option" where
  "ipc_pset_remove_all port s =
    do { p \<leftarrow> ks_ports s port;
         kassert (io_active p);
         if ip_pset_count p = 0 then Some (KERN_NOT_IN_SET, s)
         else
           do { s \<leftarrow> ipc_pset_remove_loop port s;
                p \<leftarrow> ks_ports s port;
                kassert (ip_pset_count p = 0);
                Some (KERN_SUCCESS, s) } }"

definition ipc_pset_destroy :: "u32 \<Rightarrow> kernel \<Rightarrow> kernel option" where
  "ipc_pset_destroy pset s =
    do { ps \<leftarrow> ks_psets s pset;
         kassert (io_active ps);
         let s = put_pset pset (ps\<lparr>io_bits := bits_clear (io_bits ps) IO_BITS_ACTIVE\<rparr>) s;
             s = log_event (Mqueue_changed pset) s in
         do { s \<leftarrow> ips_release pset s; ips_check_unlock pset s } }"

end
