(* ===== verification/Ipc_Freelist.thy ===== *)
theory Ipc_Freelist
  imports Ipc_Types
begin

text \<open>
  The interface of a free list that is threaded through the elements of a table: element 0
  holds the head, and a link of 0 ends the list. The entry table of a space (\<open>ie_next\<close>) and
  the table of dead-name requests of a port (\<open>ipr_next\<close>) are both of this kind.
\<close>

fun chain :: "(nat \<Rightarrow> u32) \<Rightarrow> u32 \<Rightarrow> nat list \<Rightarrow> bool" where
  "chain nxt h [] \<longleftrightarrow> h = 0"
| "chain nxt h (i # is) \<longleftrightarrow> h \<noteq> 0 \<and> unat h = i \<and> chain nxt (nxt i) is"

lemma chain_cong: "(\<And>i. i \<in> set is \<Longrightarrow> nxt' i = nxt i) \<Longrightarrow> chain nxt' h is \<longleftrightarrow> chain nxt h is"
  by (induction nxt h "is" rule: chain.induct) auto

lemma chain_head: "chain nxt h is \<Longrightarrow> h = 0 \<longleftrightarrow> is = []"
  by (cases "is") auto

lemma chain_nonzero: "chain nxt h is \<Longrightarrow> 0 \<notin> set is"
  by (induction nxt h "is" rule: chain.induct) (auto simp: unat_gt_0)

locale free_list =
  fixes link :: "'c \<Rightarrow> u32"
    and is_free :: "'c \<Rightarrow> bool"
    and set_link :: "u32 \<Rightarrow> 'c \<Rightarrow> 'c"
  assumes link_set_link: "link (set_link w c) = w"
    and is_free_set_link: "is_free (set_link w c) = is_free c"
begin

definition fl_ok :: "'c list \<Rightarrow> nat list \<Rightarrow> bool" where
  "fl_ok t fl \<longleftrightarrow> t \<noteq> [] \<and> chain (\<lambda>i. link (t ! i)) (link (t ! 0)) fl \<and> distinct fl \<and>
     (\<forall>i \<in> set fl. i < length t \<and> is_free (t ! i))"

text \<open>Every free element but those that are in use already (\<open>taken\<close>) is in the list.\<close>

definition fl_full :: "'c list \<Rightarrow> nat list \<Rightarrow> nat set \<Rightarrow> bool" where
  "fl_full t fl taken \<longleftrightarrow> fl_ok t fl \<and> taken \<inter> set fl = {} \<and> 0 \<notin> taken \<and>
     (\<forall>i. 0 < i \<longrightarrow> i < length t \<longrightarrow> is_free (t ! i) \<longrightarrow> i \<in> set fl \<union> taken)"

lemma fl_ok_zero: "fl_ok t fl \<Longrightarrow> 0 \<notin> set fl"
  unfolding fl_ok_def using chain_nonzero by blast

lemma fl_ok_empty: "fl_ok t fl \<Longrightarrow> link (t ! 0) = 0 \<longleftrightarrow> fl = []"
  unfolding fl_ok_def using chain_head by blast

lemma fl_ok_first:
  assumes "fl_ok t fl" and "link (t ! 0) \<noteq> 0"
  obtains rest where "fl = unat (link (t ! 0)) # rest" "unat (link (t ! 0)) < length t"
    "is_free (t ! unat (link (t ! 0)))" "unat (link (t ! 0)) \<notin> set rest"
  using assms by (cases fl) (auto simp: fl_ok_def)

lemma update_other:
  assumes "fl_ok t fl" and "i \<notin> set fl" and "i \<noteq> 0"
  shows "fl_ok (t[i := c]) fl"
proof -
  have same: "t[i := c] ! j = t ! j" if "j \<in> set fl" for j
    using assms(2) that by (cases "j = i") auto
  then have "chain (\<lambda>j. link (t[i := c] ! j)) (link (t ! 0)) fl \<longleftrightarrow> chain (\<lambda>j. link (t ! j)) (link (t ! 0)) fl"
    by (intro chain_cong) simp
  with assms same show ?thesis by (simp add: fl_ok_def)
qed

lemma set_head:
  assumes "chain (\<lambda>j. link (t ! j)) w fl" and "t \<noteq> []" and "distinct fl"
    and "\<forall>i \<in> set fl. i < length t \<and> is_free (t ! i)"
  shows "fl_ok (t[0 := set_link w (t ! 0)]) fl"
proof -
  have z: "0 \<notin> set fl" using chain_nonzero [OF assms(1)] .
  have same: "t[0 := set_link w (t ! 0)] ! j = t ! j" if "j \<in> set fl" for j
    using z that by (cases "j = 0") auto
  have "chain (\<lambda>j. link (t[0 := set_link w (t ! 0)] ! j)) w fl \<longleftrightarrow> chain (\<lambda>j. link (t ! j)) w fl"
    by (rule chain_cong) (simp add: same)
  with assms same show ?thesis by (simp add: fl_ok_def link_set_link)
qed

lemma replace_head:
  assumes "fl_ok t fl" and "link c = link (t ! 0)"
  shows "fl_ok (t[0 := c]) fl"
proof -
  have same: "t[0 := c] ! j = t ! j" if "j \<in> set fl" for j
    using that fl_ok_zero [OF assms(1)] by (cases "j = 0") auto
  have "chain (\<lambda>j. link (t[0 := c] ! j)) (link (t ! 0)) fl \<longleftrightarrow> chain (\<lambda>j. link (t ! j)) (link (t ! 0)) fl"
    by (rule chain_cong) (simp add: same)
  with assms same show ?thesis by (simp add: fl_ok_def)
qed

lemma pop:
  assumes "fl_ok t (i # fl)"
  shows "fl_ok (t[0 := set_link (link (t ! i)) (t ! 0), i := c]) fl"
proof (rule update_other)
  show "fl_ok (t[0 := set_link (link (t ! i)) (t ! 0)]) fl"
    by (rule set_head) (use assms in \<open>auto simp: fl_ok_def\<close>)
  show "i \<notin> set fl" using assms by (auto simp: fl_ok_def)
  show "i \<noteq> 0" using fl_ok_zero [OF assms] by auto
qed

lemma push:
  assumes "fl_ok t fl" and "unat w < length t" and "w \<noteq> 0" and "unat w \<notin> set fl"
    and "link c = link (t ! 0)" and "is_free c"
  shows "fl_ok (t[unat w := c, 0 := set_link w (t ! 0)]) (unat w # fl)"
proof -
  have w: "unat w \<noteq> 0" using assms(3) by (simp add: unat_eq_0)
  let ?t = "t[unat w := c]"
  have u: "fl_ok ?t fl" by (rule update_other [OF assms(1,4) w])
  have z: "?t ! 0 = t ! 0" using w by simp
  have "fl_ok (?t[0 := set_link w (?t ! 0)]) (unat w # fl)"
    by (rule set_head) (use u assms w z in \<open>auto simp: fl_ok_def\<close>)
  then show ?thesis by (simp only: z)
qed

text \<open>The element before the first occurrence of \<open>w\<close>, from the head.\<close>

lemma chain_split:
  assumes "chain nxt h (xs @ i # ys)"
  shows "chain nxt (nxt i) ys" and "xs \<noteq> [] \<Longrightarrow> unat (nxt (last xs)) = i \<and> nxt (last xs) \<noteq> 0"
  using assms by (induction xs arbitrary: h) auto

lemma chain_bypass:
  assumes "chain nxt h (xs @ i # ys)" and "distinct (xs @ i # ys)" and "xs \<noteq> []"
    and "nxt' (last xs) = nxt i" and "\<And>j. j \<in> set (xs @ ys) \<Longrightarrow> j \<noteq> last xs \<Longrightarrow> nxt' j = nxt j"
  shows "chain nxt' h (xs @ ys)"
  using assms
proof (induction xs arbitrary: h)
  case (Cons a xs)
  show ?case
  proof (cases "xs = []")
    case True
    have "chain nxt' (nxt i) ys \<longleftrightarrow> chain nxt (nxt i) ys"
      by (rule chain_cong) (use Cons.prems True in auto)
    with Cons.prems True show ?thesis by simp
  next
    case False
    then have "a \<noteq> last xs" using Cons.prems(2) by auto
    then have "nxt' a = nxt a" using Cons.prems(5) [of a] False by auto
    with Cons False show ?thesis by auto
  qed
qed simp

lemma unlink:
  assumes ok: "fl_ok t (xs @ i # ys)"
  defines "pred \<equiv> last (0 # xs)"
  shows "fl_ok (t[pred := set_link (link (t ! i)) (t ! pred), i := c]) (xs @ ys)"
proof (cases "xs = []")
  case True
  with pop [of t i ys c] ok show ?thesis by (simp add: pred_def)
next
  case False
  let ?nxt = "\<lambda>j. link (t ! j)" let ?t = "t[pred := set_link (link (t ! i)) (t ! pred)]"
  have d: "distinct (xs @ i # ys)" and ch: "chain ?nxt (?nxt 0) (xs @ i # ys)" and len: "pred < length t"
    using ok False by (auto simp: fl_ok_def pred_def)
  have "last xs \<noteq> 0" using fl_ok_zero [OF ok] last_in_set [OF False] by (metis UnI1 set_append)
  then have p: "pred \<in> set xs" "pred \<noteq> i" "pred \<noteq> 0" using d False by (auto simp: pred_def)
  have "chain (\<lambda>j. link (?t ! j)) (?nxt 0) (xs @ ys)"
    by (rule chain_bypass [OF ch d False])
      (use len p in \<open>auto simp: pred_def link_set_link nth_list_update False split: if_splits\<close>)
  then have "fl_ok ?t (xs @ ys)"
    using ok p len by (auto simp: fl_ok_def nth_list_update is_free_set_link)
  then show ?thesis
    by (rule update_other) (use d fl_ok_zero [OF ok] in auto)
qed

end

end
