(* ===== verification/Ipc_Port.thy ===== *)
theory Ipc_Port
  imports Ipc_Pset Ipc_Freelist
begin

text \<open>
  Ports (\<^verbatim>\<open>osfmk/ipc/ipc_port.c\<close>): dead-name requests, the requests for port-destroyed and
  no-senders notifications, the naked send, send-once and receive rights, the destruction of a
  port and the check for circularity; and the notifications (\<^verbatim>\<open>osfmk/ipc/ipc_notify.c\<close>). A
  message handed to \<^verbatim>\<open>ipc_kmsg_send_always\<close>, the destruction of a message queue and of a kernel
  object, and the wakeup of a thread pool are events.
\<close>

section \<open>References\<close>

definition ipc_port_reference :: "ipc_port_t \<Rightarrow> kernel \<Rightarrow> kernel option" where
  "ipc_port_reference object s =
    do { p \<leftarrow> ks_ports s object; kassert (0 < io_references p); ip_reference object s }"

definition ipc_port_release :: "ipc_port_t \<Rightarrow> kernel \<Rightarrow> kernel option" where
  "ipc_port_release object s =
    do { p \<leftarrow> ks_ports s object;
         kassert (0 < io_references p);
         s \<leftarrow> ip_release object s;
         ip_check_unlock object s }"

text \<open>\<^verbatim>\<open>ipc_object_reference\<close> and \<^verbatim>\<open>ipc_object_release\<close>, for an object of either type.\<close>

definition ipc_object_reference :: "ipc_object_t \<Rightarrow> kernel \<Rightarrow> kernel option" where
  "ipc_object_reference object s =
    (case ks_ports s object of
       Some p \<Rightarrow> do { kassert (0 < io_references p); ip_reference object s }
     | None \<Rightarrow>
         do { ps \<leftarrow> ks_psets s object; kassert (0 < io_references ps); ips_reference object s })"

definition ipc_object_release :: "ipc_object_t \<Rightarrow> kernel \<Rightarrow> kernel option" where
  "ipc_object_release object s =
    (case ks_ports s object of
       Some p \<Rightarrow>
         do { kassert (0 < io_references p); s \<leftarrow> ip_release object s; ip_check_unlock object s }
     | None \<Rightarrow>
         do { ps \<leftarrow> ks_psets s object;
              kassert (0 < io_references ps);
              s \<leftarrow> ips_release object s;
              ips_check_unlock object s })"

definition ipc_port_timestamp :: "kernel \<Rightarrow> u32 \<times> kernel" where
  "ipc_port_timestamp s = (ks_timestamp s, s\<lparr>ks_timestamp := ks_timestamp s + 1\<rparr>)"

section \<open>Dead-name requests\<close>

definition ipc_port_dnrequest ::
  "ipc_port_t \<Rightarrow> mach_port_name_t \<Rightarrow> ipc_port_t \<Rightarrow> kernel \<Rightarrow> ((kern_return_t + u32) \<times> kernel) option" where
  "ipc_port_dnrequest port name soright s =
    do { p \<leftarrow> ks_ports s port;
         kassert (io_active p);
         kassert (name \<noteq> MACH_PORT_NULL);
         kassert (soright \<noteq> IP_NULL);
         case ip_dnrequests p of
           None \<Rightarrow> Some (Inl KERN_NO_SPACE, s)
         | Some table \<Rightarrow>
             do { head \<leftarrow> array_get table 0;
                  let index = ipr_next head in
                  if index = 0 then Some (Inl KERN_NO_SPACE, s)
                  else
                    do { ipr \<leftarrow> array_get table (unat index);
                         kassert (ipr_name ipr = MACH_PORT_NULL);
                         table \<leftarrow> array_upd table 0 (ipr_next_update (\<lambda>_. ipr_next ipr));
                         table \<leftarrow> array_upd table (unat index) (\<lambda>r. r\<lparr>ipr_soright := soright, ipr_name := name\<rparr>);
                         Some (Inr index, put_port port (p\<lparr>ip_dnrequests := Some table\<rparr>) s) } } }"

text \<open>The new elements of a grown table, in the given order, are put on its free list.\<close>

fun ipc_port_dngrow_free :: "nat list \<Rightarrow> ipc_port_request list \<Rightarrow> u32 \<Rightarrow> (ipc_port_request list \<times> u32) option" where
  "ipc_port_dngrow_free [] table free = Some (table, free)"
| "ipc_port_dngrow_free (i # is) table free =
    do { table \<leftarrow> array_upd table i (\<lambda>_. \<lparr>ipr_soright = free, ipr_name = MACH_PORT_NULL\<rparr>);
         ipc_port_dngrow_free is table (of_nat i) }"

text \<open>The search for the table size; a size of 0 ends the array.\<close>

partial_function (option) ipc_port_dngrow_its :: "nat list \<Rightarrow> nat \<Rightarrow> nat \<Rightarrow> nat option" where
  "ipc_port_dngrow_its dnrequests tsize its =
    do { sz \<leftarrow> array_get dnrequests its;
         if sz \<noteq> 0 \<and> sz < tsize then ipc_port_dngrow_its dnrequests tsize (its + 1) else Some its }"

text \<open>The part of \<^verbatim>\<open>ipc_port_dngrow\<close> after the choice of the size: allocate, and install the new
  table if it is the next one after the old table's size (the test for somebody else who grew
  the table in between).\<close>

definition ipc_port_dngrow_to ::
  "ipc_port_t \<Rightarrow> nat option \<Rightarrow> nat \<Rightarrow> u32 \<Rightarrow> nat \<Rightarrow> nat \<Rightarrow> kernel \<Rightarrow> (kern_return_t \<times> kernel) option" where
  "ipc_port_dngrow_to port oits osize ofree its nsize s =
    do { s \<leftarrow> ip_reference port s;
         case (if nsize = 0 then (0, s) else kalloc s) of (ntable, s) \<Rightarrow>
           if ntable = 0 then do { s \<leftarrow> ipc_port_release port s; Some (KERN_RESOURCE_SHORTAGE, s) }
           else
             do { s \<leftarrow> ip_release port s;
                  p \<leftarrow> ks_ports s port;
                  if io_active p \<and> (case oits of None \<Rightarrow> True | Some i \<Rightarrow> i + 1 = its) then
                    do { kassert (osize < nsize);
                         let old = (case ip_dnrequests p of None \<Rightarrow> [] | Some otable \<Rightarrow> take (osize - 1) (tl otable));
                             blank = \<lparr>ipr_soright = 0, ipr_name = 0\<rparr>;
                             table = blank # old @ replicate (nsize - 1 - length old) blank in
                         do { (table, free) \<leftarrow> ipc_port_dngrow_free [osize..<nsize] table ofree;
                              table \<leftarrow> array_upd table 0 (\<lambda>_. \<lparr>ipr_soright = free, ipr_name = of_nat its\<rparr>);
                              Some (KERN_SUCCESS, put_port port (p\<lparr>ip_dnrequests := Some table\<rparr>) s) } }
                  else do { s \<leftarrow> ip_check_unlock port s; Some (KERN_SUCCESS, s) } } }"

definition ipc_port_dngrow ::
  "ipc_port_t \<Rightarrow> nat option \<Rightarrow> kernel \<Rightarrow> (kern_return_t \<times> kernel) option" where
  "ipc_port_dngrow port tsize s =
    do { p \<leftarrow> ks_ports s port;
         kassert (io_active p);
         (oits, osize, ofree) \<leftarrow>
           (case ip_dnrequests p of
              None \<Rightarrow> Some (None, 1, 0)
            | Some otable \<Rightarrow>
                do { head \<leftarrow> array_get otable 0;
                     sz \<leftarrow> array_get (ks_table_dnrequests s) (unat (ipr_size head));
                     Some (Some (unat (ipr_size head)), sz, ipr_next head) });
         let its0 = (case oits of None \<Rightarrow> 0 | Some i \<Rightarrow> i + 1) in
         case tsize of
           Some ts \<Rightarrow> (if oits \<noteq> None \<and> ts \<le> osize then Some (KERN_SUCCESS, s)
             else
               do { its \<leftarrow> ipc_port_dngrow_its (ks_table_dnrequests s) ts its0;
                    sz \<leftarrow> array_get (ks_table_dnrequests s) its;
                    if sz = 0 then Some (KERN_NO_SPACE, s)
                    else ipc_port_dngrow_to port oits osize ofree its sz s })
         | None \<Rightarrow>
             do { sz \<leftarrow> array_get (ks_table_dnrequests s) its0;
                  ipc_port_dngrow_to port oits osize ofree its0 sz s } }"

definition ipc_port_dncancel ::
  "ipc_port_t \<Rightarrow> mach_port_name_t \<Rightarrow> u32 \<Rightarrow> kernel \<Rightarrow> (ipc_port_t \<times> kernel) option" where
  "ipc_port_dncancel port name index s =
    do { p \<leftarrow> ks_ports s port;
         kassert (io_active p);
         kassert (name \<noteq> MACH_PORT_NULL);
         kassert (index \<noteq> 0);
         table \<leftarrow> ip_dnrequests p;
         ipr \<leftarrow> array_get table (unat index);
         let dnrequest = ipr_soright ipr in
         do { kassert (ipr_name ipr = name);
              head \<leftarrow> array_get table 0;
              table \<leftarrow> array_upd table (unat index) (\<lambda>_. \<lparr>ipr_soright = ipr_next head, ipr_name = MACH_PORT_NULL\<rparr>);
              table \<leftarrow> array_upd table 0 (ipr_next_update (\<lambda>_. index));
              Some (dnrequest, put_port port (p\<lparr>ip_dnrequests := Some table\<rparr>) s) } }"

definition ipc_port_dnrename ::
  "ipc_port_t \<Rightarrow> u32 \<Rightarrow> mach_port_name_t \<Rightarrow> mach_port_name_t \<Rightarrow> kernel \<Rightarrow> kernel option" where
  "ipc_port_dnrename port index oname nname s =
    do { p \<leftarrow> ks_ports s port;
         kassert (io_active p);
         table \<leftarrow> ip_dnrequests p;
         ipr \<leftarrow> array_get table (unat index);
         kassert (ipr_name ipr = oname);
         table \<leftarrow> array_upd table (unat index) (ipr_name_update (\<lambda>_. nname));
         Some (put_port port (p\<lparr>ip_dnrequests := Some table\<rparr>) s) }"

section \<open>Send-once rights and simple notifications\<close>

definition ipc_port_release_sonce :: "ipc_port_t \<Rightarrow> kernel \<Rightarrow> kernel option" where
  "ipc_port_release_sonce port s =
    do { kassert (IP_VALID port);
         p \<leftarrow> ks_ports s port;
         kassert (0 < ip_sorights p);
         s \<leftarrow> upd_port port (\<lambda>p. p\<lparr>ip_sorights := ip_sorights p - 1\<rparr>) s;
         s \<leftarrow> ip_release port s;
         if \<not> io_active p then ip_check_unlock port s else Some s }"

text \<open>The common shape of the notifications: allocate a message and send it, or drop the
  send-once right when there is no memory.\<close>

definition ipc_notify_send :: "ipc_port_t \<Rightarrow> ipc_event \<Rightarrow> kernel \<Rightarrow> kernel option" where
  "ipc_notify_send port event s =
    (case kalloc s of (kmsg, s) \<Rightarrow>
       if kmsg = 0 then ipc_port_release_sonce port s else Some (log_event event s))"

definition ipc_notify_port_deleted :: "ipc_port_t \<Rightarrow> mach_port_name_t \<Rightarrow> kernel \<Rightarrow> kernel option" where
  "ipc_notify_port_deleted port name s = ipc_notify_send port (Sent_port_deleted port name) s"

definition ipc_notify_no_senders :: "ipc_port_t \<Rightarrow> u32 \<Rightarrow> kernel \<Rightarrow> kernel option" where
  "ipc_notify_no_senders port mscount s = ipc_notify_send port (Sent_no_senders port mscount) s"

definition ipc_notify_send_once :: "ipc_port_t \<Rightarrow> kernel \<Rightarrow> kernel option" where
  "ipc_notify_send_once port s = ipc_notify_send port (Sent_send_once port) s"

definition ipc_notify_dead_name :: "ipc_port_t \<Rightarrow> mach_port_name_t \<Rightarrow> kernel \<Rightarrow> kernel option" where
  "ipc_notify_dead_name port name s = ipc_notify_send port (Sent_dead_name port name) s"

section \<open>Requests\<close>

definition ipc_port_pdrequest ::
  "ipc_port_t \<Rightarrow> ipc_port_t \<Rightarrow> kernel \<Rightarrow> (ipc_port_t \<times> kernel) option" where
  "ipc_port_pdrequest port notify s =
    do { p \<leftarrow> ks_ports s port;
         kassert (io_active p);
         Some (ip_pdrequest p, put_port port (p\<lparr>ip_pdrequest := notify\<rparr>) s) }"

definition ipc_port_nsrequest ::
  "ipc_port_t \<Rightarrow> u32 \<Rightarrow> ipc_port_t \<Rightarrow> kernel \<Rightarrow> (ipc_port_t \<times> kernel) option" where
  "ipc_port_nsrequest port sync notify s =
    do { p \<leftarrow> ks_ports s port;
         kassert (io_active p);
         let previous = ip_nsrequest p; mscount = ip_mscount p in
         if ip_srights p = 0 \<and> sync \<le> mscount \<and> notify \<noteq> IP_NULL then
           do { s \<leftarrow> ipc_notify_no_senders notify mscount (put_port port (p\<lparr>ip_nsrequest := IP_NULL\<rparr>) s);
                Some (previous, s) }
         else Some (previous, put_port port (p\<lparr>ip_nsrequest := notify\<rparr>) s) }"

definition ipc_port_set_mscount :: "ipc_port_t \<Rightarrow> u32 \<Rightarrow> kernel \<Rightarrow> kernel option" where
  "ipc_port_set_mscount port mscount s =
    do { p \<leftarrow> ks_ports s port;
         kassert (io_active p);
         Some (put_port port (p\<lparr>ip_mscount := mscount\<rparr>) s) }"

definition ipc_port_clear_receiver :: "ipc_port_t \<Rightarrow> kernel \<Rightarrow> kernel option" where
  "ipc_port_clear_receiver port s =
    do { p \<leftarrow> ks_ports s port;
         kassert (io_active p);
         s \<leftarrow> (if ip_pset_count p \<noteq> 0 then
                do { (kr, s) \<leftarrow> ipc_pset_remove_all port s;
                     upd_port port (\<lambda>p. p\<lparr>ip_pset_count := 0\<rparr>) s }
              else Some s);
         let s = log_event (Mqueue_changed port) s in
         do { s \<leftarrow> ipc_port_set_mscount port 0 s;
              upd_port port (\<lambda>p. p\<lparr>ip_messages := (ip_messages p)\<lparr>imq_seqno := 0\<rparr>\<rparr>) s } }"

text \<open>\<^verbatim>\<open>ipc_port_init\<close> leaves the object header but for the receiver name, and \<open>ip_kobject\<close>.\<close>

definition ipc_port_init :: "ipc_space_t \<Rightarrow> mach_port_name_t \<Rightarrow> ipc_port \<Rightarrow> ipc_port" where
  "ipc_port_init space name p =
     p\<lparr>io_bits := io_bits p OR IP_BIT_NMS, io_receiver_name := name, ip_receiver := space,
       ip_subsystem := 0, ip_mscount := 0, ip_srights := 0, ip_sorights := 0,
       ip_nsrequest := IP_NULL, ip_pdrequest := IP_NULL, ip_dnrequests := None,
       ip_pset_count := 0, ip_messages := ipc_mqueue_init, ip_flags := 0\<rparr>"

section \<open>Destruction\<close>

fun ipc_port_dnnotify_from :: "ipc_port_request list \<Rightarrow> kernel \<Rightarrow> kernel option" where
  "ipc_port_dnnotify_from [] s = Some s"
| "ipc_port_dnnotify_from (ipr # rest) s =
    (if ipr_name ipr = MACH_PORT_NULL then ipc_port_dnnotify_from rest s
     else
       do { kassert (ipr_soright ipr \<noteq> IP_NULL);
            s \<leftarrow> ipc_notify_dead_name (ipr_soright ipr) (ipr_name ipr) s;
            ipc_port_dnnotify_from rest s })"

definition ipc_port_dnnotify :: "ipc_port_request list \<Rightarrow> kernel \<Rightarrow> kernel option" where
  "ipc_port_dnnotify dnrequests s =
    do { head \<leftarrow> array_get dnrequests 0;
         sz \<leftarrow> array_get (ks_table_dnrequests s) (unat (ipr_size head));
         kassert (sz \<le> length dnrequests);
         ipc_port_dnnotify_from (tl (take sz dnrequests)) s }"

text \<open>From \<^verbatim>\<open>once port is dead\<close> to the end of \<^verbatim>\<open>ipc_port_destroy\<close>.\<close>

definition ipc_port_kill :: "ipc_port_t \<Rightarrow> kernel \<Rightarrow> kernel option" where
  "ipc_port_kill port s =
    do { p \<leftarrow> ks_ports s port;
         case ipc_port_timestamp s of (timestamp, s) \<Rightarrow>
           let dnrequests = ip_dnrequests p;
               s = put_port port (p\<lparr>io_bits := bits_clear (io_bits p) IO_BITS_ACTIVE,
                                    ip_timestamp := timestamp, ip_dnrequests := None\<rparr>) s;
               s = log_event (Thread_pool_wakeup port) s in
           do { s \<leftarrow> (if ip_nsrequest p \<noteq> IP_NULL then ipc_notify_send_once (ip_nsrequest p) s else Some s);
                s \<leftarrow> Some (log_event (Mqueue_destroyed port) s);
                s \<leftarrow> (case dnrequests of None \<Rightarrow> Some s | Some table \<Rightarrow> ipc_port_dnnotify table s);
                s \<leftarrow> Some (log_event (Kobject_destroyed port) s);
                s \<leftarrow> Some (if ip_subsystem p \<noteq> 0 then log_event (Subsystem_deallocated (ip_kobject p)) s else s);
                ipc_port_release port s } }"

definition in_transit :: "ipc_port \<Rightarrow> bool" where
  "in_transit p \<longleftrightarrow> io_active p \<and> io_receiver_name p = MACH_PORT_NULL \<and> ip_destination p \<noteq> IP_NULL"

text \<open>The end of a chain of ports in transit.\<close>

partial_function (option) ipc_port_chain_end :: "kernel \<Rightarrow> ipc_port_t \<Rightarrow> ipc_port_t option" where
  "ipc_port_chain_end s base =
    do { b \<leftarrow> ks_ports s base;
         if in_transit b then ipc_port_chain_end s (ip_destination b) else Some base }"

text \<open>The assertions while the chain is unlocked: up to null, and up to the base.\<close>

partial_function (option) ipc_port_unlock_circle :: "kernel \<Rightarrow> ipc_port_t \<Rightarrow> unit option" where
  "ipc_port_unlock_circle s dest =
    (if dest = IP_NULL then Some ()
     else
       do { d \<leftarrow> ks_ports s dest;
            kassert (io_active d);
            kassert (io_receiver_name d = MACH_PORT_NULL);
            ipc_port_unlock_circle s (ip_destination d) })"

partial_function (option) ipc_port_unlock_chain :: "kernel \<Rightarrow> ipc_port_t \<Rightarrow> ipc_port_t \<Rightarrow> unit option" where
  "ipc_port_unlock_chain s port base =
    (if port = base then Some ()
     else
       do { p \<leftarrow> ks_ports s port;
            kassert (in_transit p);
            ipc_port_unlock_chain s (ip_destination p) base })"

definition ipc_port_check_circularity ::
  "ipc_port_t \<Rightarrow> ipc_port_t \<Rightarrow> kernel \<Rightarrow> (bool \<times> kernel) option" where
  "ipc_port_check_circularity port dest s =
    do { kassert (port \<noteq> IP_NULL);
         kassert (dest \<noteq> IP_NULL);
         if port = dest then Some (True, s)
         else
           do { d \<leftarrow> ks_ports s dest;
                base \<leftarrow> (if \<not> in_transit d then Some dest else ipc_port_chain_end s dest);
                p \<leftarrow> ks_ports s port;
                kassert (io_active p);
                kassert (io_receiver_name p = MACH_PORT_NULL);
                kassert (ip_destination p = IP_NULL);
                if port = base then
                  do { ipc_port_unlock_circle s dest; Some (True, s) }
                else
                  do { s \<leftarrow> ip_reference dest s;
                       s \<leftarrow> upd_port port (\<lambda>p. p\<lparr>ip_destination := dest\<rparr>) s;
                       ipc_port_unlock_chain s port base;
                       b \<leftarrow> ks_ports s base;
                       kassert (\<not> in_transit b);
                       Some (False, s) } } }"

text \<open>\<^verbatim>\<open>ipc_port_destroy\<close> and, inside it, \<^verbatim>\<open>ipc_notify_port_destroyed\<close>, which calls it again
  (through \<^verbatim>\<open>ipc_port_release_receive\<close>) when there is no memory for the notification.\<close>

partial_function (option) ipc_port_destroy :: "ipc_port_t \<Rightarrow> kernel \<Rightarrow> kernel option" where
  "ipc_port_destroy port s =
    do { p \<leftarrow> ks_ports s port;
         kassert (io_active p);
         kassert (ip_pset_count p = 0);
         kassert (ip_mscount p = 0);
         let pdrequest = ip_pdrequest p in
         if pdrequest = IP_NULL then ipc_port_kill port s
         else
           do { (circular, s) \<leftarrow>
                  ipc_port_check_circularity port pdrequest
                    (put_port port (p\<lparr>ip_pdrequest := IP_NULL, io_receiver_name := MACH_PORT_NULL,
                                      ip_destination := IP_NULL\<rparr>) s);
                if \<not> circular then
                  (case kalloc s of (kmsg, s) \<Rightarrow>
                     if kmsg \<noteq> 0 then Some (log_event (Sent_port_destroyed pdrequest port) s)
                     else
                       do { s \<leftarrow> ipc_port_release_sonce pdrequest s;
                            kassert (IP_VALID port);
                            p \<leftarrow> ks_ports s port;
                            kassert (io_active p);
                            kassert (io_receiver_name p = MACH_PORT_NULL);
                            s \<leftarrow> ipc_port_destroy port s;
                            if ip_destination p \<noteq> IP_NULL then ipc_port_release (ip_destination p) s
                            else Some s })
                else
                  do { s \<leftarrow> ipc_port_release_sonce pdrequest s;
                       p \<leftarrow> ks_ports s port;
                       kassert (io_active p);
                       kassert (ip_pset_count p = 0);
                       kassert (ip_mscount p = 0);
                       kassert (ip_pdrequest p = IP_NULL);
                       kassert (io_receiver_name p = MACH_PORT_NULL);
                       kassert (ip_destination p = IP_NULL);
                       ipc_port_kill port s } } }"

definition ipc_port_release_receive :: "ipc_port_t \<Rightarrow> kernel \<Rightarrow> kernel option" where
  "ipc_port_release_receive port s =
    do { kassert (IP_VALID port);
         p \<leftarrow> ks_ports s port;
         kassert (io_active p);
         kassert (io_receiver_name p = MACH_PORT_NULL);
         let dest = ip_destination p in
         do { s \<leftarrow> ipc_port_destroy port s;
              if dest \<noteq> IP_NULL then ipc_port_release dest s else Some s } }"

section \<open>Naked rights\<close>

definition ipc_port_make_send :: "ipc_port_t \<Rightarrow> kernel \<Rightarrow> (ipc_port_t \<times> kernel) option" where
  "ipc_port_make_send port s =
    do { kassert (IP_VALID port);
         p \<leftarrow> ks_ports s port;
         kassert (io_active p);
         s \<leftarrow> upd_port port (\<lambda>p. p\<lparr>ip_mscount := ip_mscount p + 1, ip_srights := ip_srights p + 1\<rparr>) s;
         s \<leftarrow> ip_reference port s;
         Some (port, s) }"

definition ipc_port_copy_send :: "ipc_port_t \<Rightarrow> kernel \<Rightarrow> (ipc_port_t \<times> kernel) option" where
  "ipc_port_copy_send port s =
    (if \<not> IP_VALID port then Some (port, s)
     else
       do { p \<leftarrow> ks_ports s port;
            if io_active p then
              do { kassert (0 < ip_srights p);
                   s \<leftarrow> ip_reference port s;
                   s \<leftarrow> upd_port port (\<lambda>p. p\<lparr>ip_srights := ip_srights p + 1\<rparr>) s;
                   Some (port, s) }
            else Some (IP_DEAD, s) })"

text \<open>\<^verbatim>\<open>if (--port->ip_srights == 0 && port->ip_nsrequest != IP_NULL)\<close>: the last send right is
  gone, and a no-senders notification is sent if one was requested.\<close>

definition ipc_port_drop_send :: "ipc_port_t \<Rightarrow> kernel \<Rightarrow> kernel option" where
  "ipc_port_drop_send port s =
    do { p \<leftarrow> ks_ports s port;
         kassert (0 < ip_srights p);
         let srights = ip_srights p - 1 in
         if srights = 0 \<and> ip_nsrequest p \<noteq> IP_NULL then
           ipc_notify_no_senders (ip_nsrequest p) (ip_mscount p)
             (put_port port (p\<lparr>ip_srights := srights, ip_nsrequest := IP_NULL\<rparr>) s)
         else Some (put_port port (p\<lparr>ip_srights := srights\<rparr>) s) }"

definition ipc_port_release_send :: "ipc_port_t \<Rightarrow> kernel \<Rightarrow> kernel option" where
  "ipc_port_release_send port s =
    do { kassert (IP_VALID port);
         s \<leftarrow> ip_release port s;
         p \<leftarrow> ks_ports s port;
         if \<not> io_active p then ip_check_unlock port s else ipc_port_drop_send port s }"

definition ipc_port_make_sonce :: "ipc_port_t \<Rightarrow> kernel \<Rightarrow> (ipc_port_t \<times> kernel) option" where
  "ipc_port_make_sonce port s =
    do { kassert (IP_VALID port);
         p \<leftarrow> ks_ports s port;
         kassert (io_active p);
         s \<leftarrow> upd_port port (\<lambda>p. p\<lparr>ip_sorights := ip_sorights p + 1\<rparr>) s;
         s \<leftarrow> ip_reference port s;
         Some (port, s) }"

section \<open>Ports of special spaces\<close>

definition ipc_port_blank :: ipc_port where
  "ipc_port_blank = \<lparr>io_references = 0, io_bits = 0, io_receiver_name = 0, ip_data = 0, ip_kobject = 0,
     ip_subsystem = 0, ip_mscount = 0, ip_srights = 0, ip_sorights = 0, ip_nsrequest = 0,
     ip_pdrequest = 0, ip_dnrequests = None, ip_pset_count = 0, ip_messages = ipc_mqueue_init, ip_flags = 0\<rparr>"

definition ipc_port_alloc_special :: "ipc_space_t \<Rightarrow> kernel \<Rightarrow> ipc_port_t \<times> kernel" where
  "ipc_port_alloc_special space s =
    (case kalloc s of (port, s) \<Rightarrow>
       if port = IP_NULL then (IP_NULL, s)
       else (port, put_port port
               (ipc_port_init space 1
                 (ipc_port_blank\<lparr>io_references := 1, io_bits := io_makebits True IOT_PORT 0\<rparr>)) s))"

definition ipc_port_dealloc_special :: "ipc_port_t \<Rightarrow> ipc_space_t \<Rightarrow> kernel \<Rightarrow> kernel option" where
  "ipc_port_dealloc_special port space s =
    do { p \<leftarrow> ks_ports s port;
         kassert (io_active p);
         kassert (io_receiver_name p \<noteq> MACH_PORT_NULL);
         kassert (ip_receiver p = space);
         s \<leftarrow> upd_port port (\<lambda>p. p\<lparr>io_receiver_name := MACH_PORT_NULL, ip_receiver := 0\<rparr>) s;
         s \<leftarrow> ipc_port_set_mscount port 0 s;
         s \<leftarrow> upd_port port (\<lambda>p. p\<lparr>ip_messages := (ip_messages p)\<lparr>imq_seqno := 0\<rparr>\<rparr>) s;
         ipc_port_destroy port s }"

end
