(* ===== verification/Ipc_Right.thy ===== *)
theory Ipc_Right
  imports Ipc_Entry Ipc_Port
begin

text \<open>
  The operations on the rights that an entry denotes (\<^verbatim>\<open>osfmk/ipc/ipc_right.c\<close>): dead-name
  requests, the conversion of an entry whose port has died, destruction, the user references,
  copyin (a right leaves the space and becomes naked) and copyout (a naked right enters it),
  and renaming. The bits of an entry that a C routine has read into a local variable are a
  parameter or a bound variable here, like in the code.
\<close>

datatype mach_msg_type_name_t =
    MACH_MSG_TYPE_MOVE_RECEIVE | MACH_MSG_TYPE_MOVE_SEND | MACH_MSG_TYPE_MOVE_SEND_ONCE
  | MACH_MSG_TYPE_COPY_SEND | MACH_MSG_TYPE_MAKE_SEND | MACH_MSG_TYPE_MAKE_SEND_ONCE
  | MACH_MSG_TYPE_COPY_RECEIVE

abbreviation (input) "MACH_MSG_TYPE_PORT_RECEIVE \<equiv> MACH_MSG_TYPE_MOVE_RECEIVE"
abbreviation (input) "MACH_MSG_TYPE_PORT_SEND \<equiv> MACH_MSG_TYPE_MOVE_SEND"
abbreviation (input) "MACH_MSG_TYPE_PORT_SEND_ONCE \<equiv> MACH_MSG_TYPE_MOVE_SEND_ONCE"

section \<open>Lookup\<close>

definition ipc_right_lookup_write ::
  "ipc_space_t \<Rightarrow> mach_port_name_t \<Rightarrow> kernel \<Rightarrow> ((kern_return_t + ipc_entry_t) \<times> kernel) option" where
  "ipc_right_lookup_write space name s =
    do { sp \<leftarrow> ks_spaces s space;
         if \<not> is_active sp then Some (Inl KERN_INVALID_TASK, s)
         else
           do { (r, sp) \<leftarrow> ipc_entry_lookup sp name;
                Some (case r of None \<Rightarrow> Inl KERN_INVALID_NAME | Some entry \<Rightarrow> Inr entry,
                      put_space space sp s) } }"

definition ipc_right_reverse ::
  "ipc_space_t \<Rightarrow> ipc_object_t \<Rightarrow> kernel \<Rightarrow>
   ((mach_port_name_t \<times> ipc_entry_t) option \<times> kernel) option" where
  "ipc_right_reverse space object s =
    do { sp \<leftarrow> ks_spaces s space;
         kassert (is_active sp);
         port \<leftarrow> ks_ports s object;
         kassert (io_otype port = IOT_PORT);
         if \<not> io_active port then Some (None, s)
         else if ip_receiver port = space then
           do { kassert (io_receiver_name port \<noteq> MACH_PORT_NULL);
                (r, sp) \<leftarrow> ipc_entry_lookup sp (io_receiver_name port);
                entry \<leftarrow> r;
                e \<leftarrow> is_entry sp entry;
                kassert (has (ie_bits e) MACH_PORT_TYPE_RECEIVE);
                kassert (object = ie_object e);
                Some (Some (io_receiver_name port, entry), put_space space sp s) }
         else
           do { (r, s) \<leftarrow> ipc_hash_lookup space object s;
                case r of
                  None \<Rightarrow> Some (None, s)
                | Some (name, entry) \<Rightarrow>
                    do { e \<leftarrow> get_entry space entry s;
                         kassert (IE_BITS_TYPE (ie_bits e) = MACH_PORT_TYPE_SEND);
                         kassert (object = ie_object e);
                         Some (Some (name, entry), s) } } }"

section \<open>Dead ports and dead-name requests\<close>

definition ipc_right_dncancel ::
  "ipc_space_t \<Rightarrow> ipc_port_t \<Rightarrow> mach_port_name_t \<Rightarrow> ipc_entry_t \<Rightarrow> kernel \<Rightarrow> (ipc_port_t \<times> kernel) option" where
  "ipc_right_dncancel space port name entry s =
    do { p \<leftarrow> ks_ports s port;
         e \<leftarrow> get_entry space entry s;
         kassert (io_active p);
         kassert (port = ie_object e);
         (dnrequest, s) \<leftarrow> ipc_port_dncancel port name (ie_request e) s;
         s \<leftarrow> upd_entry space entry (ie_request_update (\<lambda>_. 0)) s;
         Some (dnrequest, s) }"

definition ipc_right_dncancel_macro ::
  "ipc_space_t \<Rightarrow> ipc_port_t \<Rightarrow> mach_port_name_t \<Rightarrow> ipc_entry_t \<Rightarrow> kernel \<Rightarrow> (ipc_port_t \<times> kernel) option" where
  "ipc_right_dncancel_macro space port name entry s =
    do { e \<leftarrow> get_entry space entry s;
         if ie_request e = 0 then Some (IP_NULL, s)
         else ipc_right_dncancel space port name entry s }"

definition ipc_right_inuse :: "ipc_space_t \<Rightarrow> mach_port_name_t \<Rightarrow> ipc_entry_t \<Rightarrow> kernel \<Rightarrow> bool option" where
  "ipc_right_inuse space name entry s =
    do { e \<leftarrow> get_entry space entry s;
         Some (IE_BITS_TYPE (ie_bits e) \<noteq> MACH_PORT_TYPE_NONE) }"

definition ipc_right_check ::
  "ipc_space_t \<Rightarrow> ipc_port_t \<Rightarrow> mach_port_name_t \<Rightarrow> ipc_entry_t \<Rightarrow> kernel \<Rightarrow> (bool \<times> kernel) option" where
  "ipc_right_check space port name entry s =
    do { sp \<leftarrow> ks_spaces s space;
         kassert (is_active sp);
         e \<leftarrow> get_entry space entry s;
         kassert (port = ie_object e);
         p \<leftarrow> ks_ports s port;
         if io_active p then Some (False, s)
         else
           (let bits = ie_bits e in
            do { kassert (\<not> has bits MACH_PORT_TYPE_RECEIVE);
                 kassert (0 < IE_BITS_UREFS bits);
                 (if has bits MACH_PORT_TYPE_SEND then kassert (IE_BITS_TYPE bits = MACH_PORT_TYPE_SEND)
                  else
                    do { kassert (IE_BITS_TYPE bits = MACH_PORT_TYPE_SEND_ONCE);
                         kassert (IE_BITS_UREFS bits = 1) });
                 s \<leftarrow> ipc_port_release port s;
                 s \<leftarrow> (if has bits MACH_PORT_TYPE_SEND \<and> \<not> has bits MACH_PORT_TYPE_RECEIVE
                      then ipc_hash_delete space port name entry s else Some s);
                 let bits = bits_clear bits IE_BITS_TYPE_MASK OR MACH_PORT_TYPE_DEAD_NAME in
                 do { bits \<leftarrow>
                        (if ie_request e \<noteq> 0 then
                           do { kassert (IE_BITS_UREFS bits < MACH_PORT_UREFS_MAX); Some (bits + 1) }
                         else Some bits);
                      s \<leftarrow> upd_entry space entry
                            (\<lambda>e. e\<lparr>ie_request := 0, ie_bits := bits, ie_object := IO_NULL\<rparr>) s;
                      Some (True, s) } }) }"

text \<open>The part of \<^verbatim>\<open>ipc_right_dnrequest\<close> for a dead name.\<close>

definition ipc_right_dnrequest_dead ::
  "ipc_space_t \<Rightarrow> mach_port_name_t \<Rightarrow> bool \<Rightarrow> ipc_port_t \<Rightarrow> ipc_entry_t \<Rightarrow> u32 \<Rightarrow> kernel \<Rightarrow>
   ((kern_return_t + ipc_port_t) \<times> kernel) option" where
  "ipc_right_dnrequest_dead space name immediate notify entry bits s =
    (if has bits MACH_PORT_TYPE_DEAD_NAME \<and> immediate \<and> notify \<noteq> IP_NULL then
       (let urefs = IE_BITS_UREFS bits in
        do { kassert (IE_BITS_TYPE bits = MACH_PORT_TYPE_DEAD_NAME);
             kassert (0 < urefs);
             if MACH_PORT_UREFS_OVERFLOW urefs 1 then Some (Inl KERN_UREFS_OVERFLOW, s)
             else
               do { s \<leftarrow> upd_entry space entry (\<lambda>e. e\<lparr>ie_bits := ie_bits e + 1\<rparr>) s;
                    s \<leftarrow> ipc_notify_dead_name notify name s;
                    Some (Inr IP_NULL, s) } })
     else if has bits MACH_PORT_TYPE_PORT_OR_DEAD then Some (Inl KERN_INVALID_ARGUMENT, s)
     else Some (Inl KERN_INVALID_RIGHT, s))"

partial_function (option) ipc_right_dnrequest ::
  "ipc_space_t \<Rightarrow> mach_port_name_t \<Rightarrow> bool \<Rightarrow> ipc_port_t \<Rightarrow> kernel \<Rightarrow>
   ((kern_return_t + ipc_port_t) \<times> kernel) option" where
  "ipc_right_dnrequest space name immediate notify s =
    do { (r, s) \<leftarrow> ipc_right_lookup_write space name s;
         case r of
           Inl kr \<Rightarrow> Some (Inl kr, s)
         | Inr entry \<Rightarrow>
             do { e \<leftarrow> get_entry space entry s;
                  let bits = ie_bits e in
                  if has bits MACH_PORT_TYPE_PORT_RIGHTS then
                    (let port = ie_object e in
                     do { kassert (port \<noteq> IP_NULL);
                          (dead, s) \<leftarrow> ipc_right_check space port name entry s;
                          if \<not> dead then
                            do { (previous, s) \<leftarrow> ipc_right_dncancel_macro space port name entry s;
                                 if notify = IP_NULL then Some (Inr previous, s)
                                 else
                                   do { (r, s) \<leftarrow> ipc_port_dnrequest port name notify s;
                                        case r of
                                          Inl _ \<Rightarrow>
                                            do { kassert (previous = IP_NULL);
                                                 (kr, s) \<leftarrow> ipc_port_dngrow port None s;
                                                 if kr \<noteq> KERN_SUCCESS then Some (Inl kr, s)
                                                 else ipc_right_dnrequest space name immediate notify s }
                                        | Inr request \<Rightarrow>
                                            do { kassert (request \<noteq> 0);
                                                 s \<leftarrow> upd_entry space entry (ie_request_update (\<lambda>_. request)) s;
                                                 Some (Inr previous, s) } } }
                          else
                            do { e \<leftarrow> get_entry space entry s;
                                 let bits = ie_bits e in
                                 do { kassert (has bits MACH_PORT_TYPE_DEAD_NAME);
                                      ipc_right_dnrequest_dead space name immediate notify entry bits s } } })
                  else ipc_right_dnrequest_dead space name immediate notify entry bits s } }"

section \<open>Losing a send right\<close>

text \<open>\<^verbatim>\<open>if (--port->ip_srights == 0)\<close>: takes the no-senders request and the make-send count for
  the notification that is sent at the end of the routine.\<close>

definition ipc_right_lose_send ::
  "ipc_port_t \<Rightarrow> kernel \<Rightarrow> ((ipc_port_t \<times> u32) option \<times> kernel) option" where
  "ipc_right_lose_send port s =
    do { p \<leftarrow> ks_ports s port;
         let srights = ip_srights p - 1 in
         if srights = 0 \<and> ip_nsrequest p \<noteq> IP_NULL then
           Some (Some (ip_nsrequest p, ip_mscount p),
                 put_port port (p\<lparr>ip_srights := srights, ip_nsrequest := IP_NULL\<rparr>) s)
         else Some (None, put_port port (p\<lparr>ip_srights := srights\<rparr>) s) }"

text \<open>The notifications at the end.\<close>

definition ipc_right_notify ::
  "mach_port_name_t \<Rightarrow> (ipc_port_t \<times> u32) option \<Rightarrow> ipc_port_t \<Rightarrow> kernel \<Rightarrow> kernel option" where
  "ipc_right_notify name nsrequest dnrequest s =
    do { s \<leftarrow> (case nsrequest of None \<Rightarrow> Some s | Some (n, mscount) \<Rightarrow> ipc_notify_no_senders n mscount s);
         if dnrequest \<noteq> IP_NULL then ipc_notify_port_deleted dnrequest name s else Some s }"

section \<open>Cleaning and destroying\<close>

definition ipc_right_clean ::
  "ipc_space_t \<Rightarrow> mach_port_name_t \<Rightarrow> ipc_entry_t \<Rightarrow> kernel \<Rightarrow> kernel option" where
  "ipc_right_clean space name entry s =
    do { sp \<leftarrow> ks_spaces s space;
         e \<leftarrow> get_entry space entry s;
         let type = IE_BITS_TYPE (ie_bits e); object = ie_object e in
         do { kassert (\<not> is_active sp);
              if type = MACH_PORT_TYPE_DEAD_NAME then
                do { kassert (ie_request e = 0); kassert (object = IO_NULL); Some s }
              else if type = MACH_PORT_TYPE_PORT_SET then
                do { kassert (ie_request e = 0);
                     kassert (object \<noteq> 0);
                     ps \<leftarrow> ks_psets s object;
                     kassert (io_active ps);
                     ipc_pset_destroy object s }
              else if type = MACH_PORT_TYPE_SEND \<or> type = MACH_PORT_TYPE_RECEIVE \<or>
                      type = MACH_PORT_TYPE_SEND_RECEIVE \<or> type = MACH_PORT_TYPE_SEND_ONCE then
                do { kassert (object \<noteq> IP_NULL);
                     p \<leftarrow> ks_ports s object;
                     if \<not> io_active p then
                       do { s \<leftarrow> ip_release object s; ip_check_unlock object s }
                     else
                       do { (dnrequest, s) \<leftarrow> ipc_right_dncancel_macro space object name entry s;
                            (nsrequest, s) \<leftarrow>
                              (if has type MACH_PORT_TYPE_SEND then
                                 do { p \<leftarrow> ks_ports s object;
                                      kassert (0 < ip_srights p);
                                      ipc_right_lose_send object s }
                               else Some (None, s));
                            p \<leftarrow> ks_ports s object;
                            s \<leftarrow>
                              (if has type MACH_PORT_TYPE_RECEIVE then
                                 do { kassert (io_receiver_name p = name);
                                      kassert (ip_receiver p = space);
                                      s \<leftarrow> ipc_port_clear_receiver object s;
                                      ipc_port_destroy object s }
                               else if has type MACH_PORT_TYPE_SEND_ONCE then
                                 do { kassert (0 < ip_sorights p); ipc_notify_send_once object s }
                               else
                                 do { kassert (ip_receiver p \<noteq> space); ip_release object s });
                            ipc_right_notify name nsrequest dnrequest s } }
              else None } }"

definition ipc_right_destroy ::
  "ipc_space_t \<Rightarrow> mach_port_name_t \<Rightarrow> ipc_entry_t \<Rightarrow> kernel \<Rightarrow> (kern_return_t \<times> kernel) option" where
  "ipc_right_destroy space name entry s =
    do { sp \<leftarrow> ks_spaces s space;
         e \<leftarrow> get_entry space entry s;
         let type = IE_BITS_TYPE (ie_bits e); object = ie_object e in
         do { s \<leftarrow> upd_entry space entry (\<lambda>e. e\<lparr>ie_bits := bits_clear (ie_bits e) IE_BITS_TYPE_MASK\<rparr>) s;
              kassert (is_active sp);
              s \<leftarrow>
                (if type = MACH_PORT_TYPE_DEAD_NAME then
                   do { kassert (ie_request e = 0);
                        kassert (object = IO_NULL);
                        ipc_entry_dealloc space name entry s }
                 else if type = MACH_PORT_TYPE_PORT_SET then
                   do { kassert (ie_request e = 0);
                        kassert (object \<noteq> 0);
                        s \<leftarrow> upd_entry space entry (ie_object_update (\<lambda>_. IO_NULL)) s;
                        s \<leftarrow> ipc_entry_dealloc space name entry s;
                        ps \<leftarrow> ks_psets s object;
                        kassert (io_active ps);
                        ipc_pset_destroy object s }
                 else if type = MACH_PORT_TYPE_SEND \<or> type = MACH_PORT_TYPE_RECEIVE \<or>
                         type = MACH_PORT_TYPE_SEND_RECEIVE \<or> type = MACH_PORT_TYPE_SEND_ONCE then
                   do { kassert (object \<noteq> IP_NULL);
                        s \<leftarrow> (if type = MACH_PORT_TYPE_SEND then ipc_hash_delete space object name entry s
                             else Some s);
                        p \<leftarrow> ks_ports s object;
                        if \<not> io_active p then
                          do { kassert (\<not> has type MACH_PORT_TYPE_RECEIVE);
                               s \<leftarrow> ip_release object s;
                               s \<leftarrow> ip_check_unlock object s;
                               s \<leftarrow> upd_entry space entry (\<lambda>e. e\<lparr>ie_request := 0, ie_object := IO_NULL\<rparr>) s;
                               ipc_entry_dealloc space name entry s }
                        else
                          do { (dnrequest, s) \<leftarrow> ipc_right_dncancel_macro space object name entry s;
                               s \<leftarrow> upd_entry space entry (ie_object_update (\<lambda>_. IO_NULL)) s;
                               s \<leftarrow> ipc_entry_dealloc space name entry s;
                               (nsrequest, s) \<leftarrow>
                                 (if has type MACH_PORT_TYPE_SEND then
                                    do { p \<leftarrow> ks_ports s object;
                                         kassert (0 < ip_srights p);
                                         ipc_right_lose_send object s }
                                  else Some (None, s));
                               p \<leftarrow> ks_ports s object;
                               s \<leftarrow>
                                 (if has type MACH_PORT_TYPE_RECEIVE then
                                    do { kassert (io_active p);
                                         kassert (ip_receiver p = space);
                                         s \<leftarrow> Some (if ip_subsystem p \<noteq> 0
                                                   then log_event (Subsystem_deallocated (ip_subsystem p)) s else s);
                                         s \<leftarrow> ipc_port_clear_receiver object s;
                                         ipc_port_destroy object s }
                                  else if has type MACH_PORT_TYPE_SEND_ONCE then
                                    do { kassert (0 < ip_sorights p); ipc_notify_send_once object s }
                                  else
                                    do { kassert (ip_receiver p \<noteq> space); ip_release object s });
                               ipc_right_notify name nsrequest dnrequest s } }
                 else None);
              Some (KERN_SUCCESS, s) } }"

section \<open>Releasing one user reference\<close>

text \<open>The label \<^verbatim>\<open>dead_name\<close> of \<^verbatim>\<open>ipc_right_dealloc\<close>.\<close>

definition ipc_right_dealloc_dead ::
  "ipc_space_t \<Rightarrow> mach_port_name_t \<Rightarrow> ipc_entry_t \<Rightarrow> kernel \<Rightarrow> (kern_return_t \<times> kernel) option" where
  "ipc_right_dealloc_dead space name entry s =
    do { e \<leftarrow> get_entry space entry s;
         kassert (0 < IE_BITS_UREFS (ie_bits e));
         kassert (ie_request e = 0);
         kassert (ie_object e = IO_NULL);
         s \<leftarrow> (if IE_BITS_UREFS (ie_bits e) = 1 then ipc_entry_dealloc space name entry s
              else upd_entry space entry (\<lambda>e. e\<lparr>ie_bits := ie_bits e - 1\<rparr>) s);
         Some (KERN_SUCCESS, s) }"

definition ipc_right_dealloc_sonce ::
  "ipc_space_t \<Rightarrow> mach_port_name_t \<Rightarrow> ipc_entry_t \<Rightarrow> kernel \<Rightarrow> (kern_return_t \<times> kernel) option" where
  "ipc_right_dealloc_sonce space name entry s =
    do { e \<leftarrow> get_entry space entry s;
         kassert (IE_BITS_UREFS (ie_bits e) = 1);
         let port = ie_object e in
         do { kassert (port \<noteq> IP_NULL);
              (dead, s) \<leftarrow> ipc_right_check space port name entry s;
              if dead then
                do { e \<leftarrow> get_entry space entry s;
                     kassert (IE_BITS_TYPE (ie_bits e) = MACH_PORT_TYPE_DEAD_NAME);
                     ipc_right_dealloc_dead space name entry s }
              else
                do { p \<leftarrow> ks_ports s port;
                     kassert (0 < ip_sorights p);
                     (dnrequest, s) \<leftarrow> ipc_right_dncancel_macro space port name entry s;
                     s \<leftarrow> upd_entry space entry (ie_object_update (\<lambda>_. IO_NULL)) s;
                     s \<leftarrow> ipc_entry_dealloc space name entry s;
                     s \<leftarrow> ipc_notify_send_once port s;
                     s \<leftarrow> ipc_right_notify name None dnrequest s;
                     Some (KERN_SUCCESS, s) } } }"

definition ipc_right_dealloc_send ::
  "ipc_space_t \<Rightarrow> mach_port_name_t \<Rightarrow> ipc_entry_t \<Rightarrow> kernel \<Rightarrow> (kern_return_t \<times> kernel) option" where
  "ipc_right_dealloc_send space name entry s =
    do { e \<leftarrow> get_entry space entry s;
         let bits = ie_bits e; port = ie_object e in
         do { kassert (0 < IE_BITS_UREFS bits);
              kassert (port \<noteq> IP_NULL);
              (dead, s) \<leftarrow> ipc_right_check space port name entry s;
              if dead then
                do { e \<leftarrow> get_entry space entry s;
                     kassert (IE_BITS_TYPE (ie_bits e) = MACH_PORT_TYPE_DEAD_NAME);
                     ipc_right_dealloc_dead space name entry s }
              else
                do { p \<leftarrow> ks_ports s port;
                     kassert (0 < ip_srights p);
                     if IE_BITS_UREFS bits = 1 then
                       do { (nsrequest, s) \<leftarrow> ipc_right_lose_send port s;
                            (dnrequest, s) \<leftarrow> ipc_right_dncancel_macro space port name entry s;
                            s \<leftarrow> ipc_hash_delete space port name entry s;
                            s \<leftarrow> ip_release port s;
                            s \<leftarrow> upd_entry space entry (ie_object_update (\<lambda>_. IO_NULL)) s;
                            s \<leftarrow> ipc_entry_dealloc space name entry s;
                            s \<leftarrow> ipc_right_notify name nsrequest dnrequest s;
                            Some (KERN_SUCCESS, s) }
                     else
                       do { s \<leftarrow> upd_entry space entry (ie_bits_update (\<lambda>_. bits - 1)) s;
                            Some (KERN_SUCCESS, s) } } } }"

definition ipc_right_dealloc_send_receive ::
  "ipc_space_t \<Rightarrow> mach_port_name_t \<Rightarrow> ipc_entry_t \<Rightarrow> kernel \<Rightarrow> (kern_return_t \<times> kernel) option" where
  "ipc_right_dealloc_send_receive space name entry s =
    do { e \<leftarrow> get_entry space entry s;
         let bits = ie_bits e; port = ie_object e in
         do { kassert (0 < IE_BITS_UREFS bits);
              kassert (port \<noteq> IP_NULL);
              p \<leftarrow> ks_ports s port;
              kassert (io_active p);
              kassert (io_receiver_name p = name);
              kassert (ip_receiver p = space);
              kassert (0 < ip_srights p);
              (nsrequest, s) \<leftarrow>
                (if IE_BITS_UREFS bits = 1 then
                   do { (nsrequest, s) \<leftarrow> ipc_right_lose_send port s;
                        s \<leftarrow> upd_entry space entry
                              (ie_bits_update (\<lambda>_. bits_clear bits (IE_BITS_UREFS_MASK OR MACH_PORT_TYPE_SEND))) s;
                        Some (nsrequest, s) }
                 else
                   do { s \<leftarrow> upd_entry space entry (ie_bits_update (\<lambda>_. bits - 1)) s; Some (None, s) });
              s \<leftarrow> ipc_right_notify name nsrequest IP_NULL s;
              Some (KERN_SUCCESS, s) } }"

definition ipc_right_dealloc ::
  "ipc_space_t \<Rightarrow> mach_port_name_t \<Rightarrow> ipc_entry_t \<Rightarrow> kernel \<Rightarrow> (kern_return_t \<times> kernel) option" where
  "ipc_right_dealloc space name entry s =
    do { sp \<leftarrow> ks_spaces s space;
         e \<leftarrow> get_entry space entry s;
         kassert (is_active sp);
         let type = IE_BITS_TYPE (ie_bits e) in
         if type = MACH_PORT_TYPE_DEAD_NAME then ipc_right_dealloc_dead space name entry s
         else if type = MACH_PORT_TYPE_SEND_ONCE then ipc_right_dealloc_sonce space name entry s
         else if type = MACH_PORT_TYPE_SEND then ipc_right_dealloc_send space name entry s
         else if type = MACH_PORT_TYPE_SEND_RECEIVE then ipc_right_dealloc_send_receive space name entry s
         else Some (KERN_INVALID_RIGHT, s) }"

section \<open>Changing the user references\<close>

definition ipc_right_delta_port_set ::
  "ipc_space_t \<Rightarrow> mach_port_name_t \<Rightarrow> ipc_entry_t \<Rightarrow> u32 \<Rightarrow> kernel \<Rightarrow> (kern_return_t \<times> kernel) option" where
  "ipc_right_delta_port_set space name entry delta s =
    do { e \<leftarrow> get_entry space entry s;
         let bits = ie_bits e; pset = ie_object e in
         if \<not> has bits MACH_PORT_TYPE_PORT_SET then Some (KERN_INVALID_RIGHT, s)
         else
           do { kassert (IE_BITS_TYPE bits = MACH_PORT_TYPE_PORT_SET);
                kassert (IE_BITS_UREFS bits = 0);
                kassert (ie_request e = 0);
                if delta = 0 then Some (KERN_SUCCESS, s)
                else if delta \<noteq> - 1 then Some (KERN_INVALID_VALUE, s)
                else
                  do { kassert (pset \<noteq> 0);
                       s \<leftarrow> upd_entry space entry (ie_object_update (\<lambda>_. IO_NULL)) s;
                       s \<leftarrow> ipc_entry_dealloc space name entry s;
                       ps \<leftarrow> ks_psets s pset;
                       kassert (io_active ps);
                       s \<leftarrow> ipc_pset_destroy pset s;
                       Some (KERN_SUCCESS, s) } } }"

definition ipc_right_delta_receive ::
  "ipc_space_t \<Rightarrow> mach_port_name_t \<Rightarrow> ipc_entry_t \<Rightarrow> u32 \<Rightarrow> kernel \<Rightarrow> (kern_return_t \<times> kernel) option" where
  "ipc_right_delta_receive space name entry delta s =
    do { e \<leftarrow> get_entry space entry s;
         let bits = ie_bits e; port = ie_object e in
         if \<not> has bits MACH_PORT_TYPE_RECEIVE then Some (KERN_INVALID_RIGHT, s)
         else if delta = 0 then Some (KERN_SUCCESS, s)
         else if delta \<noteq> - 1 then Some (KERN_INVALID_VALUE, s)
         else
           do { kassert (port \<noteq> IP_NULL);
                p \<leftarrow> ks_ports s port;
                kassert (io_active p);
                kassert (io_receiver_name p = name);
                kassert (ip_receiver p = space);
                (dnrequest, s) \<leftarrow>
                  (if has bits MACH_PORT_TYPE_SEND then
                     do { kassert (IE_BITS_TYPE bits = MACH_PORT_TYPE_SEND_RECEIVE);
                          kassert (0 < IE_BITS_UREFS bits);
                          kassert (IE_BITS_UREFS bits < MACH_PORT_UREFS_MAX);
                          kassert (0 < ip_srights p);
                          let bits = bits_clear bits IE_BITS_TYPE_MASK OR MACH_PORT_TYPE_DEAD_NAME;
                              bits = (if ie_request e \<noteq> 0 then bits + 1 else bits) in
                          do { s \<leftarrow> upd_entry space entry
                                     (\<lambda>e. e\<lparr>ie_request := 0, ie_bits := bits, ie_object := IO_NULL\<rparr>) s;
                               Some (IP_NULL, s) } }
                   else
                     do { kassert (IE_BITS_TYPE bits = MACH_PORT_TYPE_RECEIVE);
                          kassert (IE_BITS_UREFS bits = 0);
                          (dnrequest, s) \<leftarrow> ipc_right_dncancel_macro space port name entry s;
                          s \<leftarrow> upd_entry space entry (ie_object_update (\<lambda>_. IO_NULL)) s;
                          s \<leftarrow> ipc_entry_dealloc space name entry s;
                          Some (dnrequest, s) });
                s \<leftarrow> ipc_port_clear_receiver port s;
                s \<leftarrow> ipc_port_destroy port s;
                s \<leftarrow> ipc_right_notify name None dnrequest s;
                Some (KERN_SUCCESS, s) } }"

definition ipc_right_delta_send_once ::
  "ipc_space_t \<Rightarrow> mach_port_name_t \<Rightarrow> ipc_entry_t \<Rightarrow> u32 \<Rightarrow> kernel \<Rightarrow> (kern_return_t \<times> kernel) option" where
  "ipc_right_delta_send_once space name entry delta s =
    do { e \<leftarrow> get_entry space entry s;
         let bits = ie_bits e; port = ie_object e in
         if \<not> has bits MACH_PORT_TYPE_SEND_ONCE then Some (KERN_INVALID_RIGHT, s)
         else
           do { kassert (IE_BITS_TYPE bits = MACH_PORT_TYPE_SEND_ONCE);
                kassert (IE_BITS_UREFS bits = 1);
                kassert (port \<noteq> IP_NULL);
                (dead, s) \<leftarrow> ipc_right_check space port name entry s;
                if dead then
                  do { e \<leftarrow> get_entry space entry s;
                       kassert (\<not> has (ie_bits e) MACH_PORT_TYPE_SEND_ONCE);
                       Some (KERN_INVALID_RIGHT, s) }
                else
                  do { p \<leftarrow> ks_ports s port;
                       kassert (0 < ip_sorights p);
                       if 0 <s delta \<or> delta <s - 1 then Some (KERN_INVALID_VALUE, s)
                       else if delta = 0 then Some (KERN_SUCCESS, s)
                       else
                         do { (dnrequest, s) \<leftarrow> ipc_right_dncancel_macro space port name entry s;
                              s \<leftarrow> upd_entry space entry (ie_object_update (\<lambda>_. IO_NULL)) s;
                              s \<leftarrow> ipc_entry_dealloc space name entry s;
                              s \<leftarrow> ipc_notify_send_once port s;
                              s \<leftarrow> ipc_right_notify name None dnrequest s;
                              Some (KERN_SUCCESS, s) } } } }"

text \<open>The case MACH_PORT_RIGHT_DEAD_NAME from the assertions on, when the entry is a dead name.\<close>

definition ipc_right_delta_dead ::
  "ipc_space_t \<Rightarrow> mach_port_name_t \<Rightarrow> ipc_entry_t \<Rightarrow> u32 \<Rightarrow> kernel \<Rightarrow> (kern_return_t \<times> kernel) option" where
  "ipc_right_delta_dead space name entry delta s =
    do { e \<leftarrow> get_entry space entry s;
         let bits = ie_bits e; urefs = IE_BITS_UREFS bits in
         do { kassert (IE_BITS_TYPE bits = MACH_PORT_TYPE_DEAD_NAME);
              kassert (0 < urefs);
              kassert (ie_object e = IO_NULL);
              kassert (ie_request e = 0);
              if MACH_PORT_UREFS_UNDERFLOW urefs delta then Some (KERN_INVALID_VALUE, s)
              else if MACH_PORT_UREFS_OVERFLOW urefs delta then Some (KERN_UREFS_OVERFLOW, s)
              else
                do { s \<leftarrow> (if urefs + delta = 0 then ipc_entry_dealloc space name entry s
                          else upd_entry space entry (ie_bits_update (\<lambda>_. bits + delta)) s);
                     Some (KERN_SUCCESS, s) } } }"

definition ipc_right_delta_dead_name ::
  "ipc_space_t \<Rightarrow> mach_port_name_t \<Rightarrow> ipc_entry_t \<Rightarrow> u32 \<Rightarrow> kernel \<Rightarrow> (kern_return_t \<times> kernel) option" where
  "ipc_right_delta_dead_name space name entry delta s =
    do { e \<leftarrow> get_entry space entry s;
         let bits = ie_bits e in
         if has bits MACH_PORT_TYPE_SEND_RIGHTS then
           do { kassert (ie_object e \<noteq> IP_NULL);
                (dead, s) \<leftarrow> ipc_right_check space (ie_object e) name entry s;
                if \<not> dead then Some (KERN_INVALID_RIGHT, s)
                else ipc_right_delta_dead space name entry delta s }
         else if \<not> has bits MACH_PORT_TYPE_DEAD_NAME then Some (KERN_INVALID_RIGHT, s)
         else ipc_right_delta_dead space name entry delta s }"

text \<open>The case MACH_PORT_RIGHT_SEND, when the last user reference is given up.\<close>

definition ipc_right_delta_last_send ::
  "ipc_space_t \<Rightarrow> mach_port_name_t \<Rightarrow> ipc_entry_t \<Rightarrow> u32 \<Rightarrow> ipc_port_t \<Rightarrow> kernel \<Rightarrow> kernel option" where
  "ipc_right_delta_last_send space name entry bits port s =
    do { (nsrequest, s) \<leftarrow> ipc_right_lose_send port s;
         (dnrequest, s) \<leftarrow>
           (if has bits MACH_PORT_TYPE_RECEIVE then
              do { p \<leftarrow> ks_ports s port;
                   kassert (io_receiver_name p = name);
                   kassert (ip_receiver p = space);
                   kassert (IE_BITS_TYPE bits = MACH_PORT_TYPE_SEND_RECEIVE);
                   s \<leftarrow> upd_entry space entry
                         (ie_bits_update (\<lambda>_. bits_clear bits (IE_BITS_UREFS_MASK OR MACH_PORT_TYPE_SEND))) s;
                   Some (IP_NULL, s) }
            else
              do { kassert (IE_BITS_TYPE bits = MACH_PORT_TYPE_SEND);
                   (dnrequest, s) \<leftarrow> ipc_right_dncancel_macro space port name entry s;
                   s \<leftarrow> ipc_hash_delete space port name entry s;
                   s \<leftarrow> ip_release port s;
                   s \<leftarrow> upd_entry space entry (ie_object_update (\<lambda>_. IO_NULL)) s;
                   s \<leftarrow> ipc_entry_dealloc space name entry s;
                   Some (dnrequest, s) });
         ipc_right_notify name nsrequest dnrequest s }"

definition ipc_right_delta_send ::
  "ipc_space_t \<Rightarrow> mach_port_name_t \<Rightarrow> ipc_entry_t \<Rightarrow> u32 \<Rightarrow> kernel \<Rightarrow> (kern_return_t \<times> kernel) option" where
  "ipc_right_delta_send space name entry delta s =
    do { e \<leftarrow> get_entry space entry s;
         let bits = ie_bits e; port = ie_object e in
         if \<not> has bits MACH_PORT_TYPE_SEND then Some (KERN_INVALID_RIGHT, s)
         else
           do { kassert (port \<noteq> IP_NULL);
                (dead, s) \<leftarrow> ipc_right_check space port name entry s;
                if dead then
                  do { e \<leftarrow> get_entry space entry s;
                       kassert (\<not> has (ie_bits e) MACH_PORT_TYPE_SEND);
                       Some (KERN_INVALID_RIGHT, s) }
                else
                  do { p \<leftarrow> ks_ports s port;
                       kassert (0 < ip_srights p);
                       let urefs = IE_BITS_UREFS bits in
                       if MACH_PORT_UREFS_UNDERFLOW urefs delta then Some (KERN_INVALID_VALUE, s)
                       else if MACH_PORT_UREFS_OVERFLOW (urefs + 1) delta then Some (KERN_UREFS_OVERFLOW, s)
                       else
                         do { s \<leftarrow> (if urefs + delta = 0 then ipc_right_delta_last_send space name entry bits port s
                                   else upd_entry space entry (ie_bits_update (\<lambda>_. bits + delta)) s);
                              Some (KERN_SUCCESS, s) } } } }"

definition ipc_right_delta ::
  "ipc_space_t \<Rightarrow> mach_port_name_t \<Rightarrow> ipc_entry_t \<Rightarrow> mach_port_right_t \<Rightarrow> u32 \<Rightarrow> kernel \<Rightarrow>
   (kern_return_t \<times> kernel) option" where
  "ipc_right_delta space name entry rt delta s =
    do { sp \<leftarrow> ks_spaces s space;
         kassert (is_active sp);
         case rt of
           MACH_PORT_RIGHT_PORT_SET \<Rightarrow> ipc_right_delta_port_set space name entry delta s
         | MACH_PORT_RIGHT_RECEIVE \<Rightarrow> ipc_right_delta_receive space name entry delta s
         | MACH_PORT_RIGHT_SEND_ONCE \<Rightarrow> ipc_right_delta_send_once space name entry delta s
         | MACH_PORT_RIGHT_DEAD_NAME \<Rightarrow> ipc_right_delta_dead_name space name entry delta s
         | MACH_PORT_RIGHT_SEND \<Rightarrow> ipc_right_delta_send space name entry delta s }"

section \<open>Information\<close>

definition ipc_right_info ::
  "ipc_space_t \<Rightarrow> mach_port_name_t \<Rightarrow> ipc_entry_t \<Rightarrow> kernel \<Rightarrow> ((u32 \<times> u32) \<times> kernel) option" where
  "ipc_right_info space name entry s =
    do { e \<leftarrow> get_entry space entry s;
         s \<leftarrow> (if has (ie_bits e) MACH_PORT_TYPE_SEND_RIGHTS then
                do { (dead, s) \<leftarrow> ipc_right_check space (ie_object e) name entry s;
                     e \<leftarrow> get_entry space entry s;
                     kassert (dead \<longrightarrow> IE_BITS_TYPE (ie_bits e) = MACH_PORT_TYPE_DEAD_NAME);
                     Some s }
              else Some s);
         e \<leftarrow> get_entry space entry s;
         let type = IE_BITS_TYPE (ie_bits e);
             type = (if ie_request e \<noteq> 0 then type OR MACH_PORT_TYPE_DNREQUEST else type) in
         Some ((type, IE_BITS_UREFS (ie_bits e)), s) }"

end
