(* ===== verification/Ipc_Copyin.thy ===== *)
theory Ipc_Copyin
  imports Ipc_Right
begin

text \<open>
  The transfer of rights between a space and the kernel (second half of
  \<^verbatim>\<open>osfmk/ipc/ipc_right.c\<close>): copyin turns a right that an entry denotes into a naked right,
  which a message can carry; copyout gives a naked right to an entry; rename moves a right to
  another name. The cases of the switch in \<^verbatim>\<open>ipc_right_copyin\<close> are definitions of their own.
\<close>

section \<open>Copyin\<close>

definition ipc_right_copyin_check ::
  "ipc_space_t \<Rightarrow> mach_port_name_t \<Rightarrow> ipc_entry_t \<Rightarrow> mach_msg_type_name_t \<Rightarrow> kernel \<Rightarrow> bool option" where
  "ipc_right_copyin_check space name entry msgt_name s =
    do { e \<leftarrow> get_entry space entry s;
         sp \<leftarrow> ks_spaces s space;
         kassert (is_active sp);
         let bits = ie_bits e in
         if msgt_name \<in> {MACH_MSG_TYPE_MAKE_SEND, MACH_MSG_TYPE_MAKE_SEND_ONCE, MACH_MSG_TYPE_MOVE_RECEIVE} then
           Some (has bits MACH_PORT_TYPE_RECEIVE)
         else if msgt_name \<in> {MACH_MSG_TYPE_COPY_SEND, MACH_MSG_TYPE_MOVE_SEND, MACH_MSG_TYPE_MOVE_SEND_ONCE} then
           (if has bits MACH_PORT_TYPE_DEAD_NAME then Some True
            else if \<not> has bits MACH_PORT_TYPE_SEND_RIGHTS then Some False
            else
              do { kassert (ie_object e \<noteq> IP_NULL);
                   p \<leftarrow> ks_ports s (ie_object e);
                   if \<not> io_active p then Some True
                   else if msgt_name = MACH_MSG_TYPE_MOVE_SEND_ONCE then Some (has bits MACH_PORT_TYPE_SEND_ONCE)
                   else Some (has bits MACH_PORT_TYPE_SEND) })
         else None }"

text \<open>The result of copyin: the object, and a send-once right for a port-deleted notification.\<close>

type_synonym copyin_result = "kern_return_t + ipc_object_t \<times> ipc_port_t"

text \<open>The labels \<^verbatim>\<open>copy_dead\<close> and \<^verbatim>\<open>move_dead\<close>.\<close>

definition ipc_right_copyin_copy_dead ::
  "ipc_space_t \<Rightarrow> ipc_entry_t \<Rightarrow> bool \<Rightarrow> kernel \<Rightarrow> (copyin_result \<times> kernel) option" where
  "ipc_right_copyin_copy_dead space entry deadok s =
    do { e \<leftarrow> get_entry space entry s;
         kassert (IE_BITS_TYPE (ie_bits e) = MACH_PORT_TYPE_DEAD_NAME);
         kassert (0 < IE_BITS_UREFS (ie_bits e));
         kassert (ie_request e = 0);
         kassert (ie_object e = 0);
         if \<not> deadok then Some (Inl KERN_INVALID_RIGHT, s)
         else Some (Inr (IO_DEAD, IP_NULL), s) }"

definition ipc_right_copyin_move_dead ::
  "ipc_space_t \<Rightarrow> ipc_entry_t \<Rightarrow> bool \<Rightarrow> kernel \<Rightarrow> (copyin_result \<times> kernel) option" where
  "ipc_right_copyin_move_dead space entry deadok s =
    do { e \<leftarrow> get_entry space entry s;
         let bits = ie_bits e in
         do { kassert (IE_BITS_TYPE bits = MACH_PORT_TYPE_DEAD_NAME);
              kassert (0 < IE_BITS_UREFS bits);
              kassert (ie_request e = 0);
              kassert (ie_object e = 0);
              if \<not> deadok then Some (Inl KERN_INVALID_RIGHT, s)
              else
                (let bits = (if IE_BITS_UREFS bits = 1 then bits_clear bits MACH_PORT_TYPE_DEAD_NAME else bits) in
                 do { s \<leftarrow> upd_entry space entry (ie_bits_update (\<lambda>_. bits - 1)) s;
                      Some (Inr (IO_DEAD, IP_NULL), s) }) } }"

text \<open>What the three cases that need the receive right check first.\<close>

definition ipc_right_copyin_receiver ::
  "ipc_space_t \<Rightarrow> mach_port_name_t \<Rightarrow> ipc_port_t \<Rightarrow> kernel \<Rightarrow> ipc_port option" where
  "ipc_right_copyin_receiver space name port s =
    do { kassert (port \<noteq> IP_NULL);
         p \<leftarrow> ks_ports s port;
         kassert (io_active p);
         kassert (io_receiver_name p = name);
         kassert (ip_receiver p = space);
         Some p }"

definition ipc_right_copyin_make_send ::
  "ipc_space_t \<Rightarrow> mach_port_name_t \<Rightarrow> ipc_entry_t \<Rightarrow> kernel \<Rightarrow> (copyin_result \<times> kernel) option" where
  "ipc_right_copyin_make_send space name entry s =
    do { e \<leftarrow> get_entry space entry s;
         let port = ie_object e in
         if \<not> has (ie_bits e) MACH_PORT_TYPE_RECEIVE then Some (Inl KERN_INVALID_RIGHT, s)
         else
           do { p \<leftarrow> ipc_right_copyin_receiver space name port s;
                s \<leftarrow> upd_port port (\<lambda>p. p\<lparr>ip_mscount := ip_mscount p + 1, ip_srights := ip_srights p + 1\<rparr>) s;
                s \<leftarrow> ip_reference port s;
                Some (Inr (port, IP_NULL), s) } }"

definition ipc_right_copyin_make_sonce ::
  "ipc_space_t \<Rightarrow> mach_port_name_t \<Rightarrow> ipc_entry_t \<Rightarrow> kernel \<Rightarrow> (copyin_result \<times> kernel) option" where
  "ipc_right_copyin_make_sonce space name entry s =
    do { e \<leftarrow> get_entry space entry s;
         let port = ie_object e in
         if \<not> has (ie_bits e) MACH_PORT_TYPE_RECEIVE then Some (Inl KERN_INVALID_RIGHT, s)
         else
           do { p \<leftarrow> ipc_right_copyin_receiver space name port s;
                s \<leftarrow> upd_port port (\<lambda>p. p\<lparr>ip_sorights := ip_sorights p + 1\<rparr>) s;
                s \<leftarrow> ip_reference port s;
                Some (Inr (port, IP_NULL), s) } }"

definition ipc_right_copyin_move_receive ::
  "ipc_space_t \<Rightarrow> mach_port_name_t \<Rightarrow> ipc_entry_t \<Rightarrow> kernel \<Rightarrow> (copyin_result \<times> kernel) option" where
  "ipc_right_copyin_move_receive space name entry s =
    do { e \<leftarrow> get_entry space entry s;
         let bits = ie_bits e; port = ie_object e in
         if \<not> has bits MACH_PORT_TYPE_RECEIVE then Some (Inl KERN_INVALID_RIGHT, s)
         else
           do { p \<leftarrow> ipc_right_copyin_receiver space name port s;
                (dnrequest, s) \<leftarrow>
                  (if has bits MACH_PORT_TYPE_SEND then
                     do { kassert (IE_BITS_TYPE bits = MACH_PORT_TYPE_SEND_RECEIVE);
                          kassert (0 < IE_BITS_UREFS bits);
                          kassert (0 < ip_srights p);
                          s \<leftarrow> ipc_hash_insert space port name entry s;
                          s \<leftarrow> ip_reference port s;
                          Some (IP_NULL, s) }
                   else
                     do { kassert (IE_BITS_TYPE bits = MACH_PORT_TYPE_RECEIVE);
                          kassert (IE_BITS_UREFS bits = 0);
                          (dnrequest, s) \<leftarrow> ipc_right_dncancel_macro space port name entry s;
                          s \<leftarrow> upd_entry space entry (ie_object_update (\<lambda>_. IO_NULL)) s;
                          Some (dnrequest, s) });
                s \<leftarrow> upd_entry space entry (ie_bits_update (\<lambda>_. bits_clear bits MACH_PORT_TYPE_RECEIVE)) s;
                s \<leftarrow> ipc_port_clear_receiver port s;
                s \<leftarrow> upd_port port (\<lambda>p. p\<lparr>io_receiver_name := MACH_PORT_NULL, ip_destination := IP_NULL\<rparr>) s;
                Some (Inr (port, dnrequest), s) } }"

text \<open>The common beginning of the cases that take a send or send-once right: the entry is dead
  already, is no such right, or denotes the port, which \<^verbatim>\<open>ipc_right_check\<close> finds
  alive or dead.\<close>

datatype copyin_source = Dead_source | Invalid_source | Live_source ipc_port_t

definition ipc_right_copyin_source ::
  "ipc_space_t \<Rightarrow> mach_port_name_t \<Rightarrow> ipc_entry_t \<Rightarrow> u32 \<Rightarrow> kernel \<Rightarrow> (copyin_source \<times> kernel) option" where
  "ipc_right_copyin_source space name entry bits s =
    do { e \<leftarrow> get_entry space entry s;
         if has bits MACH_PORT_TYPE_DEAD_NAME then Some (Dead_source, s)
         else if \<not> has bits MACH_PORT_TYPE_SEND_RIGHTS then Some (Invalid_source, s)
         else
           do { kassert (0 < IE_BITS_UREFS bits);
                kassert (ie_object e \<noteq> IP_NULL);
                (dead, s) \<leftarrow> ipc_right_check space (ie_object e) name entry s;
                Some (if dead then Dead_source else Live_source (ie_object e), s) } }"

definition ipc_right_copyin_copy_send ::
  "ipc_space_t \<Rightarrow> mach_port_name_t \<Rightarrow> ipc_entry_t \<Rightarrow> bool \<Rightarrow> kernel \<Rightarrow> (copyin_result \<times> kernel) option" where
  "ipc_right_copyin_copy_send space name entry deadok s =
    do { e \<leftarrow> get_entry space entry s;
         let bits = ie_bits e in
         do { (source, s) \<leftarrow> ipc_right_copyin_source space name entry bits s;
              case source of
                Dead_source \<Rightarrow> ipc_right_copyin_copy_dead space entry deadok s
              | Invalid_source \<Rightarrow> Some (Inl KERN_INVALID_RIGHT, s)
              | Live_source port \<Rightarrow>
                  do { p \<leftarrow> ks_ports s port;
                       if \<not> has bits MACH_PORT_TYPE_SEND then
                         do { kassert (IE_BITS_TYPE bits = MACH_PORT_TYPE_SEND_ONCE);
                              kassert (0 < ip_sorights p);
                              Some (Inl KERN_INVALID_RIGHT, s) }
                       else
                         do { kassert (0 < ip_srights p);
                              s \<leftarrow> upd_port port (\<lambda>p. p\<lparr>ip_srights := ip_srights p + 1\<rparr>) s;
                              s \<leftarrow> ip_reference port s;
                              Some (Inr (port, IP_NULL), s) } } } }"

definition ipc_right_copyin_move_send ::
  "ipc_space_t \<Rightarrow> mach_port_name_t \<Rightarrow> ipc_entry_t \<Rightarrow> bool \<Rightarrow> kernel \<Rightarrow> (copyin_result \<times> kernel) option" where
  "ipc_right_copyin_move_send space name entry deadok s =
    do { e \<leftarrow> get_entry space entry s;
         let bits = ie_bits e in
         do { (source, s) \<leftarrow> ipc_right_copyin_source space name entry bits s;
              case source of
                Dead_source \<Rightarrow> ipc_right_copyin_move_dead space entry deadok s
              | Invalid_source \<Rightarrow> Some (Inl KERN_INVALID_RIGHT, s)
              | Live_source port \<Rightarrow>
                  do { p \<leftarrow> ks_ports s port;
                       if \<not> has bits MACH_PORT_TYPE_SEND then
                         do { kassert (IE_BITS_TYPE bits = MACH_PORT_TYPE_SEND_ONCE);
                              kassert (0 < ip_sorights p);
                              Some (Inl KERN_INVALID_RIGHT, s) }
                       else
                         do { kassert (0 < ip_srights p);
                              (dnrequest, s) \<leftarrow>
                                (if IE_BITS_UREFS bits = 1 then
                                   do { (dnrequest, s) \<leftarrow>
                                          (if has bits MACH_PORT_TYPE_RECEIVE then
                                             do { kassert (io_receiver_name p = name);
                                                  kassert (ip_receiver p = space);
                                                  kassert (IE_BITS_TYPE bits = MACH_PORT_TYPE_SEND_RECEIVE);
                                                  s \<leftarrow> ip_reference port s;
                                                  Some (IP_NULL, s) }
                                           else
                                             do { kassert (IE_BITS_TYPE bits = MACH_PORT_TYPE_SEND);
                                                  (dnrequest, s) \<leftarrow> ipc_right_dncancel_macro space port name entry s;
                                                  s \<leftarrow> ipc_hash_delete space port name entry s;
                                                  s \<leftarrow> upd_entry space entry (ie_object_update (\<lambda>_. IO_NULL)) s;
                                                  Some (dnrequest, s) });
                                        s \<leftarrow> upd_entry space entry
                                              (ie_bits_update (\<lambda>_. bits_clear bits (IE_BITS_UREFS_MASK OR MACH_PORT_TYPE_SEND))) s;
                                        Some (dnrequest, s) }
                                 else
                                   do { s \<leftarrow> upd_port port (\<lambda>p. p\<lparr>ip_srights := ip_srights p + 1\<rparr>) s;
                                        s \<leftarrow> ip_reference port s;
                                        s \<leftarrow> upd_entry space entry (ie_bits_update (\<lambda>_. bits - 1)) s;
                                        Some (IP_NULL, s) });
                              Some (Inr (port, dnrequest), s) } } } }"

definition ipc_right_copyin_move_sonce ::
  "ipc_space_t \<Rightarrow> mach_port_name_t \<Rightarrow> ipc_entry_t \<Rightarrow> bool \<Rightarrow> kernel \<Rightarrow> (copyin_result \<times> kernel) option" where
  "ipc_right_copyin_move_sonce space name entry deadok s =
    do { e \<leftarrow> get_entry space entry s;
         let bits = ie_bits e in
         do { (source, s) \<leftarrow> ipc_right_copyin_source space name entry bits s;
              case source of
                Dead_source \<Rightarrow> ipc_right_copyin_move_dead space entry deadok s
              | Invalid_source \<Rightarrow> Some (Inl KERN_INVALID_RIGHT, s)
              | Live_source port \<Rightarrow>
                  do { p \<leftarrow> ks_ports s port;
                       if \<not> has bits MACH_PORT_TYPE_SEND_ONCE then
                         do { kassert (has bits MACH_PORT_TYPE_SEND);
                              kassert (0 < ip_srights p);
                              Some (Inl KERN_INVALID_RIGHT, s) }
                       else
                         do { kassert (IE_BITS_TYPE bits = MACH_PORT_TYPE_SEND_ONCE);
                              kassert (IE_BITS_UREFS bits = 1);
                              kassert (0 < ip_sorights p);
                              (dnrequest, s) \<leftarrow> ipc_right_dncancel_macro space port name entry s;
                              s \<leftarrow> upd_entry space entry
                                    (\<lambda>e. e\<lparr>ie_object := IO_NULL,
                                           ie_bits := bits_clear bits (IE_BITS_UREFS_MASK OR MACH_PORT_TYPE_SEND_ONCE)\<rparr>) s;
                              Some (Inr (port, dnrequest), s) } } } }"

definition ipc_right_copyin ::
  "ipc_space_t \<Rightarrow> mach_port_name_t \<Rightarrow> ipc_entry_t \<Rightarrow> mach_msg_type_name_t \<Rightarrow> bool \<Rightarrow> kernel \<Rightarrow>
   (copyin_result \<times> kernel) option" where
  "ipc_right_copyin space name entry msgt_name deadok s =
    do { sp \<leftarrow> ks_spaces s space;
         kassert (is_active sp);
         case msgt_name of
           MACH_MSG_TYPE_MAKE_SEND \<Rightarrow> ipc_right_copyin_make_send space name entry s
         | MACH_MSG_TYPE_MAKE_SEND_ONCE \<Rightarrow> ipc_right_copyin_make_sonce space name entry s
         | MACH_MSG_TYPE_MOVE_RECEIVE \<Rightarrow> ipc_right_copyin_move_receive space name entry s
         | MACH_MSG_TYPE_COPY_SEND \<Rightarrow> ipc_right_copyin_copy_send space name entry deadok s
         | MACH_MSG_TYPE_MOVE_SEND \<Rightarrow> ipc_right_copyin_move_send space name entry deadok s
         | MACH_MSG_TYPE_MOVE_SEND_ONCE \<Rightarrow> ipc_right_copyin_move_sonce space name entry deadok s
         | MACH_MSG_TYPE_COPY_RECEIVE \<Rightarrow> None }"

definition ipc_right_copyin_undo ::
  "ipc_space_t \<Rightarrow> mach_port_name_t \<Rightarrow> ipc_entry_t \<Rightarrow> mach_msg_type_name_t \<Rightarrow> ipc_object_t \<Rightarrow> ipc_port_t \<Rightarrow>
   kernel \<Rightarrow> kernel option" where
  "ipc_right_copyin_undo space name entry msgt_name object soright s =
    do { sp \<leftarrow> ks_spaces s space;
         kassert (is_active sp);
         e \<leftarrow> get_entry space entry s;
         let bits = ie_bits e; right_clear = bits_clear bits IE_BITS_RIGHT_MASK in
         do { kassert (msgt_name \<in> {MACH_MSG_TYPE_MOVE_SEND, MACH_MSG_TYPE_COPY_SEND, MACH_MSG_TYPE_MOVE_SEND_ONCE});
              s \<leftarrow>
                (if soright \<noteq> IP_NULL then
                   do { kassert (msgt_name \<in> {MACH_MSG_TYPE_MOVE_SEND, MACH_MSG_TYPE_MOVE_SEND_ONCE});
                        kassert (IE_BITS_TYPE bits = MACH_PORT_TYPE_NONE);
                        kassert (object \<noteq> IO_DEAD);
                        upd_entry space entry
                          (ie_bits_update (\<lambda>_. (right_clear OR MACH_PORT_TYPE_DEAD_NAME) OR 2)) s }
                 else if IE_BITS_TYPE bits = MACH_PORT_TYPE_NONE then
                   do { kassert (msgt_name \<in> {MACH_MSG_TYPE_MOVE_SEND, MACH_MSG_TYPE_MOVE_SEND_ONCE});
                        upd_entry space entry
                          (ie_bits_update (\<lambda>_. (right_clear OR MACH_PORT_TYPE_DEAD_NAME) OR 1)) s }
                 else if IE_BITS_TYPE bits = MACH_PORT_TYPE_DEAD_NAME then
                   do { kassert (object = IO_DEAD);
                        kassert (0 < IE_BITS_UREFS bits);
                        if msgt_name \<noteq> MACH_MSG_TYPE_COPY_SEND then
                          do { kassert (IE_BITS_UREFS bits < MACH_PORT_UREFS_MAX);
                               upd_entry space entry (ie_bits_update (\<lambda>_. bits + 1)) s }
                        else Some s }
                 else
                   do { kassert (msgt_name \<in> {MACH_MSG_TYPE_MOVE_SEND, MACH_MSG_TYPE_COPY_SEND});
                        kassert (IE_BITS_TYPE bits = MACH_PORT_TYPE_SEND);
                        kassert (object \<noteq> IO_DEAD);
                        kassert (ie_object e = object);
                        kassert (0 < IE_BITS_UREFS bits);
                        s \<leftarrow>
                          (if msgt_name \<noteq> MACH_MSG_TYPE_COPY_SEND then
                             do { kassert (IE_BITS_UREFS bits < MACH_PORT_UREFS_MAX - 1);
                                  upd_entry space entry (ie_bits_update (\<lambda>_. bits + 1)) s }
                           else Some s);
                        (dead, s) \<leftarrow> ipc_right_check space object name entry s;
                        Some s });
              if object \<noteq> IO_DEAD then ipc_object_release object s else Some s } }"

definition ipc_right_copyin_two ::
  "ipc_space_t \<Rightarrow> mach_port_name_t \<Rightarrow> ipc_entry_t \<Rightarrow> kernel \<Rightarrow> (copyin_result \<times> kernel) option" where
  "ipc_right_copyin_two space name entry s =
    do { sp \<leftarrow> ks_spaces s space;
         kassert (is_active sp);
         e \<leftarrow> get_entry space entry s;
         let bits = ie_bits e; urefs = IE_BITS_UREFS bits; port = ie_object e in
         if \<not> has bits MACH_PORT_TYPE_SEND then Some (Inl KERN_INVALID_RIGHT, s)
         else if urefs < 2 then Some (Inl KERN_INVALID_RIGHT, s)
         else
           do { kassert (port \<noteq> IP_NULL);
                (dead, s) \<leftarrow> ipc_right_check space port name entry s;
                if dead then Some (Inl KERN_INVALID_RIGHT, s)
                else
                  do { p \<leftarrow> ks_ports s port;
                       kassert (0 < ip_srights p);
                       (dnrequest, s) \<leftarrow>
                         (if urefs = 2 then
                            do { (dnrequest, s) \<leftarrow>
                                   (if has bits MACH_PORT_TYPE_RECEIVE then
                                      do { kassert (io_receiver_name p = name);
                                           kassert (ip_receiver p = space);
                                           kassert (IE_BITS_TYPE bits = MACH_PORT_TYPE_SEND_RECEIVE);
                                           s \<leftarrow> upd_port port (\<lambda>p. p\<lparr>ip_srights := ip_srights p + 1\<rparr>) s;
                                           s \<leftarrow> ip_reference port s;
                                           s \<leftarrow> ip_reference port s;
                                           Some (IP_NULL, s) }
                                    else
                                      do { kassert (IE_BITS_TYPE bits = MACH_PORT_TYPE_SEND);
                                           (dnrequest, s) \<leftarrow> ipc_right_dncancel_macro space port name entry s;
                                           s \<leftarrow> upd_port port (\<lambda>p. p\<lparr>ip_srights := ip_srights p + 1\<rparr>) s;
                                           s \<leftarrow> ip_reference port s;
                                           s \<leftarrow> ipc_hash_delete space port name entry s;
                                           s \<leftarrow> upd_entry space entry (ie_object_update (\<lambda>_. IO_NULL)) s;
                                           Some (dnrequest, s) });
                                 s \<leftarrow> upd_entry space entry
                                       (ie_bits_update (\<lambda>_. bits_clear bits (IE_BITS_UREFS_MASK OR MACH_PORT_TYPE_SEND))) s;
                                 Some (dnrequest, s) }
                          else
                            do { s \<leftarrow> upd_port port (\<lambda>p. p\<lparr>ip_srights := ip_srights p + 2\<rparr>) s;
                                 s \<leftarrow> ip_reference port s;
                                 s \<leftarrow> ip_reference port s;
                                 s \<leftarrow> upd_entry space entry (ie_bits_update (\<lambda>_. bits - 2)) s;
                                 Some (IP_NULL, s) });
                       Some (Inr (port, dnrequest), s) } } }"

section \<open>Copyout\<close>

definition ipc_right_copyout_sonce ::
  "ipc_space_t \<Rightarrow> ipc_entry_t \<Rightarrow> u32 \<Rightarrow> ipc_port_t \<Rightarrow> kernel \<Rightarrow> (kern_return_t \<times> kernel) option" where
  "ipc_right_copyout_sonce space entry bits port s =
    do { kassert (IE_BITS_TYPE bits = MACH_PORT_TYPE_NONE);
         p \<leftarrow> ks_ports s port;
         kassert (0 < ip_sorights p);
         s \<leftarrow> upd_entry space entry (ie_bits_update (\<lambda>_. bits OR (MACH_PORT_TYPE_SEND_ONCE OR 1))) s;
         Some (KERN_SUCCESS, s) }"

definition ipc_right_copyout_send ::
  "ipc_space_t \<Rightarrow> mach_port_name_t \<Rightarrow> ipc_entry_t \<Rightarrow> bool \<Rightarrow> u32 \<Rightarrow> ipc_port_t \<Rightarrow> kernel \<Rightarrow>
   (kern_return_t \<times> kernel) option" where
  "ipc_right_copyout_send space name entry overflow bits port s =
    (let urefs = IE_BITS_UREFS bits;
         consume = (\<lambda>s. do { s \<leftarrow> upd_port port (\<lambda>p. p\<lparr>ip_srights := ip_srights p - 1\<rparr>) s; ip_release port s });
         finish = (\<lambda>s. do { s \<leftarrow> upd_entry space entry (ie_bits_update (\<lambda>_. (bits OR MACH_PORT_TYPE_SEND) + 1)) s;
                            Some (KERN_SUCCESS, s) }) in
     do { p \<leftarrow> ks_ports s port;
          kassert (0 < ip_srights p);
          if has bits MACH_PORT_TYPE_SEND then
            do { kassert (1 < ip_srights p);
                 kassert (0 < urefs);
                 kassert (urefs < MACH_PORT_UREFS_MAX);
                 if urefs + 1 = MACH_PORT_UREFS_MAX then
                   (if overflow then do { s \<leftarrow> consume s; Some (KERN_SUCCESS, s) }
                    else Some (KERN_UREFS_OVERFLOW, s))
                 else do { s \<leftarrow> consume s; finish s } }
          else if has bits MACH_PORT_TYPE_RECEIVE then
            do { kassert (IE_BITS_TYPE bits = MACH_PORT_TYPE_RECEIVE);
                 kassert (urefs = 0);
                 s \<leftarrow> ip_release port s;
                 finish s }
          else
            do { kassert (IE_BITS_TYPE bits = MACH_PORT_TYPE_NONE);
                 kassert (urefs = 0);
                 s \<leftarrow> ipc_hash_insert space port name entry s;
                 finish s } })"

definition ipc_right_copyout_receive ::
  "ipc_space_t \<Rightarrow> mach_port_name_t \<Rightarrow> ipc_entry_t \<Rightarrow> u32 \<Rightarrow> ipc_port_t \<Rightarrow> kernel \<Rightarrow>
   (kern_return_t \<times> kernel) option" where
  "ipc_right_copyout_receive space name entry bits port s =
    do { p \<leftarrow> ks_ports s port;
         kassert (ip_mscount p = 0);
         kassert (io_receiver_name p = MACH_PORT_NULL);
         let dest = ip_destination p in
         do { s \<leftarrow> upd_port port (\<lambda>p. p\<lparr>io_receiver_name := name, ip_receiver := space\<rparr>) s;
              kassert (\<not> has bits MACH_PORT_TYPE_RECEIVE);
              s \<leftarrow>
                (if has bits MACH_PORT_TYPE_SEND then
                   do { kassert (IE_BITS_TYPE bits = MACH_PORT_TYPE_SEND);
                        kassert (0 < IE_BITS_UREFS bits);
                        kassert (0 < ip_srights p);
                        s \<leftarrow> ip_release port s;
                        ipc_hash_delete space port name entry s }
                 else
                   do { kassert (IE_BITS_TYPE bits = MACH_PORT_TYPE_NONE);
                        kassert (IE_BITS_UREFS bits = 0);
                        Some s });
              s \<leftarrow> upd_entry space entry (ie_bits_update (\<lambda>_. bits OR MACH_PORT_TYPE_RECEIVE)) s;
              s \<leftarrow> (if dest \<noteq> IP_NULL then ipc_port_release dest s else Some s);
              Some (KERN_SUCCESS, s) } }"

definition ipc_right_copyout ::
  "ipc_space_t \<Rightarrow> mach_port_name_t \<Rightarrow> ipc_entry_t \<Rightarrow> mach_msg_type_name_t \<Rightarrow> bool \<Rightarrow> ipc_object_t \<Rightarrow> kernel \<Rightarrow>
   (kern_return_t \<times> kernel) option" where
  "ipc_right_copyout space name entry msgt_name overflow object s =
    do { e \<leftarrow> get_entry space entry s;
         kassert (IO_VALID object);
         p \<leftarrow> ks_ports s object;
         kassert (io_otype p = IOT_PORT);
         kassert (io_active p);
         kassert (ie_object e = object);
         let bits = ie_bits e in
         case msgt_name of
           MACH_MSG_TYPE_MOVE_SEND_ONCE \<Rightarrow> ipc_right_copyout_sonce space entry bits object s
         | MACH_MSG_TYPE_MOVE_SEND \<Rightarrow> ipc_right_copyout_send space name entry overflow bits object s
         | MACH_MSG_TYPE_MOVE_RECEIVE \<Rightarrow> ipc_right_copyout_receive space name entry bits object s
         | _ \<Rightarrow> None }"

section \<open>Rename\<close>

text \<open>The first part: the dead-name request moves along, unless the port has died.\<close>

definition ipc_right_rename_request ::
  "ipc_space_t \<Rightarrow> mach_port_name_t \<Rightarrow> ipc_entry_t \<Rightarrow> mach_port_name_t \<Rightarrow> kernel \<Rightarrow>
   ((u32 \<times> u32 \<times> ipc_object_t) \<times> kernel) option" where
  "ipc_right_rename_request space oname oentry nname s =
    do { oe \<leftarrow> get_entry space oentry s;
         let request = ie_request oe; bits = ie_bits oe; object = ie_object oe in
         if request \<noteq> 0 then
           do { kassert (has bits MACH_PORT_TYPE_PORT_RIGHTS);
                kassert (object \<noteq> IP_NULL);
                (dead, s) \<leftarrow> ipc_right_check space object oname oentry s;
                if dead then
                  do { oe \<leftarrow> get_entry space oentry s;
                       kassert (IE_BITS_TYPE (ie_bits oe) = MACH_PORT_TYPE_DEAD_NAME);
                       kassert (ie_request oe = 0);
                       Some ((0, ie_bits oe, IO_NULL), s) }
                else
                  do { s \<leftarrow> ipc_port_dnrename object request oname nname s;
                       s \<leftarrow> upd_entry space oentry (ie_request_update (\<lambda>_. 0)) s;
                       Some ((request, bits, object), s) } }
         else Some ((request, bits, object), s) }"

definition ipc_right_rename ::
  "ipc_space_t \<Rightarrow> mach_port_name_t \<Rightarrow> ipc_entry_t \<Rightarrow> mach_port_name_t \<Rightarrow> ipc_entry_t \<Rightarrow> kernel \<Rightarrow>
   (kern_return_t \<times> kernel) option" where
  "ipc_right_rename space oname oentry nname nentry s =
    do { sp \<leftarrow> ks_spaces s space;
         kassert (is_active sp);
         kassert (oname \<noteq> nname);
         ((request, bits, object), s) \<leftarrow> ipc_right_rename_request space oname oentry nname s;
         ne \<leftarrow> get_entry space nentry s;
         kassert (ie_bits ne AND IE_BITS_RIGHT_MASK = 0);
         s \<leftarrow> upd_entry space nentry
               (\<lambda>e. e\<lparr>ie_bits := ie_bits e OR (bits AND IE_BITS_RIGHT_MASK), ie_request := request,
                      ie_object := object\<rparr>) s;
         let type = IE_BITS_TYPE bits in
         do { s \<leftarrow>
                (if type = MACH_PORT_TYPE_SEND then
                   do { kassert (object \<noteq> IP_NULL);
                        s \<leftarrow> ipc_hash_delete space object oname oentry s;
                        ipc_hash_insert space object nname nentry s }
                 else if type = MACH_PORT_TYPE_RECEIVE \<or> type = MACH_PORT_TYPE_SEND_RECEIVE then
                   do { kassert (object \<noteq> IP_NULL);
                        p \<leftarrow> ks_ports s object;
                        kassert (io_active p);
                        kassert (io_receiver_name p = oname);
                        kassert (ip_receiver p = space);
                        upd_port object (io_receiver_name_update (\<lambda>_. nname)) s }
                 else if type = MACH_PORT_TYPE_PORT_SET then
                   do { kassert (object \<noteq> 0);
                        ps \<leftarrow> ks_psets s object;
                        kassert (io_active ps);
                        kassert (io_receiver_name ps = oname);
                        Some (put_pset object (ps\<lparr>io_receiver_name := nname\<rparr>) s) }
                 else if type = MACH_PORT_TYPE_SEND_ONCE \<or> type = MACH_PORT_TYPE_DEAD_NAME then Some s
                 else None);
              oe \<leftarrow> get_entry space oentry s;
              kassert (ie_request oe = 0);
              s \<leftarrow> upd_entry space oentry (ie_object_update (\<lambda>_. IO_NULL)) s;
              s \<leftarrow> ipc_entry_dealloc space oname oentry s;
              Some (KERN_SUCCESS, s) } }"

end
