(* ===== verification/Ipc_Object.thy ===== *)
theory Ipc_Object
  imports Ipc_Copyin
begin

text \<open>
  Operations on objects by name (\<^verbatim>\<open>osfmk/ipc/ipc_object.c\<close>), the allocation of ports and port
  sets (\<^verbatim>\<open>ipc_port.c\<close>, \<^verbatim>\<open>ipc_pset.c\<close>), and the two routines of \<^verbatim>\<open>ipc_port.c\<close> that use names.
  They compose the lookup and allocation of entries with the operations on rights.
\<close>

section \<open>Allocation of objects\<close>

definition ipc_pset_blank :: ipc_pset where
  "ipc_pset_blank = \<lparr>io_references = 0, io_bits = 0, io_receiver_name = 0, ips_pset_self = 0\<rparr>"

text \<open>\<^verbatim>\<open>io_alloc\<close> followed by \<^verbatim>\<open>bzero\<close>, and \<^verbatim>\<open>io_free\<close>.\<close>

definition io_alloc :: "u32 \<Rightarrow> kernel \<Rightarrow> ipc_object_t \<times> kernel" where
  "io_alloc otype s =
    (case kalloc s of (object, s) \<Rightarrow>
       if object = IO_NULL then (IO_NULL, s)
       else (object, if otype = IOT_PORT then put_port object ipc_port_blank s
                     else put_pset object ipc_pset_blank s))"

definition io_free :: "u32 \<Rightarrow> ipc_object_t \<Rightarrow> kernel \<Rightarrow> kernel" where
  "io_free otype object s =
    (if otype = IOT_PORT then s\<lparr>ks_ports := (ks_ports s)(object := None)\<rparr>
     else s\<lparr>ks_psets := (ks_psets s)(object := None)\<rparr>)"

text \<open>The reference for the entry, and the bits of an active object.\<close>

definition io_activate :: "u32 \<Rightarrow> ipc_object_t \<Rightarrow> kernel \<Rightarrow> kernel option" where
  "io_activate otype object s =
    (if otype = IOT_PORT then
       upd_port object (\<lambda>p. p\<lparr>io_references := 1, io_bits := io_makebits True otype 0\<rparr>) s
     else
       do { ps \<leftarrow> ks_psets s object;
            Some (put_pset object (ps\<lparr>io_references := 1, io_bits := io_makebits True otype 0\<rparr>) s) })"

definition ipc_object_alloc ::
  "ipc_space_t \<Rightarrow> u32 \<Rightarrow> u32 \<Rightarrow> u32 \<Rightarrow> kernel \<Rightarrow>
   ((kern_return_t + mach_port_name_t \<times> ipc_object_t) \<times> kernel) option" where
  "ipc_object_alloc space otype type urefs s =
    do { kassert (otype < 2);
         kassert (type AND MACH_PORT_TYPE_ALL_RIGHTS = type);
         kassert (type \<noteq> MACH_PORT_TYPE_NONE);
         kassert (urefs \<le> MACH_PORT_UREFS_MAX);
         case io_alloc otype s of (object, s) \<Rightarrow>
           if object = IO_NULL then Some (Inl KERN_RESOURCE_SHORTAGE, s)
           else
             do { (r, s) \<leftarrow> ipc_entry_alloc space s;
                  case r of
                    Inl kr \<Rightarrow> Some (Inl kr, io_free otype object s)
                  | Inr (name, entry) \<Rightarrow>
                      do { s \<leftarrow> upd_entry space entry
                                 (\<lambda>e. e\<lparr>ie_bits := ie_bits e OR (type OR urefs), ie_object := object\<rparr>) s;
                           s \<leftarrow> io_activate otype object s;
                           Some (Inr (name, object), s) } } }"

definition ipc_object_alloc_name ::
  "ipc_space_t \<Rightarrow> u32 \<Rightarrow> u32 \<Rightarrow> u32 \<Rightarrow> mach_port_name_t \<Rightarrow> kernel \<Rightarrow>
   ((kern_return_t + ipc_object_t) \<times> kernel) option" where
  "ipc_object_alloc_name space otype type urefs name s =
    do { kassert (otype < 2);
         kassert (type AND MACH_PORT_TYPE_ALL_RIGHTS = type);
         kassert (type \<noteq> MACH_PORT_TYPE_NONE);
         kassert (urefs \<le> MACH_PORT_UREFS_MAX);
         case io_alloc otype s of (object, s) \<Rightarrow>
           if object = IO_NULL then Some (Inl KERN_RESOURCE_SHORTAGE, s)
           else
             do { (r, s) \<leftarrow> ipc_entry_alloc_name space name s;
                  case r of
                    Inl kr \<Rightarrow> Some (Inl kr, io_free otype object s)
                  | Inr entry \<Rightarrow>
                      do { inuse \<leftarrow> ipc_right_inuse space name entry s;
                           if inuse then Some (Inl KERN_NAME_EXISTS, io_free otype object s)
                           else
                             do { s \<leftarrow> upd_entry space entry
                                        (\<lambda>e. e\<lparr>ie_bits := ie_bits e OR (type OR urefs), ie_object := object\<rparr>) s;
                                  s \<leftarrow> io_activate otype object s;
                                  Some (Inr object, s) } } } }"

section \<open>Dead names\<close>

definition ipc_object_alloc_dead ::
  "ipc_space_t \<Rightarrow> kernel \<Rightarrow> ((kern_return_t + mach_port_name_t) \<times> kernel) option" where
  "ipc_object_alloc_dead space s =
    do { (r, s) \<leftarrow> ipc_entry_alloc space s;
         case r of
           Inl kr \<Rightarrow> Some (Inl kr, s)
         | Inr (name, entry) \<Rightarrow>
             do { e \<leftarrow> get_entry space entry s;
                  kassert (ie_object e = IO_NULL);
                  s \<leftarrow> upd_entry space entry
                        (\<lambda>e. e\<lparr>ie_bits := ie_bits e OR (MACH_PORT_TYPE_DEAD_NAME OR 1)\<rparr>) s;
                  Some (Inr name, s) } }"

definition ipc_object_alloc_dead_name ::
  "ipc_space_t \<Rightarrow> mach_port_name_t \<Rightarrow> kernel \<Rightarrow> (kern_return_t \<times> kernel) option" where
  "ipc_object_alloc_dead_name space name s =
    do { (r, s) \<leftarrow> ipc_entry_alloc_name space name s;
         case r of
           Inl kr \<Rightarrow> Some (kr, s)
         | Inr entry \<Rightarrow>
             do { inuse \<leftarrow> ipc_right_inuse space name entry s;
                  if inuse then Some (KERN_NAME_EXISTS, s)
                  else
                    do { e \<leftarrow> get_entry space entry s;
                         kassert (ie_object e = IO_NULL);
                         s \<leftarrow> upd_entry space entry
                               (\<lambda>e. e\<lparr>ie_bits := ie_bits e OR (MACH_PORT_TYPE_DEAD_NAME OR 1)\<rparr>) s;
                         Some (KERN_SUCCESS, s) } } }"

section \<open>Lookup\<close>

definition ipc_object_translate ::
  "ipc_space_t \<Rightarrow> mach_port_name_t \<Rightarrow> mach_port_right_t \<Rightarrow> kernel \<Rightarrow>
   ((kern_return_t + ipc_object_t) \<times> kernel) option" where
  "ipc_object_translate space name rt s =
    do { (r, s) \<leftarrow> ipc_right_lookup_write space name s;
         case r of
           Inl kr \<Rightarrow> Some (Inl kr, s)
         | Inr entry \<Rightarrow>
             do { e \<leftarrow> get_entry space entry s;
                  if ie_bits e AND MACH_PORT_TYPE rt = MACH_PORT_TYPE_NONE then Some (Inl KERN_INVALID_RIGHT, s)
                  else do { kassert (ie_object e \<noteq> IO_NULL); Some (Inr (ie_object e), s) } } }"

section \<open>Copyin\<close>

text \<open>The right that a message carries, for the way its sender gave it; 0 is \<open>None\<close>.\<close>

fun ipc_object_copyin_type :: "mach_msg_type_name_t option \<Rightarrow> mach_msg_type_name_t option" where
  "ipc_object_copyin_type None = None"
| "ipc_object_copyin_type (Some msgt_name) =
    Some (case msgt_name of
            MACH_MSG_TYPE_MOVE_RECEIVE \<Rightarrow> MACH_MSG_TYPE_PORT_RECEIVE
          | MACH_MSG_TYPE_COPY_RECEIVE \<Rightarrow> MACH_MSG_TYPE_PORT_RECEIVE
          | MACH_MSG_TYPE_MOVE_SEND_ONCE \<Rightarrow> MACH_MSG_TYPE_PORT_SEND_ONCE
          | MACH_MSG_TYPE_MAKE_SEND_ONCE \<Rightarrow> MACH_MSG_TYPE_PORT_SEND_ONCE
          | MACH_MSG_TYPE_MOVE_SEND \<Rightarrow> MACH_MSG_TYPE_PORT_SEND
          | MACH_MSG_TYPE_MAKE_SEND \<Rightarrow> MACH_MSG_TYPE_PORT_SEND
          | MACH_MSG_TYPE_COPY_SEND \<Rightarrow> MACH_MSG_TYPE_PORT_SEND)"

definition ipc_object_copyin ::
  "ipc_space_t \<Rightarrow> mach_port_name_t \<Rightarrow> mach_msg_type_name_t \<Rightarrow> kernel \<Rightarrow>
   ((kern_return_t + ipc_object_t) \<times> kernel) option" where
  "ipc_object_copyin space name msgt_name s =
    do { (r, s) \<leftarrow> ipc_right_lookup_write space name s;
         case r of
           Inl kr \<Rightarrow> Some (Inl kr, s)
         | Inr entry \<Rightarrow>
             do { (r, s) \<leftarrow> ipc_right_copyin space name entry msgt_name True s;
                  e \<leftarrow> get_entry space entry s;
                  s \<leftarrow> (if IE_BITS_TYPE (ie_bits e) = MACH_PORT_TYPE_NONE
                       then ipc_entry_dealloc space name entry s else Some s);
                  case r of
                    Inl kr \<Rightarrow> Some (Inl kr, s)
                  | Inr (object, soright) \<Rightarrow>
                      do { s \<leftarrow> (if soright \<noteq> IP_NULL then ipc_notify_port_deleted soright name s else Some s);
                           Some (Inr object, s) } } }"

text \<open>\<open>kernel_space\<close> is the address in the global variable \<^verbatim>\<open>ipc_space_kernel\<close>.\<close>

definition ipc_object_copyin_from_kernel ::
  "ipc_space_t \<Rightarrow> ipc_object_t \<Rightarrow> mach_msg_type_name_t \<Rightarrow> kernel \<Rightarrow> kernel option" where
  "ipc_object_copyin_from_kernel kernel_space object msgt_name s =
    do { kassert (IO_VALID object);
         case msgt_name of
           MACH_MSG_TYPE_MOVE_RECEIVE \<Rightarrow>
             do { p \<leftarrow> ks_ports s object;
                  kassert (io_active p);
                  kassert (io_receiver_name p \<noteq> MACH_PORT_NULL);
                  kassert (ip_receiver p = kernel_space);
                  s \<leftarrow> ipc_port_set_mscount object 0 s;
                  upd_port object (\<lambda>p. p\<lparr>io_receiver_name := MACH_PORT_NULL, ip_destination := IP_NULL\<rparr>) s }
         | MACH_MSG_TYPE_COPY_SEND \<Rightarrow>
             do { p \<leftarrow> ks_ports s object;
                  s \<leftarrow> (if io_active p then
                         do { kassert (0 < ip_srights p);
                              upd_port object (\<lambda>p. p\<lparr>ip_srights := ip_srights p + 1\<rparr>) s }
                       else Some s);
                  ip_reference object s }
         | MACH_MSG_TYPE_MAKE_SEND \<Rightarrow>
             do { p \<leftarrow> ks_ports s object;
                  kassert (io_active p);
                  kassert (io_receiver_name p \<noteq> MACH_PORT_NULL);
                  kassert (ip_receiver p = kernel_space);
                  s \<leftarrow> ip_reference object s;
                  upd_port object (\<lambda>p. p\<lparr>ip_mscount := ip_mscount p + 1, ip_srights := ip_srights p + 1\<rparr>) s }
         | MACH_MSG_TYPE_MOVE_SEND \<Rightarrow> Some s
         | MACH_MSG_TYPE_MAKE_SEND_ONCE \<Rightarrow>
             do { p \<leftarrow> ks_ports s object;
                  kassert (io_active p);
                  kassert (io_receiver_name p \<noteq> MACH_PORT_NULL);
                  s \<leftarrow> ip_reference object s;
                  upd_port object (\<lambda>p. p\<lparr>ip_sorights := ip_sorights p + 1\<rparr>) s }
         | MACH_MSG_TYPE_MOVE_SEND_ONCE \<Rightarrow> Some s
         | MACH_MSG_TYPE_COPY_RECEIVE \<Rightarrow> None }"

definition ipc_object_destroy :: "ipc_object_t \<Rightarrow> mach_msg_type_name_t \<Rightarrow> kernel \<Rightarrow> kernel option" where
  "ipc_object_destroy object msgt_name s =
    do { kassert (IO_VALID object);
         p \<leftarrow> ks_ports s object;
         kassert (io_otype p = IOT_PORT);
         case msgt_name of
           MACH_MSG_TYPE_MOVE_SEND \<Rightarrow> ipc_port_release_send object s
         | MACH_MSG_TYPE_MOVE_SEND_ONCE \<Rightarrow> ipc_notify_send_once object s
         | MACH_MSG_TYPE_MOVE_RECEIVE \<Rightarrow> ipc_port_release_receive object s
         | _ \<Rightarrow> None }"

section \<open>Copyout\<close>

text \<open>The loop in \<^verbatim>\<open>ipc_object_copyout\<close>: the entry that the space has for the object, or a new one.\<close>

partial_function (option) ipc_object_copyout_entry ::
  "ipc_space_t \<Rightarrow> ipc_object_t \<Rightarrow> mach_msg_type_name_t \<Rightarrow> kernel \<Rightarrow>
   ((kern_return_t + mach_port_name_t \<times> ipc_entry_t) \<times> kernel) option" where
  "ipc_object_copyout_entry space object msgt_name s =
    do { sp \<leftarrow> ks_spaces s space;
         if \<not> is_active sp then Some (Inl KERN_INVALID_TASK, s)
         else
           do { (found, s) \<leftarrow> (if msgt_name \<noteq> MACH_MSG_TYPE_PORT_SEND_ONCE
                               then ipc_right_reverse space object s else Some (None, s));
                case found of
                  Some (name, entry) \<Rightarrow>
                    do { e \<leftarrow> get_entry space entry s;
                         kassert (has (ie_bits e) MACH_PORT_TYPE_SEND_RECEIVE);
                         Some (Inr (name, entry), s) }
                | None \<Rightarrow>
                    do { sp \<leftarrow> ks_spaces s space;
                         (r, sp) \<leftarrow> ipc_entry_get sp;
                         case r of
                           Inl _ \<Rightarrow>
                             do { (kr, s) \<leftarrow> ipc_entry_grow_table space None s;
                                  if kr \<noteq> KERN_SUCCESS then Some (Inl kr, s)
                                  else ipc_object_copyout_entry space object msgt_name s }
                         | Inr (name, entry) \<Rightarrow>
                             do { s \<leftarrow> Some (put_space space sp s);
                                  e \<leftarrow> get_entry space entry s;
                                  kassert (IE_BITS_TYPE (ie_bits e) = MACH_PORT_TYPE_NONE);
                                  kassert (ie_object e = IO_NULL);
                                  p \<leftarrow> ks_ports s object;
                                  if \<not> io_active p then
                                    do { s \<leftarrow> ipc_entry_dealloc space name entry s;
                                         Some (Inl KERN_INVALID_CAPABILITY, s) }
                                  else
                                    do { s \<leftarrow> upd_entry space entry (ie_object_update (\<lambda>_. object)) s;
                                         Some (Inr (name, entry), s) } } } } }"

definition ipc_object_copyout ::
  "ipc_space_t \<Rightarrow> ipc_object_t \<Rightarrow> mach_msg_type_name_t \<Rightarrow> bool \<Rightarrow> kernel \<Rightarrow>
   ((kern_return_t + mach_port_name_t) \<times> kernel) option" where
  "ipc_object_copyout space object msgt_name overflow s =
    do { kassert (IO_VALID object);
         p \<leftarrow> ks_ports s object;
         kassert (io_otype p = IOT_PORT);
         (r, s) \<leftarrow> ipc_object_copyout_entry space object msgt_name s;
         case r of
           Inl kr \<Rightarrow> Some (Inl kr, s)
         | Inr (name, entry) \<Rightarrow>
             do { (kr, s) \<leftarrow> ipc_right_copyout space name entry msgt_name overflow object s;
                  Some (if kr = KERN_SUCCESS then Inr name else Inl kr, s) } }"

definition ipc_object_copyout_name ::
  "ipc_space_t \<Rightarrow> ipc_object_t \<Rightarrow> mach_msg_type_name_t \<Rightarrow> bool \<Rightarrow> mach_port_name_t \<Rightarrow> kernel \<Rightarrow>
   (kern_return_t \<times> kernel) option" where
  "ipc_object_copyout_name space object msgt_name overflow name s =
    do { kassert (IO_VALID object);
         p \<leftarrow> ks_ports s object;
         kassert (io_otype p = IOT_PORT);
         (r, s) \<leftarrow> ipc_entry_alloc_name space name s;
         case r of
           Inl kr \<Rightarrow> Some (kr, s)
         | Inr entry \<Rightarrow>
             do { (found, s) \<leftarrow> (if msgt_name \<noteq> MACH_MSG_TYPE_PORT_SEND_ONCE
                                 then ipc_right_reverse space object s else Some (None, s));
                  case found of
                    Some (oname, oentry) \<Rightarrow>
                      do { e \<leftarrow> get_entry space entry s;
                           if name \<noteq> oname then
                             do { s \<leftarrow> (if IE_BITS_TYPE (ie_bits e) = MACH_PORT_TYPE_NONE
                                       then ipc_entry_dealloc space name entry s else Some s);
                                  Some (KERN_RIGHT_EXISTS, s) }
                           else
                             do { kassert (entry = oentry);
                                  kassert (has (ie_bits e) MACH_PORT_TYPE_SEND_RECEIVE);
                                  ipc_right_copyout space name entry msgt_name overflow object s } }
                  | None \<Rightarrow>
                      do { inuse \<leftarrow> ipc_right_inuse space name entry s;
                           if inuse then Some (KERN_NAME_EXISTS, s)
                           else
                             do { e \<leftarrow> get_entry space entry s;
                                  kassert (IE_BITS_TYPE (ie_bits e) = MACH_PORT_TYPE_NONE);
                                  kassert (ie_object e = IO_NULL);
                                  p \<leftarrow> ks_ports s object;
                                  if \<not> io_active p then
                                    do { s \<leftarrow> ipc_entry_dealloc space name entry s;
                                         Some (KERN_INVALID_CAPABILITY, s) }
                                  else
                                    do { s \<leftarrow> upd_entry space entry (ie_object_update (\<lambda>_. object)) s;
                                         ipc_right_copyout space name entry msgt_name overflow object s } } } } }"

definition ipc_object_copyout_dest ::
  "ipc_space_t \<Rightarrow> ipc_object_t \<Rightarrow> mach_msg_type_name_t \<Rightarrow> kernel \<Rightarrow> (mach_port_name_t \<times> kernel) option" where
  "ipc_object_copyout_dest space object msgt_name s =
    do { kassert (IO_VALID object);
         p \<leftarrow> ks_ports s object;
         kassert (io_active p);
         s \<leftarrow> ip_release object s;
         case msgt_name of
           MACH_MSG_TYPE_MOVE_SEND \<Rightarrow>
             do { s \<leftarrow> ipc_port_drop_send object s;
                  Some (if ip_receiver p = space then io_receiver_name p else MACH_PORT_NULL, s) }
         | MACH_MSG_TYPE_MOVE_SEND_ONCE \<Rightarrow>
             do { kassert (0 < ip_sorights p);
                  if ip_receiver p = space then
                    do { s \<leftarrow> upd_port object (\<lambda>p. p\<lparr>ip_sorights := ip_sorights p - 1\<rparr>) s;
                         Some (io_receiver_name p, s) }
                  else
                    do { s \<leftarrow> ip_reference object s;
                         s \<leftarrow> ipc_notify_send_once object s;
                         Some (MACH_PORT_NULL, s) } }
         | _ \<Rightarrow> None }"

section \<open>Rename\<close>

definition ipc_object_rename ::
  "ipc_space_t \<Rightarrow> mach_port_name_t \<Rightarrow> mach_port_name_t \<Rightarrow> kernel \<Rightarrow> (kern_return_t \<times> kernel) option" where
  "ipc_object_rename space oname nname s =
    do { (r, s) \<leftarrow> ipc_entry_alloc_name space nname s;
         case r of
           Inl kr \<Rightarrow> Some (kr, s)
         | Inr nentry \<Rightarrow>
             do { inuse \<leftarrow> ipc_right_inuse space nname nentry s;
                  if inuse then Some (KERN_NAME_EXISTS, s)
                  else
                    do { (found, s) \<leftarrow>
                           (if oname = nname then Some (None, s)
                            else
                              do { sp \<leftarrow> ks_spaces s space;
                                   (found, sp) \<leftarrow> ipc_entry_lookup sp oname;
                                   Some (found, put_space space sp s) });
                         case found of
                           None \<Rightarrow>
                             do { s \<leftarrow> ipc_entry_dealloc space nname nentry s; Some (KERN_INVALID_NAME, s) }
                         | Some oentry \<Rightarrow> ipc_right_rename space oname oentry nname nentry s } } }"

section \<open>Ports and port sets\<close>

definition ipc_port_alloc ::
  "ipc_space_t \<Rightarrow> kernel \<Rightarrow> ((kern_return_t + mach_port_name_t \<times> ipc_port_t) \<times> kernel) option" where
  "ipc_port_alloc space s =
    do { (r, s) \<leftarrow> ipc_object_alloc space IOT_PORT MACH_PORT_TYPE_RECEIVE 0 s;
         case r of
           Inl kr \<Rightarrow> Some (Inl kr, s)
         | Inr (name, port) \<Rightarrow>
             do { s \<leftarrow> upd_port port (ipc_port_init space name) s; Some (Inr (name, port), s) } }"

definition ipc_port_alloc_name ::
  "ipc_space_t \<Rightarrow> mach_port_name_t \<Rightarrow> kernel \<Rightarrow> ((kern_return_t + ipc_port_t) \<times> kernel) option" where
  "ipc_port_alloc_name space name s =
    do { (r, s) \<leftarrow> ipc_object_alloc_name space IOT_PORT MACH_PORT_TYPE_RECEIVE 0 name s;
         case r of
           Inl kr \<Rightarrow> Some (Inl kr, s)
         | Inr port \<Rightarrow> do { s \<leftarrow> upd_port port (ipc_port_init space name) s; Some (Inr port, s) } }"

definition ipc_pset_alloc ::
  "ipc_space_t \<Rightarrow> kernel \<Rightarrow> ((kern_return_t + mach_port_name_t \<times> u32) \<times> kernel) option" where
  "ipc_pset_alloc space s =
    do { (r, s) \<leftarrow> ipc_object_alloc space IOT_PORT_SET MACH_PORT_TYPE_PORT_SET 0 s;
         case r of
           Inl kr \<Rightarrow> Some (Inl kr, s)
         | Inr (name, pset) \<Rightarrow>
             do { ps \<leftarrow> ks_psets s pset;
                  Some (Inr (name, pset),
                        put_pset pset (ps\<lparr>io_receiver_name := name, ips_pset_self := pset\<rparr>) s) } }"

definition ipc_pset_alloc_name ::
  "ipc_space_t \<Rightarrow> mach_port_name_t \<Rightarrow> kernel \<Rightarrow> ((kern_return_t + u32) \<times> kernel) option" where
  "ipc_pset_alloc_name space name s =
    do { (r, s) \<leftarrow> ipc_object_alloc_name space IOT_PORT_SET MACH_PORT_TYPE_PORT_SET 0 name s;
         case r of
           Inl kr \<Rightarrow> Some (Inl kr, s)
         | Inr pset \<Rightarrow>
             do { ps \<leftarrow> ks_psets s pset;
                  Some (Inr pset, put_pset pset (ps\<lparr>io_receiver_name := name, ips_pset_self := pset\<rparr>) s) } }"

definition ipc_port_lookup_notify ::
  "ipc_space_t \<Rightarrow> mach_port_name_t \<Rightarrow> kernel \<Rightarrow> (ipc_port_t \<times> kernel) option" where
  "ipc_port_lookup_notify space name s =
    do { sp \<leftarrow> ks_spaces s space;
         kassert (is_active sp);
         (r, sp) \<leftarrow> ipc_entry_lookup sp name;
         s \<leftarrow> Some (put_space space sp s);
         case r of
           None \<Rightarrow> Some (IP_NULL, s)
         | Some entry \<Rightarrow>
             do { e \<leftarrow> get_entry space entry s;
                  if \<not> has (ie_bits e) MACH_PORT_TYPE_RECEIVE then Some (IP_NULL, s)
                  else
                    (let port = ie_object e in
                     do { kassert (port \<noteq> IP_NULL);
                          p \<leftarrow> ks_ports s port;
                          kassert (io_active p);
                          kassert (io_receiver_name p = name);
                          kassert (ip_receiver p = space);
                          s \<leftarrow> ip_reference port s;
                          s \<leftarrow> upd_port port (\<lambda>p. p\<lparr>ip_sorights := ip_sorights p + 1\<rparr>) s;
                          Some (port, s) }) } }"

definition ipc_port_copyout_send ::
  "ipc_port_t \<Rightarrow> ipc_space_t \<Rightarrow> kernel \<Rightarrow> (mach_port_name_t \<times> kernel) option" where
  "ipc_port_copyout_send sright space s =
    (if IP_VALID sright then
       do { (r, s) \<leftarrow> ipc_object_copyout space sright MACH_MSG_TYPE_PORT_SEND True s;
            case r of
              Inr name \<Rightarrow> Some (name, s)
            | Inl kr \<Rightarrow>
                do { s \<leftarrow> ipc_port_release_send sright s;
                     Some (if kr = KERN_INVALID_CAPABILITY then MACH_PORT_DEAD else MACH_PORT_NULL, s) } }
     else Some (sright, s))"

end
