(* ===== verification/Ipc_Space.thy ===== *)
theory Ipc_Space
  imports Ipc_Object
begin

text \<open>
  Spaces (\<^verbatim>\<open>osfmk/ipc/ipc_space.c\<close>): creation, cleaning and destruction. Nobody else grows the
  table meanwhile, so that the loops that wait for \<open>is_growing\<close> do not arise.
\<close>

section \<open>References\<close>

definition ipc_space_reference :: "ipc_space_t \<Rightarrow> kernel \<Rightarrow> kernel option" where
  "ipc_space_reference space s =
    do { sp \<leftarrow> ks_spaces s space;
         kassert (0 < is_references sp);
         Some (put_space space (sp\<lparr>is_references := is_references sp + 1\<rparr>) s) }"

definition ipc_space_release :: "ipc_space_t \<Rightarrow> kernel \<Rightarrow> kernel option" where
  "ipc_space_release space s =
    do { sp \<leftarrow> ks_spaces s space;
         kassert (0 < is_references sp);
         let refs = is_references sp - 1 in
         Some (if refs = 0 then s\<lparr>ks_spaces := (ks_spaces s)(space := None)\<rparr>
               else put_space space (sp\<lparr>is_references := refs\<rparr>) s) }"

section \<open>Creation\<close>

text \<open>The table of a new space: every element has the generation -1, the list of the free
  elements runs in ascending order.\<close>

definition ipc_space_table :: "nat \<Rightarrow> ipc_entry list" where
  "ipc_space_table new_size =
    map (\<lambda>index. ie_zero\<lparr>ie_bits := IE_BITS_GEN_MASK,
                          ie_request := (if index = new_size - 1 then 0 else of_nat (index + 1))\<rparr>)
      [0..<new_size]"

text \<open>The splay tree in the memory of a new space, which \<^verbatim>\<open>ipc_splay_tree_init\<close> makes empty.\<close>

definition ist_memory :: "ipc_entry ipc_splay_tree" where
  "ist_memory = \<lparr>ist_name = 0, ist_root = Leaf, ist_ltree = [], ist_rtree = []\<rparr>"

text \<open>\<open>initial\<close> points into \<^verbatim>\<open>ipc_table_entries\<close>. \<open>fast\<close> is what the memory of the space holds in
  \<open>is_fast\<close>, a field that the routine leaves alone.\<close>

definition ipc_space_create ::
  "nat \<Rightarrow> bool \<Rightarrow> kernel \<Rightarrow> ((kern_return_t + ipc_space_t) \<times> kernel) option" where
  "ipc_space_create initial fast s =
    (case kalloc s of (space, s) \<Rightarrow>
       if space = 0 then Some (Inl KERN_RESOURCE_SHORTAGE, s)
       else
         (case kalloc s of (table, s) \<Rightarrow>
            if table = 0 then Some (Inl KERN_RESOURCE_SHORTAGE, s)
            else
              do { new_size \<leftarrow> array_get (ks_table_entries s) initial;
                   kassert (0 < new_size);
                   Some (Inr space,
                     put_space space
                       \<lparr>is_references = 2, is_active = True, is_growing = False,
                        is_table = ipc_space_table new_size, is_table_size = new_size,
                        is_table_next = initial + 1, is_tree = ipc_splay_tree_init ist_memory,
                        is_tree_total = 0, is_tree_small = 0, is_tree_hash = 0, is_fast = fast\<rparr> s) }))"

text \<open>A special space holds no rights. \<open>memory\<close> is what the new memory holds: the routine sets two
  fields.\<close>

definition ipc_space_create_special ::
  "ipc_space \<Rightarrow> kernel \<Rightarrow> (kern_return_t + ipc_space_t) \<times> kernel" where
  "ipc_space_create_special memory s =
    (case kalloc s of (space, s) \<Rightarrow>
       if space = 0 then (Inl KERN_RESOURCE_SHORTAGE, s)
       else (Inr space, put_space space (memory\<lparr>is_references := 1, is_active := False\<rparr>) s))"

section \<open>Cleaning\<close>

text \<open>The loop over the table: every right is destroyed.\<close>

fun ipc_space_clean_table :: "ipc_space_t \<Rightarrow> nat list \<Rightarrow> kernel \<Rightarrow> kernel option" where
  "ipc_space_clean_table space [] s = Some s"
| "ipc_space_clean_table space (index # is) s =
    do { e \<leftarrow> get_entry space (Table_entry index) s;
         s \<leftarrow> (if IE_BITS_TYPE (ie_bits e) \<noteq> MACH_PORT_TYPE_NONE then
                do { (kr, s) \<leftarrow> ipc_right_destroy space
                                  (MACH_PORT_MAKE (of_nat index) (IE_BITS_GEN (ie_bits e))) (Table_entry index) s;
                     Some s }
              else Some s);
         ipc_space_clean_table space is s }"

text \<open>The tree that \<open>ist_root\<close> points to in the middle of a traversal, while it still points to
  the node of the outermost frame: the traversal has turned around one link of that node.\<close>

fun ipc_splay_traverse_broken :: "'e ite_tree \<Rightarrow> 'e ist_frame list \<Rightarrow> 'e ite_tree" where
  "ipc_splay_traverse_broken t [] = t"
| "ipc_splay_traverse_broken t [Went_left n r] = Node Leaf n r"
| "ipc_splay_traverse_broken t [Went_right l n] = Node l n Leaf"
| "ipc_splay_traverse_broken t (f # f' # fs) = ipc_splay_traverse_broken t (f' # fs)"

text \<open>The loop over the tree. An entry without a right is deleted by the traversal; an entry with
  a right is destroyed by a call, after \<^verbatim>\<open>ipc_splay_traverse_finish\<close>, and the traversal starts
  again. \<open>rooted\<close> tells that \<open>ist_root\<close> is still allocated: it is not once the traversal has
  deleted the root.\<close>

partial_function (option) ipc_space_clean_tree ::
  "ipc_space_t \<Rightarrow> ipc_entry ist_traversal \<Rightarrow> bool \<Rightarrow> kernel \<Rightarrow> kernel option" where
  "ipc_space_clean_tree space trav rooted s =
    do { sp \<leftarrow> ks_spaces s space;
         case trav of
           At_end t \<Rightarrow> Some (put_space space (sp\<lparr>is_tree := ipc_splay_traverse_finish (is_tree sp) t\<rparr>) s)
         | At_entry t fs \<Rightarrow>
             (case t of
                Leaf \<Rightarrow> None
              | Node l n r \<Rightarrow>
                  if IE_BITS_TYPE (ie_bits (snd n)) \<noteq> MACH_PORT_TYPE_NONE then
                    do { kassert rooted;
                         let tree = ipc_splay_traverse_finish (is_tree sp) (ipc_splay_traverse_broken t fs);
                             s = put_space space (sp\<lparr>is_tree := tree\<rparr>) s in
                         do { (kr, s) \<leftarrow> ipc_right_destroy space (fst n) (Tree_entry (fst n)) s;
                              sp \<leftarrow> ks_spaces s space;
                              ipc_space_clean_tree space (ipc_splay_traverse_start (is_tree sp)) True s } }
                  else
                    do { trav \<leftarrow> ipc_splay_traverse_next True trav;
                         ipc_space_clean_tree space trav (rooted \<and> fs \<noteq> []) s }) }"

definition ipc_space_clean :: "ipc_space_t \<Rightarrow> kernel \<Rightarrow> kernel option" where
  "ipc_space_clean space s =
    do { sp \<leftarrow> ks_spaces s space;
         s \<leftarrow> ipc_space_clean_table space [0..<is_table_size sp] s;
         sp \<leftarrow> ks_spaces s space;
         ipc_space_clean_tree space (ipc_splay_traverse_start (is_tree sp)) True s }"

section \<open>Destruction\<close>

fun ipc_space_destroy_table :: "ipc_space_t \<Rightarrow> nat list \<Rightarrow> kernel \<Rightarrow> kernel option" where
  "ipc_space_destroy_table space [] s = Some s"
| "ipc_space_destroy_table space (index # is) s =
    do { e \<leftarrow> get_entry space (Table_entry index) s;
         s \<leftarrow> (if IE_BITS_TYPE (ie_bits e) \<noteq> MACH_PORT_TYPE_NONE then
                ipc_right_clean space (MACH_PORT_MAKE (of_nat index) (IE_BITS_GEN (ie_bits e)))
                  (Table_entry index) s
              else Some s);
         ipc_space_destroy_table space is s }"

partial_function (option) ipc_space_destroy_tree ::
  "ipc_space_t \<Rightarrow> ipc_entry ist_traversal \<Rightarrow> kernel \<Rightarrow> (ipc_entry ite_tree \<times> kernel) option" where
  "ipc_space_destroy_tree space trav s =
    (case trav of
       At_end t \<Rightarrow> Some (t, s)
     | At_entry t fs \<Rightarrow>
         (case t of
            Leaf \<Rightarrow> None
          | Node l n r \<Rightarrow>
              do { kassert (IE_BITS_TYPE (ie_bits (snd n)) \<noteq> MACH_PORT_TYPE_NONE);
                   s \<leftarrow> ipc_right_clean space (fst n) (Tree_entry (fst n)) s;
                   s \<leftarrow> (if IE_BITS_TYPE (ie_bits (snd n)) = MACH_PORT_TYPE_SEND
                        then ipc_hash_global_delete space (ie_object (snd n)) (fst n) (snd n) s else Some s);
                   trav \<leftarrow> ipc_splay_traverse_next True trav;
                   ipc_space_destroy_tree space trav s }))"

definition ipc_space_destroy :: "ipc_space_t \<Rightarrow> kernel \<Rightarrow> kernel option" where
  "ipc_space_destroy space s =
    do { sp \<leftarrow> ks_spaces s space;
         if \<not> is_active sp then Some s
         else
           do { s \<leftarrow> Some (put_space space (sp\<lparr>is_active := False\<rparr>) s);
                s \<leftarrow> ipc_space_destroy_table space [0..<is_table_size sp] s;
                s \<leftarrow> upd_space space (\<lambda>sp. sp\<lparr>is_table := [], is_table_size := 0\<rparr>) s;
                sp \<leftarrow> ks_spaces s space;
                (t, s) \<leftarrow> ipc_space_destroy_tree space (ipc_splay_traverse_start (is_tree sp)) s;
                s \<leftarrow> upd_space space (\<lambda>sp. sp\<lparr>is_tree := ipc_splay_traverse_finish (is_tree sp) t\<rparr>) s;
                ipc_space_release space s } }"

end
