(* ===== verification/Mach_Port.thy ===== *)
theory Mach_Port
  imports Ipc_Space
begin

text \<open>
  The kernel calls on port names (\<^verbatim>\<open>osfmk/ipc/mach_port.c\<close>). Arguments that come from the user
  are words: the kind of a rnum and the type of a rnum in a message are decoded here. Memory
  for a result is a list of elements and a capacity; storing beyond it is an access outside the
  array.
\<close>

section \<open>Arguments\<close>

definition mach_port_right_of :: "u32 \<Rightarrow> mach_port_right_t option" where
  "mach_port_right_of rnum =
    (if rnum = 0 then Some MACH_PORT_RIGHT_SEND
     else if rnum = 1 then Some MACH_PORT_RIGHT_RECEIVE
     else if rnum = 2 then Some MACH_PORT_RIGHT_SEND_ONCE
     else if rnum = 3 then Some MACH_PORT_RIGHT_PORT_SET
     else if rnum = 4 then Some MACH_PORT_RIGHT_DEAD_NAME
     else None)"

definition mach_msg_type_name_of :: "u32 \<Rightarrow> mach_msg_type_name_t option" where
  "mach_msg_type_name_of t =
    (if t = 16 then Some MACH_MSG_TYPE_MOVE_RECEIVE
     else if t = 17 then Some MACH_MSG_TYPE_MOVE_SEND
     else if t = 18 then Some MACH_MSG_TYPE_MOVE_SEND_ONCE
     else if t = 19 then Some MACH_MSG_TYPE_COPY_SEND
     else if t = 20 then Some MACH_MSG_TYPE_MAKE_SEND
     else if t = 21 then Some MACH_MSG_TYPE_MAKE_SEND_ONCE
     else if t = 22 then Some MACH_MSG_TYPE_COPY_RECEIVE
     else None)"

definition MACH_MSG_TYPE_PORT_ANY :: "u32 \<Rightarrow> bool" where
  "MACH_MSG_TYPE_PORT_ANY x \<longleftrightarrow> 16 \<le> x \<and> x \<le> 21"

definition MACH_MSG_TYPE_PORT_ANY_RIGHT :: "u32 \<Rightarrow> bool" where
  "MACH_MSG_TYPE_PORT_ANY_RIGHT x \<longleftrightarrow> 16 \<le> x \<and> x \<le> 18"

abbreviation (input) IS_NULL :: ipc_space_t where "IS_NULL \<equiv> 0"

definition round_page :: "nat \<Rightarrow> nat" where
  "round_page n = (n + 4095) div 4096 * 4096"

section \<open>The names of a space\<close>

definition mach_port_names_helper ::
  "u32 \<Rightarrow> ipc_entry \<Rightarrow> mach_port_name_t \<Rightarrow> nat \<Rightarrow> (mach_port_name_t \<times> u32) list \<Rightarrow> kernel \<Rightarrow>
   (mach_port_name_t \<times> u32) list option" where
  "mach_port_names_helper timestamp entry name capacity pnames s =
    do { (bits, request) \<leftarrow>
           (if has (ie_bits entry) MACH_PORT_TYPE_SEND_RIGHTS then
              do { kassert (ie_object entry \<noteq> IP_NULL);
                   p \<leftarrow> ks_ports s (ie_object entry);
                   if \<not> io_active p \<and> IP_TIMESTAMP_ORDER (ip_timestamp p) timestamp then
                     (let bits = bits_clear (ie_bits entry) IE_BITS_TYPE_MASK OR MACH_PORT_TYPE_DEAD_NAME in
                      Some (if ie_request entry \<noteq> 0 then bits + 1 else bits, 0))
                   else Some (ie_bits entry, ie_request entry) }
            else Some (ie_bits entry, ie_request entry));
         let type = IE_BITS_TYPE bits;
             type = (if request \<noteq> 0 then type OR MACH_PORT_TYPE_DNREQUEST else type) in
         do { kassert (length pnames < capacity); Some (pnames @ [(name, type)]) } }"

fun mach_port_names_table ::
  "u32 \<Rightarrow> nat \<Rightarrow> ipc_entry list \<Rightarrow> nat \<Rightarrow> (mach_port_name_t \<times> u32) list \<Rightarrow> kernel \<Rightarrow>
   (mach_port_name_t \<times> u32) list option" where
  "mach_port_names_table timestamp index [] capacity pnames s = Some pnames"
| "mach_port_names_table timestamp index (e # es) capacity pnames s =
    do { pnames \<leftarrow>
           (if IE_BITS_TYPE (ie_bits e) \<noteq> MACH_PORT_TYPE_NONE
            then mach_port_names_helper timestamp e (MACH_PORT_MAKE (of_nat index) (IE_BITS_GEN (ie_bits e)))
                   capacity pnames s
            else Some pnames);
         mach_port_names_table timestamp (index + 1) es capacity pnames s }"

fun mach_port_names_tree ::
  "u32 \<Rightarrow> ipc_entry ite list \<Rightarrow> nat \<Rightarrow> (mach_port_name_t \<times> u32) list \<Rightarrow> kernel \<Rightarrow>
   (mach_port_name_t \<times> u32) list option" where
  "mach_port_names_tree timestamp [] capacity pnames s = Some pnames"
| "mach_port_names_tree timestamp ((name, e) # es) capacity pnames s =
    do { kassert (IE_BITS_TYPE (ie_bits e) \<noteq> MACH_PORT_TYPE_NONE);
         pnames \<leftarrow> mach_port_names_helper timestamp e name capacity pnames s;
         mach_port_names_tree timestamp es capacity pnames s }"

text \<open>The two buffers have the same size. The loop that allocates them runs at most twice,
  because the space does not change in between here.\<close>

definition mach_port_names ::
  "ipc_space_t \<Rightarrow> kernel \<Rightarrow> ((kern_return_t + (mach_port_name_t \<times> u32) list) \<times> kernel) option" where
  "mach_port_names space s =
    (if space = IS_NULL then Some (Inl KERN_INVALID_TASK, s)
     else
       do { sp \<leftarrow> ks_spaces s space;
            if \<not> is_active sp then Some (Inl KERN_INVALID_TASK, s)
            else
              (let bound = is_table_size sp + unat (is_tree_total sp);
                   sz = round_page (bound * 4) in
               case (if sz = 0 then (1, s) else kalloc s) of (addr1, s) \<Rightarrow>
                 if addr1 = 0 then Some (Inl KERN_RESOURCE_SHORTAGE, s)
                 else
                   (case (if sz = 0 then (1, s) else kalloc s) of (addr2, s) \<Rightarrow>
                      if addr2 = 0 then Some (Inl KERN_RESOURCE_SHORTAGE, s)
                      else
                        (case ipc_port_timestamp s of (timestamp, s) \<Rightarrow>
                           do { pnames \<leftarrow> mach_port_names_table timestamp 0 (take (is_table_size sp) (is_table sp))
                                           (sz div 4) [] s;
                                (seen, tree) \<leftarrow> ipc_splay_traverse (\<lambda>_. False) (is_tree sp);
                                pnames \<leftarrow> mach_port_names_tree timestamp seen (sz div 4) pnames s;
                                Some (Inr pnames, put_space space (sp\<lparr>is_tree := tree\<rparr>) s) }))) })"

section \<open>Calls on one name\<close>

definition mach_port_type ::
  "ipc_space_t \<Rightarrow> mach_port_name_t \<Rightarrow> kernel \<Rightarrow> ((kern_return_t + u32) \<times> kernel) option" where
  "mach_port_type space name s =
    (if space = IS_NULL then Some (Inl KERN_INVALID_TASK, s)
     else
       do { (r, s) \<leftarrow> ipc_right_lookup_write space name s;
            case r of
              Inl kr \<Rightarrow> Some (Inl kr, s)
            | Inr entry \<Rightarrow>
                do { ((type, urefs), s) \<leftarrow> ipc_right_info space name entry s; Some (Inr type, s) } })"

definition mach_port_rename ::
  "ipc_space_t \<Rightarrow> mach_port_name_t \<Rightarrow> mach_port_name_t \<Rightarrow> kernel \<Rightarrow> (kern_return_t \<times> kernel) option" where
  "mach_port_rename space oname nname s =
    (if space = IS_NULL then Some (KERN_INVALID_TASK, s)
     else if \<not> MACH_PORT_VALID nname then Some (KERN_INVALID_VALUE, s)
     else ipc_object_rename space oname nname s)"

text \<open>\<open>qos_name\<close> is the name in \<^verbatim>\<open>*namep\<close> when the flag \<^verbatim>\<open>qosp->name\<close> is set; \<open>rt\<close> is \<^verbatim>\<open>qosp->rt\<close>,
  which is refused without MACH_RT. The result is the name in \<^verbatim>\<open>*namep\<close> afterwards.\<close>

definition mach_port_allocate_full ::
  "ipc_space_t \<Rightarrow> u32 \<Rightarrow> u32 \<Rightarrow> mach_port_name_t option \<Rightarrow> bool \<Rightarrow> kernel \<Rightarrow>
   ((kern_return_t + mach_port_name_t) \<times> kernel) option" where
  "mach_port_allocate_full space rnum subsystem qos_name rt s =
    (if space = IS_NULL then Some (Inl KERN_INVALID_TASK, s)
     else
       do { sp \<leftarrow> ks_spaces s space;
            if (\<exists>name. qos_name = Some name \<and> \<not> MACH_PORT_VALID name) then Some (Inl KERN_INVALID_VALUE, s)
            else if qos_name \<noteq> None \<and> is_fast sp then Some (Inl KERN_FAILURE, s)
            else if subsystem \<noteq> 0 \<and> mach_port_right_of rnum \<noteq> Some MACH_PORT_RIGHT_RECEIVE
            then Some (Inl KERN_INVALID_VALUE, s)
            else if rt then Some (Inl KERN_INVALID_ARGUMENT, s)
            else
              (case mach_port_right_of rnum of
                 Some MACH_PORT_RIGHT_RECEIVE \<Rightarrow>
                   do { (r, s) \<leftarrow>
                          (case qos_name of
                             Some name \<Rightarrow>
                               do { (r, s) \<leftarrow> ipc_port_alloc_name space name s;
                                    Some (case r of Inl kr \<Rightarrow> Inl kr | Inr port \<Rightarrow> Inr (name, port), s) }
                           | None \<Rightarrow> ipc_port_alloc space s);
                        case r of
                          Inl kr \<Rightarrow> Some (Inl kr, s)
                        | Inr (name, port) \<Rightarrow>
                            do { s \<leftarrow> (if subsystem \<noteq> 0 then
                                        do { s \<leftarrow> upd_port port (\<lambda>p. p\<lparr>ip_subsystem := subsystem\<rparr>) s;
                                             Some (log_event (Subsystem_referenced subsystem) s) }
                                      else Some s);
                                 Some (Inr name, s) } }
               | Some MACH_PORT_RIGHT_PORT_SET \<Rightarrow>
                   (case qos_name of
                      Some name \<Rightarrow>
                        do { (r, s) \<leftarrow> ipc_pset_alloc_name space name s;
                             Some (case r of Inl kr \<Rightarrow> Inl kr | Inr pset \<Rightarrow> Inr name, s) }
                    | None \<Rightarrow>
                        do { (r, s) \<leftarrow> ipc_pset_alloc space s;
                             Some (case r of Inl kr \<Rightarrow> Inl kr | Inr (name, pset) \<Rightarrow> Inr name, s) })
               | Some MACH_PORT_RIGHT_DEAD_NAME \<Rightarrow> ipc_object_alloc_dead space s
               | _ \<Rightarrow> Some (Inl KERN_INVALID_VALUE, s)) })"

definition mach_port_allocate ::
  "ipc_space_t \<Rightarrow> u32 \<Rightarrow> kernel \<Rightarrow> ((kern_return_t + mach_port_name_t) \<times> kernel) option" where
  "mach_port_allocate space rnum s = mach_port_allocate_full space rnum 0 None False s"

definition mach_port_allocate_name ::
  "ipc_space_t \<Rightarrow> u32 \<Rightarrow> mach_port_name_t \<Rightarrow> kernel \<Rightarrow>
   ((kern_return_t + mach_port_name_t) \<times> kernel) option" where
  "mach_port_allocate_name space rnum name s = mach_port_allocate_full space rnum 0 (Some name) False s"

definition mach_port_allocate_qos ::
  "ipc_space_t \<Rightarrow> u32 \<Rightarrow> mach_port_name_t option \<Rightarrow> bool \<Rightarrow> kernel \<Rightarrow>
   ((kern_return_t + mach_port_name_t) \<times> kernel) option" where
  "mach_port_allocate_qos space rnum qos_name rt s = mach_port_allocate_full space rnum 0 qos_name rt s"

definition mach_port_allocate_subsystem ::
  "ipc_space_t \<Rightarrow> u32 \<Rightarrow> kernel \<Rightarrow> ((kern_return_t + mach_port_name_t) \<times> kernel) option" where
  "mach_port_allocate_subsystem space subsystem s = mach_port_allocate_full space 1 subsystem None False s"

definition mach_port_destroy ::
  "ipc_space_t \<Rightarrow> mach_port_name_t \<Rightarrow> kernel \<Rightarrow> (kern_return_t \<times> kernel) option" where
  "mach_port_destroy space name s =
    (if space = IS_NULL then Some (KERN_INVALID_TASK, s)
     else
       do { (r, s) \<leftarrow> ipc_right_lookup_write space name s;
            case r of Inl kr \<Rightarrow> Some (kr, s) | Inr entry \<Rightarrow> ipc_right_destroy space name entry s })"

definition mach_port_deallocate ::
  "ipc_space_t \<Rightarrow> mach_port_name_t \<Rightarrow> kernel \<Rightarrow> (kern_return_t \<times> kernel) option" where
  "mach_port_deallocate space name s =
    (if space = IS_NULL then Some (KERN_INVALID_TASK, s)
     else
       do { (r, s) \<leftarrow> ipc_right_lookup_write space name s;
            case r of Inl kr \<Rightarrow> Some (kr, s) | Inr entry \<Rightarrow> ipc_right_dealloc space name entry s })"

definition mach_port_get_refs ::
  "ipc_space_t \<Rightarrow> mach_port_name_t \<Rightarrow> u32 \<Rightarrow> kernel \<Rightarrow> ((kern_return_t + u32) \<times> kernel) option" where
  "mach_port_get_refs space name rnum s =
    (if space = IS_NULL then Some (Inl KERN_INVALID_TASK, s)
     else
       (case mach_port_right_of rnum of
          None \<Rightarrow> Some (Inl KERN_INVALID_VALUE, s)
        | Some rt \<Rightarrow>
            do { (r, s) \<leftarrow> ipc_right_lookup_write space name s;
                 case r of
                   Inl kr \<Rightarrow> Some (Inl kr, s)
                 | Inr entry \<Rightarrow>
                     do { ((type, urefs), s) \<leftarrow> ipc_right_info space name entry s;
                          if type AND MACH_PORT_TYPE rt \<noteq> 0 then
                            (if rt = MACH_PORT_RIGHT_SEND_ONCE then do { kassert (urefs = 1); Some (Inr 1, s) }
                             else if rt = MACH_PORT_RIGHT_PORT_SET \<or> rt = MACH_PORT_RIGHT_RECEIVE then Some (Inr 1, s)
                             else do { kassert (0 < urefs); Some (Inr urefs, s) })
                          else Some (Inr 0, s) } }))"

definition mach_port_mod_refs ::
  "ipc_space_t \<Rightarrow> mach_port_name_t \<Rightarrow> u32 \<Rightarrow> u32 \<Rightarrow> kernel \<Rightarrow> (kern_return_t \<times> kernel) option" where
  "mach_port_mod_refs space name rnum delta s =
    (if space = IS_NULL then Some (KERN_INVALID_TASK, s)
     else
       (case mach_port_right_of rnum of
          None \<Rightarrow> Some (KERN_INVALID_VALUE, s)
        | Some rt \<Rightarrow>
            do { (r, s) \<leftarrow> ipc_right_lookup_write space name s;
                 case r of Inl kr \<Rightarrow> Some (kr, s) | Inr entry \<Rightarrow> ipc_right_delta space name entry rt delta s }))"

section \<open>Receive rights\<close>

definition ipc_port_translate_receive ::
  "ipc_space_t \<Rightarrow> mach_port_name_t \<Rightarrow> kernel \<Rightarrow> ((kern_return_t + ipc_port_t) \<times> kernel) option" where
  "ipc_port_translate_receive space name s = ipc_object_translate space name MACH_PORT_RIGHT_RECEIVE s"

definition mach_port_set_mscount ::
  "ipc_space_t \<Rightarrow> mach_port_name_t \<Rightarrow> u32 \<Rightarrow> kernel \<Rightarrow> (kern_return_t \<times> kernel) option" where
  "mach_port_set_mscount space name mscount s =
    (if space = IS_NULL then Some (KERN_INVALID_TASK, s)
     else
       do { (r, s) \<leftarrow> ipc_port_translate_receive space name s;
            case r of
              Inl kr \<Rightarrow> Some (kr, s)
            | Inr port \<Rightarrow> do { s \<leftarrow> ipc_port_set_mscount port mscount s; Some (KERN_SUCCESS, s) } })"

definition mach_port_set_seqno ::
  "ipc_space_t \<Rightarrow> mach_port_name_t \<Rightarrow> u32 \<Rightarrow> kernel \<Rightarrow> (kern_return_t \<times> kernel) option" where
  "mach_port_set_seqno space name seqno s =
    (if space = IS_NULL then Some (KERN_INVALID_TASK, s)
     else
       do { (r, s) \<leftarrow> ipc_port_translate_receive space name s;
            case r of
              Inl kr \<Rightarrow> Some (kr, s)
            | Inr port \<Rightarrow>
                do { s \<leftarrow> upd_port port (\<lambda>p. p\<lparr>ip_messages := ipc_mqueue_set_seqno seqno (ip_messages p)\<rparr>) s;
                     Some (KERN_SUCCESS, s) } })"

section \<open>Port sets\<close>

text \<open>The helper counts the members and stores as many names as fit.\<close>

definition mach_port_gst_helper ::
  "u32 \<Rightarrow> ipc_port_t \<Rightarrow> nat \<Rightarrow> mach_port_name_t list \<times> nat \<Rightarrow> kernel \<Rightarrow> (mach_port_name_t list \<times> nat) option" where
  "mach_port_gst_helper pset port maxnames acc s =
    do { kassert (port \<noteq> IP_NULL);
         p \<leftarrow> ks_ports s port;
         kassert (io_active p);
         kassert (io_receiver_name p \<noteq> MACH_PORT_NULL);
         member \<leftarrow> ipc_pset_member pset port s;
         Some (case acc of (pnames, actual) \<Rightarrow>
                 if member then (if actual < maxnames then pnames @ [io_receiver_name p] else pnames, actual + 1)
                 else acc) }"

fun mach_port_gst_entries ::
  "u32 \<Rightarrow> ipc_entry list \<Rightarrow> nat \<Rightarrow> mach_port_name_t list \<times> nat \<Rightarrow> kernel \<Rightarrow> (mach_port_name_t list \<times> nat) option" where
  "mach_port_gst_entries pset [] maxnames acc s = Some acc"
| "mach_port_gst_entries pset (e # es) maxnames acc s =
    do { acc \<leftarrow> (if has (ie_bits e) MACH_PORT_TYPE_RECEIVE
                then mach_port_gst_helper pset (ie_object e) maxnames acc s else Some acc);
         mach_port_gst_entries pset es maxnames acc s }"

partial_function (option) mach_port_get_set_status_loop ::
  "ipc_space_t \<Rightarrow> mach_port_name_t \<Rightarrow> nat \<Rightarrow> kernel \<Rightarrow>
   ((kern_return_t + mach_port_name_t list) \<times> kernel) option" where
  "mach_port_get_set_status_loop space name sz s =
    (case kalloc s of (addr, s) \<Rightarrow>
       if addr = 0 then Some (Inl KERN_RESOURCE_SHORTAGE, s)
       else
         do { (r, s) \<leftarrow> ipc_right_lookup_write space name s;
              case r of
                Inl kr \<Rightarrow> Some (Inl kr, s)
              | Inr entry \<Rightarrow>
                  do { e \<leftarrow> get_entry space entry s;
                       if IE_BITS_TYPE (ie_bits e) \<noteq> MACH_PORT_TYPE_PORT_SET then Some (Inl KERN_INVALID_RIGHT, s)
                       else
                         do { kassert (ie_object e \<noteq> 0);
                              let maxnames = sz div 4 in
                              do { sp \<leftarrow> ks_spaces s space;
                                   acc \<leftarrow> mach_port_gst_entries (ie_object e) (take (is_table_size sp) (is_table sp))
                                            maxnames ([], 0) s;
                                   (seen, tree) \<leftarrow> ipc_splay_traverse (\<lambda>_. False) (is_tree sp);
                                   kassert (\<forall>x \<in> set seen. IE_BITS_TYPE (ie_bits (snd x)) \<noteq> MACH_PORT_TYPE_NONE);
                                   (pnames, actual) \<leftarrow> mach_port_gst_entries (ie_object e) (map snd seen) maxnames acc s;
                                   let s = put_space space (sp\<lparr>is_tree := tree\<rparr>) s in
                                   if actual \<le> maxnames then Some (Inr pnames, s)
                                   else mach_port_get_set_status_loop space name (round_page (actual * 4) + 4096) s } } } })"

definition mach_port_get_set_status ::
  "ipc_space_t \<Rightarrow> mach_port_name_t \<Rightarrow> kernel \<Rightarrow> ((kern_return_t + mach_port_name_t list) \<times> kernel) option" where
  "mach_port_get_set_status space name s =
    (if space = IS_NULL then Some (Inl KERN_INVALID_TASK, s)
     else mach_port_get_set_status_loop space name 4096 s)"

definition mach_port_move_member ::
  "ipc_space_t \<Rightarrow> mach_port_name_t \<Rightarrow> mach_port_name_t \<Rightarrow> kernel \<Rightarrow> (kern_return_t \<times> kernel) option" where
  "mach_port_move_member space member after s =
    (if space = IS_NULL then Some (KERN_INVALID_TASK, s)
     else
       do { (r, s) \<leftarrow> ipc_right_lookup_write space member s;
            case r of
              Inl kr \<Rightarrow> Some (kr, s)
            | Inr entry \<Rightarrow>
                do { e \<leftarrow> get_entry space entry s;
                     if \<not> has (ie_bits e) MACH_PORT_TYPE_RECEIVE then Some (KERN_INVALID_RIGHT, s)
                     else
                       (let port = ie_object e in
                        do { kassert (port \<noteq> IP_NULL);
                             (nset, s) \<leftarrow>
                               (if after = MACH_PORT_NULL then Some (Inr 0, s)
                                else
                                  do { sp \<leftarrow> ks_spaces s space;
                                       (r, sp) \<leftarrow> ipc_entry_lookup sp after;
                                       s \<leftarrow> Some (put_space space sp s);
                                       case r of
                                         None \<Rightarrow> Some (Inl KERN_INVALID_NAME, s)
                                       | Some entry \<Rightarrow>
                                           do { e \<leftarrow> get_entry space entry s;
                                                if \<not> has (ie_bits e) MACH_PORT_TYPE_PORT_SET
                                                then Some (Inl KERN_INVALID_RIGHT, s)
                                                else do { kassert (ie_object e \<noteq> 0); Some (Inr (ie_object e), s) } } });
                             case nset of
                               Inl kr \<Rightarrow> Some (kr, s)
                             | Inr pset \<Rightarrow>
                                 do { (kr, s) \<leftarrow> ipc_pset_remove_all port s;
                                      if pset \<noteq> 0 then ipc_pset_add pset port s else Some (KERN_SUCCESS, s) } }) } })"

text \<open>The pattern of the calls that add and remove one membership.\<close>

definition mach_port_translate_member ::
  "ipc_space_t \<Rightarrow> mach_port_name_t \<Rightarrow> mach_port_name_t \<Rightarrow> kernel \<Rightarrow>
   ((kern_return_t + u32 \<times> ipc_port_t) \<times> kernel) option" where
  "mach_port_translate_member space name pset_name s =
    do { (r, s) \<leftarrow> ipc_object_translate space pset_name MACH_PORT_RIGHT_PORT_SET s;
         case r of
           Inl kr \<Rightarrow> Some (Inl kr, s)
         | Inr pset_obj \<Rightarrow>
             do { (r, s) \<leftarrow> ipc_object_translate space name MACH_PORT_RIGHT_RECEIVE s;
                  Some (case r of Inl kr \<Rightarrow> Inl kr | Inr obj \<Rightarrow> Inr (pset_obj, obj), s) } }"

definition mach_port_insert_member ::
  "ipc_space_t \<Rightarrow> mach_port_name_t \<Rightarrow> mach_port_name_t \<Rightarrow> kernel \<Rightarrow> (kern_return_t \<times> kernel) option" where
  "mach_port_insert_member space name pset_name s =
    (if space = IS_NULL then Some (KERN_INVALID_TASK, s)
     else
       do { (r, s) \<leftarrow> mach_port_translate_member space name pset_name s;
            case r of Inl kr \<Rightarrow> Some (kr, s) | Inr (pset, port) \<Rightarrow> ipc_pset_add pset port s })"

definition mach_port_extract_member ::
  "ipc_space_t \<Rightarrow> mach_port_name_t \<Rightarrow> mach_port_name_t \<Rightarrow> kernel \<Rightarrow> (kern_return_t \<times> kernel) option" where
  "mach_port_extract_member space name pset_name s =
    (if space = IS_NULL then Some (KERN_INVALID_TASK, s)
     else
       do { (r, s) \<leftarrow> mach_port_translate_member space name pset_name s;
            case r of Inl kr \<Rightarrow> Some (kr, s) | Inr (pset, port) \<Rightarrow> ipc_pset_remove pset port s })"

section \<open>Notifications\<close>

abbreviation MACH_NOTIFY_PORT_DESTROYED :: u32 where "MACH_NOTIFY_PORT_DESTROYED \<equiv> 0x45"
abbreviation MACH_NOTIFY_NO_SENDERS :: u32 where "MACH_NOTIFY_NO_SENDERS \<equiv> 0x46"
abbreviation MACH_NOTIFY_DEAD_NAME :: u32 where "MACH_NOTIFY_DEAD_NAME \<equiv> 0x48"

definition mach_port_request_notification ::
  "ipc_space_t \<Rightarrow> mach_port_name_t \<Rightarrow> u32 \<Rightarrow> u32 \<Rightarrow> ipc_port_t \<Rightarrow> kernel \<Rightarrow>
   ((kern_return_t + ipc_port_t) \<times> kernel) option" where
  "mach_port_request_notification space name msg_id sync notify s =
    (if space = IS_NULL then Some (Inl KERN_INVALID_TASK, s)
     else if notify = IP_DEAD then Some (Inl KERN_INVALID_CAPABILITY, s)
     else if msg_id = MACH_NOTIFY_PORT_DESTROYED then
       (if sync \<noteq> 0 then Some (Inl KERN_INVALID_VALUE, s)
        else
          do { (r, s) \<leftarrow> ipc_port_translate_receive space name s;
               case r of
                 Inl kr \<Rightarrow> Some (Inl kr, s)
               | Inr port \<Rightarrow> do { (previous, s) \<leftarrow> ipc_port_pdrequest port notify s; Some (Inr previous, s) } })
     else if msg_id = MACH_NOTIFY_NO_SENDERS then
       do { (r, s) \<leftarrow> ipc_port_translate_receive space name s;
            case r of
              Inl kr \<Rightarrow> Some (Inl kr, s)
            | Inr port \<Rightarrow>
                do { p \<leftarrow> ks_ports s port;
                     if io_bits p AND IP_BIT_NMS = 0 then Some (Inl KERN_INVALID_RIGHT, s)
                     else do { (previous, s) \<leftarrow> ipc_port_nsrequest port sync notify s; Some (Inr previous, s) } } }
     else if msg_id = MACH_NOTIFY_DEAD_NAME then ipc_right_dnrequest space name (sync \<noteq> 0) notify s
     else Some (Inl KERN_INVALID_VALUE, s))"

section \<open>Transfer of rights\<close>

definition mach_port_insert_right ::
  "ipc_space_t \<Rightarrow> mach_port_name_t \<Rightarrow> ipc_port_t \<Rightarrow> u32 \<Rightarrow> kernel \<Rightarrow> (kern_return_t \<times> kernel) option" where
  "mach_port_insert_right space name poly polyPoly s =
    (if space = IS_NULL then Some (KERN_INVALID_TASK, s)
     else if \<not> MACH_PORT_VALID name \<or> \<not> MACH_MSG_TYPE_PORT_ANY_RIGHT polyPoly then Some (KERN_INVALID_VALUE, s)
     else if \<not> IO_VALID poly then Some (KERN_INVALID_CAPABILITY, s)
     else
       do { msgt_name \<leftarrow> mach_msg_type_name_of polyPoly;
            ipc_object_copyout_name space poly msgt_name False name s })"

definition mach_port_extract_right ::
  "ipc_space_t \<Rightarrow> mach_port_name_t \<Rightarrow> u32 \<Rightarrow> kernel \<Rightarrow>
   ((kern_return_t + ipc_port_t \<times> mach_msg_type_name_t option) \<times> kernel) option" where
  "mach_port_extract_right space name msgt s =
    (if space = IS_NULL then Some (Inl KERN_INVALID_TASK, s)
     else if \<not> MACH_MSG_TYPE_PORT_ANY msgt then Some (Inl KERN_INVALID_VALUE, s)
     else
       do { msgt_name \<leftarrow> mach_msg_type_name_of msgt;
            (r, s) \<leftarrow> ipc_object_copyin space name msgt_name s;
            Some (case r of Inl kr \<Rightarrow> Inl kr | Inr poly \<Rightarrow> Inr (poly, ipc_object_copyin_type (Some msgt_name)), s) })"

section \<open>Attributes\<close>

record mach_port_status =
  mps_pset :: u32
  mps_seqno :: u32
  mps_mscount :: u32
  mps_qlimit :: u32
  mps_msgcount :: u32
  mps_sorights :: u32
  mps_srights :: bool
  mps_pdrequest :: bool
  mps_nsrequest :: bool
  mps_flags :: u32

datatype mach_port_info =
    Limits_info u32 | Receive_status mach_port_status | Dnrequests_size nat

abbreviation MACH_PORT_LIMITS_INFO :: u32 where "MACH_PORT_LIMITS_INFO \<equiv> 1"
abbreviation MACH_PORT_RECEIVE_STATUS :: u32 where "MACH_PORT_RECEIVE_STATUS \<equiv> 2"
abbreviation MACH_PORT_DNREQUESTS_SIZE :: u32 where "MACH_PORT_DNREQUESTS_SIZE \<equiv> 3"
abbreviation MACH_PORT_LIMITS_INFO_COUNT :: u32 where "MACH_PORT_LIMITS_INFO_COUNT \<equiv> 1"
abbreviation MACH_PORT_RECEIVE_STATUS_COUNT :: u32 where "MACH_PORT_RECEIVE_STATUS_COUNT \<equiv> 10"
abbreviation MACH_PORT_DNREQUESTS_SIZE_COUNT :: u32 where "MACH_PORT_DNREQUESTS_SIZE_COUNT \<equiv> 1"
abbreviation MACH_PORT_QLIMIT_MAX :: u32 where "MACH_PORT_QLIMIT_MAX \<equiv> 16"

definition mach_port_get_attributes ::
  "ipc_space_t \<Rightarrow> mach_port_name_t \<Rightarrow> u32 \<Rightarrow> u32 \<Rightarrow> kernel \<Rightarrow>
   ((kern_return_t + mach_port_info \<times> u32) \<times> kernel) option" where
  "mach_port_get_attributes space name flavor cnt s =
    (let translate = (\<lambda>needed info.
           if cnt < needed then Some (Inl KERN_FAILURE, s)
           else
             do { (r, s) \<leftarrow> ipc_port_translate_receive space name s;
                  case r of
                    Inl kr \<Rightarrow> Some (Inl kr, s)
                  | Inr port \<Rightarrow> do { p \<leftarrow> ks_ports s port; i \<leftarrow> info p; Some (Inr (i, needed), s) } }) in
     if space = IS_NULL then Some (Inl KERN_INVALID_TASK, s)
     else if flavor = MACH_PORT_LIMITS_INFO then
       translate MACH_PORT_LIMITS_INFO_COUNT (\<lambda>p. Some (Limits_info (imq_qlimit (ip_messages p))))
     else if flavor = MACH_PORT_RECEIVE_STATUS then
       translate MACH_PORT_RECEIVE_STATUS_COUNT
         (\<lambda>p. Some (Receive_status
            \<lparr>mps_pset = ip_pset_count p, mps_seqno = imq_seqno (ip_messages p), mps_mscount = ip_mscount p,
             mps_qlimit = imq_qlimit (ip_messages p), mps_msgcount = imq_msgcount (ip_messages p),
             mps_sorights = ip_sorights p, mps_srights = (0 < ip_srights p),
             mps_pdrequest = (ip_pdrequest p \<noteq> IP_NULL), mps_nsrequest = (ip_nsrequest p \<noteq> IP_NULL),
             mps_flags = ip_flags p\<rparr>))
     else if flavor = MACH_PORT_DNREQUESTS_SIZE then
       translate MACH_PORT_DNREQUESTS_SIZE_COUNT
         (\<lambda>p. case ip_dnrequests p of
               None \<Rightarrow> Some (Dnrequests_size 0)
             | Some table \<Rightarrow>
                 do { head \<leftarrow> array_get table 0;
                      sz \<leftarrow> array_get (ks_table_dnrequests s) (unat (ipr_size head));
                      Some (Dnrequests_size sz) })
     else Some (Inl KERN_INVALID_ARGUMENT, s))"

text \<open>\<open>info\<close> is the first word of the argument; \<open>waiters\<close> as in \<^verbatim>\<open>ipc_mqueue_set_qlimit\<close>. The
  target size -1 is ITS_SIZE_NONE; the comparisons with table sizes are unsigned.\<close>

definition mach_port_set_attributes ::
  "ipc_space_t \<Rightarrow> mach_port_name_t \<Rightarrow> u32 \<Rightarrow> u32 \<Rightarrow> u32 \<Rightarrow> nat \<Rightarrow> kernel \<Rightarrow> (kern_return_t \<times> kernel) option" where
  "mach_port_set_attributes space name flavor info cnt waiters s =
    (if space = IS_NULL then Some (KERN_INVALID_TASK, s)
     else if flavor = MACH_PORT_LIMITS_INFO then
       (if cnt < MACH_PORT_LIMITS_INFO_COUNT then Some (KERN_FAILURE, s)
        else if MACH_PORT_QLIMIT_MAX < info then Some (KERN_INVALID_VALUE, s)
        else
          do { (r, s) \<leftarrow> ipc_port_translate_receive space name s;
               case r of
                 Inl kr \<Rightarrow> Some (kr, s)
               | Inr port \<Rightarrow>
                   do { p \<leftarrow> ks_ports s port;
                        case ipc_mqueue_set_qlimit waiters info (ip_messages p) of (woken, mqueue) \<Rightarrow>
                          Some (KERN_SUCCESS,
                                log_event (Senders_woken port woken) (put_port port (p\<lparr>ip_messages := mqueue\<rparr>) s)) } })
     else if flavor = MACH_PORT_DNREQUESTS_SIZE then
       (if cnt < MACH_PORT_DNREQUESTS_SIZE_COUNT then Some (KERN_FAILURE, s)
        else
          do { (r, s) \<leftarrow> ipc_port_translate_receive space name s;
               case r of
                 Inl kr \<Rightarrow> Some (kr, s)
               | Inr port \<Rightarrow>
                   ipc_port_dngrow port
                     (if info = - 1 then None else Some (unat info)) s })
     else Some (KERN_INVALID_ARGUMENT, s))"

end
