(* ===== verification/Ipc_Names.thy ===== *)
theory Ipc_Names
  imports Ipc_Entry Ipc_Freelist
begin

text \<open>
  The abstract view of a space: a partial map from names to rights. The
  invariant \<open>space_ok\<close> ties the table, its free list, the collision bits, the splay tree and its
  counters together; the routines of \<^verbatim>\<open>osfmk/ipc/ipc_entry.c\<close> keep it and change the map at
  one name at most.

  An entry that was allocated and is not filled in yet has no type: it is \<open>claimed\<close>. Such an
  entry is not in the free list, and its name stands for no right.
\<close>

section \<open>The free list of the table\<close>

interpretation entry_list: free_list
  ie_next "\<lambda>e. IE_BITS_TYPE (ie_bits e) = 0" "\<lambda>w. ie_next_update (\<lambda>_. w)"
  by unfold_locales simp_all

section \<open>Names and rights\<close>

text \<open>What an entry says about the right: not the collision bit and the generation, and not the
  slot of the reverse hash table.\<close>

definition ie_right :: "ipc_entry \<Rightarrow> (ipc_object_t \<times> u32 \<times> u32) option" where
  "ie_right e =
    (if IE_BITS_TYPE (ie_bits e) = 0 then None
     else Some (ie_object e, ie_bits e AND IE_BITS_RIGHT_MASK, ie_request e))"

abbreviation tree_map :: "ipc_space \<Rightarrow> mach_port_name_t \<Rightarrow> ipc_entry option" where
  "tree_map sp \<equiv> map_of (ist_entries (is_tree sp))"

definition is_names :: "ipc_space \<Rightarrow> mach_port_name_t \<Rightarrow> (ipc_object_t \<times> u32 \<times> u32) option" where
  "is_names sp name =
    (let i = unat (MACH_PORT_INDEX name) in
     if i < is_table_size sp \<and> IE_BITS_GEN (ie_bits (is_table sp ! i)) = MACH_PORT_GEN name
     then ie_right (is_table sp ! i)
     else Option.bind (tree_map sp name) ie_right)"

section \<open>The invariant\<close>

abbreviation name_index :: "mach_port_name_t \<Rightarrow> nat" where
  "name_index name \<equiv> unat (MACH_PORT_INDEX name)"

abbreviation tree_indices :: "ipc_space \<Rightarrow> nat set" where
  "tree_indices sp \<equiv> name_index ` dom (tree_map sp)"

abbreviation claimed_table :: "ipc_entry_t set \<Rightarrow> nat set" where
  "claimed_table claimed \<equiv> {i. Table_entry i \<in> claimed}"

text \<open>\<open>its_size\<close> is the size that the table will have next: \<open>is_tree_small\<close> counts the indices
  of the tree that a table of that size would take in.\<close>

definition tree_ok :: "ipc_space \<Rightarrow> nat \<Rightarrow> ipc_entry_t set \<Rightarrow> bool" where
  "tree_ok sp its_size claimed \<longleftrightarrow> ist_inv (is_tree sp) \<and>
     unat (is_tree_total sp) = card (dom (tree_map sp)) \<and>
     unat (is_tree_small sp) = card (tree_indices sp \<inter> {is_table_size sp..<its_size}) \<and>
     (\<forall>n e. tree_map sp n = Some e \<longrightarrow> MACH_PORT_VALID n \<and>
        IE_BITS_GEN (ie_bits e) = 0 \<and> \<not> has (ie_bits e) IE_BITS_COLLISION \<and>
        (IE_BITS_TYPE (ie_bits e) = 0 \<longrightarrow> Tree_entry n \<in> claimed) \<and>
        (name_index n < is_table_size sp \<longrightarrow>
           IE_BITS_GEN (ie_bits (is_table sp ! name_index n)) \<noteq> MACH_PORT_GEN n))"

text \<open>The collision bit of an element tells whether the tree has a name with its index. The
  element 0 is the head of the free list.\<close>

definition table_ok :: "ipc_space \<Rightarrow> nat list \<Rightarrow> ipc_entry_t set \<Rightarrow> bool" where
  "table_ok sp fl claimed \<longleftrightarrow> length (is_table sp) = is_table_size sp \<and> is_table_size sp < 2 ^ 24 \<and>
     entry_list.fl_full (is_table sp) fl (claimed_table claimed) \<and>
     IE_BITS_TYPE (ie_bits (is_table sp ! 0)) = 0 \<and>
     (\<forall>i \<in> set fl. ie_object (is_table sp ! i) = IO_NULL) \<and>
     (\<forall>i < is_table_size sp. has (ie_bits (is_table sp ! i)) IE_BITS_COLLISION \<longleftrightarrow> i \<in> tree_indices sp) \<and>
     (\<forall>i \<in> set fl. i \<notin> tree_indices sp)"

definition space_ok :: "ipc_space \<Rightarrow> nat \<Rightarrow> nat list \<Rightarrow> ipc_entry_t set \<Rightarrow> bool" where
  "space_ok sp its_size fl claimed \<longleftrightarrow> is_active sp \<and> table_ok sp fl claimed \<and> tree_ok sp its_size claimed \<and>
     (is_fast sp \<longrightarrow> ist_entries (is_tree sp) = [])"

lemma table_bounds:
  assumes "table_ok sp fl claimed"
  shows "0 < is_table_size sp" and "i \<in> set fl \<Longrightarrow> 0 < i \<and> i < is_table_size sp"
proof -
  have fl: "entry_list.fl_ok (is_table sp) fl" "length (is_table sp) = is_table_size sp"
    using assms by (simp_all add: table_ok_def entry_list.fl_full_def)
  then show "0 < is_table_size sp" by (metis entry_list.fl_ok_def length_greater_0_conv)
  show "i \<in> set fl \<Longrightarrow> 0 < i \<and> i < is_table_size sp"
    using fl entry_list.fl_ok_zero [OF fl(1)] by (metis entry_list.fl_ok_def gr0I)
qed

text \<open>An empty tree: no name has a collision.\<close>

lemma tree_empty:
  assumes "tree_ok sp its_size claimed" and "is_tree_total sp = 0"
  shows "tree_map sp = Map.empty"
proof -
  have "card (dom (tree_map sp)) = 0" using assms by (simp add: tree_ok_def)
  then show ?thesis by (simp add: finite_dom_map_of)
qed

lemma tree_nonempty:
  assumes "tree_ok sp its_size claimed" and "tree_map sp n = Some e"
  shows "0 < is_tree_total sp"
proof (rule ccontr)
  assume "\<not> 0 < is_tree_total sp"
  then have "is_tree_total sp = 0" by (simp add: word_gt_0)
  from tree_empty [OF assms(1) this] assms(2) show False by simp
qed

section \<open>Lookup\<close>

lemma entry_tree_lookup:
  assumes "tree_ok sp its_size claimed"
  obtains t where "ipc_entry_tree_lookup sp name =
      (if Option.bind (tree_map sp name) ie_right = None then None else Some (Tree_entry name), sp\<lparr>is_tree := t\<rparr>)"
    and "ist_inv t" and "ist_entries t = ist_entries (is_tree sp)"
proof -
  have inv: "ist_inv (is_tree sp)" using assms by (simp add: tree_ok_def)
  obtain e t where et: "ipc_splay_tree_lookup (is_tree sp) name = (e, t)" by fastforce
  note l = splay.lookup_result [OF inv et]
  show ?thesis
    by (rule that [of t]) (use et l in \<open>auto simp: ipc_entry_tree_lookup_def ie_right_def split: option.splits\<close>)
qed

text \<open>Another tree with the same entries is the same space.\<close>

lemma same_tree:
  assumes "ist_inv t" and "ist_entries t = ist_entries (is_tree sp)" and "ist_inv (is_tree sp)"
  shows "is_names (sp\<lparr>is_tree := t\<rparr>) = is_names sp"
    and "space_ok (sp\<lparr>is_tree := t\<rparr>) its_size fl claimed = space_ok sp its_size fl claimed"
  using assms by (simp_all add: fun_eq_iff is_names_def Let_def space_ok_def table_ok_def tree_ok_def)

lemma entry_lookup_spec:
  assumes ok: "space_ok sp its_size fl claimed"
    and fast: "is_fast sp \<longrightarrow> name_index name < is_table_size sp"
  shows "\<exists>r sp'. ipc_entry_lookup sp name = Some (r, sp') \<and> space_ok sp' its_size fl claimed \<and>
           is_names sp' = is_names sp \<and> is_table sp' = is_table sp \<and>
           (case r of None \<Rightarrow> is_names sp name = None
            | Some entry \<Rightarrow> \<exists>e. is_entry sp' entry = Some e \<and> is_names sp name = ie_right e \<and>
                is_names sp name \<noteq> None)"
proof -
  let ?i = "name_index name" let ?e = "is_table sp ! ?i"
  have len: "length (is_table sp) = is_table_size sp" and act: "is_active sp"
    and tree: "tree_ok sp its_size claimed" and inv: "ist_inv (is_tree sp)"
    using ok by (simp_all add: space_ok_def table_ok_def tree_ok_def)
  have coll: "has (ie_bits ?e) IE_BITS_COLLISION" if "?i < is_table_size sp" "tree_map sp name = Some te" for te
    using that ok by (auto simp: space_ok_def table_ok_def intro: domI)
  have nofast: "tree_map sp name = None" if "is_fast sp" using that ok by (simp add: space_ok_def)
  have total: "0 < is_tree_total sp" if "?i < is_table_size sp" "has (ie_bits ?e) IE_BITS_COLLISION"
  proof -
    have "?i \<in> tree_indices sp" using that ok by (simp add: space_ok_def table_ok_def)
    then show ?thesis using tree_nonempty [OF tree] by (auto simp: dom_def)
  qed
  obtain t where t: "ipc_entry_tree_lookup sp name =
      (if Option.bind (tree_map sp name) ie_right = None then None else Some (Tree_entry name), sp\<lparr>is_tree := t\<rparr>)"
    "ist_inv t" "ist_entries t = ist_entries (is_tree sp)"
    using entry_tree_lookup [OF tree] .
  note st = same_tree [OF t(2,3) inv]
  show ?thesis
  proof (cases "?i < is_table_size sp \<and> IE_BITS_GEN (ie_bits ?e) = MACH_PORT_GEN name")
    case True
    with len act ok show ?thesis
      by (auto simp: ipc_entry_lookup_def Let_def is_names_def ie_right_def)
  next
    case False
    then have nm: "is_names sp name = Option.bind (tree_map sp name) ie_right"
      by (auto simp: is_names_def Let_def)
    show ?thesis
    proof (cases "ipc_entry_lookup sp name = Some (None, sp)")
      case True
      have "Option.bind (tree_map sp name) ie_right = None"
        using True False len act coll nofast total tree_empty [OF tree] fast t(1)
        by (cases "tree_map sp name") (auto simp: ipc_entry_lookup_def Let_def has_def split: if_splits)
      with True nm ok show ?thesis by simp
    next
      case other: False
      have "ipc_entry_lookup sp name = Some (ipc_entry_tree_lookup sp name)"
        using other False len act fast total
        by (cases "is_fast sp"; cases "?i < is_table_size sp"; cases "has (ie_bits ?e) IE_BITS_COLLISION")
          (simp_all add: ipc_entry_lookup_def Let_def has_def split: if_splits)
      then show ?thesis using t st ok nm by (auto split: option.splits bind_splits)
    qed
  qed
qed

section \<open>Allocation from the free list\<close>

lemma index_make:
  assumes "unat w < 2 ^ 24" shows "MACH_PORT_INDEX (MACH_PORT_MAKE w gen) = w"
proof (rule INDEX_MAKE)
  have "unat (drop_bit 24 w) = 0" using assms by (simp add: drop_bit_eq_div unat_div)
  then show "drop_bit 24 w = 0" by (simp add: unat_eq_0)
qed

lemma name_valid:
  assumes "name_index name \<noteq> 0" and "name_index name < 2 ^ 24 - 1"
  shows "MACH_PORT_VALID name"
proof -
  have "MACH_PORT_INDEX 0 = 0" "unat (MACH_PORT_INDEX (- 1)) = 2 ^ 24 - 1"
    by (simp_all add: MACH_PORT_INDEX_def drop_bit_eq_div unat_div)
  with assms show ?thesis by (auto simp: MACH_PORT_VALID_def)
qed

lemma free_entry:
  assumes "space_ok sp its_size fl claimed" and "i \<in> set fl"
  shows "0 < i" and "i < is_table_size sp" and "ie_object (is_table sp ! i) = IO_NULL"
    and "IE_BITS_TYPE (ie_bits (is_table sp ! i)) = 0" and "i \<notin> tree_indices sp"
proof -
  have "table_ok sp fl claimed" using assms(1) by (simp add: space_ok_def)
  from table_bounds(2) [OF this assms(2)] show "0 < i" "i < is_table_size sp" by blast+
  show "ie_object (is_table sp ! i) = IO_NULL" "IE_BITS_TYPE (ie_bits (is_table sp ! i)) = 0"
    "i \<notin> tree_indices sp"
    using assms by (simp_all add: space_ok_def table_ok_def entry_list.fl_full_def entry_list.fl_ok_def)
qed

lemma is_names_absent:
  assumes "i = name_index name" and "i < is_table_size sp" and "i \<notin> tree_indices sp"
    and "IE_BITS_TYPE (ie_bits (is_table sp ! i)) = 0"
  shows "is_names sp name = None"
proof -
  have "tree_map sp name = None" using assms(1,3) by (auto simp: dom_def)
  with assms show ?thesis by (auto simp: is_names_def Let_def ie_right_def)
qed

text \<open>The names of a space do not change when an entry without a right gets another
  generation, provided that the tree has no name with its index.\<close>

lemma is_names_table:
  assumes "length t = length (is_table sp)" and "length (is_table sp) = is_table_size sp"
    and "\<And>j. j < is_table_size sp \<Longrightarrow>
           (IE_BITS_GEN (ie_bits (t ! j)) = IE_BITS_GEN (ie_bits (is_table sp ! j)) \<and>
            ie_right (t ! j) = ie_right (is_table sp ! j)) \<or>
           (IE_BITS_TYPE (ie_bits (t ! j)) = 0 \<and> IE_BITS_TYPE (ie_bits (is_table sp ! j)) = 0 \<and>
            j \<notin> tree_indices sp)"
  shows "is_names (sp\<lparr>is_table := t\<rparr>) = is_names sp"
proof
  fix name
  show "is_names (sp\<lparr>is_table := t\<rparr>) name = is_names sp name"
  proof (cases "name_index name < is_table_size sp")
    case True
    from assms(3) [OF this] show ?thesis
    proof
      assume "IE_BITS_TYPE (ie_bits (t ! name_index name)) = 0 \<and>
        IE_BITS_TYPE (ie_bits (is_table sp ! name_index name)) = 0 \<and> name_index name \<notin> tree_indices sp"
      with True is_names_absent [of "name_index name" name sp]
        is_names_absent [of "name_index name" name "sp\<lparr>is_table := t\<rparr>"]
      show ?thesis by simp
    qed (use True in \<open>simp add: is_names_def Let_def\<close>)
  qed (simp add: is_names_def Let_def)
qed

text \<open>The invariant after an update of the table that changes only elements without a name in
  the tree, and no collision bit.\<close>

lemma space_ok_table:
  assumes ok: "space_ok sp its_size fl claimed"
    and len: "length t = length (is_table sp)"
    and fl: "entry_list.fl_full t fl' (claimed_table claimed')"
    and head: "IE_BITS_TYPE (ie_bits (t ! 0)) = 0"
    and null: "\<And>i. i \<in> set fl' \<Longrightarrow> ie_object (t ! i) = IO_NULL \<and> i \<notin> tree_indices sp"
    and coll: "\<And>i. i < is_table_size sp \<Longrightarrow>
      has (ie_bits (t ! i)) IE_BITS_COLLISION \<longleftrightarrow> has (ie_bits (is_table sp ! i)) IE_BITS_COLLISION"
    and gen: "\<And>i. i < is_table_size sp \<Longrightarrow> i \<in> tree_indices sp \<Longrightarrow>
      IE_BITS_GEN (ie_bits (t ! i)) = IE_BITS_GEN (ie_bits (is_table sp ! i))"
    and names: "\<And>n. Tree_entry n \<in> claimed \<Longrightarrow> Tree_entry n \<in> claimed'"
  shows "space_ok (sp\<lparr>is_table := t\<rparr>) its_size fl' claimed'"
proof -
  have "table_ok (sp\<lparr>is_table := t\<rparr>) fl' claimed'"
    using ok len fl head null coll by (auto simp: space_ok_def table_ok_def)
  moreover have "tree_ok (sp\<lparr>is_table := t\<rparr>) its_size claimed'"
  proof -
    have "IE_BITS_GEN (ie_bits (t ! name_index n)) \<noteq> MACH_PORT_GEN n"
      if "tree_map sp n = Some e" "name_index n < is_table_size sp" for n e
    proof -
      have "name_index n \<in> tree_indices sp" using that(1) by (auto simp: dom_def)
      with gen [OF that(2)] that ok show ?thesis by (simp add: space_ok_def tree_ok_def)
    qed
    with ok names show ?thesis by (simp add: space_ok_def tree_ok_def)
  qed
  ultimately show ?thesis using ok by (simp add: space_ok_def)
qed

text \<open>An entry leaves the free list: it gets a generation, and the free list bypasses it.\<close>

lemma unlink_spec:
  assumes ok: "space_ok sp its_size (xs @ i # ys) claimed"
    and gen: "IE_BITS_GEN gen = gen"
  defines "pred \<equiv> last (0 # xs)"
  defines "t \<equiv> (is_table sp)[pred := ie_next_update (\<lambda>_. ie_next (is_table sp ! i)) (is_table sp ! pred),
                 i := (is_table sp ! i)\<lparr>ie_bits := gen, ie_request := 0\<rparr>]"
  shows "space_ok (sp\<lparr>is_table := t\<rparr>) its_size (xs @ ys) (insert (Table_entry i) claimed)"
    and "is_names (sp\<lparr>is_table := t\<rparr>) = is_names sp"
    and "t ! i = (is_table sp ! i)\<lparr>ie_bits := gen, ie_request := 0\<rparr>"
proof -
  let ?fl = "xs @ i # ys"
  note fr = free_entry [OF ok]
  have full: "entry_list.fl_full (is_table sp) ?fl (claimed_table claimed)"
    and len: "length (is_table sp) = is_table_size sp"
    using ok by (simp_all add: space_ok_def table_ok_def)
  then have fl: "entry_list.fl_ok (is_table sp) ?fl" by (simp add: entry_list.fl_full_def)
  then have d: "distinct ?fl" by (simp add: entry_list.fl_ok_def)
  have i: "i < is_table_size sp" "0 < i" "i \<notin> tree_indices sp" using fr [of i] by auto
  have pred: "pred = 0 \<or> pred \<in> set xs" by (auto simp: pred_def)
  have pi: "pred \<noteq> i" "pred < is_table_size sp" using pred d i fr(2) [of pred] by auto
  have ty: "IE_BITS_TYPE gen = 0" using gen_only_fields(1) [of gen] gen by simp
  have co: "\<not> has gen IE_BITS_COLLISION" using has_collision(3) [of gen] gen by simp
  have tj: "t ! j = (if j = i then (is_table sp ! i)\<lparr>ie_bits := gen, ie_request := 0\<rparr>
       else if j = pred then ie_next_update (\<lambda>_. ie_next (is_table sp ! i)) (is_table sp ! pred)
       else is_table sp ! j)" for j
    using pi i len by (auto simp: t_def nth_list_update)
  then show "t ! i = (is_table sp ! i)\<lparr>ie_bits := gen, ie_request := 0\<rparr>" by simp
  have type0: "IE_BITS_TYPE (ie_bits (is_table sp ! pred)) = 0"
    using pred fr(4) [of pred] ok by (auto simp: space_ok_def table_ok_def)
  show "is_names (sp\<lparr>is_table := t\<rparr>) = is_names sp"
    by (rule is_names_table) (use len i type0 ty fr(4) [of i] in \<open>auto simp: tj ie_right_def\<close>, simp add: t_def)
  have "entry_list.fl_ok t (xs @ ys)"
    unfolding t_def pred_def by (rule entry_list.unlink [OF fl])
  moreover have "length t = length (is_table sp)" by (simp add: t_def)
  ultimately have fl': "entry_list.fl_full t (xs @ ys) (claimed_table (insert (Table_entry i) claimed))"
    using full i(2) d type0 by (auto simp: entry_list.fl_full_def tj split: if_splits)
  show "space_ok (sp\<lparr>is_table := t\<rparr>) its_size (xs @ ys) (insert (Table_entry i) claimed)"
  proof (rule space_ok_table [OF ok _ fl'])
    show "length t = length (is_table sp)" by (simp add: t_def)
    show "IE_BITS_TYPE (ie_bits (t ! 0)) = 0" using ok i type0 by (auto simp: tj space_ok_def table_ok_def)
    show "ie_object (t ! j) = IO_NULL \<and> j \<notin> tree_indices sp" if "j \<in> set (xs @ ys)" for j
      using that fr(3,5) [of j] fr(3) [of pred] pred by (auto simp: tj split: if_splits)
    show "has (ie_bits (t ! j)) IE_BITS_COLLISION \<longleftrightarrow> has (ie_bits (is_table sp ! j)) IE_BITS_COLLISION"
      if "j < is_table_size sp" for j
      using that ok i co by (auto simp: tj space_ok_def table_ok_def)
    show "IE_BITS_GEN (ie_bits (t ! j)) = IE_BITS_GEN (ie_bits (is_table sp ! j))"
      if "j \<in> tree_indices sp" for j
      using that i(3) by (auto simp: tj)
  qed auto
qed

lemma get_spec:
  assumes ok: "space_ok sp its_size (i # fl) claimed"
  defines "gen \<equiv> IE_BITS_NEW_GEN (ie_bits (is_table sp ! i))"
  defines "name \<equiv> MACH_PORT_MAKE (of_nat i) gen"
  shows "\<exists>sp'. ipc_entry_get sp = Some (Inr (name, Table_entry i), sp') \<and>
           space_ok sp' its_size fl (insert (Table_entry i) claimed) \<and> is_names sp' = is_names sp \<and>
           is_table sp' ! i = (is_table sp ! i)\<lparr>ie_bits := gen, ie_request := 0\<rparr> \<and>
           is_tree sp' = is_tree sp \<and> is_table_size sp' = is_table_size sp"
    and "MACH_PORT_VALID name" and "name_index name = i" and "MACH_PORT_GEN name = gen"
    and "is_names sp name = None"
proof -
  note fr = free_entry [OF ok, of i, simplified]
  have fl: "entry_list.fl_ok (is_table sp) (i # fl)" and len: "length (is_table sp) = is_table_size sp"
    and small: "is_table_size sp < 2 ^ 24" and act: "is_active sp"
    using ok by (simp_all add: space_ok_def table_ok_def entry_list.fl_full_def)
  have head: "ie_next (is_table sp ! 0) = of_nat i" "ie_next (is_table sp ! 0) \<noteq> 0"
    using fl by (auto simp: entry_list.fl_ok_def)
  have w: "unat (of_nat i :: u32) = i" using fr(2) small by (simp add: unat_of_nat)
  show idx: "name_index name = i"
    unfolding name_def using index_make [of "of_nat i"] w fr(2) small by simp
  show valid: "MACH_PORT_VALID name"
    by (rule name_valid) (use idx fr(1,2) small in auto)
  show "MACH_PORT_GEN name = gen" by (simp add: name_def GEN_MAKE gen_def)
  show "is_names sp name = None"
    by (rule is_names_absent [of i]) (use idx fr in auto)
  have gen: "IE_BITS_GEN gen = gen" by (simp add: gen_def)
  note u = unlink_spec [OF _ gen, of sp its_size "[]" i fl claimed, simplified, OF ok]
  have "ipc_entry_get sp = Some (Inr (name, Table_entry i),
    sp\<lparr>is_table := (is_table sp)[0 := ie_next_update (\<lambda>_. ie_next (is_table sp ! i)) (is_table sp ! 0),
        i := (is_table sp ! i)\<lparr>ie_bits := gen, ie_request := 0\<rparr>]\<rparr>)"
    using act head fr len w valid
    by (simp add: ipc_entry_get_def Let_def gen_def name_def nth_list_update)
  with u show "\<exists>sp'. ipc_entry_get sp = Some (Inr (name, Table_entry i), sp') \<and>
           space_ok sp' its_size fl (insert (Table_entry i) claimed) \<and> is_names sp' = is_names sp \<and>
           is_table sp' ! i = (is_table sp ! i)\<lparr>ie_bits := gen, ie_request := 0\<rparr> \<and>
           is_tree sp' = is_tree sp \<and> is_table_size sp' = is_table_size sp"
    by simp
qed

lemma get_no_space:
  assumes ok: "space_ok sp its_size [] claimed"
  shows "ipc_entry_get sp = Some (Inl KERN_NO_SPACE, sp)"
proof -
  have "ie_next (is_table sp ! 0) = 0" "length (is_table sp) = is_table_size sp" "is_active sp"
    using ok by (simp_all add: space_ok_def table_ok_def entry_list.fl_full_def entry_list.fl_ok_def)
  moreover have "0 < is_table_size sp"
    using ok by (intro table_bounds [of sp "[]" claimed]) (simp add: space_ok_def)
  ultimately show ?thesis by (simp add: ipc_entry_get_def)
qed

section \<open>Updates through an entry pointer\<close>

lemma ite_map_fst [simp]: "fst (ite_map f name x) = fst x"
  by (cases x) simp

lemma lctx_map: "lctx (map (\<lambda>(l, n). (map_tree (ite_map f name) l, ite_map f name n)) c) = map (ite_map f name) (lctx c)"
  by (induction c rule: lctx.induct) (simp_all add: inorder_map)

lemma rctx_map: "rctx (map (\<lambda>(n, r). (ite_map f name n, map_tree (ite_map f name) r)) c) = map (ite_map f name) (rctx c)"
  by (induction c rule: rctx.induct) (simp_all add: inorder_map)

lemma splayed_root_map: "splayed_root m (map_tree (ite_map f name) t) = splayed_root m t"
  by (cases "(m, t)" rule: splayed_root.cases) simp_all

lemma ist_update_entries: "ist_entries (ist_update name f t) = map (ite_map f name) (ist_entries t)"
  by (simp add: ist_update_def ist_entries_def inorder_map lctx_map rctx_map)

lemma ist_update_inv:
  assumes "ist_inv t" shows "ist_inv (ist_update name f t)"
proof -
  have "fst \<circ> ite_map f name = fst" by (simp add: fun_eq_iff)
  with assms show ?thesis unfolding ist_inv_def ist_update_entries
    by (simp add: ist_update_def splayed_def lctx_map rctx_map splayed_root_map)
qed

lemma map_of_ite_map:
  "map_of (map (ite_map f name) es) n = (if n = name then map_option f (map_of es n) else map_of es n)"
  by (induction es) auto

lemma tree_map_update:
  "map_of (ist_entries (ist_update name f t)) n =
    (if n = name then map_option f (map_of (ist_entries t) n) else map_of (ist_entries t) n)"
  by (simp add: ist_update_entries map_of_ite_map)

text \<open>\<open>entry_at sp fl name entry\<close>: the pointer is what the name stands for.\<close>

definition entry_at :: "ipc_space \<Rightarrow> nat list \<Rightarrow> mach_port_name_t \<Rightarrow> ipc_entry_t \<Rightarrow> bool" where
  "entry_at sp fl name entry \<longleftrightarrow> (case entry of
      Table_entry i \<Rightarrow> 0 < i \<and> i = name_index name \<and> i < is_table_size sp \<and> i \<notin> set fl \<and>
        IE_BITS_GEN (ie_bits (is_table sp ! i)) = MACH_PORT_GEN name
    | Tree_entry n \<Rightarrow> n = name \<and> tree_map sp n \<noteq> None)"

lemma entry_at_entry:
  assumes "space_ok sp its_size fl claimed" and "entry_at sp fl name entry"
  obtains e where "is_entry sp entry = Some e" and "is_names sp name = ie_right e"
proof (cases entry)
  case (Table_entry i)
  with assms show ?thesis
    by (intro that [of "is_table sp ! i"]) (auto simp: entry_at_def space_ok_def table_ok_def is_names_def Let_def)
next
  case (Tree_entry n)
  then obtain e where e: "tree_map sp name = Some e" "n = name" using assms(2) by (auto simp: entry_at_def)
  moreover have "\<not> (name_index name < is_table_size sp \<and>
      IE_BITS_GEN (ie_bits (is_table sp ! name_index name)) = MACH_PORT_GEN name)"
    using assms(1) e by (auto simp: space_ok_def tree_ok_def)
  ultimately show ?thesis using Tree_entry
    by (intro that [of e]) (auto simp: is_names_def Let_def)
qed

text \<open>The entry of a name takes a new right, or loses it and is claimed then.\<close>

lemma entry_update_table:
  assumes ok: "space_ok sp its_size fl claimed" and at: "entry_at sp fl name (Table_entry i)"
    and gen: "IE_BITS_GEN (ie_bits (f (is_table sp ! i))) = IE_BITS_GEN (ie_bits (is_table sp ! i))"
    and coll: "has (ie_bits (f (is_table sp ! i))) IE_BITS_COLLISION = has (ie_bits (is_table sp ! i)) IE_BITS_COLLISION"
  defines "sp' \<equiv> sp\<lparr>is_table := (is_table sp)[i := f (is_table sp ! i)]\<rparr>"
  shows "is_names sp' = (is_names sp)(name := ie_right (f (is_table sp ! i)))"
    and "space_ok sp' its_size fl
      (if IE_BITS_TYPE (ie_bits (f (is_table sp ! i))) = 0 then insert (Table_entry i) claimed else claimed - {Table_entry i})"
proof -
  let ?c = "f (is_table sp ! i)" let ?t = "(is_table sp)[i := ?c]"
  have i: "0 < i" "i = name_index name" "i < is_table_size sp" "i \<notin> set fl"
    "IE_BITS_GEN (ie_bits (is_table sp ! i)) = MACH_PORT_GEN name"
    using at by (auto simp: entry_at_def)
  have len: "length (is_table sp) = is_table_size sp"
    and full: "entry_list.fl_full (is_table sp) fl (claimed_table claimed)"
    using ok by (simp_all add: space_ok_def table_ok_def)
  show "is_names sp' = (is_names sp)(name := ie_right ?c)"
  proof
    fix n
    consider "n = name" | "n \<noteq> name" "name_index n = i" | "n \<noteq> name" "name_index n \<noteq> i" by blast
    then show "is_names sp' n = ((is_names sp)(name := ie_right ?c)) n"
    proof cases
      case 2
      then have "MACH_PORT_INDEX n = MACH_PORT_INDEX name" using i(2) by (simp add: word_unat_eq_iff)
      then have "MACH_PORT_GEN n \<noteq> MACH_PORT_GEN name" using 2(1) MAKE_INDEX_GEN [of n] MAKE_INDEX_GEN [of name] by metis
      with 2 i len gen show ?thesis by (simp add: is_names_def sp'_def)
    qed (use i len gen in \<open>simp_all add: is_names_def sp'_def Let_def\<close>)
  qed
  let ?cl = "if IE_BITS_TYPE (ie_bits ?c) = 0 then insert (Table_entry i) claimed else claimed - {Table_entry i}"
  have tj: "?t ! j = (if j = i then ?c else is_table sp ! j)" for j
    using i len by (simp add: nth_list_update)
  have "entry_list.fl_ok ?t fl"
    by (rule entry_list.update_other) (use full i in \<open>auto simp: entry_list.fl_full_def\<close>)
  then have fl': "entry_list.fl_full ?t fl (claimed_table ?cl)"
    using full i(1,3,4) len by (auto simp: entry_list.fl_full_def tj)
  show "space_ok sp' its_size fl ?cl"
    unfolding sp'_def
  proof (rule space_ok_table [OF ok _ fl'])
    show "ie_object (?t ! j) = IO_NULL \<and> j \<notin> tree_indices sp" if "j \<in> set fl" for j
      using that i(4) free_entry(3,5) [OF ok that] by (auto simp: tj)
    show "IE_BITS_TYPE (ie_bits (?t ! 0)) = 0" using ok i(1) by (simp add: tj space_ok_def table_ok_def)
    show "has (ie_bits (?t ! j)) IE_BITS_COLLISION = has (ie_bits (is_table sp ! j)) IE_BITS_COLLISION" for j
      using coll by (simp add: tj)
    show "IE_BITS_GEN (ie_bits (?t ! j)) = IE_BITS_GEN (ie_bits (is_table sp ! j))" for j
      using gen by (simp add: tj)
  qed auto
qed

lemma entry_update_tree:
  fixes f :: "ipc_entry \<Rightarrow> ipc_entry"
  assumes ok: "space_ok sp its_size fl claimed" and at: "entry_at sp fl name (Tree_entry name)"
    and e: "tree_map sp name = Some e"
    and gen: "IE_BITS_GEN (ie_bits (f e)) = IE_BITS_GEN (ie_bits e)"
    and coll: "has (ie_bits (f e)) IE_BITS_COLLISION = has (ie_bits e) IE_BITS_COLLISION"
  defines "sp' \<equiv> sp\<lparr>is_tree := ist_update name f (is_tree sp)\<rparr>"
  shows "is_names sp' = (is_names sp)(name := ie_right (f e))"
    and "space_ok sp' its_size fl
      (if IE_BITS_TYPE (ie_bits (f e)) = 0 then insert (Tree_entry name) claimed else claimed - {Tree_entry name})"
proof -
  have tm: "tree_map sp' n = (if n = name then Some (f e) else tree_map sp n)" for n
    using e by (simp add: sp'_def tree_map_update)
  have dom: "dom (tree_map sp') = dom (tree_map sp)" using e by (auto simp: tm dom_def)
  have other: "\<not> (name_index name < is_table_size sp \<and>
      IE_BITS_GEN (ie_bits (is_table sp ! name_index name)) = MACH_PORT_GEN name)"
    using ok e by (auto simp: space_ok_def tree_ok_def)
  show "is_names sp' = (is_names sp)(name := ie_right (f e))"
    using other by (auto simp: fun_eq_iff is_names_def Let_def tm) (simp_all add: sp'_def)
  let ?cl = "if IE_BITS_TYPE (ie_bits (f e)) = 0 then insert (Tree_entry name) claimed else claimed - {Tree_entry name}"
  have fields: "is_table sp' = is_table sp" "is_table_size sp' = is_table_size sp" "is_active sp' = is_active sp"
    "is_fast sp' = is_fast sp" "is_tree_total sp' = is_tree_total sp" "is_tree_small sp' = is_tree_small sp"
    by (simp_all add: sp'_def)
  have ct: "claimed_table ?cl = claimed_table claimed" by auto
  have "table_ok sp' fl ?cl"
    using ok unfolding space_ok_def table_ok_def dom fields ct by simp
  moreover have "tree_ok sp' its_size ?cl"
    using ok ist_update_inv [of "is_tree sp" name f] e gen coll unfolding space_ok_def tree_ok_def dom fields tm
    by (auto simp: sp'_def)
  moreover have "ist_entries (is_tree sp') = []" if "is_fast sp"
    using ok that e by (simp add: space_ok_def)
  ultimately show "space_ok sp' its_size fl ?cl" using ok by (simp add: space_ok_def fields)
qed

lemma entry_update_spec:
  assumes ok: "space_ok sp its_size fl claimed" and at: "entry_at sp fl name entry"
    and e: "is_entry sp entry = Some e"
    and gen: "IE_BITS_GEN (ie_bits (f e)) = IE_BITS_GEN (ie_bits e)"
    and coll: "has (ie_bits (f e)) IE_BITS_COLLISION = has (ie_bits e) IE_BITS_COLLISION"
  shows "\<exists>sp'. is_entry_upd entry f sp = Some sp' \<and> is_names sp' = (is_names sp)(name := ie_right (f e)) \<and>
           space_ok sp' its_size fl
             (if IE_BITS_TYPE (ie_bits (f e)) = 0 then insert entry claimed else claimed - {entry}) \<and>
           is_entry sp' entry = Some (f e) \<and> entry_at sp' fl name entry"
proof (cases entry)
  case (Table_entry i)
  then have i: "i < length (is_table sp)" "e = is_table sp ! i"
    using e by (simp_all add: array_get_eq_Some)
  from entry_update_table [OF ok at [unfolded Table_entry], of f] gen coll i at show ?thesis
    by (auto simp: Table_entry entry_at_def)
next
  case (Tree_entry n)
  then have n: "n = name" "tree_map sp name = Some e" using at e by (auto simp: entry_at_def)
  from entry_update_tree [OF ok at [unfolded Tree_entry n(1)] n(2), of f] gen coll at n show ?thesis
    by (auto simp: Tree_entry entry_at_def tree_map_update)
qed

section \<open>Deallocation into the free list\<close>

lemma free_spec:
  assumes ok: "space_ok sp its_size fl claimed" and at: "entry_at sp fl name (Table_entry i)"
    and null: "ie_object (is_table sp ! i) = IO_NULL"
    and coll: "\<not> has (ie_bits (is_table sp ! i)) IE_BITS_COLLISION"
  shows "\<exists>sp'. ipc_entry_free sp (MACH_PORT_INDEX name) = Some sp' \<and>
           space_ok sp' its_size (i # fl) (claimed - {Table_entry i}) \<and>
           is_names sp' = (is_names sp)(name := None) \<and>
           IE_BITS_GEN (ie_bits (is_table sp' ! i)) = MACH_PORT_GEN name \<and> is_tree sp' = is_tree sp"
proof -
  let ?f = "\<lambda>e. e\<lparr>ie_bits := ie_bits e AND IE_BITS_GEN_MASK, ie_request := ie_next (is_table sp ! 0)\<rparr>"
  let ?c = "?f (is_table sp ! i)" let ?t = "(is_table sp)[i := ?c]" let ?sp = "sp\<lparr>is_table := ?t\<rparr>"
  let ?t' = "?t[0 := ie_next_update (\<lambda>_. MACH_PORT_INDEX name) (is_table sp ! 0)]"
  have i: "0 < i" "name_index name = i" "i < is_table_size sp" "i \<notin> set fl"
    "IE_BITS_GEN (ie_bits (is_table sp ! i)) = MACH_PORT_GEN name"
    using at by (auto simp: entry_at_def)
  have len: "length (is_table sp) = is_table_size sp"
    and full: "entry_list.fl_full (is_table sp) fl (claimed_table claimed)"
    and type0: "IE_BITS_TYPE (ie_bits (is_table sp ! 0)) = 0"
    using ok by (simp_all add: space_ok_def table_ok_def)
  have bits: "ie_bits ?c = IE_BITS_GEN (ie_bits (is_table sp ! i))" by (simp add: IE_BITS_GEN_def)
  have tree: "i \<notin> tree_indices sp" using ok coll i(3) by (auto simp: space_ok_def table_ok_def)
  note u = entry_update_table [OF ok at, of ?f, unfolded bits]
  have names: "is_names ?sp = (is_names sp)(name := None)"
    using u(1) coll by (simp add: has_collision ie_right_def bits gen_only_fields)
  have ok1: "space_ok ?sp its_size fl (insert (Table_entry i) claimed)"
    using u(2) coll by (simp add: has_collision gen_only_fields)
  have tj: "?t' ! j = (if j = 0 then ie_next_update (\<lambda>_. MACH_PORT_INDEX name) (?t ! 0) else ?t ! j)" for j
    using i(1,3) len by (simp add: nth_list_update)
  have w: "MACH_PORT_INDEX name \<noteq> 0" using i(1,2) by auto
  have ty: "IE_BITS_TYPE (ie_bits ?c) = 0" unfolding bits by (rule gen_only_fields)
  have "entry_list.fl_ok ?t' (i # fl)"
    using entry_list.push [of "is_table sp" fl "MACH_PORT_INDEX name" ?c, OF _ _ w _ _ ty] full i len
    by (simp add: entry_list.fl_full_def)
  then have fl': "entry_list.fl_full ?t' (i # fl) (claimed_table (claimed - {Table_entry i}))"
    using full i(1,3,4) len type0 by (auto simp: entry_list.fl_full_def nth_list_update)
  have "space_ok (?sp\<lparr>is_table := ?t'\<rparr>) its_size (i # fl) (claimed - {Table_entry i})"
  proof (rule space_ok_table [OF ok1 _ fl'])
    show "ie_object (?t' ! j) = IO_NULL \<and> j \<notin> tree_indices ?sp" if "j \<in> set (i # fl)" for j
      using that free_entry(3,5) [OF ok] null i(1,3,4) tree len by (auto simp: nth_list_update)
    show "IE_BITS_TYPE (ie_bits (?t' ! 0)) = 0" using type0 i(1,3) len by (simp add: nth_list_update)
  qed (auto simp: tj)
  moreover have "is_names (?sp\<lparr>is_table := ?t'\<rparr>) = is_names ?sp"
    by (rule is_names_table) (use type0 i(1) len in \<open>auto simp: tj ie_right_def\<close>)
  moreover have "ipc_entry_free sp (MACH_PORT_INDEX name) = Some (?sp\<lparr>is_table := ?t'\<rparr>)"
    using i(1,2,3) len by (auto simp: ipc_entry_free_def)
  moreover have "IE_BITS_GEN (ie_bits (?t' ! i)) = MACH_PORT_GEN name"
    using i len bits by (simp add: nth_list_update)
  ultimately show ?thesis using names by simp
qed

section \<open>Collisions in the tree\<close>

lemma INDEX_mono: "a \<le> b \<Longrightarrow> MACH_PORT_INDEX a \<le> MACH_PORT_INDEX b"
  by (simp add: MACH_PORT_INDEX_def drop_bit_eq_div word_le_nat_alt unat_div div_le_mono)

lemma tree_collision_spec:
  assumes inv: "ist_inv (is_tree sp)" and act: "is_active sp"
    and valid: "\<And>n. n \<in> dom (tree_map sp) \<Longrightarrow> MACH_PORT_VALID n"
  obtains t where "ipc_entry_tree_collision sp name = Some (name_index name \<in> tree_indices sp, sp\<lparr>is_tree := t\<rparr>)"
    and "ist_inv t" and "ist_entries t = ist_entries (is_tree sp)"
proof -
  obtain low high t where b: "ipc_splay_tree_bounds (is_tree sp) name = ((low, high), t)"
    "tight_lower (dom (tree_map sp)) name low" "tight_upper (dom (tree_map sp)) name high"
    "ist_inv t" "ist_entries t = ist_entries (is_tree sp)"
    using bounds_spec [OF inv, of name] by (auto simp: dom_map_of_conv_image_fst)
  let ?K = "dom (tree_map sp)" and ?i = "MACH_PORT_INDEX name"
  have "(low \<noteq> MACH_PORT_LARGEST \<and> MACH_PORT_INDEX low = ?i) \<longleftrightarrow> (\<exists>k \<in> ?K. k \<le> name \<and> MACH_PORT_INDEX k = ?i)"
  proof
    assume "low \<noteq> MACH_PORT_LARGEST \<and> MACH_PORT_INDEX low = ?i"
    with b(2) show "\<exists>k \<in> ?K. k \<le> name \<and> MACH_PORT_INDEX k = ?i"
      by (auto simp: tight_lower_def split: if_splits)
  next
    assume "\<exists>k \<in> ?K. k \<le> name \<and> MACH_PORT_INDEX k = ?i"
    then obtain k where k: "k \<in> ?K" "k \<le> name" "MACH_PORT_INDEX k = ?i" by blast
    with b(2) have l: "low \<in> ?K" "low \<le> name" "k \<le> low" by (auto simp: tight_lower_def split: if_splits)
    with INDEX_mono [OF l(2)] INDEX_mono [OF l(3)] k(3) valid [OF l(1)]
    show "low \<noteq> MACH_PORT_LARGEST \<and> MACH_PORT_INDEX low = ?i" by (auto simp: MACH_PORT_VALID_def)
  qed
  moreover have "(high \<noteq> 0 \<and> MACH_PORT_INDEX high = ?i) \<longleftrightarrow> (\<exists>k \<in> ?K. name \<le> k \<and> MACH_PORT_INDEX k = ?i)"
  proof
    assume "high \<noteq> 0 \<and> MACH_PORT_INDEX high = ?i"
    with b(3) show "\<exists>k \<in> ?K. name \<le> k \<and> MACH_PORT_INDEX k = ?i"
      by (auto simp: tight_upper_def split: if_splits)
  next
    assume "\<exists>k \<in> ?K. name \<le> k \<and> MACH_PORT_INDEX k = ?i"
    then obtain k where k: "k \<in> ?K" "name \<le> k" "MACH_PORT_INDEX k = ?i" by blast
    with b(3) have l: "high \<in> ?K" "name \<le> high" "high \<le> k" by (auto simp: tight_upper_def split: if_splits)
    with INDEX_mono [OF l(2)] INDEX_mono [OF l(3)] k(3) valid [OF l(1)]
    show "high \<noteq> 0 \<and> MACH_PORT_INDEX high = ?i" by (auto simp: MACH_PORT_VALID_def)
  qed
  moreover have "(\<exists>k \<in> ?K. k \<le> name \<and> MACH_PORT_INDEX k = ?i) \<or> (\<exists>k \<in> ?K. name \<le> k \<and> MACH_PORT_INDEX k = ?i)
      \<longleftrightarrow> name_index name \<in> tree_indices sp"
    (is "?L \<longleftrightarrow> ?R")
  proof
    assume ?L
    then obtain k where k: "k \<in> ?K" "MACH_PORT_INDEX k = ?i" by blast
    show ?R by (rule rev_image_eqI [OF k(1)]) (simp add: k(2))
  next
    assume ?R
    then obtain k where k: "k \<in> ?K" "name_index name = name_index k" by (rule imageE)
    then have "MACH_PORT_INDEX k = ?i" by (simp add: word_unat_eq_iff)
    with k show ?L using linear [of k name] by blast
  qed
  ultimately have "ipc_entry_tree_collision sp name =
      Some (name_index name \<in> tree_indices sp, sp\<lparr>is_tree := t\<rparr>)"
    using act b(1) by (simp add: ipc_entry_tree_collision_def)
  then show ?thesis using that b(4,5) by blast
qed

end
