(* ===== verification/Ipc_Entry_Spec.thy ===== *)
theory Ipc_Entry_Spec
  imports Ipc_Names
begin

text \<open>
  The correctness of the entry routines with a splay tree: names enter and leave the tree, a
  name is allocated at a given place, a collided table element takes over a name of the tree.
  The properties of lookup, allocation and deallocation are at the end.
\<close>

section \<open>Removing a name from the tree, and adding one\<close>

text \<open>The table after a change of the tree at one index: its collision bit.\<close>

abbreviation collision_table :: "bool \<Rightarrow> nat \<Rightarrow> ipc_entry list \<Rightarrow> ipc_entry list" where
  "collision_table c i t \<equiv> t[i := (t ! i)\<lparr>ie_bits :=
     (if c then ie_bits (t ! i) OR IE_BITS_COLLISION else bits_clear (ie_bits (t ! i)) IE_BITS_COLLISION)\<rparr>]"

lemma fl_full_collision:
  assumes full: "entry_list.fl_full t fl taken" and i: "i \<notin> set fl" "i < length t"
  shows "entry_list.fl_full (collision_table c i t) fl taken"
proof -
  let ?t = "collision_table c i t"
  have tj: "IE_BITS_TYPE (ie_bits (?t ! j)) = IE_BITS_TYPE (ie_bits (t ! j))" "ie_next (?t ! j) = ie_next (t ! j)" for j
    using i(2) by (simp_all add: nth_list_update collision_fields)
  have "chain (\<lambda>j. ie_next (?t ! j)) (ie_next (?t ! 0)) fl \<longleftrightarrow> chain (\<lambda>j. ie_next (t ! j)) (ie_next (t ! 0)) fl"
    by (simp only: tj)
  with full show ?thesis unfolding entry_list.fl_full_def entry_list.fl_ok_def tj by simp
qed

lemma tree_change_ok:
  fixes sp :: ipc_space
  assumes ok: "space_ok sp its_size fl claimed"
    and inv: "ist_inv t" and i: "i = name_index name"
    and valid: "MACH_PORT_VALID name"
    and tm: "map_of (ist_entries t) = (tree_map sp)(name := new)"
    and new: "\<And>e. new = Some e \<Longrightarrow> IE_BITS_GEN (ie_bits e) = 0 \<and> \<not> has (ie_bits e) IE_BITS_COLLISION \<and>
      (IE_BITS_TYPE (ie_bits e) = 0 \<longrightarrow> Tree_entry name \<in> claimed')"
    and cl: "\<And>x. x \<noteq> Tree_entry name \<Longrightarrow> x \<in> claimed' \<longleftrightarrow> x \<in> claimed"
    and other: "\<not> (i < is_table_size sp \<and> IE_BITS_GEN (ie_bits (is_table sp ! i)) = MACH_PORT_GEN name)"
    and free: "new \<noteq> None \<Longrightarrow> i \<notin> set fl" and fast: "new \<noteq> None \<Longrightarrow> \<not> is_fast sp"
    and tot: "unat tot = card (dom ((tree_map sp)(name := new)))"
    and small: "unat small = card (name_index ` dom ((tree_map sp)(name := new)) \<inter> {is_table_size sp..<its_size})"
    and T: "T = (if i < is_table_size sp \<and> i \<notin> set fl
        then collision_table (i \<in> name_index ` dom ((tree_map sp)(name := new))) i (is_table sp) else is_table sp)"
  defines "sp' \<equiv> sp\<lparr>is_tree := t, is_tree_total := tot, is_tree_small := small, is_table := T\<rparr>"
  shows "is_names sp' = (is_names sp)(name := Option.bind new ie_right)" and "space_ok sp' its_size fl claimed'"
proof -
  let ?D = "dom ((tree_map sp)(name := new))"
  have len: "length (is_table sp) = is_table_size sp"
    and full: "entry_list.fl_full (is_table sp) fl (claimed_table claimed)"
    and coll: "\<And>j. j < is_table_size sp \<Longrightarrow> has (ie_bits (is_table sp ! j)) IE_BITS_COLLISION \<longleftrightarrow> j \<in> tree_indices sp"
    and nofl: "\<And>j. j \<in> set fl \<Longrightarrow> j \<notin> tree_indices sp"
    using ok by (simp_all add: space_ok_def table_ok_def)
  have Tj: "IE_BITS_TYPE (ie_bits (T ! j)) = IE_BITS_TYPE (ie_bits (is_table sp ! j))"
    "IE_BITS_GEN (ie_bits (T ! j)) = IE_BITS_GEN (ie_bits (is_table sp ! j))"
    "ie_right (T ! j) = ie_right (is_table sp ! j)"
    "ie_object (T ! j) = ie_object (is_table sp ! j)" for j
    using len by (simp_all add: T nth_list_update ie_right_def collision_fields)
  have lT: "length T = is_table_size sp" by (simp add: T len)
  have far: "j \<in> name_index ` ?D \<longleftrightarrow> j \<in> tree_indices sp" if "j \<noteq> i" for j
    using that by (auto simp: i image_iff split: if_splits)
  have fl': "j \<notin> name_index ` ?D" if "j \<in> set fl" for j
  proof (cases "new = None")
    case True
    then have "?D \<subseteq> dom (tree_map sp)" by auto
    with nofl [OF that] show ?thesis by blast
  next
    case False
    with free that have "j \<noteq> i" by blast
    with far nofl [OF that] show ?thesis by blast
  qed
  have Tc: "has (ie_bits (T ! j)) IE_BITS_COLLISION \<longleftrightarrow> j \<in> name_index ` ?D" if j: "j < is_table_size sp" for j
  proof (cases "j = i")
    case True
    show ?thesis
    proof (cases "i \<in> set fl")
      case fl: True
      have "\<not> has (ie_bits (is_table sp ! i)) IE_BITS_COLLISION" using coll nofl fl j True by simp
      with fl' [OF fl] True fl show ?thesis by (simp add: T)
    qed (use True j len in \<open>simp add: T has_collision\<close>)
  next
    case False
    with far [OF False] coll [OF j] show ?thesis by (auto simp: T)
  qed
  have fields: "is_table sp' = T" "is_table_size sp' = is_table_size sp" "is_tree sp' = t"
    "is_fast sp' = is_fast sp" "is_active sp' = is_active sp" "is_tree_total sp' = tot" "is_tree_small sp' = small"
    by (simp_all add: sp'_def)
  show "is_names sp' = (is_names sp)(name := Option.bind new ie_right)"
    using other by (auto simp: fun_eq_iff is_names_def Let_def fields Tj tm i)
  have full': "entry_list.fl_full T fl (claimed_table claimed)"
  proof (cases "i < is_table_size sp \<and> i \<notin> set fl")
    case True
    then have "T = collision_table (i \<in> name_index ` ?D) i (is_table sp)" by (simp only: T if_True simp_thms)
    moreover have "i \<notin> set fl" "i < length (is_table sp)" using True len by simp_all
    note fl_full_collision [OF full this]
    ultimately show ?thesis by (simp only:)
  next
    case False
    then have "T = is_table sp" by (simp only: T if_False)
    with full show ?thesis by simp
  qed
  have ct: "claimed_table claimed' = claimed_table claimed" using cl by auto
  have "table_ok sp' fl claimed'"
    unfolding table_ok_def fields ct tm using ok full' Tc fl' lT
    by (simp add: space_ok_def table_ok_def Tj)
  moreover have "tree_ok sp' its_size claimed'"
    unfolding tree_ok_def fields tm using ok inv tot small valid new cl other
    by (auto simp: space_ok_def tree_ok_def Tj i split: if_splits)
  moreover have "ist_entries t = []" if "is_fast sp"
  proof -
    have "ist_entries (is_tree sp) = []" using ok that by (simp add: space_ok_def)
    moreover have "new = None" using that fast by blast
    ultimately have "map_of (ist_entries t) = Map.empty" using tm by simp
    then show ?thesis by simp
  qed
  ultimately show "space_ok sp' its_size fl claimed'" using ok by (simp add: space_ok_def fields)
qed

lemma put_space_twice [simp]: "put_space a x (put_space a y s) = put_space a x s"
  by (simp add: put_space_def)

lemma ks_spaces_put_space [simp]: "ks_spaces (put_space a x s) a = Some x"
  by (simp add: put_space_def)

text \<open>A name leaves the tree.\<close>

lemma dealloc_tree_spec:
  assumes sp: "ks_spaces s space = Some sp" and ok: "space_ok sp its_size fl claimed"
    and its: "array_get (ks_table_entries s) (is_table_next sp) = Some its_size"
    and e: "tree_map sp name = Some e"
  shows "\<exists>sp'. ipc_entry_dealloc_tree space name s = Some (put_space space sp' s) \<and>
           space_ok sp' its_size fl (claimed - {Tree_entry name}) \<and> is_names sp' = (is_names sp)(name := None)"
proof -
  let ?i = "name_index name" let ?D = "dom ((tree_map sp)(name := None))"
  have inv: "ist_inv (is_tree sp)" and act: "is_active sp" and tree: "tree_ok sp its_size claimed"
    and len: "length (is_table sp) = is_table_size sp"
    using ok by (simp_all add: space_ok_def tree_ok_def table_ok_def)
  obtain t where t: "ipc_splay_tree_delete (is_tree sp) name = Some t" "ist_inv t"
    "map_of (ist_entries t) = (tree_map sp)(name := None)"
    using splay.delete_map [OF inv, of name] e by auto
  have tot: "0 < is_tree_total sp" using tree_nonempty [OF tree e] .
  have "unat (is_tree_total sp - 1) = card (dom (tree_map sp)) - 1"
    using tree tot by (simp add: unat_dec tree_ok_def)
  also have "\<dots> = card ?D" using e by (simp add: card_Diff_singleton_if finite_dom_map_of domI)
  finally have total': "unat (is_tree_total sp - 1) = card ?D" .
  let ?sp = "sp\<lparr>is_tree := t, is_tree_total := is_tree_total sp - 1\<rparr>"
  have valid: "MACH_PORT_VALID n" if "n \<in> dom (tree_map sp)" for n
    using that tree by (auto simp: tree_ok_def)
  obtain u where u: "ipc_entry_tree_collision ?sp name = Some (?i \<in> name_index ` ?D, ?sp\<lparr>is_tree := u\<rparr>)"
    "ist_inv u" "ist_entries u = ist_entries t"
    using tree_collision_spec [of ?sp name] t act valid by auto
  let ?c = "?i \<in> name_index ` ?D" let ?S = "{is_table_size sp..<its_size}"
  have idx: "tree_indices sp = insert ?i (name_index ` ?D)" using e by (auto simp: image_iff)
  have i_tree: "?i \<in> tree_indices sp" using e by auto
  have small0: "unat (is_tree_small sp) = card (tree_indices sp \<inter> ?S)" using tree by (simp add: tree_ok_def)
  have fin: "finite (name_index ` ?D \<inter> ?S)" by simp
  have small_same: "unat (is_tree_small sp) = card (name_index ` ?D \<inter> ?S)" if "?c \<or> ?i \<notin> ?S"
  proof -
    have "tree_indices sp \<inter> ?S = name_index ` ?D \<inter> ?S" unfolding idx using that by auto
    then show ?thesis by (simp only: small0)
  qed
  have small_less: "unat (is_tree_small sp) = Suc (card (name_index ` ?D \<inter> ?S))" if "\<not> ?c" "?i \<in> ?S"
    using that small0 idx fin by (simp add: card_insert_if)
  have nofl: "?i \<notin> set fl" using free_entry(5) [OF ok, of ?i] i_tree by blast
  have other: "\<not> (?i < is_table_size sp \<and> IE_BITS_GEN (ie_bits (is_table sp ! ?i)) = MACH_PORT_GEN name)"
    using tree e by (auto simp: tree_ok_def)
  have change: ?thesis
    if run: "ipc_entry_dealloc_tree space name s = Some (put_space space sp' s)"
      and v: "ist_inv (is_tree sp')" "ist_entries (is_tree sp') = ist_entries t"
      and small: "unat (is_tree_small sp') = card (name_index ` ?D \<inter> ?S)"
      and T: "is_table sp' = (if ?i < is_table_size sp then collision_table ?c ?i (is_table sp) else is_table sp)"
      and rest: "is_tree_total sp' = is_tree_total sp - 1" "is_references sp' = is_references sp"
        "is_active sp' = is_active sp" "is_growing sp' = is_growing sp" "is_table_size sp' = is_table_size sp"
        "is_table_next sp' = is_table_next sp" "is_tree_hash sp' = is_tree_hash sp" "is_fast sp' = is_fast sp"
    for sp'
  proof -
    have T': "is_table sp' = (if ?i < is_table_size sp \<and> ?i \<notin> set fl then collision_table ?c ?i (is_table sp) else is_table sp)"
      by (simp only: T nofl simp_thms not_False_eq_True)
    have tm: "map_of (ist_entries (is_tree sp')) = (tree_map sp)(name := None)" by (simp only: v(2) t(3))
    have vn: "MACH_PORT_VALID name" using valid e by blast
    let ?F = "sp\<lparr>is_tree := is_tree sp', is_tree_total := is_tree_total sp - 1,
      is_tree_small := is_tree_small sp', is_table := is_table sp'\<rparr>"
    have F: "?F = sp'" by (rule ipc_space.equality) (simp_all add: rest)
    note ch = tree_change_ok [OF ok v(1) refl vn tm _ _ other _ _ total' small T', unfolded F]
    have "space_ok sp' its_size fl (claimed - {Tree_entry name})" by (rule ch(2)) auto
    moreover have "is_names sp' = (is_names sp)(name := None)"
      using ch(1) [of "claimed - {Tree_entry name}"] by simp
    ultimately show ?thesis using run by blast
  qed
  have coll: "has (ie_bits (is_table sp ! ?i)) IE_BITS_COLLISION" if "?i < is_table_size sp"
    using that ok i_tree by (simp add: space_ok_def table_ok_def)
  have keep: "collision_table True ?i (is_table sp) = is_table sp" if "?i < is_table_size sp"
  proof -
    have "ie_bits (is_table sp ! ?i) OR IE_BITS_COLLISION = ie_bits (is_table sp ! ?i)"
      using coll [OF that] by (rule has_collision(4))
    then show ?thesis by simp
  qed
  show ?thesis
  proof (cases "?i < is_table_size sp")
    case True
    let ?u = "sp\<lparr>is_tree_total := is_tree_total sp - 1, is_tree := u\<rparr>"
    let ?F = "if ?c then ?u else ?u\<lparr>is_table := collision_table False ?i (is_table sp)\<rparr>"
    have "ipc_entry_dealloc_tree space name s = Some (put_space space ?F s)"
      using True u coll t tot len sp by (simp add: ipc_entry_dealloc_tree_def Let_def has_def upd_entry_def)
    then show ?thesis
      by (rule change) (use True u small_same keep in simp_all)
  next
    case False
    show ?thesis
    proof (cases "?i < its_size")
      case s: True
      let ?u = "sp\<lparr>is_tree_total := is_tree_total sp - 1, is_tree := u\<rparr>"
      let ?F = "if ?c then ?u else ?u\<lparr>is_tree_small := is_tree_small sp - 1\<rparr>"
      have pos: "0 < is_tree_small sp" if "\<not> ?c"
        using small_less s False that by (simp add: word_gt_0 unat_gt_0 [symmetric])
      have dec: "unat (is_tree_small sp - 1) = card (name_index ` ?D \<inter> ?S)" if "\<not> ?c"
        using small_less s False that pos by (simp add: unat_dec)
      have "ipc_entry_dealloc_tree space name s = Some (put_space space ?F s)"
        using False s u t tot its sp pos by (simp add: ipc_entry_dealloc_tree_def Let_def)
      then show ?thesis
        by (rule change) (use False u small_same dec in simp_all)
    next
      case s: False
      have "ipc_entry_dealloc_tree space name s =
          Some (put_space space (sp\<lparr>is_tree := t, is_tree_total := is_tree_total sp - 1\<rparr>) s)"
        using False s t tot its sp by (simp add: ipc_entry_dealloc_tree_def Let_def)
      then show ?thesis
        by (rule change) (use False s t small_same in simp_all)
    qed
  qed
qed

text \<open>A name enters the tree; its entry has no type yet.\<close>

lemma tree_size:
  assumes "tree_ok sp its_size claimed"
  shows "card (dom (tree_map sp)) + 1 < 2 ^ 32" and "card (tree_indices sp \<inter> S) + 1 < 2 ^ 32"
proof -
  have "dom (tree_map sp) \<subseteq> UNIV - {0, - 1}"
    using assms by (auto simp: tree_ok_def MACH_PORT_VALID_def)
  then have "card (dom (tree_map sp)) \<le> card (UNIV - {0 :: u32, - 1})" by (intro card_mono) auto
  also have "\<dots> = 2 ^ 32 - 2" by (subst card_Diff_subset) (simp_all add: card_word)
  finally show *: "card (dom (tree_map sp)) + 1 < 2 ^ 32" by simp
  have "card (tree_indices sp \<inter> S) \<le> card (tree_indices sp)"
    by (intro card_mono) (simp_all add: finite_dom_map_of)
  also have "\<dots> \<le> card (dom (tree_map sp))" by (intro card_image_le) (simp add: finite_dom_map_of)
  finally show "card (tree_indices sp \<inter> S) + 1 < 2 ^ 32" using * by simp
qed

lemma insert_tree_spec:
  assumes ok: "space_ok sp its_size fl claimed" and none: "tree_map sp name = None"
    and valid: "MACH_PORT_VALID name" and fast: "\<not> is_fast sp" and nofl: "name_index name \<notin> set fl"
    and other: "\<not> (name_index name < is_table_size sp \<and>
      IE_BITS_GEN (ie_bits (is_table sp ! name_index name)) = MACH_PORT_GEN name)"
  shows "\<exists>sp'. ipc_entry_insert_tree sp its_size name = Some sp' \<and>
           space_ok sp' its_size fl (insert (Tree_entry name) claimed) \<and> is_names sp' = is_names sp \<and>
           tree_map sp' = (tree_map sp)(name \<mapsto> ie_zero)"
proof -
  let ?i = "name_index name" let ?D = "dom ((tree_map sp)(name \<mapsto> ie_zero))"
  let ?S = "{is_table_size sp..<its_size}"
  have inv: "ist_inv (is_tree sp)" and act: "is_active sp" and tree: "tree_ok sp its_size claimed"
    and len: "length (is_table sp) = is_table_size sp"
    using ok by (simp_all add: space_ok_def tree_ok_def table_ok_def)
  have tot: "unat (is_tree_total sp + 1) = card ?D"
    using tree tree_size [OF tree] none by (simp add: unat_inc tree_ok_def finite_dom_map_of card_insert_if domIff)
  have idx: "name_index ` ?D = insert ?i (tree_indices sp)" by simp
  have small0: "unat (is_tree_small sp) = card (tree_indices sp \<inter> ?S)" using tree by (simp add: tree_ok_def)
  have valid_tree: "MACH_PORT_VALID n" if "n \<in> dom (tree_map sp)" for n
    using that tree by (auto simp: tree_ok_def)
  have change: ?thesis
    if run: "ipc_entry_insert_tree sp its_size name = Some sp'"
      and v: "ist_inv (is_tree sp')" "tree_map sp' = (tree_map sp)(name \<mapsto> ie_zero)"
      and small: "unat (is_tree_small sp') = card (name_index ` ?D \<inter> ?S)"
      and T: "is_table sp' = (if ?i < is_table_size sp then collision_table True ?i (is_table sp) else is_table sp)"
      and rest: "is_tree_total sp' = is_tree_total sp + 1" "is_references sp' = is_references sp"
        "is_active sp' = is_active sp" "is_growing sp' = is_growing sp" "is_table_size sp' = is_table_size sp"
        "is_table_next sp' = is_table_next sp" "is_tree_hash sp' = is_tree_hash sp" "is_fast sp' = is_fast sp"
    for sp'
  proof -
    have c: "(?i \<in> name_index ` ?D) = True" by simp
    have zero: "IE_BITS_GEN (ie_bits ie_zero) = 0 \<and> \<not> has (ie_bits ie_zero) IE_BITS_COLLISION"
      by (simp add: ie_zero_def IE_BITS_GEN_def has_def)
    have T': "is_table sp' = (if ?i < is_table_size sp \<and> ?i \<notin> set fl
        then collision_table (?i \<in> name_index ` ?D) ?i (is_table sp) else is_table sp)"
      unfolding c by (simp only: T nofl simp_thms not_False_eq_True)
    let ?F = "sp\<lparr>is_tree := is_tree sp', is_tree_total := is_tree_total sp + 1,
      is_tree_small := is_tree_small sp', is_table := is_table sp'\<rparr>"
    have F: "?F = sp'" by (rule ipc_space.equality) (simp_all add: rest)
    note ch = tree_change_ok [OF ok v(1) refl valid v(2) _ _ other _ _ tot small T', unfolded F]
    have "space_ok sp' its_size fl (insert (Tree_entry name) claimed)" by (rule ch(2)) (use fast nofl zero in auto)
    moreover have "is_names sp' = (is_names sp)(name := Option.bind (Some ie_zero) ie_right)"
      by (rule ch(1) [of "insert (Tree_entry name) claimed"]) (use fast nofl zero in auto)
    moreover have "is_names sp name = None" using other none by (auto simp: is_names_def Let_def)
    ultimately show ?thesis using run v by (auto simp: ie_right_def ie_zero_def IE_BITS_TYPE_def)
  qed
  have insert: "\<exists>v. ipc_splay_tree_insert t name ie_zero = Some v \<and> ist_inv v \<and>
      map_of (ist_entries v) = (tree_map sp)(name \<mapsto> ie_zero)"
    if "ist_inv t" "ist_entries t = ist_entries (is_tree sp)" for t
    using splay.insert_map [OF that(1), of name ie_zero] that(2) none by simp
  let ?s1 = "sp\<lparr>is_tree_total := is_tree_total sp + 1\<rparr>"
  consider "?i < is_table_size sp" | "is_table_size sp \<le> ?i" "its_size \<le> ?i"
    | "is_table_size sp \<le> ?i" "?i < its_size" by linarith
  then show ?thesis
  proof cases
    case 1
    obtain v where v: "ipc_splay_tree_insert (is_tree sp) name ie_zero = Some v" "ist_inv v"
      "map_of (ist_entries v) = (tree_map sp)(name \<mapsto> ie_zero)" using insert [OF inv refl] by blast
    have "ipc_entry_insert_tree sp its_size name =
        Some (?s1\<lparr>is_table := collision_table True ?i (is_table sp), is_tree := v\<rparr>)"
      using 1 v len by (simp add: ipc_entry_insert_tree_def Let_def)
    then show ?thesis
      by (rule change) (use 1 v small0 idx in simp_all)
  next
    case 2
    obtain v where v: "ipc_splay_tree_insert (is_tree sp) name ie_zero = Some v" "ist_inv v"
      "map_of (ist_entries v) = (tree_map sp)(name \<mapsto> ie_zero)" using insert [OF inv refl] by blast
    have "ipc_entry_insert_tree sp its_size name = Some (?s1\<lparr>is_tree := v\<rparr>)"
      using 2 v by (simp add: ipc_entry_insert_tree_def Let_def)
    then show ?thesis
      by (rule change) (use 2 v small0 idx in simp_all)
  next
    case 3
    obtain u where u: "ipc_entry_tree_collision ?s1 name = Some (?i \<in> tree_indices sp, ?s1\<lparr>is_tree := u\<rparr>)"
      "ist_inv u" "ist_entries u = ist_entries (is_tree sp)"
      using tree_collision_spec [of ?s1 name] inv act valid_tree by auto
    obtain v where v: "ipc_splay_tree_insert u name ie_zero = Some v" "ist_inv v"
      "map_of (ist_entries v) = (tree_map sp)(name \<mapsto> ie_zero)" using insert [OF u(2,3)] by blast
    let ?sm = "if ?i \<in> tree_indices sp then is_tree_small sp else is_tree_small sp + 1"
    have run: "ipc_entry_insert_tree sp its_size name = Some (?s1\<lparr>is_tree := u, is_tree_small := ?sm, is_tree := v\<rparr>)"
      using 3 u v by (simp add: ipc_entry_insert_tree_def Let_def)
    have "unat ?sm = card (name_index ` ?D \<inter> ?S)"
      using 3 small0 tree_size(2) [OF tree, of ?S] unfolding idx
      by (simp add: unat_inc insert_absorb finite_dom_map_of)
    with run show ?thesis
      by (intro change [OF run]) (use 3 v in simp_all)
  qed
qed

section \<open>Allocation of a given name\<close>

lemma free_pred_walk:
  assumes "chain (\<lambda>j. ie_next (t ! j)) (ie_next (t ! unat f)) (xs @ unat w # ys)"
    and "unat f < length t" and "\<forall>j \<in> set xs. j < length t" and "unat w \<notin> set xs"
  shows "\<exists>p. ipc_entry_free_pred t w f = Some p \<and> unat p = last (unat f # xs)"
  using assms
proof (induction xs arbitrary: f)
  case Nil
  then have "ie_next (t ! unat f) = w" by (simp add: word_unat_eq_iff)
  with Nil show ?case by (subst ipc_entry_free_pred.simps) simp
next
  case (Cons a xs)
  let ?n = "ie_next (t ! unat f)"
  have a: "unat ?n = a" using Cons.prems(1) by simp
  then have "?n \<noteq> w" using Cons.prems(4) by auto
  moreover have "\<exists>p. ipc_entry_free_pred t w ?n = Some p \<and> unat p = last (unat ?n # xs)"
    by (rule Cons.IH) (use Cons.prems a in auto)
  ultimately show ?case using Cons.prems(2) a
    by (subst ipc_entry_free_pred.simps) simp
qed

lemma free_pred_spec:
  assumes "entry_list.fl_ok t (xs @ unat w # ys)"
  obtains p where "ipc_entry_free_pred t w 0 = Some p" and "unat p = last (0 # xs)"
proof -
  have "\<exists>p. ipc_entry_free_pred t w 0 = Some p \<and> unat p = last (unat (0 :: u32) # xs)"
    by (rule free_pred_walk) (use assms in \<open>auto simp: entry_list.fl_ok_def\<close>)
  with that show ?thesis by auto
qed

text \<open>A name whose index is below the table size: the element is free and gets claimed, it has
  the name already, or it is in use for another name.\<close>

lemma claim_spec:
  assumes ok: "space_ok sp its_size fl claimed" and i: "name_index name < is_table_size sp"
    and unclaimed: "Table_entry (name_index name) \<notin> claimed"
    and zero: "name_index name = 0 \<Longrightarrow> IE_BITS_GEN (ie_bits (is_table sp ! 0)) = 0"
    and tentry: "tentry \<Longrightarrow> \<not> is_fast sp \<and> name_index name \<notin> set fl \<and> is_names sp name = None"
  obtains (claimed) sp' xs ys where
      "ipc_entry_claim sp name tentry = Some (Some (Table_entry (name_index name)), sp')"
      "fl = xs @ name_index name # ys" "space_ok sp' its_size (xs @ ys) (insert (Table_entry (name_index name)) claimed)"
      "is_names sp' = is_names sp" "is_names sp name = None" "entry_at sp' (xs @ ys) name (Table_entry (name_index name))"
      "\<not> tentry"
    | (found) "ipc_entry_claim sp name tentry = Some (Some (Table_entry (name_index name)), sp)"
      "entry_at sp fl name (Table_entry (name_index name))" "is_names sp name \<noteq> None"
    | (other) "ipc_entry_claim sp name tentry = Some (None, sp)" "name_index name \<notin> set fl"
      "name_index name \<noteq> 0 \<Longrightarrow> IE_BITS_GEN (ie_bits (is_table sp ! name_index name)) \<noteq> MACH_PORT_GEN name"
proof -
  let ?i = "name_index name" let ?e = "is_table sp ! ?i"
  have len: "length (is_table sp) = is_table_size sp"
    and full: "entry_list.fl_full (is_table sp) fl (claimed_table claimed)"
    and type0: "IE_BITS_TYPE (ie_bits (is_table sp ! 0)) = 0"
    using ok by (simp_all add: space_ok_def table_ok_def)
  have nofl: "IE_BITS_TYPE (ie_bits ?e) \<noteq> 0 \<Longrightarrow> ?i \<notin> set fl" using free_entry(4) [OF ok, of ?i] by blast
  consider (z) "?i = 0" | (used) "?i \<noteq> 0" "IE_BITS_TYPE (ie_bits ?e) \<noteq> 0"
    "IE_BITS_GEN (ie_bits ?e) = MACH_PORT_GEN name"
    | (o) "?i \<noteq> 0" "IE_BITS_TYPE (ie_bits ?e) \<noteq> 0" "IE_BITS_GEN (ie_bits ?e) \<noteq> MACH_PORT_GEN name"
    | (free) "?i \<noteq> 0" "IE_BITS_TYPE (ie_bits ?e) = 0" by blast
  then show ?thesis
  proof cases
    case z
    then have "MACH_PORT_INDEX name = 0" by (simp add: unat_eq_0)
    moreover have "?i \<notin> set fl" using z free_entry(1) [OF ok, of ?i] by auto
    ultimately show ?thesis using other z zero i len type0 by (simp add: ipc_entry_claim_def Let_def)
  next
    case used
    then have n: "is_names sp name \<noteq> None" using i by (simp add: is_names_def Let_def ie_right_def)
    with tentry have "\<not> tentry" by blast
    with used n i len nofl show ?thesis
      by (intro found) (auto simp: ipc_entry_claim_def Let_def entry_at_def)
  next
    case o
    with i len nofl show ?thesis by (intro other) (auto simp: ipc_entry_claim_def Let_def)
  next
    case free
    then have fl: "?i \<in> set fl" using full i len unclaimed by (auto simp: entry_list.fl_full_def)
    with tentry have nt: "\<not> tentry" by blast
    obtain xs ys where xy: "fl = xs @ ?i # ys" using split_list [OF fl] by blast
    then have "entry_list.fl_ok (is_table sp) (xs @ ?i # ys)" using full by (simp add: entry_list.fl_full_def)
    then obtain p where p: "ipc_entry_free_pred (is_table sp) (MACH_PORT_INDEX name) 0 = Some p" "unat p = last (0 # xs)"
      by (rule free_pred_spec)
    note u = unlink_spec [OF ok [unfolded xy] IE_BITS_GEN_MACH_PORT_GEN]
    let ?sp = "sp\<lparr>is_table := (is_table sp)[last (0 # xs) := ie_next_update (\<lambda>_. ie_next ?e) (is_table sp ! last (0 # xs)),
                 ?i := ?e\<lparr>ie_bits := MACH_PORT_GEN name, ie_request := 0\<rparr>]\<rparr>"
    have "last (0 # xs) = 0 \<or> last (0 # xs) \<in> set xs" by simp
    then have lst: "last (0 # xs) < is_table_size sp" "last (0 # xs) \<noteq> ?i"
      using xy free_entry(2) [OF ok, of "last (0 # xs)"] full i free(1)
      by (auto simp: entry_list.fl_full_def entry_list.fl_ok_def simp del: last.simps)
    have idx: "MACH_PORT_INDEX name \<noteq> 0" using free(1) by auto
    have "ipc_entry_claim sp name tentry = Some (Some (Table_entry ?i), ?sp)"
      using p free idx nt i len lst free_entry(3) [OF ok fl]
      by (simp add: ipc_entry_claim_def Let_def nth_list_update)
    moreover have "is_names sp name = None"
      by (rule is_names_absent [OF refl i]) (use free free_entry(5) [OF ok fl] in simp_all)
    moreover have "entry_at ?sp (xs @ ys) name (Table_entry ?i)"
      using full xy i free len by (simp add: entry_at_def entry_list.fl_full_def entry_list.fl_ok_def)
    ultimately show ?thesis by (intro claimed [of ?sp xs ys]) (use u(1,2) xy nt in simp_all)
  qed
qed

lemma kalloc_put_space:
  "kalloc (put_space a x s) = (fst (kalloc s), put_space a x (snd (kalloc s)))"
  by (simp add: kalloc_def put_space_def split: list.split)

lemma kalloc_fields [simp]:
  "ks_spaces (snd (kalloc s)) = ks_spaces s" "ks_table_entries (snd (kalloc s)) = ks_table_entries s"
  by (simp_all add: kalloc_def split: list.split)

lemma put_space_fields [simp]: "ks_table_entries (put_space a x s) = ks_table_entries s"
  by (simp add: put_space_def)

text \<open>The table has no reason to grow when a tree entry is added for the name.\<close>

definition no_growth :: "ipc_space \<Rightarrow> nat \<Rightarrow> mach_port_name_t \<Rightarrow> bool" where
  "no_growth sp its_size name \<longleftrightarrow>
     \<not> (is_table_size sp \<le> name_index name \<and> name_index name < its_size \<and>
        (its_size - is_table_size sp) * SIZEOF_IPC_ENTRY < (unat (is_tree_small sp) + 1) * SIZEOF_IPC_TREE_ENTRY)"

text \<open>One turn of the loop for a name that has no entry.\<close>

lemma alloc_name_step:
  assumes sp: "ks_spaces s space = Some sp" and ok: "space_ok sp its_size fl claimed" and fast: "\<not> is_fast sp"
    and its: "array_get (ks_table_entries s) (is_table_next sp) = Some its_size"
    and grow: "no_growth sp its_size name" and none: "tree_map sp name = None"
    and claim: "name_index name < is_table_size sp \<Longrightarrow> ipc_entry_claim sp name tentry = Some (None, sp)"
  obtains t where "ist_inv t" and "ist_entries t = ist_entries (is_tree sp)"
    and "ipc_entry_alloc_name_loop space name tentry s =
      (if tentry then
         do { sp' \<leftarrow> ipc_entry_insert_tree (sp\<lparr>is_tree := t\<rparr>) its_size name;
              Some (Inr (Tree_entry name), put_space space sp' s) }
       else if fst (kalloc s) = 0 then Some (Inl KERN_RESOURCE_SHORTAGE, put_space space (sp\<lparr>is_tree := t\<rparr>) (snd (kalloc s)))
       else ipc_entry_alloc_name_loop space name True (put_space space (sp\<lparr>is_tree := t\<rparr>) (snd (kalloc s))))"
proof -
  have inv: "ist_inv (is_tree sp)" and act: "is_active sp"
    using ok by (simp_all add: space_ok_def tree_ok_def)
  obtain t where t: "(if 0 < is_tree_total sp then ipc_splay_tree_lookup (is_tree sp) name else (None, is_tree sp)) = (None, t)"
    "ist_inv t" "ist_entries t = ist_entries (is_tree sp)"
  proof (cases "0 < is_tree_total sp")
    case True
    with splay.lookup_law [OF inv, of name] none that show ?thesis by auto
  qed (use that inv in simp)
  have go: "(if name_index name < is_table_size sp then ipc_entry_claim sp name tentry else Some (None, sp)) = Some (None, sp)"
    using claim by simp
  show ?thesis
    by (rule that [OF t(2,3)], subst ipc_entry_alloc_name_loop.simps)
      (use grow in \<open>auto simp: sp act go fast t(1) its no_growth_def kalloc_put_space Let_def cong: if_cong\<close>)
qed

lemma alloc_name_spec:
  assumes sp: "ks_spaces s space = Some sp" and ok: "space_ok sp its_size fl claimed" and fast: "\<not> is_fast sp"
    and its: "array_get (ks_table_entries s) (is_table_next sp) = Some its_size"
    and grow: "no_growth sp its_size name" and valid: "MACH_PORT_VALID name"
    and unclaimed: "Table_entry (name_index name) \<notin> claimed" "Tree_entry name \<notin> claimed"
    and zero: "name_index name = 0 \<Longrightarrow> IE_BITS_GEN (ie_bits (is_table sp ! 0)) = 0"
    and mem: "fst (kalloc s) \<noteq> 0"
  shows "\<exists>entry sp' s' fl'. ipc_entry_alloc_name space name s = Some (Inr entry, put_space space sp' s') \<and>
           (s' = s \<or> s' = snd (kalloc s)) \<and> is_names sp' = is_names sp \<and> entry_at sp' fl' name entry \<and>
           space_ok sp' its_size fl' (if is_names sp name = None then insert entry claimed else claimed)"
proof -
  let ?i = "name_index name"
  have inv: "ist_inv (is_tree sp)" and act: "is_active sp" and tree: "tree_ok sp its_size claimed"
    using ok by (simp_all add: space_ok_def tree_ok_def)
  have start: "ipc_entry_alloc_name space name s = ipc_entry_alloc_name_loop space name False s"
    using valid by (simp add: ipc_entry_alloc_name_def)
  show ?thesis
  proof (cases "\<exists>r sp'. ?i < is_table_size sp \<and> ipc_entry_claim sp name False = Some (Some r, sp')")
    case True
    then have i: "?i < is_table_size sp" by blast
    show ?thesis
    proof (rule claim_spec [where tentry = False, OF ok i unclaimed(1) zero])
      fix sp' xs ys
      assume c: "ipc_entry_claim sp name False = Some (Some (Table_entry ?i), sp')"
        "space_ok sp' its_size (xs @ ys) (insert (Table_entry ?i) claimed)" "is_names sp' = is_names sp"
        "is_names sp name = None" "entry_at sp' (xs @ ys) name (Table_entry ?i)"
      have "ipc_entry_alloc_name_loop space name False s = Some (Inr (Table_entry ?i), put_space space sp' s)"
        by (subst ipc_entry_alloc_name_loop.simps) (simp add: sp act i c(1))
      with c start show ?thesis by auto
    next
      assume c: "ipc_entry_claim sp name False = Some (Some (Table_entry ?i), sp)"
        "entry_at sp fl name (Table_entry ?i)" "is_names sp name \<noteq> None"
      have "ipc_entry_alloc_name_loop space name False s = Some (Inr (Table_entry ?i), put_space space sp s)"
        by (subst ipc_entry_alloc_name_loop.simps) (simp add: sp act i c(1))
      with c start ok show ?thesis by auto
    qed (use True in auto)
  next
    case False
    have notin: "?i \<notin> set fl \<and> \<not> (?i < is_table_size sp \<and> IE_BITS_GEN (ie_bits (is_table sp ! ?i)) = MACH_PORT_GEN name)
        \<and> (?i < is_table_size sp \<longrightarrow> ipc_entry_claim sp name False = Some (None, sp))"
    proof (cases "?i < is_table_size sp")
      case i: True
      show ?thesis
      proof (rule claim_spec [where tentry = False, OF ok i unclaimed(1) zero])
        assume c: "ipc_entry_claim sp name False = Some (None, sp)" "?i \<notin> set fl"
          "?i \<noteq> 0 \<Longrightarrow> IE_BITS_GEN (ie_bits (is_table sp ! ?i)) \<noteq> MACH_PORT_GEN name"
        moreover have "MACH_PORT_GEN name \<noteq> 0" if "?i = 0"
          using that valid MAKE_INDEX_GEN [of name] by (auto simp: unat_eq_0 MACH_PORT_MAKE_def MACH_PORT_VALID_def)
        ultimately show ?thesis using zero by (cases "?i = 0") auto
      qed (use False i in auto)
    next
      case i: False
      then show ?thesis using free_entry(2) [OF ok, of ?i] by blast
    qed
    have names: "is_names sp name = Option.bind (tree_map sp name) ie_right"
      using notin by (auto simp: is_names_def Let_def)
    show ?thesis
    proof (cases "tree_map sp name")
      case (Some e)
      then have ty: "IE_BITS_TYPE (ie_bits e) \<noteq> 0" using tree unclaimed(2) by (auto simp: tree_ok_def)
      obtain t where t: "ipc_splay_tree_lookup (is_tree sp) name = (Some e, t)"
        "ist_inv t" "ist_entries t = ist_entries (is_tree sp)"
        using splay.lookup_law [OF inv, of name] Some by auto
      have "0 < is_tree_total sp" using tree_nonempty [OF tree Some] .
      then have "ipc_entry_alloc_name_loop space name False s =
          Some (Inr (Tree_entry name), put_space space (sp\<lparr>is_tree := t\<rparr>) s)"
        using notin by (subst ipc_entry_alloc_name_loop.simps) (simp add: sp act fast t(1) ty Let_def)
      moreover have "entry_at (sp\<lparr>is_tree := t\<rparr>) fl name (Tree_entry name)"
        using Some t(3) by (simp add: entry_at_def)
      ultimately show ?thesis using start same_tree [OF t(2,3) inv] ok names Some ty
        by (intro exI [of _ "Tree_entry name"] exI [of _ "sp\<lparr>is_tree := t\<rparr>"] exI [of _ s] exI [of _ fl])
          (simp add: ie_right_def)
    next
      case None
      obtain t where t: "ist_inv t" "ist_entries t = ist_entries (is_tree sp)"
        and run: "ipc_entry_alloc_name_loop space name False s =
          ipc_entry_alloc_name_loop space name True (put_space space (sp\<lparr>is_tree := t\<rparr>) (snd (kalloc s)))"
        using alloc_name_step [OF sp ok fast its grow None, of False] notin mem by auto
      let ?sp = "sp\<lparr>is_tree := t\<rparr>" let ?s = "put_space space ?sp (snd (kalloc s))"
      note st = same_tree [OF t inv]
      have n: "is_names sp name = None" using names None by simp
      have claim: "ipc_entry_claim ?sp name True = Some (None, ?sp)" if "?i < is_table_size ?sp"
      proof (rule claim_spec [where tentry = True and sp = ?sp, OF st(2) [THEN iffD2, OF ok] that unclaimed(1)])
        assume "is_names ?sp name \<noteq> None"
        then show ?thesis using n st(1) by simp
      qed (use zero fast notin n st(1) in auto)
      obtain u where u: "ist_inv u" "ist_entries u = ist_entries t"
        and run2: "ipc_entry_alloc_name_loop space name True ?s =
          do { sp' \<leftarrow> ipc_entry_insert_tree (sp\<lparr>is_tree := u\<rparr>) its_size name;
               Some (Inr (Tree_entry name), put_space space sp' (snd (kalloc s))) }"
        by (rule alloc_name_step [of ?s space ?sp its_size fl claimed name True])
          (use st ok fast its grow None t claim in \<open>auto simp: no_growth_def\<close>)
      note su = same_tree [OF u(1) trans [OF u(2) t(2)] inv]
      obtain sp' where sp': "ipc_entry_insert_tree (sp\<lparr>is_tree := u\<rparr>) its_size name = Some sp'"
        "space_ok sp' its_size fl (insert (Tree_entry name) claimed)" "is_names sp' = is_names sp"
        "tree_map sp' = (tree_map sp)(name \<mapsto> ie_zero)"
        using insert_tree_spec [OF su(2) [THEN iffD2, OF ok], of name] None valid fast notin u t su by auto
      have "entry_at sp' fl name (Tree_entry name)" by (simp add: entry_at_def sp'(4))
      with start run run2 sp' n show ?thesis by auto
    qed
  qed
qed

section \<open>Deallocation with a collision\<close>

lemma less_make_iff:
  assumes "unat w < 2 ^ 24" shows "n < MACH_PORT_MAKE w 0 \<longleftrightarrow> name_index n < unat w"
proof -
  have m: "MACH_PORT_MAKE w 0 = push_bit 8 w" by (simp add: MACH_PORT_MAKE_def)
  have u: "unat (push_bit 8 w) = unat w * 256"
    using assms by (simp add: push_bit_eq_mult unat_word_ariths)
  have "unat n < unat w * 256 \<longleftrightarrow> unat n div 256 < unat w" by (simp add: div_less_iff_less_mult)
  then show ?thesis unfolding m by (simp add: word_less_nat_alt u MACH_PORT_INDEX_def unat_div drop_bit_eq_div)
qed

lemma pick_spec:
  "ist_entries t = [] \<Longrightarrow> ist_inv t \<Longrightarrow> ipc_splay_tree_pick t = None"
  "ist_entries t \<noteq> [] \<Longrightarrow> \<exists>x \<in> set (ist_entries t). ipc_splay_tree_pick t = Some x"
  by (cases "ist_root t"; auto simp: ist_entries_def ipc_splay_tree_pick_def)+

text \<open>The reverse table does not see an entry that it does not hold.\<close>

lemma space_hash_ok_update:
  assumes "space_hash_ok sp" and "i \<notin> hashed (is_table sp)" and "ie_index (f (is_table sp ! i)) = ie_index (is_table sp ! i)"
  defines "t \<equiv> (is_table sp)[i := f (is_table sp ! i)]"
  shows "space_hash_ok (sp\<lparr>is_table := t\<rparr>)" and "hashed t = hashed (is_table sp)"
proof -
  have idx: "ie_index (t ! p) = ie_index (is_table sp ! p)" for p
    using assms(3) by (cases "p = i"; cases "i < length (is_table sp)") (simp_all add: t_def list_update_beyond)
  have len: "length t = length (is_table sp)" by (simp add: t_def)
  show h: "hashed t = hashed (is_table sp)" by (simp add: hashed_def idx len)
  have obj: "ie_object (t ! j) = ie_object (is_table sp ! j)" if "j \<in> hashed (is_table sp)" for j
    using that assms(2) by (cases "j = i") (simp_all add: t_def)
  have "probe_ok (length t) (slot_of t) (home_of t)"
  proof -
    have "home_of t (slot_of t p) = home_of (is_table sp) (slot_of (is_table sp) p)"
      if "p < length t" "slot_of t p \<noteq> 0" for p
    proof -
      have "slot_of (is_table sp) p \<in> hashed (is_table sp)" using that by (auto simp: idx len hashed_def)
      from obj [OF this] show ?thesis by (simp add: idx len)
    qed
    with assms(1) show ?thesis by (simp add: space_hash_ok_def local_hash_ok_def probe_ok_def idx len)
  qed
  moreover have "inj_on (\<lambda>j. ie_object (t ! j)) (hashed (is_table sp))"
    using assms(1) obj by (simp add: space_hash_ok_def local_hash_ok_def inj_on_def)
  ultimately show "space_hash_ok (sp\<lparr>is_table := t\<rparr>)"
    using assms(1) by (simp add: space_hash_ok_def local_hash_ok_def h obj idx len)
qed

text \<open>A collided element of the table takes over a name of the tree. The reverse tables have to
  know the pure send rights among the names that may move.\<close>

definition collision_hashed :: "kernel \<Rightarrow> ipc_space_t \<Rightarrow> ipc_space \<Rightarrow> nat \<Rightarrow> bool" where
  "collision_hashed s space sp i \<longleftrightarrow> space_hash_ok sp \<and> i \<notin> hashed (is_table sp) \<and>
     (\<forall>n e. tree_map sp n = Some e \<longrightarrow> name_index n = i \<longrightarrow> IE_BITS_TYPE (ie_bits e) = MACH_PORT_TYPE_SEND \<longrightarrow>
        ie_object e \<noteq> IO_NULL \<and> 0 < is_tree_hash sp \<and>
        (space, n) \<in> set (ks_hash s (IH_GLOBAL_HASH s space (ie_object e))) \<and>
        (\<forall>j \<in> hashed (is_table sp). ie_object (is_table sp ! j) \<noteq> ie_object e))"

text \<open>The invariant after the move, for the final space.\<close>

lemma collision_move_ok:
  fixes sp sp' :: ipc_space
  assumes ok: "space_ok sp its_size fl claimed" and at: "entry_at sp fl name (Table_entry i)"
    and te: "tree_map sp tname = Some te" and tn: "name_index tname = i" and tc: "Tree_entry tname \<notin> claimed"
    and inv: "ist_inv (is_tree sp')" and tm: "tree_map sp' = (tree_map sp)(tname := None)"
    and len: "length (is_table sp') = length (is_table sp)"
    and new: "ie_object (is_table sp' ! i) = ie_object te" "ie_request (is_table sp' ! i) = ie_request te"
      "ie_bits (is_table sp' ! i) = (if i \<in> tree_indices sp' then (ie_bits te OR MACH_PORT_GEN tname) OR IE_BITS_COLLISION
         else ie_bits te OR MACH_PORT_GEN tname)"
    and old: "\<And>j. j < length (is_table sp) \<Longrightarrow> j \<noteq> i \<Longrightarrow> ie_object (is_table sp' ! j) = ie_object (is_table sp ! j) \<and>
      ie_bits (is_table sp' ! j) = ie_bits (is_table sp ! j) \<and> ie_request (is_table sp' ! j) = ie_request (is_table sp ! j)"
    and rest: "is_tree_total sp' = is_tree_total sp - 1" "is_active sp' = is_active sp" "is_table_size sp' = is_table_size sp"
      "is_tree_small sp' = is_tree_small sp" "is_fast sp' = is_fast sp"
  shows "space_ok sp' its_size fl (claimed - {Table_entry i})" and "is_names sp' = (is_names sp)(name := None)"
proof -
  have i: "0 < i" "i = name_index name" "i < is_table_size sp" "i \<notin> set fl"
    "IE_BITS_GEN (ie_bits (is_table sp ! i)) = MACH_PORT_GEN name"
    using at by (auto simp: entry_at_def)
  have l: "length (is_table sp) = is_table_size sp" and tree: "tree_ok sp its_size claimed"
    and full: "entry_list.fl_full (is_table sp) fl (claimed_table claimed)"
    using ok by (simp_all add: space_ok_def table_ok_def)
  have teb: "IE_BITS_GEN (ie_bits te) = 0" "\<not> has (ie_bits te) IE_BITS_COLLISION" "IE_BITS_TYPE (ie_bits te) \<noteq> 0"
    using tree te tc by (auto simp: tree_ok_def)
  have gen_ne: "MACH_PORT_GEN n \<noteq> MACH_PORT_GEN m" if "name_index n = name_index m" "n \<noteq> m" for n m
  proof
    assume "MACH_PORT_GEN n = MACH_PORT_GEN m"
    moreover have "MACH_PORT_INDEX n = MACH_PORT_INDEX m" using that(1) by (simp add: word_unat_eq_iff)
    ultimately show False using MAKE_INDEX_GEN [of n] MAKE_INDEX_GEN [of m] that(2) by simp
  qed
  let ?e = "is_table sp' ! i"
  have e: "IE_BITS_GEN (ie_bits ?e) = MACH_PORT_GEN tname" "IE_BITS_TYPE (ie_bits ?e) = IE_BITS_TYPE (ie_bits te)"
    "ie_right ?e = ie_right te" "has (ie_bits ?e) IE_BITS_COLLISION \<longleftrightarrow> i \<in> tree_indices sp'"
    using teb by (simp_all add: new or_gen_fields collision_fields has_collision ie_right_def)
  have far: "j \<in> tree_indices sp' \<longleftrightarrow> j \<in> tree_indices sp" if "j \<noteq> i" for j
    using that tn by (auto simp: tm image_iff split: if_splits)
  have tdom: "tname \<in> dom (tree_map sp)" using te by blast
  have i_tree: "i \<in> tree_indices sp" using imageI [OF tdom, of name_index] tn by simp
  have nname: "tree_map sp name = None"
    using tree i by (cases "tree_map sp name") (auto simp: tree_ok_def)
  show "is_names sp' = (is_names sp)(name := None)"
  proof
    fix n
    consider "name_index n \<noteq> i" | "n = name" | "n = tname" | "name_index n = i" "n \<noteq> name" "n \<noteq> tname" by blast
    then show "is_names sp' n = ((is_names sp)(name := None)) n"
    proof cases
      case 1
      then have "n \<noteq> name" "n \<noteq> tname" using i tn by auto
      with 1 old [of "name_index n"] l rest tm show ?thesis
        by (cases "name_index n < is_table_size sp") (simp_all add: is_names_def Let_def ie_right_def)
    next
      case 2
      have "name \<noteq> tname" using te nname by auto
      with 2 i tn e(1) gen_ne [of tname name] nname rest tm show ?thesis by (simp add: is_names_def Let_def)
    next
      case 3
      have "name \<noteq> tname" using te nname by auto
      with 3 i tn e gen_ne [of tname name] te rest show ?thesis by (simp add: is_names_def Let_def)
    next
      case 4
      then show ?thesis using i tn e(1) gen_ne [of tname n] gen_ne [of name n] rest tm by (simp add: is_names_def Let_def)
    qed
  qed
  have "chain (\<lambda>j. ie_next (is_table sp' ! j)) (ie_next (is_table sp' ! 0)) fl \<longleftrightarrow>
      chain (\<lambda>j. ie_next (is_table sp ! j)) (ie_next (is_table sp ! 0)) fl"
  proof -
    have h: "ie_next (is_table sp' ! 0) = ie_next (is_table sp ! 0)" using old [of 0] i l by simp
    have "ie_next (is_table sp' ! j) = ie_next (is_table sp ! j)" if "j \<in> set fl" for j
      using old [of j] that i(4) l free_entry(2) [OF ok that] by (cases "j = i") auto
    then show ?thesis unfolding h by (rule chain_cong)
  qed
  moreover have "IE_BITS_TYPE (ie_bits (is_table sp' ! j)) = 0 \<longleftrightarrow> IE_BITS_TYPE (ie_bits (is_table sp ! j)) = 0 \<and> j \<noteq> i"
    if "j < is_table_size sp" for j using old [of j] that l e(2) teb(3) by (cases "j = i") simp_all
  ultimately have full': "entry_list.fl_full (is_table sp') fl (claimed_table (claimed - {Table_entry i}))"
    using full i len l unfolding entry_list.fl_full_def entry_list.fl_ok_def by auto
  have "table_ok sp' fl (claimed - {Table_entry i})"
  proof -
    have "IE_BITS_TYPE (ie_bits (is_table sp' ! 0)) = 0" using ok old [of 0] i l by (simp add: space_ok_def table_ok_def)
    moreover have "ie_object (is_table sp' ! j) = IO_NULL \<and> j \<notin> tree_indices sp'" if "j \<in> set fl" for j
    proof -
      have "j \<noteq> i" using that i(4) by auto
      with that free_entry(2,3,5) [OF ok that] old [of j] far [of j] l show ?thesis by simp
    qed
    moreover have "has (ie_bits (is_table sp' ! j)) IE_BITS_COLLISION \<longleftrightarrow> j \<in> tree_indices sp'"
      if "j < is_table_size sp" for j
      using that old [of j] far [of j] e(4) l ok by (cases "j = i") (simp_all add: space_ok_def table_ok_def)
    ultimately show ?thesis using ok full' len rest by (simp add: space_ok_def table_ok_def)
  qed
  moreover have "tree_ok sp' its_size (claimed - {Table_entry i})"
  proof -
    have "unat (is_tree_total sp - 1) = card (dom (tree_map sp) - {tname})"
      using tree tree_nonempty [OF tree te] tdom
      by (simp add: unat_dec tree_ok_def card_Diff_singleton_if finite_dom_map_of)
    moreover have "tree_indices sp' \<inter> {is_table_size sp..<its_size} = tree_indices sp \<inter> {is_table_size sp..<its_size}"
    proof (rule set_eqI)
      fix j
      show "j \<in> tree_indices sp' \<inter> {is_table_size sp..<its_size} \<longleftrightarrow> j \<in> tree_indices sp \<inter> {is_table_size sp..<its_size}"
        using far [of j] i(3) by (cases "j = i") simp_all
    qed
    moreover have "IE_BITS_GEN (ie_bits (is_table sp' ! name_index n)) \<noteq> MACH_PORT_GEN n"
      if "tree_map sp n = Some x" "n \<noteq> tname" "name_index n < is_table_size sp" for n x
      using that gen_ne [of tname n] e(1) tn old [of "name_index n"] l tree
      by (cases "name_index n = i") (auto simp: tree_ok_def)
    ultimately show ?thesis using tree inv rest
      unfolding tree_ok_def by (auto simp: tm)
  qed
  moreover have "is_fast sp' \<longrightarrow> ist_entries (is_tree sp') = []" using ok te rest by (auto simp: space_ok_def)
  ultimately show "space_ok sp' its_size fl (claimed - {Table_entry i})" using ok rest by (simp add: space_ok_def)
qed

lemma put_space_hash [simp]: "put_space a x (s\<lparr>ks_hash := h\<rparr>) = (put_space a x s)\<lparr>ks_hash := h\<rparr>"
  by (simp add: put_space_def)

text \<open>The entry changes from the global to the local reverse table.\<close>

lemma collision_rehash:
  assumes sp: "ks_spaces s space = Some sp" and te: "tree_map sp tname = Some te" and tn: "name_index tname = i"
    and i: "0 < i" "unat w = i" "i < is_table_size sp" and l: "length (is_table sp) = is_table_size sp"
    and fast: "\<not> is_fast sp" and hash: "collision_hashed s space sp i"
  defines "T \<equiv> (is_table sp)[i := (is_table sp ! i)\<lparr>ie_object := ie_object te,
    ie_bits := ie_bits te OR MACH_PORT_GEN tname, ie_request := ie_request te\<rparr>]"
  obtains x T' h where "ipc_entry_hash_moved space (ie_object te) tname te w (put_space space (sp\<lparr>is_table := T\<rparr>) s) =
       Some (put_space space (sp\<lparr>is_tree_hash := x, is_table := T'\<rparr>) s\<lparr>ks_hash := h\<rparr>)"
    and "same_entries T T'"
proof (cases "IE_BITS_TYPE (ie_bits te) = MACH_PORT_TYPE_SEND")
  case False
  have A: "sp\<lparr>is_tree_hash := is_tree_hash sp, is_table := T\<rparr> = sp\<lparr>is_table := T\<rparr>" by (rule ipc_space.equality) simp_all
  have B: "(put_space space (sp\<lparr>is_table := T\<rparr>) s)\<lparr>ks_hash := ks_hash s\<rparr> = put_space space (sp\<lparr>is_table := T\<rparr>) s"
    by (rule kernel.equality) (simp_all add: put_space_def)
  show ?thesis
    by (rule that [where x = "is_tree_hash sp" and T' = T and h = "ks_hash s"])
      (simp_all only: ipc_entry_hash_moved_def False if_False A B same_entries_refl)
next
  case True
  let ?o = "ie_object te" let ?sp2 = "sp\<lparr>is_table := T, is_tree_hash := is_tree_hash sp - 1\<rparr>"
  have h: "space_hash_ok sp" "i \<notin> hashed (is_table sp)" "?o \<noteq> IO_NULL" "0 < is_tree_hash sp"
    "(space, tname) \<in> set (ks_hash s (IH_GLOBAL_HASH s space ?o))"
    "\<forall>j \<in> hashed (is_table sp). ie_object (is_table sp ! j) \<noteq> ?o"
    using hash te tn True by (auto simp: collision_hashed_def)
  have up: "space_hash_ok (sp\<lparr>is_table := T\<rparr>)" "hashed T = hashed (is_table sp)"
    unfolding T_def by (rule space_hash_ok_update [OF h(1,2)]; simp)+
  have Ti: "T ! j = (if j = i then (is_table sp ! i)\<lparr>ie_object := ?o, ie_bits := ie_bits te OR MACH_PORT_GEN tname,
      ie_request := ie_request te\<rparr> else is_table sp ! j)" for j using i l by (simp add: T_def nth_list_update)
  have "\<exists>t'. ipc_hash_local_insert ?sp2 ?o w = Some (?sp2\<lparr>is_table := t'\<rparr>) \<and> local_hash_ok t' \<and>
      hashed t' = insert (unat w) (hashed (is_table ?sp2)) \<and> same_entries (is_table ?sp2) t'"
  proof (rule local_insert_spec)
    show "w \<noteq> 0" using i by auto
    show "\<forall>j \<in> hashed (is_table ?sp2). ie_object (is_table ?sp2 ! j) \<noteq> ?o" using h(2,6) up(2) by (auto simp: Ti)
  qed (use up h i l in \<open>simp_all add: space_hash_ok_def Ti T_def\<close>)
  then obtain t' where t': "ipc_hash_local_insert ?sp2 ?o w = Some (?sp2\<lparr>is_table := t'\<rparr>)" "same_entries T t'"
    by auto
  let ?h = "(ks_hash s)(IH_GLOBAL_HASH s space ?o := remove1 (space, tname) (ks_hash s (IH_GLOBAL_HASH s space ?o)))"
  have "ipc_hash_global_delete space ?o tname te (put_space space (sp\<lparr>is_table := T\<rparr>) s) =
      Some ((put_space space ?sp2 s)\<lparr>ks_hash := ?h\<rparr>)"
    using h fast by (simp add: ipc_hash_global_delete_def upd_space_def Let_def IH_GLOBAL_HASH_def put_space_def)
  then show ?thesis using that [where x = "is_tree_hash sp - 1" and T' = t' and h = ?h] True t'
    by (simp add: ipc_entry_hash_moved_def put_space_def)
qed

text \<open>The tree is split in three; a name is taken from the middle part, and the rest is joined.\<close>

lemma collision_trees:
  fixes tree :: "ipc_entry ipc_splay_tree"
  assumes inv: "ist_inv tree" and i: "unat w = i" "0 < i" "i + 1 < 2 ^ 24"
    and i_tree: "i \<in> name_index ` dom (map_of (ist_entries tree))"
  obtains hitree c0 c small tname te c' t1 t2 k where
      "ipc_splay_tree_split tree (MACH_PORT_MAKE (w + 1) 0) tree = Some (hitree, c0)"
      "ipc_splay_tree_split c0 (MACH_PORT_MAKE w 0) c0 = Some (c, small)"
      "ipc_splay_tree_pick c = Some (tname, te)" "map_of (ist_entries tree) tname = Some te" "name_index tname = i"
      "ipc_splay_tree_delete c tname = Some c'"
      "(if ipc_splay_tree_pick c' \<noteq> None then map_option fst (ipc_splay_tree_join hitree c') else Some hitree) = Some t1"
      "ipc_splay_tree_join t1 small = Some (t2, k)" "ist_inv t2"
      "map_of (ist_entries t2) = (map_of (ist_entries tree))(tname := None)"
      "ipc_splay_tree_pick c' \<noteq> None \<longleftrightarrow> i \<in> name_index ` dom ((map_of (ist_entries tree))(tname := None))"
proof -
  let ?es = "ist_entries tree"
  have asc: "ascending ?es" using inv by (simp add: ist_inv_def)
  have w1: "unat (w + 1) = i + 1" using i by (simp add: unat_word_ariths)
  have hi: "n < MACH_PORT_MAKE (w + 1) 0 \<longleftrightarrow> name_index n < i + 1" for n
    using less_make_iff [of "w + 1" n] w1 i by simp
  have lo: "n < MACH_PORT_MAKE w 0 \<longleftrightarrow> name_index n < i" for n
    using less_make_iff [of w n] i by simp
  obtain hitree c0 where s1: "ipc_splay_tree_split tree (MACH_PORT_MAKE (w + 1) 0) tree = Some (hitree, c0)"
    "ist_inv hitree" "ist_inv c0" "ist_entries c0 = filter (\<lambda>x. name_index (fst x) < i + 1) ?es"
    "ist_entries hitree = filter (\<lambda>x. \<not> name_index (fst x) < i + 1) ?es"
    using split_spec [OF inv, of "MACH_PORT_MAKE (w + 1) 0" tree] by (auto simp: hi not_less [symmetric])
  have nat_simps: "n < Suc i \<and> n < i \<longleftrightarrow> n < i" "n < Suc i \<and> \<not> n < i \<longleftrightarrow> n = i"
    "n < i \<and> n < Suc i \<longleftrightarrow> n < i" "\<not> n < i \<and> n < Suc i \<longleftrightarrow> n = i" for n by auto
  obtain c small where s2: "ipc_splay_tree_split c0 (MACH_PORT_MAKE w 0) c0 = Some (c, small)"
    "ist_inv c" "ist_inv small" "ist_entries small = filter (\<lambda>x. name_index (fst x) < i) ?es"
    "ist_entries c = filter (\<lambda>x. name_index (fst x) = i) ?es"
    using split_spec [OF s1(3), of "MACH_PORT_MAKE w 0" c0] by (auto simp: lo s1(4) not_less [symmetric] nat_simps)
  have "ist_entries c \<noteq> []"
    using i_tree map_of_SomeD [of ?es] by (fastforce simp: s2(5) filter_empty_conv)
  then obtain tname te where pick: "ipc_splay_tree_pick c = Some (tname, te)" "(tname, te) \<in> set (ist_entries c)"
    using pick_spec(2) by fastforce
  then have mem: "(tname, te) \<in> set ?es" and tn: "name_index tname = i" by (auto simp: s2(5))
  have te: "map_of ?es tname = Some te"
    using split_list [OF mem] ascending_map_of asc by fastforce
  have mc: "map_of (ist_entries c) n = (if name_index n = i then map_of ?es n else None)" for n
    unfolding s2(5) by (rule map_of_filter_key)
  obtain c' where del: "ipc_splay_tree_delete c tname = Some c'" "ist_inv c'"
    "ist_entries c' = below tname (ist_entries c) @ above tname (ist_entries c)"
    using splay.delete_law [OF s2(2), of tname] te tn by (auto simp: mc)
  have mc': "map_of (ist_entries c') n = (if name_index n = i \<and> n \<noteq> tname then map_of ?es n else None)" for n
    using splay.delete_map [OF s2(2), of tname] te tn del(1) by (auto simp: mc)
  have sc': "name_index (fst x) = i" if "x \<in> set (ist_entries c')" for x
    using that by (auto simp: del(3) s2(5))
  have less1: "\<forall>x \<in> set (ist_entries c'). \<forall>y \<in> set (ist_entries hitree). fst x < fst y"
  proof (intro ballI)
    fix x y assume x: "x \<in> set (ist_entries c')" and y: "y \<in> set (ist_entries hitree)"
    have "fst x < MACH_PORT_MAKE (w + 1) 0" using sc' [OF x] by (simp only: hi)
    moreover have "\<not> fst y < MACH_PORT_MAKE (w + 1) 0" using y unfolding hi s1(5) by simp
    ultimately show "fst x < fst y" by simp
  qed
  obtain t1 where t1: "(if ipc_splay_tree_pick c' \<noteq> None then map_option fst (ipc_splay_tree_join hitree c') else Some hitree) = Some t1"
    "ist_inv t1" "ist_entries t1 = ist_entries c' @ ist_entries hitree"
  proof (cases "ist_entries c' = []")
    case True
    then show ?thesis using that [of hitree] pick_spec(1) [OF True del(2)] s1(2) by simp
  next
    case False
    obtain j k where "ipc_splay_tree_join hitree c' = Some (j, k)" "ist_inv j" "ist_entries j = ist_entries c' @ ist_entries hitree"
      using join_spec [OF s1(2) del(2) less1] by blast
    then show ?thesis using that [of j] pick_spec(2) [OF False] by auto
  qed
  have less2: "\<forall>x \<in> set (ist_entries small). \<forall>y \<in> set (ist_entries t1). fst x < fst y"
  proof (intro ballI)
    fix x y assume x: "x \<in> set (ist_entries small)" and y: "y \<in> set (ist_entries t1)"
    have "fst x < MACH_PORT_MAKE w 0" using x unfolding lo s2(4) by simp
    moreover have "\<not> fst y < MACH_PORT_MAKE w 0" using y sc' [of y] unfolding lo t1(3) s1(5) by auto
    ultimately show "fst x < fst y" by simp
  qed
  obtain t2 k where t2: "ipc_splay_tree_join t1 small = Some (t2, k)" "ist_inv t2"
    "ist_entries t2 = ist_entries small @ ist_entries t1"
    using join_spec [OF t1(2) s2(3) less2] by blast
  have tm: "map_of (ist_entries t2) = (map_of ?es)(tname := None)"
  proof
    fix n
    have "map_of (ist_entries hitree) n = (if \<not> name_index n < i + 1 then map_of ?es n else None)"
      "map_of (ist_entries small) n = (if name_index n < i then map_of ?es n else None)"
      unfolding s1(5) s2(4) by (rule map_of_filter_key)+
    then show "map_of (ist_entries t2) n = ((map_of ?es)(tname := None)) n"
      using tn mc' [of n] linorder_less_linear [of "name_index n" i]
      by (cases "n = tname"; cases "map_of ?es n") (auto simp: t2(3) t1(3) map_add_def)
  qed
  have some: "ipc_splay_tree_pick c' \<noteq> None \<longleftrightarrow> i \<in> name_index ` dom ((map_of ?es)(tname := None))"
  proof -
    have "ipc_splay_tree_pick c' \<noteq> None \<longleftrightarrow> ist_entries c' \<noteq> []"
      using pick_spec [of c'] del(2) by auto
    also have "\<dots> \<longleftrightarrow> (\<exists>n. map_of (ist_entries c') n \<noteq> None)"
      by (cases "ist_entries c'") (auto simp: map_of_eq_None_iff)
    also have "\<dots> \<longleftrightarrow> i \<in> name_index ` dom ((map_of ?es)(tname := None))"
      by (auto simp: mc' image_iff domIff)
    finally show ?thesis .
  qed
  show ?thesis
    using that [OF s1(1) s2(1) pick(1) te tn del(1) t1(1) t2(1,2) tm some] .
qed

lemma dealloc_collision_spec:
  assumes sp: "ks_spaces s space = Some sp" and ok: "space_ok sp its_size fl claimed"
    and at: "entry_at sp fl name (Table_entry i)" and coll: "has (ie_bits (is_table sp ! i)) IE_BITS_COLLISION"
    and unclaimed: "\<And>n. name_index n = i \<Longrightarrow> Tree_entry n \<notin> claimed"
    and hash: "collision_hashed s space sp i"
  shows "\<exists>sp' h. ipc_entry_dealloc_collision space (MACH_PORT_INDEX name) s =
             Some (put_space space sp' s\<lparr>ks_hash := h\<rparr>) \<and>
           space_ok sp' its_size fl (claimed - {Table_entry i}) \<and> is_names sp' = (is_names sp)(name := None)"
proof -
  let ?w = "MACH_PORT_INDEX name"
  have i: "0 < i" "unat ?w = i" "i < is_table_size sp" using at by (auto simp: entry_at_def)
  have l: "length (is_table sp) = is_table_size sp" and tree: "tree_ok sp its_size claimed"
    and inv: "ist_inv (is_tree sp)" and size: "is_table_size sp < 2 ^ 24" and fast: "\<not> is_fast sp"
    and i_tree: "i \<in> tree_indices sp"
    using ok coll i by (auto simp: space_ok_def table_ok_def tree_ok_def)
  obtain hitree c0 c small tname te c' t1 t2 k where
      s1: "ipc_splay_tree_split (is_tree sp) (MACH_PORT_MAKE (?w + 1) 0) (is_tree sp) = Some (hitree, c0)"
      and s2: "ipc_splay_tree_split c0 (MACH_PORT_MAKE ?w 0) c0 = Some (c, small)"
      and pick: "ipc_splay_tree_pick c = Some (tname, te)" and te: "tree_map sp tname = Some te" and tn: "name_index tname = i"
      and del: "ipc_splay_tree_delete c tname = Some c'"
      and t1: "(if ipc_splay_tree_pick c' \<noteq> None then map_option fst (ipc_splay_tree_join hitree c') else Some hitree) = Some t1"
      and t2: "ipc_splay_tree_join t1 small = Some (t2, k)" "ist_inv t2"
      and tm: "map_of (ist_entries t2) = (tree_map sp)(tname := None)"
      and some: "ipc_splay_tree_pick c' \<noteq> None \<longleftrightarrow> i \<in> name_index ` dom ((tree_map sp)(tname := None))"
    by (rule collision_trees [OF inv i(2,1) _ i_tree]) (use i(3) size in simp)
  have tc: "Tree_entry tname \<notin> claimed" by (rule unclaimed [OF tn])
  let ?e1 = "(is_table sp ! i)\<lparr>ie_object := ie_object te, ie_bits := ie_bits te OR MACH_PORT_GEN tname, ie_request := ie_request te\<rparr>"
  let ?T = "(is_table sp)[i := ?e1]" let ?sp1 = "sp\<lparr>is_table := ?T\<rparr>"
  have upd: "upd_entry space (Table_entry i) (\<lambda>e. e\<lparr>ie_object := ie_object te,
      ie_bits := ie_bits te OR MACH_PORT_GEN tname, ie_request := ie_request te\<rparr>) s = Some (put_space space ?sp1 s)"
    using i l by (simp add: upd_entry_def sp)
  obtain x T h where hash: "ipc_entry_hash_moved space (ie_object te) tname te ?w (put_space space ?sp1 s) =
      Some (put_space space (sp\<lparr>is_tree_hash := x, is_table := T\<rparr>) s\<lparr>ks_hash := h\<rparr>)"
    "same_entries ?T T"
    by (rule collision_rehash [OF sp te tn i(1,2,3) l fast hash])
  have Ti: "T ! i = (T ! i)\<lparr>ie_object := ie_object te, ie_bits := ie_bits te OR MACH_PORT_GEN tname, ie_request := ie_request te\<rparr>"
    and lT: "length T = is_table_size sp"
    using hash(2) i l by (simp_all add: same_entries_def)
  let ?sp3 = "sp\<lparr>is_tree_hash := x, is_table := T, is_tree_total := is_tree_total sp - 1\<rparr>"
  let ?F = "(if ipc_splay_tree_pick c' \<noteq> None then ?sp3\<lparr>is_table := T[i := (T ! i)\<lparr>ie_bits := ie_bits (T ! i) OR IE_BITS_COLLISION\<rparr>]\<rparr>
    else ?sp3)\<lparr>is_tree := t2\<rparr>"
  have tot: "0 < is_tree_total sp" using tree_nonempty [OF tree te] .
  have tidx: "MACH_PORT_INDEX tname = ?w" using tn i(2) by (simp add: word_unat_eq_iff)
  have kt: "kassert (MACH_PORT_INDEX tname = ?w) = Some ()" "kassert (0 < is_tree_total sp) = Some ()"
    using tidx tot by simp_all
  have ksp: "ks_spaces ((put_space space x s)\<lparr>ks_hash := h\<rparr>) space = Some x" for x h by (simp add: put_space_def)
  have pps: "put_space space y ((put_space space x s)\<lparr>ks_hash := h\<rparr>) = (put_space space y s)\<lparr>ks_hash := h\<rparr>" for x y h
    by (simp add: put_space_def)
  have run: "ipc_entry_dealloc_collision space ?w s = Some (put_space space ?F s\<lparr>ks_hash := h\<rparr>)"
  proof -
    let ?sp2 = "sp\<lparr>is_tree_hash := x, is_table := T\<rparr>"
    have fields: "is_tree_total ?sp2 = is_tree_total sp" by simp
    have "ipc_entry_dealloc_collision space ?w s =
      do { (sp, tree) \<leftarrow>
                     (if ipc_splay_tree_pick c' \<noteq> None then
                        do { sp \<leftarrow> is_entry_upd (Table_entry i) (\<lambda>e. e\<lparr>ie_bits := ie_bits e OR IE_BITS_COLLISION\<rparr>) ?sp3;
                             (tree, _) \<leftarrow> ipc_splay_tree_join hitree c';
                             Some (sp, tree) }
                      else Some (?sp3, hitree));
           (tree, _) \<leftarrow> ipc_splay_tree_join tree small;
           Some (put_space space (sp\<lparr>is_tree := tree\<rparr>) ((put_space space ?sp2 s)\<lparr>ks_hash := h\<rparr>)) }"
      unfolding ipc_entry_dealloc_collision_def sp s1 s2 pick upd Let_def hash(1) del kt ksp i(2)
        Option.bind.simps prod.case fields
      by (rule refl)
    also have "\<dots> = Some (put_space space ?F s\<lparr>ks_hash := h\<rparr>)"
    proof (cases "ipc_splay_tree_pick c'")
      case None
      then show ?thesis using t1 t2(1) by (simp add: pps)
    next
      case (Some y)
      then obtain j where "ipc_splay_tree_join hitree c' = Some (t1, j)" using t1 by auto
      with Some show ?thesis using t2(1) lT i(3) by (simp add: pps)
    qed
    finally show ?thesis .
  qed
  obtain F where F: "ipc_entry_dealloc_collision space ?w s = Some (put_space space F s\<lparr>ks_hash := h\<rparr>)" "is_tree F = t2"
    "is_table F = (if i \<in> tree_indices F then T[i := (T ! i)\<lparr>ie_bits := ie_bits (T ! i) OR IE_BITS_COLLISION\<rparr>] else T)"
    "is_tree_total F = is_tree_total sp - 1" "is_active F = is_active sp" "is_table_size F = is_table_size sp"
    "is_tree_small F = is_tree_small sp" "is_fast F = is_fast sp"
    by (rule that [OF run]; cases "ipc_splay_tree_pick c' = None") (use some in \<open>simp_all add: tm\<close>)
  have lF: "length (is_table F) = length (is_table sp)" by (simp add: F(3) lT l)
  have newF: "ie_object (is_table F ! i) = ie_object te" "ie_request (is_table F ! i) = ie_request te"
    "ie_bits (is_table F ! i) = (if i \<in> tree_indices F then (ie_bits te OR MACH_PORT_GEN tname) OR IE_BITS_COLLISION
       else ie_bits te OR MACH_PORT_GEN tname)"
    using i(3) lT by (simp_all add: F(3)) (simp_all add: arg_cong [OF Ti, of ie_object] arg_cong [OF Ti, of ie_request]
      arg_cong [OF Ti, of ie_bits])
  have oldF: "ie_object (is_table F ! j) = ie_object (is_table sp ! j) \<and> ie_bits (is_table F ! j) = ie_bits (is_table sp ! j) \<and>
      ie_request (is_table F ! j) = ie_request (is_table sp ! j)" if "j < length (is_table sp)" "j \<noteq> i" for j
    using hash(2) that by (simp add: F(3) same_entries_def)
  have tmF: "tree_map F = (tree_map sp)(tname := None)" by (simp only: F(2) tm)
  have invF: "ist_inv (is_tree F)" by (simp only: F(2) t2(2))
  from collision_move_ok [OF ok at te tn tc invF tmF lF newF oldF F(4,5,6,7,8)] F(1) show ?thesis by blast
qed

lemma dealloc_spec:
  assumes sp: "ks_spaces s space = Some sp" and ok: "space_ok sp its_size fl claimed"
    and its: "array_get (ks_table_entries s) (is_table_next sp) = Some its_size"
    and at: "entry_at sp fl name entry" and e: "is_entry sp entry = Some e"
    and null: "ie_object e = IO_NULL" "ie_request e = 0"
    and coll: "\<And>i. entry = Table_entry i \<Longrightarrow> has (ie_bits e) IE_BITS_COLLISION \<Longrightarrow>
      collision_hashed s space sp i \<and> (\<forall>n. name_index n = i \<longrightarrow> Tree_entry n \<notin> claimed)"
  shows "\<exists>sp' fl' h. ipc_entry_dealloc space name entry s = Some (put_space space sp' s\<lparr>ks_hash := h\<rparr>) \<and>
           space_ok sp' its_size fl' (claimed - {entry}) \<and> is_names sp' = (is_names sp)(name := None)"
proof -
  have act: "is_active sp" and fast: "is_fast sp \<Longrightarrow> ist_entries (is_tree sp) = []"
    using ok by (simp_all add: space_ok_def)
  have same: "put_space space sp' s\<lparr>ks_hash := ks_hash s\<rparr> = put_space space sp' s" for sp'
    by (rule kernel.equality) (simp_all add: put_space_def)
  show ?thesis
  proof (cases entry)
    case (Table_entry i)
    have i: "i = name_index name" "i < is_table_size sp" "e = is_table sp ! i"
      "IE_BITS_GEN (ie_bits e) = MACH_PORT_GEN name"
      using at e by (auto simp: Table_entry entry_at_def array_get_eq_Some)
    have tab: "in_table sp name entry" using i Table_entry by (simp add: in_table_def)
    show ?thesis
    proof (cases "has (ie_bits e) IE_BITS_COLLISION")
      case True
      have nf: "\<not> is_fast sp"
      proof
        assume "is_fast sp"
        moreover have "i \<in> tree_indices sp" using ok True i by (simp add: space_ok_def table_ok_def)
        ultimately show False using fast by auto
      qed
      have "ipc_entry_dealloc space name entry s = ipc_entry_dealloc_collision space (MACH_PORT_INDEX name) s"
        using sp act e null nf tab i(4) True by (simp add: ipc_entry_dealloc_def Let_def has_def)
      with dealloc_collision_spec [OF sp ok at [unfolded Table_entry]] coll [OF Table_entry True] True i(3) Table_entry
      show ?thesis by auto
    next
      case False
      obtain sp' where "ipc_entry_free sp (MACH_PORT_INDEX name) = Some sp'"
        "space_ok sp' its_size (i # fl) (claimed - {Table_entry i})" "is_names sp' = (is_names sp)(name := None)"
        using free_spec [OF ok at [unfolded Table_entry]] null(1) False i(3) by auto
      moreover from this have "ipc_entry_dealloc space name entry s = Some (put_space space sp' s)"
        using sp act e null tab i(4) False by (simp add: ipc_entry_dealloc_def Let_def has_def)
      ultimately show ?thesis using same [of sp'] Table_entry by metis
    qed
  next
    case (Tree_entry n)
    have n: "n = name" "tree_map sp name = Some e" using at e by (auto simp: Tree_entry entry_at_def)
    have nf: "\<not> is_fast sp" using fast n(2) by auto
    obtain sp' where "ipc_entry_dealloc_tree space name s = Some (put_space space sp' s)"
      "space_ok sp' its_size fl (claimed - {entry})" "is_names sp' = (is_names sp)(name := None)"
      using dealloc_tree_spec [OF sp ok its n(2)] Tree_entry n(1) by auto
    moreover have "ipc_entry_dealloc space name entry s = ipc_entry_dealloc_tree space name s"
      using sp act e null nf Tree_entry n(1) by (simp add: ipc_entry_dealloc_def Let_def in_table_def)
    ultimately show ?thesis using same [of sp'] by metis
  qed
qed

text \<open>The witness: the dead name of element 2, and the dead name with the index 0x1000 that is in
  the tree.\<close>

section \<open>Properties\<close>

text \<open>A space with a table of four elements: element 1 is in use and has the collision bit,
  element 2 is a dead name, element 3 is free. Two names are in the tree.\<close>

definition entry_sample :: ipc_space where
  "entry_sample = \<lparr>is_references = 1, is_active = True, is_growing = False,
     is_table = [\<lparr>ie_object = 0, ie_bits = 0, ie_request = 3, ie_index = 0\<rparr>,
                 \<lparr>ie_object = 0x1000, ie_bits = 0x04820001, ie_request = 0, ie_index = 0\<rparr>,
                 \<lparr>ie_object = 0, ie_bits = 0x0c100001, ie_request = 0, ie_index = 0\<rparr>,
                 \<lparr>ie_object = 0, ie_bits = 0xff000000, ie_request = 0, ie_index = 0\<rparr>],
     is_table_size = 4, is_table_next = 1,
     is_tree = \<lparr>ist_name = 0x108,
       ist_root = Node Leaf (0x108, \<lparr>ie_object = 0x2000, ie_bits = 0x20001, ie_request = 0, ie_index = 0\<rparr>)
         (Node Leaf (0x100007, \<lparr>ie_object = 0, ie_bits = 0x100001, ie_request = 0, ie_index = 0\<rparr>) Leaf),
       ist_ltree = [], ist_rtree = []\<rparr>,
     is_tree_total = 2, is_tree_small = 0, is_tree_hash = 0, is_fast = False\<rparr>"

lemma entry_sample_tree:
  "ist_entries (is_tree entry_sample) =
    [(0x108, \<lparr>ie_object = 0x2000, ie_bits = 0x20001, ie_request = 0, ie_index = 0\<rparr>),
     (0x100007, \<lparr>ie_object = 0, ie_bits = 0x100001, ie_request = 0, ie_index = 0\<rparr>)]"
  by (simp add: entry_sample_def ist_entries_def)

lemma entry_sample_map:
  "tree_map entry_sample n = (if n = 0x108 then Some \<lparr>ie_object = 0x2000, ie_bits = 0x20001, ie_request = 0, ie_index = 0\<rparr>
     else if n = 0x100007 then Some \<lparr>ie_object = 0, ie_bits = 0x100001, ie_request = 0, ie_index = 0\<rparr> else None)"
  by (simp add: entry_sample_tree)

lemma entry_sample_dom: "dom (tree_map entry_sample) = {0x108, 0x100007}"
  by (simp add: entry_sample_tree dom_map_of_conv_image_fst)

lemma entry_sample_indices: "tree_indices entry_sample = {1, 0x1000}"
  unfolding entry_sample_dom by (simp add: MACH_PORT_INDEX_def)

lemma entry_sample_ok: "space_ok entry_sample 8 [3] {}"
proof -
  have "entry_list.fl_full (is_table entry_sample) [3] (claimed_table {})"
    unfolding entry_list.fl_full_def entry_list.fl_ok_def
    by (auto simp: entry_sample_def IE_BITS_TYPE_def less_4 less_Suc_eq_0_disj)
  then have "table_ok entry_sample [3] {}"
    unfolding table_ok_def entry_sample_indices
    by (auto simp: entry_sample_def IE_BITS_TYPE_def has_def less_4)
  moreover have "tree_ok entry_sample 8 {}"
  proof -
    have "ist_inv (is_tree entry_sample)"
      unfolding ist_inv_def entry_sample_tree by (simp add: entry_sample_def splayed_def)
    then show ?thesis
      unfolding tree_ok_def entry_sample_indices entry_sample_dom
      by (auto simp: entry_sample_map MACH_PORT_VALID_def IE_BITS_TYPE_def split: if_splits)
        (simp_all add: entry_sample_def IE_BITS_GEN_def MACH_PORT_GEN_def MACH_PORT_INDEX_def has_def)
  qed
  moreover have "is_active entry_sample" "\<not> is_fast entry_sample" by (simp_all add: entry_sample_def)
  ultimately show ?thesis by (simp add: space_ok_def)
qed

text \<open>A kernel that has this space at the address 0x3000 and memory left.\<close>

definition entry_kernel :: kernel where
  "entry_kernel = \<lparr>ks_spaces = [0x3000 \<mapsto> entry_sample], ks_ports = Map.empty, ks_psets = Map.empty,
     ks_hash = (\<lambda>_. []), ks_hash_mask = 0xff, ks_timestamp = 0, ks_table_entries = [4, 8, 16],
     ks_table_dnrequests = [2, 4], ks_free_memory = [0x5000], ks_events = []\<rparr>"

lemma entry_kernel_space: "ks_spaces entry_kernel 0x3000 = Some entry_sample"
  "array_get (ks_table_entries entry_kernel) (is_table_next entry_sample) = Some 8"
  by (simp_all add: entry_kernel_def entry_sample_def)

text \<open>Lookup. In a well-formed space \<open>ipc_entry_lookup\<close> never panics and decides whether a
  name stands for a right: it returns a pointer to the entry that holds the right of the name, in
  the table or in the splay tree, or null exactly when there is none. The map from names to rights
  stays the same (the tree is splayed).\<close>

theorem entry_lookup_correct:
  assumes "space_ok sp its_size fl claimed" and "is_fast sp \<longrightarrow> name_index name < is_table_size sp"
  shows "\<exists>r sp'. ipc_entry_lookup sp name = Some (r, sp') \<and> space_ok sp' its_size fl claimed \<and>
           is_names sp' = is_names sp \<and> is_table sp' = is_table sp \<and>
           (case r of None \<Rightarrow> is_names sp name = None
            | Some entry \<Rightarrow> \<exists>e. is_entry sp' entry = Some e \<and> is_names sp name = ie_right e \<and>
                is_names sp name \<noteq> None)"
  by (rule entry_lookup_spec [OF assms])

lemma entry_lookup_correct_witness:
  "\<exists>r sp'. ipc_entry_lookup entry_sample 0x108 = Some (r, sp') \<and> r \<noteq> None"
proof -
  have "is_names entry_sample 0x108 = Some (0x2000, 0x20001, 0)"
    by (simp add: is_names_def Let_def entry_sample_map)
      (simp add: entry_sample_def ie_right_def MACH_PORT_INDEX_def MACH_PORT_GEN_def IE_BITS_GEN_def IE_BITS_TYPE_def)
  moreover have "\<not> is_fast entry_sample" by (simp add: entry_sample_def)
  ultimately show ?thesis
    using entry_lookup_correct [OF entry_sample_ok, of "0x108"] by (auto split: option.splits)
qed

text \<open>Allocation. \<open>ipc_entry_get\<close> takes the first element of the free list and returns a valid
  name, with the next generation of the element, that stands for no right; no name changes its
  meaning. With an empty free list it fails with KERN_NO_SPACE and leaves the space alone.\<close>

theorem entry_get_fresh:
  assumes "space_ok sp its_size fl claimed"
  shows "case fl of
      [] \<Rightarrow> ipc_entry_get sp = Some (Inl KERN_NO_SPACE, sp)
    | i # fl' \<Rightarrow> \<exists>name sp'. ipc_entry_get sp = Some (Inr (name, Table_entry i), sp') \<and>
        MACH_PORT_VALID name \<and> is_names sp name = None \<and> is_names sp' = is_names sp \<and>
        MACH_PORT_GEN name = IE_BITS_NEW_GEN (ie_bits (is_table sp ! i)) \<and>
        entry_at sp' fl' name (Table_entry i) \<and> space_ok sp' its_size fl' (insert (Table_entry i) claimed)"
proof (cases fl)
  case Nil
  with get_no_space assms show ?thesis by simp
next
  case (Cons i fl')
  note ok = assms [unfolded Cons]
  let ?name = "MACH_PORT_MAKE (of_nat i) (IE_BITS_NEW_GEN (ie_bits (is_table sp ! i)))"
  obtain sp' where sp': "ipc_entry_get sp = Some (Inr (?name, Table_entry i), sp')"
    "space_ok sp' its_size fl' (insert (Table_entry i) claimed)" "is_names sp' = is_names sp"
    "is_table sp' ! i = (is_table sp ! i)\<lparr>ie_bits := IE_BITS_NEW_GEN (ie_bits (is_table sp ! i)), ie_request := 0\<rparr>"
    "is_table_size sp' = is_table_size sp"
    using get_spec(1) [OF ok] by blast
  have "entry_at sp' fl' ?name (Table_entry i)"
    using free_entry(1,2) [OF ok, of i] sp' ok get_spec(3,4) [OF ok]
    by (auto simp: entry_at_def space_ok_def table_ok_def entry_list.fl_full_def)
  with sp' get_spec(2,4,5) [OF ok] show ?thesis by (auto simp: Cons)
qed

lemma entry_get_fresh_witness:
  "\<exists>name sp'. ipc_entry_get entry_sample = Some (Inr (name, Table_entry 3), sp') \<and> MACH_PORT_VALID name"
  using entry_get_fresh [OF entry_sample_ok] by auto

text \<open>C27: reuse. The element that is freed last is allocated next, and it comes back under another
  name: the same index, the generation one step further. So a task that still holds the old name
  does not reach the new right.\<close>

theorem entry_reuse:
  assumes "space_ok sp its_size (i # fl) claimed"
  shows "\<exists>name sp1 sp2 name' sp3. ipc_entry_get sp = Some (Inr (name, Table_entry i), sp1) \<and>
           ipc_entry_free sp1 (MACH_PORT_INDEX name) = Some sp2 \<and>
           is_names sp2 = is_names sp \<and> space_ok sp2 its_size (i # fl) (claimed - {Table_entry i}) \<and>
           ipc_entry_get sp2 = Some (Inr (name', Table_entry i), sp3) \<and> is_names sp3 = is_names sp \<and>
           MACH_PORT_INDEX name' = MACH_PORT_INDEX name \<and>
           MACH_PORT_GEN name' = MACH_PORT_GEN name + IE_BITS_GEN_ONE \<and> name' \<noteq> name"
proof -
  let ?gen = "IE_BITS_NEW_GEN (ie_bits (is_table sp ! i))" let ?name = "MACH_PORT_MAKE (of_nat i) ?gen"
  obtain sp1 where sp1: "ipc_entry_get sp = Some (Inr (?name, Table_entry i), sp1)"
    "space_ok sp1 its_size fl (insert (Table_entry i) claimed)" "is_names sp1 = is_names sp"
    "is_table sp1 ! i = (is_table sp ! i)\<lparr>ie_bits := ?gen, ie_request := 0\<rparr>"
    "is_table_size sp1 = is_table_size sp" "is_tree sp1 = is_tree sp"
    using get_spec(1) [OF assms] by blast
  have n: "name_index ?name = i" "MACH_PORT_GEN ?name = ?gen" "is_names sp ?name = None"
    using get_spec(3,4,5) [OF assms] by simp_all
  have at: "entry_at sp1 fl ?name (Table_entry i)"
    using free_entry(1,2) [OF assms, of i] sp1 n assms
    by (auto simp: entry_at_def space_ok_def table_ok_def entry_list.fl_full_def entry_list.fl_ok_def)
  have null: "ie_object (is_table sp1 ! i) = IO_NULL" "\<not> has (ie_bits (is_table sp1 ! i)) IE_BITS_COLLISION"
    using free_entry(3) [OF assms, of i] has_collision(3) [of ?gen] sp1(4) by simp_all
  obtain sp2 where sp2: "ipc_entry_free sp1 (MACH_PORT_INDEX ?name) = Some sp2"
    "space_ok sp2 its_size (i # fl) (insert (Table_entry i) claimed - {Table_entry i})"
    "is_names sp2 = (is_names sp1)(?name := None)" "IE_BITS_GEN (ie_bits (is_table sp2 ! i)) = MACH_PORT_GEN ?name"
    using free_spec [OF sp1(2) at null] by blast
  let ?gen' = "IE_BITS_NEW_GEN (ie_bits (is_table sp2 ! i))" let ?name' = "MACH_PORT_MAKE (of_nat i) ?gen'"
  obtain sp3 where sp3: "ipc_entry_get sp2 = Some (Inr (?name', Table_entry i), sp3)" "is_names sp3 = is_names sp2"
    using get_spec(1) [OF sp2(2)] by blast
  have n': "name_index ?name' = i" "MACH_PORT_GEN ?name' = ?gen'" using get_spec(3,4) [OF sp2(2)] by simp_all
  have gen': "?gen' = ?gen + IE_BITS_GEN_ONE"
  proof -
    have "?gen' = IE_BITS_NEW_GEN (IE_BITS_GEN (ie_bits (is_table sp2 ! i)))" by (rule NEW_GEN_of_gen [symmetric])
    also have "\<dots> = IE_BITS_NEW_GEN ?gen" by (simp only: sp2(4) n(2))
    also have "\<dots> = ?gen + IE_BITS_GEN_ONE" by (rule NEW_GEN_plus) simp
    finally show ?thesis .
  qed
  have names: "is_names sp2 = is_names sp" using sp2(3) sp1(3) n(3) by auto
  have "MACH_PORT_INDEX ?name' = MACH_PORT_INDEX ?name" using n(1) n'(1) by (simp add: word_unat_eq_iff)
  moreover have "?name' \<noteq> ?name" using n(2) n'(2) gen' by auto
  moreover have "insert (Table_entry i) claimed - {Table_entry i} = claimed - {Table_entry i}" by auto
  ultimately show ?thesis using sp1(1) sp2(1,2) sp3 names n(2) n'(2) gen' by auto
qed

lemma entry_reuse_witness:
  "\<exists>name sp1 sp2 name' sp3. ipc_entry_get entry_sample = Some (Inr (name, Table_entry 3), sp1) \<and>
     ipc_entry_free sp1 (MACH_PORT_INDEX name) = Some sp2 \<and>
     ipc_entry_get sp2 = Some (Inr (name', Table_entry 3), sp3) \<and> name' \<noteq> name"
  using entry_reuse [OF entry_sample_ok] by blast

text \<open>C3: allocation of a given name, for a space whose table does not have to grow and with memory
  for one tree entry: \<open>ipc_entry_alloc_name\<close> returns the entry of the name, the old one if the
  name is in use (the caller then refuses the name) and otherwise a new, claimed one: the table
  element, cut out of the free list wherever it stands in it, or a new entry of the splay tree
  when the element is in use for another name or the index is beyond the table. The search through
  the free list ends, no assertion fails and no name changes its meaning.\<close>

theorem entry_alloc_name_correct:
  assumes "ks_spaces s space = Some sp" and "space_ok sp its_size fl claimed" and "\<not> is_fast sp"
    and "array_get (ks_table_entries s) (is_table_next sp) = Some its_size"
    and "no_growth sp its_size name" and "MACH_PORT_VALID name"
    and "Table_entry (name_index name) \<notin> claimed" and "Tree_entry name \<notin> claimed"
    and "name_index name = 0 \<Longrightarrow> IE_BITS_GEN (ie_bits (is_table sp ! 0)) = 0"
    and "fst (kalloc s) \<noteq> 0"
  shows "\<exists>entry sp' s' fl'. ipc_entry_alloc_name space name s = Some (Inr entry, put_space space sp' s') \<and>
           (s' = s \<or> s' = snd (kalloc s)) \<and> is_names sp' = is_names sp \<and> entry_at sp' fl' name entry \<and>
           space_ok sp' its_size fl' (if is_names sp name = None then insert entry claimed else claimed)"
  by (rule alloc_name_spec [OF assms])

lemma entry_alloc_name_correct_witness:
  "\<exists>entry s'. ipc_entry_alloc_name 0x3000 0x10c entry_kernel = Some (Inr entry, s')"
proof -
  have i: "name_index 0x10c = 1" by (simp add: MACH_PORT_INDEX_def)
  have n: "no_growth entry_sample 8 0x10c" unfolding no_growth_def i by (simp add: entry_sample_def)
  have f: "\<not> is_fast entry_sample" by (simp add: entry_sample_def)
  have v: "MACH_PORT_VALID 0x10c" by (simp add: MACH_PORT_VALID_def)
  have m: "fst (kalloc entry_kernel) \<noteq> 0" by (simp add: kalloc_def entry_kernel_def)
  show ?thesis
    using entry_alloc_name_correct [OF entry_kernel_space(1) entry_sample_ok f entry_kernel_space(2) n v _ _ _ m] i by auto
qed

text \<open>C4: deallocation is the removal of one name. For a pointer to the entry of a name whose right
  is gone (no object, no request), \<open>ipc_entry_dealloc\<close> trips no assertion, keeps the space
  well-formed, and removes the name from the map and nothing else. This covers its three ways: the
  element of the table goes to the free list; an element with a collision takes over a name of the
  splay tree with the same index, which moves without losing its right; an entry of the splay tree
  leaves it, and the collision bit goes with the last one.\<close>

theorem entry_dealloc_refines:
  assumes "ks_spaces s space = Some sp" and "space_ok sp its_size fl claimed"
    and "array_get (ks_table_entries s) (is_table_next sp) = Some its_size"
    and "entry_at sp fl name entry" and "is_entry sp entry = Some e"
    and "ie_object e = IO_NULL" "ie_request e = 0"
    and "\<And>i. entry = Table_entry i \<Longrightarrow> has (ie_bits e) IE_BITS_COLLISION \<Longrightarrow>
      collision_hashed s space sp i \<and> (\<forall>n. name_index n = i \<longrightarrow> Tree_entry n \<notin> claimed)"
  shows "\<exists>sp' fl' h. ipc_entry_dealloc space name entry s = Some (put_space space sp' s\<lparr>ks_hash := h\<rparr>) \<and>
           space_ok sp' its_size fl' (claimed - {entry}) \<and> is_names sp' = (is_names sp)(name := None)"
  by (rule dealloc_spec [OF assms])

lemma entry_dealloc_refines_witness:
  "ipc_entry_dealloc 0x3000 0x20c (Table_entry 2) entry_kernel \<noteq> None \<and>
   ipc_entry_dealloc 0x3000 0x100007 (Tree_entry 0x100007) entry_kernel \<noteq> None"
proof -
  have "entry_at entry_sample [3] 0x20c (Table_entry 2)"
    by (simp add: entry_at_def entry_sample_def MACH_PORT_INDEX_def MACH_PORT_GEN_def IE_BITS_GEN_def)
  moreover have "is_entry entry_sample (Table_entry 2) = Some \<lparr>ie_object = 0, ie_bits = 0x0c100001, ie_request = 0, ie_index = 0\<rparr>"
    by (simp add: entry_sample_def array_get_eq_Some)
  moreover have "entry_at entry_sample [3] 0x100007 (Tree_entry 0x100007)"
    by (simp add: entry_at_def entry_sample_map)
  moreover have "is_entry entry_sample (Tree_entry 0x100007) = Some \<lparr>ie_object = 0, ie_bits = 0x100001, ie_request = 0, ie_index = 0\<rparr>"
    by (simp add: entry_sample_map)
  ultimately show ?thesis
    using entry_dealloc_refines [OF entry_kernel_space(1) entry_sample_ok entry_kernel_space(2), of "0x20c" "Table_entry 2"]
      entry_dealloc_refines [OF entry_kernel_space(1) entry_sample_ok entry_kernel_space(2), of "0x100007" "Tree_entry 0x100007"]
    by (auto simp: has_def)
qed

end
