(* ===== verification/Ipc_Space_Spec.thy ===== *)
theory Ipc_Space_Spec
  imports Ipc_Space Ipc_Entry_Spec
begin

text \<open>
  The life of a space (\<^verbatim>\<open>osfmk/ipc/ipc_space.c\<close>): what \<open>ipc_space_create\<close> establishes, the runs
  of the entry routines that start there, which implement a finite map from names to rights, and
  two ways in which a space meets a panic: the name with the index 0 in a new space, and a
  space that is cleaned while the splay tree holds rights.
\<close>

section \<open>A new space\<close>

definition space_new :: "nat \<Rightarrow> nat \<Rightarrow> bool \<Rightarrow> ipc_space" where
  "space_new sz nxt fast =
     \<lparr>is_references = 2, is_active = True, is_growing = False, is_table = ipc_space_table sz,
      is_table_size = sz, is_table_next = nxt, is_tree = ipc_splay_tree_init ist_memory,
      is_tree_total = 0, is_tree_small = 0, is_tree_hash = 0, is_fast = fast\<rparr>"

lemma chain_ascending:
  "chain nxt h [i..<n] \<longleftrightarrow> (if i < n then h \<noteq> 0 \<and> unat h = i \<and> chain nxt (nxt i) [Suc i..<n] else h = 0)"
  by (simp add: upt_rec)

lemma chain_table:
  assumes "n < 2 ^ 24" and "0 < i" "i \<le> n"
    and "\<And>j. i \<le> j \<Longrightarrow> j < n \<Longrightarrow> nxt j = (if j = n - 1 then 0 else of_nat (j + 1))"
  shows "chain nxt (if i = n then 0 else of_nat i) [i..<n]"
  using assms(2-)
proof (induction "n - i" arbitrary: i)
  case (Suc k)
  then have i: "i < n" by simp
  have "unat (of_nat i :: u32) = i" using i assms(1) by (simp add: unat_of_nat)
  moreover have "nxt i = (if Suc i = n then 0 else of_nat (Suc i))" using Suc.prems(3) [of i] i by auto
  moreover have "chain nxt (if Suc i = n then 0 else of_nat (Suc i)) [Suc i..<n]"
    using Suc by (intro Suc.hyps(1)) auto
  ultimately show ?case using i Suc.prems(1) by (subst chain_ascending) (auto simp: unat_eq_0 [symmetric])
qed auto

lemma table_nth: "i < n \<Longrightarrow> ipc_space_table n ! i =
    \<lparr>ie_object = IO_NULL, ie_bits = IE_BITS_GEN_MASK, ie_request = (if i = n - 1 then 0 else of_nat (i + 1)), ie_index = 0\<rparr>"
  by (simp add: ipc_space_table_def ie_zero_def)

lemma table_length: "length (ipc_space_table n) = n"
  by (simp add: ipc_space_table_def)

lemma new_space_ok:
  assumes "0 < sz" "sz < 2 ^ 24"
  shows "space_ok (space_new sz nxt fast) its [1..<sz] {}" and "is_names (space_new sz nxt fast) = Map.empty"
proof -
  let ?sp = "space_new sz nxt fast"
  have fields: "is_table ?sp = ipc_space_table sz" "is_table_size ?sp = sz" "ist_entries (is_tree ?sp) = []"
    "ist_inv (is_tree ?sp)" "is_active ?sp" "is_tree_total ?sp = 0" "is_tree_small ?sp = 0"
    by (simp_all add: space_new_def)
  have type: "IE_BITS_TYPE IE_BITS_GEN_MASK = 0" and coll: "\<not> has IE_BITS_GEN_MASK IE_BITS_COLLISION"
    by (simp_all add: IE_BITS_TYPE_def has_def)
  have "chain (\<lambda>i. ie_next (ipc_space_table sz ! i)) (if 1 = sz then 0 else of_nat 1) [1..<sz]"
    by (rule chain_table) (use assms in \<open>auto simp: table_nth\<close>)
  moreover have "ie_next (ipc_space_table sz ! 0) = (if 1 = sz then 0 else of_nat 1)"
    using assms(1) by (auto simp: table_nth)
  moreover have "ipc_space_table sz \<noteq> []" using assms(1) table_length [of sz] by auto
  ultimately have "entry_list.fl_full (ipc_space_table sz) [1..<sz] (claimed_table {})"
    by (auto simp: entry_list.fl_full_def entry_list.fl_ok_def table_length table_nth type)
  then have "table_ok ?sp [1..<sz] {}"
    using assms by (auto simp: table_ok_def fields table_length table_nth type coll)
  moreover have "tree_ok ?sp its {}" by (simp add: tree_ok_def fields)
  ultimately show "space_ok ?sp its [1..<sz] {}" by (simp add: space_ok_def fields)
  show "is_names ?sp = Map.empty"
    by (auto simp: fun_eq_iff is_names_def fields Let_def table_nth ie_right_def type)
qed

lemma create_spec:
  assumes "ks_free_memory s = space # table # rest" and "space \<noteq> 0" "table \<noteq> 0"
    and "array_get (ks_table_entries s) initial = Some sz" and "0 < sz"
  shows "ipc_space_create initial fast s =
    Some (Inr space, put_space space (space_new sz (initial + 1) fast) (s\<lparr>ks_free_memory := rest\<rparr>))"
  using assms by (simp add: ipc_space_create_def kalloc_def space_new_def)

section \<open>Runs of the entry routines\<close>

text \<open>Lookup returns a pointer to the entry of the name.\<close>

lemma lookup_at:
  assumes ok: "space_ok sp its_size fl claimed" and run: "ipc_entry_lookup sp name = Some (Some entry, sp')"
  shows "entry_at sp' fl name entry"
proof (cases "\<exists>i. entry = Table_entry i")
  case True
  then have "sp' = sp" and i: "entry = Table_entry (name_index name)" "name_index name < length (is_table sp)"
    "IE_BITS_GEN (ie_bits (is_table sp ! name_index name)) = MACH_PORT_GEN name"
    "IE_BITS_TYPE (ie_bits (is_table sp ! name_index name)) \<noteq> 0"
    using run by (auto simp: ipc_entry_lookup_def Let_def ipc_entry_tree_lookup_def array_get_eq_Some
      split: if_splits bind_splits option.splits prod.splits)
  moreover have "length (is_table sp) = is_table_size sp" "IE_BITS_TYPE (ie_bits (is_table sp ! 0)) = 0"
    using ok by (simp_all add: space_ok_def table_ok_def)
  ultimately show ?thesis
    using free_entry(4) [OF ok, of "name_index name"] by (auto simp: entry_at_def intro: gr0I)
next
  case False
  then have lookup: "ipc_entry_tree_lookup sp name = (Some entry, sp')"
    using run by (auto simp: ipc_entry_lookup_def Let_def split: if_splits bind_splits option.splits)
  obtain t where "ipc_entry_tree_lookup sp name =
      (if Option.bind (tree_map sp name) ie_right = None then None else Some (Tree_entry name), sp\<lparr>is_tree := t\<rparr>)"
    "ist_entries t = ist_entries (is_tree sp)"
    using ok by (auto simp: space_ok_def elim: entry_tree_lookup [of sp its_size claimed name])
  with lookup show ?thesis by (cases "tree_map sp name") (auto simp: entry_at_def split: if_splits)
qed

text \<open>An update of an entry that leaves a right in it and keeps its generation and collision bit.\<close>

definition keeps_entry :: "(ipc_entry \<Rightarrow> ipc_entry) \<Rightarrow> ipc_entry \<Rightarrow> bool" where
  "keeps_entry f e \<longleftrightarrow> IE_BITS_TYPE (ie_bits (f e)) \<noteq> 0 \<and> IE_BITS_GEN (ie_bits (f e)) = IE_BITS_GEN (ie_bits e) \<and>
     has (ie_bits (f e)) IE_BITS_COLLISION = has (ie_bits e) IE_BITS_COLLISION"

text \<open>\<open>names_run space its s m\<close>: the kernel \<open>s\<close> is reached from the creation of the space by the entry
  routines, as the rest of the IPC code calls them while the table keeps its size, and \<open>m\<close> is the
  map from names to rights that these calls amount to: a fresh entry gets its right at once, the
  right of an entry in use is changed, an entry without object and request is deallocated.\<close>

inductive names_run ::
  "ipc_space_t \<Rightarrow> nat \<Rightarrow> kernel \<Rightarrow> (mach_port_name_t \<Rightarrow> (ipc_object_t \<times> u32 \<times> u32) option) \<Rightarrow> bool"
  for space its where
  run_create: "\<lbrakk>ks_free_memory s0 = space # table # rest; space \<noteq> 0; table \<noteq> 0;
      array_get (ks_table_entries s0) initial = Some sz; sz < 2 ^ 24;
      ipc_space_create initial fast s0 = Some (Inr space, s)\<rbrakk> \<Longrightarrow> names_run space its s Map.empty"
| run_lookup: "\<lbrakk>names_run space its s m; ks_spaces s space = Some sp; is_fast sp \<longrightarrow> name_index name < is_table_size sp;
      ipc_entry_lookup sp name = Some (r, sp')\<rbrakk> \<Longrightarrow> names_run space its (put_space space sp' s) m"
| run_change: "\<lbrakk>names_run space its s m; ks_spaces s space = Some sp; is_fast sp \<longrightarrow> name_index name < is_table_size sp;
      ipc_entry_lookup sp name = Some (Some entry, sp'); is_entry sp' entry = Some e; keeps_entry f e;
      is_entry_upd entry f sp' = Some sp''\<rbrakk> \<Longrightarrow> names_run space its (put_space space sp'' s) (m(name := ie_right (f e)))"
| run_alloc: "\<lbrakk>names_run space its s m; ks_spaces s space = Some sp; ipc_entry_get sp = Some (Inr (name, entry), sp');
      is_entry sp' entry = Some e; keeps_entry f e; is_entry_upd entry f sp' = Some sp''\<rbrakk> \<Longrightarrow>
      names_run space its (put_space space sp'' s) (m(name := ie_right (f e)))"
| run_alloc_name: "\<lbrakk>names_run space its s m; ks_spaces s space = Some sp; \<not> is_fast sp;
      array_get (ks_table_entries s) (is_table_next sp) = Some its; no_growth sp its name; MACH_PORT_VALID name;
      name_index name \<noteq> 0; fst (kalloc s) \<noteq> 0; m name = None;
      ipc_entry_alloc_name space name s = Some (Inr entry, s'); get_entry space entry s' = Some e; keeps_entry f e;
      upd_entry space entry f s' = Some s''\<rbrakk> \<Longrightarrow> names_run space its s'' (m(name := ie_right (f e)))"
| run_dealloc: "\<lbrakk>names_run space its s m; ks_spaces s space = Some sp; is_fast sp \<longrightarrow> name_index name < is_table_size sp;
      array_get (ks_table_entries s) (is_table_next sp) = Some its;
      ipc_entry_lookup sp name = Some (Some entry, sp'); is_entry sp' entry = Some e;
      ie_object e = IO_NULL; ie_request e = 0;
      \<forall>i. entry = Table_entry i \<and> has (ie_bits e) IE_BITS_COLLISION \<longrightarrow> collision_hashed s space sp' i;
      ipc_entry_dealloc space name entry (put_space space sp' s) = Some s'\<rbrakk> \<Longrightarrow> names_run space its s' (m(name := None))"

definition implements :: "ipc_space_t \<Rightarrow> nat \<Rightarrow> kernel \<Rightarrow> (mach_port_name_t \<Rightarrow> (ipc_object_t \<times> u32 \<times> u32) option) \<Rightarrow> bool" where
  "implements space its s m \<longleftrightarrow>
     (\<exists>sp fl. ks_spaces s space = Some sp \<and> space_ok sp its fl {} \<and> is_names sp = m)"

lemma implements_change:
  assumes ok: "space_ok sp its fl claimed" and at: "entry_at sp fl name entry" and e: "is_entry sp entry = Some e"
    and keep: "keeps_entry f e" and upd: "is_entry_upd entry f sp = Some sp'" and cl: "claimed \<subseteq> {entry}"
  shows "space_ok sp' its fl {}" and "is_names sp' = (is_names sp)(name := ie_right (f e))"
proof -
  have k: "IE_BITS_TYPE (ie_bits (f e)) \<noteq> 0" "IE_BITS_GEN (ie_bits (f e)) = IE_BITS_GEN (ie_bits e)"
    "has (ie_bits (f e)) IE_BITS_COLLISION = has (ie_bits e) IE_BITS_COLLISION"
    using keep unfolding keeps_entry_def by blast+
  have none: "claimed - {entry} = {}" using cl by auto
  from entry_update_spec [where f = f, OF ok at e k(2,3)] upd k(1)
  show "space_ok sp' its fl {}" "is_names sp' = (is_names sp)(name := ie_right (f e))"
    by (simp_all add: none)
qed

lemma get_at:
  assumes ok: "space_ok sp its fl {}" and run: "ipc_entry_get sp = Some (Inr (name, entry), sp')"
  obtains fl' where "space_ok sp' its fl' {entry}" and "is_names sp' = is_names sp" and "entry_at sp' fl' name entry"
proof (cases fl)
  case Nil
  with get_no_space ok run show ?thesis by fastforce
next
  case (Cons i fl')
  define gen where "gen = IE_BITS_NEW_GEN (ie_bits (is_table sp ! i))"
  define n where "n = MACH_PORT_MAKE (of_nat i) gen"
  note g = get_spec [OF ok [unfolded Cons], folded gen_def, folded n_def]
  have i: "0 < i" "i < is_table_size sp" using free_entry(1,2) [OF ok, of i] Cons by auto
  have notin: "i \<notin> set fl'"
    using ok Cons by (auto simp: space_ok_def table_ok_def entry_list.fl_full_def entry_list.fl_ok_def)
  have "IE_BITS_GEN gen = gen" by (simp add: gen_def)
  then show ?thesis
    using g run i notin that [of fl'] by (auto simp: entry_at_def)
qed

lemma names_run_implements:
  assumes "names_run space its s m"
  shows "implements space its s m"
  using assms
proof (induction rule: names_run.induct)
  case (run_create s0 table rest initial sz fast s)
  have "0 < sz" using run_create.hyps(1-4, 6) by (auto simp: ipc_space_create_def kalloc_def)
  with create_spec [OF run_create.hyps(1-4), of fast] run_create.hyps(5,6) new_space_ok [of sz]
  show ?case by (auto simp: implements_def)
next
  case (run_lookup s m sp name r sp')
  then obtain fl where ok: "space_ok sp its fl {}" and m: "is_names sp = m" by (auto simp: implements_def)
  from entry_lookup_spec [OF ok run_lookup.hyps(3)] run_lookup.hyps(4) m show ?case by (auto simp: implements_def)
next
  case (run_change s m sp name entry sp' e f sp'')
  then obtain fl where ok: "space_ok sp its fl {}" and m: "is_names sp = m" by (auto simp: implements_def)
  have ok': "space_ok sp' its fl {}" and m': "is_names sp' = m"
    using entry_lookup_spec [OF ok run_change.hyps(3)] run_change.hyps(4) m by auto
  from implements_change [OF ok' lookup_at [OF ok run_change.hyps(4)] run_change.hyps(5-7)] m'
  show ?case by (auto simp: implements_def)
next
  case (run_alloc s m sp name entry sp' e f sp'')
  then obtain fl where ok: "space_ok sp its fl {}" and m: "is_names sp = m" by (auto simp: implements_def)
  obtain fl' where g: "space_ok sp' its fl' {entry}" "is_names sp' = is_names sp" "entry_at sp' fl' name entry"
    by (rule get_at [OF ok run_alloc.hyps(3)])
  from implements_change [OF g(1,3) run_alloc.hyps(4-6)] g(2) m show ?case by (auto simp: implements_def)
next
  case (run_alloc_name s m sp name entry s' e f s'')
  then obtain fl where ok: "space_ok sp its fl {}" and m: "is_names sp = m" by (auto simp: implements_def)
  have none: "is_names sp name = None" using run_alloc_name.hyps(9) m by simp
  obtain sp' t fl' where a: "s' = put_space space sp' t" "is_names sp' = is_names sp" "entry_at sp' fl' name entry"
    "space_ok sp' its fl' {entry}"
    using alloc_name_spec [OF run_alloc_name.hyps(2) ok run_alloc_name.hyps(3-6)] none run_alloc_name.hyps(7,8,10)
    by auto
  have e: "is_entry sp' entry = Some e" using run_alloc_name.hyps(11) by (simp add: get_entry_def a(1))
  obtain sp'' where u: "is_entry_upd entry f sp' = Some sp''" "s'' = put_space space sp'' t"
    using run_alloc_name.hyps(13) by (auto simp: upd_entry_def a(1) split: bind_splits)
  from implements_change [OF a(4,3) e run_alloc_name.hyps(12) u(1)] a(2) m u(2) show ?case
    by (auto simp: implements_def)
next
  case (run_dealloc s m sp name entry sp' e s')
  then obtain fl where ok: "space_ok sp its fl {}" and m: "is_names sp = m" by (auto simp: implements_def)
  have ok': "space_ok sp' its fl {}" and m': "is_names sp' = m"
    using entry_lookup_spec [OF ok run_dealloc.hyps(3)] run_dealloc.hyps(5) m by auto
  have nxt: "is_table_next sp' = is_table_next sp"
    using run_dealloc.hyps(5) by (auto simp: ipc_entry_lookup_def ipc_entry_tree_lookup_def Let_def
      split: if_splits bind_splits option.splits prod.splits)
  have coll: "collision_hashed (put_space space sp' s) space sp' i" if "collision_hashed s space sp' i" for i
    using that unfolding collision_hashed_def by (simp add: put_space_def IH_GLOBAL_HASH_def)
  have sp: "ks_spaces (put_space space sp' s) space = Some sp'" by simp
  have its: "array_get (ks_table_entries (put_space space sp' s)) (is_table_next sp') = Some its"
    using run_dealloc.hyps(4) nxt by simp
  obtain sp'' fl' h where d: "s' = put_space space sp'' (put_space space sp' s)\<lparr>ks_hash := h\<rparr>"
    "space_ok sp'' its fl' {}" "is_names sp'' = (is_names sp')(name := None)"
    using dealloc_spec [OF sp ok' its lookup_at [OF ok run_dealloc.hyps(5)] run_dealloc.hyps(6-8)] coll
      run_dealloc.hyps(9,10) by auto
  have "ks_spaces s' space = Some sp''" unfolding d(1) by (simp add: put_space_def)
  with d m' show ?case unfolding implements_def by blast
qed


section \<open>The index 0\<close>

lemma alloc_name_index_0:
  assumes sp: "ks_spaces s space = Some sp" and act: "is_active sp" and sz: "0 < is_table_size sp"
    and i: "MACH_PORT_INDEX name = 0" and gen: "array_get (is_table sp) 0 = Some e" "IE_BITS_GEN (ie_bits e) \<noteq> 0"
  shows "ipc_entry_alloc_name space name s = None"
proof -
  have "ipc_entry_claim sp name False = None"
    using gen by (simp add: ipc_entry_claim_def i Let_def kassert_def)
  then have "ipc_entry_alloc_name_loop space name False s = None"
    by (subst ipc_entry_alloc_name_loop.simps) (simp add: sp act i sz)
  then show ?thesis by (simp add: ipc_entry_alloc_name_def kassert_def)
qed

section \<open>Cleaning a space with rights in its tree\<close>

lemma clean_table_nothing:
  assumes "ks_spaces s space = Some sp" and "\<And>i. i \<in> set is \<Longrightarrow> i < length (is_table sp)"
    and "\<And>i. i \<in> set is \<Longrightarrow> IE_BITS_TYPE (ie_bits (is_table sp ! i)) = MACH_PORT_TYPE_NONE"
  shows "ipc_space_clean_table space is s = Some s"
  using assms by (induction "is") (simp_all add: get_entry_def)

text \<open>In the middle of a traversal the root has lost its left part.\<close>

fun went_left :: "'e ist_frame \<Rightarrow> bool" where
  "went_left (Went_left n r) \<longleftrightarrow> True"
| "went_left (Went_right l n) \<longleftrightarrow> False"

lemma traverse_left_frames:
  "ipc_splay_traverse_left t fs = At_entry t' fs' \<Longrightarrow> \<forall>f \<in> set fs. went_left f \<Longrightarrow> \<forall>f \<in> set fs'. went_left f"
  by (induction t fs rule: ipc_splay_traverse_left.induct) auto

lemma broken_entries:
  assumes "\<forall>f \<in> set fs. went_left f" and "fs \<noteq> []"
  shows "set (inorder (ipc_splay_traverse_broken t fs)) \<subseteq> set (frames_after fs)"
    and "ipc_splay_traverse_broken t fs \<noteq> Leaf"
  using assms
proof (induction t fs rule: ipc_splay_traverse_broken.induct)
  case (4 t f f' fs)
  {
    case 1
    then obtain n r where "f = Went_left n r" by (cases f) auto
    with 1 "4.IH"(1) show ?case by auto
  next
    case 2
    with "4.IH"(2) show ?case by simp
  }
qed auto

lemma clean_tree_panics:
  assumes sp: "ks_spaces s space = Some sp" and inv: "ist_inv (is_tree sp)"
    and start: "ipc_splay_traverse_start (is_tree sp) = At_entry (Node l n r) fs" and fs: "fs \<noteq> []"
    and type: "IE_BITS_TYPE (ie_bits (snd n)) \<noteq> MACH_PORT_TYPE_NONE"
  shows "ipc_space_clean_tree space (At_entry (Node l n r) fs) True s = None"
proof -
  let ?t = "ipc_splay_traverse_broken (Node l n r) fs"
  let ?sp = "sp\<lparr>is_tree := ipc_splay_traverse_finish (is_tree sp) ?t\<rparr>"
  have left: "\<forall>f \<in> set fs. went_left f"
    using start by (auto simp: ipc_splay_traverse_start_def split: if_splits dest: traverse_left_frames)
  have "trav_at (At_entry (Node l n r) fs) [] (ist_entries (is_tree sp))"
    using traverse_start_at [of "is_tree sp"] by (simp only: start)
  then have "ist_entries (is_tree sp) = n # inorder r @ frames_after fs" by simp
  then have "ascending (n # inorder r @ frames_after fs)" using inv by (simp add: ist_inv_def)
  then have "fst n \<notin> fst ` set (frames_after fs)" by (auto simp: ascending_Cons)
  moreover have "set (ist_entries (is_tree ?sp)) \<subseteq> set (frames_after fs)"
    using broken_entries [OF left fs, of "Node l n r"]
    by (auto simp: ipc_splay_traverse_finish_def ist_entries_def split: tree.splits)
  ultimately have "map_of (ist_entries (is_tree ?sp)) (fst n) = None" by (auto simp: map_of_eq_None_iff)
  then have "ipc_right_destroy space (fst n) (Tree_entry (fst n)) (put_space space ?sp s) = None"
    by (simp add: ipc_right_destroy_def get_entry_def)
  then show ?thesis
    by (subst ipc_space_clean_tree.simps) (simp add: sp type Let_def)
qed

text \<open>The traversal starts at the smallest entry, which is the root only if the root has no left part.\<close>

lemma traverse_left_root:
  "t \<noteq> Leaf \<Longrightarrow> \<exists>n r fs'. ipc_splay_traverse_left t fs = At_entry (Node Leaf n r) fs' \<and> hd (inorder t) = n \<and>
     (length fs' \<ge> length fs \<and> (fs' = fs \<longrightarrow> t = Node Leaf n r))"
proof (induction t fs rule: ipc_splay_traverse_left.induct)
  case (1 ll ln lr n r fs)
  then obtain n' r' fs' where left: "ipc_splay_traverse_left (Node ll ln lr) (Went_left n r # fs) = At_entry (Node Leaf n' r') fs'"
    "hd (inorder (Node ll ln lr)) = n'" and len: "length (Went_left n r # fs) \<le> length fs'"
    by blast
  have "fs' \<noteq> fs" using len by auto
  moreover have "hd (inorder (Node (Node ll ln lr) n r)) = n'" using left(2) by (cases "inorder ll") auto
  ultimately show ?case using left(1) len by auto
qed auto

lemma start_smallest:
  assumes "ist_root tree = Node l n r"
  shows "\<exists>n' r' fs. ipc_splay_traverse_start tree = At_entry (Node Leaf n' r') fs \<and> hd (ist_entries tree) = n' \<and>
    (fs = [] \<longrightarrow> n' = n)"
  using traverse_left_root [of "ipc_splay_prim_assemble (ist_root tree) (ist_ltree tree) (ist_rtree tree)" "[]"] assms
  by (auto simp: ipc_splay_traverse_start_def ist_entries_def)

section \<open>Properties\<close>

text \<open>A kernel with memory for one space, and the first steps there: a new space, a fresh name, and
  a receive right for it.\<close>

definition bare_kernel :: kernel where
  "bare_kernel = \<lparr>ks_spaces = Map.empty, ks_ports = Map.empty, ks_psets = Map.empty, ks_hash = (\<lambda>_. []),
     ks_hash_mask = 0xff, ks_timestamp = 0, ks_table_entries = [4, 8, 16], ks_table_dnrequests = [2, 4],
     ks_free_memory = [0x3000, 0x4000], ks_events = []\<rparr>"

abbreviation new_kernel :: kernel where
  "new_kernel \<equiv> put_space 0x3000 (space_new 4 1 False) (bare_kernel\<lparr>ks_free_memory := []\<rparr>)"

lemma bare_kernel_fields: "ks_free_memory bare_kernel = [0x3000, 0x4000]"
  "array_get (ks_table_entries bare_kernel) 0 = Some 4"
  by (simp_all add: bare_kernel_def)

lemma new_kernel_created: "ipc_space_create 0 False bare_kernel = Some (Inr 0x3000, new_kernel)"
  using create_spec [OF bare_kernel_fields(1) _ _ bare_kernel_fields(2)] by simp

text \<open>C1: a space implements a finite map. Every run of the entry routines (creation of the space,
  lookup, allocation from the free list, allocation of a chosen name in the table or in the
  tree, change of a right, deallocation) ends in a well-formed space without a claimed entry, whose names
  and rights are those of the map that the calls amount to; and lookup answers there for every
  name (in a fast space, whose lookup trusts the index, for every name within the table), with a
  null pointer exactly for the names outside the map.\<close>

theorem names_run_refines:
  assumes "names_run space its s m"
  shows "\<exists>sp fl. ks_spaces s space = Some sp \<and> is_names sp = m \<and> space_ok sp its fl {} \<and>
    (\<forall>name. (is_fast sp \<longrightarrow> name_index name < is_table_size sp) \<longrightarrow>
       (\<exists>r sp'. ipc_entry_lookup sp name = Some (r, sp') \<and> (r = None \<longleftrightarrow> m name = None)))"
proof -
  obtain sp fl where sp: "ks_spaces s space = Some sp" "is_names sp = m" "space_ok sp its fl {}"
    using names_run_implements [OF assms] by (auto simp: implements_def)
  have "\<exists>r sp'. ipc_entry_lookup sp name = Some (r, sp') \<and> (r = None \<longleftrightarrow> m name = None)"
    if fast: "is_fast sp \<longrightarrow> name_index name < is_table_size sp" for name
  proof -
    obtain r sp' where "ipc_entry_lookup sp name = Some (r, sp')"
      and "case r of None \<Rightarrow> is_names sp name = None | Some entry \<Rightarrow> \<exists>e. is_entry sp' entry = Some e \<and>
        is_names sp name = ie_right e \<and> is_names sp name \<noteq> None"
      using entry_lookup_spec [OF sp(3) fast] by blast
    then show ?thesis using sp(2) by (cases r) auto
  qed
  with sp show ?thesis by blast
qed

lemma names_run_refines_witness:
  "\<exists>name s sp. names_run 0x3000 8 s [name \<mapsto> (0x1000, 0x20000, 0)] \<and> ks_spaces s 0x3000 = Some sp \<and>
     is_names sp = [name \<mapsto> (0x1000, 0x20000, 0)]"
proof -
  let ?sp = "space_new 4 1 False" let ?f = "\<lambda>e. e\<lparr>ie_bits := ie_bits e OR MACH_PORT_TYPE_RECEIVE, ie_object := 0x1000\<rparr>"
  have start: "names_run 0x3000 8 new_kernel Map.empty"
    using run_create [OF bare_kernel_fields(1) _ _ bare_kernel_fields(2) _ new_kernel_created] by simp
  have sp: "ks_spaces new_kernel 0x3000 = Some ?sp" by simp
  have "[1..<4] = 1 # [2, 3 :: nat]" by (simp add: upt_rec numeral_eq_Suc)
  then have ok: "space_ok ?sp 8 (1 # [2, 3]) {}" using new_space_ok(1) [of 4 1 False 8] by simp
  have bits: "ie_bits (is_table ?sp ! 1) = IE_BITS_GEN_MASK"
    by (simp add: space_new_def table_nth del: One_nat_def)
  obtain name sp' where get: "ipc_entry_get ?sp = Some (Inr (name, Table_entry 1), sp')"
    and e: "is_table sp' ! 1 = (is_table ?sp ! 1)\<lparr>ie_bits := IE_BITS_NEW_GEN IE_BITS_GEN_MASK, ie_request := 0\<rparr>"
    and len: "1 < length (is_table sp')"
  proof -
    have "length (is_table sp') = is_table_size sp'" if "space_ok sp' 8 [2, 3] claimed" for sp' claimed
      using that by (simp add: space_ok_def table_ok_def)
    moreover have "is_table_size ?sp = 4" by (simp add: space_new_def)
    ultimately show ?thesis using get_spec(1) [OF ok, unfolded bits]
      by (elim exE conjE) (rule that, assumption, auto)
  qed
  have gen: "IE_BITS_NEW_GEN IE_BITS_GEN_MASK = 0x03000000" by (simp add: IE_BITS_NEW_GEN_def)
  let ?e = "is_table sp' ! 1"
  have keep: "keeps_entry ?f ?e"
    by (simp add: keeps_entry_def e gen IE_BITS_TYPE_def IE_BITS_GEN_def has_def del: One_nat_def)
  have right: "ie_right (?f ?e) = Some (0x1000, 0x20000, 0)"
    by (simp add: e gen ie_right_def IE_BITS_TYPE_def del: One_nat_def)
  have entry: "is_entry sp' (Table_entry 1) = Some ?e"
    and upd: "is_entry_upd (Table_entry 1) ?f sp' = Some (sp'\<lparr>is_table := (is_table sp')[1 := ?f ?e]\<rparr>)"
    using len by (simp_all del: One_nat_def)
  note run = run_alloc [OF start sp get entry keep upd, unfolded right]
  from names_run_refines [OF run] show ?thesis using run by blast
qed

text \<open>A new space has no usable index 0. The element 0 of the table of a new space is the head of
  the free list and has the generation -1 like every other element, so that
  the allocation of any valid name with the index 0 fails the assertion that the generation there is zero.\<close>

theorem new_space_index_0:
  assumes "ks_free_memory s = space # table # rest" and "space \<noteq> 0" "table \<noteq> 0"
    and "array_get (ks_table_entries s) initial = Some sz" and "0 < sz" and "MACH_PORT_INDEX name = 0"
  shows "\<exists>s'. ipc_space_create initial fast s = Some (Inr space, s') \<and> ipc_entry_alloc_name space name s' = None"
proof -
  let ?sp = "space_new sz (initial + 1) fast"
  have gen: "IE_BITS_GEN (ie_bits (is_table ?sp ! 0)) \<noteq> 0"
    using assms(5) by (simp add: space_new_def table_nth IE_BITS_GEN_def)
  have "is_active ?sp" "0 < is_table_size ?sp" "array_get (is_table ?sp) 0 = Some (is_table ?sp ! 0)"
    using assms(5) by (simp_all add: space_new_def table_length)
  from alloc_name_index_0 [OF ks_spaces_put_space this(1,2) assms(6) this(3) gen]
  show ?thesis using create_spec [OF assms(1-5)] by blast
qed

lemma new_space_index_0_witness:
  "MACH_PORT_VALID 0x17 \<and> ipc_entry_alloc_name 0x3000 0x17 new_kernel = None"
  using new_space_index_0 [OF bare_kernel_fields(1) _ _ bare_kernel_fields(2), of "0x17" False] new_kernel_created
  by (simp add: MACH_PORT_INDEX_def MACH_PORT_VALID_def)

text \<open>C33: cleaning a space is fatal when the splay tree holds rights and its smallest name is not at the root:
  \<open>ipc_space_clean\<close> ends the traversal in its middle, while the links of the tree are turned
  around, so that the root has lost its left part, and then destroys the right of an entry that the
  tree does not reach any more.\<close>

theorem space_clean_panics:
  assumes "ks_spaces s space = Some sp" and "length (is_table sp) = is_table_size sp"
    and "\<forall>e \<in> set (is_table sp). IE_BITS_TYPE (ie_bits e) = MACH_PORT_TYPE_NONE"
    and "ist_inv (is_tree sp)" and "ist_root (is_tree sp) = Node l n r" and "hd (ist_entries (is_tree sp)) \<noteq> n"
    and "IE_BITS_TYPE (ie_bits (snd (hd (ist_entries (is_tree sp))))) \<noteq> MACH_PORT_TYPE_NONE"
  shows "ipc_space_clean space s = None"
proof -
  obtain n' r' fs where start: "ipc_splay_traverse_start (is_tree sp) = At_entry (Node Leaf n' r') fs"
    and "hd (ist_entries (is_tree sp)) = n'" and "fs = [] \<Longrightarrow> n' = n"
    using start_smallest [OF assms(5)] by blast
  moreover have "ipc_space_clean_table space [0..<is_table_size sp] s = Some s"
    using assms(2,3) by (intro clean_table_nothing [OF assms(1)]) auto
  ultimately show ?thesis
    using clean_tree_panics [OF assms(1,4) start] assms(1,6,7) by (auto simp: ipc_space_clean_def)
qed

text \<open>The witness: the dead name 0x103 below the dead name 0x207.\<close>

definition clean_sample :: ipc_space where
  "clean_sample = (space_new 4 1 False)\<lparr>is_table := [], is_table_size := 0, is_tree :=
     \<lparr>ist_name = 0x207, ist_root = Node (Node Leaf (0x103, ie_zero\<lparr>ie_bits := 0x100001\<rparr>) Leaf)
        (0x207, ie_zero\<lparr>ie_bits := 0x100001\<rparr>) Leaf, ist_ltree = [], ist_rtree = []\<rparr>, is_tree_total := 2\<rparr>"

lemma space_clean_panics_witness:
  "ipc_space_clean 0x3000 (put_space 0x3000 clean_sample bare_kernel) = None"
  by (rule space_clean_panics [OF ks_spaces_put_space])
    (auto simp: clean_sample_def ist_inv_def ist_entries_def IE_BITS_TYPE_def splayed_def)

end
