(* ===== verification/Ipc_Port_Spec.thy ===== *)
theory Ipc_Port_Spec
  imports Ipc_Port
begin

text \<open>
  The correctness of the port routines: the table of dead-name requests of a port as a partial
  map with a free list, the accounts of send rights and of references, the check for
  circularity, and the notifications that the death of a port gives rise to.
\<close>

lemma put_port_apply [simp]: "ks_ports (put_port a x s) a = Some x"
  by (simp add: put_port_def)

lemma put_port_twice [simp]: "put_port a x (put_port a y s) = put_port a x s"
  by (simp add: put_port_def)

lemma put_port_fields [simp]:
  "ks_spaces (put_port a x s) = ks_spaces s" "ks_psets (put_port a x s) = ks_psets s"
  "ks_table_dnrequests (put_port a x s) = ks_table_dnrequests s" "ks_events (put_port a x s) = ks_events s"
  "ks_free_memory (put_port a x s) = ks_free_memory s" "ks_timestamp (put_port a x s) = ks_timestamp s"
  by (simp_all add: put_port_def)

lemma put_port_same: "ks_ports s a = Some x \<Longrightarrow> put_port a x s = s"
  by (rule kernel.equality) (auto simp: put_port_def)

section \<open>The table of dead-name requests\<close>

interpretation dn_list: free_list
  ipr_next "\<lambda>r. ipr_name r = MACH_PORT_NULL" "\<lambda>w. ipr_next_update (\<lambda>_. w)"
  by unfold_locales simp_all

text \<open>Every unused element is in the free list.\<close>

definition dn_table_ok :: "ipc_port_request list \<Rightarrow> nat list \<Rightarrow> bool" where
  "dn_table_ok t fl \<longleftrightarrow> dn_list.fl_full t fl {} \<and> length t < 2 ^ 32"

text \<open>The outstanding requests: the name that wants to know, and the send-once right for the
  notification.\<close>

definition dn_requests :: "ipc_port_request list \<Rightarrow> nat \<Rightarrow> (mach_port_name_t \<times> ipc_port_t) option" where
  "dn_requests t i =
    (if 0 < i \<and> i < length t \<and> ipr_name (t ! i) \<noteq> MACH_PORT_NULL
     then Some (ipr_name (t ! i), ipr_soright (t ! i)) else None)"

lemma dn_first:
  assumes "dn_table_ok t (i # fl)"
  shows "0 < i" "i < length t" "ipr_name (t ! i) = MACH_PORT_NULL" "ipr_next (t ! 0) = of_nat i"
    "unat (of_nat i :: u32) = i" "(of_nat i :: u32) \<noteq> 0"
proof -
  have fl: "dn_list.fl_ok t (i # fl)" and len: "length t < 2 ^ 32"
    using assms by (simp_all add: dn_table_ok_def dn_list.fl_full_def)
  show i: "i < length t" "ipr_name (t ! i) = MACH_PORT_NULL" using fl by (simp_all add: dn_list.fl_ok_def)
  show "0 < i" using dn_list.fl_ok_zero [OF fl] by (auto intro: gr0I)
  show "ipr_next (t ! 0) = of_nat i" using fl by (auto simp: dn_list.fl_ok_def)
  show w: "unat (of_nat i :: u32) = i" using i len by (simp add: unat_of_nat)
  with \<open>0 < i\<close> show "(of_nat i :: u32) \<noteq> 0" by auto
qed

text \<open>A request takes the first free element, a cancellation gives it back.\<close>

lemma dnrequest_spec:
  assumes p: "ks_ports s port = Some p" "io_active p" and t: "ip_dnrequests p = Some t" "dn_table_ok t (i # fl)"
    and args: "name \<noteq> MACH_PORT_NULL" "soright \<noteq> IP_NULL"
  defines "t1 \<equiv> t[0 := ipr_next_update (\<lambda>_. ipr_next (t ! i)) (t ! 0), i := (t ! i)\<lparr>ipr_soright := soright, ipr_name := name\<rparr>]"
  shows "ipc_port_dnrequest port name soright s =
      Some (Inr (of_nat i), put_port port (p\<lparr>ip_dnrequests := Some t1\<rparr>) s)"
    and "dn_requests t1 = (dn_requests t)(i \<mapsto> (name, soright))" and "dn_table_ok t1 fl"
proof -
  note d = dn_first [OF t(2)]
  have z: "0 < length t" using d by linarith
  show "ipc_port_dnrequest port name soright s =
      Some (Inr (of_nat i), put_port port (p\<lparr>ip_dnrequests := Some t1\<rparr>) s)"
    using p t(1) args d z by (simp add: ipc_port_dnrequest_def Let_def t1_def nth_list_update)
  have tj: "t1 ! j = (if j = i then (t ! i)\<lparr>ipr_soright := soright, ipr_name := name\<rparr>
      else if j = 0 then ipr_next_update (\<lambda>_. ipr_next (t ! i)) (t ! 0) else t ! j)" for j
    using d z by (auto simp: t1_def nth_list_update)
  have len: "length t1 = length t" by (simp add: t1_def)
  show "dn_requests t1 = (dn_requests t)(i \<mapsto> (name, soright))"
    using d args by (auto simp: fun_eq_iff dn_requests_def tj len)
  have "dn_list.fl_ok t1 fl"
    unfolding t1_def by (rule dn_list.pop) (use t(2) in \<open>simp add: dn_table_ok_def dn_list.fl_full_def\<close>)
  then show "dn_table_ok t1 fl"
    using t(2) args by (auto simp: dn_table_ok_def dn_list.fl_full_def tj len split: if_splits)
qed

lemma dncancel_spec:
  assumes p: "ks_ports s port = Some p" "io_active p" and t: "ip_dnrequests p = Some t" "dn_table_ok t fl"
    and r: "dn_requests t (unat index) = Some (name, soright)"
  defines "t1 \<equiv> t[unat index := \<lparr>ipr_soright = ipr_next (t ! 0), ipr_name = MACH_PORT_NULL\<rparr>,
    0 := ipr_next_update (\<lambda>_. index) (t ! 0)]"
  shows "ipc_port_dncancel port name index s = Some (soright, put_port port (p\<lparr>ip_dnrequests := Some t1\<rparr>) s)"
    and "dn_requests t1 = (dn_requests t)(unat index := None)" and "dn_table_ok t1 (unat index # fl)"
proof -
  let ?i = "unat index"
  have i: "0 < ?i" "?i < length t" "ipr_name (t ! ?i) = name" "ipr_soright (t ! ?i) = soright" "name \<noteq> MACH_PORT_NULL"
    using r by (auto simp: dn_requests_def split: if_splits)
  have fl: "dn_list.fl_ok t fl" using t(2) by (simp add: dn_table_ok_def dn_list.fl_full_def)
  have z: "0 < length t" using i by linarith
  have nofl: "?i \<notin> set fl" using fl i by (auto simp: dn_list.fl_ok_def)
  have w: "index \<noteq> 0" using i(1) by auto
  show "ipc_port_dncancel port name index s = Some (soright, put_port port (p\<lparr>ip_dnrequests := Some t1\<rparr>) s)"
    using p t(1) i z w by (simp add: ipc_port_dncancel_def Let_def t1_def)
  have tj: "t1 ! j = (if j = 0 then ipr_next_update (\<lambda>_. index) (t ! 0)
      else if j = ?i then \<lparr>ipr_soright = ipr_next (t ! 0), ipr_name = MACH_PORT_NULL\<rparr> else t ! j)" for j
    using i z by (auto simp: t1_def nth_list_update)
  have len: "length t1 = length t" by (simp add: t1_def)
  show "dn_requests t1 = (dn_requests t)(?i := None)"
    using i by (auto simp: fun_eq_iff dn_requests_def tj len)
  have "dn_list.fl_ok t1 (?i # fl)"
    unfolding t1_def by (rule dn_list.push [OF fl i(2) w nofl]) simp_all
  then show "dn_table_ok t1 (?i # fl)"
    using t(2) i by (auto simp: dn_table_ok_def dn_list.fl_full_def tj len split: if_splits)
qed

section \<open>Growing the table of requests\<close>

lemma dngrow_free_spec:
  assumes "dn_list.fl_ok (t[0 := ipr_next_update (\<lambda>_. h) (t ! 0)]) fl"
    and "b - a = n" and "a \<le> b" and "b \<le> length t" and "length t < 2 ^ 32" and "0 < a" and "\<forall>i \<in> set fl. i < a"
  shows "\<exists>t' h'. ipc_port_dngrow_free [a..<b] t h = Some (t', h') \<and> length t' = length t \<and>
           (\<forall>i. i < a \<longrightarrow> t' ! i = t ! i) \<and> (\<forall>i. a \<le> i \<longrightarrow> i < b \<longrightarrow> ipr_name (t' ! i) = MACH_PORT_NULL) \<and>
           dn_list.fl_ok (t'[0 := ipr_next_update (\<lambda>_. h') (t' ! 0)]) (rev [a..<b] @ fl)"
  using assms
proof (induction n arbitrary: a t h fl)
  case 0
  then show ?case by simp
next
  case (Suc n)
  let ?c = "\<lparr>ipr_soright = h, ipr_name = MACH_PORT_NULL\<rparr>" let ?t = "t[a := ?c]" let ?h = "of_nat a :: u32"
  let ?u = "t[0 := ipr_next_update (\<lambda>_. h) (t ! 0)]"
  have a: "a < b" "0 < length t" "unat ?h = a" "?h \<noteq> 0"
  proof -
    show "a < b" using Suc.prems by simp
    then show "unat ?h = a" using Suc.prems by (simp add: unat_of_nat)
    then show "?h \<noteq> 0" using Suc.prems(6) by auto
    show "0 < length t" using \<open>a < b\<close> Suc.prems(4) by linarith
  qed
  have nofl: "a \<notin> set fl" using Suc.prems(7) by auto
  have "dn_list.fl_ok (?u[unat ?h := ?c, 0 := ipr_next_update (\<lambda>_. ?h) (?u ! 0)]) (unat ?h # fl)"
    by (rule dn_list.push [OF Suc.prems(1)]) (use a nofl Suc.prems(4) in simp_all)
  moreover have "?u[a := ?c, 0 := ipr_next_update (\<lambda>_. ?h) (?u ! 0)] = ?t[0 := ipr_next_update (\<lambda>_. ?h) (?t ! 0)]"
    using Suc.prems(6) a(2) by (simp add: list_update_swap [of a 0])
  ultimately have ok: "dn_list.fl_ok (?t[0 := ipr_next_update (\<lambda>_. ?h) (?t ! 0)]) (a # fl)" by (simp only: a(3))
  have "\<exists>t' h'. ipc_port_dngrow_free [Suc a..<b] ?t ?h = Some (t', h') \<and> length t' = length ?t \<and>
      (\<forall>i. i < Suc a \<longrightarrow> t' ! i = ?t ! i) \<and> (\<forall>i. Suc a \<le> i \<longrightarrow> i < b \<longrightarrow> ipr_name (t' ! i) = MACH_PORT_NULL) \<and>
      dn_list.fl_ok (t'[0 := ipr_next_update (\<lambda>_. h') (t' ! 0)]) (rev [Suc a..<b] @ (a # fl))"
    by (rule Suc.IH [OF ok]) (use Suc.prems a in \<open>auto simp: less_Suc_eq\<close>)
  then obtain t' h' where t': "ipc_port_dngrow_free [Suc a..<b] ?t ?h = Some (t', h')" "length t' = length t"
    "\<forall>i. i < Suc a \<longrightarrow> t' ! i = ?t ! i" "\<forall>i. Suc a \<le> i \<longrightarrow> i < b \<longrightarrow> ipr_name (t' ! i) = MACH_PORT_NULL"
    "dn_list.fl_ok (t'[0 := ipr_next_update (\<lambda>_. h') (t' ! 0)]) (rev [Suc a..<b] @ (a # fl))" by auto
  have "[a..<b] = a # [Suc a..<b]" using a(1) by (rule upt_conv_Cons)
  moreover have "ipr_name (t' ! i) = MACH_PORT_NULL" if "a \<le> i" "i < b" for i
  proof (cases "i = a")
    case True
    then show ?thesis using t'(3) Suc.prems(4) a(1) by simp
  next
    case False
    then show ?thesis using t'(4) that by auto
  qed
  ultimately show ?case using t' a(1) Suc.prems(4) by (auto simp: nth_list_update)
qed

lemma kalloc_put_port: "kalloc (put_port a x s) = (fst (kalloc s), put_port a x (snd (kalloc s)))"
  by (simp add: kalloc_def put_port_def split: list.split)

lemma kalloc_ports [simp]: "ks_ports (snd (kalloc s)) = ks_ports s"
  by (simp add: kalloc_def split: list.split)

lemma reference_release:
  assumes "io_references p < IO_MAX_REFERENCES"
  shows "0 < io_references p + 1" and "io_references p + 1 \<le> IO_MAX_REFERENCES"
proof -
  have "unat (io_references p) < 0x7fffffff" using assms by (simp add: IO_MAX_REFERENCES_eq word_less_nat_alt)
  then have "unat (io_references p + 1) = unat (io_references p) + 1" by (simp add: unat_word_ariths)
  with assms show "0 < io_references p + 1" "io_references p + 1 \<le> IO_MAX_REFERENCES"
    by (simp_all add: IO_MAX_REFERENCES_eq word_less_nat_alt word_le_nat_alt)
qed

text \<open>The growth of an existing table to the next size.\<close>

lemma dngrow_to_spec:
  assumes p: "ks_ports s port = Some p" "io_active p" "io_references p < IO_MAX_REFERENCES"
    and t: "ip_dnrequests p = Some t" "dn_table_ok t fl" "length t < nsize" "nsize < 2 ^ 32"
    and mem: "fst (kalloc s) \<noteq> 0"
  shows "\<exists>t'. ipc_port_dngrow_to port (Some oits) (length t) (ipr_next (t ! 0)) (oits + 1) nsize s =
             Some (KERN_SUCCESS, put_port port (p\<lparr>ip_dnrequests := Some t'\<rparr>) (snd (kalloc s))) \<and>
           length t' = nsize \<and> ipr_size (t' ! 0) = of_nat (oits + 1) \<and>
           dn_requests t' = dn_requests t \<and> dn_table_ok t' (rev [length t..<nsize] @ fl)"
proof -
  let ?blank = "\<lparr>ipr_soright = 0, ipr_name = 0\<rparr>"
  let ?u = "?blank # tl t @ replicate (nsize - length t) ?blank"
  have fl: "dn_list.fl_ok t fl" and full: "\<And>i. 0 < i \<Longrightarrow> i < length t \<Longrightarrow> ipr_name (t ! i) = MACH_PORT_NULL \<Longrightarrow> i \<in> set fl"
    using t(2) by (simp_all add: dn_table_ok_def dn_list.fl_full_def)
  have z: "0 < length t" using fl by (simp add: dn_list.fl_ok_def)
  have lu: "length ?u = nsize" using z t(3) by (cases t) simp_all
  have uj: "?u ! j = t ! j" if "0 < j" "j < length t" for j
    using that by (cases j) (simp_all add: nth_append nth_tl)
  have inner: "\<forall>i \<in> set fl. i < length t" using fl by (simp add: dn_list.fl_ok_def)
  have flu: "dn_list.fl_ok (?u[0 := ipr_next_update (\<lambda>_. ipr_next (t ! 0)) (?u ! 0)]) fl"
  proof -
    have j0: "0 < j" if "j \<in> set fl" for j using that dn_list.fl_ok_zero [OF fl] by (auto intro: gr0I)
    have "?u ! j = t ! j" if "j \<in> set fl" for j using uj [OF j0 [OF that]] inner that by blast
    then have "chain (\<lambda>j. ipr_next (?u ! j)) (ipr_next (t ! 0)) fl \<longleftrightarrow> chain (\<lambda>j. ipr_next (t ! j)) (ipr_next (t ! 0)) fl"
      by (intro chain_cong) simp
    moreover have "i < length ?u \<and> ipr_name (?u ! i) = MACH_PORT_NULL" if "i \<in> set fl" for i
      using fl that uj [OF j0 [OF that]] inner t(3) lu by (auto simp: dn_list.fl_ok_def)
    ultimately show ?thesis
      by (intro dn_list.set_head) (use fl in \<open>auto simp: dn_list.fl_ok_def\<close>)
  qed
  have "\<exists>t' h'. ipc_port_dngrow_free [length t..<nsize] ?u (ipr_next (t ! 0)) = Some (t', h') \<and> length t' = length ?u \<and>
      (\<forall>i. i < length t \<longrightarrow> t' ! i = ?u ! i) \<and> (\<forall>i. length t \<le> i \<longrightarrow> i < nsize \<longrightarrow> ipr_name (t' ! i) = MACH_PORT_NULL) \<and>
      dn_list.fl_ok (t'[0 := ipr_next_update (\<lambda>_. h') (t' ! 0)]) (rev [length t..<nsize] @ fl)"
    by (rule dngrow_free_spec [OF flu refl]) (use t(3,4) z lu inner in auto)
  then obtain v h where v: "ipc_port_dngrow_free [length t..<nsize] ?u (ipr_next (t ! 0)) = Some (v, h)" "length v = nsize"
    "\<forall>i. i < length t \<longrightarrow> v ! i = ?u ! i" "\<forall>i. length t \<le> i \<longrightarrow> i < nsize \<longrightarrow> ipr_name (v ! i) = MACH_PORT_NULL"
    "dn_list.fl_ok (v[0 := ipr_next_update (\<lambda>_. h) (v ! 0)]) (rev [length t..<nsize] @ fl)"
    unfolding lu by blast
  let ?t' = "v[0 := \<lparr>ipr_soright = h, ipr_name = of_nat (oits + 1)\<rparr>]"
  have run: "ipc_port_dngrow_to port (Some oits) (length t) (ipr_next (t ! 0)) (oits + 1) nsize s =
      Some (KERN_SUCCESS, put_port port (p\<lparr>ip_dnrequests := Some ?t'\<rparr>) (snd (kalloc s)))"
    using p t(1,3) mem z v(1,2) reference_release [OF p(3)]
    by (simp add: ipc_port_dngrow_to_def ip_reference_def io_reference_def ip_release_def io_release_def
        kalloc_put_port Let_def)
  have tj: "?t' ! j = v ! j" if "0 < j" for j using that by simp
  have vj: "v ! j = t ! j" if "0 < j" "j < length t" for j using that v(3) uj by simp
  have "dn_requests ?t' = dn_requests t"
  proof
    fix j
    show "dn_requests ?t' j = dn_requests t j"
      using v(2,4) t(3) vj [of j] by (cases "0 < j"; cases "j < length t") (simp_all add: dn_requests_def tj)
  qed
  moreover have "dn_list.fl_ok ?t' (rev [length t..<nsize] @ fl)"
    using dn_list.replace_head [OF v(5), of "\<lparr>ipr_soright = h, ipr_name = of_nat (oits + 1)\<rparr>"] v(2) t(3) by simp
  moreover have "i \<in> set (rev [length t..<nsize] @ fl)"
    if "0 < i" "i < nsize" "ipr_name (?t' ! i) = MACH_PORT_NULL" for i
    using that full [of i] vj by (cases "i < length t") (simp_all add: tj)
  ultimately show ?thesis
    using run v(2) t(3,4) by (intro exI [of _ ?t']) (auto simp: dn_table_ok_def dn_list.fl_full_def)
qed

section \<open>Chains of ports in transit\<close>

text \<open>The receive right of a port in transit is inside a message in the queue of its destination.
  \<open>transit_path s a path base\<close>: from \<open>a\<close> the destinations lead through \<open>path\<close>, all in transit, to
  \<open>base\<close>, which is not.\<close>

inductive transit_path :: "kernel \<Rightarrow> ipc_port_t \<Rightarrow> ipc_port_t list \<Rightarrow> ipc_port_t \<Rightarrow> bool" for s where
  transit_base: "ks_ports s a = Some p \<Longrightarrow> \<not> in_transit p \<Longrightarrow> transit_path s a [] a"
| transit_step: "ks_ports s a = Some p \<Longrightarrow> in_transit p \<Longrightarrow> transit_path s (ip_destination p) path base \<Longrightarrow>
    transit_path s a (a # path) base"

inductive_cases transit_step_cases: "transit_path s a path base"

text \<open>No port is in transit to itself, through any number of messages.\<close>

definition transit_ok :: "kernel \<Rightarrow> bool" where
  "transit_ok s \<longleftrightarrow> (\<forall>a p. ks_ports s a = Some p \<longrightarrow> (\<exists>path base. transit_path s a path base))"

lemma transit_path_base: "transit_path s a path base \<Longrightarrow> \<exists>b. ks_ports s base = Some b \<and> \<not> in_transit b"
  by (induction rule: transit_path.induct) auto

lemma transit_path_mem: "transit_path s a path base \<Longrightarrow> x \<in> set path \<Longrightarrow> \<exists>p. ks_ports s x = Some p \<and> in_transit p"
  by (induction rule: transit_path.induct) auto

lemma chain_end_path: "transit_path s a path base \<Longrightarrow> ipc_port_chain_end s a = Some base"
  by (induction rule: transit_path.induct) (subst ipc_port_chain_end.simps, simp)+

lemma unlock_chain_path: "transit_path s a path base \<Longrightarrow> ipc_port_unlock_chain s a base = Some ()"
proof (induction rule: transit_path.induct)
  case (transit_base a p)
  then show ?case by (subst ipc_port_unlock_chain.simps) simp
next
  case (transit_step a p path base)
  then have "a \<noteq> base" using transit_path_base by fastforce
  with transit_step show ?case by (subst ipc_port_unlock_chain.simps) simp
qed

lemma unlock_circle_path:
  assumes "transit_path s a path base" and "ks_ports s base = Some b" and "io_active b"
    and "io_receiver_name b = MACH_PORT_NULL" and "ip_destination b = IP_NULL"
  shows "ipc_port_unlock_circle s a = Some ()"
  using assms
proof (induction rule: transit_path.induct)
  case (transit_base a p)
  have "ipc_port_unlock_circle s IP_NULL = Some ()" by (subst ipc_port_unlock_circle.simps) simp
  with transit_base show ?case by (subst ipc_port_unlock_circle.simps) simp
next
  case (transit_step a p path base)
  then show ?case by (subst ipc_port_unlock_circle.simps) (simp add: in_transit_def)
qed

text \<open>A port that is not in transit is put in transit to \<open>dest\<close>.\<close>

lemma transit_path_extend:
  assumes path: "transit_path s a path base" and dest: "transit_path s' dest dpath dbase"
    and port: "ks_ports s port = Some p" "\<not> in_transit p"
    and port': "ks_ports s' port = Some p'" "in_transit p'" "ip_destination p' = dest"
    and same: "\<And>x q. x \<noteq> port \<Longrightarrow> ks_ports s x = Some q \<Longrightarrow>
      \<exists>q'. ks_ports s' x = Some q' \<and> in_transit q' = in_transit q \<and> ip_destination q' = ip_destination q"
  shows "\<exists>path' base'. transit_path s' a path' base'"
  using path
proof (induction rule: transit_path.induct)
  case (transit_base a q)
  show ?case
  proof (cases "a = port")
    case True
    with port' dest show ?thesis using transit_path.transit_step [OF port'(1,2)] by auto
  next
    case False
    with same [OF False transit_base(1)] transit_base(2) show ?thesis using transit_path.transit_base by fastforce
  qed
next
  case (transit_step a q path base)
  then have "a \<noteq> port" using port by auto
  with same [OF this transit_step(1)] transit_step show ?case
    using transit_path.transit_step by metis
qed

lemma transit_path_same:
  assumes "transit_path s a path base" and "port \<notin> set (base # path)"
    and same: "\<And>x q. x \<noteq> port \<Longrightarrow> ks_ports s x = Some q \<Longrightarrow>
      \<exists>q'. ks_ports s' x = Some q' \<and> in_transit q' = in_transit q \<and> ip_destination q' = ip_destination q"
  shows "transit_path s' a path base"
  using assms(1,2)
proof (induction rule: transit_path.induct)
  case (transit_base a p)
  with same [of a p] show ?case using transit_path.transit_base by fastforce
next
  case (transit_step a p path base)
  then obtain q' where "ks_ports s' a = Some q'" "in_transit q'" "ip_destination q' = ip_destination p"
    using same [of a p] by auto
  with transit_step show ?case by (auto intro: transit_path.transit_step)
qed

lemma check_circularity_spec:
  assumes ok: "transit_ok s" and port: "ks_ports s port = Some p" "port \<noteq> IP_NULL" "io_active p"
      "io_receiver_name p = MACH_PORT_NULL" "ip_destination p = IP_NULL"
    and dest: "ks_ports s dest = Some d" "dest \<noteq> IP_NULL" "io_references d < IO_MAX_REFERENCES"
  shows "\<exists>path base. transit_path s dest path base \<and>
    (if base = port then ipc_port_check_circularity port dest s = Some (True, s)
     else \<exists>s'. ipc_port_check_circularity port dest s = Some (False, s') \<and> transit_ok s' \<and>
       ks_ports s' port = Some (p\<lparr>ip_destination := dest\<rparr>) \<and>
       ks_ports s' dest = Some (d\<lparr>io_references := io_references d + 1\<rparr>) \<and>
       transit_path s' port (port # path) base)"
proof -
  obtain path base where path: "transit_path s dest path base" using ok dest(1) by (auto simp: transit_ok_def)
  obtain b where b: "ks_ports s base = Some b" "\<not> in_transit b" using transit_path_base [OF path] by blast
  have np: "\<not> in_transit p" using port by (simp add: in_transit_def)
  have start: "(if \<not> in_transit d then Some dest else ipc_port_chain_end s dest) = Some base"
  proof (cases "in_transit d")
    case True
    then show ?thesis using chain_end_path [OF path] by simp
  next
    case False
    with path dest(1) show ?thesis by (auto elim: transit_step_cases)
  qed
  show ?thesis
  proof (cases "base = port")
    case True
    then have "ipc_port_check_circularity port dest s = Some (True, s)"
      using port dest start unlock_circle_path [OF path] np by (simp add: ipc_port_check_circularity_def)
    with True path show ?thesis by auto
  next
    case False
    have "port \<noteq> dest"
    proof
      assume "port = dest"
      with path port(1) np False show False by (auto elim: transit_step_cases)
    qed
    let ?d = "d\<lparr>io_references := io_references d + 1\<rparr>" let ?p = "p\<lparr>ip_destination := dest\<rparr>"
    let ?s = "put_port port ?p (put_port dest ?d s)"
    have same: "\<exists>q'. ks_ports ?s x = Some q' \<and> in_transit q' = in_transit q \<and> ip_destination q' = ip_destination q"
      if "x \<noteq> port" "ks_ports s x = Some q" for x q
      using that dest(1) by (cases "x = dest") (auto simp: put_port_def in_transit_def io_active_def)
    have "port \<notin> set path" using transit_path_mem [OF path] port(1) np by fastforce
    with False have path': "transit_path ?s dest path base"
      by (intro transit_path_same [OF path _ same]) auto
    have p': "ks_ports ?s port = Some ?p" "in_transit ?p"
      using port dest(2) by (simp_all add: in_transit_def io_active_def)
    have new: "transit_path ?s port (port # path) base"
      using transit_path.transit_step [OF p'] path' by simp
    obtain b' where b': "ks_ports ?s base = Some b'" "\<not> in_transit b'" using transit_path_base [OF new] by blast
    have "ipc_port_check_circularity port dest s = Some (False, ?s)"
      using port dest start \<open>port \<noteq> dest\<close> False unlock_chain_path [OF new] b'
      by (simp add: ipc_port_check_circularity_def ip_reference_def io_reference_def upd_port_def put_port_def [of dest])
    moreover have "transit_ok ?s"
      unfolding transit_ok_def
    proof (intro allI impI)
      fix a q assume "ks_ports ?s a = Some q"
      then have "\<exists>q. ks_ports s a = Some q" using port dest by (auto simp: put_port_def split: if_splits)
      then obtain pa ba where "transit_path s a pa ba" using ok by (auto simp: transit_ok_def)
      from transit_path_extend [OF this path' port(1) np p'] same
      show "\<exists>path base. transit_path ?s a path base" by simp
    qed
    moreover have "ks_ports ?s dest = Some ?d" using \<open>port \<noteq> dest\<close> by (simp add: put_port_def)
    ultimately show ?thesis using False path new p'(1) by auto
  qed
qed

section \<open>The death of a port\<close>

text \<open>The requests that a table holds, in the order of the elements.\<close>

definition dn_pending :: "ipc_port_request list \<Rightarrow> ipc_event list" where
  "dn_pending rs = map (\<lambda>r. Sent_dead_name (ipr_soright r) (ipr_name r)) (filter (\<lambda>r. ipr_name r \<noteq> MACH_PORT_NULL) rs)"

definition memory_left :: "nat \<Rightarrow> kernel \<Rightarrow> bool" where
  "memory_left n s \<longleftrightarrow> n \<le> length (ks_free_memory s) \<and> 0 \<notin> set (ks_free_memory s)"

lemma notify_send_ok:
  assumes "memory_left (Suc n) s"
  obtains s' where "ipc_notify_send port event s = Some s'" and "memory_left n s'"
    and "ks_events s' = ks_events s @ [event]" and "ks_ports s' = ks_ports s" and "ks_table_dnrequests s' = ks_table_dnrequests s"
    and "ks_timestamp s' = ks_timestamp s"
proof -
  obtain a as where m: "ks_free_memory s = a # as" "a \<noteq> 0"
    using assms by (cases "ks_free_memory s") (auto simp: memory_left_def)
  show ?thesis
    by (rule that [of "log_event event (s\<lparr>ks_free_memory := as\<rparr>)"])
      (use assms m in \<open>simp_all add: ipc_notify_send_def kalloc_def log_event_def memory_left_def\<close>)
qed

lemma dnnotify_from_spec:
  assumes "\<forall>r \<in> set rs. ipr_name r \<noteq> MACH_PORT_NULL \<longrightarrow> ipr_soright r \<noteq> IP_NULL"
    and "memory_left (length (dn_pending rs) + n) s"
  shows "\<exists>s'. ipc_port_dnnotify_from rs s = Some s' \<and> memory_left n s' \<and>
           ks_events s' = ks_events s @ dn_pending rs \<and> ks_ports s' = ks_ports s"
  using assms
proof (induction rs arbitrary: s)
  case Nil
  then show ?case by (simp add: dn_pending_def)
next
  case (Cons r rs)
  show ?case
  proof (cases "ipr_name r = MACH_PORT_NULL")
    case True
    with Cons.IH [of s] Cons.prems show ?thesis by (simp add: dn_pending_def)
  next
    case False
    let ?e = "Sent_dead_name (ipr_soright r) (ipr_name r)"
    have "memory_left (Suc (length (dn_pending rs) + n)) s" using Cons.prems(2) False by (simp add: dn_pending_def)
    then obtain s1 where s1: "ipc_notify_send (ipr_soright r) ?e s = Some s1"
      "memory_left (length (dn_pending rs) + n) s1" "ks_events s1 = ks_events s @ [?e]" "ks_ports s1 = ks_ports s"
      by (rule notify_send_ok)
    have "\<exists>s2. ipc_port_dnnotify_from rs s1 = Some s2 \<and> memory_left n s2 \<and>
        ks_events s2 = ks_events s1 @ dn_pending rs \<and> ks_ports s2 = ks_ports s1"
      by (rule Cons.IH) (use Cons.prems(1) s1(2) in auto)
    with s1 False Cons.prems(1) show ?thesis by (simp add: ipc_notify_dead_name_def dn_pending_def)
  qed
qed

lemma port_release_spec:
  assumes "ks_ports s port = Some p" and "0 < io_references p" and "io_references p \<le> IO_MAX_REFERENCES"
  obtains s' where "ipc_port_release port s = Some s'" and "ks_events s' = ks_events s"
    and "ks_ports s' = (ks_ports s)(port := (if io_references p = 1 then None
           else Some (p\<lparr>io_references := io_references p - 1\<rparr>)))"
proof -
  have one: "io_references p - 1 = 0 \<longleftrightarrow> io_references p = 1" by (metis diff_eq_eq add_0)
  let ?s = "put_port port (p\<lparr>io_references := io_references p - 1\<rparr>) s"
  show ?thesis
  proof (cases "io_references p = 1")
    case True
    with assms show ?thesis
      by (intro that [of "?s\<lparr>ks_ports := (ks_ports ?s)(port := None)\<rparr>"])
        (simp_all add: ipc_port_release_def ip_release_def io_release_def ip_check_unlock_def put_port_def)
  next
    case False
    with assms one show ?thesis
      by (intro that [of ?s])
        (simp_all add: ipc_port_release_def ip_release_def io_release_def ip_check_unlock_def put_port_def)
  qed
qed

text \<open>Killing a port that nobody wants back.\<close>

lemma port_kill_spec:
  assumes p: "ks_ports s port = Some p" "0 < io_references p" "io_references p \<le> IO_MAX_REFERENCES"
    and t: "ip_dnrequests p = Some t" "t \<noteq> []"
      "array_get (ks_table_dnrequests s) (unat (ipr_size (t ! 0))) = Some (length t)"
      "\<forall>r \<in> set (tl t). ipr_name r \<noteq> MACH_PORT_NULL \<longrightarrow> ipr_soright r \<noteq> IP_NULL"
    and mem: "memory_left (length (dn_pending (tl t)) + 1) s"
  defines "dead \<equiv> p\<lparr>io_bits := bits_clear (io_bits p) IO_BITS_ACTIVE, ip_timestamp := ks_timestamp s,
    ip_dnrequests := None, io_references := io_references p - 1\<rparr>"
  shows "\<exists>s'. ipc_port_kill port s = Some s' \<and>
    ks_ports s' = (ks_ports s)(port := if io_references p = 1 then None else Some dead) \<and>
    ks_events s' = ks_events s @ [Thread_pool_wakeup port] @
      (if ip_nsrequest p \<noteq> IP_NULL then [Sent_send_once (ip_nsrequest p)] else []) @
      [Mqueue_destroyed port] @ dn_pending (tl t) @ [Kobject_destroyed port] @
      (if ip_subsystem p \<noteq> 0 then [Subsystem_deallocated (ip_kobject p)] else [])"
proof -
  let ?n = "length (dn_pending (tl t))"
  let ?p1 = "p\<lparr>io_bits := bits_clear (io_bits p) IO_BITS_ACTIVE, ip_timestamp := ks_timestamp s, ip_dnrequests := None\<rparr>"
  let ?s1 = "log_event (Thread_pool_wakeup port) (put_port port ?p1 (s\<lparr>ks_timestamp := ks_timestamp s + 1\<rparr>))"
  have ml: "memory_left k (log_event e s) = memory_left k s" for k e s by (simp add: memory_left_def log_event_def)
  have m1: "memory_left (Suc ?n) ?s1" using mem by (simp add: memory_left_def log_event_def)
  obtain s2 where s2: "(if ip_nsrequest p \<noteq> IP_NULL then ipc_notify_send_once (ip_nsrequest p) ?s1 else Some ?s1) = Some s2"
    "memory_left ?n s2" "ks_ports s2 = ks_ports ?s1" "ks_table_dnrequests s2 = ks_table_dnrequests s"
    "ks_events s2 = ks_events ?s1 @ (if ip_nsrequest p \<noteq> IP_NULL then [Sent_send_once (ip_nsrequest p)] else [])"
  proof (cases "ip_nsrequest p = IP_NULL")
    case True
    have "memory_left ?n ?s1" using m1 by (simp add: memory_left_def)
    with True show ?thesis by (intro that [of ?s1]) (simp_all add: log_event_def)
  next
    case False
    obtain s2 where "ipc_notify_send (ip_nsrequest p) (Sent_send_once (ip_nsrequest p)) ?s1 = Some s2"
      "memory_left ?n s2" "ks_events s2 = ks_events ?s1 @ [Sent_send_once (ip_nsrequest p)]"
      "ks_ports s2 = ks_ports ?s1" "ks_table_dnrequests s2 = ks_table_dnrequests ?s1"
      using notify_send_ok [OF m1] by metis
    with False show ?thesis
      by (intro that [of s2]) (simp_all add: ipc_notify_send_once_def log_event_def)
  qed
  let ?s3 = "log_event (Mqueue_destroyed port) s2"
  obtain s4 where s4: "ipc_port_dnnotify_from (tl t) ?s3 = Some s4" "ks_events s4 = ks_events ?s3 @ dn_pending (tl t)"
    "ks_ports s4 = ks_ports ?s3"
    using dnnotify_from_spec [OF t(4), of 0 ?s3] s2(2) ml by auto
  have dn: "ipc_port_dnnotify t ?s3 = Some s4"
    using t(2,3) s2(4) s4(1) by (simp add: ipc_port_dnnotify_def log_event_def)
  let ?s5 = "log_event (Kobject_destroyed port) s4"
  let ?s6 = "if ip_subsystem p \<noteq> 0 then log_event (Subsystem_deallocated (ip_kobject p)) ?s5 else ?s5"
  have p6: "ks_ports ?s6 = (ks_ports s)(port \<mapsto> ?p1)"
    using s2(3) s4(3) by (auto simp: log_event_def put_port_def)
  obtain s7 where s7: "ipc_port_release port ?s6 = Some s7" "ks_events s7 = ks_events ?s6"
    "ks_ports s7 = (ks_ports ?s6)(port := (if io_references ?p1 = 1 then None
           else Some (?p1\<lparr>io_references := io_references ?p1 - 1\<rparr>)))"
    by (rule port_release_spec [of ?s6 port ?p1]) (use p6 p in auto)
  have run: "ipc_port_kill port s = Some s7"
    using p(1) t(1) s2(1) dn s7(1) by (simp add: ipc_port_kill_def ipc_port_timestamp_def Let_def)
  have ev: "ks_events s7 = ks_events s @ [Thread_pool_wakeup port] @
      (if ip_nsrequest p \<noteq> IP_NULL then [Sent_send_once (ip_nsrequest p)] else []) @
      [Mqueue_destroyed port] @ dn_pending (tl t) @ [Kobject_destroyed port] @
      (if ip_subsystem p \<noteq> 0 then [Subsystem_deallocated (ip_kobject p)] else [])"
    using s7(2) s4(2) s2(5) by (simp add: log_event_def)
  have "ks_ports s7 = (ks_ports s)(port := if io_references p = 1 then None else Some dead)"
    unfolding s7(3) p6 by (simp add: dead_def)
  with run ev show ?thesis by blast
qed

section \<open>Naked send rights\<close>

lemma release_send_active:
  assumes p: "ks_ports s port = Some p" "IP_VALID port" "io_active p" "0 < io_references p"
      "io_references p \<le> IO_MAX_REFERENCES" "0 < ip_srights p"
    and mem: "ip_srights p = 1 \<Longrightarrow> ip_nsrequest p \<noteq> IP_NULL \<Longrightarrow> memory_left 1 s"
  shows "\<exists>s'. ipc_port_release_send port s = Some s' \<and>
    ks_ports s' = (ks_ports s)(port \<mapsto> p\<lparr>io_references := io_references p - 1, ip_srights := ip_srights p - 1,
      ip_nsrequest := if ip_srights p = 1 then IP_NULL else ip_nsrequest p\<rparr>) \<and>
    ks_events s' = ks_events s @
      (if ip_srights p = 1 \<and> ip_nsrequest p \<noteq> IP_NULL then [Sent_no_senders (ip_nsrequest p) (ip_mscount p)] else [])"
proof -
  have one: "ip_srights p - 1 = 0 \<longleftrightarrow> ip_srights p = 1" by (metis diff_eq_eq add_0)
  let ?p1 = "p\<lparr>io_references := io_references p - 1\<rparr>"
  let ?p2 = "p\<lparr>io_references := io_references p - 1, ip_srights := ip_srights p - 1\<rparr>"
  have run: "ipc_port_release_send port s = ipc_port_drop_send port (put_port port ?p1 s)"
    using p by (simp add: ipc_port_release_send_def ip_release_def io_release_def io_active_def)
  show ?thesis
  proof (cases "ip_srights p = 1 \<and> ip_nsrequest p \<noteq> IP_NULL")
    case True
    have "memory_left (Suc 0) (put_port port (?p2\<lparr>ip_nsrequest := IP_NULL\<rparr>) s)"
      using mem True by (simp add: memory_left_def)
    then obtain s' where "ipc_notify_send (ip_nsrequest p) (Sent_no_senders (ip_nsrequest p) (ip_mscount p))
        (put_port port (?p2\<lparr>ip_nsrequest := IP_NULL\<rparr>) s) = Some s'"
      "ks_events s' = ks_events s @ [Sent_no_senders (ip_nsrequest p) (ip_mscount p)]"
      "ks_ports s' = ks_ports (put_port port (?p2\<lparr>ip_nsrequest := IP_NULL\<rparr>) s)"
      by (rule notify_send_ok) simp
    with True p(6) run one show ?thesis
      by (simp add: ipc_port_drop_send_def ipc_notify_no_senders_def Let_def) (simp add: put_port_def)
  next
    case False
    have "(if ip_srights p = 1 then IP_NULL else ip_nsrequest p) = ip_nsrequest p" using False by auto
    moreover have "?p2\<lparr>ip_nsrequest := ip_nsrequest p\<rparr> = ?p2" by (rule ipc_port.equality) simp_all
    ultimately show ?thesis
      using False p(6) run one by (auto simp: ipc_port_drop_send_def Let_def) (auto simp: put_port_def)
  qed
qed

lemma srights_inc: "unat (w :: u32) + 1 < 2 ^ 32 \<Longrightarrow> 0 < w + 1 \<and> (w + 1 = 1 \<longleftrightarrow> w = 0)"
  by (auto simp: word_less_nat_alt unat_word_ariths)

section \<open>Properties\<close>

text \<open>A kernel with four ports: 0x100 has a table of dead-name requests with one request and two
  free elements, 0x200 is in transit to 0x300, 0x400 is about to be sent.\<close>

definition dn_sample :: "ipc_port_request list" where
  "dn_sample = [\<lparr>ipr_soright = 2, ipr_name = 1\<rparr>, \<lparr>ipr_soright = 0x700, ipr_name = 0x10b\<rparr>,
     \<lparr>ipr_soright = 3, ipr_name = 0\<rparr>, \<lparr>ipr_soright = 0, ipr_name = 0\<rparr>]"

definition port_sample :: ipc_port where
  "port_sample = \<lparr>io_references = 3, io_bits = 0x80000000, io_receiver_name = 0x20f, ip_data = 0x3000,
     ip_kobject = 0, ip_subsystem = 0, ip_mscount = 0, ip_srights = 1, ip_sorights = 0, ip_nsrequest = 0x800,
     ip_pdrequest = 0, ip_dnrequests = Some dn_sample, ip_pset_count = 0, ip_messages = ipc_mqueue_init, ip_flags = 0\<rparr>"

definition port_kernel :: kernel where
  "port_kernel = \<lparr>ks_spaces = Map.empty,
     ks_ports = [0x100 \<mapsto> port_sample,
                 0x200 \<mapsto> port_sample\<lparr>io_receiver_name := 0, ip_data := 0x300\<rparr>,
                 0x300 \<mapsto> port_sample,
                 0x400 \<mapsto> port_sample\<lparr>io_receiver_name := 0, ip_data := 0\<rparr>],
     ks_psets = Map.empty, ks_hash = (\<lambda>_. []), ks_hash_mask = 0xff, ks_timestamp = 7, ks_table_entries = [4, 8, 16],
     ks_table_dnrequests = [2, 4, 8, 16, 0], ks_free_memory = [0x5000, 0x6000, 0x7000], ks_events = []\<rparr>"

lemma port_kernel_port: "ks_ports port_kernel 0x100 = Some port_sample"
  by (simp add: port_kernel_def)

lemma port_kernel_sizes: "array_get (ks_table_dnrequests port_kernel) (Suc 0) = Some 4"
  "array_get (ks_table_dnrequests port_kernel) (Suc (Suc 0)) = Some 8"
  "array_get (ks_table_dnrequests port_kernel) (Suc (Suc (Suc 0))) = Some 16"
  by (simp_all add: port_kernel_def array_get_def)

lemma port_sample_fields: "io_active port_sample" "ip_dnrequests port_sample = Some dn_sample"
  "io_references port_sample = 3" "ip_srights port_sample = 1" "ip_nsrequest port_sample = 0x800"
  by (simp_all add: port_sample_def io_active_def)

lemma dn_sample_ok: "dn_table_ok dn_sample [2, 3]"
  unfolding dn_table_ok_def dn_list.fl_full_def dn_list.fl_ok_def
  by (auto simp: dn_sample_def less_4 less_Suc_eq_0_disj)

text \<open>Dead-name requests. As long as an element is free, \<open>ipc_port_dnrequest\<close> records the request
  under the index it returns and changes no other request; \<open>ipc_port_dncancel\<close> with this index
  returns the send-once right of the request, and the table holds what it held before.\<close>

theorem dnrequest_cancel:
  assumes "ks_ports s port = Some p" and "io_active p" and "ip_dnrequests p = Some t" and "dn_table_ok t (i # fl)"
    and "name \<noteq> MACH_PORT_NULL" and "soright \<noteq> IP_NULL"
  shows "\<exists>t1 t2. let s1 = put_port port (p\<lparr>ip_dnrequests := Some t1\<rparr>) s in
    ipc_port_dnrequest port name soright s = Some (Inr (of_nat i), s1) \<and>
    dn_requests t1 = (dn_requests t)(i \<mapsto> (name, soright)) \<and> dn_table_ok t1 fl \<and> dn_requests t i = None \<and>
    ipc_port_dncancel port name (of_nat i) s1 = Some (soright, put_port port (p\<lparr>ip_dnrequests := Some t2\<rparr>) s) \<and>
    dn_requests t2 = dn_requests t \<and> dn_table_ok t2 (i # fl)"
proof -
  note d = dn_first [OF assms(4)]
  let ?t1 = "t[0 := ipr_next_update (\<lambda>_. ipr_next (t ! i)) (t ! 0), i := (t ! i)\<lparr>ipr_soright := soright, ipr_name := name\<rparr>]"
  let ?p1 = "p\<lparr>ip_dnrequests := Some ?t1\<rparr>" let ?s1 = "put_port port ?p1 s"
  note r = dnrequest_spec [OF assms]
  have p1: "ks_ports ?s1 port = Some ?p1" "io_active ?p1" "ip_dnrequests ?p1 = Some ?t1"
    using assms(2) by (simp_all add: io_active_def)
  have q: "dn_requests ?t1 (unat (of_nat i :: u32)) = Some (name, soright)" using r(2) d(5) by simp
  note c = dncancel_spec [OF p1 r(3) q]
  have free: "dn_requests t i = None" using d(3) by (simp add: dn_requests_def)
  then have "(dn_requests ?t1)(i := None) = dn_requests t" using r(2) by (auto simp: fun_eq_iff)
  with r c d(5) free show ?thesis by (auto simp: Let_def)
qed

lemma dnrequest_cancel_witness:
  "\<exists>s1 s2. ipc_port_dnrequest 0x100 0x30b 0x900 port_kernel = Some (Inr 2, s1) \<and>
     ipc_port_dncancel 0x100 0x30b 2 s1 = Some (0x900, s2)"
  using dnrequest_cancel [OF port_kernel_port port_sample_fields(1,2) dn_sample_ok, of "0x30b" "0x900"]
  by (auto simp: Let_def)

text \<open>Growth. When the table of requests is full, \<open>ipc_port_dngrow\<close> moves to the next size of
  \<open>ipc_table_dnrequests\<close>: no request is lost or moved, every new element is free, and the head
  records the new size.\<close>

theorem dngrow_keeps_requests:
  assumes "ks_ports s port = Some p" and "io_active p" and "io_references p < IO_MAX_REFERENCES"
    and "ip_dnrequests p = Some t" and "dn_table_ok t fl"
    and "array_get (ks_table_dnrequests s) (unat (ipr_size (t ! 0))) = Some (length t)"
    and "array_get (ks_table_dnrequests s) (unat (ipr_size (t ! 0)) + 1) = Some nsize"
    and "length t < nsize" and "nsize < 2 ^ 32" and "fst (kalloc s) \<noteq> 0"
  shows "\<exists>t'. ipc_port_dngrow port None s =
      Some (KERN_SUCCESS, put_port port (p\<lparr>ip_dnrequests := Some t'\<rparr>) (snd (kalloc s))) \<and>
    length t' = nsize \<and> ipr_size (t' ! 0) = of_nat (unat (ipr_size (t ! 0)) + 1) \<and>
    dn_requests t' = dn_requests t \<and> dn_table_ok t' (rev [length t..<nsize] @ fl)"
proof -
  have "0 < length t" using assms(5) by (simp add: dn_table_ok_def dn_list.fl_full_def dn_list.fl_ok_def)
  then have "ipc_port_dngrow port None s =
      ipc_port_dngrow_to port (Some (unat (ipr_size (t ! 0)))) (length t) (ipr_next (t ! 0)) (unat (ipr_size (t ! 0)) + 1) nsize s"
    using assms by (simp add: ipc_port_dngrow_def Let_def)
  then show ?thesis using dngrow_to_spec [OF assms(1,2,3,4,5,8,9,10), of "unat (ipr_size (t ! 0))"] by (simp only:)
qed

lemma dngrow_keeps_requests_witness:
  "\<exists>t'. ipc_port_dngrow 0x100 None port_kernel =
     Some (KERN_SUCCESS, put_port 0x100 (port_sample\<lparr>ip_dnrequests := Some t'\<rparr>) (snd (kalloc port_kernel))) \<and>
     dn_requests t' = dn_requests dn_sample"
proof -
  have size: "unat (ipr_size (dn_sample ! 0)) = 1" "length dn_sample = 4" by (simp_all add: dn_sample_def)
  note its = port_kernel_sizes
  have "fst (kalloc port_kernel) \<noteq> 0" by (simp add: kalloc_def port_kernel_def)
  then show ?thesis
    using dngrow_keeps_requests [OF port_kernel_port port_sample_fields(1) _ port_sample_fields(2) dn_sample_ok, of 8]
      its size port_sample_fields(3) by (auto simp: IO_MAX_REFERENCES_eq)
qed

text \<open>Growth to a target that is more than one size away. The test for a race with another
  thread, which compares the size found with the one after the old size, fails then, and
  \<open>ipc_port_dngrow\<close> returns KERN_SUCCESS although the table did not grow.\<close>

theorem dngrow_target_skips:
  assumes p: "ks_ports s port = Some p" "io_active p" "0 < io_references p" "io_references p < IO_MAX_REFERENCES"
    and t: "ip_dnrequests p = Some t" "t \<noteq> []"
      "array_get (ks_table_dnrequests s) (unat (ipr_size (t ! 0))) = Some (length t)"
    and sizes: "array_get (ks_table_dnrequests s) (unat (ipr_size (t ! 0)) + 1) = Some sza" "sza \<noteq> 0" "sza < target"
      "array_get (ks_table_dnrequests s) (unat (ipr_size (t ! 0)) + 2) = Some szb" "szb \<noteq> 0" "target \<le> szb"
    and target: "length t < target" and mem: "fst (kalloc s) \<noteq> 0"
  shows "ipc_port_dngrow port (Some target) s = Some (KERN_SUCCESS, snd (kalloc s)) \<and>
         ks_ports (snd (kalloc s)) port = Some p"
proof -
  let ?i = "unat (ipr_size (t ! 0))"
  have "ipc_port_dngrow_its (ks_table_dnrequests s) target (?i + 1) = Some (?i + 2)"
    using sizes by (subst ipc_port_dngrow_its.simps, simp, subst ipc_port_dngrow_its.simps, simp)
  then have "ipc_port_dngrow port (Some target) s =
      ipc_port_dngrow_to port (Some ?i) (length t) (ipr_next (t ! 0)) (?i + 2) szb s"
    using p t sizes target by (simp add: ipc_port_dngrow_def Let_def)
  moreover have "ipc_port_dngrow_to port (Some ?i) (length t) (ipr_next (t ! 0)) (?i + 2) szb s =
      Some (KERN_SUCCESS, snd (kalloc s))"
    using p sizes mem reference_release [OF p(4)] put_port_same [of "snd (kalloc s)" port p]
    by (simp add: ipc_port_dngrow_to_def ip_reference_def io_reference_def ip_release_def io_release_def
        kalloc_put_port ip_check_unlock_def word_gt_0)
  ultimately show ?thesis using p(1) by simp
qed

lemma dngrow_target_skips_witness:
  "ipc_port_dngrow 0x100 (Some 10) port_kernel = Some (KERN_SUCCESS, snd (kalloc port_kernel))"
proof -
  have size: "unat (ipr_size (dn_sample ! 0)) = 1" "length dn_sample = 4" "dn_sample \<noteq> []" by (simp_all add: dn_sample_def)
  note its = port_kernel_sizes
  have "fst (kalloc port_kernel) \<noteq> 0" by (simp add: kalloc_def port_kernel_def)
  then show ?thesis
    using dngrow_target_skips [OF port_kernel_port port_sample_fields(1) _ _ port_sample_fields(2), of 8 10 16]
      its size port_sample_fields(3) by (simp add: IO_MAX_REFERENCES_eq numeral_3_eq_3)
qed

text \<open>Copies of send rights. \<open>ipc_port_copy_send\<close> followed by \<open>ipc_port_release_send\<close> is the
  identity: the counts of send rights and of references balance and nobody is notified.\<close>

theorem copy_send_release_send:
  assumes p: "ks_ports s port = Some p" "IP_VALID port" "io_active p" "io_references p < IO_MAX_REFERENCES"
    and count: "0 < ip_srights p" "unat (ip_srights p) + 1 < 2 ^ 32"
  shows "\<exists>s'. ipc_port_copy_send port s = Some (port, s') \<and> ipc_port_release_send port s' = Some s"
proof -
  let ?p1 = "p\<lparr>io_references := io_references p + 1, ip_srights := ip_srights p + 1\<rparr>"
  note r = reference_release [OF p(4)] and c = srights_inc [OF count(2)]
  have "ipc_port_copy_send port s = Some (port, put_port port ?p1 s)"
    using p count by (simp add: ipc_port_copy_send_def ip_reference_def io_reference_def upd_port_def)
  moreover have "ipc_port_release_send port (put_port port ?p1 s) = Some s"
  proof -
    have "ip_srights p \<noteq> 0" using count(1) by auto
    then show ?thesis
      using p r c put_port_same [of s port p]
      by (simp add: ipc_port_release_send_def ip_release_def io_release_def io_active_def ipc_port_drop_send_def Let_def)
  qed
  ultimately show ?thesis by blast
qed

lemma copy_send_release_send_witness:
  "\<exists>s'. ipc_port_copy_send 0x100 port_kernel = Some (0x100, s') \<and> ipc_port_release_send 0x100 s' = Some port_kernel"
  using copy_send_release_send [OF port_kernel_port _ port_sample_fields(1)] port_sample_fields(3,4)
  by (simp add: IO_VALID_def IO_MAX_REFERENCES_eq)

text \<open>No more senders. \<open>ipc_port_release_send\<close> on an active port takes one send right and one
  reference away. The registered no-senders notification is sent exactly when the last send right
  goes, with the make-send count of the port, and the registration is used up.\<close>

theorem release_send_notifies:
  assumes "ks_ports s port = Some p" and "IP_VALID port" and "io_active p" and "0 < io_references p"
    and "io_references p \<le> IO_MAX_REFERENCES" and "0 < ip_srights p"
    and "ip_srights p = 1 \<Longrightarrow> ip_nsrequest p \<noteq> IP_NULL \<Longrightarrow> memory_left 1 s"
  shows "\<exists>s'. ipc_port_release_send port s = Some s' \<and>
    ks_ports s' = (ks_ports s)(port \<mapsto> p\<lparr>io_references := io_references p - 1, ip_srights := ip_srights p - 1,
      ip_nsrequest := if ip_srights p = 1 then IP_NULL else ip_nsrequest p\<rparr>) \<and>
    ks_events s' = ks_events s @
      (if ip_srights p = 1 \<and> ip_nsrequest p \<noteq> IP_NULL then [Sent_no_senders (ip_nsrequest p) (ip_mscount p)] else [])"
  by (rule release_send_active [OF assms])

lemma release_send_notifies_witness:
  "\<exists>s'. ipc_port_release_send 0x100 port_kernel = Some s' \<and> ks_events s' = [Sent_no_senders 0x800 0]"
proof -
  have "memory_left 1 port_kernel" by (simp add: memory_left_def port_kernel_def)
  moreover have "ip_mscount port_sample = 0" "ks_events port_kernel = []"
    by (simp_all add: port_sample_def port_kernel_def)
  ultimately show ?thesis
    using release_send_notifies [OF port_kernel_port _ port_sample_fields(1)] port_sample_fields(3,4,5)
    by (simp add: IO_VALID_def IO_MAX_REFERENCES_eq) blast
qed

text \<open>C6: circularity. In a kernel where no chain of ports in transit comes back to itself,
  \<open>ipc_port_check_circularity\<close> follows the chain from the destination to its end, which exists, and
  answers true exactly when the port is this end. Otherwise it puts the port in transit to the
  destination, with a reference, and every chain still ends.\<close>

theorem check_circularity_correct:
  assumes "transit_ok s" and "ks_ports s port = Some p" and "port \<noteq> IP_NULL" and "io_active p"
    and "io_receiver_name p = MACH_PORT_NULL" and "ip_destination p = IP_NULL"
    and "ks_ports s dest = Some d" and "dest \<noteq> IP_NULL" and "io_references d < IO_MAX_REFERENCES"
  shows "\<exists>path base. transit_path s dest path base \<and>
    (if base = port then ipc_port_check_circularity port dest s = Some (True, s)
     else \<exists>s'. ipc_port_check_circularity port dest s = Some (False, s') \<and> transit_ok s' \<and>
       ks_ports s' port = Some (p\<lparr>ip_destination := dest\<rparr>) \<and>
       ks_ports s' dest = Some (d\<lparr>io_references := io_references d + 1\<rparr>) \<and>
       transit_path s' port (port # path) base)"
  by (rule check_circularity_spec [OF assms])

lemma port_kernel_transit: "transit_path port_kernel 0x200 [0x200] 0x300" "transit_ok port_kernel"
proof -
  have p: "\<not> in_transit port_sample" "\<not> in_transit (port_sample\<lparr>io_receiver_name := 0, ip_data := 0\<rparr>)"
    "ks_ports port_kernel 0x100 = Some port_sample" "ks_ports port_kernel 0x300 = Some port_sample"
    "ks_ports port_kernel 0x400 = Some (port_sample\<lparr>io_receiver_name := 0, ip_data := 0\<rparr>)"
    by (simp_all add: port_kernel_def port_sample_def in_transit_def)
  have b: "transit_path port_kernel a [] a" if "a \<in> {0x100, 0x300, 0x400}" for a
    using that transit_base [OF p(3,1)] transit_base [OF p(4,1)] transit_base [OF p(5,2)] by blast
  show t: "transit_path port_kernel 0x200 [0x200] 0x300"
    by (rule transit_step [where p = "port_sample\<lparr>io_receiver_name := 0, ip_data := 0x300\<rparr>"])
      (use b [of "0x300"] in \<open>simp_all add: port_kernel_def port_sample_def in_transit_def io_active_def\<close>)
  show "transit_ok port_kernel"
    unfolding transit_ok_def
  proof (intro allI impI)
    fix a p assume "ks_ports port_kernel a = Some p"
    then have "a \<in> {0x100, 0x200, 0x300, 0x400}" by (auto simp: port_kernel_def split: if_splits)
    with b t show "\<exists>path base. transit_path port_kernel a path base" by blast
  qed
qed

lemma check_circularity_correct_witness:
  "\<exists>s'. ipc_port_check_circularity 0x400 0x200 port_kernel = Some (False, s') \<and> transit_ok s'"
proof -
  have p: "ks_ports port_kernel 0x400 = Some (port_sample\<lparr>io_receiver_name := 0, ip_data := 0\<rparr>)"
    "ks_ports port_kernel 0x200 = Some (port_sample\<lparr>io_receiver_name := 0, ip_data := 0x300\<rparr>)"
    by (simp_all add: port_kernel_def)
  have base: "base = 0x300" if "transit_path port_kernel 0x200 path base" for path base
    using chain_end_path [OF that] chain_end_path [OF port_kernel_transit(1)] by simp
  show ?thesis
    using check_circularity_correct [OF port_kernel_transit(2) p(1) _ _ _ _ p(2)]
    by (auto dest!: base simp: io_active_def port_sample_def IO_MAX_REFERENCES_eq)
qed

text \<open>C7: the death of a port. When a port without a port-destroyed request dies, everybody who
  asked is told: the holder of the no-senders right, with the destruction of the message queue after
  it, and then every outstanding dead-name request, once, in the order of the table. Afterwards the
  port is inactive and has its timestamp, or it is freed with its last reference. (The subsystem is
  deallocated through the wrong field, \<open>ip_kobject\<close>.)\<close>

theorem port_destroy_notifies:
  assumes p: "ks_ports s port = Some p" "io_active p" "ip_pset_count p = 0" "ip_mscount p = 0" "ip_pdrequest p = IP_NULL"
      "0 < io_references p" "io_references p \<le> IO_MAX_REFERENCES"
    and t: "ip_dnrequests p = Some t" "t \<noteq> []"
      "array_get (ks_table_dnrequests s) (unat (ipr_size (t ! 0))) = Some (length t)"
      "\<forall>r \<in> set (tl t). ipr_name r \<noteq> MACH_PORT_NULL \<longrightarrow> ipr_soright r \<noteq> IP_NULL"
    and mem: "memory_left (length (dn_pending (tl t)) + 1) s"
  shows "\<exists>s'. ipc_port_destroy port s = Some s' \<and>
    ks_ports s' = (ks_ports s)(port := if io_references p = 1 then None else
      Some (p\<lparr>io_bits := bits_clear (io_bits p) IO_BITS_ACTIVE, ip_timestamp := ks_timestamp s,
              ip_dnrequests := None, io_references := io_references p - 1\<rparr>)) \<and>
    ks_events s' = ks_events s @ [Thread_pool_wakeup port] @
      (if ip_nsrequest p \<noteq> IP_NULL then [Sent_send_once (ip_nsrequest p)] else []) @
      [Mqueue_destroyed port] @ dn_pending (tl t) @ [Kobject_destroyed port] @
      (if ip_subsystem p \<noteq> 0 then [Subsystem_deallocated (ip_kobject p)] else [])"
proof -
  have "ipc_port_destroy port s = ipc_port_kill port s"
    using p by (subst ipc_port_destroy.simps) simp
  with port_kill_spec [OF p(1,6,7) t mem] show ?thesis by simp
qed

lemma port_destroy_notifies_witness:
  "\<exists>s'. ipc_port_destroy 0x100 port_kernel = Some s' \<and> Sent_dead_name 0x700 0x10b \<in> set (ks_events s')"
proof -
  have d: "dn_pending (tl dn_sample) = [Sent_dead_name 0x700 0x10b]" by (simp add: dn_pending_def dn_sample_def)
  have "memory_left (Suc (Suc 0)) port_kernel" by (simp add: memory_left_def port_kernel_def)
  moreover have "unat (ipr_size (dn_sample ! 0)) = Suc 0" "length dn_sample = 4" "dn_sample \<noteq> []"
    "\<forall>r \<in> set (tl dn_sample). ipr_name r \<noteq> MACH_PORT_NULL \<longrightarrow> ipr_soright r \<noteq> IP_NULL" by (simp_all add: dn_sample_def)
  moreover have "ip_pset_count port_sample = 0" "ip_mscount port_sample = 0" "ip_pdrequest port_sample = IP_NULL"
    by (simp_all add: port_sample_def)
  ultimately show ?thesis
    using port_destroy_notifies [OF port_kernel_port port_sample_fields(1) _ _ _ _ _ port_sample_fields(2)]
      port_sample_fields(3) port_kernel_sizes(1) d
    by (auto simp: IO_MAX_REFERENCES_eq)
qed

end
