(* ===== verification/Ipc_Pset_Spec.thy ===== *)
theory Ipc_Pset_Spec
  imports Ipc_Port_Spec
begin

text \<open>
  What port sets guarantee. A port and a set are linked from both sides: the port counts its sets,
  and a set holds a reference for every port that is linked to it, besides the reference of the
  name of a set that is alive. \<open>sets_ok\<close> states this over the whole kernel; runs of
  the calls of \<^verbatim>\<open>osfmk/ipc/ipc_pset.c\<close> keep it.
\<close>

section \<open>Links between ports and sets\<close>

abbreviation port_sets :: "ipc_port \<Rightarrow> u32 list" where
  "port_sets p \<equiv> imq_sets (ip_messages p)"

definition linked :: "kernel \<Rightarrow> u32 \<Rightarrow> ipc_port_t set" where
  "linked s pset = {port. \<exists>p. ks_ports s port = Some p \<and> pset \<in> set (port_sets p)}"

definition sets_ok :: "kernel \<Rightarrow> bool" where
  "sets_ok s \<longleftrightarrow> ks_psets s 0 = None \<and>
     (\<forall>port p. ks_ports s port = Some p \<longrightarrow>
        distinct (port_sets p) \<and> ip_pset_count p = of_nat (length (port_sets p)) \<and>
        (\<forall>pset \<in> set (port_sets p). ks_psets s pset \<noteq> None)) \<and>
     (\<forall>pset ps. ks_psets s pset = Some ps \<longrightarrow> io_references ps \<le> IO_MAX_REFERENCES \<and>
        card (linked s pset) + (if io_active ps then 1 else 0) \<le> unat (io_references ps))"

lemma put_pset_fields [simp]:
  "ks_ports (put_pset a ps s) = ks_ports s" "ks_psets (put_pset a ps s) = (ks_psets s)(a \<mapsto> ps)"
  "ks_events (put_pset a ps s) = ks_events s"
  by (simp_all add: put_pset_def)

lemma ports_put_port: "ks_ports (put_port a p s) = (ks_ports s)(a \<mapsto> p)"
  by (simp add: put_port_def)

lemma linked_put_pset [simp]: "linked (put_pset a ps s) pset = linked s pset"
  by (simp add: linked_def)

lemma linked_fields [simp]:
  "linked (ks_psets_update g s) pset = linked s pset" "linked (ks_events_update e s) pset = linked s pset"
  by (simp_all add: linked_def)

lemma linked_put_port:
  "linked (put_port port p s) pset =
     (if pset \<in> set (port_sets p) then insert port (linked s pset) else linked s pset - {port})"
  by (auto simp: linked_def put_port_def split: if_splits)

lemma finite_linked [simp]: "finite (linked s pset)"
  by (rule finite)

lemma sets_ok_port:
  assumes "sets_ok s" and "ks_ports s port = Some p"
  shows "distinct (port_sets p)" "0 \<notin> set (port_sets p)" "ip_pset_count p = of_nat (length (port_sets p))"
    and "\<And>pset. pset \<in> set (port_sets p) \<Longrightarrow> \<exists>ps. ks_psets s pset = Some ps"
proof -
  show "distinct (port_sets p)" "ip_pset_count p = of_nat (length (port_sets p))"
    and *: "\<And>pset. pset \<in> set (port_sets p) \<Longrightarrow> \<exists>ps. ks_psets s pset = Some ps"
    using assms by (auto simp: sets_ok_def)
  show "0 \<notin> set (port_sets p)" using * [of 0] assms by (auto simp: sets_ok_def)
qed

lemma sets_ok_pset:
  assumes "sets_ok s" and "ks_psets s pset = Some ps"
  shows "io_references ps \<le> IO_MAX_REFERENCES"
    and "card (linked s pset) + (if io_active ps then 1 else 0) \<le> unat (io_references ps)"
  using assms by (auto simp: sets_ok_def)

lemma port_sets_bound:
  assumes "distinct (xs :: u32 list)" and "0 \<notin> set xs"
  shows "length xs < 2 ^ 32"
proof -
  have "card (set xs) \<le> card (UNIV - {0 :: u32})" using assms(2) by (intro card_mono) auto
  also have "\<dots> < card (UNIV :: u32 set)" by (intro psubset_card_mono) auto
  also have "\<dots> = 2 ^ 32" by (simp add: card_word)
  finally show ?thesis using assms(1) by (simp add: distinct_card)
qed

lemma pset_count_zero:
  assumes "sets_ok s" and "ks_ports s port = Some p"
  shows "ip_pset_count p = 0 \<longleftrightarrow> port_sets p = []"
proof -
  have "length (port_sets p) < 2 ^ 32" using sets_ok_port(1,2) [OF assms] port_sets_bound by blast
  then show ?thesis using sets_ok_port(3) [OF assms]
    by (auto simp: word_of_nat_eq_0_iff dest: nat_dvd_not_less)
qed

lemma io_active_bits [simp]: "io_active (ps\<lparr>io_references := r\<rparr>) = io_active ps"
  by (simp add: io_active_def)

text \<open>The two changes that the calls make: a link more, a link less.\<close>

lemma link_ok:
  assumes ok: "sets_ok s" and p: "ks_ports s port = Some p" and ps: "ks_psets s pset = Some ps"
    and fresh: "pset \<notin> set (port_sets p)" and bound: "io_references ps < IO_MAX_REFERENCES"
    and p': "port_sets p' = port_sets p @ [pset]" "ip_pset_count p' = ip_pset_count p + 1"
  shows "sets_ok (put_port port p' (put_pset pset (ps\<lparr>io_references := io_references ps + 1\<rparr>) s))"
proof -
  have refs: "unat (io_references ps + 1) = unat (io_references ps) + 1"
    using bound by (simp add: unat_inc IO_MAX_REFERENCES_eq word_less_nat_alt)
  have "pset \<noteq> 0" using ok ps by (auto simp: sets_ok_def)
  moreover have "port \<notin> linked s pset" using fresh p by (simp add: linked_def)
  moreover have "linked s a \<union> {port} = linked s a" if "a \<in> set (port_sets p)" for a
    using that p by (auto simp: linked_def)
  moreover have "a \<notin> set (port_sets p) \<Longrightarrow> port \<notin> linked s a" for a using p by (simp add: linked_def)
  ultimately show ?thesis
    using ok p ps fresh refs bound sets_ok_port [OF ok p] sets_ok_pset [OF ok ps]
    by (auto simp: sets_ok_def linked_put_port ports_put_port p' insert_absorb io_active_def word_less_nat_alt
        word_le_nat_alt)
qed

lemma unlink_ok:
  assumes ok: "sets_ok s" and p: "ks_ports s port = Some p" and ps: "ks_psets s pset = Some ps"
    and mem: "pset \<in> set (port_sets p)"
    and p': "port_sets p' = remove1 pset (port_sets p)" "ip_pset_count p' = ip_pset_count p - 1"
  shows "sets_ok (put_port port p' (put_pset pset (ps\<lparr>io_references := io_references ps - 1\<rparr>) s))"
    and "0 < io_references ps \<and> io_references ps \<le> IO_MAX_REFERENCES"
proof -
  have in_set: "port \<in> linked s pset" using mem p by (auto simp: linked_def)
  then have "card (linked s pset) > 0" by (auto simp: card_gt_0_iff)
  then have pos: "0 < unat (io_references ps)" using sets_ok_pset(2) [OF ok ps] by linarith
  then show "0 < io_references ps \<and> io_references ps \<le> IO_MAX_REFERENCES"
    using sets_ok_pset(1) [OF ok ps] by (simp add: word_less_nat_alt)
  have refs: "unat (io_references ps - 1) = unat (io_references ps) - 1"
    using pos by (simp add: unat_dec word_less_nat_alt)
  have card: "card (linked s pset - {port}) = card (linked s pset) - 1"
    using in_set by (simp add: card_Diff_singleton)
  have count: "of_nat (length (port_sets p)) - (1 :: u32) = of_nat (length (port_sets p) - 1)"
    using mem by (cases "port_sets p") auto
  have left: "io_active ps \<Longrightarrow> card (linked s pset) \<le> unat (io_references ps) - Suc 0"
      "card (linked s pset) - Suc 0 \<le> unat (io_references ps) - Suc 0"
    using sets_ok_pset(2) [OF ok ps] by (auto split: if_splits)
  have others: "linked s a - {port} = linked s a" if "a \<notin> set (port_sets p)" for a
    using that p by (auto simp: linked_def)
  have same: "insert port (linked s a) = linked s a" if "a \<in> set (port_sets p)" for a
    using that p by (auto simp: linked_def)
  have "io_references ps - 1 \<le> IO_MAX_REFERENCES"
    using refs sets_ok_pset(1) [OF ok ps] by (simp add: word_le_nat_alt)
  then show "sets_ok (put_port port p' (put_pset pset (ps\<lparr>io_references := io_references ps - 1\<rparr>) s))"
    using ok p ps sets_ok_port [OF ok p] sets_ok_pset [OF ok ps] \<open>card (linked s pset) > 0\<close>
    by (auto simp: sets_ok_def linked_put_port ports_put_port p' card others same count refs left
        mem length_remove1 io_active_bits split: if_splits)
qed

section \<open>The calls\<close>

lemma put_pset_put_port: "put_pset a ps (put_port b p s) = put_port b p (put_pset a ps s)"
  by (simp add: put_pset_def put_port_def)

lemma pset_member_spec:
  "ks_ports s port = Some p \<Longrightarrow> io_active p \<Longrightarrow>
     ipc_pset_member pset port s = Some (pset \<in> set (port_sets p))"
  by (simp add: ipc_pset_member_def ipc_mqueue_member_def)

lemma pset_add_spec:
  assumes "ks_ports s port = Some p" and "io_active p" and "ks_psets s pset = Some ps" and "io_active ps"
    and "io_references ps < IO_MAX_REFERENCES"
  shows "ipc_pset_add pset port s = Some
    (if pset \<in> set (port_sets p) then (KERN_ALREADY_IN_SET, s)
     else (KERN_SUCCESS,
       put_port port (p\<lparr>ip_pset_count := ip_pset_count p + 1, ip_messages := ipc_mqueue_add (ip_messages p) pset\<rparr>)
         (put_pset pset (ps\<lparr>io_references := io_references ps + 1\<rparr>) s)))"
  using assms
  by (simp add: ipc_pset_add_def pset_member_spec ips_reference_def io_reference_def upd_port_def)

lemma pset_release_spec:
  assumes "ks_psets s pset = Some ps" and "0 < io_references ps" and "io_references ps \<le> IO_MAX_REFERENCES"
  shows "ips_release pset s = Some (put_pset pset (ps\<lparr>io_references := io_references ps - 1\<rparr>) s)"
  using assms by (simp add: ips_release_def io_release_def)

abbreviation unlink_set :: "u32 \<Rightarrow> ipc_port \<Rightarrow> ipc_port" where
  "unlink_set pset p \<equiv> p\<lparr>ip_messages := (ip_messages p)\<lparr>imq_sets := remove1 pset (port_sets p)\<rparr>,
     ip_pset_count := ip_pset_count p - 1\<rparr>"

lemma pset_remove_spec:
  assumes ok: "sets_ok s" and p: "ks_ports s port = Some p" "io_active p"
  shows "if pset \<in> set (port_sets p)
    then \<exists>ps. ks_psets s pset = Some ps \<and> ipc_pset_remove pset port s = Some (KERN_SUCCESS,
           put_port port (unlink_set pset p) (put_pset pset (ps\<lparr>io_references := io_references ps - 1\<rparr>) s))
    else ipc_pset_remove pset port s = Some (KERN_NOT_IN_SET, s)"
proof (cases "pset \<in> set (port_sets p)")
  case True
  then obtain ps where ps: "ks_psets s pset = Some ps" using sets_ok_port(4) [OF ok p(1)] by blast
  have "0 < io_references ps \<and> io_references ps \<le> IO_MAX_REFERENCES"
    using unlink_ok(2) [OF ok p(1) ps True, of "unlink_set pset p"] by simp
  moreover have "ip_pset_count p \<noteq> 0" using True pset_count_zero [OF ok p(1)] by auto
  ultimately show ?thesis using True p ps
    by (simp add: ipc_pset_remove_def ipc_mqueue_remove_def ipc_mqueue_member_def upd_port_def
        pset_release_spec put_pset_put_port)
next
  case False
  then show ?thesis using p
    by (simp add: ipc_pset_remove_def ipc_mqueue_remove_def ipc_mqueue_member_def upd_port_def put_port_same)
qed

lemma pset_destroy_spec:
  assumes ok: "sets_ok s" and ps: "ks_psets s pset = Some ps" "io_active ps"
  shows "\<exists>s'. ipc_pset_destroy pset s = Some s' \<and> ks_ports s' = ks_ports s \<and>
    ks_psets s' = (ks_psets s)(pset := if io_references ps = 1 then None else
      Some (ps\<lparr>io_bits := bits_clear (io_bits ps) IO_BITS_ACTIVE, io_references := io_references ps - 1\<rparr>)) \<and>
    sets_ok s'"
proof -
  have refs: "0 < io_references ps" "io_references ps \<le> IO_MAX_REFERENCES"
      "card (linked s pset) + 1 \<le> unat (io_references ps)"
    using sets_ok_pset [OF ok ps(1)] ps(2) by (auto simp: word_less_nat_alt)
  have dec: "unat (io_references ps - 1) = unat (io_references ps) - 1" using refs(1) by (rule unat_dec)
  then have le: "io_references ps - 1 \<le> IO_MAX_REFERENCES" using refs(2) by (simp add: word_le_nat_alt)
  have off: "\<not> io_active (ps\<lparr>io_bits := bits_clear (io_bits ps) IO_BITS_ACTIVE\<rparr>)"
    by (simp add: io_active_def bits_clear_def and.assoc)
  have none: "pset \<notin> set (port_sets p)" if "io_references ps = 1" "ks_ports s port = Some p" for port p
  proof -
    have "linked s pset = {}" using that(1) refs(3) by simp
    then show ?thesis using that(2) by (auto simp: linked_def)
  qed
  show ?thesis using ps refs
    apply (simp add: ipc_pset_destroy_def ips_release_def io_release_def ips_check_unlock_def
        log_event_def put_pset_def)
    using ok off none dec le refs
    by (auto simp: sets_ok_def)
qed

text \<open>The loop of \<^verbatim>\<open>ipc_pset_remove_all\<close> ends, because every turn takes one set from the list.\<close>

abbreviation unlink_all :: "ipc_port \<Rightarrow> ipc_port" where
  "unlink_all p \<equiv> p\<lparr>ip_messages := (ip_messages p)\<lparr>imq_sets := []\<rparr>, ip_pset_count := 0\<rparr>"

definition drop_refs :: "u32 list \<Rightarrow> (u32 \<Rightarrow> ipc_pset option) \<Rightarrow> u32 \<Rightarrow> ipc_pset option" where
  "drop_refs sets psets a =
     (if a \<in> set sets then map_option (\<lambda>ps. ps\<lparr>io_references := io_references ps - 1\<rparr>) (psets a) else psets a)"

abbreviation unlinked :: "ipc_port_t \<Rightarrow> ipc_port \<Rightarrow> kernel \<Rightarrow> kernel" where
  "unlinked port p s \<equiv> (put_port port (unlink_all p) s)\<lparr>ks_psets := drop_refs (port_sets p) (ks_psets s)\<rparr>"

lemma pset_remove_step:
  assumes ok: "sets_ok s" and p: "ks_ports s port = Some p" and sets: "port_sets p = pset # rest"
  shows "\<exists>s1. ipc_pset_remove_loop port s = ipc_pset_remove_loop port s1 \<and> sets_ok s1 \<and>
    ks_ports s1 port = Some (unlink_set pset p) \<and>
    unlinked port (unlink_set pset p) s1 = unlinked port p s"
proof -
  have mem: "pset \<in> set (port_sets p)" using sets by simp
  obtain ps where ps: "ks_psets s pset = Some ps" using sets_ok_port(4) [OF ok p mem] by blast
  let ?s1 = "put_port port (unlink_set pset p) (put_pset pset (ps\<lparr>io_references := io_references ps - 1\<rparr>) s)"
  have refs: "0 < io_references ps" "io_references ps \<le> IO_MAX_REFERENCES" and ok1: "sets_ok ?s1"
    using unlink_ok [OF ok p ps mem, of "unlink_set pset p"] by simp_all
  have "pset \<notin> set rest" using sets_ok_port(1) [OF ok p] sets by simp
  then have "drop_refs rest ((ks_psets s)(pset \<mapsto> ps\<lparr>io_references := io_references ps - 1\<rparr>)) =
      drop_refs (pset # rest) (ks_psets s)"
    using ps by (auto simp: drop_refs_def)
  then have "unlinked port (unlink_set pset p) ?s1 = unlinked port p s"
    using sets by (simp add: put_port_def put_pset_def)
  moreover have "ipc_pset_remove_loop port s = ipc_pset_remove_loop port ?s1"
    using p sets ps refs
    by (simp add: ipc_pset_remove_loop.simps [of port s] ipc_mqueue_remove_one_def upd_port_def
        pset_release_spec put_pset_put_port)
  ultimately show ?thesis using ok1 by (intro exI [of _ ?s1]) simp
qed

lemma pset_remove_loop_spec:
  assumes "sets_ok s" and "ks_ports s port = Some p"
  shows "ipc_pset_remove_loop port s = Some (unlinked port p s) \<and> sets_ok (unlinked port p s)"
  using assms
proof (induction "port_sets p" arbitrary: p s)
  case Nil
  then have "ip_pset_count p = 0" by (simp add: pset_count_zero)
  then have p: "unlink_all p = p" using Nil by (intro ipc_port.equality ipc_mqueue.equality) simp_all
  moreover have "drop_refs [] (ks_psets s) = ks_psets s" by (simp add: drop_refs_def fun_eq_iff)
  ultimately have "unlinked port p s = s" using Nil by (simp add: put_port_same)
  then show ?case using Nil
    by (simp add: ipc_pset_remove_loop.simps [of port s] ipc_mqueue_remove_one_def)
next
  case (Cons pset rest)
  obtain s1 where s1: "ipc_pset_remove_loop port s = ipc_pset_remove_loop port s1" "sets_ok s1"
      "ks_ports s1 port = Some (unlink_set pset p)" "unlinked port (unlink_set pset p) s1 = unlinked port p s"
    using pset_remove_step [OF Cons.prems Cons.hyps(2) [symmetric]] by blast
  have "rest = port_sets (unlink_set pset p)" using Cons.hyps(2) [symmetric] by simp
  from Cons.hyps(1) [OF this s1(2,3)] show ?case unfolding s1(1,4) .
qed

lemma pset_remove_all_spec:
  assumes ok: "sets_ok s" and p: "ks_ports s port = Some p" "io_active p"
  shows "ipc_pset_remove_all port s =
      Some (if port_sets p = [] then (KERN_NOT_IN_SET, s) else (KERN_SUCCESS, unlinked port p s))"
    and "sets_ok (unlinked port p s)"
proof -
  show "sets_ok (unlinked port p s)" using pset_remove_loop_spec [OF ok p(1)] by blast
  show "ipc_pset_remove_all port s =
      Some (if port_sets p = [] then (KERN_NOT_IN_SET, s) else (KERN_SUCCESS, unlinked port p s))"
    using pset_remove_loop_spec [OF ok p(1)] pset_count_zero [OF ok p(1)] p
    by (simp add: ipc_pset_remove_all_def ports_put_port)
qed

section \<open>Runs of the calls\<close>

inductive pset_run :: "kernel \<Rightarrow> kernel \<Rightarrow> bool" where
  run_start: "pset_run s s"
| run_add: "pset_run s s1 \<Longrightarrow> ipc_pset_add pset port s1 = Some (kr, s2) \<Longrightarrow> pset_run s s2"
| run_remove: "pset_run s s1 \<Longrightarrow> ipc_pset_remove pset port s1 = Some (kr, s2) \<Longrightarrow> pset_run s s2"
| run_remove_all: "pset_run s s1 \<Longrightarrow> ipc_pset_remove_all port s1 = Some (kr, s2) \<Longrightarrow> pset_run s s2"
| run_destroy: "pset_run s s1 \<Longrightarrow> ipc_pset_destroy pset s1 = Some s2 \<Longrightarrow> pset_run s s2"

lemma add_keeps_sets:
  assumes "sets_ok s" and "ipc_pset_add pset port s = Some (kr, s')"
  shows "sets_ok s'"
proof -
  obtain p ps where p: "ks_ports s port = Some p" "io_active p" and ps: "ks_psets s pset = Some ps" "io_active ps"
    using assms(2) by (auto simp: ipc_pset_add_def kassert_eq_Some split: bind_splits)
  show ?thesis
  proof (cases "io_references ps < IO_MAX_REFERENCES")
    case True
    then show ?thesis
      using assms pset_add_spec [OF p ps True] link_ok [OF assms(1) p(1) ps(1) _ True]
      by (auto simp: ipc_mqueue_add_def split: if_splits)
  next
    case False
    then have "pset \<in> set (port_sets p)" using assms(2) p ps
      by (auto simp: ipc_pset_add_def pset_member_spec ips_reference_def io_reference_def split: if_splits)
    then show ?thesis using assms p ps by (simp add: ipc_pset_add_def pset_member_spec)
  qed
qed

lemma remove_keeps_sets:
  assumes "sets_ok s" and "ipc_pset_remove pset port s = Some (kr, s')"
  shows "sets_ok s'"
proof -
  obtain p where p: "ks_ports s port = Some p" "io_active p"
    using assms(2) by (auto simp: ipc_pset_remove_def kassert_eq_Some split: bind_splits)
  show ?thesis using pset_remove_spec [OF assms(1) p, of pset] assms unlink_ok(1) [OF assms(1) p(1)]
    by (auto split: if_splits)
qed

lemma remove_all_keeps_sets:
  assumes "sets_ok s" and "ipc_pset_remove_all port s = Some (kr, s')"
  shows "sets_ok s'"
proof -
  obtain p where p: "ks_ports s port = Some p" "io_active p"
    using assms(2) by (auto simp: ipc_pset_remove_all_def kassert_eq_Some split: bind_splits)
  show ?thesis using pset_remove_all_spec [OF assms(1) p] assms by (auto split: if_splits)
qed

lemma destroy_keeps_sets:
  assumes "sets_ok s" and "ipc_pset_destroy pset s = Some s'"
  shows "sets_ok s'"
proof -
  obtain ps where ps: "ks_psets s pset = Some ps" "io_active ps"
    using assms(2) by (auto simp: ipc_pset_destroy_def kassert_eq_Some split: bind_splits)
  show ?thesis using pset_destroy_spec [OF assms(1) ps] assms(2) by auto
qed

lemmas keeps_sets = add_keeps_sets remove_keeps_sets remove_all_keeps_sets destroy_keeps_sets

section \<open>Properties\<close>

text \<open>A sample: the port 0x100 is a member of the set 0xa00 and not of the set 0xb00.\<close>

definition pset_sample :: "u32 \<Rightarrow> ipc_pset" where
  "pset_sample refs = \<lparr>io_references = refs, io_bits = 0x80010000, io_receiver_name = 0x30b, ips_pset_self = 0xa00\<rparr>"

definition member_sample :: ipc_port where
  "member_sample = port_sample\<lparr>ip_messages := ipc_mqueue_add ipc_mqueue_init 0xa00, ip_pset_count := 1\<rparr>"

definition pset_kernel :: kernel where
  "pset_kernel = port_kernel\<lparr>ks_ports := [0x100 \<mapsto> member_sample],
     ks_psets := [0xa00 \<mapsto> pset_sample 2, 0xb00 \<mapsto> pset_sample 1]\<rparr>"

lemma pset_kernel_fields:
  "ks_ports pset_kernel 0x100 = Some member_sample" "io_active member_sample" "port_sets member_sample = [0xa00]"
  "ks_psets pset_kernel 0xa00 = Some (pset_sample 2)" "ks_psets pset_kernel 0xb00 = Some (pset_sample 1)"
  "io_references (pset_sample r) = r" "io_active (pset_sample r)"
  by (simp_all add: pset_kernel_def member_sample_def pset_sample_def port_sample_def ipc_mqueue_add_def
      ipc_mqueue_init_def io_active_def)

lemma pset_kernel_ok: "sets_ok pset_kernel"
proof -
  have "linked pset_kernel a = (if a = 0xa00 then {0x100} else {})" for a
    by (auto simp: linked_def pset_kernel_def member_sample_def ipc_mqueue_add_def ipc_mqueue_init_def
        split: if_splits)
  then show ?thesis
    by (auto simp: sets_ok_def pset_kernel_def member_sample_def pset_sample_def ipc_mqueue_add_def
        ipc_mqueue_init_def io_active_def IO_MAX_REFERENCES_eq)
qed



text \<open>Adding a port to a set and removing it. \<open>ipc_pset_add\<close> makes a port a member of an active
  set that it is no member of, and touches no other membership; \<open>ipc_pset_remove\<close> undoes it to the
  last bit. Adding a member and removing a port that is no member are refused and change nothing.\<close>

theorem pset_add_remove:
  assumes "sets_ok s" and "ks_ports s port = Some p" and "io_active p"
    and "ks_psets s pset = Some ps" and "io_active ps" and "io_references ps < IO_MAX_REFERENCES"
  shows "if ipc_pset_member pset port s = Some True then ipc_pset_add pset port s = Some (KERN_ALREADY_IN_SET, s)
    else ipc_pset_remove pset port s = Some (KERN_NOT_IN_SET, s) \<and>
      (\<exists>s'. ipc_pset_add pset port s = Some (KERN_SUCCESS, s') \<and> ipc_pset_member pset port s' = Some True \<and>
         (\<forall>other. other \<noteq> pset \<longrightarrow> ipc_pset_member other port s' = ipc_pset_member other port s) \<and>
         ipc_pset_remove pset port s' = Some (KERN_SUCCESS, s))"
proof (cases "pset \<in> set (port_sets p)")
  case True
  then show ?thesis using assms pset_add_spec [OF assms(2-6)] by (simp add: pset_member_spec)
next
  case False
  let ?p = "p\<lparr>ip_pset_count := ip_pset_count p + 1, ip_messages := ipc_mqueue_add (ip_messages p) pset\<rparr>"
  let ?ps = "ps\<lparr>io_references := io_references ps + 1\<rparr>"
  let ?s = "put_port port ?p (put_pset pset ?ps s)"
  have add: "ipc_pset_add pset port s = Some (KERN_SUCCESS, ?s)"
    using pset_add_spec [OF assms(2-6)] False by simp
  have p: "ks_ports ?s port = Some ?p" "io_active ?p" using assms(3) by (simp_all add: io_active_def)
  have ok: "sets_ok ?s"
    using link_ok [OF assms(1,2,4) False assms(6)] by (simp add: ipc_mqueue_add_def)
  have "unlink_set pset ?p = p" using False by (simp add: ipc_mqueue_add_def remove1_append)
  moreover have "put_pset pset ps (put_port port p (put_pset pset ?ps s)) = s"
    using assms by (intro kernel.equality) (auto simp: put_port_def put_pset_def)
  ultimately have undo: "ipc_pset_remove pset port ?s = Some (KERN_SUCCESS, s)"
    using pset_remove_spec [OF ok p, of pset] by (simp add: ipc_mqueue_add_def put_pset_put_port)
  show ?thesis
    using False add undo assms(2,3) p pset_remove_spec [OF assms(1-3), of pset]
    by (simp add: pset_member_spec ipc_mqueue_add_def)
qed

lemma pset_add_remove_witness:
  "\<exists>s'. ipc_pset_add 0xb00 0x100 pset_kernel = Some (KERN_SUCCESS, s') \<and>
     ipc_pset_remove 0xb00 0x100 s' = Some (KERN_SUCCESS, pset_kernel)"
  using pset_add_remove [OF pset_kernel_ok pset_kernel_fields(1,2,5,7)]
  by (auto simp: pset_kernel_fields pset_member_spec [OF pset_kernel_fields(1,2)] IO_MAX_REFERENCES_eq)

text \<open>Leaving all sets. \<open>ipc_pset_remove_all\<close> returns for every active port; afterwards the port is
  a member of no set, its count is 0, each of its former sets has given up one reference and every
  other set is as before.\<close>

theorem pset_remove_all_correct:
  assumes "sets_ok s" and "ks_ports s port = Some p" and "io_active p"
  shows "\<exists>kr s' p'. ipc_pset_remove_all port s = Some (kr, s') \<and> ks_ports s' = (ks_ports s)(port \<mapsto> p') \<and>
    ip_pset_count p' = 0 \<and> (\<forall>pset. ipc_pset_member pset port s' = Some False) \<and> sets_ok s' \<and>
    (kr = KERN_NOT_IN_SET \<longleftrightarrow> ip_pset_count p = 0) \<and>
    ks_psets s' = (\<lambda>pset. if ipc_pset_member pset port s = Some True
       then map_option (\<lambda>ps. ps\<lparr>io_references := io_references ps - 1\<rparr>) (ks_psets s pset) else ks_psets s pset)"
proof -
  have drop: "drop_refs [] f = f" for f by (simp add: drop_refs_def fun_eq_iff)
  have active: "io_active (unlink_all p)" using assms(3) by (simp add: io_active_def)
  show ?thesis
  proof (cases "port_sets p = []")
    case True
    then show ?thesis
      using assms pset_remove_all_spec [OF assms] pset_count_zero [OF assms(1,2)]
      by (intro exI [of _ KERN_NOT_IN_SET] exI [of _ s] exI [of _ p]) (simp add: pset_member_spec fun_upd_idem)
  next
    case False
    then show ?thesis
      using assms active pset_remove_all_spec [OF assms] pset_count_zero [OF assms(1,2)]
      by (auto simp: ports_put_port pset_member_spec drop_refs_def fun_eq_iff)
  qed
qed

lemma pset_remove_all_correct_witness:
  "\<exists>s'. ipc_pset_remove_all 0x100 pset_kernel = Some (KERN_SUCCESS, s') \<and>
     ks_psets s' 0xa00 = Some (pset_sample 1) \<and> ks_psets s' 0xb00 = Some (pset_sample 1)"
proof -
  have "ip_pset_count member_sample \<noteq> 0" by (simp add: member_sample_def)
  then show ?thesis
    using pset_remove_all_correct [OF pset_kernel_ok pset_kernel_fields(1,2)]
      pset_remove_all_spec(1) [OF pset_kernel_ok pset_kernel_fields(1,2)]
    by (auto simp: pset_kernel_fields pset_member_spec [OF pset_kernel_fields(1,2)] pset_sample_def
        split: if_splits)
qed

text \<open>C29: a set that is destroyed while ports are still its members is freed by nobody. When the last
  member leaves all its sets, the dead set loses its last reference, but \<open>ipc_pset_remove_all\<close> never
  looks at the count again and the structure stays allocated with no references.\<close>

theorem dead_pset_leaks:
  assumes "sets_ok s" and "ks_ports s port = Some p" and "io_active p"
    and "ks_psets s pset = Some ps" and "\<not> io_active ps" and "io_references ps = 1"
    and "ipc_pset_member pset port s = Some True"
  shows "\<exists>s' ps'. ipc_pset_remove_all port s = Some (KERN_SUCCESS, s') \<and> linked s' pset = {} \<and>
    ks_psets s' pset = Some ps' \<and> io_references ps' = 0 \<and> \<not> io_active ps'"
proof -
  have mem: "pset \<in> set (port_sets p)" using assms(7) pset_member_spec [OF assms(2,3)] by simp
  have "port \<in> linked s pset" using mem assms(2) by (auto simp: linked_def)
  moreover have "card (linked s pset) \<le> 1" using sets_ok_pset(2) [OF assms(1,4)] assms(5,6) by simp
  ultimately have "linked s pset = {port}" by (auto simp: card_le_Suc0_iff_eq)
  then show ?thesis using mem assms pset_remove_all_spec(1) [OF assms(1-3)]
    by (auto simp: linked_put_port drop_refs_def)
qed

lemma dead_pset_leaks_witness:
  "\<exists>s1 s2 ps. ipc_pset_destroy 0xa00 pset_kernel = Some s1 \<and>
     ipc_pset_remove_all 0x100 s1 = Some (KERN_SUCCESS, s2) \<and> ks_psets s2 0xa00 = Some ps \<and> io_references ps = 0"
proof -
  obtain s1 where s1: "ipc_pset_destroy 0xa00 pset_kernel = Some s1" "ks_ports s1 = ks_ports pset_kernel" "sets_ok s1"
      "ks_psets s1 0xa00 = Some ((pset_sample 2)\<lparr>io_bits := bits_clear (io_bits (pset_sample 2)) IO_BITS_ACTIVE,
         io_references := 1\<rparr>)"
    using pset_destroy_spec [OF pset_kernel_ok pset_kernel_fields(4,7)] by (auto simp: pset_kernel_fields)
  have p: "ks_ports s1 0x100 = Some member_sample" using s1(2) pset_kernel_fields(1) by simp
  show ?thesis
    using dead_pset_leaks [OF s1(3) p pset_kernel_fields(2) s1(4)] s1(1) pset_member_spec [OF p pset_kernel_fields(2)]
    by (auto simp: pset_kernel_fields pset_sample_def io_active_def bits_clear_def)
qed

end
