(* ===== verification/Ipc_Right_Spec.thy ===== *)
theory Ipc_Right_Spec
  imports Ipc_Entry_Spec Ipc_Pset_Spec Ipc_Copyin
begin

text \<open>
  What the operations on rights guarantee, over the abstract name space \<open>is_names\<close> of
  \<^verbatim>\<open>Ipc_Names\<close>: the conversion of an entry whose port has died, the arithmetic of user
  references, the refusal of operations that an entry has no right for, and the agreement of
  \<^verbatim>\<open>ipc_right_copyin_check\<close> with \<^verbatim>\<open>ipc_right_copyin\<close>.
\<close>

section \<open>The reverse hash tables leave the names alone\<close>

lemma same_entries_names:
  assumes ok: "space_ok sp its_size fl claimed" and same: "same_entries (is_table sp) t"
  shows "is_names (sp\<lparr>is_table := t\<rparr>) = is_names sp" and "space_ok (sp\<lparr>is_table := t\<rparr>) its_size fl claimed"
proof -
  have len: "length t = length (is_table sp)" "length (is_table sp) = is_table_size sp" "0 < is_table_size sp"
    using same ok table_bounds(1) by (auto simp: same_entries_def space_ok_def table_ok_def)
  have eq: "ie_object (t ! i) = ie_object (is_table sp ! i)" "ie_bits (t ! i) = ie_bits (is_table sp ! i)"
      "ie_request (t ! i) = ie_request (is_table sp ! i)" if "i < is_table_size sp" for i
    using that same len by (auto simp: same_entries_def)
  show "is_names (sp\<lparr>is_table := t\<rparr>) = is_names sp"
    using len eq by (intro is_names_table) (simp_all add: ie_right_def)
  have full: "entry_list.fl_full (is_table sp) fl (claimed_table claimed)"
    using ok by (simp add: space_ok_def table_ok_def)
  then have bound: "\<And>i. i \<in> set fl \<Longrightarrow> i < is_table_size sp" and ne: "is_table sp \<noteq> []"
    using len by (auto simp: entry_list.fl_full_def entry_list.fl_ok_def)
  have "chain (\<lambda>i. ie_next (t ! i)) w fl \<longleftrightarrow> chain (\<lambda>i. ie_next (is_table sp ! i)) w fl" for w
    by (rule chain_cong) (simp add: eq bound)
  then have "entry_list.fl_full t fl (claimed_table claimed)"
    using full ne len eq(2,3) [of 0] eq(2) by (auto simp: entry_list.fl_full_def entry_list.fl_ok_def)
  then show "space_ok (sp\<lparr>is_table := t\<rparr>) its_size fl claimed"
    using ok len eq bound by (intro space_ok_table [OF ok]) (auto simp: space_ok_def table_ok_def)
qed

text \<open>The entry of a send right is in the hash table that fits it.\<close>

definition right_hashed ::
  "kernel \<Rightarrow> ipc_space_t \<Rightarrow> ipc_space \<Rightarrow> mach_port_name_t \<Rightarrow> ipc_entry_t \<Rightarrow> ipc_entry \<Rightarrow> bool" where
  "right_hashed s space sp name entry e \<longleftrightarrow> (case entry of
      Table_entry i \<Rightarrow> space_hash_ok sp \<and> i \<in> hashed (is_table sp)
    | Tree_entry n \<Rightarrow> \<not> is_fast sp \<and> ie_object e \<noteq> IO_NULL \<and> 0 < is_tree_hash sp \<and>
        (space, n) \<in> set (ks_hash s (IH_GLOBAL_HASH s space (ie_object e))))"

lemma hash_delete_ok:
  assumes sp: "ks_spaces s space = Some sp" and ok: "space_ok sp its_size fl claimed"
    and at: "entry_at sp fl name entry" and e: "is_entry sp entry = Some e"
    and hash: "right_hashed s space sp name entry e"
  shows "\<exists>sp' h. ipc_hash_delete space (ie_object e) name entry s = Some (put_space space sp' s\<lparr>ks_hash := h\<rparr>) \<and>
    space_ok sp' its_size fl claimed \<and> is_names sp' = is_names sp \<and> entry_at sp' fl name entry \<and>
    is_table_next sp' = is_table_next sp \<and> (\<exists>x. is_entry sp' entry = Some (e\<lparr>ie_index := x\<rparr>))"
proof (cases entry)
  case (Table_entry i)
  then have i: "i = name_index name" "i < is_table_size sp" "is_table sp ! i = e" "i < length (is_table sp)"
    using at e by (auto simp: entry_at_def array_get_eq_Some)
  have h: "local_hash_ok (is_table sp)" "is_table_size sp = length (is_table sp)" "i \<in> hashed (is_table sp)"
    using hash Table_entry by (auto simp: right_hashed_def space_hash_ok_def)
  have in_t: "in_table sp name entry" using i Table_entry by (simp add: in_table_def)
  obtain t where t: "ipc_hash_local_delete sp (ie_object e) (MACH_PORT_INDEX name) = Some (sp\<lparr>is_table := t\<rparr>)"
      "same_entries (is_table sp) t"
    using local_delete_spec [OF h(1,2), of "MACH_PORT_INDEX name" "ie_object e"] h(3) i by auto
  have "t ! i = e\<lparr>ie_index := ie_index (t ! i)\<rparr>" "length t = length (is_table sp)"
    using t(2) i by (auto simp: same_entries_def)
  then have ent: "\<exists>x. array_get t i = Some (e\<lparr>ie_index := x\<rparr>)" using i(4) by (auto simp: array_get_def)
  have "ie_bits (t ! i) = ie_bits (is_table sp ! i)" using t(2) i by (simp add: same_entries_def)
  moreover have "put_space space x s\<lparr>ks_hash := ks_hash s\<rparr> = put_space space x s" for x by (simp add: put_space_def)
  ultimately show ?thesis
    using sp in_t t same_entries_names [OF ok t(2)] at ent Table_entry
    by (intro exI [of _ "sp\<lparr>is_table := t\<rparr>"] exI [of _ "ks_hash s"])
      (auto simp: ipc_hash_delete_def entry_at_def)
next
  case (Tree_entry n)
  then have n: "n = name" "tree_map sp n = Some e" using at e by (auto simp: entry_at_def)
  let ?h = "IH_GLOBAL_HASH s space (ie_object e)"
  let ?sp = "sp\<lparr>is_tree_hash := is_tree_hash sp - 1\<rparr>"
  have names: "is_names ?sp = is_names sp" by (simp add: is_names_def fun_eq_iff Let_def)
  have same: "space_ok ?sp its_size fl claimed" "entry_at ?sp fl name entry"
    using ok at Tree_entry by (simp add: space_ok_def table_ok_def tree_ok_def, auto simp: entry_at_def)
  have "IH_GLOBAL_HASH (put_space space ?sp s) = IH_GLOBAL_HASH s" "ks_hash (put_space space ?sp s) = ks_hash s"
    by (simp_all add: IH_GLOBAL_HASH_def put_space_def fun_eq_iff)
  then have "ipc_hash_delete space (ie_object e) name entry s =
      Some (put_space space ?sp s\<lparr>ks_hash := (ks_hash s)(?h := remove1 (space, name) (ks_hash s ?h))\<rparr>)"
    using sp hash n Tree_entry
    by (simp add: ipc_hash_delete_def in_table_def right_hashed_def ipc_hash_global_delete_def upd_space_def
        Let_def)
  then show ?thesis using names same e Tree_entry
    by (intro exI [of _ ?sp] exI [of _ "(ks_hash s)(?h := remove1 (space, name) (ks_hash s ?h))"]
        exI [of _ "ie_index e"] conjI) simp_all
qed

lemma put_space_other [simp]:
  "ks_events (put_space a x s) = ks_events s" "ks_ports (put_space a x s) = ks_ports s"
  "ks_psets (put_space a x s) = ks_psets s" "ks_free_memory (put_space a x s) = ks_free_memory s"
  by (simp_all add: put_space_def)

section \<open>Updates of an entry\<close>

text \<open>The entry pointer that an operation works on: it denotes the name, and the entry is \<open>e\<close>.\<close>

definition right_at ::
  "kernel \<Rightarrow> ipc_space_t \<Rightarrow> ipc_space \<Rightarrow> nat \<Rightarrow> nat list \<Rightarrow> ipc_entry_t set \<Rightarrow> mach_port_name_t \<Rightarrow> ipc_entry_t \<Rightarrow>
   ipc_entry \<Rightarrow> bool" where
  "right_at s space sp its_size fl claimed name entry e \<longleftrightarrow> ks_spaces s space = Some sp \<and>
     space_ok sp its_size fl claimed \<and> entry_at sp fl name entry \<and> is_entry sp entry = Some e \<and> entry \<notin> claimed \<and>
     array_get (ks_table_entries s) (is_table_next sp) = Some its_size"

lemma right_at_get:
  assumes "right_at s space sp its_size fl claimed name entry e"
  shows "get_entry space entry s = Some e" and "ks_spaces s space = Some sp" and "is_active sp"
    and "is_entry sp entry = Some e" and "space_ok sp its_size fl claimed" and "entry_at sp fl name entry"
    and "entry \<notin> claimed" and "array_get (ks_table_entries s) (is_table_next sp) = Some its_size"
  using assms by (auto simp: right_at_def get_entry_def space_ok_def)

text \<open>An operation that changes only ports, sets or the log keeps the entry.\<close>

lemma right_at_spaces:
  "right_at s space sp its_size fl claimed name entry e \<Longrightarrow> ks_spaces s' = ks_spaces s \<Longrightarrow>
     ks_table_entries s' = ks_table_entries s \<Longrightarrow> right_at s' space sp its_size fl claimed name entry e"
  by (simp add: right_at_def)

lemma right_at_update:
  assumes at: "right_at s space sp its_size fl claimed name entry e"
    and gen: "IE_BITS_GEN (ie_bits (f e)) = IE_BITS_GEN (ie_bits e)"
    and coll: "has (ie_bits (f e)) IE_BITS_COLLISION = has (ie_bits e) IE_BITS_COLLISION"
    and type: "IE_BITS_TYPE (ie_bits (f e)) \<noteq> 0"
  shows "\<exists>sp'. upd_entry space entry f s = Some (put_space space sp' s) \<and>
    is_names sp' = (is_names sp)(name := ie_right (f e)) \<and>
    right_at (put_space space sp' s) space sp' its_size fl claimed name entry (f e)"
proof -
  obtain sp' where sp': "is_entry_upd entry f sp = Some sp'" "is_names sp' = (is_names sp)(name := ie_right (f e))"
      "space_ok sp' its_size fl claimed" "is_entry sp' entry = Some (f e)" "entry_at sp' fl name entry"
    using entry_update_spec [where f = f, OF right_at_get(5,6,4) [OF at] gen coll] type right_at_get(7) [OF at] by auto
  moreover have "is_table_next sp' = is_table_next sp"
    using sp'(1) by (cases entry) (auto split: bind_splits)
  ultimately show ?thesis using right_at_get [OF at]
    by (intro exI [of _ sp']) (simp add: right_at_def upd_entry_def)
qed

lemma right_at_hash_delete:
  assumes at: "right_at s space sp its_size fl claimed name entry e" and hash: "right_hashed s space sp name entry e"
  shows "\<exists>s' sp' x. ipc_hash_delete space (ie_object e) name entry s = Some s' \<and>
    right_at s' space sp' its_size fl claimed name entry (e\<lparr>ie_index := x\<rparr>) \<and> is_names sp' = is_names sp \<and>
    ks_events s' = ks_events s \<and> ks_ports s' = ks_ports s \<and> ks_free_memory s' = ks_free_memory s"
proof -
  obtain sp' h x where *: "ipc_hash_delete space (ie_object e) name entry s = Some (put_space space sp' s\<lparr>ks_hash := h\<rparr>)"
      "space_ok sp' its_size fl claimed" "is_names sp' = is_names sp" "entry_at sp' fl name entry"
      "is_entry sp' entry = Some (e\<lparr>ie_index := x\<rparr>)" "is_table_next sp' = is_table_next sp"
    using hash_delete_ok [OF right_at_get(2,5,6,4) [OF at] hash] by blast
  show ?thesis
    using * right_at_get(7,8) [OF at]
    by (intro exI [of _ "put_space space sp' s\<lparr>ks_hash := h\<rparr>"] exI [of _ sp'] exI [of _ x])
      (simp add: right_at_def put_space_def)
qed

section \<open>Entries of dead ports\<close>

lemma right_check_alive:
  assumes "right_at s space sp its_size fl claimed name entry e"
    and "ks_ports s (ie_object e) = Some p" and "io_active p"
  shows "ipc_right_check space (ie_object e) name entry s = Some (False, s)"
  using assms right_at_get [OF assms(1)] by (simp add: ipc_right_check_def)

lemma port_release_eq:
  assumes "ks_ports s port = Some p" and "0 < io_references p" and "io_references p \<le> IO_MAX_REFERENCES"
  shows "ipc_port_release port s = Some (s\<lparr>ks_ports := (ks_ports s)(port := if io_references p = 1 then None
    else Some (p\<lparr>io_references := io_references p - 1\<rparr>))\<rparr>)"
proof -
  have "io_references p - 1 = 0 \<longleftrightarrow> io_references p = 1" by (metis diff_eq_eq add_0)
  with assms show ?thesis
    by (simp add: ipc_port_release_def ip_release_def io_release_def ip_check_unlock_def put_port_def)
qed

text \<open>What a send or send-once right looks like whose port may be dead.\<close>

definition stale_right :: "kernel \<Rightarrow> ipc_space_t \<Rightarrow> ipc_space \<Rightarrow> mach_port_name_t \<Rightarrow> ipc_entry_t \<Rightarrow> ipc_entry \<Rightarrow> bool" where
  "stale_right s space sp name entry e \<longleftrightarrow>
     (IE_BITS_TYPE (ie_bits e) = MACH_PORT_TYPE_SEND \<and> 0 < IE_BITS_UREFS (ie_bits e) \<and>
        right_hashed s space sp name entry e \<or>
      IE_BITS_TYPE (ie_bits e) = MACH_PORT_TYPE_SEND_ONCE \<and> IE_BITS_UREFS (ie_bits e) = 1) \<and>
     (ie_request e \<noteq> 0 \<longrightarrow> IE_BITS_UREFS (ie_bits e) < MACH_PORT_UREFS_MAX)"

lemma right_check_dead:
  assumes at: "right_at s space sp its_size fl claimed name entry e" and stale: "stale_right s space sp name entry e"
    and p: "ks_ports s (ie_object e) = Some p" "\<not> io_active p" "0 < io_references p" "io_references p \<le> IO_MAX_REFERENCES"
  shows "\<exists>s' sp' e'. ipc_right_check space (ie_object e) name entry s = Some (True, s') \<and>
    right_at s' space sp' its_size fl claimed name entry e' \<and> is_names sp' = (is_names sp)(name := ie_right e') \<and>
    IE_BITS_TYPE (ie_bits e') = MACH_PORT_TYPE_DEAD_NAME \<and> ie_object e' = IO_NULL \<and> ie_request e' = 0 \<and>
    IE_BITS_UREFS (ie_bits e') = IE_BITS_UREFS (ie_bits e) + (if ie_request e = 0 then 0 else 1) \<and>
    ks_events s' = ks_events s \<and>
    ks_ports s' = (ks_ports s)(ie_object e := if io_references p = 1 then None
      else Some (p\<lparr>io_references := io_references p - 1\<rparr>))"
proof -
  let ?bits = "bits_clear (ie_bits e) IE_BITS_TYPE_MASK OR MACH_PORT_TYPE_DEAD_NAME"
  let ?new = "if ie_request e \<noteq> 0 then ?bits + 1 else ?bits"
  let ?f = "\<lambda>e. e\<lparr>ie_request := 0, ie_bits := ?new, ie_object := IO_NULL\<rparr>"
  define q where "q = (if io_references p = 1 then None else Some (p\<lparr>io_references := io_references p - 1\<rparr>))"
  let ?s1 = "s\<lparr>ks_ports := (ks_ports s)(ie_object e := q)\<rparr>"
  have s1: "ipc_port_release (ie_object e) s = Some ?s1" unfolding q_def by (rule port_release_eq [OF p(1,3,4)])
  have at1: "right_at ?s1 space sp its_size fl claimed name entry e" using at by (rule right_at_spaces) simp_all
  have s2: "\<exists>s2 sp2 x. (if has (ie_bits e) MACH_PORT_TYPE_SEND \<and> \<not> has (ie_bits e) MACH_PORT_TYPE_RECEIVE
      then ipc_hash_delete space (ie_object e) name entry ?s1 else Some ?s1) = Some s2 \<and>
      right_at s2 space sp2 its_size fl claimed name entry (e\<lparr>ie_index := x\<rparr>) \<and> is_names sp2 = is_names sp \<and>
      ks_events s2 = ks_events s \<and> ks_ports s2 = ks_ports ?s1"
  proof (cases "IE_BITS_TYPE (ie_bits e) = MACH_PORT_TYPE_SEND")
    case True
    then have hash: "right_hashed ?s1 space sp name entry e"
      using stale by (auto simp: stale_right_def right_hashed_def IH_GLOBAL_HASH_def split: ipc_entry_t.split)
    show ?thesis
      using right_at_hash_delete [OF at1 hash] True by (simp add: has_type) blast
  next
    case False
    then have "IE_BITS_TYPE (ie_bits e) = MACH_PORT_TYPE_SEND_ONCE" using stale by (auto simp: stale_right_def)
    then show ?thesis using at1
      by (intro exI [of _ ?s1] exI [of _ sp] exI [of _ "ie_index e"]) (simp add: has_type)
  qed
  then obtain s2 sp2 x where s2: "(if has (ie_bits e) MACH_PORT_TYPE_SEND \<and> \<not> has (ie_bits e) MACH_PORT_TYPE_RECEIVE
      then ipc_hash_delete space (ie_object e) name entry ?s1 else Some ?s1) = Some s2"
      "right_at s2 space sp2 its_size fl claimed name entry (e\<lparr>ie_index := x\<rparr>)" "is_names sp2 = is_names sp"
      "ks_events s2 = ks_events s" "ks_ports s2 = ks_ports ?s1" by blast
  have bits: "IE_BITS_TYPE ?new = MACH_PORT_TYPE_DEAD_NAME" "IE_BITS_GEN ?new = IE_BITS_GEN (ie_bits e)"
      "has ?new IE_BITS_COLLISION = has (ie_bits e) IE_BITS_COLLISION"
      "IE_BITS_UREFS ?new = IE_BITS_UREFS (ie_bits e) + (if ie_request e = 0 then 0 else 1)"
  proof -
    have plus: "IE_BITS_UREFS ?bits + 1 \<le> 0xffff" if "ie_request e \<noteq> 0"
      using that stale by (simp add: stale_right_def dead_name_fields inc_le)
    note plus_fields = bits_plus_fields [OF plus]
    show "IE_BITS_TYPE ?new = MACH_PORT_TYPE_DEAD_NAME" "IE_BITS_GEN ?new = IE_BITS_GEN (ie_bits e)"
      "IE_BITS_UREFS ?new = IE_BITS_UREFS (ie_bits e) + (if ie_request e = 0 then 0 else 1)"
      using plus_fields(1-3) by (simp_all add: dead_name_fields)
    show "has ?new IE_BITS_COLLISION = has (ie_bits e) IE_BITS_COLLISION"
      using spare_collision [OF plus_fields(4)] by (simp add: dead_name_collision)
  qed
  obtain sp3 where sp3: "upd_entry space entry ?f s2 = Some (put_space space sp3 s2)"
      "is_names sp3 = (is_names sp)(name := ie_right (?f (e\<lparr>ie_index := x\<rparr>)))"
      "right_at (put_space space sp3 s2) space sp3 its_size fl claimed name entry (?f (e\<lparr>ie_index := x\<rparr>))"
    using right_at_update [OF s2(2), of ?f] bits s2(3) by auto
  have "ipc_right_check space (ie_object e) name entry s = Some (True, put_space space sp3 s2)"
    using right_at_get [OF at] p stale s1 s2(1) sp3(1)
    by (auto simp: ipc_right_check_def stale_right_def has_type dead_name_fields Let_def)
  then show ?thesis using sp3 bits s2(4,5) unfolding q_def [symmetric]
    by (intro exI [of _ "put_space space sp3 s2"] exI [of _ sp3] exI [of _ "?f (e\<lparr>ie_index := x\<rparr>)"]) simp
qed

section \<open>User references\<close>

lemma right_at_plus:
  assumes at: "right_at s space sp its_size fl claimed name entry e"
    and plus: "IE_BITS_UREFS (ie_bits e) + d \<le> MACH_PORT_UREFS_MAX" and type: "IE_BITS_TYPE (ie_bits e) \<noteq> 0"
  defines "bits \<equiv> ie_bits e + d"
  shows "\<exists>sp'. upd_entry space entry (ie_bits_update (\<lambda>_. bits)) s = Some (put_space space sp' s) \<and>
    is_names sp' = (is_names sp)(name \<mapsto> (ie_object e, bits AND IE_BITS_RIGHT_MASK, ie_request e)) \<and>
    right_at (put_space space sp' s) space sp' its_size fl claimed name entry (e\<lparr>ie_bits := bits\<rparr>)"
    and "IE_BITS_TYPE (bits AND IE_BITS_RIGHT_MASK) = IE_BITS_TYPE (ie_bits e)"
    and "IE_BITS_UREFS (bits AND IE_BITS_RIGHT_MASK) = IE_BITS_UREFS (ie_bits e) + d"
proof -
  note fields = bits_plus_fields [OF plus, folded bits_def]
  show "IE_BITS_TYPE (bits AND IE_BITS_RIGHT_MASK) = IE_BITS_TYPE (ie_bits e)"
    "IE_BITS_UREFS (bits AND IE_BITS_RIGHT_MASK) = IE_BITS_UREFS (ie_bits e) + d"
    using fields by (simp_all add: right_mask_fields)
  show "\<exists>sp'. upd_entry space entry (ie_bits_update (\<lambda>_. bits)) s = Some (put_space space sp' s) \<and>
      is_names sp' = (is_names sp)(name \<mapsto> (ie_object e, bits AND IE_BITS_RIGHT_MASK, ie_request e)) \<and>
      right_at (put_space space sp' s) space sp' its_size fl claimed name entry (e\<lparr>ie_bits := bits\<rparr>)"
    using right_at_update [OF at, of "ie_bits_update (\<lambda>_. bits)"] fields spare_collision [OF fields(4)] type
    by (simp add: ie_right_def)
qed

text \<open>Giving up an entry: what \<^verbatim>\<open>ipc_entry_dealloc\<close> needs when the table element of the entry has
  to take in a name from the tree.\<close>

definition dealloc_ready :: "kernel \<Rightarrow> ipc_space_t \<Rightarrow> ipc_space \<Rightarrow> ipc_entry_t set \<Rightarrow> ipc_entry_t \<Rightarrow> ipc_entry \<Rightarrow> bool" where
  "dealloc_ready s space sp claimed entry e \<longleftrightarrow>
     (\<forall>i. entry = Table_entry i \<and> has (ie_bits e) IE_BITS_COLLISION \<longrightarrow>
        collision_hashed s space sp i \<and> (\<forall>n. name_index n = i \<longrightarrow> Tree_entry n \<notin> claimed))"

lemma right_at_dealloc:
  assumes at: "right_at s space sp its_size fl claimed name entry e" and null: "ie_object e = IO_NULL" "ie_request e = 0"
    and ready: "dealloc_ready s space sp claimed entry e"
  shows "\<exists>s' sp' fl'. ipc_entry_dealloc space name entry s = Some s' \<and> ks_spaces s' space = Some sp' \<and>
    space_ok sp' its_size fl' claimed \<and> is_names sp' = (is_names sp)(name := None) \<and>
    ks_ports s' = ks_ports s \<and> ks_events s' = ks_events s \<and> ks_free_memory s' = ks_free_memory s"
proof -
  obtain sp' fl' h where *: "ipc_entry_dealloc space name entry s = Some (put_space space sp' s\<lparr>ks_hash := h\<rparr>)"
      "space_ok sp' its_size fl' (claimed - {entry})" "is_names sp' = (is_names sp)(name := None)"
    using dealloc_spec [OF right_at_get(2,5,8,6,4) [OF at] null] ready
    by (auto simp: dealloc_ready_def)
  then show ?thesis using right_at_get(7) [OF at]
    by (intro exI [of _ "put_space space sp' s\<lparr>ks_hash := h\<rparr>"] exI [of _ sp'] exI [of _ fl']) simp
qed

lemma UREFS_le: "uint (IE_BITS_UREFS b) \<le> 0xffff"
  using UREFS_bound [of b] by (simp add: word_le_def del: UREFS_bound)

lemma delta_dead_spec:
  assumes at: "right_at s space sp its_size fl claimed name entry e"
    and dead: "IE_BITS_TYPE (ie_bits e) = MACH_PORT_TYPE_DEAD_NAME" "0 < IE_BITS_UREFS (ie_bits e)"
      "ie_object e = IO_NULL" "ie_request e = 0"
    and ready: "dealloc_ready s space sp claimed entry e"
    and n: "n = uint (IE_BITS_UREFS (ie_bits e)) + sint delta"
  shows "if n < 0 then ipc_right_delta space name entry MACH_PORT_RIGHT_DEAD_NAME delta s = Some (KERN_INVALID_VALUE, s)
    else if 0xffff < n then
      ipc_right_delta space name entry MACH_PORT_RIGHT_DEAD_NAME delta s = Some (KERN_UREFS_OVERFLOW, s)
    else \<exists>s' sp' fl'.
      ipc_right_delta space name entry MACH_PORT_RIGHT_DEAD_NAME delta s = Some (KERN_SUCCESS, s') \<and>
      ks_spaces s' space = Some sp' \<and> space_ok sp' its_size fl' claimed \<and>
      ks_ports s' = ks_ports s \<and> ks_events s' = ks_events s \<and>
      (if n = 0 then is_names sp' = (is_names sp)(name := None)
       else \<exists>r. is_names sp' = (is_names sp)(name \<mapsto> (IO_NULL, r, 0)) \<and>
         IE_BITS_TYPE r = MACH_PORT_TYPE_DEAD_NAME \<and> uint (IE_BITS_UREFS r) = n)"
proof -
  let ?u = "IE_BITS_UREFS (ie_bits e)"
  note u = UREFS_bound [of "ie_bits e"]
  have start: "ipc_right_delta space name entry MACH_PORT_RIGHT_DEAD_NAME delta s =
      (if n < 0 then Some (KERN_INVALID_VALUE, s) else if 0xffff < n then Some (KERN_UREFS_OVERFLOW, s)
       else do { s \<leftarrow> (if ?u + delta = 0 then ipc_entry_dealloc space name entry s
                       else upd_entry space entry (ie_bits_update (\<lambda>_. ie_bits e + delta)) s);
                 Some (KERN_SUCCESS, s) })"
    using right_at_get [OF at] dead u urefs_tests [OF u, of delta] n UREFS_le [of "ie_bits e"]
    by (auto simp: ipc_right_delta_def ipc_right_delta_dead_name_def ipc_right_delta_dead_def has_type Let_def)
  show ?thesis
  proof (cases "0 \<le> n \<and> n \<le> 0xffff")
    case True
    then have plus: "uint (?u + delta) = n" "?u + delta \<le> 0xffff" using urefs_plus [OF u, of delta] n by auto
    show ?thesis
    proof (cases "n = 0")
      case zero: True
      then have "?u + delta = 0" using plus(1) by (simp add: word_uint_eq_iff)
      then show ?thesis using start True zero right_at_dealloc [OF at dead(3,4) ready] by auto
    next
      case False
      then have nz: "?u + delta \<noteq> 0" using plus(1) by auto
      have type: "IE_BITS_TYPE (ie_bits e) \<noteq> 0" using dead(1) by simp
      note upd = right_at_plus [OF at plus(2) type]
      show ?thesis using start True False nz upd dead plus(1) by (fastforce simp: right_at_def)
    qed
  qed (use start in auto)
qed

text \<open>A live send right, alone or together with the receive right.\<close>

definition live_send :: "kernel \<Rightarrow> ipc_entry \<Rightarrow> ipc_port \<Rightarrow> bool" where
  "live_send s e p \<longleftrightarrow>
     (IE_BITS_TYPE (ie_bits e) = MACH_PORT_TYPE_SEND \<or> IE_BITS_TYPE (ie_bits e) = MACH_PORT_TYPE_SEND_RECEIVE) \<and>
     0 < IE_BITS_UREFS (ie_bits e) \<and> IE_BITS_UREFS (ie_bits e) < MACH_PORT_UREFS_MAX \<and>
     ie_object e \<noteq> IP_NULL \<and> ks_ports s (ie_object e) = Some p \<and> io_active p \<and> 0 < ip_srights p"

lemma delta_send_start:
  assumes at: "right_at s space sp its_size fl claimed name entry e" and live: "live_send s e p"
    and n: "n = uint (IE_BITS_UREFS (ie_bits e)) + sint delta"
  shows "ipc_right_delta space name entry MACH_PORT_RIGHT_SEND delta s =
      (if n < 0 then Some (KERN_INVALID_VALUE, s) else if 0xffff \<le> n then Some (KERN_UREFS_OVERFLOW, s)
       else do { s \<leftarrow> (if n = 0 then ipc_right_delta_last_send space name entry (ie_bits e) (ie_object e) s
                       else upd_entry space entry (ie_bits_update (\<lambda>_. ie_bits e + delta)) s);
                 Some (KERN_SUCCESS, s) })"
proof -
  let ?u = "IE_BITS_UREFS (ie_bits e)"
  have u: "?u \<le> 0xffff" "uint ?u < 0xffff" using live by (simp_all add: live_send_def word_less_def)
  have u1: "uint (?u + 1) = uint ?u + 1" "?u + 1 \<le> 0xffff" using urefs_plus [OF u(1), of 1] u(2) by simp_all
  have zero: "?u + delta = 0 \<longleftrightarrow> n = 0" if "0 \<le> n" "n \<le> 0xffff"
    using urefs_plus(1) [OF u(1), of delta] that n by (simp add: word_uint_eq_iff)
  have "ipc_right_check space (ie_object e) name entry s = Some (False, s)"
    using right_check_alive [OF at] live by (simp add: live_send_def)
  then show ?thesis
    using right_at_get [OF at] live urefs_tests [OF u(1), of delta] urefs_tests [OF u1(2), of delta] u1(1) u(2) n zero
    by (auto simp: ipc_right_delta_def ipc_right_delta_send_def has_type Let_def live_send_def)
qed

lemma delta_send_spec:
  assumes at: "right_at s space sp its_size fl claimed name entry e" and live: "live_send s e p"
    and n: "n = uint (IE_BITS_UREFS (ie_bits e)) + sint delta" "n \<noteq> 0"
  shows "if n < 0 then ipc_right_delta space name entry MACH_PORT_RIGHT_SEND delta s = Some (KERN_INVALID_VALUE, s)
    else if 0xffff \<le> n then
      ipc_right_delta space name entry MACH_PORT_RIGHT_SEND delta s = Some (KERN_UREFS_OVERFLOW, s)
    else \<exists>sp' r. ipc_right_delta space name entry MACH_PORT_RIGHT_SEND delta s = Some (KERN_SUCCESS, put_space space sp' s) \<and>
      space_ok sp' its_size fl claimed \<and> is_names sp' = (is_names sp)(name \<mapsto> (ie_object e, r, ie_request e)) \<and>
      IE_BITS_TYPE r = IE_BITS_TYPE (ie_bits e) \<and> uint (IE_BITS_UREFS r) = n"
proof (cases "0 \<le> n \<and> n < 0xffff")
  case True
  have plus: "uint (IE_BITS_UREFS (ie_bits e) + delta) = n" "IE_BITS_UREFS (ie_bits e) + delta \<le> 0xffff"
    using urefs_plus [OF UREFS_bound, of "ie_bits e" delta] n True by auto
  have "IE_BITS_TYPE (ie_bits e) \<noteq> 0" using live by (auto simp: live_send_def)
  note upd = right_at_plus [OF at plus(2) this]
  show ?thesis using delta_send_start [OF at live n(1)] True n(2) upd plus(1) by (fastforce simp: right_at_def)
qed (use delta_send_start [OF at live n(1)] n(2) in auto)

section \<open>The last user reference of a send right\<close>

abbreviation drop_srights :: "ipc_port \<Rightarrow> ipc_port" where
  "drop_srights p \<equiv> p\<lparr>ip_srights := ip_srights p - 1,
     ip_nsrequest := if ip_srights p = 1 then IP_NULL else ip_nsrequest p\<rparr>"

lemma lose_send_spec:
  assumes "ks_ports s port = Some p"
  shows "ipc_right_lose_send port s = Some
    (if ip_srights p = 1 \<and> ip_nsrequest p \<noteq> IP_NULL then Some (ip_nsrequest p, ip_mscount p) else None,
     put_port port (drop_srights p) s)"
proof -
  have one: "ip_srights p - 1 = 0 \<longleftrightarrow> ip_srights p = 1" by (metis diff_eq_eq add_0)
  have eq: "drop_srights p = (if ip_srights p = 1 \<and> ip_nsrequest p \<noteq> IP_NULL
      then p\<lparr>ip_srights := ip_srights p - 1, ip_nsrequest := IP_NULL\<rparr> else p\<lparr>ip_srights := ip_srights p - 1\<rparr>)"
    by (rule ipc_port.equality) simp_all
  show ?thesis unfolding eq using assms one by (simp add: ipc_right_lose_send_def Let_def)
qed

lemma notify_spec:
  assumes "ns \<noteq> None \<Longrightarrow> memory_left 1 s"
  shows "\<exists>s'. ipc_right_notify name ns IP_NULL s = Some s' \<and> ks_ports s' = ks_ports s \<and> ks_spaces s' = ks_spaces s \<and>
    ks_events s' = ks_events s @ (case ns of None \<Rightarrow> [] | Some (n, mscount) \<Rightarrow> [Sent_no_senders n mscount])"
proof (cases ns)
  case (Some x)
  obtain a as where m: "ks_free_memory s = a # as" "a \<noteq> 0"
    using assms Some by (cases "ks_free_memory s") (auto simp: memory_left_def)
  then show ?thesis using Some
    by (cases x) (simp add: ipc_right_notify_def ipc_notify_no_senders_def ipc_notify_send_def kalloc_def log_event_def)
qed (simp add: ipc_right_notify_def)

text \<open>Deallocating the last user reference of a send right without a dead-name request: the common
  end of \<^verbatim>\<open>ipc_right_dealloc\<close> and \<^verbatim>\<open>ipc_right_delta\<close>.\<close>

lemma dealloc_send_spec:
  assumes at: "right_at s space sp its_size fl claimed name entry e" and live: "live_send s e p"
    and send: "IE_BITS_TYPE (ie_bits e) = MACH_PORT_TYPE_SEND" "IE_BITS_UREFS (ie_bits e) = 1" "ie_request e = 0"
    and hash: "right_hashed s space sp name entry e" and alone: "\<not> has (ie_bits e) IE_BITS_COLLISION"
    and refs: "0 < io_references p" "io_references p \<le> IO_MAX_REFERENCES"
    and mem: "ip_srights p = 1 \<Longrightarrow> ip_nsrequest p \<noteq> IP_NULL \<Longrightarrow> memory_left 1 s"
  shows "\<exists>s' sp' fl'. ipc_right_dealloc space name entry s = Some (KERN_SUCCESS, s') \<and>
    ks_spaces s' space = Some sp' \<and> space_ok sp' its_size fl' claimed \<and> is_names sp' = (is_names sp)(name := None) \<and>
    ks_ports s' = (ks_ports s)(ie_object e \<mapsto> (drop_srights p)\<lparr>io_references := io_references p - 1\<rparr>) \<and>
    ks_events s' = ks_events s @
      (if ip_srights p = 1 \<and> ip_nsrequest p \<noteq> IP_NULL then [Sent_no_senders (ip_nsrequest p) (ip_mscount p)] else [])"
proof -
  let ?port = "ie_object e"
  let ?s1 = "put_port ?port (drop_srights p) s"
  let ?ns = "if ip_srights p = 1 \<and> ip_nsrequest p \<noteq> IP_NULL then Some (ip_nsrequest p, ip_mscount p) else None"
  have p: "ks_ports s ?port = Some p" "io_active p" "?port \<noteq> IP_NULL" "0 < ip_srights p" using live by (auto simp: live_send_def)
  have at1: "right_at ?s1 space sp its_size fl claimed name entry e"
    using at by (rule right_at_spaces) (simp_all add: put_port_def)
  have hash1: "right_hashed ?s1 space sp name entry e"
    using hash by (auto simp: right_hashed_def IH_GLOBAL_HASH_def put_port_def split: ipc_entry_t.splits)
  obtain s2 sp2 x where s2: "ipc_hash_delete space ?port name entry ?s1 = Some s2"
      "right_at s2 space sp2 its_size fl claimed name entry (e\<lparr>ie_index := x\<rparr>)" "is_names sp2 = is_names sp"
      "ks_events s2 = ks_events s" "ks_ports s2 = (ks_ports s)(?port \<mapsto> drop_srights p)" "ks_free_memory s2 = ks_free_memory s"
    using right_at_hash_delete [OF at1 hash1] by (auto simp: ports_put_port)
  let ?s3 = "put_port ?port ((drop_srights p)\<lparr>io_references := io_references p - 1\<rparr>) s2"
  have s3: "ip_release ?port s2 = Some ?s3" using s2(5) refs by (simp add: ip_release_def io_release_def)
  have at3: "right_at ?s3 space sp2 its_size fl claimed name entry (e\<lparr>ie_index := x\<rparr>)"
    using s2(2) by (rule right_at_spaces) (simp_all add: put_port_def)
  let ?e4 = "e\<lparr>ie_index := x, ie_object := IO_NULL\<rparr>"
  obtain sp4 where s4: "upd_entry space entry (ie_object_update (\<lambda>_. IO_NULL)) ?s3 = Some (put_space space sp4 ?s3)"
      "is_names sp4 = (is_names sp2)(name := ie_right ?e4)"
      "right_at (put_space space sp4 ?s3) space sp4 its_size fl claimed name entry ?e4"
    using right_at_update [OF at3, of "ie_object_update (\<lambda>_. IO_NULL)"] send by auto
  obtain s5 sp5 fl5 where s5: "ipc_entry_dealloc space name entry (put_space space sp4 ?s3) = Some s5"
      "ks_spaces s5 space = Some sp5" "space_ok sp5 its_size fl5 claimed" "is_names sp5 = (is_names sp4)(name := None)"
      "ks_ports s5 = ks_ports ?s3" "ks_events s5 = ks_events s" "ks_free_memory s5 = ks_free_memory s"
    using right_at_dealloc [OF s4(3)] send alone s2(4,6) by (auto simp: dealloc_ready_def)
  have "memory_left 1 s5" if "?ns \<noteq> None" using that mem s5(7) by (auto simp: memory_left_def split: if_splits)
  then obtain s6 where s6: "ipc_right_notify name ?ns IP_NULL s5 = Some s6" "ks_ports s6 = ks_ports s5" "ks_spaces s6 = ks_spaces s5"
      "ks_events s6 = ks_events s5 @ (case ?ns of None \<Rightarrow> [] | Some (n, mscount) \<Rightarrow> [Sent_no_senders n mscount])"
    using notify_spec [of ?ns s5 name] by blast
  have "ipc_right_check space ?port name entry s = Some (False, s)" using right_check_alive [OF at p(1,2)] .
  then have "ipc_right_dealloc space name entry s = Some (KERN_SUCCESS, s6)"
    using right_at_get(1-3) [OF at] right_at_get(1) [OF at1] p send s2(1) s3 s4(1) s5(1) s6(1) lose_send_spec [OF p(1)]
    by (simp add: ipc_right_dealloc_def ipc_right_dealloc_send_def ipc_right_dncancel_macro_def Let_def)
  then show ?thesis using s6 s5 s4(2) s2(3,5)
    by (intro exI [of _ s6] exI [of _ sp5] exI [of _ fl5]) (auto simp: ports_put_port)
qed

section \<open>Operations that the entry has no right for\<close>

lemma delta_wrong_spec:
  assumes "get_entry space entry s = Some e" and "ks_spaces s space = Some sp" and "is_active sp"
    and "\<not> has (ie_bits e) (MACH_PORT_TYPE rt)"
    and "has (ie_bits e) MACH_PORT_TYPE_SEND_RIGHTS \<Longrightarrow>
      ie_object e \<noteq> IP_NULL \<and> (\<exists>p. ks_ports s (ie_object e) = Some p \<and> io_active p)"
  shows "ipc_right_delta space name entry rt delta s = Some (KERN_INVALID_RIGHT, s)"
proof (cases rt)
  case MACH_PORT_RIGHT_DEAD_NAME
  show ?thesis
  proof (cases "has (ie_bits e) MACH_PORT_TYPE_SEND_RIGHTS")
    case True
    then obtain p where p: "ks_ports s (ie_object e) = Some p" "io_active p" "ie_object e \<noteq> IP_NULL" using assms(5) by blast
    then have "ipc_right_check space (ie_object e) name entry s = Some (False, s)"
      using assms(1-3) by (simp add: ipc_right_check_def)
    then show ?thesis using assms p True MACH_PORT_RIGHT_DEAD_NAME
      by (simp add: ipc_right_delta_def ipc_right_delta_dead_name_def)
  qed (use assms MACH_PORT_RIGHT_DEAD_NAME in
      \<open>simp add: ipc_right_delta_def ipc_right_delta_dead_name_def MACH_PORT_TYPE_def Let_def\<close>)
qed (use assms in \<open>simp_all add: ipc_right_delta_def ipc_right_delta_port_set_def ipc_right_delta_receive_def
    ipc_right_delta_send_once_def ipc_right_delta_send_def MACH_PORT_TYPE_def Let_def\<close>)

section \<open>Copyin\<close>

definition right_unhashed ::
  "kernel \<Rightarrow> ipc_space_t \<Rightarrow> ipc_space \<Rightarrow> mach_port_name_t \<Rightarrow> ipc_entry_t \<Rightarrow> ipc_entry \<Rightarrow> bool" where
  "right_unhashed s space sp name entry e \<longleftrightarrow> (case entry of
      Table_entry i \<Rightarrow> space_hash_ok sp \<and> i \<notin> hashed (is_table sp) \<and>
        (\<forall>j \<in> hashed (is_table sp). ie_object (is_table sp ! j) \<noteq> ie_object e)
    | Tree_entry n \<Rightarrow> \<not> is_fast sp \<and> is_tree_hash sp + 1 \<le> is_tree_total sp)"

text \<open>What the assertions of the code say about an entry of an active space, its port and the hash
  tables. A right whose port has died is still well typed.\<close>

definition right_typed ::
  "kernel \<Rightarrow> ipc_space_t \<Rightarrow> ipc_space \<Rightarrow> mach_port_name_t \<Rightarrow> ipc_entry_t \<Rightarrow> ipc_entry \<Rightarrow> bool" where
  "right_typed s space sp name entry e \<longleftrightarrow>
    (let type = IE_BITS_TYPE (ie_bits e); urefs = IE_BITS_UREFS (ie_bits e); port = ie_object e in
       (type = MACH_PORT_TYPE_DEAD_NAME \<longrightarrow> 0 < urefs \<and> port = IO_NULL) \<and>
       (type \<in> {MACH_PORT_TYPE_SEND, MACH_PORT_TYPE_RECEIVE, MACH_PORT_TYPE_SEND_RECEIVE, MACH_PORT_TYPE_SEND_ONCE} \<longrightarrow>
          port \<noteq> IP_NULL \<and> (\<exists>p. ks_ports s port = Some p \<and> 0 < io_references p \<and> io_references p < IO_MAX_REFERENCES \<and>
            (type = MACH_PORT_TYPE_SEND \<longrightarrow>
               0 < urefs \<and> right_hashed s space sp name entry e \<and> (io_active p \<longrightarrow> 0 < ip_srights p)) \<and>
            (type = MACH_PORT_TYPE_SEND_ONCE \<longrightarrow> urefs = 1 \<and> (io_active p \<longrightarrow> 0 < ip_sorights p)) \<and>
            (type = MACH_PORT_TYPE_RECEIVE \<or> type = MACH_PORT_TYPE_SEND_RECEIVE \<longrightarrow>
               io_active p \<and> io_receiver_name p = name \<and> ip_receiver p = space) \<and>
            (type = MACH_PORT_TYPE_RECEIVE \<longrightarrow> urefs = 0) \<and>
            (type = MACH_PORT_TYPE_SEND_RECEIVE \<longrightarrow>
               0 < urefs \<and> 0 < ip_srights p \<and> right_unhashed s space sp name entry e))) \<and>
       type \<in> {0, MACH_PORT_TYPE_SEND, MACH_PORT_TYPE_RECEIVE, MACH_PORT_TYPE_SEND_RECEIVE,
         MACH_PORT_TYPE_SEND_ONCE, MACH_PORT_TYPE_PORT_SET, MACH_PORT_TYPE_DEAD_NAME})"

lemma upd_entry_ok:
  assumes "get_entry space entry s = Some e"
  shows "\<exists>s'. upd_entry space entry f s = Some s' \<and> get_entry space entry s' = Some (f e) \<and>
    ks_ports s' = ks_ports s \<and> ks_psets s' = ks_psets s"
proof -
  obtain sp where sp: "ks_spaces s space = Some sp" "is_entry sp entry = Some e"
    using assms by (auto simp: get_entry_def split: bind_splits)
  show ?thesis
  proof (cases entry)
    case (Table_entry i)
    then show ?thesis using sp by (auto simp: upd_entry_def get_entry_def array_get_eq_Some)
  next
    case (Tree_entry n)
    then show ?thesis using sp by (auto simp: upd_entry_def get_entry_def tree_map_update)
  qed
qed

lemma clear_receiver_ok:
  assumes ok: "sets_ok s" and p: "ks_ports s port = Some p" "io_active p"
  shows "\<exists>s' p'. ipc_port_clear_receiver port s = Some s' \<and> ks_ports s' port = Some p'"
proof (cases "ip_pset_count p = 0")
  case True
  then show ?thesis using p
    by (simp add: ipc_port_clear_receiver_def upd_port_def log_event_def ipc_port_set_mscount_def Let_def put_port_def)
next
  case False
  then have "port_sets p \<noteq> []" using pset_count_zero [OF ok p(1)] by simp
  then show ?thesis using False p pset_remove_all_spec(1) [OF ok p]
    by (simp add: io_active_def ipc_port_clear_receiver_def upd_port_def log_event_def ipc_port_set_mscount_def Let_def put_port_def)
qed

lemma sets_ok_cong:
  "ks_ports s' = ks_ports s \<Longrightarrow> ks_psets s' = ks_psets s \<Longrightarrow> sets_ok s' = sets_ok s"
  by (simp add: sets_ok_def linked_def)

lemma sets_ok_put_port:
  assumes "sets_ok s" and "ks_ports s port = Some p" and "port_sets p' = port_sets p" and "ip_pset_count p' = ip_pset_count p"
  shows "sets_ok (put_port port p' s)"
proof -
  have "linked (put_port port p' s) = linked s"
    using assms by (auto simp: linked_def ports_put_port fun_eq_iff split: if_splits)
  then show ?thesis using assms by (auto simp: sets_ok_def ports_put_port)
qed

lemma move_dead_ok:
  assumes get: "get_entry space entry s = Some e" and dead: "IE_BITS_TYPE (ie_bits e) = MACH_PORT_TYPE_DEAD_NAME"
      "0 < IE_BITS_UREFS (ie_bits e)" "ie_object e = IO_NULL" "ie_request e = 0"
  shows "\<exists>r s'. ipc_right_copyin_move_dead space entry True s = Some (Inr r, s')"
proof -
  let ?b = "if IE_BITS_UREFS (ie_bits e) = 1 then bits_clear (ie_bits e) MACH_PORT_TYPE_DEAD_NAME else ie_bits e"
  obtain s' where "upd_entry space entry (ie_bits_update (\<lambda>_. ?b - 1)) s = Some s'"
    using upd_entry_ok [OF get] by blast
  then have "ipc_right_copyin_move_dead space entry True s = Some (Inr (IO_DEAD, IP_NULL), s')"
    using get dead by (simp add: ipc_right_copyin_move_dead_def Let_def)
  then show ?thesis by blast
qed

text \<open>Sources of send and send-once rights: after \<^verbatim>\<open>ipc_right_check\<close> the entry is a dead name
  that can be given away, or the port is alive and nothing has changed.\<close>

lemma copyin_source_dead:
  assumes at: "right_at s space sp its_size fl claimed name entry e" and typed: "right_typed s space sp name entry e"
    and req: "ie_request e = 0" and bits: "bits = ie_bits e"
    and type: "IE_BITS_TYPE bits \<in> {MACH_PORT_TYPE_SEND, MACH_PORT_TYPE_SEND_RECEIVE, MACH_PORT_TYPE_SEND_ONCE}"
  obtains p where "ks_ports s (ie_object e) = Some p" "io_active p"
      "ipc_right_copyin_source space name entry bits s = Some (Live_source (ie_object e), s)"
    | p s' where "ks_ports s (ie_object e) = Some p" "\<not> io_active p"
      "ipc_right_copyin_source space name entry bits s = Some (Dead_source, s')"
      "\<exists>r s''. ipc_right_copyin_copy_dead space entry True s' = Some (Inr r, s'')"
      "\<exists>r s''. ipc_right_copyin_move_dead space entry True s' = Some (Inr r, s'')"
proof -
  obtain p where p: "ks_ports s (ie_object e) = Some p" "ie_object e \<noteq> IP_NULL" "0 < io_references p"
      "io_references p < IO_MAX_REFERENCES" "0 < IE_BITS_UREFS bits"
    using typed type bits by (auto simp: right_typed_def Let_def)
  have start: "has bits MACH_PORT_TYPE_SEND_RIGHTS" "\<not> has bits MACH_PORT_TYPE_DEAD_NAME"
    using type by (auto simp: has_type)
  show thesis
  proof (cases "io_active p")
    case True
    then show ?thesis
      using that(1) [OF p(1) True] start p right_at_get(1) [OF at] right_check_alive [OF at p(1) True] bits
      by (simp add: ipc_right_copyin_source_def)
  next
    case False
    then have stale: "stale_right s space sp name entry e"
      using typed type p(1) req bits by (auto simp: right_typed_def stale_right_def Let_def)
    obtain s' sp' e' where s': "ipc_right_check space (ie_object e) name entry s = Some (True, s')"
        "right_at s' space sp' its_size fl claimed name entry e'" "IE_BITS_TYPE (ie_bits e') = MACH_PORT_TYPE_DEAD_NAME"
        "ie_object e' = IO_NULL" "ie_request e' = 0" "IE_BITS_UREFS (ie_bits e') = IE_BITS_UREFS (ie_bits e)"
      using right_check_dead [OF at stale p(1) False p(3) order_less_imp_le [OF p(4)]] req by auto
    note get = right_at_get(1) [OF s'(2)]
    have urefs: "0 < IE_BITS_UREFS (ie_bits e')" using s'(6) p(5) bits by simp
    show ?thesis
    proof (rule that(2) [OF p(1) False])
      show "ipc_right_copyin_source space name entry bits s = Some (Dead_source, s')"
        using start p right_at_get(1) [OF at] s'(1) bits by (simp add: ipc_right_copyin_source_def)
      show "\<exists>r s''. ipc_right_copyin_copy_dead space entry True s' = Some (Inr r, s'')"
        using get urefs s' by (simp add: ipc_right_copyin_copy_dead_def)
      show "\<exists>r s''. ipc_right_copyin_move_dead space entry True s' = Some (Inr r, s'')"
        using move_dead_ok [OF get s'(3) urefs s'(4,5)] .
    qed
  qed
qed

text \<open>The six cases of \<^verbatim>\<open>ipc_right_copyin\<close>.\<close>

lemma copyin_make_ok:
  assumes at: "right_at s space sp its_size fl claimed name entry e" and typed: "right_typed s space sp name entry e"
    and recv: "has (ie_bits e) MACH_PORT_TYPE_RECEIVE"
  shows "\<exists>r s'. ipc_right_copyin_make_send space name entry s = Some (Inr r, s')"
    and "\<exists>r s'. ipc_right_copyin_make_sonce space name entry s = Some (Inr r, s')"
proof -
  have "IE_BITS_TYPE (ie_bits e) \<in> {MACH_PORT_TYPE_RECEIVE, MACH_PORT_TYPE_SEND_RECEIVE}"
    using recv typed by (auto simp: has_type right_typed_def Let_def)
  then obtain p where p: "ks_ports s (ie_object e) = Some p" "ie_object e \<noteq> IP_NULL" "io_active p"
      "io_receiver_name p = name" "ip_receiver p = space" "io_references p < IO_MAX_REFERENCES"
    using typed by (auto simp: right_typed_def Let_def)
  then show "\<exists>r s'. ipc_right_copyin_make_send space name entry s = Some (Inr r, s')"
    "\<exists>r s'. ipc_right_copyin_make_sonce space name entry s = Some (Inr r, s')"
    using recv right_at_get(1) [OF at]
    by (simp_all add: ipc_right_copyin_make_send_def ipc_right_copyin_make_sonce_def ipc_right_copyin_receiver_def
        upd_port_def ip_reference_def io_reference_def Let_def)
qed

lemma copyin_copy_send_ok:
  assumes at: "right_at s space sp its_size fl claimed name entry e" and typed: "right_typed s space sp name entry e"
    and req: "ie_request e = 0"
    and type: "IE_BITS_TYPE (ie_bits e) \<in> {MACH_PORT_TYPE_SEND, MACH_PORT_TYPE_SEND_RECEIVE, MACH_PORT_TYPE_SEND_ONCE}"
    and may: "\<not> has (ie_bits e) MACH_PORT_TYPE_SEND \<Longrightarrow> \<exists>p. ks_ports s (ie_object e) = Some p \<and> \<not> io_active p"
  shows "\<exists>r s'. ipc_right_copyin_copy_send space name entry True s = Some (Inr r, s')"
proof (rule copyin_source_dead [OF at typed req refl type])
  fix p assume p: "ks_ports s (ie_object e) = Some p" "io_active p"
    and source: "ipc_right_copyin_source space name entry (ie_bits e) s = Some (Live_source (ie_object e), s)"
  then have "has (ie_bits e) MACH_PORT_TYPE_SEND" using may by auto
  moreover have "0 < ip_srights p" "io_references p < IO_MAX_REFERENCES"
    using calculation p typed type by (auto simp: right_typed_def Let_def has_type)
  ultimately show ?thesis using p source right_at_get(1) [OF at]
    by (simp add: ipc_right_copyin_copy_send_def upd_port_def ip_reference_def io_reference_def Let_def)
qed (use right_at_get(1) [OF at] in \<open>auto simp: ipc_right_copyin_copy_send_def Let_def\<close>)

lemma copyin_move_sonce_ok:
  assumes at: "right_at s space sp its_size fl claimed name entry e" and typed: "right_typed s space sp name entry e"
    and req: "ie_request e = 0"
    and type: "IE_BITS_TYPE (ie_bits e) \<in> {MACH_PORT_TYPE_SEND, MACH_PORT_TYPE_SEND_RECEIVE, MACH_PORT_TYPE_SEND_ONCE}"
    and may: "\<not> has (ie_bits e) MACH_PORT_TYPE_SEND_ONCE \<Longrightarrow> \<exists>p. ks_ports s (ie_object e) = Some p \<and> \<not> io_active p"
  shows "\<exists>r s'. ipc_right_copyin_move_sonce space name entry True s = Some (Inr r, s')"
proof (rule copyin_source_dead [OF at typed req refl type])
  fix p assume p: "ks_ports s (ie_object e) = Some p" "io_active p"
    and source: "ipc_right_copyin_source space name entry (ie_bits e) s = Some (Live_source (ie_object e), s)"
  then have once: "has (ie_bits e) MACH_PORT_TYPE_SEND_ONCE" using may by auto
  moreover have "IE_BITS_TYPE (ie_bits e) = MACH_PORT_TYPE_SEND_ONCE" "0 < ip_sorights p" "IE_BITS_UREFS (ie_bits e) = 1"
    using once p typed type by (auto simp: right_typed_def Let_def has_type)
  moreover obtain s' where "upd_entry space entry (\<lambda>ea. ea\<lparr>ie_object := IO_NULL,
      ie_bits := bits_clear (ie_bits e) (IE_BITS_UREFS_MASK OR MACH_PORT_TYPE_SEND_ONCE)\<rparr>) s = Some s'"
    using upd_entry_ok [OF right_at_get(1) [OF at]] by blast
  ultimately show ?thesis using p req source right_at_get(1) [OF at]
    by (simp add: ipc_right_copyin_move_sonce_def ipc_right_dncancel_macro_def Let_def)
qed (use right_at_get(1) [OF at] in \<open>auto simp: ipc_right_copyin_move_sonce_def Let_def\<close>)

lemma get_entry_put_port [simp]: "get_entry space entry (put_port a p s) = get_entry space entry s"
  by (simp add: get_entry_def)

lemma copyin_move_send_ok:
  assumes at: "right_at s space sp its_size fl claimed name entry e" and typed: "right_typed s space sp name entry e"
    and req: "ie_request e = 0"
    and type: "IE_BITS_TYPE (ie_bits e) \<in> {MACH_PORT_TYPE_SEND, MACH_PORT_TYPE_SEND_RECEIVE, MACH_PORT_TYPE_SEND_ONCE}"
    and may: "\<not> has (ie_bits e) MACH_PORT_TYPE_SEND \<Longrightarrow> \<exists>p. ks_ports s (ie_object e) = Some p \<and> \<not> io_active p"
  shows "\<exists>r s'. ipc_right_copyin_move_send space name entry True s = Some (Inr r, s')"
proof (rule copyin_source_dead [OF at typed req refl type])
  fix p assume p: "ks_ports s (ie_object e) = Some p" "io_active p"
    and source: "ipc_right_copyin_source space name entry (ie_bits e) s = Some (Live_source (ie_object e), s)"
  then have send: "has (ie_bits e) MACH_PORT_TYPE_SEND" using may by auto
  have facts: "0 < ip_srights p" "io_references p < IO_MAX_REFERENCES"
    using send p typed type by (auto simp: right_typed_def Let_def has_type)
  note get = right_at_get(1) [OF at]
  let ?clear = "bits_clear (ie_bits e) (IE_BITS_UREFS_MASK OR MACH_PORT_TYPE_SEND)"
  consider (more) "IE_BITS_UREFS (ie_bits e) \<noteq> 1"
    | (both) "IE_BITS_UREFS (ie_bits e) = 1" "IE_BITS_TYPE (ie_bits e) = MACH_PORT_TYPE_SEND_RECEIVE"
    | (last_send) "IE_BITS_UREFS (ie_bits e) = 1" "IE_BITS_TYPE (ie_bits e) = MACH_PORT_TYPE_SEND"
    using type send by (auto simp: has_type)
  then show ?thesis
  proof cases
    case more
    let ?s1 = "put_port (ie_object e) (p\<lparr>ip_srights := ip_srights p + 1, io_references := io_references p + 1\<rparr>) s"
    obtain s' where "upd_entry space entry (ie_bits_update (\<lambda>_. ie_bits e - 1)) ?s1 = Some s'"
      using upd_entry_ok [of space entry ?s1 e] get by auto
    then show ?thesis using more p source send facts get
      by (simp add: ipc_right_copyin_move_send_def upd_port_def ip_reference_def io_reference_def Let_def)
  next
    case both
    then have own: "io_receiver_name p = name" "ip_receiver p = space"
      using p typed by (auto simp: right_typed_def Let_def)
    let ?s1 = "put_port (ie_object e) (p\<lparr>io_references := io_references p + 1\<rparr>) s"
    obtain s' where "upd_entry space entry (ie_bits_update (\<lambda>_. ?clear)) ?s1 = Some s'"
      using upd_entry_ok [of space entry ?s1 e] get by auto
    then show ?thesis using both p source send facts get own
      by (simp add: ipc_right_copyin_move_send_def ip_reference_def io_reference_def has_type Let_def)
  next
    case last_send
    then have "right_hashed s space sp name entry e" using p typed by (auto simp: right_typed_def Let_def)
    then obtain s1 x where s1: "ipc_hash_delete space (ie_object e) name entry s = Some s1"
        "get_entry space entry s1 = Some (e\<lparr>ie_index := x\<rparr>)"
      using right_at_hash_delete [OF at] right_at_get(1) by blast
    obtain s2 where s2: "upd_entry space entry (ie_object_update (\<lambda>_. IO_NULL)) s1 = Some s2"
        "get_entry space entry s2 = Some (e\<lparr>ie_index := x, ie_object := IO_NULL\<rparr>)"
      using upd_entry_ok [OF s1(2)] by fastforce
    obtain s' where "upd_entry space entry (ie_bits_update (\<lambda>_. ?clear)) s2 = Some s'"
      using upd_entry_ok [OF s2(2)] by blast
    then show ?thesis using last_send p source send facts get req s1(1) s2(1)
      by (simp add: ipc_right_copyin_move_send_def ipc_right_dncancel_macro_def has_type Let_def)
  qed
qed (use right_at_get(1) [OF at] in \<open>auto simp: ipc_right_copyin_move_send_def Let_def\<close>)

lemma hash_insert_ok:
  assumes at: "right_at s space sp its_size fl claimed name entry e" and free: "right_unhashed s space sp name entry e"
    and obj: "ie_object e \<noteq> IO_NULL"
  shows "\<exists>s' x. ipc_hash_insert space (ie_object e) name entry s = Some s' \<and>
    get_entry space entry s' = Some (e\<lparr>ie_index := x\<rparr>) \<and> ks_ports s' = ks_ports s \<and> ks_psets s' = ks_psets s"
proof (cases entry)
  case (Table_entry i)
  then have i: "i = name_index name" "i < is_table_size sp" "is_table sp ! i = e" "i < length (is_table sp)" "0 < i"
    using right_at_get(4,6) [OF at] by (auto simp: entry_at_def array_get_eq_Some)
  have h: "local_hash_ok (is_table sp)" "is_table_size sp = length (is_table sp)" "i \<notin> hashed (is_table sp)"
      "\<forall>j \<in> hashed (is_table sp). ie_object (is_table sp ! j) \<noteq> ie_object e"
    using free Table_entry by (auto simp: right_unhashed_def space_hash_ok_def)
  have in_t: "in_table sp name entry" using i Table_entry by (simp add: in_table_def)
  have nz: "MACH_PORT_INDEX name \<noteq> 0" using i(1,5) by auto
  obtain t where t: "ipc_hash_local_insert sp (ie_object e) (MACH_PORT_INDEX name) = Some (sp\<lparr>is_table := t\<rparr>)"
      "same_entries (is_table sp) t"
    using local_insert_spec [OF h(1,2) nz, of "ie_object e"] h(3,4) i obj by auto
  have "t ! i = e\<lparr>ie_index := ie_index (t ! i)\<rparr>" "i < length t"
    using t(2) i by (auto simp: same_entries_def)
  then show ?thesis using in_t t right_at_get(2) [OF at] Table_entry
    by (intro exI [of _ "put_space space (sp\<lparr>is_table := t\<rparr>) s"] exI [of _ "ie_index (t ! i)"])
      (simp add: ipc_hash_insert_def get_entry_def)
next
  case (Tree_entry n)
  then have "n = name" "is_entry sp entry = Some e" using right_at_get(4,6) [OF at] by (auto simp: entry_at_def)
  then show ?thesis using free obj right_at_get(2) [OF at] Tree_entry
    by (auto simp: ipc_hash_insert_def in_table_def right_unhashed_def ipc_hash_global_insert_def upd_space_def
        get_entry_def Let_def intro!: exI [of _ "ie_index e"])
qed

lemma copyin_move_receive_ok:
  assumes at: "right_at s space sp its_size fl claimed name entry e" and typed: "right_typed s space sp name entry e"
    and req: "ie_request e = 0" and sets: "sets_ok s" and recv: "has (ie_bits e) MACH_PORT_TYPE_RECEIVE"
  shows "\<exists>r s'. ipc_right_copyin_move_receive space name entry s = Some (Inr r, s')"
proof -
  note get = right_at_get(1) [OF at]
  have type: "IE_BITS_TYPE (ie_bits e) \<in> {MACH_PORT_TYPE_RECEIVE, MACH_PORT_TYPE_SEND_RECEIVE}"
    using recv typed by (auto simp: has_type right_typed_def Let_def)
  then obtain p where p: "ks_ports s (ie_object e) = Some p" "ie_object e \<noteq> IP_NULL" "io_active p"
      "io_receiver_name p = name" "ip_receiver p = space" "io_references p < IO_MAX_REFERENCES"
    using typed by (auto simp: right_typed_def Let_def)
  have recvr: "ipc_right_copyin_receiver space name (ie_object e) s = Some p"
    using p by (simp add: ipc_right_copyin_receiver_def)
  let ?bits = "bits_clear (ie_bits e) MACH_PORT_TYPE_RECEIVE"
  let ?first = "if has (ie_bits e) MACH_PORT_TYPE_SEND then
      do { kassert (IE_BITS_TYPE (ie_bits e) = MACH_PORT_TYPE_SEND_RECEIVE);
           kassert (0 < IE_BITS_UREFS (ie_bits e));
           kassert (0 < ip_srights p);
           s \<leftarrow> ipc_hash_insert space (ie_object e) name entry s;
           s \<leftarrow> ip_reference (ie_object e) s;
           Some (IP_NULL, s) }
    else
      do { kassert (IE_BITS_TYPE (ie_bits e) = MACH_PORT_TYPE_RECEIVE);
           kassert (IE_BITS_UREFS (ie_bits e) = 0);
           (dnrequest, s) \<leftarrow> ipc_right_dncancel_macro space (ie_object e) name entry s;
           s \<leftarrow> upd_entry space entry (ie_object_update (\<lambda>_. IO_NULL)) s;
           Some (dnrequest, s) }"
  have "\<exists>s1 e1 p1. ?first = Some (IP_NULL, s1) \<and> get_entry space entry s1 = Some e1 \<and> sets_ok s1 \<and>
      ks_ports s1 (ie_object e) = Some p1 \<and> io_active p1"
  proof (cases "has (ie_bits e) MACH_PORT_TYPE_SEND")
    case True
    then have both: "IE_BITS_TYPE (ie_bits e) = MACH_PORT_TYPE_SEND_RECEIVE" using type by (auto simp: has_type)
    then have facts: "0 < IE_BITS_UREFS (ie_bits e)" "0 < ip_srights p" "right_unhashed s space sp name entry e"
      using p(1) typed by (auto simp: right_typed_def Let_def)
    obtain s1 x where s1: "ipc_hash_insert space (ie_object e) name entry s = Some s1"
        "get_entry space entry s1 = Some (e\<lparr>ie_index := x\<rparr>)" "ks_ports s1 = ks_ports s" "ks_psets s1 = ks_psets s"
      using hash_insert_ok [OF at facts(3) p(2)] by blast
    let ?p2 = "p\<lparr>io_references := io_references p + 1\<rparr>"
    have "sets_ok s1" using sets sets_ok_cong [OF s1(3,4)] by simp
    then have "sets_ok (put_port (ie_object e) ?p2 s1)"
      using s1(3) p(1) by (intro sets_ok_put_port) simp_all
    then show ?thesis using True both facts s1 p
      by (simp add: ip_reference_def io_reference_def io_active_def)
  next
    case False
    then have one: "IE_BITS_TYPE (ie_bits e) = MACH_PORT_TYPE_RECEIVE" using type by (auto simp: has_type)
    then have "IE_BITS_UREFS (ie_bits e) = 0" using p(1) typed by (auto simp: right_typed_def Let_def)
    moreover obtain s1 where s1: "upd_entry space entry (ie_object_update (\<lambda>_. IO_NULL)) s = Some s1"
        "get_entry space entry s1 = Some (ie_object_update (\<lambda>_. IO_NULL) e)" "ks_ports s1 = ks_ports s" "ks_psets s1 = ks_psets s"
      using upd_entry_ok [OF get] by blast
    moreover have "sets_ok s1" using sets sets_ok_cong [OF s1(3,4)] by simp
    ultimately show ?thesis using False one p get req by (simp add: ipc_right_dncancel_macro_def)
  qed
  then obtain s1 e1 p1 where s1: "?first = Some (IP_NULL, s1)" "get_entry space entry s1 = Some e1" "sets_ok s1"
      "ks_ports s1 (ie_object e) = Some p1" "io_active p1" by blast
  obtain s2 where s2: "upd_entry space entry (ie_bits_update (\<lambda>_. ?bits)) s1 = Some s2" "ks_ports s2 = ks_ports s1"
      "ks_psets s2 = ks_psets s1"
    using upd_entry_ok [OF s1(2)] by blast
  obtain s3 p3 where s3: "ipc_port_clear_receiver (ie_object e) s2 = Some s3" "ks_ports s3 (ie_object e) = Some p3"
    using clear_receiver_ok [of s2 "ie_object e" p1] s1 s2 sets_ok_cong [OF s2(2,3)] by auto
  show ?thesis using get recv recvr s1(1) s2(1) s3
    by (simp add: ipc_right_copyin_move_receive_def upd_port_def Let_def)
qed

lemma copyin_check_spec:
  assumes at: "right_at s space sp its_size fl claimed name entry e" and typed: "right_typed s space sp name entry e"
    and req: "ie_request e = 0" and sets: "sets_ok s" and msgt: "msgt_name \<noteq> MACH_MSG_TYPE_COPY_RECEIVE"
  shows "\<exists>may. ipc_right_copyin_check space name entry msgt_name s = Some may \<and>
    (if may then \<exists>r s'. ipc_right_copyin space name entry msgt_name True s = Some (Inr r, s')
     else ipc_right_copyin space name entry msgt_name True s = Some (Inl KERN_INVALID_RIGHT, s))"
proof -
  note get = right_at_get(1-3) [OF at]
  let ?type = "IE_BITS_TYPE (ie_bits e)"
  consider (recv) "msgt_name \<in> {MACH_MSG_TYPE_MAKE_SEND, MACH_MSG_TYPE_MAKE_SEND_ONCE, MACH_MSG_TYPE_MOVE_RECEIVE}"
    | (dead) "msgt_name \<in> {MACH_MSG_TYPE_COPY_SEND, MACH_MSG_TYPE_MOVE_SEND, MACH_MSG_TYPE_MOVE_SEND_ONCE}"
        "?type = MACH_PORT_TYPE_DEAD_NAME"
    | (none) "msgt_name \<in> {MACH_MSG_TYPE_COPY_SEND, MACH_MSG_TYPE_MOVE_SEND, MACH_MSG_TYPE_MOVE_SEND_ONCE}"
        "\<not> has (ie_bits e) MACH_PORT_TYPE_SEND_RIGHTS" "\<not> has (ie_bits e) MACH_PORT_TYPE_DEAD_NAME"
    | (send) "msgt_name \<in> {MACH_MSG_TYPE_COPY_SEND, MACH_MSG_TYPE_MOVE_SEND, MACH_MSG_TYPE_MOVE_SEND_ONCE}"
        "?type \<in> {MACH_PORT_TYPE_SEND, MACH_PORT_TYPE_SEND_RECEIVE, MACH_PORT_TYPE_SEND_ONCE}"
  proof -
    have "?type \<in> {0, MACH_PORT_TYPE_SEND, MACH_PORT_TYPE_RECEIVE, MACH_PORT_TYPE_SEND_RECEIVE,
         MACH_PORT_TYPE_SEND_ONCE, MACH_PORT_TYPE_PORT_SET, MACH_PORT_TYPE_DEAD_NAME}"
      using typed unfolding right_typed_def Let_def by blast
    then have kinds: "?type = MACH_PORT_TYPE_DEAD_NAME \<or> ?type \<in> {MACH_PORT_TYPE_SEND, MACH_PORT_TYPE_SEND_RECEIVE, MACH_PORT_TYPE_SEND_ONCE} \<or>
        \<not> has (ie_bits e) MACH_PORT_TYPE_SEND_RIGHTS \<and> \<not> has (ie_bits e) MACH_PORT_TYPE_DEAD_NAME"
      by (auto simp: has_type)
    have "msgt_name \<in> {MACH_MSG_TYPE_MAKE_SEND, MACH_MSG_TYPE_MAKE_SEND_ONCE, MACH_MSG_TYPE_MOVE_RECEIVE} \<or>
        msgt_name \<in> {MACH_MSG_TYPE_COPY_SEND, MACH_MSG_TYPE_MOVE_SEND, MACH_MSG_TYPE_MOVE_SEND_ONCE}"
      using msgt by (cases msgt_name) simp_all
    with kinds that show thesis by blast
  qed
  then show ?thesis
  proof cases
    case recv
    have check: "ipc_right_copyin_check space name entry msgt_name s = Some (has (ie_bits e) MACH_PORT_TYPE_RECEIVE)"
      using recv get by (simp add: ipc_right_copyin_check_def)
    show ?thesis
    proof (cases "has (ie_bits e) MACH_PORT_TYPE_RECEIVE")
      case True
      then have "\<exists>r s'. ipc_right_copyin space name entry msgt_name True s = Some (Inr r, s')"
        using recv get copyin_make_ok [OF at typed True] copyin_move_receive_ok [OF at typed req sets True]
        by (auto simp: ipc_right_copyin_def)
      then show ?thesis using check True by (intro exI [of _ True]) simp
    next
      case False
      then have "ipc_right_copyin_make_send space name entry s = Some (Inl KERN_INVALID_RIGHT, s)"
          "ipc_right_copyin_make_sonce space name entry s = Some (Inl KERN_INVALID_RIGHT, s)"
          "ipc_right_copyin_move_receive space name entry s = Some (Inl KERN_INVALID_RIGHT, s)"
        using get by (simp_all add: ipc_right_copyin_make_send_def ipc_right_copyin_make_sonce_def
            ipc_right_copyin_move_receive_def Let_def)
      then have "ipc_right_copyin space name entry msgt_name True s = Some (Inl KERN_INVALID_RIGHT, s)"
        using recv get by (auto simp: ipc_right_copyin_def)
      then show ?thesis using check False by (intro exI [of _ False]) simp
    qed
  next
    case dead
    have facts: "0 < IE_BITS_UREFS (ie_bits e)" "ie_object e = 0" "has (ie_bits e) MACH_PORT_TYPE_DEAD_NAME"
      using dead typed by (auto simp: right_typed_def has_type Let_def)
    have source: "ipc_right_copyin_source space name entry (ie_bits e) s = Some (Dead_source, s)"
      using get facts by (simp add: ipc_right_copyin_source_def)
    have "\<exists>r s''. ipc_right_copyin_move_dead space entry True s = Some (Inr r, s'')"
      by (rule move_dead_ok [OF get(1) dead(2) facts(1,2) req])
    then have "\<exists>r s'. ipc_right_copyin_move_send space name entry True s = Some (Inr r, s')"
        "\<exists>r s'. ipc_right_copyin_move_sonce space name entry True s = Some (Inr r, s')"
        "\<exists>r s'. ipc_right_copyin_copy_send space name entry True s = Some (Inr r, s')"
      using dead get facts source req
      by (simp_all add: ipc_right_copyin_copy_send_def ipc_right_copyin_move_send_def
          ipc_right_copyin_move_sonce_def ipc_right_copyin_copy_dead_def Let_def)
    then have "\<exists>r s'. ipc_right_copyin space name entry msgt_name True s = Some (Inr r, s')"
      using dead get by (auto simp: ipc_right_copyin_def)
    moreover have "ipc_right_copyin_check space name entry msgt_name s = Some True"
      using dead get facts by (auto simp: ipc_right_copyin_check_def Let_def)
    ultimately show ?thesis by (intro exI [of _ True]) simp
  next
    case none
    then have "ipc_right_copyin_source space name entry (ie_bits e) s = Some (Invalid_source, s)"
      using get by (simp add: ipc_right_copyin_source_def)
    then have "ipc_right_copyin_copy_send space name entry True s = Some (Inl KERN_INVALID_RIGHT, s)"
        "ipc_right_copyin_move_send space name entry True s = Some (Inl KERN_INVALID_RIGHT, s)"
        "ipc_right_copyin_move_sonce space name entry True s = Some (Inl KERN_INVALID_RIGHT, s)"
      using get by (simp_all add: ipc_right_copyin_copy_send_def ipc_right_copyin_move_send_def
          ipc_right_copyin_move_sonce_def)
    then have "ipc_right_copyin space name entry msgt_name True s = Some (Inl KERN_INVALID_RIGHT, s)"
      using none(1) get by (auto simp: ipc_right_copyin_def)
    moreover have "ipc_right_copyin_check space name entry msgt_name s = Some False"
      using none get by (auto simp: ipc_right_copyin_check_def)
    ultimately show ?thesis by (intro exI [of _ False]) simp
  next
    case send
    from send(2) obtain p where p: "ks_ports s (ie_object e) = Some p" "ie_object e \<noteq> IP_NULL"
        and kinds: "?type = MACH_PORT_TYPE_SEND \<longrightarrow> 0 < IE_BITS_UREFS (ie_bits e) \<and> (io_active p \<longrightarrow> 0 < ip_srights p)"
          "?type = MACH_PORT_TYPE_SEND_ONCE \<longrightarrow> IE_BITS_UREFS (ie_bits e) = 1 \<and> (io_active p \<longrightarrow> 0 < ip_sorights p)"
          "?type = MACH_PORT_TYPE_SEND_RECEIVE \<longrightarrow> 0 < IE_BITS_UREFS (ie_bits e) \<and> 0 < ip_srights p"
      using typed unfolding right_typed_def Let_def by blast
    let ?bit = "if msgt_name = MACH_MSG_TYPE_MOVE_SEND_ONCE then MACH_PORT_TYPE_SEND_ONCE else MACH_PORT_TYPE_SEND"
    have bits: "has (ie_bits e) MACH_PORT_TYPE_SEND_RIGHTS" "\<not> has (ie_bits e) MACH_PORT_TYPE_DEAD_NAME"
      using send by (auto simp: has_type)
    have check: "ipc_right_copyin_check space name entry msgt_name s = Some (\<not> io_active p \<or> has (ie_bits e) ?bit)"
      using send(1) get p bits by (auto simp: ipc_right_copyin_check_def Let_def)
    show ?thesis
    proof (cases "io_active p \<and> \<not> has (ie_bits e) ?bit")
      case True
      then have live: "ipc_right_check space (ie_object e) name entry s = Some (False, s)"
        using right_check_alive [OF at p(1)] by simp
      have facts: "0 < IE_BITS_UREFS (ie_bits e)" "?type = MACH_PORT_TYPE_SEND_ONCE \<Longrightarrow> 0 < ip_sorights p"
          "?type \<noteq> MACH_PORT_TYPE_SEND_ONCE \<Longrightarrow> 0 < ip_srights p"
        using send(2) True kinds by auto
      then have "ipc_right_copyin_source space name entry (ie_bits e) s = Some (Live_source (ie_object e), s)"
        using get bits p live by (simp add: ipc_right_copyin_source_def)
      note source = this
      have "ipc_right_copyin_copy_send space name entry True s = Some (Inl KERN_INVALID_RIGHT, s)"
          "ipc_right_copyin_move_send space name entry True s = Some (Inl KERN_INVALID_RIGHT, s)"
        if "\<not> has (ie_bits e) MACH_PORT_TYPE_SEND"
      proof -
        have "?type = MACH_PORT_TYPE_SEND_ONCE" using that send(2) by (auto simp: has_type)
        then show "ipc_right_copyin_copy_send space name entry True s = Some (Inl KERN_INVALID_RIGHT, s)"
          "ipc_right_copyin_move_send space name entry True s = Some (Inl KERN_INVALID_RIGHT, s)"
          using that source get p facts
          by (simp_all add: ipc_right_copyin_copy_send_def ipc_right_copyin_move_send_def)
      qed
      moreover have "ipc_right_copyin_move_sonce space name entry True s = Some (Inl KERN_INVALID_RIGHT, s)"
        if "\<not> has (ie_bits e) MACH_PORT_TYPE_SEND_ONCE"
      proof -
        have "?type \<noteq> MACH_PORT_TYPE_SEND_ONCE" "has (ie_bits e) MACH_PORT_TYPE_SEND"
          using that send(2) by (auto simp: has_type)
        then show ?thesis using that source get p facts by (simp add: ipc_right_copyin_move_sonce_def)
      qed
      ultimately have "ipc_right_copyin space name entry msgt_name True s = Some (Inl KERN_INVALID_RIGHT, s)"
        using send(1) True get by (auto simp: ipc_right_copyin_def)
      then show ?thesis using check True by (intro exI [of _ False]) simp
    next
      case False
      then have "\<exists>r s'. ipc_right_copyin space name entry msgt_name True s = Some (Inr r, s')"
        using send(1) get p copyin_copy_send_ok [OF at typed req send(2)] copyin_move_send_ok [OF at typed req send(2)]
          copyin_move_sonce_ok [OF at typed req send(2)]
        by (auto simp: ipc_right_copyin_def)
      then show ?thesis using check False by (intro exI [of _ True]) auto
    qed
  qed
qed

section \<open>A receive right that its owner wants back\<close>

lemma destroy_pdrequest:
  assumes p: "ks_ports s port = Some p" "port \<noteq> IP_NULL" "io_active p" "ip_pset_count p = 0" "ip_mscount p = 0"
    and pd: "ip_pdrequest p = pd" "pd \<noteq> IP_NULL" "pd \<noteq> port"
    and d: "ks_ports s pd = Some d" "\<not> in_transit d" "io_references d < IO_MAX_REFERENCES"
    and mem: "memory_left 1 s"
  shows "\<exists>s' p'. ipc_port_destroy port s = Some s' \<and> ks_spaces s' = ks_spaces s \<and> ks_ports s' port = Some p' \<and>
    io_active p' \<and> ip_srights p' = ip_srights p \<and> ks_events s' = ks_events s @ [Sent_port_destroyed pd port]"
proof -
  let ?p1 = "p\<lparr>ip_pdrequest := IP_NULL, io_receiver_name := MACH_PORT_NULL, ip_destination := IP_NULL\<rparr>"
  let ?s1 = "put_port port ?p1 s"
  let ?d2 = "d\<lparr>io_references := io_references d + 1\<rparr>"
  let ?s2 = "put_port port (?p1\<lparr>ip_destination := pd\<rparr>) (put_port pd ?d2 ?s1)"
  obtain a as where m: "ks_free_memory s = a # as" "a \<noteq> 0"
    using mem by (cases "ks_free_memory s") (auto simp: memory_left_def)
  have ports: "ks_ports ?s1 port = Some ?p1" "ks_ports ?s1 pd = Some d" "ks_ports ?s2 pd = Some ?d2"
      "ks_ports ?s2 port = Some (?p1\<lparr>ip_destination := pd\<rparr>)" "ks_ports (put_port pd ?d2 ?s1) port = Some ?p1"
    using pd(3) d(1) by (simp_all add: put_port_def)
  have transit: "in_transit (?p1\<lparr>ip_destination := pd\<rparr>)" "\<not> in_transit ?d2"
    using p(3) pd(2) d(2) by (simp_all add: in_transit_def io_active_def)
  have chain: "ipc_port_unlock_chain ?s2 port pd = Some ()"
    using ports(4) transit(1) pd
    by (subst ipc_port_unlock_chain.simps, simp del: put_port_twice, subst ipc_port_unlock_chain.simps, simp)
  have "ipc_port_check_circularity port pd ?s1 = Some (False, ?s2)"
    unfolding ipc_port_check_circularity_def
    using p(2,3) pd d ports transit chain
    by (simp add: ip_reference_def io_reference_def upd_port_def io_active_def)
  then show ?thesis
    using p pd m
    by (simp add: ipc_port_destroy.simps [of port s] kalloc_def log_event_def put_port_def io_active_def)
qed

lemma delta_receive_wanted:
  assumes at: "right_at s space sp its_size fl claimed name entry e"
    and type: "IE_BITS_TYPE (ie_bits e) = MACH_PORT_TYPE_SEND_RECEIVE" "ie_request e = 0"
    and live: "live_send s e p" and own: "io_receiver_name p = name" "ip_receiver p = space" "ip_pset_count p = 0"
    and pd: "ip_pdrequest p \<noteq> IP_NULL" "ip_pdrequest p \<noteq> ie_object e"
    and d: "ks_ports s (ip_pdrequest p) = Some d" "\<not> in_transit d" "io_references d < IO_MAX_REFERENCES"
    and mem: "memory_left 1 s"
  shows "\<exists>s' sp' r p'. ipc_right_delta space name entry MACH_PORT_RIGHT_RECEIVE (- 1) s = Some (KERN_SUCCESS, s') \<and>
    ks_spaces s' space = Some sp' \<and> is_names sp' = (is_names sp)(name \<mapsto> (IO_NULL, r, 0)) \<and>
    IE_BITS_TYPE r = MACH_PORT_TYPE_DEAD_NAME \<and> ks_ports s' (ie_object e) = Some p' \<and> io_active p' \<and>
    ip_srights p' = ip_srights p \<and> Sent_port_destroyed (ip_pdrequest p) (ie_object e) \<in> set (ks_events s')"
proof -
  let ?port = "ie_object e"
  let ?bits = "bits_clear (ie_bits e) IE_BITS_TYPE_MASK OR MACH_PORT_TYPE_DEAD_NAME"
  let ?f = "\<lambda>e. e\<lparr>ie_request := 0, ie_bits := ?bits, ie_object := IO_NULL\<rparr>"
  have p: "ks_ports s ?port = Some p" "io_active p" "?port \<noteq> IP_NULL" "0 < ip_srights p" "0 < IE_BITS_UREFS (ie_bits e)"
      "IE_BITS_UREFS (ie_bits e) < MACH_PORT_UREFS_MAX" using live by (auto simp: live_send_def)
  obtain sp' where sp': "upd_entry space entry ?f s = Some (put_space space sp' s)"
      "is_names sp' = (is_names sp)(name := ie_right (?f e))"
    using right_at_update [OF at, of ?f] by (auto simp: dead_name_fields dead_name_collision)
  let ?s1 = "put_space space sp' s"
  let ?p2 = "p\<lparr>ip_mscount := 0, ip_messages := (ip_messages p)\<lparr>imq_seqno := 0\<rparr>\<rparr>"
  let ?s2 = "put_port ?port ?p2 (log_event (Mqueue_changed ?port) ?s1)"
  have clear: "ipc_port_clear_receiver ?port ?s1 = Some ?s2"
    using p own(3) by (simp add: ipc_port_clear_receiver_def ipc_port_set_mscount_def upd_port_def log_event_def put_port_def)
  have "\<exists>s3 p3. ipc_port_destroy ?port ?s2 = Some s3 \<and> ks_spaces s3 = ks_spaces ?s2 \<and> ks_ports s3 ?port = Some p3 \<and>
      io_active p3 \<and> ip_srights p3 = ip_srights ?p2 \<and>
      ks_events s3 = ks_events ?s2 @ [Sent_port_destroyed (ip_pdrequest p) ?port]"
    by (rule destroy_pdrequest [where d = d])
      (use p own pd d mem in \<open>simp_all add: io_active_def put_port_def log_event_def put_space_def memory_left_def\<close>)
  then obtain s3 p3 where s3: "ipc_port_destroy ?port ?s2 = Some s3" "ks_spaces s3 = ks_spaces ?s2" "ks_ports s3 ?port = Some p3"
      "io_active p3" "ip_srights p3 = ip_srights p" "ks_events s3 = ks_events ?s2 @ [Sent_port_destroyed (ip_pdrequest p) ?port]"
    by auto
  have "ipc_right_delta space name entry MACH_PORT_RIGHT_RECEIVE (- 1) s = Some (KERN_SUCCESS, s3)"
    using right_at_get(1-3) [OF at] type p own sp'(1) clear s3(1)
    by (simp add: ipc_right_delta_def ipc_right_delta_receive_def has_type ipc_right_notify_def Let_def)
  moreover have "ks_spaces s3 space = Some sp'" using s3(2) by (simp add: log_event_def)
  moreover have "ie_right (?f e) = Some (IO_NULL, ?bits AND IE_BITS_RIGHT_MASK, 0)"
    by (simp add: ie_right_def dead_name_fields)
  moreover have "IE_BITS_TYPE (?bits AND IE_BITS_RIGHT_MASK) = MACH_PORT_TYPE_DEAD_NAME"
    by (simp add: right_mask_fields dead_name_fields)
  ultimately show ?thesis using s3 sp'(2)
    by (intro exI [of _ s3] exI [of _ sp'] exI [of _ "?bits AND IE_BITS_RIGHT_MASK"] exI [of _ p3]) simp
qed

section \<open>Properties\<close>

text \<open>A sample: the space of \<^verbatim>\<open>Ipc_Hash\<close>, where the name 0x104 is a send right for the live port
  0x40 and 0x208 one for the dead port 0x140.\<close>

definition right_kernel :: kernel where
  "right_kernel = port_kernel\<lparr>ks_spaces := [0x3000 \<mapsto> sample_space],
     ks_ports := [0x40 \<mapsto> port_sample, 0x140 \<mapsto> port_sample\<lparr>io_bits := 0\<rparr>, 0x400 \<mapsto> port_sample],
     ks_table_entries := [4, 8, 16]\<rparr>"

lemma right_kernel_ports:
  "ks_ports right_kernel 0x40 = Some port_sample" "ks_ports right_kernel 0x140 = Some (port_sample\<lparr>io_bits := 0\<rparr>)"
  "ks_ports right_kernel 0x400 = Some port_sample" "\<not> io_active (port_sample\<lparr>io_bits := 0\<rparr>)"
  "memory_left 1 right_kernel"
  by (simp_all add: right_kernel_def io_active_def memory_left_def port_kernel_def)

lemma sample_space_ok: "space_ok sample_space 8 [3] {}"
proof -
  have none: "ist_entries (is_tree sample_space) = []" by (simp add: sample_space_def ist_entries_def)
  then have indices: "tree_indices sample_space = {}" by simp
  have "entry_list.fl_full sample_table [3] (claimed_table {})"
    unfolding entry_list.fl_full_def entry_list.fl_ok_def
    by (auto simp: sample_table_def IE_BITS_TYPE_def less_4 less_Suc_eq_0_disj)
  then have "table_ok sample_space [3] {}"
    unfolding table_ok_def indices
    by (auto simp: sample_space_def sample_table_def IE_BITS_TYPE_def has_def less_4)
  moreover have "tree_ok sample_space 8 {}"
    unfolding tree_ok_def ist_inv_def indices by (simp add: none) (simp add: sample_space_def)
  ultimately show ?thesis by (simp add: space_ok_def sample_space_def)
qed

abbreviation sample_entry :: "nat \<Rightarrow> ipc_entry" where
  "sample_entry i \<equiv> sample_table ! i"

lemma right_kernel_at:
  "right_at right_kernel 0x3000 sample_space 8 [3] {} 0x104 (Table_entry 1) (sample_entry 1)"
  "right_at right_kernel 0x3000 sample_space 8 [3] {} 0x208 (Table_entry 2) (sample_entry 2)"
  using sample_space_ok
  by (simp_all add: right_at_def right_kernel_def entry_at_def MACH_PORT_INDEX_def MACH_PORT_GEN_def IE_BITS_GEN_def
      sample_space_def sample_table_def array_get_eq_Some)

lemma sample_entry_fields:
  "IE_BITS_TYPE (ie_bits (sample_entry 1)) = MACH_PORT_TYPE_SEND" "IE_BITS_UREFS (ie_bits (sample_entry 1)) = 1"
  "IE_BITS_TYPE (ie_bits (sample_entry 2)) = MACH_PORT_TYPE_SEND" "IE_BITS_UREFS (ie_bits (sample_entry 2)) = 1"
  "ie_request (sample_entry 1) = 0" "ie_request (sample_entry 2) = 0" "ie_object (sample_entry 1) = 0x40"
  "ie_object (sample_entry 2) = 0x140" "\<not> has (ie_bits (sample_entry 1)) IE_BITS_COLLISION"
  by (simp_all add: sample_table_def IE_BITS_TYPE_def IE_BITS_UREFS_def has_def)

lemma right_kernel_hashed:
  "right_hashed right_kernel 0x3000 sample_space 0x104 (Table_entry 1) (sample_entry 1)"
  "right_hashed right_kernel 0x3000 sample_space 0x208 (Table_entry 2) (sample_entry 2)"
  using sample_space_hash_ok by (simp_all add: right_hashed_def sample_hashed)

lemma right_kernel_live: "live_send right_kernel (sample_entry 1) port_sample"
  by (simp add: live_send_def sample_entry_fields [unfolded One_nat_def] right_kernel_ports port_sample_fields)

text \<open>Dead ports. \<open>ipc_right_check\<close> turns a send or send-once right whose port has died into a dead
  name with the same user references, one more when a dead-name request was outstanding, and gives
  back the reference to the port; no other name of the space is affected. For a live port it
  changes nothing.\<close>

theorem right_check_dead_name:
  assumes "right_at s space sp its_size fl claimed name entry e" and "stale_right s space sp name entry e"
    and "ks_ports s (ie_object e) = Some p" and "0 < io_references p" and "io_references p \<le> IO_MAX_REFERENCES"
  shows "if io_active p then ipc_right_check space (ie_object e) name entry s = Some (False, s)
    else \<exists>s' sp' r. ipc_right_check space (ie_object e) name entry s = Some (True, s') \<and>
      ks_spaces s' space = Some sp' \<and> space_ok sp' its_size fl claimed \<and>
      is_names sp' = (is_names sp)(name \<mapsto> (IO_NULL, r, 0)) \<and> IE_BITS_TYPE r = MACH_PORT_TYPE_DEAD_NAME \<and>
      IE_BITS_UREFS r = IE_BITS_UREFS (ie_bits e) + (if ie_request e = 0 then 0 else 1) \<and>
      ks_ports s' = (ks_ports s)(ie_object e := if io_references p = 1 then None
        else Some (p\<lparr>io_references := io_references p - 1\<rparr>))"
proof (cases "io_active p")
  case False
  obtain s' sp' e' where *: "ipc_right_check space (ie_object e) name entry s = Some (True, s')"
      "right_at s' space sp' its_size fl claimed name entry e'" "is_names sp' = (is_names sp)(name := ie_right e')"
      "IE_BITS_TYPE (ie_bits e') = MACH_PORT_TYPE_DEAD_NAME" "ie_object e' = IO_NULL" "ie_request e' = 0"
      "IE_BITS_UREFS (ie_bits e') = IE_BITS_UREFS (ie_bits e) + (if ie_request e = 0 then 0 else 1)"
      "ks_ports s' = (ks_ports s)(ie_object e := if io_references p = 1 then None
        else Some (p\<lparr>io_references := io_references p - 1\<rparr>))"
    using right_check_dead [OF assms(1,2,3) False assms(4,5)] by blast
  then have "ie_right e' = Some (IO_NULL, ie_bits e' AND IE_BITS_RIGHT_MASK, 0)" by (simp add: ie_right_def)
  with * False right_at_get [OF *(2)] show ?thesis
    by (simp only: if_False)
      (intro exI [of _ s'] exI [of _ sp'] exI [of _ "ie_bits e' AND IE_BITS_RIGHT_MASK"], simp add: right_mask_fields)
qed (use right_check_alive [OF assms(1,3)] in simp)

lemma right_check_dead_name_witness:
  "\<exists>s' sp' r. ipc_right_check 0x3000 0x140 0x208 (Table_entry 2) right_kernel = Some (True, s') \<and>
     ks_spaces s' 0x3000 = Some sp' \<and> is_names sp' 0x208 = Some (IO_NULL, r, 0)"
proof -
  have "stale_right right_kernel 0x3000 sample_space 0x208 (Table_entry 2) (sample_entry 2)"
    using right_kernel_hashed(2) by (simp add: stale_right_def sample_entry_fields)
  from right_check_dead_name [OF right_kernel_at(2) this, of "port_sample\<lparr>io_bits := 0\<rparr>"] show ?thesis
    using right_kernel_ports port_sample_fields by (auto simp: sample_entry_fields IO_MAX_REFERENCES_eq)
qed

text \<open>The user references of a dead name. \<open>ipc_right_delta\<close> with MACH_PORT_RIGHT_DEAD_NAME adds the
  signed delta as a number: a negative sum is KERN_INVALID_VALUE, a sum above the maximum is
  KERN_UREFS_OVERFLOW, both without any effect; a sum of 0 removes the name from the space and
  any other sum becomes its count.\<close>

theorem delta_dead_name_exact:
  assumes "right_at s space sp its_size fl claimed name entry e"
    and "IE_BITS_TYPE (ie_bits e) = MACH_PORT_TYPE_DEAD_NAME" and "0 < IE_BITS_UREFS (ie_bits e)"
    and "ie_object e = IO_NULL" and "ie_request e = 0" and "dealloc_ready s space sp claimed entry e"
    and "n = uint (IE_BITS_UREFS (ie_bits e)) + sint delta"
  shows "if n < 0 then ipc_right_delta space name entry MACH_PORT_RIGHT_DEAD_NAME delta s = Some (KERN_INVALID_VALUE, s)
    else if 0xffff < n then
      ipc_right_delta space name entry MACH_PORT_RIGHT_DEAD_NAME delta s = Some (KERN_UREFS_OVERFLOW, s)
    else \<exists>s' sp' fl'.
      ipc_right_delta space name entry MACH_PORT_RIGHT_DEAD_NAME delta s = Some (KERN_SUCCESS, s') \<and>
      ks_spaces s' space = Some sp' \<and> space_ok sp' its_size fl' claimed \<and>
      ks_ports s' = ks_ports s \<and> ks_events s' = ks_events s \<and>
      (if n = 0 then is_names sp' = (is_names sp)(name := None)
       else \<exists>r. is_names sp' = (is_names sp)(name \<mapsto> (IO_NULL, r, 0)) \<and>
         IE_BITS_TYPE r = MACH_PORT_TYPE_DEAD_NAME \<and> uint (IE_BITS_UREFS r) = n)"
  by (rule delta_dead_spec [OF assms])

lemma delta_dead_name_exact_witness:
  "ipc_right_delta 0x3000 0x20c (Table_entry 2) MACH_PORT_RIGHT_DEAD_NAME (- 2) entry_kernel =
     Some (KERN_INVALID_VALUE, entry_kernel) \<and>
   ipc_right_delta 0x3000 0x20c (Table_entry 2) MACH_PORT_RIGHT_DEAD_NAME 0xffff entry_kernel =
     Some (KERN_UREFS_OVERFLOW, entry_kernel)"
proof -
  let ?e = "\<lparr>ie_object = 0, ie_bits = 0x0c100001, ie_request = 0, ie_index = 0\<rparr>"
  have at: "right_at entry_kernel 0x3000 entry_sample 8 [3] {} 0x20c (Table_entry 2) ?e"
    using entry_sample_ok entry_kernel_space
    by (simp add: right_at_def entry_at_def entry_sample_def MACH_PORT_INDEX_def MACH_PORT_GEN_def IE_BITS_GEN_def
        array_get_eq_Some)
  have e: "IE_BITS_TYPE (ie_bits ?e) = MACH_PORT_TYPE_DEAD_NAME" "0 < IE_BITS_UREFS (ie_bits ?e)"
      "ie_object ?e = IO_NULL" "ie_request ?e = 0" "uint (IE_BITS_UREFS (ie_bits ?e)) = 1"
    by (simp_all add: IE_BITS_TYPE_def IE_BITS_UREFS_def)
  have ready: "dealloc_ready entry_kernel 0x3000 entry_sample {} (Table_entry 2) ?e"
    by (simp add: dealloc_ready_def has_def)
  show ?thesis
    using delta_dead_name_exact [OF at e(1-4) ready, of "- 1" "- 2"] delta_dead_name_exact [OF at e(1-4) ready, of "0x10000" "0xffff"]
    by (simp add: IE_BITS_UREFS_def u32_sint uint_word_ariths)
qed

text \<open>The user references of a send right. For a live port \<open>ipc_right_delta\<close> with
  MACH_PORT_RIGHT_SEND adds the signed delta as a number. The sum is refused from the maximum on,
  one earlier than for a dead name, since the conversion of the right to a dead name may need one
  reference more.\<close>

theorem delta_send_exact:
  assumes "right_at s space sp its_size fl claimed name entry e" and "live_send s e p"
    and "n = uint (IE_BITS_UREFS (ie_bits e)) + sint delta" and "n \<noteq> 0"
  shows "if n < 0 then ipc_right_delta space name entry MACH_PORT_RIGHT_SEND delta s = Some (KERN_INVALID_VALUE, s)
    else if 0xffff \<le> n then
      ipc_right_delta space name entry MACH_PORT_RIGHT_SEND delta s = Some (KERN_UREFS_OVERFLOW, s)
    else \<exists>sp' r. ipc_right_delta space name entry MACH_PORT_RIGHT_SEND delta s = Some (KERN_SUCCESS, put_space space sp' s) \<and>
      space_ok sp' its_size fl claimed \<and> is_names sp' = (is_names sp)(name \<mapsto> (ie_object e, r, ie_request e)) \<and>
      IE_BITS_TYPE r = IE_BITS_TYPE (ie_bits e) \<and> uint (IE_BITS_UREFS r) = n"
  by (rule delta_send_spec [OF assms])

lemma delta_send_exact_witness:
  "\<exists>sp' r. ipc_right_delta 0x3000 0x104 (Table_entry 1) MACH_PORT_RIGHT_SEND 5 right_kernel =
       Some (KERN_SUCCESS, put_space 0x3000 sp' right_kernel) \<and>
     is_names sp' 0x104 = Some (0x40, r, 0) \<and> uint (IE_BITS_UREFS r) = 6"
proof -
  have "6 = uint (IE_BITS_UREFS (ie_bits (sample_entry 1))) + sint (5 :: u32)"
    by (simp add: sample_entry_fields [unfolded One_nat_def] u32_sint)
  from delta_send_exact [OF right_kernel_at(1) right_kernel_live this] show ?thesis
    by (auto simp: sample_entry_fields [unfolded One_nat_def])
qed

text \<open>C8: the last send right. Deallocating the last user reference of a send right takes the name out
  of the space, gives back the reference and the send right of the port, and sends the no-senders
  notification with the make-send count when this was the last send right of all and somebody
  asked for it.\<close>

theorem dealloc_last_send:
  assumes "right_at s space sp its_size fl claimed name entry e" and "live_send s e p"
    and "IE_BITS_TYPE (ie_bits e) = MACH_PORT_TYPE_SEND" and "IE_BITS_UREFS (ie_bits e) = 1" and "ie_request e = 0"
    and "right_hashed s space sp name entry e" and "\<not> has (ie_bits e) IE_BITS_COLLISION"
    and "0 < io_references p" and "io_references p \<le> IO_MAX_REFERENCES"
    and "ip_srights p = 1 \<Longrightarrow> ip_nsrequest p \<noteq> IP_NULL \<Longrightarrow> memory_left 1 s"
  shows "\<exists>s' sp' fl'. ipc_right_dealloc space name entry s = Some (KERN_SUCCESS, s') \<and>
    ks_spaces s' space = Some sp' \<and> space_ok sp' its_size fl' claimed \<and> is_names sp' = (is_names sp)(name := None) \<and>
    ks_ports s' = (ks_ports s)(ie_object e \<mapsto> (drop_srights p)\<lparr>io_references := io_references p - 1\<rparr>) \<and>
    ks_events s' = ks_events s @
      (if ip_srights p = 1 \<and> ip_nsrequest p \<noteq> IP_NULL then [Sent_no_senders (ip_nsrequest p) (ip_mscount p)] else [])"
  by (rule dealloc_send_spec [OF assms])

lemma dealloc_last_send_witness:
  "\<exists>s' sp'. ipc_right_dealloc 0x3000 0x104 (Table_entry 1) right_kernel = Some (KERN_SUCCESS, s') \<and>
     ks_spaces s' 0x3000 = Some sp' \<and> is_names sp' 0x104 = None \<and> ks_events s' = [Sent_no_senders 0x800 0]"
proof -
  have "ks_events right_kernel = []" "ip_mscount port_sample = 0" "3 \<le> IO_MAX_REFERENCES"
    by (simp_all add: right_kernel_def port_kernel_def port_sample_def IO_MAX_REFERENCES_eq)
  then show ?thesis
    using dealloc_last_send [OF right_kernel_at(1) right_kernel_live sample_entry_fields(1,2,5) right_kernel_hashed(1)
        sample_entry_fields(9)] right_kernel_ports(5) port_sample_fields
    by auto
qed

text \<open>C30: rights that an entry does not have. Whatever right is named and whatever the delta is,
  \<open>ipc_right_delta\<close> answers KERN_INVALID_RIGHT and changes nothing when the entry of an active space
  has no such right (a send right is asked for at a live port, so that it is no dead name).\<close>

theorem delta_wrong_right:
  assumes "right_at s space sp its_size fl claimed name entry e" and "\<not> has (ie_bits e) (MACH_PORT_TYPE rt)"
    and "has (ie_bits e) MACH_PORT_TYPE_SEND_RIGHTS \<Longrightarrow>
      ie_object e \<noteq> IP_NULL \<and> (\<exists>p. ks_ports s (ie_object e) = Some p \<and> io_active p)"
  shows "ipc_right_delta space name entry rt delta s = Some (KERN_INVALID_RIGHT, s)"
  by (rule delta_wrong_spec [OF right_at_get(1-3) [OF assms(1)] assms(2,3)])

lemma delta_wrong_right_witness:
  "ipc_right_delta 0x3000 0x104 (Table_entry 1) MACH_PORT_RIGHT_RECEIVE (- 1) right_kernel =
     Some (KERN_INVALID_RIGHT, right_kernel)"
proof (rule delta_wrong_right [OF right_kernel_at(1)])
  show "\<not> has (ie_bits (sample_entry 1)) (MACH_PORT_TYPE MACH_PORT_RIGHT_RECEIVE)"
    by (simp add: has_def MACH_PORT_TYPE_def sample_table_def)
  show "ie_object (sample_entry 1) \<noteq> IP_NULL \<and> (\<exists>p. ks_ports right_kernel (ie_object (sample_entry 1)) = Some p \<and> io_active p)"
    using right_kernel_ports(1) port_sample_fields(1) by (simp add: sample_entry_fields [unfolded One_nat_def])
qed


lemma right_kernel_sets: "sets_ok right_kernel"
proof -
  have "linked right_kernel pset = {}" for pset
    by (auto simp: linked_def right_kernel_def port_sample_def ipc_mqueue_init_def split: if_splits)
  then show ?thesis
    by (auto simp: sets_ok_def right_kernel_def port_kernel_def port_sample_def ipc_mqueue_init_def split: if_splits)
qed


text \<open>C31: giving up a receive right that somebody asked to have back. The send right that shares the
  entry becomes a dead name, but the port is sent away alive and still counts this send right:
  nobody holds it any more, so the count never reaches 0 and the no-senders notification of the
  new owner never comes.\<close>

theorem delta_receive_keeps_count:
  assumes "right_at s space sp its_size fl claimed name entry e"
    and "IE_BITS_TYPE (ie_bits e) = MACH_PORT_TYPE_SEND_RECEIVE" and "ie_request e = 0"
    and "live_send s e p" and "io_receiver_name p = name" and "ip_receiver p = space" and "ip_pset_count p = 0"
    and "ip_pdrequest p \<noteq> IP_NULL" and "ip_pdrequest p \<noteq> ie_object e"
    and "ks_ports s (ip_pdrequest p) = Some d" and "\<not> in_transit d" and "io_references d < IO_MAX_REFERENCES"
    and "memory_left 1 s"
  shows "\<exists>s' sp' r p'. ipc_right_delta space name entry MACH_PORT_RIGHT_RECEIVE (- 1) s = Some (KERN_SUCCESS, s') \<and>
    ks_spaces s' space = Some sp' \<and> is_names sp' = (is_names sp)(name \<mapsto> (IO_NULL, r, 0)) \<and>
    IE_BITS_TYPE r = MACH_PORT_TYPE_DEAD_NAME \<and> ks_ports s' (ie_object e) = Some p' \<and> io_active p' \<and>
    ip_srights p' = ip_srights p \<and> Sent_port_destroyed (ip_pdrequest p) (ie_object e) \<in> set (ks_events s')"
  by (rule delta_receive_wanted [OF assms])

text \<open>The sample for it: the port 0x40 is received under 0x104, and the port 0x400 wants it back.\<close>

definition wanted_space :: ipc_space where
  "wanted_space = sample_space\<lparr>is_table := sample_table[1 := (sample_table ! 1)\<lparr>ie_bits := 0x04030001\<rparr>]\<rparr>"

definition wanted_port :: ipc_port where
  "wanted_port = port_sample\<lparr>io_receiver_name := 0x104, ip_pdrequest := 0x400\<rparr>"

definition wanted_kernel :: kernel where
  "wanted_kernel = right_kernel\<lparr>ks_spaces := [0x3000 \<mapsto> wanted_space], ks_ports := [0x40 \<mapsto> wanted_port, 0x400 \<mapsto> port_sample]\<rparr>"

lemma delta_receive_keeps_count_witness:
  "\<exists>s' sp' p'. ipc_right_delta 0x3000 0x104 (Table_entry 1) MACH_PORT_RIGHT_RECEIVE (- 1) wanted_kernel = Some (KERN_SUCCESS, s') \<and>
     ks_spaces s' 0x3000 = Some sp' \<and> ks_ports s' 0x40 = Some p' \<and> io_active p' \<and> ip_srights p' = 1"
proof -
  let ?e = "(sample_entry 1)\<lparr>ie_bits := 0x04030001\<rparr>"
  have "space_ok wanted_space 8 [3] ({} - {Table_entry 1})"
    using entry_update_table(2) [OF right_at_get(5,6) [OF right_kernel_at(1)], of "ie_bits_update (\<lambda>_. 0x04030001)"]
    by (simp add: wanted_space_def sample_table_def IE_BITS_GEN_def IE_BITS_TYPE_def has_def)
  then have at: "right_at wanted_kernel 0x3000 wanted_space 8 [3] {} 0x104 (Table_entry 1) ?e"
    by (simp add: right_at_def wanted_kernel_def right_kernel_def entry_at_def MACH_PORT_INDEX_def MACH_PORT_GEN_def
        IE_BITS_GEN_def wanted_space_def sample_space_def sample_table_def array_get_eq_Some)
  have e: "IE_BITS_TYPE (ie_bits ?e) = MACH_PORT_TYPE_SEND_RECEIVE" "IE_BITS_UREFS (ie_bits ?e) = 1" "ie_request ?e = 0"
      "ie_object ?e = 0x40"
    by (simp_all add: IE_BITS_TYPE_def IE_BITS_UREFS_def sample_table_def)
  have p: "ks_ports wanted_kernel 0x40 = Some wanted_port" "ks_ports wanted_kernel 0x400 = Some port_sample"
      "io_active wanted_port" "io_receiver_name wanted_port = 0x104" "ip_receiver wanted_port = 0x3000" "ip_srights wanted_port = 1"
      "ip_pset_count wanted_port = 0" "ip_pdrequest wanted_port = 0x400" "\<not> in_transit port_sample" "memory_left 1 wanted_kernel"
    by (simp_all add: wanted_kernel_def wanted_port_def port_sample_def io_active_def in_transit_def memory_left_def
        right_kernel_def port_kernel_def)
  have "live_send wanted_kernel ?e wanted_port" using e p by (simp add: live_send_def)
  from delta_receive_keeps_count [OF at e(1,3) this] p e show ?thesis
    using port_sample_fields(3) by (auto simp: IO_MAX_REFERENCES_eq)
qed

end
