(* ===== verification/Mach_Port_Spec.thy ===== *)
theory Mach_Port_Spec
  imports Mach_Port Ipc_Space_Spec Ipc_Right_Spec
begin

text \<open>
  Kernel calls on port names (\<^verbatim>\<open>osfmk/ipc/mach_port.c\<close>) through all layers: a port is allocated
  under a fresh name, and the call that asks for the references of a name sees the receive right.
\<close>

section \<open>A fresh entry that gets a right\<close>

lemma fresh_right:
  assumes gen: "IE_BITS_GEN gen = gen" and type: "type AND IE_BITS_RIGHT_MASK = type" "IE_BITS_TYPE type \<noteq> 0"
    and e: "ie_bits e = gen" "ie_request e = 0"
    and f: "f = (\<lambda>e. e\<lparr>ie_bits := ie_bits e OR type, ie_object := object\<rparr>)"
  shows "keeps_entry f e" and "ie_right (f e) = Some (object, type, 0)"
proof -
  note t = or_right_fields [OF type(1), of gen, unfolded gen]
  show "keeps_entry f e"
    using t(1,3) type(2) e(1) or_right_collision [OF type(1), of gen] gen by (simp add: keeps_entry_def f)
  show "ie_right (f e) = Some (object, type, 0)"
    using t(2,3) type(2) e by (simp add: ie_right_def f)
qed

lemma entry_alloc_spec:
  assumes sp: "ks_spaces s space = Some sp" and ok: "space_ok sp its (i # fl) claimed"
  shows "\<exists>name sp' e. ipc_entry_alloc space s = Some (Inr (name, Table_entry i), put_space space sp' s) \<and>
    MACH_PORT_VALID name \<and> is_names sp name = None \<and> is_names sp' = is_names sp \<and>
    space_ok sp' its fl (insert (Table_entry i) claimed) \<and> entry_at sp' fl name (Table_entry i) \<and>
    is_entry sp' (Table_entry i) = Some e \<and> ie_request e = 0 \<and> IE_BITS_GEN (ie_bits e) = ie_bits e \<and>
    Table_entry i \<notin> claimed"
proof -
  define gen where "gen = IE_BITS_NEW_GEN (ie_bits (is_table sp ! i))"
  define name where "name = MACH_PORT_MAKE (of_nat i) gen"
  note g = get_spec [OF ok, folded gen_def, folded name_def]
  obtain sp' where get: "ipc_entry_get sp = Some (Inr (name, Table_entry i), sp')"
    and sp': "space_ok sp' its fl (insert (Table_entry i) claimed)" "is_names sp' = is_names sp"
    "is_table sp' ! i = (is_table sp ! i)\<lparr>ie_bits := gen, ie_request := 0\<rparr>" "is_table_size sp' = is_table_size sp"
    using g(1) by blast
  have i: "0 < i" "i < is_table_size sp" using free_entry(1,2) [OF ok, of i] by auto
  have len: "length (is_table sp') = is_table_size sp" using sp'(1,4) by (simp add: space_ok_def table_ok_def)
  have notin: "i \<notin> set fl" "Table_entry i \<notin> claimed"
    using ok by (auto simp: space_ok_def table_ok_def entry_list.fl_full_def entry_list.fl_ok_def)
  have gen: "IE_BITS_GEN gen = gen" by (simp add: gen_def)
  have "is_active sp" using ok by (simp add: space_ok_def)
  then have "ipc_entry_alloc space s = Some (Inr (name, Table_entry i), put_space space sp' s)"
    by (subst ipc_entry_alloc.simps) (simp add: sp get)
  moreover have "entry_at sp' fl name (Table_entry i)" using i notin g(3,4) gen sp'(3,4) by (simp add: entry_at_def)
  ultimately show ?thesis
    using g(2,5) sp' i len gen notin(2) by (intro exI [of _ name] exI [of _ sp'] exI [of _ "is_table sp' ! i"]) simp
qed

section \<open>Allocation of a port\<close>

text \<open>The port of a fresh receive right.\<close>

definition port_new :: "ipc_space_t \<Rightarrow> mach_port_name_t \<Rightarrow> ipc_port" where
  "port_new space name = ipc_port_init space name
     (ipc_port_blank\<lparr>io_references := 1, io_bits := io_makebits True IOT_PORT 0\<rparr>)"

lemma port_new_fields:
  "io_active (port_new space name)" "io_references (port_new space name) = 1" "ip_receiver (port_new space name) = space"
  "io_receiver_name (port_new space name) = name" "ip_srights (port_new space name) = 0"
  "ip_nsrequest (port_new space name) = IP_NULL"
  by (simp_all add: port_new_def ipc_port_init_def ipc_port_blank_def io_active_def io_makebits_def)

lemma implements_claimed:
  assumes ok: "space_ok sp its fl (insert entry claimed)" and at: "entry_at sp fl name entry"
    and e: "is_entry sp entry = Some e" and keep: "keeps_entry f e" and notin: "entry \<notin> claimed"
  shows "\<exists>sp'. is_entry_upd entry f sp = Some sp' \<and> space_ok sp' its fl claimed \<and>
    is_names sp' = (is_names sp)(name := ie_right (f e)) \<and> is_entry sp' entry = Some (f e) \<and> entry_at sp' fl name entry"
proof -
  have k: "IE_BITS_TYPE (ie_bits (f e)) \<noteq> 0" "IE_BITS_GEN (ie_bits (f e)) = IE_BITS_GEN (ie_bits e)"
    "has (ie_bits (f e)) IE_BITS_COLLISION = has (ie_bits e) IE_BITS_COLLISION"
    using keep unfolding keeps_entry_def by blast+
  have "insert entry claimed - {entry} = claimed" using notin by auto
  with entry_update_spec [where f = f, OF ok at e k(2,3)] k(1) show ?thesis by auto
qed

lemma port_alloc_spec:
  assumes sp: "ks_spaces s space = Some sp" and ok: "space_ok sp its (i # fl) claimed"
    and mem: "ks_free_memory s = port # rest" "port \<noteq> 0"
  shows "\<exists>name s' sp'. ipc_port_alloc space s = Some (Inr (name, port), s') \<and>
    MACH_PORT_VALID name \<and> is_names sp name = None \<and> ks_spaces s' = (ks_spaces s)(space \<mapsto> sp') \<and>
    space_ok sp' its fl claimed \<and> is_names sp' = (is_names sp)(name \<mapsto> (port, MACH_PORT_TYPE_RECEIVE, 0)) \<and>
    entry_at sp' fl name (Table_entry i) \<and>
    ks_ports s' = (ks_ports s)(port \<mapsto> port_new space name) \<and> ks_free_memory s' = rest \<and> ks_events s' = ks_events s"
proof -
  let ?s1 = "put_port port ipc_port_blank (s\<lparr>ks_free_memory := rest\<rparr>)"
  let ?f = "\<lambda>e :: ipc_entry. e\<lparr>ie_bits := ie_bits e OR MACH_PORT_TYPE_RECEIVE, ie_object := port\<rparr>"
  have sp1: "ks_spaces ?s1 space = Some sp" using sp by (simp add: put_port_def)
  obtain name sp1 e where a: "ipc_entry_alloc space ?s1 = Some (Inr (name, Table_entry i), put_space space sp1 ?s1)"
    "MACH_PORT_VALID name" "is_names sp name = None" "is_names sp1 = is_names sp"
    and b: "space_ok sp1 its fl (insert (Table_entry i) claimed)" "entry_at sp1 fl name (Table_entry i)"
      "is_entry sp1 (Table_entry i) = Some e" "ie_request e = 0" "IE_BITS_GEN (ie_bits e) = ie_bits e" "Table_entry i \<notin> claimed"
    using entry_alloc_spec [OF sp1 ok] by blast
  have type: "MACH_PORT_TYPE_RECEIVE AND IE_BITS_RIGHT_MASK = MACH_PORT_TYPE_RECEIVE" "IE_BITS_TYPE MACH_PORT_TYPE_RECEIVE \<noteq> 0"
    by (simp_all add: IE_BITS_TYPE_def)
  note r = fresh_right [OF b(5) type refl b(4) refl, of port]
  obtain sp2 where c: "is_entry_upd (Table_entry i) ?f sp1 = Some sp2" "space_ok sp2 its fl claimed"
    "is_names sp2 = (is_names sp)(name \<mapsto> (port, MACH_PORT_TYPE_RECEIVE, 0))" "entry_at sp2 fl name (Table_entry i)"
    using implements_claimed [OF b(1-3) r(1) b(6)] r(2) a(4) by auto
  let ?s2 = "put_space space sp2 ?s1"
  have upd: "upd_entry space (Table_entry i) ?f (put_space space sp1 ?s1) = Some ?s2"
    using c(1) by (simp add: upd_entry_def del: is_entry_upd.simps)
  have "ipc_object_alloc space IOT_PORT MACH_PORT_TYPE_RECEIVE 0 s =
      Some (Inr (name, port), put_port port (ipc_port_blank\<lparr>io_references := 1, io_bits := io_makebits True IOT_PORT 0\<rparr>) ?s2)"
    using mem a(1) upd by (simp add: ipc_object_alloc_def io_alloc_def kalloc_def io_activate_def upd_port_def
      put_port_def put_space_def)
  then have "ipc_port_alloc space s = Some (Inr (name, port), put_port port (port_new space name) ?s2)"
    by (simp add: ipc_port_alloc_def upd_port_def port_new_def put_port_def)
  with a c show ?thesis
    by (intro exI [of _ name] exI [of _ "put_port port (port_new space name) ?s2"] exI [of _ sp2])
      (simp add: put_port_def put_space_def)
qed

section \<open>The references of a receive right\<close>

lemma get_refs_receive:
  assumes sp: "ks_spaces s space = Some sp" "space \<noteq> 0" and ok: "space_ok sp its fl claimed"
    and names: "is_names sp name = Some (port, MACH_PORT_TYPE_RECEIVE, 0)"
    and fast: "is_fast sp \<longrightarrow> name_index name < is_table_size sp" and rnum: "mach_port_right_of rnum = Some rt"
  shows "\<exists>s'. mach_port_get_refs space name rnum s = Some (Inr (if rt = MACH_PORT_RIGHT_RECEIVE then 1 else 0), s')"
proof -
  obtain entry sp' where l: "ipc_entry_lookup sp name = Some (Some entry, sp')" and e: "\<exists>e. is_entry sp' entry = Some e \<and>
      is_names sp name = ie_right e"
    using entry_lookup_spec [OF ok fast] names by (auto split: option.splits)
  then obtain e where e: "is_entry sp' entry = Some e" "ie_right e = Some (port, MACH_PORT_TYPE_RECEIVE, 0)"
    using names by auto
  have "ie_bits e AND IE_BITS_RIGHT_MASK = MACH_PORT_TYPE_RECEIVE" and req: "ie_request e = 0"
    using e(2) by (auto simp: ie_right_def split: if_splits)
  then have type: "IE_BITS_TYPE (ie_bits e) = MACH_PORT_TYPE_RECEIVE"
    using right_mask_fields [of "ie_bits e"] by (simp add: IE_BITS_TYPE_def)
  let ?s = "put_space space sp' s"
  have act: "is_active sp" using ok by (simp add: space_ok_def)
  have lookup: "ipc_right_lookup_write space name s = Some (Inr entry, ?s)"
    using sp(1) act l by (simp add: ipc_right_lookup_write_def)
  have "ipc_right_info space name entry ?s = Some ((MACH_PORT_TYPE_RECEIVE, IE_BITS_UREFS (ie_bits e)), ?s)"
    using e(1) type req by (simp add: ipc_right_info_def get_entry_def has_type)
  then show ?thesis
    using sp(2) rnum lookup by (cases rt) (simp_all add: mach_port_get_refs_def MACH_PORT_TYPE_def)
qed

section \<open>Properties\<close>

text \<open>C11: allocation of a receive right. In a well-formed space with a free element, \<open>mach_port_allocate\<close>
  returns a valid name that was not in use; the name denotes a receive right for a new, active port
  whose receiver is the space under that name, with one reference and no send rights;
  every other name and port is as before, and \<open>mach_port_get_refs\<close> counts one reference for the receive
  right of the name and none for any other right. Without memory the call reports
  KERN_RESOURCE_SHORTAGE and changes nothing.\<close>

theorem port_allocate_receive:
  assumes "ks_spaces s space = Some sp" and "space \<noteq> 0" and "space_ok sp its (i # fl) claimed"
    and "ks_free_memory s = port # rest" and "port \<noteq> 0"
  shows "\<exists>name s' sp' p. mach_port_allocate space 1 s = Some (Inr name, s') \<and>
      MACH_PORT_VALID name \<and> is_names sp name = None \<and> ks_spaces s' = (ks_spaces s)(space \<mapsto> sp') \<and>
      space_ok sp' its fl claimed \<and> is_names sp' = (is_names sp)(name \<mapsto> (port, MACH_PORT_TYPE_RECEIVE, 0)) \<and>
      ks_ports s' = (ks_ports s)(port \<mapsto> p) \<and> io_active p \<and> io_references p = 1 \<and> ip_receiver p = space \<and>
      io_receiver_name p = name \<and> ip_srights p = 0 \<and> ip_nsrequest p = IP_NULL \<and> ks_events s' = ks_events s \<and>
      (\<forall>rnum rt. mach_port_right_of rnum = Some rt \<longrightarrow>
        (\<exists>s''. mach_port_get_refs space name rnum s' = Some (Inr (if rt = MACH_PORT_RIGHT_RECEIVE then 1 else 0), s''))) \<and>
      mach_port_allocate space 1 (s\<lparr>ks_free_memory := []\<rparr>) = Some (Inl KERN_RESOURCE_SHORTAGE, s\<lparr>ks_free_memory := []\<rparr>)"
proof -
  obtain name s' sp' where alloc: "ipc_port_alloc space s = Some (Inr (name, port), s')"
    and a: "MACH_PORT_VALID name" "is_names sp name = None" "ks_spaces s' = (ks_spaces s)(space \<mapsto> sp')"
      "space_ok sp' its fl claimed" "is_names sp' = (is_names sp)(name \<mapsto> (port, MACH_PORT_TYPE_RECEIVE, 0))"
      "entry_at sp' fl name (Table_entry i)" "ks_ports s' = (ks_ports s)(port \<mapsto> port_new space name)" "ks_events s' = ks_events s"
    using port_alloc_spec [OF assms(1,3-5)] by blast
  have run: "mach_port_allocate space 1 s = Some (Inr name, s')"
    using assms(1,2) alloc by (simp add: mach_port_allocate_def mach_port_allocate_full_def mach_port_right_of_def)
  have fast: "is_fast sp' \<longrightarrow> name_index name < is_table_size sp'" using a(6) by (simp add: entry_at_def)
  have "\<exists>s''. mach_port_get_refs space name rnum s' = Some (Inr (if rt = MACH_PORT_RIGHT_RECEIVE then 1 else 0), s'')"
    if "mach_port_right_of rnum = Some rt" for rnum rt
    by (rule get_refs_receive [OF _ assms(2) a(4) _ fast that, where port = port]) (simp_all add: a(3,5))
  moreover have "mach_port_allocate space 1 (s\<lparr>ks_free_memory := []\<rparr>) =
      Some (Inl KERN_RESOURCE_SHORTAGE, s\<lparr>ks_free_memory := []\<rparr>)"
    using assms(1,2) by (simp add: mach_port_allocate_def mach_port_allocate_full_def mach_port_right_of_def
      ipc_port_alloc_def ipc_object_alloc_def io_alloc_def kalloc_def)
  ultimately show ?thesis using run a port_new_fields [of space name] by blast
qed

lemma port_allocate_receive_witness:
  "\<exists>name s' s'' p. mach_port_allocate 0x3000 1 entry_kernel = Some (Inr name, s') \<and>
     ks_ports s' 0x5000 = Some p \<and> ip_receiver p = 0x3000 \<and> mach_port_get_refs 0x3000 name 1 s' = Some (Inr 1, s'')"
proof -
  have "ks_free_memory entry_kernel = [0x5000]" by (simp add: entry_kernel_def)
  moreover have "mach_port_right_of 1 = Some MACH_PORT_RIGHT_RECEIVE" by (simp add: mach_port_right_of_def)
  ultimately show ?thesis
    using port_allocate_receive [OF entry_kernel_space(1) _ entry_sample_ok] by fastforce
qed

end
