(* ===== verification/Ipc_Table.thy ===== *)
theory Ipc_Table
  imports Ipc_Prelude
begin

text \<open>
  The arrays of table sizes (\<^verbatim>\<open>osfmk/ipc/ipc_table.c\<close>): powers of two up to the page size,
  then increments of one page, two, four and eight pages. The entry table of a space and the
  table of dead-name requests of a port grow along these arrays.
\<close>

abbreviation PAGE_SIZE :: u32 where "PAGE_SIZE \<equiv> 4096"

text \<open>The loops carry the index of the next element and the elements filled so far, the last one
  first.\<close>

partial_function (option) ipc_table_fill_powers ::
  "nat \<Rightarrow> u32 \<Rightarrow> u32 \<Rightarrow> nat \<Rightarrow> u32 \<Rightarrow> u32 list \<Rightarrow> (nat \<times> u32 \<times> u32 list) option" where
  "ipc_table_fill_powers num minsize elemsize index sz its =
    (if index < num \<and> sz < PAGE_SIZE then
       (if minsize \<le> sz
        then ipc_table_fill_powers num minsize elemsize (index + 1) (push_bit 1 sz) (sz div elemsize # its)
        else ipc_table_fill_powers num minsize elemsize index (push_bit 1 sz) its)
     else Some (index, sz, its))"

partial_function (option) ipc_table_fill_period ::
  "nat \<Rightarrow> u32 \<Rightarrow> u32 \<Rightarrow> u32 \<Rightarrow> nat \<Rightarrow> nat \<Rightarrow> u32 \<Rightarrow> u32 list \<Rightarrow> (nat \<times> u32 \<times> u32 list) option" where
  "ipc_table_fill_period num minsize elemsize incrsize period index sz its =
    (if period < 15 \<and> index < num then
       (if minsize \<le> sz
        then ipc_table_fill_period num minsize elemsize incrsize (period + 1) (index + 1) (sz + incrsize)
               (sz div elemsize # its)
        else ipc_table_fill_period num minsize elemsize incrsize (period + 1) index (sz + incrsize) its)
     else Some (index, sz, its))"

partial_function (option) ipc_table_fill_pages ::
  "nat \<Rightarrow> u32 \<Rightarrow> u32 \<Rightarrow> u32 \<Rightarrow> nat \<Rightarrow> u32 \<Rightarrow> u32 list \<Rightarrow> u32 list option" where
  "ipc_table_fill_pages num minsize elemsize incrsize index sz its =
    (if index < num then
       do { (index, sz, its) \<leftarrow> ipc_table_fill_period num minsize elemsize incrsize 0 index sz its;
            ipc_table_fill_pages num minsize elemsize
              (if incrsize < push_bit 3 PAGE_SIZE then push_bit 1 incrsize else incrsize) index sz its }
     else Some its)"

definition ipc_table_fill :: "nat \<Rightarrow> u32 \<Rightarrow> u32 \<Rightarrow> u32 list option" where
  "ipc_table_fill num min_elems elemsize =
    (let minsize = min_elems * elemsize in
     do { (index, sz, its) \<leftarrow> ipc_table_fill_powers num minsize elemsize 0 1 [];
          its \<leftarrow> ipc_table_fill_pages num minsize elemsize PAGE_SIZE index sz its;
          Some (rev its) })"

abbreviation ipc_table_entries_size :: nat where "ipc_table_entries_size \<equiv> 512"
abbreviation ipc_table_dnrequests_size :: nat where "ipc_table_dnrequests_size \<equiv> 64"

text \<open>The sizes of \<^verbatim>\<open>struct ipc_entry\<close> (with the two fields that are added) and of
  \<^verbatim>\<open>struct ipc_port_request\<close> are 16 + 4 + 4 and 8 bytes.\<close>

definition ipc_table_init :: "(u32 list \<times> u32 list) option" where
  "ipc_table_init =
    do { entries \<leftarrow> ipc_table_fill (ipc_table_entries_size - 1) 4 (16 + 4 + 4);
         dnrequests \<leftarrow> ipc_table_fill (ipc_table_dnrequests_size - 1) 2 8;
         Some (entries @ [entries ! (ipc_table_entries_size - 2)], dnrequests @ [0]) }"

end
