(* ===== verification/Ipc_Table_Spec.thy ===== *)
theory Ipc_Table_Spec
  imports Ipc_Table
begin

text \<open>
  The tables of sizes (\<^verbatim>\<open>osfmk/ipc/ipc_table.c\<close>): the loops that fill them end, and the sizes
  grow strictly, so that a table of entries or of dead-name requests always grows to a larger one.
  The loops are followed with one invariant over the byte size, the index and the sizes so far.
\<close>

section \<open>The invariant of the loops\<close>

text \<open>The sizes so far, the last one first, fall strictly, lie between the minimum and the next
  size, and the byte size does not wrap.\<close>

definition fill_inv :: "nat \<Rightarrow> u32 \<Rightarrow> u32 \<Rightarrow> nat \<Rightarrow> u32 \<Rightarrow> u32 list \<Rightarrow> bool" where
  "fill_inv num min_elems elemsize index sz its \<longleftrightarrow> index \<le> num \<and> length its = index \<and> sorted_wrt (>) its \<and>
     (\<forall>x \<in> set its. min_elems \<le> x \<and> x < sz div elemsize) \<and> 0 < sz \<and> unat sz \<le> 4096 + index * 32768"

locale fill_bounds =
  fixes num :: nat and min_elems elemsize :: u32
  assumes elems: "0 < min_elems" "0 < elemsize" and page: "unat min_elems * unat elemsize \<le> 4096"
    and number: "num \<le> 2 ^ 15"
begin

lemma unat_minsize: "unat (min_elems * elemsize) = unat min_elems * unat elemsize"
  unfolding unat_word_ariths using page by (intro mod_less) simp

lemma elemsize_pos: "0 < unat elemsize"
  using elems(2) by (simp only: word_less_nat_alt unat_0)

lemma elemsize_le: "unat elemsize \<le> unat (min_elems * elemsize)"
proof -
  have "0 < unat min_elems" using elems(1) by (simp only: word_less_nat_alt unat_0)
  then have "1 * unat elemsize \<le> unat min_elems * unat elemsize" by (intro mult_le_mono1) simp
  then show ?thesis unfolding unat_minsize by simp
qed

text \<open>One more size: the byte size grows by at least the size of an element.\<close>

lemma fill_step:
  assumes inv: "fill_inv num min_elems elemsize index sz its" and index: "index < num"
    and min: "min_elems * elemsize \<le> sz"
    and sz': "unat sz' = unat sz + d" "unat elemsize \<le> d" "unat sz' \<le> 4096 + (index + 1) * 32768"
  shows "fill_inv num min_elems elemsize (index + 1) sz' (sz div elemsize # its)"
proof -
  have "unat sz div unat elemsize < (unat sz + unat elemsize) div unat elemsize"
    using elemsize_pos div_add_self2 [of "unat elemsize" "unat sz"] by linarith
  also have "\<dots> \<le> (unat sz + d) div unat elemsize" using sz'(2) by (intro div_le_mono) simp
  finally have less: "sz div elemsize < sz' div elemsize"
    by (simp only: word_less_nat_alt unat_div_distrib sz'(1))
  have "unat min_elems * unat elemsize \<le> unat sz"
    using min by (simp only: word_le_nat_alt unat_minsize)
  then have "min_elems \<le> sz div elemsize"
    using elemsize_pos by (simp only: word_le_nat_alt unat_div_distrib less_eq_div_iff_mult_less_eq)
  moreover have "0 < unat sz'" using sz' elemsize_pos by simp
  then have "0 < sz'" by (simp only: word_less_nat_alt unat_0)
  ultimately show ?thesis
    using inv less sz'(3) index unfolding fill_inv_def by (auto intro: order_less_trans)
qed

text \<open>A byte size that is too small for the minimum is left out.\<close>

lemma fill_skip:
  assumes inv: "fill_inv num min_elems elemsize index sz its" and "sz \<le> sz'"
    and "unat sz' \<le> 4096 + index * 32768"
  shows "fill_inv num min_elems elemsize index sz' its"
proof -
  have "unat sz div unat elemsize \<le> unat sz' div unat elemsize"
    using assms(2) by (intro div_le_mono) (simp only: word_le_nat_alt)
  then have "sz div elemsize \<le> sz' div elemsize" by (simp only: word_le_nat_alt unat_div_distrib)
  then show ?thesis using assms unfolding fill_inv_def by (auto intro: order_less_le_trans)
qed

section \<open>The powers of two\<close>

lemma powers_total:
  assumes "fill_inv num min_elems elemsize index sz its" and "unat sz = 2 ^ k" and "k \<le> 12"
  shows "\<exists>index' sz' its'. ipc_table_fill_powers num (min_elems * elemsize) elemsize index sz its = Some (index', sz', its') \<and>
     fill_inv num min_elems elemsize index' sz' its' \<and> (index' < num \<longrightarrow> sz' = PAGE_SIZE)"
  using assms
proof (induction "12 - k" arbitrary: k index sz its rule: less_induct)
  case less
  show ?case
  proof (cases "index < num \<and> sz < PAGE_SIZE")
    case False
    have "sz = PAGE_SIZE" if "\<not> sz < PAGE_SIZE"
    proof -
      have "(2 :: nat) ^ k \<le> 2 ^ 12" using less.prems(3) by (rule power_increasing) simp
      then have "unat sz \<le> unat PAGE_SIZE" using less.prems(2) by simp
      then have "sz \<le> PAGE_SIZE" by (simp only: word_le_nat_alt)
      with that show ?thesis by simp
    qed
    with False less.prems(1) show ?thesis
      by (subst ipc_table_fill_powers.simps) auto
  next
    case True
    then have "unat sz < unat PAGE_SIZE" by (simp only: word_less_nat_alt)
    then have "(2 :: nat) ^ k < 2 ^ 12" using less.prems(2) by simp
    then have k: "k < 12" by (simp only: power_strict_increasing_iff [of "2 :: nat"] one_less_numeral_iff semiring_norm)
    define sz' where "sz' = push_bit 1 sz"
    have sz': "unat sz' = unat sz + unat sz" "unat sz' = 2 ^ (k + 1)" "unat sz' \<le> 4096"
    proof -
      have "unat sz' = (2 * unat sz) mod 2 ^ 32"
        unfolding sz'_def push_bit_eq_mult unat_word_ariths by (simp add: mult.commute)
      also have "\<dots> = 2 * unat sz" using \<open>unat sz < unat PAGE_SIZE\<close> by (intro mod_less) simp
      finally show "unat sz' = unat sz + unat sz" by simp
      then show pow: "unat sz' = 2 ^ (k + 1)" using less.prems(2) by simp
      have "(2 :: nat) ^ (k + 1) \<le> 2 ^ 12" using k by (intro power_increasing) auto
      with pow show "unat sz' \<le> 4096" by simp
    qed
    have dec: "12 - (k + 1) < 12 - k" and le: "k + 1 \<le> 12" using k by auto
    show ?thesis
    proof (cases "min_elems * elemsize \<le> sz")
      case min: True
      then have "unat (min_elems * elemsize) \<le> unat sz" by (simp only: word_le_nat_alt)
      then have "unat elemsize \<le> unat sz" using elemsize_le by simp
      then have "fill_inv num min_elems elemsize (index + 1) sz' (sz div elemsize # its)"
        using sz' True min by (intro fill_step [OF less.prems(1)]) auto
      from less.hyps [OF dec this sz'(2) le] True min show ?thesis
        by (subst ipc_table_fill_powers.simps) (simp add: sz'_def)
    next
      case False
      have "unat sz \<le> unat sz'" using sz'(1) by simp
      then have "sz \<le> sz'" by (simp only: word_le_nat_alt)
      then have "fill_inv num min_elems elemsize index sz' its"
        using sz'(3) by (intro fill_skip [OF less.prems(1)]) auto
      from less.hyps [OF dec this sz'(2) le] True False show ?thesis
        by (subst ipc_table_fill_powers.simps) (simp add: sz'_def)
    qed
  qed
qed

section \<open>The increments of pages\<close>

lemma fill_no_wrap:
  assumes "fill_inv num min_elems elemsize index sz its" and "index < num" and "incr \<le> 32768"
  shows "unat (sz + incr) = unat sz + unat incr" "unat sz + unat incr \<le> 4096 + (index + 1) * 32768"
proof -
  have incr: "unat incr \<le> 32768"
  proof -
    have "unat incr \<le> unat (32768 :: u32)" using assms(3) by (simp only: word_le_nat_alt)
    then show ?thesis by simp
  qed
  moreover have sz: "unat sz \<le> 4096 + index * 32768" using assms(1) unfolding fill_inv_def by blast
  ultimately show le: "unat sz + unat incr \<le> 4096 + (index + 1) * 32768" by simp
  have "index + 1 \<le> 2 ^ 15" using assms(2) number by simp
  then have "(index + 1) * 32768 \<le> 2 ^ 15 * 32768" by (rule mult_le_mono1)
  with le show "unat (sz + incr) = unat sz + unat incr"
    unfolding unat_word_ariths by (intro mod_less) simp
qed

lemma period_total:
  assumes "fill_inv num min_elems elemsize index sz its" and "index < num \<longrightarrow> PAGE_SIZE \<le> sz"
    and "PAGE_SIZE \<le> incr" "incr \<le> 32768"
  shows "\<exists>index' sz' its'. ipc_table_fill_period num (min_elems * elemsize) elemsize incr p index sz its = Some (index', sz', its') \<and>
     fill_inv num min_elems elemsize index' sz' its' \<and> (index' < num \<longrightarrow> PAGE_SIZE \<le> sz') \<and> index \<le> index' \<and>
     (p < 15 \<and> index < num \<longrightarrow> index < index')"
  using assms(1, 2)
proof (induction "num - index" arbitrary: p index sz its rule: less_induct)
  case less
  show ?case
  proof (cases "p < 15 \<and> index < num")
    case False
    with less.prems show ?thesis by (subst ipc_table_fill_period.simps) auto
  next
    case True
    have page_unat: "unat PAGE_SIZE \<le> unat sz" "unat PAGE_SIZE \<le> unat incr"
      using less.prems(2) True assms(3) by (auto simp only: word_le_nat_alt)
    have "unat (min_elems * elemsize) \<le> unat sz" using page page_unat(1) unat_minsize by simp
    then have min: "min_elems * elemsize \<le> sz" by (simp only: word_le_nat_alt)
    have wrap: "unat (sz + incr) = unat sz + unat incr" "unat sz + unat incr \<le> 4096 + (index + 1) * 32768"
      using fill_no_wrap [OF less.prems(1) _ assms(4)] True by blast+
    have "unat elemsize \<le> 4096" using elemsize_le page unfolding unat_minsize by (rule order_trans)
    then have "unat elemsize \<le> unat incr" using page_unat(2) by simp
    then have inv: "fill_inv num min_elems elemsize (index + 1) (sz + incr) (sz div elemsize # its)"
      using wrap True min by (intro fill_step [OF less.prems(1)]) auto
    have "unat PAGE_SIZE \<le> unat (sz + incr)" unfolding wrap(1) using page_unat(1) by simp
    then have "PAGE_SIZE \<le> sz + incr" by (simp only: word_le_nat_alt)
    then have "index + 1 < num \<longrightarrow> PAGE_SIZE \<le> sz + incr" by blast
    moreover have "num - (index + 1) < num - index" using True by arith
    ultimately obtain index' sz' its' where
      period: "ipc_table_fill_period num (min_elems * elemsize) elemsize incr (p + 1) (index + 1) (sz + incr)
          (sz div elemsize # its) = Some (index', sz', its')" and inv': "fill_inv num min_elems elemsize index' sz' its'"
      and page': "index' < num \<longrightarrow> PAGE_SIZE \<le> sz'" and inc: "index + 1 \<le> index'"
      using less.hyps [OF _ inv, of "p + 1"] by blast
    have "ipc_table_fill_period num (min_elems * elemsize) elemsize incr p index sz its = Some (index', sz', its')"
      using True min period by (subst ipc_table_fill_period.simps) simp
    with inv' page' inc show ?thesis by simp
  qed
qed

lemma pages_total:
  assumes "fill_inv num min_elems elemsize index sz its" and "index < num \<longrightarrow> PAGE_SIZE \<le> sz"
    and "incr \<in> {4096, 8192, 16384, 32768}"
  shows "\<exists>sz' its'. ipc_table_fill_pages num (min_elems * elemsize) elemsize incr index sz its = Some its' \<and>
     fill_inv num min_elems elemsize num sz' its'"
  using assms
proof (induction "num - index" arbitrary: incr index sz its rule: less_induct)
  case less
  show ?case
  proof (cases "index < num")
    case False
    then have "index = num" using less.prems(1) unfolding fill_inv_def by simp
    with less.prems(1) show ?thesis by (subst ipc_table_fill_pages.simps) auto
  next
    case True
    define incr' where "incr' = (if incr < push_bit 3 PAGE_SIZE then push_bit 1 incr else incr)"
    have incr': "incr' \<in> {4096, 8192, 16384, 32768}" using less.prems(3) by (auto simp: incr'_def)
    have bounds: "PAGE_SIZE \<le> incr" "incr \<le> 32768" using less.prems(3) by auto
    obtain index' sz' its' where period: "ipc_table_fill_period num (min_elems * elemsize) elemsize incr 0 index sz its =
        Some (index', sz', its')" and inv: "fill_inv num min_elems elemsize index' sz' its'"
      and page: "index' < num \<longrightarrow> PAGE_SIZE \<le> sz'" and dec: "index < index'"
      using period_total [OF less.prems(1, 2) bounds, of 0] True by auto
    have "num - index' < num - index" using dec True by simp
    from less.hyps [OF this inv page incr'] True period show ?thesis
      by (subst ipc_table_fill_pages.simps) (simp add: incr'_def)
  qed
qed

section \<open>The whole array\<close>

lemma fill_total:
  "\<exists>its. ipc_table_fill num min_elems elemsize = Some its \<and> length its = num \<and> sorted_wrt (<) its \<and>
     (\<forall>x \<in> set its. min_elems \<le> x \<and> unat x * unat elemsize < 4096 + num * 32768)"
proof -
  have "fill_inv num min_elems elemsize 0 1 []" by (simp add: fill_inv_def)
  then obtain index sz its where powers: "ipc_table_fill_powers num (min_elems * elemsize) elemsize 0 1 [] = Some (index, sz, its)"
    and inv: "fill_inv num min_elems elemsize index sz its" and page: "index < num \<longrightarrow> PAGE_SIZE \<le> sz"
    using powers_total [of 0 1 "[]" 0] by fastforce
  obtain sz' its' where pages: "ipc_table_fill_pages num (min_elems * elemsize) elemsize PAGE_SIZE index sz its = Some its'"
    and inv': "fill_inv num min_elems elemsize num sz' its'"
    using pages_total [OF inv page, of PAGE_SIZE] by auto
  have "unat x * unat elemsize < 4096 + num * 32768" if "x \<in> set its'" for x
  proof -
    have "x < sz' div elemsize" using that inv' unfolding fill_inv_def by blast
    then have "unat x < unat sz' div unat elemsize" by (simp only: word_less_nat_alt unat_div_distrib)
    then have "unat x * unat elemsize < unat sz' div unat elemsize * unat elemsize" using elemsize_pos by simp
    also have "\<dots> \<le> unat sz'" by (rule div_times_less_eq_dividend)
    also have "\<dots> \<le> 4096 + num * 32768" using inv' unfolding fill_inv_def by blast
    finally show ?thesis .
  qed
  moreover have "sorted_wrt (<) (rev its')"
    using inv' unfolding fill_inv_def by (simp add: sorted_wrt_rev)
  ultimately show ?thesis
    using powers pages inv' unfolding fill_inv_def by (auto simp: ipc_table_fill_def Let_def)
qed

end

text \<open>The two arrays of the kernel.\<close>

interpretation entries: fill_bounds 511 4 24
  by unfold_locales simp_all

interpretation dnrequests: fill_bounds 63 2 8
  by unfold_locales simp_all

text \<open>The array is strictly increasing up to the position \<open>n\<close>, and every size there fits a bound.\<close>

definition growing :: "nat \<Rightarrow> u32 \<Rightarrow> nat \<Rightarrow> u32 list \<Rightarrow> bool" where
  "growing n min_elems bound its \<longleftrightarrow>
     (\<forall>i j. i < j \<and> j < n \<longrightarrow> its ! i < its ! j) \<and> (\<forall>i < n. min_elems \<le> its ! i \<and> unat (its ! i) < bound)"

lemma growing_append:
  assumes "length its = n" "sorted_wrt (<) its" and "\<forall>x \<in> set its. min_elems \<le> x \<and> unat x < bound"
  shows "growing n min_elems bound (its @ xs)"
proof -
  have "(its @ xs) ! i = its ! i" if "i < n" for i using that assms(1) by (simp add: nth_append)
  moreover have "its ! i < its ! j" if "i < j" "j < n" for i j
    using assms(1, 2) that by (simp add: sorted_wrt_nth_less)
  moreover have "its ! i \<in> set its" if "i < n" for i using that assms(1) by simp
  ultimately show ?thesis using assms(3) unfolding growing_def by auto
qed

text \<open>C32: \<^verbatim>\<open>ipc_table_init\<close> ends, without a panic. The array of entry-table sizes has 512 elements: the first
  511 grow strictly, start at no less than four entries and stay below \<open>2 ^ 20\<close> entries, so
  that no table exceeds the 24 bits of an index, and the last two are equal, which is how
  \<^verbatim>\<open>ipc_entry_grow_table\<close> sees that a space cannot grow. The array for the dead-name requests has 64: the
  first 63 grow strictly from at least two, and the last one is the zero that stops \<^verbatim>\<open>ipc_port_dngrow\<close>.
\<close>

theorem table_sizes:
  "\<exists>entries dnrequests. ipc_table_init = Some (entries, dnrequests) \<and>
     length entries = 512 \<and> growing 511 4 (2 ^ 20) entries \<and> entries ! 511 = entries ! 510 \<and>
     length dnrequests = 64 \<and> growing 63 2 (2 ^ 19) dnrequests \<and> dnrequests ! 63 = 0"
proof -
  obtain es where es: "ipc_table_fill 511 4 24 = Some es" "length es = 511" "sorted_wrt (<) es"
    and es_bound: "\<forall>x \<in> set es. 4 \<le> x \<and> unat x * 24 < 4096 + 511 * 32768"
    using entries.fill_total by auto
  obtain ds where ds: "ipc_table_fill 63 2 8 = Some ds" "length ds = 63" "sorted_wrt (<) ds"
    and ds_bound: "\<forall>x \<in> set ds. 2 \<le> x \<and> unat x * 8 < 4096 + 63 * 32768"
    using dnrequests.fill_total by auto
  have "growing 511 4 (2 ^ 20) (es @ [es ! 510])"
    using es es_bound by (intro growing_append) auto
  moreover have "growing 63 2 (2 ^ 19) (ds @ [0])"
    using ds ds_bound by (intro growing_append) auto
  ultimately show ?thesis
    using es ds by (simp add: ipc_table_init_def nth_append)
qed

end
