(* ===== verification/Ipc_Hash_Init.thy ===== *)
theory Ipc_Hash_Init
  imports Ipc_Hash
begin

text \<open>
  The creation of the global reverse hash table and the report on its chains
  (\<^verbatim>\<open>osfmk/ipc/ipc_hash.c\<close>). The size is rounded up to a power of two, so that the mask of
  \<open>IH_GLOBAL_HASH\<close> selects a bucket inside the table.
\<close>

section \<open>The mask\<close>

text \<open>The loop that sets the bits of the mask from below.\<close>

partial_function (option) ipc_hash_round_mask :: "u32 \<Rightarrow> u32 \<Rightarrow> u32 option" where
  "ipc_hash_round_mask one mask0 =
    (let mask0 = mask0 OR one; sz = mask0 + 1 in
     if sz AND mask0 = 0 then Some mask0 else ipc_hash_round_mask (push_bit 1 one) mask0)"

text \<open>\<open>configured\<close> is the value of \<^verbatim>\<open>ipc_hash_global_size\<close> before the call.\<close>

definition ipc_hash_init :: "u32 \<Rightarrow> u32 \<Rightarrow> kernel \<Rightarrow> kernel option" where
  "ipc_hash_init configured ipc_tree_entry_max s =
    (let sz = (if configured = 0
               then (if drop_bit 8 ipc_tree_entry_max < 32 then 32 else drop_bit 8 ipc_tree_entry_max)
               else configured);
         mask0 = sz - 1 in
     do { mask0 \<leftarrow> (if sz AND mask0 \<noteq> 0 then ipc_hash_round_mask 1 mask0 else Some mask0);
          case kalloc s of (table, s) \<Rightarrow>
            do { kassert (table \<noteq> 0);
                 Some (s\<lparr>ks_hash_mask := mask0, ks_hash := (\<lambda>_. [])\<rparr>) } })"

text \<open>The lengths of the chains, as many as the buffer holds, and the number of chains.\<close>

definition ipc_hash_info :: "u32 \<Rightarrow> kernel \<Rightarrow> nat list \<times> u32" where
  "ipc_hash_info cnt s =
    (let sz = ks_hash_mask s + 1; cnt = (if sz < cnt then sz else cnt) in
     (map (\<lambda>i. length (ks_hash s (of_nat i))) [0..<unat cnt], sz))"

section \<open>The loop ends\<close>

text \<open>A word whose bits below \<open>k\<close> are set; with all bits set the loop ends at the latest.\<close>

lemma round_mask_total:
  assumes "k \<le> 31" and "\<And>n. n < k \<Longrightarrow> bit m n"
  shows "\<exists>r. ipc_hash_round_mask (push_bit k 1) m = Some r \<and> (r + 1) AND r = 0 \<and> (\<forall>n. bit m n \<longrightarrow> bit r n)"
  using assms
proof (induction "31 - k" arbitrary: k m rule: less_induct)
  case less
  let ?m = "m OR push_bit k 1 :: u32"
  have low: "bit ?m n" if "n < Suc k" for n
    using that less.prems by (cases "n = k") (auto simp: bit_or_iff bit_push_bit_iff bit_exp_iff)
  show ?case
  proof (cases "(?m + 1) AND ?m = 0")
    case True
    then show ?thesis
      by (subst ipc_hash_round_mask.simps) (simp add: Let_def bit_or_iff)
  next
    case False
    have "k \<noteq> 31"
    proof
      assume "k = 31"
      then have "?m = - 1" using low by (intro word_eq_by_bits) simp
      with False show False by simp
    qed
    then have "31 - Suc k < 31 - k" "Suc k \<le> 31" using less.prems(1) by auto
    from less.hyps [OF this low] obtain r where
      r: "ipc_hash_round_mask (push_bit (Suc k) 1) ?m = Some r" "(r + 1) AND r = 0" "\<forall>n. bit ?m n \<longrightarrow> bit r n"
      by blast
    have "push_bit 1 (push_bit k (1 :: u32)) = push_bit (Suc k) 1" by simp
    then have "ipc_hash_round_mask (push_bit k 1) m = Some r"
      using False r(1) by (subst ipc_hash_round_mask.simps) (simp only: Let_def if_False)
    with r show ?thesis by (auto simp: bit_or_iff)
  qed
qed

text \<open>The table has a power of two of buckets (or all \<open>2 ^ 32\<close>), no fewer than asked for, and every chain is empty.\<close>

lemma hash_init_spec:
  assumes mem: "ks_free_memory s = table # rest" "table \<noteq> 0"
  shows "\<exists>s'. ipc_hash_init configured ipc_tree_entry_max s = Some s' \<and>
    (ks_hash_mask s' + 1) AND ks_hash_mask s' = 0 \<and>
    (configured \<noteq> 0 \<longrightarrow> (\<forall>n. bit (configured - 1) n \<longrightarrow> bit (ks_hash_mask s') n)) \<and>
    (\<forall>space obj. ks_hash s' (IH_GLOBAL_HASH s' space obj) = []) \<and>
    (\<forall>cnt. ipc_hash_info cnt s' = (replicate (unat (if ks_hash_mask s' + 1 < cnt then ks_hash_mask s' + 1 else cnt)) 0,
       ks_hash_mask s' + 1))"
proof -
  define sz where "sz = (if configured = 0
    then (if drop_bit 8 ipc_tree_entry_max < 32 then 32 else drop_bit 8 ipc_tree_entry_max) else configured)"
  obtain r where r: "(if sz AND (sz - 1) \<noteq> 0 then ipc_hash_round_mask 1 (sz - 1) else Some (sz - 1)) = Some r"
    "(r + 1) AND r = 0" "\<forall>n. bit (sz - 1) n \<longrightarrow> bit r n"
    using round_mask_total [of 0 "sz - 1"] by (cases "sz AND (sz - 1) = 0") auto
  have "ipc_hash_init configured ipc_tree_entry_max s =
      Some (s\<lparr>ks_free_memory := rest, ks_hash_mask := r, ks_hash := (\<lambda>_. [])\<rparr>)"
    unfolding ipc_hash_init_def Let_def sz_def [symmetric] r(1) using mem by (simp add: kalloc_def)
  with r(2,3) show ?thesis
    by (auto simp: ipc_hash_info_def Let_def sz_def map_replicate_const)
qed

end
