(* ===== verification/Ipc_Kmsg.thy ===== *)
theory Ipc_Kmsg
  imports Mach_Port
begin

text \<open>
  Kernel messages (\<^verbatim>\<open>osfmk/ipc/ipc_kmsg.c\<close>): queues of messages, the translation of the port
  rights in the header of a message between names and objects, the rights in the body of a message from the
  kernel, and the destruction of a message with everything that it carries. Out-of-line memory is
  an address that is released; copying it from and to user memory is not modelled.
\<close>

section \<open>Headers\<close>

type_synonym mach_msg_return_t = u32

abbreviation (input) MACH_MSG_SUCCESS :: mach_msg_return_t where "MACH_MSG_SUCCESS \<equiv> 0"
abbreviation MACH_MSG_IPC_SPACE :: mach_msg_return_t where "MACH_MSG_IPC_SPACE \<equiv> 0x2000"
abbreviation MACH_MSG_IPC_KERNEL :: mach_msg_return_t where "MACH_MSG_IPC_KERNEL \<equiv> 0x800"
abbreviation MACH_SEND_INVALID_DEST :: mach_msg_return_t where "MACH_SEND_INVALID_DEST \<equiv> 0x10000003"
abbreviation MACH_SEND_INVALID_REPLY :: mach_msg_return_t where "MACH_SEND_INVALID_REPLY \<equiv> 0x10000009"
abbreviation MACH_SEND_INVALID_NOTIFY :: mach_msg_return_t where "MACH_SEND_INVALID_NOTIFY \<equiv> 0x1000000b"
abbreviation MACH_SEND_INVALID_HEADER :: mach_msg_return_t where "MACH_SEND_INVALID_HEADER \<equiv> 0x10000010"
abbreviation MACH_RCV_INVALID_NOTIFY :: mach_msg_return_t where "MACH_RCV_INVALID_NOTIFY \<equiv> 0x10004007"
abbreviation MACH_RCV_HEADER_ERROR :: mach_msg_return_t where "MACH_RCV_HEADER_ERROR \<equiv> 0x1000400b"

abbreviation MACH_MSGH_BITS_COMPLEX :: u32 where "MACH_MSGH_BITS_COMPLEX \<equiv> 0x80000000"
abbreviation MACH_MSGH_BITS_CIRCULAR :: u32 where "MACH_MSGH_BITS_CIRCULAR \<equiv> 0x40000000"
abbreviation MACH_MSGH_BITS_RTALLOC :: u32 where "MACH_MSGH_BITS_RTALLOC \<equiv> 0x20000000"

definition MACH_MSGH_BITS :: "u32 \<Rightarrow> u32 \<Rightarrow> u32" where
  "MACH_MSGH_BITS remote lcl = remote OR push_bit 8 lcl"

definition MACH_MSGH_BITS_REMOTE :: "u32 \<Rightarrow> u32" where
  "MACH_MSGH_BITS_REMOTE bits = bits AND 0xff"

definition MACH_MSGH_BITS_LOCAL :: "u32 \<Rightarrow> u32" where
  "MACH_MSGH_BITS_LOCAL bits = drop_bit 8 (bits AND 0xff00)"

definition MACH_MSGH_BITS_OTHER :: "u32 \<Rightarrow> u32" where
  "MACH_MSGH_BITS_OTHER bits = bits_clear bits 0xffff"

definition MACH_MSG_TYPE_PORT_ANY_SEND :: "u32 \<Rightarrow> bool" where
  "MACH_MSG_TYPE_PORT_ANY_SEND x \<longleftrightarrow> 17 \<le> x \<and> x \<le> 21"

text \<open>The number of a type in the bits of a header; no type is 0.\<close>

definition mach_msg_type_number :: "mach_msg_type_name_t option \<Rightarrow> u32" where
  "mach_msg_type_number t = (case t of None \<Rightarrow> 0 | Some msgt_name \<Rightarrow>
     (case msgt_name of
        MACH_MSG_TYPE_MOVE_RECEIVE \<Rightarrow> 16 | MACH_MSG_TYPE_MOVE_SEND \<Rightarrow> 17 | MACH_MSG_TYPE_MOVE_SEND_ONCE \<Rightarrow> 18
      | MACH_MSG_TYPE_COPY_SEND \<Rightarrow> 19 | MACH_MSG_TYPE_MAKE_SEND \<Rightarrow> 20 | MACH_MSG_TYPE_MAKE_SEND_ONCE \<Rightarrow> 21
      | MACH_MSG_TYPE_COPY_RECEIVE \<Rightarrow> 22))"

record mach_msg_header =
  msgh_bits :: u32
  msgh_size :: u32
  msgh_remote_port :: u32
  msgh_local_port :: u32

section \<open>Queues of messages\<close>

text \<open>The descriptors of a body: a right (its name or port, its disposition); memory (address, size, way of copying,
  whether the sender gives it up; volatile memory is not told apart); an array of rights (address, count,
  way of copying, disposition, whether the sender gives it up); and one with an unknown type. The
  address of an array is an address of the sender or receiver, or, while the message is in the kernel, that of a
  kernel array, given with its words.\<close>

datatype ports_address = User_address u32 | Kernel_array u32 "u32 list"

datatype mach_msg_descriptor =
    Port_descriptor u32 u32
  | Ool_descriptor u32 u32 u32 bool
  | Ool_ports_descriptor ports_address u32 u32 u32 bool
  | Unknown_descriptor u32

abbreviation MACH_MSG_PHYSICAL_COPY :: u32 where "MACH_MSG_PHYSICAL_COPY \<equiv> 0"
abbreviation (input) MACH_MSG_VIRTUAL_COPY :: u32 where "MACH_MSG_VIRTUAL_COPY \<equiv> 1"
abbreviation (input) MACH_MSG_ALLOCATE :: u32 where "MACH_MSG_ALLOCATE \<equiv> 2"
abbreviation (input) MACH_MSG_OVERWRITE :: u32 where "MACH_MSG_OVERWRITE \<equiv> 3"
abbreviation (input) MACH_MSG_KALLOC_COPY_T :: u32 where "MACH_MSG_KALLOC_COPY_T \<equiv> 4"
abbreviation (input) MACH_MSG_PAGE_LIST_COPY_T :: u32 where "MACH_MSG_PAGE_LIST_COPY_T \<equiv> 5"

text \<open>\<open>ikm_descriptors\<close> are the descriptors that the message buffer holds, \<open>ikm_descriptor_count\<close> is
  \<^verbatim>\<open>msgh_descriptor_count\<close>, the number that the message declares.\<close>

record ipc_kmsg =
  ikm_next :: u32
  ikm_prev :: u32
  ikm_header :: mach_msg_header
  ikm_descriptor_count :: u32
  ikm_descriptors :: "mach_msg_descriptor list"

definition KMSG_IS_RT :: "ipc_kmsg \<Rightarrow> bool" where
  "KMSG_IS_RT kmsg \<longleftrightarrow> has (msgh_bits (ikm_header kmsg)) MACH_MSGH_BITS_RTALLOC"

abbreviation (input) IKM_NULL :: u32 where "IKM_NULL \<equiv> 0"
abbreviation IKM_BOGUS :: u32 where "IKM_BOGUS \<equiv> 0xffffff10"

type_synonym ikm_heap = "u32 \<Rightarrow> ipc_kmsg option"

definition upd_kmsg :: "u32 \<Rightarrow> (ipc_kmsg \<Rightarrow> ipc_kmsg) \<Rightarrow> ikm_heap \<Rightarrow> ikm_heap option" where
  "upd_kmsg kmsg f h = do { k \<leftarrow> h kmsg; Some (h(kmsg \<mapsto> f k)) }"

text \<open>A queue is the pointer \<open>ikmq_base\<close> to its first message; the messages form a circle.\<close>

definition ipc_kmsg_enqueue :: "u32 \<Rightarrow> u32 \<Rightarrow> ikm_heap \<Rightarrow> (u32 \<times> ikm_heap) option" where
  "ipc_kmsg_enqueue base kmsg h =
    (if base = IKM_NULL then
       do { h \<leftarrow> upd_kmsg kmsg (\<lambda>k. k\<lparr>ikm_next := kmsg, ikm_prev := kmsg\<rparr>) h; Some (kmsg, h) }
     else
       do { first \<leftarrow> h base;
            let last = ikm_prev first in
            do { h \<leftarrow> upd_kmsg kmsg (\<lambda>k. k\<lparr>ikm_next := base, ikm_prev := last\<rparr>) h;
                 h \<leftarrow> upd_kmsg base (\<lambda>k. k\<lparr>ikm_prev := kmsg\<rparr>) h;
                 h \<leftarrow> upd_kmsg last (\<lambda>k. k\<lparr>ikm_next := kmsg\<rparr>) h;
                 Some (base, h) } })"

definition ipc_kmsg_rmqueue_first :: "u32 \<Rightarrow> u32 \<Rightarrow> ikm_heap \<Rightarrow> (u32 \<times> ikm_heap) option" where
  "ipc_kmsg_rmqueue_first base kmsg h =
    do { kassert (base = kmsg);
         k \<leftarrow> h kmsg;
         (base, h) \<leftarrow>
           (if ikm_next k = kmsg then do { kassert (ikm_prev k = kmsg); Some (IKM_NULL, h) }
            else
              do { h \<leftarrow> upd_kmsg (ikm_next k) (\<lambda>n. n\<lparr>ikm_prev := ikm_prev k\<rparr>) h;
                   h \<leftarrow> upd_kmsg (ikm_prev k) (\<lambda>n. n\<lparr>ikm_next := ikm_next k\<rparr>) h;
                   Some (ikm_next k, h) });
         h \<leftarrow> upd_kmsg kmsg (\<lambda>k. k\<lparr>ikm_next := IKM_BOGUS, ikm_prev := IKM_BOGUS\<rparr>) h;
         Some (base, h) }"

definition ipc_kmsg_dequeue :: "u32 \<Rightarrow> ikm_heap \<Rightarrow> (u32 \<times> u32 \<times> ikm_heap) option" where
  "ipc_kmsg_dequeue base h =
    (if base \<noteq> IKM_NULL then
       do { (base', h) \<leftarrow> ipc_kmsg_rmqueue_first base base h; Some (base, base', h) }
     else Some (IKM_NULL, base, h))"

definition ipc_kmsg_rmqueue :: "u32 \<Rightarrow> u32 \<Rightarrow> ikm_heap \<Rightarrow> (u32 \<times> ikm_heap) option" where
  "ipc_kmsg_rmqueue base kmsg h =
    do { kassert (base \<noteq> IKM_NULL);
         k \<leftarrow> h kmsg;
         let nxt = ikm_next k; prev = ikm_prev k in
         do { (base, h) \<leftarrow>
                (if nxt = kmsg then
                   do { kassert (prev = kmsg); kassert (base = kmsg); Some (IKM_NULL, h) }
                 else
                   do { h \<leftarrow> upd_kmsg nxt (\<lambda>n. n\<lparr>ikm_prev := prev\<rparr>) h;
                        h \<leftarrow> upd_kmsg prev (\<lambda>n. n\<lparr>ikm_next := nxt\<rparr>) h;
                        Some (if base = kmsg then nxt else base, h) });
              h \<leftarrow> upd_kmsg kmsg (\<lambda>k. k\<lparr>ikm_next := IKM_BOGUS, ikm_prev := IKM_BOGUS\<rparr>) h;
              Some (base, h) } }"

definition ipc_kmsg_queue_next :: "u32 \<Rightarrow> u32 \<Rightarrow> ikm_heap \<Rightarrow> u32 option" where
  "ipc_kmsg_queue_next base kmsg h =
    do { kassert (base \<noteq> IKM_NULL);
         k \<leftarrow> h kmsg;
         Some (if base = ikm_next k then IKM_NULL else ikm_next k) }"

section \<open>Copyin of a header\<close>

text \<open>The lookup of an entry, which splays the tree.\<close>

definition ipc_kmsg_lookup :: "ipc_space_t \<Rightarrow> mach_port_name_t \<Rightarrow> kernel \<Rightarrow> (ipc_entry_t option \<times> kernel) option" where
  "ipc_kmsg_lookup space name s =
    do { sp \<leftarrow> ks_spaces s space;
         (r, sp) \<leftarrow> ipc_entry_lookup sp name;
         Some (r, put_space space sp s) }"

text \<open>The entry might need to be deallocated.\<close>

definition ipc_kmsg_defunct :: "ipc_space_t \<Rightarrow> mach_port_name_t \<Rightarrow> ipc_entry_t \<Rightarrow> kernel \<Rightarrow> kernel option" where
  "ipc_kmsg_defunct space name entry s =
    do { e \<leftarrow> get_entry space entry s;
         if IE_BITS_TYPE (ie_bits e) = MACH_PORT_TYPE_NONE then ipc_entry_dealloc space name entry s
         else Some s }"

text \<open>What the copyin of both rights yields: destination, its send-once right, reply port, its
  send-once right.\<close>

type_synonym copyin_header_result = "mach_msg_return_t + ipc_object_t \<times> ipc_port_t \<times> ipc_object_t \<times> ipc_port_t"

text \<open>Destination and reply port have the same name.\<close>

definition ipc_kmsg_copyin_same ::
  "ipc_space_t \<Rightarrow> mach_port_name_t \<Rightarrow> mach_msg_type_name_t \<Rightarrow> mach_msg_type_name_t option \<Rightarrow> kernel \<Rightarrow>
   (copyin_header_result \<times> kernel) option" where
  "ipc_kmsg_copyin_same space name dest_type reply_type s =
    do { (r, s) \<leftarrow> ipc_kmsg_lookup space name s;
         case r of
           None \<Rightarrow> Some (Inl MACH_SEND_INVALID_DEST, s)
         | Some entry \<Rightarrow>
             do { reply_type \<leftarrow> reply_type;
                  ok \<leftarrow> ipc_right_copyin_check space name entry reply_type s;
                  if \<not> ok then Some (Inl MACH_SEND_INVALID_REPLY, s)
                  else if dest_type = MACH_MSG_TYPE_MOVE_SEND_ONCE \<or> reply_type = MACH_MSG_TYPE_MOVE_SEND_ONCE
                  then Some (Inl MACH_SEND_INVALID_DEST, s)
                  else if {dest_type, reply_type} \<inter> {MACH_MSG_TYPE_MAKE_SEND, MACH_MSG_TYPE_MAKE_SEND_ONCE} \<noteq> {} then
                    do { (d, s) \<leftarrow> ipc_right_copyin space name entry dest_type False s;
                         case d of
                           Inl kr \<Rightarrow> Some (Inl MACH_SEND_INVALID_DEST, s)
                         | Inr (dest_port, dest_soright) \<Rightarrow>
                             do { e \<leftarrow> get_entry space entry s;
                                  kassert (IO_VALID dest_port);
                                  kassert (has (ie_bits e) MACH_PORT_TYPE_RECEIVE);
                                  kassert (dest_soright = IP_NULL);
                                  (d, s) \<leftarrow> ipc_right_copyin space name entry reply_type True s;
                                  case d of
                                    Inl kr \<Rightarrow> None
                                  | Inr (reply_port, reply_soright) \<Rightarrow>
                                      do { e \<leftarrow> get_entry space entry s;
                                           kassert (reply_port = dest_port);
                                           kassert (has (ie_bits e) MACH_PORT_TYPE_RECEIVE);
                                           kassert (reply_soright = IP_NULL);
                                           Some (Inr (dest_port, dest_soright, reply_port, reply_soright), s) } } }
                  else if dest_type = MACH_MSG_TYPE_COPY_SEND \<and> reply_type = MACH_MSG_TYPE_COPY_SEND then
                    do { (d, s) \<leftarrow> ipc_right_copyin space name entry dest_type False s;
                         case d of
                           Inl kr \<Rightarrow> Some (Inl MACH_SEND_INVALID_DEST, s)
                         | Inr (dest_port, dest_soright) \<Rightarrow>
                             do { e \<leftarrow> get_entry space entry s;
                                  kassert (has (ie_bits e) MACH_PORT_TYPE_SEND);
                                  kassert (dest_soright = IP_NULL);
                                  (reply_port, s) \<leftarrow> ipc_port_copy_send dest_port s;
                                  Some (Inr (dest_port, dest_soright, reply_port, IP_NULL), s) } }
                  else if dest_type = MACH_MSG_TYPE_MOVE_SEND \<and> reply_type = MACH_MSG_TYPE_MOVE_SEND then
                    do { (d, s) \<leftarrow> ipc_right_copyin_two space name entry s;
                         case d of
                           Inl kr \<Rightarrow> Some (Inl MACH_SEND_INVALID_DEST, s)
                         | Inr (dest_port, dest_soright) \<Rightarrow>
                             do { s \<leftarrow> ipc_kmsg_defunct space name entry s;
                                  Some (Inr (dest_port, dest_soright, dest_port, IP_NULL), s) } }
                  else
                    do { kassert ({dest_type, reply_type} = {MACH_MSG_TYPE_COPY_SEND, MACH_MSG_TYPE_MOVE_SEND});
                         (d, s) \<leftarrow> ipc_right_copyin space name entry MACH_MSG_TYPE_MOVE_SEND False s;
                         case d of
                           Inl kr \<Rightarrow> Some (Inl MACH_SEND_INVALID_DEST, s)
                         | Inr (dest_port, soright) \<Rightarrow>
                             do { s \<leftarrow> ipc_kmsg_defunct space name entry s;
                                  (reply_port, s) \<leftarrow> ipc_port_copy_send dest_port s;
                                  Some (Inr (if dest_type = MACH_MSG_TYPE_MOVE_SEND
                                             then (dest_port, soright, reply_port, IP_NULL)
                                             else (dest_port, IP_NULL, reply_port, soright)), s) } } } }"

text \<open>There is no reply port.\<close>

definition ipc_kmsg_copyin_dest ::
  "ipc_space_t \<Rightarrow> mach_port_name_t \<Rightarrow> mach_port_name_t \<Rightarrow> mach_msg_type_name_t \<Rightarrow> kernel \<Rightarrow>
   (copyin_header_result \<times> kernel) option" where
  "ipc_kmsg_copyin_dest space dest_name reply_name dest_type s =
    do { (r, s) \<leftarrow> ipc_kmsg_lookup space dest_name s;
         case r of
           None \<Rightarrow> Some (Inl MACH_SEND_INVALID_DEST, s)
         | Some entry \<Rightarrow>
             do { (d, s) \<leftarrow> ipc_right_copyin space dest_name entry dest_type False s;
                  case d of
                    Inl kr \<Rightarrow> Some (Inl MACH_SEND_INVALID_DEST, s)
                  | Inr (dest_port, dest_soright) \<Rightarrow>
                      do { s \<leftarrow> ipc_kmsg_defunct space dest_name entry s;
                           Some (Inr (dest_port, dest_soright, reply_name, IP_NULL), s) } } }"

text \<open>Two different names.\<close>

definition ipc_kmsg_copyin_both ::
  "ipc_space_t \<Rightarrow> mach_port_name_t \<Rightarrow> mach_port_name_t \<Rightarrow> mach_msg_type_name_t \<Rightarrow>
   mach_msg_type_name_t option \<Rightarrow> kernel \<Rightarrow> (copyin_header_result \<times> kernel) option" where
  "ipc_kmsg_copyin_both space dest_name reply_name dest_type reply_type s =
    do { (r, s) \<leftarrow> ipc_kmsg_lookup space dest_name s;
         case r of
           None \<Rightarrow> Some (Inl MACH_SEND_INVALID_DEST, s)
         | Some dest_entry \<Rightarrow>
             do { (r, s) \<leftarrow> ipc_kmsg_lookup space reply_name s;
                  case r of
                    None \<Rightarrow> Some (Inl MACH_SEND_INVALID_REPLY, s)
                  | Some reply_entry \<Rightarrow>
                      do { kassert (dest_entry \<noteq> reply_entry);
                           reply_type \<leftarrow> reply_type;
                           ok \<leftarrow> ipc_right_copyin_check space reply_name reply_entry reply_type s;
                           if \<not> ok then Some (Inl MACH_SEND_INVALID_REPLY, s)
                           else
                             do { (d, s) \<leftarrow> ipc_right_copyin space dest_name dest_entry dest_type False s;
                                  case d of
                                    Inl kr \<Rightarrow> Some (Inl MACH_SEND_INVALID_DEST, s)
                                  | Inr (dest_port, dest_soright) \<Rightarrow>
                                      do { kassert (IO_VALID dest_port);
                                           (d, s) \<leftarrow> ipc_right_copyin space reply_name reply_entry reply_type True s;
                                           case d of
                                             Inl kr \<Rightarrow> None
                                           | Inr (reply_port, reply_soright) \<Rightarrow>
                                               do { s \<leftarrow> ipc_kmsg_defunct space reply_name reply_entry s;
                                                    s \<leftarrow> ipc_kmsg_defunct space dest_name dest_entry s;
                                                    Some (Inr (dest_port, dest_soright, reply_port, reply_soright), s) } } } } } }"

text \<open>The receive right that the notify argument names; 0 is no port.\<close>

definition ipc_kmsg_notify_port ::
  "ipc_space_t \<Rightarrow> mach_port_name_t \<Rightarrow> mach_msg_return_t \<Rightarrow> kernel \<Rightarrow> ((mach_msg_return_t + ipc_port_t) \<times> kernel) option" where
  "ipc_kmsg_notify_port space notify err s =
    (if notify = MACH_PORT_NULL then Some (Inr IP_NULL, s)
     else
       do { (r, s) \<leftarrow> ipc_kmsg_lookup space notify s;
            case r of
              None \<Rightarrow> Some (Inl err, s)
            | Some entry \<Rightarrow>
                do { e \<leftarrow> get_entry space entry s;
                     Some (if has (ie_bits e) MACH_PORT_TYPE_RECEIVE then Inr (ie_object e) else Inl err, s) } })"

definition ipc_kmsg_copyin_header ::
  "mach_msg_header \<Rightarrow> ipc_space_t \<Rightarrow> mach_port_name_t \<Rightarrow> kernel \<Rightarrow>
   (mach_msg_return_t \<times> mach_msg_header \<times> kernel) option" where
  "ipc_kmsg_copyin_header msg space notify s =
    (let mbits = bits_clear (msgh_bits msg) MACH_MSGH_BITS_CIRCULAR;
         dest_name = msgh_remote_port msg;
         reply_name = msgh_local_port msg;
         dest_bits = MACH_MSGH_BITS_REMOTE mbits;
         reply_bits = MACH_MSGH_BITS_LOCAL mbits in
     if \<not> MACH_MSG_TYPE_PORT_ANY_SEND dest_bits then Some (MACH_SEND_INVALID_HEADER, msg, s)
     else if (if reply_bits = 0 then reply_name \<noteq> MACH_PORT_NULL else \<not> MACH_MSG_TYPE_PORT_ANY_SEND reply_bits)
     then Some (MACH_SEND_INVALID_HEADER, msg, s)
     else
       do { sp \<leftarrow> ks_spaces s space;
            if \<not> is_active sp then Some (MACH_SEND_INVALID_DEST, msg, s)
            else
              do { (n, s) \<leftarrow> ipc_kmsg_notify_port space notify MACH_SEND_INVALID_NOTIFY s;
                   case n of
                     Inl mr \<Rightarrow> Some (mr, msg, s)
                   | Inr notify_port \<Rightarrow>
                       do { dest_type \<leftarrow> mach_msg_type_name_of dest_bits;
                            let reply_type = mach_msg_type_name_of reply_bits in
                            do { (r, s) \<leftarrow>
                                   (if dest_name = reply_name
                                    then ipc_kmsg_copyin_same space dest_name dest_type reply_type s
                                    else if \<not> MACH_PORT_VALID reply_name
                                    then ipc_kmsg_copyin_dest space dest_name reply_name dest_type s
                                    else ipc_kmsg_copyin_both space dest_name reply_name dest_type reply_type s);
                                 case r of
                                   Inl mr \<Rightarrow> Some (mr, msg, s)
                                 | Inr (dest_port, dest_soright, reply_port, reply_soright) \<Rightarrow>
                                     do { (dest_soright, s) \<leftarrow>
                                            (if notify \<noteq> MACH_PORT_NULL \<and> dest_soright = notify_port
                                             then do { s \<leftarrow> ipc_port_release_sonce dest_soright s; Some (IP_NULL, s) }
                                             else Some (dest_soright, s));
                                          s \<leftarrow> (if dest_soright \<noteq> IP_NULL
                                                then ipc_notify_port_deleted dest_soright dest_name s else Some s);
                                          s \<leftarrow> (if reply_soright \<noteq> IP_NULL
                                                then ipc_notify_port_deleted reply_soright reply_name s else Some s);
                                          Some (MACH_MSG_SUCCESS,
                                                msg\<lparr>msgh_bits := MACH_MSGH_BITS_OTHER mbits OR
                                                   MACH_MSGH_BITS (mach_msg_type_number (ipc_object_copyin_type (Some dest_type)))
                                                     (mach_msg_type_number (ipc_object_copyin_type reply_type)),
                                                 msgh_remote_port := dest_port, msgh_local_port := reply_port\<rparr>, s) } } } } })"

section \<open>Copyout of a header\<close>

text \<open>The loop over the entry for the reply port: an error, or \<open>None\<close> for a dead port, or the name
  and the entry, which holds the port, and a notify right that is not used up.\<close>

partial_function (option) ipc_kmsg_copyout_reply ::
  "ipc_space_t \<Rightarrow> ipc_port_t \<Rightarrow> mach_msg_type_name_t \<Rightarrow> mach_port_name_t \<Rightarrow> kernel \<Rightarrow>
   ((mach_msg_return_t + (mach_port_name_t \<times> ipc_entry_t \<times> ipc_port_t) option) \<times> kernel) option" where
  "ipc_kmsg_copyout_reply space reply reply_type notify s =
    do { sp \<leftarrow> ks_spaces s space;
         if \<not> is_active sp then Some (Inl (MACH_RCV_HEADER_ERROR OR MACH_MSG_IPC_SPACE), s)
         else
           do { (notify_port, s) \<leftarrow> (if notify \<noteq> MACH_PORT_NULL then ipc_port_lookup_notify space notify s
                                      else Some (IP_NULL, s));
                let release = (\<lambda>s. if notify_port \<noteq> IP_NULL then ipc_port_release_sonce notify_port s else Some s) in
                if notify \<noteq> MACH_PORT_NULL \<and> notify_port = IP_NULL then Some (Inl MACH_RCV_INVALID_NOTIFY, s)
                else
                  do { (found, s) \<leftarrow> (if reply_type \<noteq> MACH_MSG_TYPE_PORT_SEND_ONCE
                                      then ipc_right_reverse space reply s else Some (None, s));
                       case found of
                         Some (name, entry) \<Rightarrow>
                           do { e \<leftarrow> get_entry space entry s;
                                kassert (has (ie_bits e) MACH_PORT_TYPE_SEND_RECEIVE);
                                Some (Inr (Some (name, entry, notify_port)), s) }
                       | None \<Rightarrow>
                           do { p \<leftarrow> ks_ports s reply;
                                if \<not> io_active p then
                                  do { s \<leftarrow> ip_release reply s;
                                       s \<leftarrow> ip_check_unlock reply s;
                                       s \<leftarrow> release s;
                                       Some (Inr None, s) }
                                else
                                  do { sp \<leftarrow> ks_spaces s space;
                                       (r, sp) \<leftarrow> ipc_entry_get sp;
                                       case r of
                                         Inl _ \<Rightarrow>
                                           do { s \<leftarrow> release s;
                                                (kr, s) \<leftarrow> ipc_entry_grow_table space None s;
                                                if kr = KERN_SUCCESS then ipc_kmsg_copyout_reply space reply reply_type notify s
                                                else Some (Inl (MACH_RCV_HEADER_ERROR OR
                                                  (if kr = KERN_RESOURCE_SHORTAGE then MACH_MSG_IPC_KERNEL
                                                   else MACH_MSG_IPC_SPACE)), s) }
                                       | Inr (name, entry) \<Rightarrow>
                                           do { s \<leftarrow> Some (put_space space sp s);
                                                e \<leftarrow> get_entry space entry s;
                                                kassert (IE_BITS_TYPE (ie_bits e) = MACH_PORT_TYPE_NONE);
                                                kassert (ie_object e = IO_NULL);
                                                if notify_port = IP_NULL then
                                                  do { s \<leftarrow> upd_entry space entry (ie_object_update (\<lambda>_. reply)) s;
                                                       Some (Inr (Some (name, entry, IP_NULL)), s) }
                                                else
                                                  do { (r, s) \<leftarrow> ipc_port_dnrequest reply name notify_port s;
                                                       case r of
                                                         Inl _ \<Rightarrow>
                                                           do { s \<leftarrow> ipc_port_release_sonce notify_port s;
                                                                s \<leftarrow> ipc_entry_dealloc space name entry s;
                                                                p \<leftarrow> ks_ports s reply;
                                                                if \<not> io_active p then ipc_kmsg_copyout_reply space reply reply_type notify s
                                                                else
                                                                  do { (kr, s) \<leftarrow> ipc_port_dngrow reply None s;
                                                                       if kr \<noteq> KERN_SUCCESS
                                                                       then Some (Inl (MACH_RCV_HEADER_ERROR OR MACH_MSG_IPC_KERNEL), s)
                                                                       else ipc_kmsg_copyout_reply space reply reply_type notify s } }
                                                       | Inr request \<Rightarrow>
                                                           do { s \<leftarrow> upd_entry space entry
                                                                      (\<lambda>e. e\<lparr>ie_object := reply, ie_request := request\<rparr>) s;
                                                                Some (Inr (Some (name, entry, IP_NULL)), s) } } } } } } } }"

text \<open>The name for the destination; the reply port (0 or -1 if there is none) gives back its reference.\<close>

definition ipc_kmsg_copyout_dest_name ::
  "ipc_space_t \<Rightarrow> ipc_port_t \<Rightarrow> mach_msg_type_name_t \<Rightarrow> ipc_port_t \<Rightarrow> kernel \<Rightarrow> (mach_port_name_t \<times> kernel) option" where
  "ipc_kmsg_copyout_dest_name space dest dest_type reply s =
    do { p \<leftarrow> ks_ports s dest;
         (dest_name, s) \<leftarrow>
           (if io_active p then ipc_object_copyout_dest space dest dest_type s
            else
              do { s \<leftarrow> ip_release dest s;
                   s \<leftarrow> ip_check_unlock dest s;
                   if IP_VALID reply then
                     do { q \<leftarrow> ks_ports s reply;
                          Some (if io_active q \<or> IP_TIMESTAMP_ORDER (ip_timestamp p) (ip_timestamp q)
                                then MACH_PORT_DEAD else MACH_PORT_NULL, s) }
                   else Some (MACH_PORT_DEAD, s) });
         s \<leftarrow> (if IP_VALID reply then ipc_port_release reply s else Some s);
         Some (dest_name, s) }"

definition ipc_kmsg_copyout_header ::
  "mach_msg_header \<Rightarrow> ipc_space_t \<Rightarrow> mach_port_name_t \<Rightarrow> kernel \<Rightarrow>
   (mach_msg_return_t \<times> mach_msg_header \<times> kernel) option" where
  "ipc_kmsg_copyout_header msg space notify s =
    (let mbits = msgh_bits msg;
         dest = msgh_remote_port msg;
         reply = msgh_local_port msg;
         dest_bits = MACH_MSGH_BITS_REMOTE mbits;
         reply_bits = MACH_MSGH_BITS_LOCAL mbits;
         finish = (\<lambda>reply reply_name s.
           do { dest_type \<leftarrow> mach_msg_type_name_of dest_bits;
                (dest_name, s) \<leftarrow> ipc_kmsg_copyout_dest_name space dest dest_type reply s;
                Some (MACH_MSG_SUCCESS,
                      msg\<lparr>msgh_bits := MACH_MSGH_BITS_OTHER mbits OR MACH_MSGH_BITS reply_bits dest_bits,
                       msgh_remote_port := reply_name, msgh_local_port := dest_name\<rparr>, s) }) in
     do { kassert (IP_VALID dest);
          if IP_VALID reply then
            do { reply_type \<leftarrow> mach_msg_type_name_of reply_bits;
                 (r, s) \<leftarrow> ipc_kmsg_copyout_reply space reply reply_type notify s;
                 case r of
                   Inl mr \<Rightarrow> Some (mr, msg, s)
                 | Inr None \<Rightarrow> finish IP_DEAD MACH_PORT_DEAD s
                 | Inr (Some (reply_name, entry, notify_port)) \<Rightarrow>
                     do { s \<leftarrow> ip_reference reply s;
                          (kr, s) \<leftarrow> ipc_right_copyout space reply_name entry reply_type True reply s;
                          kassert (kr = KERN_SUCCESS);
                          s \<leftarrow> (if notify_port \<noteq> IP_NULL then ipc_port_release_sonce notify_port s else Some s);
                          finish reply reply_name s } }
          else
            do { sp \<leftarrow> ks_spaces s space;
                 if \<not> is_active sp then Some (MACH_RCV_HEADER_ERROR OR MACH_MSG_IPC_SPACE, msg, s)
                 else
                   do { (n, s) \<leftarrow> ipc_kmsg_notify_port space notify MACH_RCV_INVALID_NOTIFY s;
                        case n of
                          Inl mr \<Rightarrow> Some (mr, msg, s)
                        | Inr _ \<Rightarrow> finish reply reply s } } })"

section \<open>Copyout of a right\<close>

definition ipc_kmsg_copyout_object ::
  "ipc_space_t \<Rightarrow> ipc_object_t \<Rightarrow> mach_msg_type_name_t \<Rightarrow> kernel \<Rightarrow>
   (mach_msg_return_t \<times> mach_port_name_t \<times> kernel) option" where
  "ipc_kmsg_copyout_object space object msgt_name s =
    (if \<not> IO_VALID object then Some (MACH_MSG_SUCCESS, object, s)
     else
       do { (r, s) \<leftarrow> ipc_object_copyout space object msgt_name True s;
            case r of
              Inr name \<Rightarrow> Some (MACH_MSG_SUCCESS, name, s)
            | Inl kr \<Rightarrow>
                do { s \<leftarrow> ipc_object_destroy object msgt_name s;
                     Some (if kr = KERN_INVALID_CAPABILITY then (MACH_MSG_SUCCESS, MACH_PORT_DEAD, s)
                           else if kr = KERN_RESOURCE_SHORTAGE then (MACH_MSG_IPC_KERNEL, MACH_PORT_NULL, s)
                           else (MACH_MSG_IPC_SPACE, MACH_PORT_NULL, s)) } })"

section \<open>Destruction\<close>

text \<open>The limit for memory that is kept in a buffer of the kernel: \<^verbatim>\<open>msg_ool_size_small\<close> and, for
  real-time messages, \<^verbatim>\<open>rtmalloc_max_prerounded\<close>.\<close>

definition MSG_OOL_SIZE_SMALL :: "bool \<Rightarrow> u32" where
  "MSG_OOL_SIZE_SMALL rt = (if rt then 8193 else 2049)"

text \<open>A right whose type is given by a number; an unknown number is a panic there.\<close>

definition ipc_kmsg_destroy_right :: "ipc_object_t \<Rightarrow> u32 \<Rightarrow> kernel \<Rightarrow> kernel option" where
  "ipc_kmsg_destroy_right object bits s =
    (if IO_VALID object then do { msgt_name \<leftarrow> mach_msg_type_name_of bits; ipc_object_destroy object msgt_name s }
     else Some s)"

text \<open>The rights of an array of the kernel, \<open>n\<close> of them; invalid ones are skipped.\<close>

fun ipc_kmsg_destroy_objects :: "nat \<Rightarrow> ipc_object_t list \<Rightarrow> u32 \<Rightarrow> kernel \<Rightarrow> kernel option" where
  "ipc_kmsg_destroy_objects 0 objects disposition s = Some s"
| "ipc_kmsg_destroy_objects (Suc n) [] disposition s = None"
| "ipc_kmsg_destroy_objects (Suc n) (object # objects) disposition s =
    do { s \<leftarrow> ipc_kmsg_destroy_right object disposition s;
         ipc_kmsg_destroy_objects n objects disposition s }"

fun ipc_kmsg_clean_descriptor :: "bool \<Rightarrow> mach_msg_descriptor \<Rightarrow> kernel \<Rightarrow> kernel option" where
  "ipc_kmsg_clean_descriptor rt (Port_descriptor name disposition) s = ipc_kmsg_destroy_right name disposition s"
| "ipc_kmsg_clean_descriptor rt (Ool_descriptor address sz cp dealloc) s =
    (if sz = 0 then do { kassert (address = 0); Some s }
     else if cp = MACH_MSG_PHYSICAL_COPY \<and> sz < MSG_OOL_SIZE_SMALL rt then Some (log_event (Memory_freed address) s)
     else Some (log_event (Copy_discarded address) s))"
| "ipc_kmsg_clean_descriptor rt (Ool_ports_descriptor address cnt cp disposition dealloc) s =
    (if cnt = 0 then Some s
     else case address of
       User_address _ \<Rightarrow> None
     | Kernel_array data objects \<Rightarrow>
         do { s \<leftarrow> ipc_kmsg_destroy_objects (unat cnt) objects disposition s;
              Some (log_event (Memory_freed data) s) })"
| "ipc_kmsg_clean_descriptor rt (Unknown_descriptor type) s = Some s"

fun ipc_kmsg_clean_descriptors :: "bool \<Rightarrow> mach_msg_descriptor list \<Rightarrow> kernel \<Rightarrow> kernel option" where
  "ipc_kmsg_clean_descriptors rt [] s = Some s"
| "ipc_kmsg_clean_descriptors rt (d # ds) s =
    do { s \<leftarrow> ipc_kmsg_clean_descriptor rt d s; ipc_kmsg_clean_descriptors rt ds s }"

definition ipc_kmsg_clean_body :: "ipc_kmsg \<Rightarrow> nat \<Rightarrow> kernel \<Rightarrow> kernel option" where
  "ipc_kmsg_clean_body kmsg number s =
    do { kassert (number \<le> length (ikm_descriptors kmsg));
         ipc_kmsg_clean_descriptors (KMSG_IS_RT kmsg) (take number (ikm_descriptors kmsg)) s }"

text \<open>\<open>paddr\<close> and \<open>len\<close> are the rest of the region for the memory that is copied.\<close>

definition ipc_kmsg_clean_partial :: "ipc_kmsg \<Rightarrow> nat \<Rightarrow> u32 \<Rightarrow> u32 \<Rightarrow> kernel \<Rightarrow> kernel option" where
  "ipc_kmsg_clean_partial kmsg number paddr len s =
    (let hdr = ikm_header kmsg; mbits = msgh_bits hdr in
     do { kassert (IO_VALID (msgh_remote_port hdr));
          s \<leftarrow> ipc_kmsg_destroy_right (msgh_remote_port hdr) (MACH_MSGH_BITS_REMOTE mbits) s;
          s \<leftarrow> ipc_kmsg_destroy_right (msgh_local_port hdr) (MACH_MSGH_BITS_LOCAL mbits) s;
          let s = (if paddr \<noteq> 0 then log_event (Kernel_region_removed paddr len) s else s) in
          ipc_kmsg_clean_body kmsg number s })"

definition ipc_kmsg_clean :: "ipc_kmsg \<Rightarrow> kernel \<Rightarrow> kernel option" where
  "ipc_kmsg_clean kmsg s =
    (let hdr = ikm_header kmsg; mbits = msgh_bits hdr in
     do { s \<leftarrow> ipc_kmsg_destroy_right (msgh_remote_port hdr) (MACH_MSGH_BITS_REMOTE mbits) s;
          s \<leftarrow> ipc_kmsg_destroy_right (msgh_local_port hdr) (MACH_MSGH_BITS_LOCAL mbits) s;
          if has mbits MACH_MSGH_BITS_COMPLEX then ipc_kmsg_clean_body kmsg (unat (ikm_descriptor_count kmsg)) s
          else Some s })"

text \<open>\<open>base\<close> is the queue of the messages that the thread is destroying. The destruction of a right
  can destroy the messages of a port, which join the queue; here that is an event of the log, so that the
  queue only shrinks.\<close>

partial_function (option) ipc_kmsg_destroy_loop ::
  "u32 \<Rightarrow> ikm_heap \<Rightarrow> kernel \<Rightarrow> (u32 \<times> ikm_heap \<times> kernel) option" where
  "ipc_kmsg_destroy_loop base h s =
    (if base = IKM_NULL then Some (base, h, s)
     else
       do { k \<leftarrow> h base;
            s \<leftarrow> ipc_kmsg_clean k s;
            (base', h) \<leftarrow> ipc_kmsg_rmqueue base base h;
            ipc_kmsg_destroy_loop base' (h(base := None)) s })"

definition ipc_kmsg_destroy :: "u32 \<Rightarrow> u32 \<Rightarrow> ikm_heap \<Rightarrow> kernel \<Rightarrow> (u32 \<times> ikm_heap \<times> kernel) option" where
  "ipc_kmsg_destroy base kmsg h s =
    do { (base', h) \<leftarrow> ipc_kmsg_enqueue base kmsg h;
         if base = IKM_NULL then ipc_kmsg_destroy_loop base' h s else Some (base', h, s) }"

definition ipc_kmsg_destroy_dest :: "u32 \<Rightarrow> u32 \<Rightarrow> ikm_heap \<Rightarrow> kernel \<Rightarrow> (u32 \<times> ikm_heap \<times> kernel) option" where
  "ipc_kmsg_destroy_dest base kmsg h s =
    do { k \<leftarrow> h kmsg;
         s \<leftarrow> ipc_port_release (msgh_remote_port (ikm_header k)) s;
         h \<leftarrow> upd_kmsg kmsg (ikm_header_update (msgh_remote_port_update (\<lambda>_. MACH_PORT_NULL))) h;
         ipc_kmsg_destroy base kmsg h s }"

text \<open>The destination gets a name, or is dead.\<close>

definition ipc_kmsg_dest_name :: "ipc_space_t \<Rightarrow> ipc_port_t \<Rightarrow> u32 \<Rightarrow> kernel \<Rightarrow> (mach_port_name_t \<times> kernel) option" where
  "ipc_kmsg_dest_name space dest dest_bits s =
    do { kassert (IO_VALID dest);
         p \<leftarrow> ks_ports s dest;
         if io_active p then
           do { dest_type \<leftarrow> mach_msg_type_name_of dest_bits; ipc_object_copyout_dest space dest dest_type s }
         else do { s \<leftarrow> ip_release dest s; s \<leftarrow> ip_check_unlock dest s; Some (MACH_PORT_DEAD, s) } }"

definition ipc_kmsg_copyout_dest :: "ipc_kmsg \<Rightarrow> ipc_space_t \<Rightarrow> kernel \<Rightarrow> (ipc_kmsg \<times> kernel) option" where
  "ipc_kmsg_copyout_dest kmsg space s =
    (let mbits = msgh_bits (ikm_header kmsg);
         dest = msgh_remote_port (ikm_header kmsg);
         reply = msgh_local_port (ikm_header kmsg);
         dest_bits = MACH_MSGH_BITS_REMOTE mbits;
         reply_bits = MACH_MSGH_BITS_LOCAL mbits in
     do { (dest_name, s) \<leftarrow> ipc_kmsg_dest_name space dest dest_bits s;
          s \<leftarrow> ipc_kmsg_destroy_right reply reply_bits s;
          let reply_name = (if IO_VALID reply then MACH_PORT_NULL else reply);
              kmsg = kmsg\<lparr>ikm_header := (ikm_header kmsg)\<lparr>
                       msgh_bits := MACH_MSGH_BITS_OTHER mbits OR MACH_MSGH_BITS reply_bits dest_bits,
                       msgh_local_port := dest_name, msgh_remote_port := reply_name\<rparr>\<rparr> in
          do { s \<leftarrow> (if has mbits MACH_MSGH_BITS_COMPLEX
                     then ipc_kmsg_clean_body kmsg (unat (ikm_descriptor_count kmsg)) s else Some s);
               Some (kmsg, s) } })"

definition ipc_kmsg_copyout_to_kernel :: "ipc_kmsg \<Rightarrow> ipc_space_t \<Rightarrow> kernel \<Rightarrow> (ipc_kmsg \<times> kernel) option" where
  "ipc_kmsg_copyout_to_kernel kmsg space s =
    (let mbits = msgh_bits (ikm_header kmsg);
         dest = msgh_remote_port (ikm_header kmsg);
         reply = msgh_local_port (ikm_header kmsg);
         dest_bits = MACH_MSGH_BITS_REMOTE mbits;
         reply_bits = MACH_MSGH_BITS_LOCAL mbits in
     do { (dest_name, s) \<leftarrow> ipc_kmsg_dest_name space dest dest_bits s;
          Some (kmsg\<lparr>ikm_header := (ikm_header kmsg)\<lparr>
                  msgh_bits := MACH_MSGH_BITS_OTHER mbits OR MACH_MSGH_BITS reply_bits dest_bits,
                  msgh_local_port := dest_name, msgh_remote_port := reply\<rparr>\<rparr>, s) })"

section \<open>Messages from the kernel\<close>

text \<open>The type of a right after copyin, on numbers; unknown numbers are a panic there.\<close>

definition copyin_type :: "u32 \<Rightarrow> u32 option" where
  "copyin_type n =
    (if n = 0 then Some 0
     else do { msgt_name \<leftarrow> mach_msg_type_name_of n;
               Some (mach_msg_type_number (ipc_object_copyin_type (Some msgt_name))) })"

abbreviation MACH_MSG_TYPE_PORT_RECEIVE_number :: u32 where "MACH_MSG_TYPE_PORT_RECEIVE_number \<equiv> 16"

text \<open>The rights of an array, \<open>n\<close> of them; the flag tells whether one of them makes a circle.\<close>

fun ipc_kmsg_copyin_objects ::
  "ipc_space_t \<Rightarrow> ipc_port_t \<Rightarrow> u32 \<Rightarrow> nat \<Rightarrow> ipc_object_t list \<Rightarrow> bool \<Rightarrow> kernel \<Rightarrow> (bool \<times> kernel) option" where
  "ipc_kmsg_copyin_objects kernel_space remote name 0 objects circular s = Some (circular, s)"
| "ipc_kmsg_copyin_objects kernel_space remote name (Suc n) [] circular s = None"
| "ipc_kmsg_copyin_objects kernel_space remote name (Suc n) (object # objects) circular s =
    (if \<not> IO_VALID object then ipc_kmsg_copyin_objects kernel_space remote name n objects circular s
     else
       do { msgt_name \<leftarrow> mach_msg_type_name_of name;
            s \<leftarrow> ipc_object_copyin_from_kernel kernel_space object msgt_name s;
            (c, s) \<leftarrow> (if copyin_type name = Some MACH_MSG_TYPE_PORT_RECEIVE_number
                       then ipc_port_check_circularity object remote s else Some (False, s));
            ipc_kmsg_copyin_objects kernel_space remote name n objects (circular \<or> c) s })"

fun ipc_kmsg_copyin_descriptors ::
  "ipc_space_t \<Rightarrow> ipc_port_t \<Rightarrow> mach_msg_descriptor list \<Rightarrow> bool \<Rightarrow> kernel \<Rightarrow>
   (mach_msg_descriptor list \<times> bool \<times> kernel) option" where
  "ipc_kmsg_copyin_descriptors kernel_space remote [] circular s = Some ([], circular, s)"
| "ipc_kmsg_copyin_descriptors kernel_space remote (Port_descriptor object name # ds) circular s =
    do { disposition \<leftarrow> copyin_type name;
         (circular, s) \<leftarrow>
           (if \<not> IO_VALID object then Some (circular, s)
            else
              do { msgt_name \<leftarrow> mach_msg_type_name_of name;
                   s \<leftarrow> ipc_object_copyin_from_kernel kernel_space object msgt_name s;
                   r \<leftarrow> ks_ports s remote;
                   if ip_receiver r \<noteq> kernel_space \<and> disposition = MACH_MSG_TYPE_PORT_RECEIVE_number then
                     do { (c, s) \<leftarrow> ipc_port_check_circularity object remote s; Some (circular \<or> c, s) }
                   else Some (circular, s) });
         (ds, circular, s) \<leftarrow> ipc_kmsg_copyin_descriptors kernel_space remote ds circular s;
         Some (Port_descriptor object disposition # ds, circular, s) }"
| "ipc_kmsg_copyin_descriptors kernel_space remote (Ool_descriptor address sz cp dealloc # ds) circular s =
    do { (ds, circular, s) \<leftarrow> ipc_kmsg_copyin_descriptors kernel_space remote ds circular s;
         Some (Ool_descriptor address sz cp dealloc # ds, circular, s) }"
| "ipc_kmsg_copyin_descriptors kernel_space remote (Ool_ports_descriptor address cnt cp name dealloc # ds) circular s =
    do { disposition \<leftarrow> copyin_type name;
         (circular, s) \<leftarrow>
           (case address of
              User_address _ \<Rightarrow> do { kassert (cnt = 0); Some (circular, s) }
            | Kernel_array data objects \<Rightarrow>
                ipc_kmsg_copyin_objects kernel_space remote name (unat cnt) objects circular s);
         (ds, circular, s) \<leftarrow> ipc_kmsg_copyin_descriptors kernel_space remote ds circular s;
         Some (Ool_ports_descriptor address cnt cp disposition dealloc # ds, circular, s) }"
| "ipc_kmsg_copyin_descriptors kernel_space remote (Unknown_descriptor type # ds) circular s = None"

definition ipc_kmsg_copyin_from_kernel :: "ipc_space_t \<Rightarrow> ipc_kmsg \<Rightarrow> kernel \<Rightarrow> (ipc_kmsg \<times> kernel) option" where
  "ipc_kmsg_copyin_from_kernel kernel_space kmsg s =
    (let bits = msgh_bits (ikm_header kmsg);
         rname = MACH_MSGH_BITS_REMOTE bits;
         lname = MACH_MSGH_BITS_LOCAL bits;
         remote = msgh_remote_port (ikm_header kmsg);
         lcl = msgh_local_port (ikm_header kmsg) in
     do { rtype \<leftarrow> mach_msg_type_name_of rname;
          s \<leftarrow> ipc_object_copyin_from_kernel kernel_space remote rtype s;
          s \<leftarrow> (if IO_VALID lcl
                then do { ltype \<leftarrow> mach_msg_type_name_of lname; ipc_object_copyin_from_kernel kernel_space lcl ltype s }
                else Some s);
          bits \<leftarrow> (if bits = MACH_MSGH_BITS_COMPLEX OR MACH_MSGH_BITS 19 0
                   then Some (MACH_MSGH_BITS_COMPLEX OR MACH_MSGH_BITS 17 0)
                   else do { r \<leftarrow> copyin_type rname; l \<leftarrow> copyin_type lname;
                             Some (MACH_MSGH_BITS_OTHER bits OR MACH_MSGH_BITS r l) });
          if \<not> has bits MACH_MSGH_BITS_COMPLEX then
            Some (kmsg\<lparr>ikm_header := (ikm_header kmsg)\<lparr>msgh_bits := bits\<rparr>\<rparr>, s)
          else
            let n = unat (ikm_descriptor_count kmsg) in
            do { kassert (n \<le> length (ikm_descriptors kmsg));
                 (ds, circular, s) \<leftarrow>
                   ipc_kmsg_copyin_descriptors kernel_space remote (take n (ikm_descriptors kmsg)) False s;
                 Some (kmsg\<lparr>ikm_header := (ikm_header kmsg)\<lparr>msgh_bits :=
                              (if circular then bits OR MACH_MSGH_BITS_CIRCULAR else bits)\<rparr>,
                            ikm_descriptors := ds @ drop n (ikm_descriptors kmsg)\<rparr>, s) } })"

end
