(* ===== verification/Ipc_Kmsg_Queue.thy ===== *)
theory Ipc_Kmsg_Queue
  imports Ipc_Kmsg
begin

text \<open>
  The queues of messages of \<^verbatim>\<open>osfmk/ipc/ipc_kmsg.c\<close>: a circle of pointers through the messages themselves
  represents a list. Every sequence of the operations is a sequence of list operations, keeps
  the contents of the messages, and leaves messages outside of the queue alone.
\<close>

section \<open>Circles of messages\<close>

definition knext :: "ikm_heap \<Rightarrow> u32 \<Rightarrow> u32 option" where
  "knext h a = map_option ikm_next (h a)"

definition kprev :: "ikm_heap \<Rightarrow> u32 \<Rightarrow> u32 option" where
  "kprev h a = map_option ikm_prev (h a)"

fun links :: "ikm_heap \<Rightarrow> u32 list \<Rightarrow> bool" where
  "links h (a # b # cs) \<longleftrightarrow> knext h a = Some b \<and> kprev h b = Some a \<and> links h (b # cs)"
| "links h _ \<longleftrightarrow> True"

definition ring :: "ikm_heap \<Rightarrow> u32 list \<Rightarrow> bool" where
  "ring h xs \<longleftrightarrow> distinct xs \<and> 0 \<notin> set xs \<and> (xs \<noteq> [] \<longrightarrow> links h (xs @ [hd xs]))"

definition kmsg_queue :: "ikm_heap \<Rightarrow> u32 \<Rightarrow> u32 list \<Rightarrow> bool" where
  "kmsg_queue h base xs \<longleftrightarrow> ring h xs \<and> base = (if xs = [] then IKM_NULL else hd xs)"

text \<open>What a message carries, which the queues do not touch.\<close>

definition contents :: "ikm_heap \<Rightarrow> u32 \<Rightarrow> (mach_msg_header \<times> u32 \<times> mach_msg_descriptor list) option" where
  "contents h a = map_option (\<lambda>k. (ikm_header k, ikm_descriptor_count k, ikm_descriptors k)) (h a)"

lemma links_append: "links h (us @ a # vs) \<longleftrightarrow> links h (us @ [a]) \<and> links h (a # vs)"
proof (induction us)
  case (Cons u us)
  then show ?case by (cases us) auto
qed simp

lemma links_cong:
  "\<lbrakk>links h xs; \<forall>a\<in>set (butlast xs). knext h' a = knext h a; \<forall>a\<in>set (tl xs). kprev h' a = kprev h a\<rbrakk>
    \<Longrightarrow> links h' xs"
proof (induction xs rule: induct_list012)
  case (3 a b cs)
  have "links h' (b # cs)"
    by (rule "3.IH"(2)) (use "3.prems" in simp_all)
  then show ?case using "3.prems" by simp
qed simp_all

text \<open>A circle is a chain whose ends are linked.\<close>

lemma links_close:
  assumes "ys \<noteq> []"
  shows "links h (ys @ [hd ys]) \<longleftrightarrow> links h ys \<and> knext h (last ys) = Some (hd ys) \<and> kprev h (hd ys) = Some (last ys)"
proof -
  have eq: "ys @ [hd ys] = butlast ys @ [last ys, hd ys]" using assms by simp
  show ?thesis unfolding eq using assms links_append [of h "butlast ys" "last ys" "[hd ys]"] by simp
qed

lemma ring_rotate: "ring h (us @ vs) \<longleftrightarrow> ring h (vs @ us)"
proof (cases "us = [] \<or> vs = []")
  case False
  then obtain u us' v vs' where uv: "us = u # us'" "vs = v # vs'" by (meson neq_Nil_conv)
  show ?thesis
    using links_append [of h "u # us'" v "vs' @ [u]"] links_append [of h "v # vs'" u "us' @ [v]"]
    by (auto simp: ring_def uv)
qed auto

lemma ring_dom:
  assumes "ring h xs" "x \<in> set xs"
  shows "\<exists>k. h x = Some k"
proof -
  obtain us vs where xs: "xs = us @ x # vs" using assms(2) by (meson split_list)
  then have "ring h (x # vs @ us)" using assms(1) ring_rotate [of h us "x # vs"] by simp
  then have "knext h x \<noteq> None" by (cases "vs @ us") (auto simp: ring_def)
  then show ?thesis by (auto simp: knext_def)
qed

text \<open>An operation on a queue relinks the messages in \<open>A\<close> only.\<close>

definition relinks :: "u32 set \<Rightarrow> ikm_heap \<Rightarrow> ikm_heap \<Rightarrow> bool" where
  "relinks A h h' \<longleftrightarrow> (\<forall>a. contents h' a = contents h a) \<and> (\<forall>a. a \<notin> A \<longrightarrow> h' a = h a)"

lemma relinks_refl: "relinks A h h"
  by (simp add: relinks_def)

lemma relinks_mono: "\<lbrakk>relinks A h h'; A \<subseteq> B\<rbrakk> \<Longrightarrow> relinks B h h'"
  by (auto simp: relinks_def)

lemma relinks_trans: "\<lbrakk>relinks A h h'; relinks A h' h''\<rbrakk> \<Longrightarrow> relinks A h h''"
  by (simp add: relinks_def)

text \<open>The three ways in which the operations write to a message.\<close>

lemma upd_kmsg_Some: "upd_kmsg a f h = Some h' \<longleftrightarrow> (\<exists>k. h a = Some k \<and> h' = h(a \<mapsto> f k))"
  by (auto simp: upd_kmsg_def bind_eq_Some_conv)

lemma upd_kmsg_ok: "a \<in> dom h \<Longrightarrow> \<exists>h'. upd_kmsg a f h = Some h'"
  by (auto simp: upd_kmsg_Some)

lemma upd_kmsg_dom: "upd_kmsg a f h = Some h' \<Longrightarrow> dom h' = dom h"
  by (auto simp: upd_kmsg_Some split: if_splits)

lemma upd_kmsg_both:
  "upd_kmsg a (\<lambda>k. k\<lparr>ikm_next := b, ikm_prev := c\<rparr>) h = Some h' \<Longrightarrow>
    knext h' = (knext h)(a \<mapsto> b) \<and> kprev h' = (kprev h)(a \<mapsto> c) \<and> relinks {a} h h'"
  by (auto simp: upd_kmsg_Some knext_def kprev_def relinks_def contents_def intro!: ext)

lemma upd_kmsg_next:
  "upd_kmsg a (\<lambda>k. k\<lparr>ikm_next := b\<rparr>) h = Some h' \<Longrightarrow>
    knext h' = (knext h)(a \<mapsto> b) \<and> kprev h' = kprev h \<and> relinks {a} h h'"
  by (auto simp: upd_kmsg_Some knext_def kprev_def relinks_def contents_def intro!: ext)

lemma upd_kmsg_prev:
  "upd_kmsg a (\<lambda>k. k\<lparr>ikm_prev := c\<rparr>) h = Some h' \<Longrightarrow>
    knext h' = knext h \<and> kprev h' = (kprev h)(a \<mapsto> c) \<and> relinks {a} h h'"
  by (auto simp: upd_kmsg_Some knext_def kprev_def relinks_def contents_def intro!: ext)

section \<open>The operations\<close>

text \<open>A chain survives all changes but those inside of it.\<close>

lemma links_keep:
  assumes "links h ys" "distinct ys"
    and "\<And>a. \<lbrakk>a \<in> set ys; a \<noteq> last ys\<rbrakk> \<Longrightarrow> knext h' a = knext h a"
    and "\<And>a. \<lbrakk>a \<in> set ys; a \<noteq> hd ys\<rbrakk> \<Longrightarrow> kprev h' a = kprev h a"
  shows "links h' ys"
proof (rule links_cong [OF assms(1)])
  have "a \<in> set ys \<and> a \<noteq> last ys" if "a \<in> set (butlast ys)" for a
    using that assms(2) by (cases ys rule: rev_cases) auto
  then show "\<forall>a\<in>set (butlast ys). knext h' a = knext h a" using assms(3) by blast
  have "a \<in> set ys \<and> a \<noteq> hd ys" if "a \<in> set (tl ys)" for a
    using that assms(2) by (cases ys) auto
  then show "\<forall>a\<in>set (tl ys). kprev h' a = kprev h a" using assms(4) by blast
qed

lemma kmsg_queue_base:
  assumes "kmsg_queue h base xs" "xs \<noteq> []"
  shows "ring h xs" "base = hd xs" "base \<noteq> 0" "distinct xs" "0 \<notin> set xs"
proof -
  show r: "ring h xs" and b: "base = hd xs" using assms by (simp_all add: kmsg_queue_def)
  show "distinct xs" "0 \<notin> set xs" using r by (simp_all add: ring_def)
  then show "base \<noteq> 0" using hd_in_set [OF assms(2)] b by metis
qed

lemma enqueue_spec:
  assumes q: "kmsg_queue h base xs" and k: "kmsg \<noteq> 0" "kmsg \<notin> set xs" "kmsg \<in> dom h"
  shows "\<exists>base' h'. ipc_kmsg_enqueue base kmsg h = Some (base', h') \<and> kmsg_queue h' base' (xs @ [kmsg]) \<and>
           relinks (insert kmsg (set xs)) h h'"
proof (cases "xs = []")
  case True
  obtain h' where h': "upd_kmsg kmsg (\<lambda>k. k\<lparr>ikm_next := kmsg, ikm_prev := kmsg\<rparr>) h = Some h'"
    using upd_kmsg_ok [OF k(3)] by blast
  then show ?thesis
    using upd_kmsg_both [OF h'] q k True by (simp add: ipc_kmsg_enqueue_def kmsg_queue_def ring_def)
next
  case False
  have x: "hd xs \<in> set xs" "last xs \<in> set xs" "base = hd xs" "base \<noteq> 0" and r: "ring h xs"
    using kmsg_queue_base [OF q False] False by simp_all
  have l: "links h xs" "kprev h (hd xs) = Some (last xs)" and dist: "distinct xs" "0 \<notin> set xs"
    using r False links_close [OF False] by (auto simp: ring_def)
  obtain first where first: "h (hd xs) = Some first" "ikm_prev first = last xs" using l(2) by (auto simp: kprev_def)
  have d: "hd xs \<in> dom h" "last xs \<in> dom h" using ring_dom [OF r x(1)] ring_dom [OF r x(2)] by auto
  obtain h1 where h1: "upd_kmsg kmsg (\<lambda>k. k\<lparr>ikm_next := hd xs, ikm_prev := last xs\<rparr>) h = Some h1"
    using upd_kmsg_ok [OF k(3)] by blast
  note n1 = upd_kmsg_both [OF h1]
  then obtain h2 where h2: "upd_kmsg (hd xs) (\<lambda>k. k\<lparr>ikm_prev := kmsg\<rparr>) h1 = Some h2"
    using upd_kmsg_ok [of _ h1] d(1) upd_kmsg_dom [OF h1] by blast
  note n2 = upd_kmsg_prev [OF h2]
  then obtain h' where h': "upd_kmsg (last xs) (\<lambda>k. k\<lparr>ikm_next := kmsg\<rparr>) h2 = Some h'"
    using upd_kmsg_ok [of _ h2] d(2) upd_kmsg_dom [OF h1] upd_kmsg_dom [OF h2] by blast
  note n3 = upd_kmsg_next [OF h']
  have "ipc_kmsg_enqueue base kmsg h = Some (base, h')"
    using x(4) first h1 h2 h' by (simp add: ipc_kmsg_enqueue_def x(3))
  moreover have "relinks (insert kmsg (set xs)) h h'"
    using n1 n2 n3 x(1,2) by (meson relinks_mono relinks_trans empty_subsetI insert_subset insertCI)
  moreover have "links h' xs"
    by (rule links_keep [OF l(1) dist(1)]) (use n1 n2 n3 k(2) in auto)
  moreover have "links h' ((xs @ [kmsg]) @ [hd (xs @ [kmsg])])" if "links h' xs"
  proof -
    have "hd xs \<noteq> kmsg" "last xs \<noteq> kmsg" using x k(2) by auto
    then have "links h' (last xs # [kmsg, hd xs])" using n1 n2 n3 by simp
    then have "links h' (butlast xs @ last xs # [kmsg, hd xs])" using that False by (subst links_append) simp
    moreover have "(xs @ [kmsg]) @ [hd (xs @ [kmsg])] = butlast xs @ last xs # [kmsg, hd xs]" using False by simp
    ultimately show ?thesis by (simp only:)
  qed
  ultimately show ?thesis using k dist x(3) False by (auto simp: kmsg_queue_def ring_def)
qed

text \<open>Taking the first message out of the circle that it heads.\<close>

lemma kmsg_unlink_spec:
  assumes r: "ring h (x # ys)" and ne: "ys \<noteq> []"
  obtains k h1 h2 h' where "h x = Some k" "ikm_next k = hd ys" "ikm_prev k = last ys"
    and "upd_kmsg (hd ys) (\<lambda>n. n\<lparr>ikm_prev := last ys\<rparr>) h = Some h1"
    and "upd_kmsg (last ys) (\<lambda>n. n\<lparr>ikm_next := hd ys\<rparr>) h1 = Some h2"
    and "upd_kmsg x (\<lambda>k. k\<lparr>ikm_next := IKM_BOGUS, ikm_prev := IKM_BOGUS\<rparr>) h2 = Some h'"
    and "ring h' ys" "relinks (set (x # ys)) h h'"
proof -
  have dist: "distinct ys" "x \<notin> set ys" "0 \<notin> set ys" using r by (auto simp: ring_def)
  have m: "hd ys \<in> set ys" "last ys \<in> set ys" using ne by auto
  have l: "links h (x # ys)" "kprev h x = Some (last ys)"
    using r links_close [of "x # ys" h] ne by (auto simp: ring_def)
  then have l': "links h ys" "knext h x = Some (hd ys)" using ne by (cases ys; simp)+
  obtain k where k: "h x = Some k" "ikm_next k = hd ys" "ikm_prev k = last ys"
    using l(2) l'(2) by (auto simp: knext_def kprev_def)
  have "a \<in> dom h" if "a \<in> set (x # ys)" for a using ring_dom [OF r that] by auto
  then have d: "x \<in> dom h" "hd ys \<in> dom h" "last ys \<in> dom h" using m by auto
  obtain h1 where h1: "upd_kmsg (hd ys) (\<lambda>n. n\<lparr>ikm_prev := last ys\<rparr>) h = Some h1"
    using upd_kmsg_ok [of _ h] d(2) by blast
  note n1 = upd_kmsg_prev [OF h1]
  then obtain h2 where h2: "upd_kmsg (last ys) (\<lambda>n. n\<lparr>ikm_next := hd ys\<rparr>) h1 = Some h2"
    using upd_kmsg_ok [of _ h1] d(3) upd_kmsg_dom [OF h1] by blast
  note n2 = upd_kmsg_next [OF h2]
  then obtain h' where h': "upd_kmsg x (\<lambda>k. k\<lparr>ikm_next := IKM_BOGUS, ikm_prev := IKM_BOGUS\<rparr>) h2 = Some h'"
    using upd_kmsg_ok [of _ h2] d(1) upd_kmsg_dom [OF h1] upd_kmsg_dom [OF h2] by blast
  note n3 = upd_kmsg_both [OF h']
  have "links h' ys"
    by (rule links_keep [OF l'(1) dist(1)]) (use n1 n2 n3 dist(2) in auto)
  then have "ring h' ys" using n1 n2 n3 dist m ne by (auto simp: ring_def links_close)
  moreover have "relinks (set (x # ys)) h h'"
    using n1 n2 n3 m by (meson relinks_mono relinks_trans empty_subsetI insert_subset list.set_intros)
  ultimately show ?thesis using that k h1 h2 h' by blast
qed

text \<open>A message can be taken out of a circle of two or more, wherever it is.\<close>

lemma rmqueue_first_spec:
  assumes "kmsg_queue h x (x # ys)"
  shows "\<exists>base' h'. ipc_kmsg_rmqueue_first x x h = Some (base', h') \<and> kmsg_queue h' base' ys \<and>
           relinks (set (x # ys)) h h'"
proof (cases "ys = []")
  case True
  then have l: "knext h x = Some x" "kprev h x = Some x" "x \<noteq> 0" using assms by (auto simp: kmsg_queue_def ring_def)
  then obtain k where k: "h x = Some k" "ikm_next k = x" "ikm_prev k = x" by (auto simp: knext_def kprev_def)
  obtain h' where h': "upd_kmsg x (\<lambda>k. k\<lparr>ikm_next := IKM_BOGUS, ikm_prev := IKM_BOGUS\<rparr>) h = Some h'"
    using upd_kmsg_ok k(1) by blast
  show ?thesis using k h' upd_kmsg_both [OF h'] True by (simp add: ipc_kmsg_rmqueue_first_def kmsg_queue_def ring_def)
next
  case False
  have r: "ring h (x # ys)" "x \<notin> set ys" using assms by (auto simp: kmsg_queue_def ring_def)
  show ?thesis
  proof (rule kmsg_unlink_spec [OF r(1) False])
    fix k h1 h2 h'
    assume k: "h x = Some k" "ikm_next k = hd ys" "ikm_prev k = last ys"
      and h1: "upd_kmsg (hd ys) (\<lambda>n. n\<lparr>ikm_prev := last ys\<rparr>) h = Some h1"
      and h2: "upd_kmsg (last ys) (\<lambda>n. n\<lparr>ikm_next := hd ys\<rparr>) h1 = Some h2"
      and h': "upd_kmsg x (\<lambda>k. k\<lparr>ikm_next := IKM_BOGUS, ikm_prev := IKM_BOGUS\<rparr>) h2 = Some h'"
      and *: "ring h' ys" "relinks (set (x # ys)) h h'"
    have "hd ys \<noteq> x" using False r(2) hd_in_set by metis
    then show ?thesis using k h1 h2 h' * False
      by (simp add: ipc_kmsg_rmqueue_first_def kmsg_queue_def)
  qed
qed

lemma rmqueue_spec:
  assumes q: "kmsg_queue h base xs" and x: "x \<in> set xs"
  shows "\<exists>base' h'. ipc_kmsg_rmqueue base x h = Some (base', h') \<and> kmsg_queue h' base' (remove1 x xs) \<and>
           relinks (set xs) h h'"
proof -
  obtain us vs where xs: "xs = us @ x # vs" using split_list [OF x] by blast
  have r: "ring h xs" "base = hd xs" "base \<noteq> 0" and dist: "distinct xs"
    using kmsg_queue_base [OF q] list.set_sel(1) x by force+
  have rm: "remove1 x xs = us @ vs" using xs dist by (simp add: remove1_append)
  show ?thesis
  proof (cases "us @ vs = []")
    case True
    then have xs1: "xs = [x]" using xs by simp
    then have "knext h x = Some x" "kprev h x = Some x" using r by (auto simp: ring_def)
    then obtain k where k: "h x = Some k" "ikm_next k = x" "ikm_prev k = x" by (auto simp: knext_def kprev_def)
    obtain h' where h': "upd_kmsg x (\<lambda>k. k\<lparr>ikm_next := IKM_BOGUS, ikm_prev := IKM_BOGUS\<rparr>) h = Some h'"
      using upd_kmsg_ok k(1) by blast
    show ?thesis using k h' upd_kmsg_both [OF h'] xs1 r(2,3)
      by (simp add: ipc_kmsg_rmqueue_def kmsg_queue_def ring_def)
  next
    case False
    then have ne: "vs @ us \<noteq> []" by auto
    have rot: "ring h (x # vs @ us)" using r(1) ring_rotate [of h us "x # vs"] xs by simp
    show ?thesis
    proof (rule kmsg_unlink_spec [OF rot ne])
      fix k h1 h2 h'
      assume k: "h x = Some k" "ikm_next k = hd (vs @ us)" "ikm_prev k = last (vs @ us)"
        and h1: "upd_kmsg (hd (vs @ us)) (\<lambda>n. n\<lparr>ikm_prev := last (vs @ us)\<rparr>) h = Some h1"
        and h2: "upd_kmsg (last (vs @ us)) (\<lambda>n. n\<lparr>ikm_next := hd (vs @ us)\<rparr>) h1 = Some h2"
        and h': "upd_kmsg x (\<lambda>k. k\<lparr>ikm_next := IKM_BOGUS, ikm_prev := IKM_BOGUS\<rparr>) h2 = Some h'"
        and *: "ring h' (vs @ us)" "relinks (set (x # vs @ us)) h h'"
      have "hd (vs @ us) \<noteq> x" using dist xs ne hd_in_set [OF ne] by auto
      then have "ipc_kmsg_rmqueue base x h = Some (if base = x then hd (vs @ us) else base, h')"
        using k h1 h2 h' r(3) by (simp add: ipc_kmsg_rmqueue_def Let_def)
      moreover have "(if base = x then hd (vs @ us) else base) = hd (us @ vs)"
        using r(2) xs ne dist by (cases us) auto
      moreover have "ring h' (us @ vs)" using *(1) ring_rotate by blast
      moreover have "set (x # vs @ us) = set xs" using xs by auto
      ultimately show ?thesis using *(2) False rm by (auto simp: kmsg_queue_def)
    qed
  qed
qed

lemma queue_next_spec:
  assumes q: "kmsg_queue h base (us @ x # vs)"
  shows "ipc_kmsg_queue_next base x h = Some (if vs = [] then IKM_NULL else hd vs)"
proof -
  have r: "ring h (us @ x # vs)" and b: "base = hd (us @ [x])" "base \<noteq> 0"
    using kmsg_queue_base [OF q] by (simp_all add: hd_append)
  then have "ring h (x # vs @ us)" using ring_rotate [of h us "x # vs"] by simp
  then have "knext h x = Some (hd ((vs @ us) @ [x]))" by (cases "vs @ us") (auto simp: ring_def simp del: append_assoc)
  moreover have "hd ((vs @ us) @ [x]) = (if vs = [] then base else hd vs)" using b by simp
  moreover have "base \<noteq> hd vs" if "vs \<noteq> []"
    using r hd_in_set [OF that] b(1) by (cases us) (auto simp: ring_def)
  ultimately show ?thesis using b(2) by (auto simp: ipc_kmsg_queue_next_def knext_def)
qed

section \<open>The interface of a queue\<close>

datatype ikm_op = Enqueue u32 | Dequeue | Rmqueue u32

text \<open>An operation on lists: the message that it concerns (\<open>IKM_NULL\<close> if the queue is empty) and the list
  that remains; and what the caller has to ensure about the messages that exist and those in the list.\<close>

fun list_step :: "ikm_op \<Rightarrow> u32 list \<Rightarrow> u32 \<times> u32 list" where
  "list_step (Enqueue k) xs = (k, xs @ [k])"
| "list_step Dequeue [] = (IKM_NULL, [])"
| "list_step Dequeue (x # xs) = (x, xs)"
| "list_step (Rmqueue k) xs = (k, remove1 k xs)"

fun allowed :: "u32 set \<Rightarrow> ikm_op \<Rightarrow> u32 list \<Rightarrow> bool" where
  "allowed M (Enqueue k) xs \<longleftrightarrow> k \<in> M \<and> k \<noteq> IKM_NULL \<and> k \<notin> set xs"
| "allowed M Dequeue xs \<longleftrightarrow> True"
| "allowed M (Rmqueue k) xs \<longleftrightarrow> k \<in> set xs"

primrec list_run :: "ikm_op list \<Rightarrow> u32 list \<Rightarrow> u32 list \<times> u32 list" where
  "list_run [] xs = ([], xs)"
| "list_run (c # ops) xs = (let (x, ys) = list_step c xs; (zs, ws) = list_run ops ys in (x # zs, ws))"

primrec all_allowed :: "u32 set \<Rightarrow> ikm_op list \<Rightarrow> u32 list \<Rightarrow> bool" where
  "all_allowed M [] xs \<longleftrightarrow> True"
| "all_allowed M (c # ops) xs \<longleftrightarrow> allowed M c xs \<and> all_allowed M ops (snd (list_step c xs))"

primrec enqueued :: "ikm_op list \<Rightarrow> u32 set" where
  "enqueued [] = {}"
| "enqueued (c # ops) = (case c of Enqueue k \<Rightarrow> {k} | _ \<Rightarrow> {}) \<union> enqueued ops"

text \<open>A run of any operations \<open>step\<close> on a representation of a queue.\<close>

primrec queue_run ::
  "(ikm_op \<Rightarrow> 'b \<Rightarrow> 'h \<Rightarrow> (u32 \<times> 'b \<times> 'h) option) \<Rightarrow> ikm_op list \<Rightarrow> 'b \<Rightarrow> 'h \<Rightarrow> (u32 list \<times> 'b \<times> 'h) option" where
  "queue_run step [] base h = Some ([], base, h)"
| "queue_run step (c # ops) base h =
    do { (x, base, h) \<leftarrow> step c base h;
         (zs, base, h) \<leftarrow> queue_run step ops base h;
         Some (x # zs, base, h) }"

locale message_queue =
  fixes queue :: "'h \<Rightarrow> 'b \<Rightarrow> u32 list \<Rightarrow> bool"
    and step :: "ikm_op \<Rightarrow> 'b \<Rightarrow> 'h \<Rightarrow> (u32 \<times> 'b \<times> 'h) option"
    and cells :: "'h \<Rightarrow> u32 set"
    and writes :: "u32 set \<Rightarrow> 'h \<Rightarrow> 'h \<Rightarrow> bool"
  assumes step_refines:
      "\<lbrakk>queue h b xs; allowed (cells h) c xs\<rbrakk> \<Longrightarrow>
        \<exists>b' h'. step c b h = Some (fst (list_step c xs), b', h') \<and> queue h' b' (snd (list_step c xs)) \<and>
          writes (set xs \<union> enqueued [c]) h h'"
    and writes_cells: "writes A h h' \<Longrightarrow> cells h' = cells h"
    and writes_refl: "writes A h h"
    and writes_trans: "\<lbrakk>writes A h h'; writes B h' h''\<rbrakk> \<Longrightarrow> writes (A \<union> B) h h''"
    and writes_mono: "\<lbrakk>writes A h h'; A \<subseteq> B\<rbrakk> \<Longrightarrow> writes B h h'"
begin

lemma run_refines:
  "\<lbrakk>queue h b xs; all_allowed (cells h) ops xs\<rbrakk> \<Longrightarrow>
    \<exists>b' h'. queue_run step ops b h = Some (fst (list_run ops xs), b', h') \<and> queue h' b' (snd (list_run ops xs)) \<and>
      writes (set xs \<union> enqueued ops) h h'"
proof (induction ops arbitrary: h b xs)
  case Nil
  then show ?case by (simp add: writes_refl)
next
  case (Cons c ops)
  define ys where "ys = snd (list_step c xs)"
  have step: "set ys \<subseteq> set xs \<union> enqueued [c]"
    unfolding ys_def by (cases c; cases xs) (auto dest: notin_set_remove1 split: if_splits)
  obtain b1 h1 where 1: "step c b h = Some (fst (list_step c xs), b1, h1)" "queue h1 b1 ys"
      "writes (set xs \<union> enqueued [c]) h h1"
    using step_refines [of h b xs c] Cons.prems ys_def by auto
  obtain b' h' where 2: "queue_run step ops b1 h1 = Some (fst (list_run ops ys), b', h')"
      "queue h' b' (snd (list_run ops ys))" "writes (set ys \<union> enqueued ops) h1 h'"
    using Cons.IH [OF 1(2)] Cons.prems writes_cells [OF 1(3)] ys_def by auto
  have "writes (set xs \<union> enqueued (c # ops)) h h'"
    by (rule writes_mono [OF writes_trans [OF 1(3) 2(3)]]) (use step in auto)
  then show ?case using 1 2 ys_def by (simp add: split_def Let_def)
qed

end

text \<open>The queues of the kernel provide it.\<close>

fun ikm_step :: "ikm_op \<Rightarrow> u32 \<Rightarrow> ikm_heap \<Rightarrow> (u32 \<times> u32 \<times> ikm_heap) option" where
  "ikm_step (Enqueue k) base h = do { (base, h) \<leftarrow> ipc_kmsg_enqueue base k h; Some (k, base, h) }"
| "ikm_step Dequeue base h = ipc_kmsg_dequeue base h"
| "ikm_step (Rmqueue k) base h = do { (base, h) \<leftarrow> ipc_kmsg_rmqueue base k h; Some (k, base, h) }"

lemma ikm_step_refines:
  assumes "kmsg_queue h b xs" "allowed (dom h) c xs"
  shows "\<exists>b' h'. ikm_step c b h = Some (fst (list_step c xs), b', h') \<and> kmsg_queue h' b' (snd (list_step c xs)) \<and>
           relinks (set xs \<union> enqueued [c]) h h'"
proof (cases c)
  case (Enqueue k)
  then show ?thesis using enqueue_spec [OF assms(1), of k] assms(2) by auto
next
  case Dequeue
  show ?thesis
  proof (cases xs)
    case Nil
    then show ?thesis using assms(1) Dequeue
      by (simp add: ipc_kmsg_dequeue_def kmsg_queue_def relinks_refl)
  next
    case (Cons x ys)
    then have "b = x" "b \<noteq> 0" using kmsg_queue_base [OF assms(1)] by auto
    then show ?thesis using rmqueue_first_spec [of h x ys] assms(1) Dequeue Cons
      by (auto simp: ipc_kmsg_dequeue_def)
  qed
next
  case (Rmqueue k)
  then show ?thesis using rmqueue_spec [OF assms(1), of k] assms(2) by auto
qed

lemma relinks_dom: "relinks A h h' \<Longrightarrow> dom h' = dom h"
proof -
  assume *: "relinks A h h'"
  have contents_None: "h a = None \<longleftrightarrow> contents h a = None" for h a by (simp add: contents_def)
  have "contents h' a = contents h a" for a using * by (simp add: relinks_def)
  then have "h' a = None \<longleftrightarrow> h a = None" for a by (simp only: contents_None)
  then show ?thesis by (simp only: dom_def simp_thms)
qed

interpretation ikm: message_queue kmsg_queue ikm_step dom relinks
proof
  show "\<exists>b' h'. ikm_step c b h = Some (fst (list_step c xs), b', h') \<and> kmsg_queue h' b' (snd (list_step c xs)) \<and>
      relinks (set xs \<union> enqueued [c]) h h'" if "kmsg_queue h b xs" "allowed (dom h) c xs" for h b c xs
    using that by (rule ikm_step_refines)
qed (auto simp: relinks_dom intro: relinks_refl relinks_mono relinks_trans)

text \<open>A queue elsewhere in the memory stays as it is.\<close>

lemma relinks_other:
  assumes "relinks A h h'" "kmsg_queue h b ys" "A \<inter> set ys = {}"
  shows "kmsg_queue h' b ys"
proof -
  have "h' a = h a" if "a \<in> set ys" for a using that assms(1,3) by (auto simp: relinks_def)
  then have same: "knext h' a = knext h a" "kprev h' a = kprev h a" if "a \<in> set ys" for a
    using that by (simp_all add: knext_def kprev_def)
  have "links h' (ys @ [hd ys])" if ne: "ys \<noteq> []"
  proof (rule links_cong)
    show "links h (ys @ [hd ys])" using assms(2) ne by (simp add: kmsg_queue_def ring_def)
    show "\<forall>a\<in>set (butlast (ys @ [hd ys])). knext h' a = knext h a" using same(1) by simp
    show "\<forall>a\<in>set (tl (ys @ [hd ys])). kprev h' a = kprev h a"
      using same(2) ne list.set_sel(2) [OF ne] by auto
  qed
  then show ?thesis using assms(2) by (simp add: kmsg_queue_def ring_def)
qed

text \<open>C16: Queues of messages. From a queue that represents the list \<open>xs\<close>, every sequence of enqueueing,
  dequeueing and removal from the middle that enqueues each message at most once at a time never
  panics, gives the messages in the order of the list operations, and ends with a queue for the list that they give;
  \<open>ipc_kmsg_queue_next\<close> then walks through it. No message changes but for its links, none outside of
  the queue changes at all, so that other queues are kept.\<close>

theorem kmsg_queue_runs:
  assumes "kmsg_queue h base xs" and "all_allowed (dom h) ops xs"
  shows "\<exists>base' h'.
    queue_run ikm_step ops base h = Some (fst (list_run ops xs), base', h') \<and>
    kmsg_queue h' base' (snd (list_run ops xs)) \<and>
    (\<forall>us x vs. snd (list_run ops xs) = us @ x # vs \<longrightarrow>
       ipc_kmsg_queue_next base' x h' = Some (if vs = [] then IKM_NULL else hd vs)) \<and>
    (\<forall>a. contents h' a = contents h a) \<and>
    (\<forall>a. a \<notin> set xs \<union> enqueued ops \<longrightarrow> h' a = h a) \<and>
    (\<forall>other ys. kmsg_queue h other ys \<and> (set xs \<union> enqueued ops) \<inter> set ys = {} \<longrightarrow> kmsg_queue h' other ys)"
proof -
  obtain base' h' where *: "queue_run ikm_step ops base h = Some (fst (list_run ops xs), base', h')"
      "kmsg_queue h' base' (snd (list_run ops xs))" "relinks (set xs \<union> enqueued ops) h h'"
    using ikm.run_refines [OF assms] by blast
  have "\<forall>us x vs. snd (list_run ops xs) = us @ x # vs \<longrightarrow>
       ipc_kmsg_queue_next base' x h' = Some (if vs = [] then IKM_NULL else hd vs)"
    using *(2) queue_next_spec by metis
  then show ?thesis using * relinks_other [OF *(3)] by (auto simp: relinks_def)
qed

definition message_sample :: ipc_kmsg where
  "message_sample = \<lparr>ikm_next = IKM_BOGUS, ikm_prev = IKM_BOGUS,
     ikm_header = \<lparr>msgh_bits = 0x13, msgh_size = 24, msgh_remote_port = 0x40, msgh_local_port = 0\<rparr>,
     ikm_descriptor_count = 0, ikm_descriptors = []\<rparr>"

theorem kmsg_queue_runs_witness:
  "\<exists>base' h'.
    queue_run ikm_step [Enqueue 16, Enqueue 32, Enqueue 48, Rmqueue 32, Dequeue, Dequeue, Dequeue, Enqueue 32] 0
      [16 \<mapsto> message_sample, 32 \<mapsto> message_sample, 48 \<mapsto> message_sample] = Some ([16, 32, 48, 32, 16, 48, 0, 32], base', h') \<and>
    kmsg_queue h' base' [32]"
  using kmsg_queue_runs [of "[16 \<mapsto> message_sample, 32 \<mapsto> message_sample, 48 \<mapsto> message_sample]" 0 "[]"
    "[Enqueue 16, Enqueue 32, Enqueue 48, Rmqueue 32, Dequeue, Dequeue, Dequeue, Enqueue 32]"]
  by (auto simp: kmsg_queue_def ring_def)

end
