(* ===== verification/Ipc_Kmsg_Body.thy ===== *)
theory Ipc_Kmsg_Body
  imports Ipc_Kmsg
begin

text \<open>
  Bodies of messages (\<^verbatim>\<open>osfmk/ipc/ipc_kmsg.c\<close>): the rights, arrays of rights and memory in a message are
  taken from the sender and given to the receiver. Sizes and counts are 32-bit words, as in the code. The
  virtual memory system is its answers: each call takes the next one.
\<close>

section \<open>Memory of a task\<close>

abbreviation MACH_SEND_MSG_TOO_SMALL :: mach_msg_return_t where "MACH_SEND_MSG_TOO_SMALL \<equiv> 0x10000008"
abbreviation MACH_SEND_INVALID_RIGHT :: mach_msg_return_t where "MACH_SEND_INVALID_RIGHT \<equiv> 0x1000000a"
abbreviation MACH_SEND_INVALID_MEMORY :: mach_msg_return_t where "MACH_SEND_INVALID_MEMORY \<equiv> 0x1000000c"
abbreviation MACH_SEND_NO_BUFFER :: mach_msg_return_t where "MACH_SEND_NO_BUFFER \<equiv> 0x1000000d"
abbreviation MACH_SEND_INVALID_TYPE :: mach_msg_return_t where "MACH_SEND_INVALID_TYPE \<equiv> 0x1000000f"
abbreviation MACH_SEND_INVALID_RT_OOL_SIZE :: mach_msg_return_t where "MACH_SEND_INVALID_RT_OOL_SIZE \<equiv> 0x10000015"
abbreviation MACH_RCV_BODY_ERROR :: mach_msg_return_t where "MACH_RCV_BODY_ERROR \<equiv> 0x1000400c"
abbreviation MACH_RCV_INVALID_TYPE :: mach_msg_return_t where "MACH_RCV_INVALID_TYPE \<equiv> 0x1000400d"
abbreviation MACH_RCV_SCATTER_SMALL :: mach_msg_return_t where "MACH_RCV_SCATTER_SMALL \<equiv> 0x1000400e"
abbreviation MACH_MSG_VM_SPACE :: mach_msg_return_t where "MACH_MSG_VM_SPACE \<equiv> 0x1000"
abbreviation MACH_MSG_VM_KERNEL :: mach_msg_return_t where "MACH_MSG_VM_KERNEL \<equiv> 0x400"
abbreviation MACH_MSG_INVALID_RT_DESCRIPTOR :: mach_msg_return_t where "MACH_MSG_INVALID_RT_DESCRIPTOR \<equiv> 0x200"

text \<open>\<open>vm_words\<close> are the words that the task can read. \<open>vm_answers\<close> is what the following calls of
  \<^verbatim>\<open>copyin\<close>, \<^verbatim>\<open>vm_allocate\<close>, \<^verbatim>\<open>vm_map_copyin\<close> and relatives return: an error, or success and the address
  that the call yields, if it yields one. When the list is empty they fail.\<close>

record vm_map =
  vm_words :: "u32 \<Rightarrow> u32 option"
  vm_answers :: "(kern_return_t + u32) list"

definition vm_call :: "vm_map \<Rightarrow> (kern_return_t + u32) \<times> vm_map" where
  "vm_call m = (case vm_answers m of [] \<Rightarrow> (Inl KERN_FAILURE, m) | r # rs \<Rightarrow> (r, m\<lparr>vm_answers := rs\<rparr>))"

text \<open>\<^verbatim>\<open>copyinmap\<close> of an array of words.\<close>

definition copyinmap :: "vm_map \<Rightarrow> u32 \<Rightarrow> u32 \<Rightarrow> u32 list option" where
  "copyinmap m addr len = those (map (\<lambda>i. vm_words m (addr + 4 * of_nat i)) [0..<unat len div 4])"

definition round_page :: "u32 \<Rightarrow> u32" where
  "round_page x = bits_clear (x + 0xfff) 0xfff"

definition trunc_page :: "u32 \<Rightarrow> u32" where
  "trunc_page x = bits_clear x 0xfff"

abbreviation ipc_kmsg_max_vm_space :: u32 where "ipc_kmsg_max_vm_space \<equiv> 0x700000"

abbreviation IKOT_NONE :: u32 where "IKOT_NONE \<equiv> 0"
abbreviation IKOT_PAGING_REQUEST :: u32 where "IKOT_PAGING_REQUEST \<equiv> 9"
abbreviation IKOT_DEVICE :: u32 where "IKOT_DEVICE \<equiv> 10"

definition ipc_kobject_vm_page_list :: "u32 \<Rightarrow> bool" where
  "ipc_kobject_vm_page_list ikot \<longleftrightarrow> ikot = IKOT_PAGING_REQUEST \<or> ikot = IKOT_DEVICE"

definition ipc_kobject_vm_page_steal :: "u32 \<Rightarrow> bool" where
  "ipc_kobject_vm_page_steal ikot \<longleftrightarrow> ikot = IKOT_PAGING_REQUEST"

section \<open>Copyin of a body\<close>

text \<open>The first pass: the memory of the kernel that physical copies need.\<close>

fun ipc_kmsg_copyin_space ::
  "bool \<Rightarrow> u32 \<Rightarrow> mach_msg_descriptor list \<Rightarrow> u32 \<Rightarrow> (mach_msg_return_t + u32) option" where
  "ipc_kmsg_copyin_space rt ikot [] space_needed = Some (Inr space_needed)"
| "ipc_kmsg_copyin_space rt ikot (Ool_descriptor address sz cp dealloc # ds) space_needed =
    do { kassert (\<not> (cp = MACH_MSG_PHYSICAL_COPY \<and> (ipc_kobject_vm_page_list ikot \<or> ipc_kobject_vm_page_steal ikot)));
         if cp \<noteq> MACH_MSG_PHYSICAL_COPY \<and> cp \<noteq> MACH_MSG_VIRTUAL_COPY then Some (Inl MACH_SEND_INVALID_TYPE)
         else if cp = MACH_MSG_PHYSICAL_COPY \<and> MSG_OOL_SIZE_SMALL rt \<le> sz \<and> \<not> dealloc then
           let space_needed = space_needed + round_page sz in
           if ipc_kmsg_max_vm_space < space_needed then Some (Inl MACH_MSG_VM_KERNEL)
           else ipc_kmsg_copyin_space rt ikot ds space_needed
         else ipc_kmsg_copyin_space rt ikot ds space_needed }"
| "ipc_kmsg_copyin_space rt ikot (d # ds) space_needed = ipc_kmsg_copyin_space rt ikot ds space_needed"

text \<open>What the second pass carries along: the map, the rest of the region for physical copies (its
  address and size), the last copy object, and whether the message makes a circle.\<close>

record copyin_state =
  cs_map :: vm_map
  cs_paddr :: u32
  cs_needed :: u32
  cs_copy :: u32
  cs_circular :: bool

text \<open>A name with the number of a transfer. \<^verbatim>\<open>ipc_right_copyin\<close> panics on numbers that it does not know.\<close>

definition ipc_kmsg_copyin_right ::
  "ipc_space_t \<Rightarrow> mach_port_name_t \<Rightarrow> u32 \<Rightarrow> kernel \<Rightarrow> ((kern_return_t + ipc_object_t) \<times> kernel) option" where
  "ipc_kmsg_copyin_right space name n s =
    (case mach_msg_type_name_of n of
       Some msgt_name \<Rightarrow> ipc_object_copyin space name msgt_name s
     | None \<Rightarrow>
         do { (r, s) \<leftarrow> ipc_right_lookup_write space name s;
              case r of Inl kr \<Rightarrow> Some (Inl kr, s) | Inr entry \<Rightarrow> None })"

text \<open>A receive right in the message must not make a circle with the destination.\<close>

definition ipc_kmsg_circular :: "ipc_object_t \<Rightarrow> ipc_port_t \<Rightarrow> u32 \<Rightarrow> kernel \<Rightarrow> (bool \<times> kernel) option" where
  "ipc_kmsg_circular object dest disposition s =
    (if disposition = MACH_MSG_TYPE_PORT_RECEIVE_number then ipc_port_check_circularity object dest s
     else Some (False, s))"

text \<open>After an error in an array the rights that were taken from it are given back: \<open>objects\<close> are the elements
  before the one that failed, \<open>port\<close> is the name that failed.\<close>

fun ipc_kmsg_copyin_undo ::
  "mach_port_name_t \<Rightarrow> u32 \<Rightarrow> ipc_object_t list \<Rightarrow> kernel \<Rightarrow> kernel option" where
  "ipc_kmsg_copyin_undo port disposition [] s = Some s"
| "ipc_kmsg_copyin_undo port disposition (object # objects) s =
    (if \<not> MACH_PORT_VALID port then ipc_kmsg_copyin_undo port disposition objects s
     else
       do { msgt_name \<leftarrow> mach_msg_type_name_of disposition;
            s \<leftarrow> ipc_object_destroy object msgt_name s;
            ipc_kmsg_copyin_undo port disposition objects s })"

text \<open>The elements of an array from \<open>j\<close> on, \<open>n\<close> of them; \<open>None\<close> in the result: a right was refused.\<close>

fun ipc_kmsg_copyin_names ::
  "ipc_space_t \<Rightarrow> ipc_port_t \<Rightarrow> u32 \<Rightarrow> u32 \<Rightarrow> nat \<Rightarrow> nat \<Rightarrow> u32 list \<Rightarrow> bool \<Rightarrow> kernel \<Rightarrow>
   ((u32 list \<times> bool) option \<times> kernel) option" where
  "ipc_kmsg_copyin_names space dest name disposition 0 j objects circular s = Some (Some (objects, circular), s)"
| "ipc_kmsg_copyin_names space dest name disposition (Suc n) j objects circular s =
    do { port \<leftarrow> array_get objects j;
         if \<not> MACH_PORT_VALID port then ipc_kmsg_copyin_names space dest name disposition n (j + 1) objects circular s
         else
           do { (r, s) \<leftarrow> ipc_kmsg_copyin_right space port name s;
                case r of
                  Inl kr \<Rightarrow> do { s \<leftarrow> ipc_kmsg_copyin_undo port disposition (take j objects) s; Some (None, s) }
                | Inr object \<Rightarrow>
                    do { (c, s) \<leftarrow> ipc_kmsg_circular object dest disposition s;
                         ipc_kmsg_copyin_names space dest name disposition n (j + 1) (objects[j := object])
                           (circular \<or> c) s } } }"

text \<open>Memory.\<close>

definition ipc_kmsg_copyin_ool ::
  "bool \<Rightarrow> u32 \<Rightarrow> u32 \<Rightarrow> u32 \<Rightarrow> u32 \<Rightarrow> bool \<Rightarrow> copyin_state \<Rightarrow> kernel \<Rightarrow>
   ((mach_msg_return_t + mach_msg_descriptor) \<times> copyin_state \<times> kernel) option" where
  "ipc_kmsg_copyin_ool rt ikot address sz cp dealloc cs s =
    (if dealloc \<and> rt then Some (Inl MACH_MSG_INVALID_RT_DESCRIPTOR, cs, s)
     else if sz = 0 then Some (Inr (Ool_descriptor 0 sz cp dealloc), cs, s)
     else if ipc_kobject_vm_page_list ikot then
       do { kassert (\<not> rt);
            let s = (if \<not> ipc_kobject_vm_page_steal ikot \<and> cs_copy cs \<noteq> 0 then log_event (Pages_stolen (cs_copy cs)) s
                     else s) in
            case vm_call (cs_map cs) of
              (Inl kr, m) \<Rightarrow> Some (Inl MACH_SEND_INVALID_MEMORY, cs\<lparr>cs_map := m\<rparr>, s)
            | (Inr c, m) \<Rightarrow>
                Some (Inr (Ool_descriptor c sz MACH_MSG_PAGE_LIST_COPY_T dealloc), cs\<lparr>cs_map := m, cs_copy := c\<rparr>, s) }
     else if sz < MSG_OOL_SIZE_SMALL rt \<and> cp = MACH_MSG_PHYSICAL_COPY then
       do { kassert (ikot \<noteq> IKOT_NONE \<longrightarrow> \<not> rt);
            case kalloc s of (kaddr, s) \<Rightarrow>
              if kaddr = 0 then Some (Inl MACH_MSG_VM_KERNEL, cs, s)
              else
                (case vm_call (cs_map cs) of
                   (Inl kr, m) \<Rightarrow>
                     Some (Inl MACH_SEND_INVALID_MEMORY, cs\<lparr>cs_map := m\<rparr>, log_event (Memory_freed kaddr) s)
                 | (Inr _, m) \<Rightarrow>
                     Some (Inr (Ool_descriptor kaddr sz (if ikot \<noteq> IKOT_NONE then MACH_MSG_KALLOC_COPY_T else cp) dealloc),
                           cs\<lparr>cs_map := m\<rparr>,
                           if dealloc then log_event (Region_removed (trunc_page address) (round_page (address + sz))) s
                           else s)) }
     else if cp = MACH_MSG_PHYSICAL_COPY \<and> \<not> dealloc then
       do { kassert (cs_paddr cs \<noteq> 0 \<and> sz \<le> cs_needed cs);
            case vm_call (cs_map cs) of
              (Inl kr, m) \<Rightarrow> Some (Inl MACH_SEND_INVALID_MEMORY, cs\<lparr>cs_map := m\<rparr>, s)
            | (Inr _, m) \<Rightarrow>
                (case vm_call m of
                   (Inl kr, m) \<Rightarrow> Some (Inl MACH_MSG_VM_KERNEL, cs\<lparr>cs_map := m\<rparr>, s)
                 | (Inr c, m) \<Rightarrow>
                     Some (Inr (Ool_descriptor c sz cp dealloc),
                           cs\<lparr>cs_map := m, cs_copy := c, cs_paddr := cs_paddr cs + round_page sz,
                              cs_needed := cs_needed cs - round_page sz\<rparr>, s)) }
     else if rt then Some (Inl MACH_SEND_INVALID_TYPE, cs, s)
     else
       (case vm_call (cs_map cs) of
          (Inl kr, m) \<Rightarrow> Some (Inl MACH_SEND_INVALID_MEMORY, cs\<lparr>cs_map := m\<rparr>, s)
        | (Inr c, m) \<Rightarrow> Some (Inr (Ool_descriptor c sz cp dealloc), cs\<lparr>cs_map := m, cs_copy := c\<rparr>, s)))"

text \<open>An array of rights.\<close>

definition ipc_kmsg_copyin_ool_ports ::
  "ipc_space_t \<Rightarrow> ipc_port_t \<Rightarrow> u32 \<Rightarrow> u32 \<Rightarrow> u32 \<Rightarrow> u32 \<Rightarrow> bool \<Rightarrow> copyin_state \<Rightarrow> kernel \<Rightarrow>
   ((mach_msg_return_t + mach_msg_descriptor) \<times> copyin_state \<times> kernel) option" where
  "ipc_kmsg_copyin_ool_ports space dest addr cnt cp name dealloc cs s =
    (let len = cnt * 4 in
     if len = 0 then Some (Inr (Ool_ports_descriptor (User_address 0) cnt cp name dealloc), cs, s)
     else
       case kalloc s of (data, s) \<Rightarrow>
         if data = 0 then Some (Inl MACH_SEND_NO_BUFFER, cs, s)
         else
           (case copyinmap (cs_map cs) addr len of
              None \<Rightarrow> Some (Inl MACH_SEND_INVALID_MEMORY, cs, log_event (Memory_freed data) s)
            | Some objects \<Rightarrow>
                let s = (if dealloc then log_event (Region_removed addr len) s else s) in
                do { disposition \<leftarrow> copyin_type name;
                     (r, s) \<leftarrow> ipc_kmsg_copyin_names space dest name disposition (unat cnt) 0 objects False s;
                     case r of
                       None \<Rightarrow> Some (Inl MACH_SEND_INVALID_RIGHT, cs, log_event (Memory_freed data) s)
                     | Some (objects, c) \<Rightarrow>
                         Some (Inr (Ool_ports_descriptor (Kernel_array data objects) cnt cp disposition dealloc),
                               cs\<lparr>cs_circular := cs_circular cs \<or> c\<rparr>, s) }))"

fun ipc_kmsg_copyin_descriptor ::
  "ipc_space_t \<Rightarrow> ipc_port_t \<Rightarrow> bool \<Rightarrow> u32 \<Rightarrow> mach_msg_descriptor \<Rightarrow> copyin_state \<Rightarrow> kernel \<Rightarrow>
   ((mach_msg_return_t + mach_msg_descriptor) \<times> copyin_state \<times> kernel) option" where
  "ipc_kmsg_copyin_descriptor space dest rt ikot (Port_descriptor port name) cs s =
    do { disposition \<leftarrow> copyin_type name;
         if \<not> MACH_PORT_VALID port then Some (Inr (Port_descriptor port disposition), cs, s)
         else
           do { (r, s) \<leftarrow> ipc_kmsg_copyin_right space port name s;
                case r of
                  Inl kr \<Rightarrow> Some (Inl MACH_SEND_INVALID_RIGHT, cs, s)
                | Inr object \<Rightarrow>
                    do { (c, s) \<leftarrow> ipc_kmsg_circular object dest disposition s;
                         Some (Inr (Port_descriptor object disposition), cs\<lparr>cs_circular := cs_circular cs \<or> c\<rparr>, s) } } }"
| "ipc_kmsg_copyin_descriptor space dest rt ikot (Ool_descriptor address sz cp dealloc) cs s =
    ipc_kmsg_copyin_ool rt ikot address sz cp dealloc cs s"
| "ipc_kmsg_copyin_descriptor space dest rt ikot (Ool_ports_descriptor address cnt cp name dealloc) cs s =
    (case address of
       User_address addr \<Rightarrow> ipc_kmsg_copyin_ool_ports space dest addr cnt cp name dealloc cs s
     | Kernel_array _ _ \<Rightarrow> None)"
| "ipc_kmsg_copyin_descriptor space dest rt ikot (Unknown_descriptor type) cs s = Some (Inl MACH_SEND_INVALID_TYPE, cs, s)"

text \<open>The second pass: \<open>ready\<close> are the descriptors that are done, \<open>ds\<close> those to come. An error gives back what the message has acquired.\<close>

fun ipc_kmsg_copyin_loop ::
  "ipc_space_t \<Rightarrow> ipc_kmsg \<Rightarrow> u32 \<Rightarrow> mach_msg_descriptor list \<Rightarrow> mach_msg_descriptor list \<Rightarrow> copyin_state \<Rightarrow> kernel \<Rightarrow>
   ((mach_msg_return_t + mach_msg_descriptor list) \<times> copyin_state \<times> kernel) option" where
  "ipc_kmsg_copyin_loop space kmsg ikot ready [] cs s = Some (Inr ready, cs, s)"
| "ipc_kmsg_copyin_loop space kmsg ikot ready (d # ds) cs s =
    do { (r, cs, s) \<leftarrow> ipc_kmsg_copyin_descriptor space (msgh_remote_port (ikm_header kmsg)) (KMSG_IS_RT kmsg) ikot d cs s;
         case r of
           Inl mr \<Rightarrow>
             do { s \<leftarrow> ipc_kmsg_clean_partial (kmsg\<lparr>ikm_descriptors := ready @ d # ds\<rparr>) (length ready)
                       (cs_paddr cs) (cs_needed cs) s;
                  Some (Inl mr, cs, s) }
         | Inr d' \<Rightarrow> ipc_kmsg_copyin_loop space kmsg ikot (ready @ [d']) ds cs s }"

definition ipc_kmsg_copyin_body ::
  "ipc_kmsg \<Rightarrow> ipc_space_t \<Rightarrow> vm_map \<Rightarrow> kernel \<Rightarrow> (mach_msg_return_t \<times> ipc_kmsg \<times> vm_map \<times> kernel) option" where
  "ipc_kmsg_copyin_body kmsg space vmap s =
    (let hdr = ikm_header kmsg; cnt = unat (ikm_descriptor_count kmsg); rt = KMSG_IS_RT kmsg;
         fail = (\<lambda>mr vmap s. do { s \<leftarrow> ipc_kmsg_clean_partial kmsg 0 0 0 s; Some (mr, kmsg, vmap, s) }) in
     do { p \<leftarrow> ks_ports s (msgh_remote_port hdr);
          let ikot = io_kotype p in
          if cnt = 0 \<or> 24 * unat (msgh_size hdr) < 28 + 12 * cnt then fail MACH_SEND_MSG_TOO_SMALL vmap s
          else
            do { kassert (cnt \<le> length (ikm_descriptors kmsg));
                 let ds = take cnt (ikm_descriptors kmsg) in
                 do { r \<leftarrow> ipc_kmsg_copyin_space rt ikot ds 0;
                      case r of
                        Inl mr \<Rightarrow> fail mr vmap s
                      | Inr space_needed \<Rightarrow>
                          if space_needed \<noteq> 0 \<and> rt then fail MACH_SEND_INVALID_RT_OOL_SIZE vmap s
                          else
                            (case (if space_needed \<noteq> 0 then vm_call vmap else (Inr 0, vmap)) of
                               (Inl kr, vmap) \<Rightarrow> fail MACH_MSG_VM_KERNEL vmap s
                             | (Inr paddr, vmap) \<Rightarrow>
                                 do { (r, cs, s) \<leftarrow> ipc_kmsg_copyin_loop space kmsg ikot [] ds
                                        \<lparr>cs_map = vmap, cs_paddr = paddr, cs_needed = space_needed, cs_copy = 0,
                                         cs_circular = False\<rparr> s;
                                      let bits = (if cs_circular cs then msgh_bits hdr OR MACH_MSGH_BITS_CIRCULAR
                                                  else msgh_bits hdr) in
                                      case r of
                                        Inl mr \<Rightarrow> Some (mr, kmsg, cs_map cs, s)
                                      | Inr ready \<Rightarrow>
                                          Some (MACH_MSG_SUCCESS,
                                                kmsg\<lparr>ikm_header := hdr\<lparr>msgh_bits :=
                                                       (if ready = [] then bits_clear bits MACH_MSGH_BITS_COMPLEX else bits)\<rparr>,
                                                     ikm_descriptors := ready @ drop cnt (ikm_descriptors kmsg)\<rparr>,
                                                cs_map cs, s) }) } } })"

definition ipc_kmsg_copyin ::
  "ipc_kmsg \<Rightarrow> ipc_space_t \<Rightarrow> vm_map \<Rightarrow> mach_port_name_t \<Rightarrow> kernel \<Rightarrow>
   (mach_msg_return_t \<times> ipc_kmsg \<times> vm_map \<times> kernel) option" where
  "ipc_kmsg_copyin kmsg space vmap notify s =
    do { (mr, hdr, s) \<leftarrow> ipc_kmsg_copyin_header (ikm_header kmsg) space notify s;
         let kmsg = kmsg\<lparr>ikm_header := hdr\<rparr> in
         if mr \<noteq> MACH_MSG_SUCCESS then Some (mr, kmsg, vmap, s)
         else if \<not> has (msgh_bits hdr) MACH_MSGH_BITS_COMPLEX then Some (MACH_MSG_SUCCESS, kmsg, vmap, s)
         else ipc_kmsg_copyin_body kmsg space vmap s }"

end
