(* ===== verification/Ipc_Kmsg_Copyout.thy ===== *)
theory Ipc_Kmsg_Copyout
  imports Ipc_Kmsg_Body
begin

text \<open>
  The receiving side (\<^verbatim>\<open>osfmk/ipc/ipc_kmsg.c\<close>): the rights and memory of a body are given to the receiver,
  who may say in a scatter list where memory goes; the list is checked against the body first.
\<close>

section \<open>Scatter lists\<close>

text \<open>A pointer into the scatter list of the receiver: the rest of the list, or null.\<close>

type_synonym scatter = "mach_msg_descriptor list option"

fun is_port_descriptor :: "mach_msg_descriptor \<Rightarrow> bool" where
  "is_port_descriptor (Port_descriptor _ _) \<longleftrightarrow> True"
| "is_port_descriptor _ \<longleftrightarrow> False"

definition SKIP_PORT_DESCRIPTORS :: "scatter \<Rightarrow> scatter" where
  "SKIP_PORT_DESCRIPTORS sl = (case sl of None \<Rightarrow> None
     | Some ds \<Rightarrow> (case dropWhile is_port_descriptor ds of [] \<Rightarrow> None | ds' \<Rightarrow> Some ds'))"

definition INCREMENT_SCATTER :: "scatter \<Rightarrow> scatter" where
  "INCREMENT_SCATTER sl = map_option tl sl"

text \<open>The place that the current scatter descriptor gives for memory, if it gives one. The fields of
  both kinds of out-of-line descriptors coincide.\<close>

fun scatter_overwrite :: "scatter \<Rightarrow> u32 option option" where
  "scatter_overwrite None = Some None"
| "scatter_overwrite (Some (Ool_descriptor address sz cp dealloc # _)) =
    Some (if cp = MACH_MSG_OVERWRITE then Some address else None)"
| "scatter_overwrite (Some (Ool_ports_descriptor (User_address address) cnt cp disposition dealloc # _)) =
    Some (if cp = MACH_MSG_OVERWRITE then Some address else None)"
| "scatter_overwrite (Some _) = None"

text \<open>\<open>sdescs\<close> is the scatter list from the current descriptor on; \<open>none\<close> tells that it was empty from the start.\<close>

fun ipc_kmsg_check_scatter_loop ::
  "bool \<Rightarrow> mach_msg_descriptor list \<Rightarrow> mach_msg_descriptor list \<Rightarrow> mach_msg_return_t option" where
  "ipc_kmsg_check_scatter_loop none [] sdescs = Some MACH_MSG_SUCCESS"
| "ipc_kmsg_check_scatter_loop none (g # gs) sdescs =
    (if is_port_descriptor g then ipc_kmsg_check_scatter_loop none gs sdescs
     else if none then Some MACH_RCV_SCATTER_SMALL
     else
       case dropWhile is_port_descriptor sdescs of
         [] \<Rightarrow> Some MACH_MSG_SUCCESS
       | d # ds \<Rightarrow>
           (case (g, d) of
              (Ool_descriptor _ gsize _ _, Ool_descriptor _ ssize cp _) \<Rightarrow>
                if cp = MACH_MSG_OVERWRITE \<and> ssize < gsize then Some MACH_RCV_SCATTER_SMALL
                else ipc_kmsg_check_scatter_loop none gs ds
            | (Ool_ports_descriptor _ gcount _ _ _, Ool_ports_descriptor _ scount cp _ _) \<Rightarrow>
                if cp = MACH_MSG_OVERWRITE \<and> scount < gcount then Some MACH_RCV_SCATTER_SMALL
                else ipc_kmsg_check_scatter_loop none gs ds
            | (Unknown_descriptor _, Ool_ports_descriptor _ _ _ _ _) \<Rightarrow> None
            | _ \<Rightarrow> Some MACH_RCV_INVALID_TYPE))"

definition ipc_kmsg_check_scatter :: "ipc_kmsg \<Rightarrow> mach_msg_descriptor list \<Rightarrow> mach_msg_return_t option" where
  "ipc_kmsg_check_scatter kmsg slist =
    do { kassert (unat (ikm_descriptor_count kmsg) \<le> length (ikm_descriptors kmsg));
         ipc_kmsg_check_scatter_loop (slist = []) (take (unat (ikm_descriptor_count kmsg)) (ikm_descriptors kmsg)) slist }"

section \<open>Copyout of a body\<close>

text \<open>A right whose type is given by a number.\<close>

definition ipc_kmsg_copyout_right ::
  "ipc_space_t \<Rightarrow> ipc_object_t \<Rightarrow> u32 \<Rightarrow> kernel \<Rightarrow> (mach_msg_return_t \<times> mach_port_name_t \<times> kernel) option" where
  "ipc_kmsg_copyout_right space object disposition s =
    (if \<not> IO_VALID object then Some (MACH_MSG_SUCCESS, object, s)
     else do { msgt_name \<leftarrow> mach_msg_type_name_of disposition; ipc_kmsg_copyout_object space object msgt_name s })"

text \<open>The elements of an array from \<open>j\<close> on, \<open>n\<close> of them. The bits of all errors come together.\<close>

fun ipc_kmsg_copyout_names ::
  "ipc_space_t \<Rightarrow> u32 \<Rightarrow> nat \<Rightarrow> nat \<Rightarrow> u32 list \<Rightarrow> mach_msg_return_t \<Rightarrow> kernel \<Rightarrow>
   (u32 list \<times> mach_msg_return_t \<times> kernel) option" where
  "ipc_kmsg_copyout_names space disposition 0 j objects mr s = Some (objects, mr, s)"
| "ipc_kmsg_copyout_names space disposition (Suc n) j objects mr s =
    do { object \<leftarrow> array_get objects j;
         (r, name, s) \<leftarrow> ipc_kmsg_copyout_right space object disposition s;
         ipc_kmsg_copyout_names space disposition n (j + 1) (objects[j := name]) (mr OR r) s }"

text \<open>The error bits of a failure of the virtual memory system.\<close>

definition vm_error_bits :: "kern_return_t \<Rightarrow> mach_msg_return_t" where
  "vm_error_bits kr = (if kr = KERN_RESOURCE_SHORTAGE then MACH_MSG_VM_KERNEL else MACH_MSG_VM_SPACE)"

text \<open>Memory: the error bits, the descriptor, the rest of the scatter list, the map.\<close>

definition ipc_kmsg_copyout_ool ::
  "bool \<Rightarrow> u32 \<Rightarrow> u32 \<Rightarrow> u32 \<Rightarrow> bool \<Rightarrow> scatter \<Rightarrow> vm_map \<Rightarrow> kernel \<Rightarrow>
   (mach_msg_return_t \<times> mach_msg_descriptor \<times> scatter \<times> vm_map \<times> kernel) option" where
  "ipc_kmsg_copyout_ool rt snd_addr sz cp dealloc sl vmap s =
    (let sl = SKIP_PORT_DESCRIPTORS sl; sl' = INCREMENT_SCATTER sl in
     do { kassert (cp \<noteq> MACH_MSG_KALLOC_COPY_T \<and> cp \<noteq> MACH_MSG_PAGE_LIST_COPY_T);
          if snd_addr = 0 then Some (MACH_MSG_SUCCESS, Ool_descriptor snd_addr sz cp dealloc, sl', vmap, s)
          else
            do { place \<leftarrow> scatter_overwrite sl;
                 let cp' = (if place \<noteq> None then MACH_MSG_OVERWRITE else MACH_MSG_ALLOCATE) in
                 if cp = MACH_MSG_PHYSICAL_COPY \<and> sz < MSG_OOL_SIZE_SMALL rt then
                   (if place = None \<and> rt then
                      Some (MACH_MSG_INVALID_RT_DESCRIPTOR, Ool_descriptor 0 sz cp' dealloc, sl', vmap,
                            log_event (Memory_freed snd_addr) s)
                    else
                      case (case place of Some rcv_addr \<Rightarrow> (Inr rcv_addr, vmap) | None \<Rightarrow> vm_call vmap) of
                        (Inl kr, vmap) \<Rightarrow>
                          Some (vm_error_bits kr, Ool_descriptor 0 sz cp' dealloc, sl', vmap,
                                log_event (Memory_freed snd_addr) s)
                      | (Inr rcv_addr, vmap) \<Rightarrow>
                          Some (MACH_MSG_SUCCESS, Ool_descriptor rcv_addr sz cp' dealloc, sl', vmap,
                                log_event (Memory_freed snd_addr) (log_event (Data_copied_out snd_addr rcv_addr sz) s)))
                 else
                   (case vm_call vmap of
                      (Inl kr, vmap) \<Rightarrow>
                        Some (vm_error_bits kr, Ool_descriptor 0 sz cp' dealloc, sl', vmap,
                              log_event (Copy_discarded snd_addr) s)
                    | (Inr rcv_addr, vmap) \<Rightarrow>
                        Some (MACH_MSG_SUCCESS,
                              Ool_descriptor (case place of Some a \<Rightarrow> a | None \<Rightarrow> rcv_addr) sz cp' dealloc, sl', vmap, s)) } })"

text \<open>An array of rights. \<open>kmsg\<close> is the message with the descriptors as they are now: without memory for the
  array the whole body is cleaned.\<close>

definition ipc_kmsg_copyout_ool_ports ::
  "ipc_space_t \<Rightarrow> ipc_kmsg \<Rightarrow> ports_address \<Rightarrow> u32 \<Rightarrow> u32 \<Rightarrow> u32 \<Rightarrow> bool \<Rightarrow> scatter \<Rightarrow> vm_map \<Rightarrow> kernel \<Rightarrow>
   (mach_msg_return_t \<times> mach_msg_descriptor \<times> scatter \<times> vm_map \<times> kernel) option" where
  "ipc_kmsg_copyout_ool_ports space kmsg address cnt cp disposition dealloc sl vmap s =
    (let sl = SKIP_PORT_DESCRIPTORS sl; sl' = INCREMENT_SCATTER sl; len = cnt * 4;
         refuse = (\<lambda>mr cp vmap. do { s \<leftarrow> ipc_kmsg_clean_body kmsg (unat (ikm_descriptor_count kmsg)) s;
                     Some (mr, Ool_ports_descriptor (User_address 0) cnt cp disposition dealloc, sl', vmap, s) }) in
     if len = 0 then Some (MACH_MSG_SUCCESS, Ool_ports_descriptor address cnt cp disposition dealloc, sl', vmap, s)
     else
       do { place \<leftarrow> scatter_overwrite sl;
            if place = None \<and> KMSG_IS_RT kmsg then refuse MACH_MSG_INVALID_RT_DESCRIPTOR cp vmap
            else
              case (case place of Some addr \<Rightarrow> (Inr addr, vmap) | None \<Rightarrow> vm_call vmap) of
                (Inl kr, vmap) \<Rightarrow> refuse (vm_error_bits kr) MACH_MSG_ALLOCATE vmap
              | (Inr addr, vmap) \<Rightarrow>
                  (case address of
                     User_address _ \<Rightarrow> None
                   | Kernel_array data objects \<Rightarrow>
                       do { (names, mr, s) \<leftarrow> ipc_kmsg_copyout_names space disposition (unat cnt) 0 objects MACH_MSG_SUCCESS s;
                            Some (mr, Ool_ports_descriptor (User_address addr) cnt
                                        (if place \<noteq> None then MACH_MSG_OVERWRITE else MACH_MSG_ALLOCATE) disposition dealloc,
                                  sl', vmap,
                                  log_event (Memory_freed data)
                                    (log_event (Names_copied_out addr (take (unat len div 4) names)) s)) }) })"

fun ipc_kmsg_copyout_descriptor ::
  "ipc_space_t \<Rightarrow> ipc_kmsg \<Rightarrow> mach_msg_descriptor \<Rightarrow> scatter \<Rightarrow> vm_map \<Rightarrow> kernel \<Rightarrow>
   (mach_msg_return_t \<times> mach_msg_descriptor \<times> scatter \<times> vm_map \<times> kernel) option" where
  "ipc_kmsg_copyout_descriptor space kmsg (Port_descriptor object disposition) sl vmap s =
    do { (mr, name, s) \<leftarrow> ipc_kmsg_copyout_right space object disposition s;
         Some (mr, Port_descriptor name disposition, sl, vmap, s) }"
| "ipc_kmsg_copyout_descriptor space kmsg (Ool_descriptor address sz cp dealloc) sl vmap s =
    ipc_kmsg_copyout_ool (KMSG_IS_RT kmsg) address sz cp dealloc sl vmap s"
| "ipc_kmsg_copyout_descriptor space kmsg (Ool_ports_descriptor address cnt cp disposition dealloc) sl vmap s =
    ipc_kmsg_copyout_ool_ports space kmsg address cnt cp disposition dealloc sl vmap s"
| "ipc_kmsg_copyout_descriptor space kmsg (Unknown_descriptor type) sl vmap s = None"

text \<open>The loop; \<open>ready\<close> are the descriptors that are done, \<open>tail\<close> is what the buffer holds beyond the last one.\<close>

fun ipc_kmsg_copyout_loop ::
  "ipc_space_t \<Rightarrow> ipc_kmsg \<Rightarrow> mach_msg_descriptor list \<Rightarrow> mach_msg_descriptor list \<Rightarrow> mach_msg_descriptor list \<Rightarrow>
   mach_msg_return_t \<Rightarrow> scatter \<Rightarrow> vm_map \<Rightarrow> kernel \<Rightarrow> (mach_msg_return_t \<times> ipc_kmsg \<times> vm_map \<times> kernel) option" where
  "ipc_kmsg_copyout_loop space kmsg ready [] tail mr sl vmap s =
    Some (mr, kmsg\<lparr>ikm_descriptors := ready @ tail\<rparr>, vmap, s)"
| "ipc_kmsg_copyout_loop space kmsg ready (d # ds) tail mr sl vmap s =
    do { (r, d', sl, vmap, s) \<leftarrow>
           ipc_kmsg_copyout_descriptor space (kmsg\<lparr>ikm_descriptors := ready @ d # ds @ tail\<rparr>) d sl vmap s;
         ipc_kmsg_copyout_loop space kmsg (ready @ [d']) ds tail (mr OR r) sl vmap s }"

definition ipc_kmsg_copyout_body ::
  "ipc_kmsg \<Rightarrow> ipc_space_t \<Rightarrow> vm_map \<Rightarrow> scatter \<Rightarrow> kernel \<Rightarrow> (mach_msg_return_t \<times> ipc_kmsg \<times> vm_map \<times> kernel) option" where
  "ipc_kmsg_copyout_body kmsg space vmap slist s =
    (let cnt = unat (ikm_descriptor_count kmsg); ds = ikm_descriptors kmsg in
     do { kassert (cnt \<le> length ds);
          ipc_kmsg_copyout_loop space kmsg [] (take cnt ds) (drop cnt ds) MACH_MSG_SUCCESS slist vmap s })"

definition ipc_kmsg_copyout ::
  "ipc_kmsg \<Rightarrow> ipc_space_t \<Rightarrow> vm_map \<Rightarrow> mach_port_name_t \<Rightarrow> scatter \<Rightarrow> kernel \<Rightarrow>
   (mach_msg_return_t \<times> ipc_kmsg \<times> vm_map \<times> kernel) option" where
  "ipc_kmsg_copyout kmsg space vmap notify slist s =
    do { (mr, hdr, s) \<leftarrow> ipc_kmsg_copyout_header (ikm_header kmsg) space notify s;
         let kmsg = kmsg\<lparr>ikm_header := hdr\<rparr> in
         if mr \<noteq> MACH_MSG_SUCCESS then Some (mr, kmsg, vmap, s)
         else if has (msgh_bits hdr) MACH_MSGH_BITS_COMPLEX then
           do { (mr, kmsg, vmap, s) \<leftarrow> ipc_kmsg_copyout_body kmsg space vmap slist s;
                Some (if mr \<noteq> MACH_MSG_SUCCESS then mr OR MACH_RCV_BODY_ERROR else mr, kmsg, vmap, s) }
         else Some (mr, kmsg, vmap, s) }"

definition ipc_kmsg_copyout_pseudo ::
  "ipc_kmsg \<Rightarrow> ipc_space_t \<Rightarrow> vm_map \<Rightarrow> scatter \<Rightarrow> kernel \<Rightarrow> (mach_msg_return_t \<times> ipc_kmsg \<times> vm_map \<times> kernel) option" where
  "ipc_kmsg_copyout_pseudo kmsg space vmap slist s =
    (let hdr = ikm_header kmsg; mbits = msgh_bits hdr; dest = msgh_remote_port hdr; reply = msgh_local_port hdr in
     do { kassert (IO_VALID dest);
          (mr1, dest_name, s) \<leftarrow> ipc_kmsg_copyout_right space dest (MACH_MSGH_BITS_REMOTE mbits) s;
          (mr2, reply_name, s) \<leftarrow> ipc_kmsg_copyout_right space reply (MACH_MSGH_BITS_LOCAL mbits) s;
          let kmsg = kmsg\<lparr>ikm_header := hdr\<lparr>msgh_bits := bits_clear mbits MACH_MSGH_BITS_CIRCULAR,
                       msgh_remote_port := dest_name, msgh_local_port := reply_name\<rparr>\<rparr>;
              mr = mr1 OR mr2 in
          if has mbits MACH_MSGH_BITS_COMPLEX then
            do { (r, kmsg, vmap, s) \<leftarrow> ipc_kmsg_copyout_body kmsg space vmap slist s;
                 Some (mr OR r, kmsg, vmap, s) }
          else Some (mr, kmsg, vmap, s) })"

end
