(* ===== verification/Ipc_Kmsg_Spec.thy ===== *)
theory Ipc_Kmsg_Spec
  imports Ipc_Kmsg Mach_Port_Spec
begin

text \<open>
  The header of a message on its way from one space to another: the request of a remote
  procedure call, with a send right for its destination and a new send-once right for the reply; and a
  header whose two names collide in the table.
\<close>

section \<open>Bits\<close>

lemma header_bits:
  "MACH_MSGH_BITS_REMOTE (bits_clear b MACH_MSGH_BITS_CIRCULAR) = MACH_MSGH_BITS_REMOTE b"
  "MACH_MSGH_BITS_LOCAL (bits_clear b MACH_MSGH_BITS_CIRCULAR) = MACH_MSGH_BITS_LOCAL b"
  "MACH_MSGH_BITS_REMOTE (MACH_MSGH_BITS_OTHER b OR 0x1211) = 0x11"
  "MACH_MSGH_BITS_LOCAL (MACH_MSGH_BITS_OTHER b OR 0x1211) = 0x12"
  "MACH_MSGH_BITS_OTHER (MACH_MSGH_BITS_OTHER b OR 0x1211) = MACH_MSGH_BITS_OTHER b"
  by (simp_all add: MACH_MSGH_BITS_REMOTE_def MACH_MSGH_BITS_LOCAL_def MACH_MSGH_BITS_OTHER_def bits_clear_def
      and.assoc bit.conj_disj_distrib2)

section \<open>Lookup\<close>

text \<open>A lookup splays the tree and changes nothing else.\<close>

lemma lookup_tree:
  assumes ok: "space_ok sp its fl claimed" and run: "ipc_entry_lookup sp name = Some (r, sp')"
  obtains t where "sp' = sp\<lparr>is_tree := t\<rparr>" "ist_inv t" "ist_entries t = ist_entries (is_tree sp)"
proof -
  have tree: "tree_ok sp its claimed" using ok by (simp add: space_ok_def)
  show thesis
  proof (cases "sp' = sp")
    case True
    then show ?thesis using tree by (intro that [of "is_tree sp"]) (simp_all add: tree_ok_def)
  next
    case False
    then have "ipc_entry_tree_lookup sp name = (r, sp')"
      using run by (auto simp: ipc_entry_lookup_def Let_def split: if_splits bind_splits)
    then show ?thesis using that by (metis entry_tree_lookup [OF tree, of name] snd_conv)
  qed
qed

text \<open>The entry that a lookup finds stays where it is when another name is looked up.\<close>

lemma entry_found:
  assumes ok: "space_ok sp its fl claimed" and names: "is_names sp name = Some (object, b, request)"
    and fast: "is_fast sp \<longrightarrow> name_index name < is_table_size sp"
  obtains entry e t where "ipc_entry_lookup sp name = Some (Some entry, sp\<lparr>is_tree := t\<rparr>)"
    and "ist_inv t" "ist_entries t = ist_entries (is_tree sp)" "space_ok (sp\<lparr>is_tree := t\<rparr>) its fl claimed"
    and "is_names (sp\<lparr>is_tree := t\<rparr>) = is_names sp" "is_entry sp entry = Some e"
    and "ie_object e = object" "IE_BITS_TYPE (ie_bits e) = IE_BITS_TYPE b" "IE_BITS_UREFS (ie_bits e) = IE_BITS_UREFS b"
proof -
  obtain entry sp' e where l: "ipc_entry_lookup sp name = Some (Some entry, sp')" "space_ok sp' its fl claimed"
      "is_names sp' = is_names sp" "is_entry sp' entry = Some e" "ie_right e = Some (object, b, request)"
    using entry_lookup_spec [OF ok fast] names by (auto split: option.splits)
  obtain t where t: "sp' = sp\<lparr>is_tree := t\<rparr>" "ist_inv t" "ist_entries t = ist_entries (is_tree sp)"
    using lookup_tree [OF ok l(1)] .
  have "is_entry sp entry = Some e" using l(4) t by (cases entry) simp_all
  moreover have "ie_object e = object" "b = ie_bits e AND IE_BITS_RIGHT_MASK"
    using l(5) by (auto simp: ie_right_def split: if_splits)
  ultimately show thesis
    using l t by (intro that [of entry t e]) (simp_all add: right_mask_fields)
qed

lemma header_lookup_spec:
  assumes sp: "ks_spaces s space = Some sp" and ok: "space_ok sp its fl claimed"
    and names: "is_names sp name = Some (object, b, request)"
    and fast: "is_fast sp \<longrightarrow> name_index name < is_table_size sp"
  obtains entry e t where "ipc_kmsg_lookup space name s = Some (Some entry, put_space space (sp\<lparr>is_tree := t\<rparr>) s)"
    and "ist_inv t" "ist_entries t = ist_entries (is_tree sp)" "space_ok (sp\<lparr>is_tree := t\<rparr>) its fl claimed"
    and "is_names (sp\<lparr>is_tree := t\<rparr>) = is_names sp" "is_entry sp entry = Some e"
    and "ie_object e = object" "IE_BITS_TYPE (ie_bits e) = IE_BITS_TYPE b" "IE_BITS_UREFS (ie_bits e) = IE_BITS_UREFS b"
  by (rule entry_found [OF ok names fast]) (use sp that in \<open>auto simp: ipc_kmsg_lookup_def\<close>)

section \<open>Copyin of a request\<close>

text \<open>The two transfers that a request makes.\<close>

lemma copyin_copy_send:
  assumes sp: "ks_spaces s space = Some sp" "is_active sp" and e: "get_entry space entry s = Some e"
    and send: "IE_BITS_TYPE (ie_bits e) \<in> {MACH_PORT_TYPE_SEND, MACH_PORT_TYPE_SEND_RECEIVE}" "0 < IE_BITS_UREFS (ie_bits e)"
    and port: "ie_object e \<noteq> IP_NULL" "ks_ports s (ie_object e) = Some p" "io_active p" "0 < ip_srights p"
      "io_references p < IO_MAX_REFERENCES"
  shows "\<exists>s'. ipc_right_copyin space name entry MACH_MSG_TYPE_COPY_SEND deadok s = Some (Inr (ie_object e, IP_NULL), s') \<and>
    s' = s\<lparr>ks_ports := (ks_ports s)(ie_object e \<mapsto> p\<lparr>ip_srights := ip_srights p + 1, io_references := io_references p + 1\<rparr>)\<rparr>"
proof -
  have live: "has (ie_bits e) MACH_PORT_TYPE_SEND_RIGHTS" "\<not> has (ie_bits e) MACH_PORT_TYPE_DEAD_NAME"
      "has (ie_bits e) MACH_PORT_TYPE_SEND"
    using send(1) by (auto simp: has_type)
  have "ipc_right_check space (ie_object e) name entry s = Some (False, s)"
    using port sp e by (simp add: ipc_right_check_def)
  then have "ipc_right_copyin_source space name entry (ie_bits e) s = Some (Live_source (ie_object e), s)"
    using live send(2) port(1) e by (simp add: ipc_right_copyin_source_def)
  then show ?thesis using sp e live(3) port
    by (simp add: ipc_right_copyin_def ipc_right_copyin_copy_send_def upd_port_def ip_reference_def io_reference_def
        put_port_def)
qed

lemma copyin_make_sonce:
  assumes sp: "ks_spaces s space = Some sp" "is_active sp" and e: "get_entry space entry s = Some e"
    and recv: "IE_BITS_TYPE (ie_bits e) \<in> {MACH_PORT_TYPE_RECEIVE, MACH_PORT_TYPE_SEND_RECEIVE}"
    and port: "ie_object e \<noteq> IP_NULL" "ks_ports s (ie_object e) = Some p" "io_active p" "ip_receiver p = space"
      "io_receiver_name p = name" "io_references p < IO_MAX_REFERENCES"
  shows "ipc_right_copyin_check space name entry MACH_MSG_TYPE_MAKE_SEND_ONCE s = Some True"
    and "\<exists>s'. ipc_right_copyin space name entry MACH_MSG_TYPE_MAKE_SEND_ONCE deadok s = Some (Inr (ie_object e, IP_NULL), s') \<and>
    s' = s\<lparr>ks_ports := (ks_ports s)(ie_object e \<mapsto> p\<lparr>ip_sorights := ip_sorights p + 1, io_references := io_references p + 1\<rparr>)\<rparr>"
proof -
  have has: "has (ie_bits e) MACH_PORT_TYPE_RECEIVE" using recv by (auto simp: has_type)
  then show "ipc_right_copyin_check space name entry MACH_MSG_TYPE_MAKE_SEND_ONCE s = Some True"
    using sp e by (simp add: ipc_right_copyin_check_def)
  show "\<exists>s'. ipc_right_copyin space name entry MACH_MSG_TYPE_MAKE_SEND_ONCE deadok s = Some (Inr (ie_object e, IP_NULL), s') \<and>
    s' = s\<lparr>ks_ports := (ks_ports s)(ie_object e \<mapsto> p\<lparr>ip_sorights := ip_sorights p + 1, io_references := io_references p + 1\<rparr>)\<rparr>"
    using sp e has port
    by (simp add: ipc_right_copyin_def ipc_right_copyin_make_sonce_def ipc_right_copyin_receiver_def upd_port_def
        ip_reference_def io_reference_def put_port_def Let_def)
qed

text \<open>What a request needs: a send right for the destination and the receive right for the reply port.\<close>

definition request_rights ::
  "kernel \<Rightarrow> ipc_space_t \<Rightarrow> ipc_space \<Rightarrow> mach_msg_header \<Rightarrow> ipc_port_t \<Rightarrow> ipc_port \<Rightarrow> ipc_port_t \<Rightarrow> ipc_port \<Rightarrow> bool" where
  "request_rights s space sp msg dest p reply q \<longleftrightarrow>
     MACH_MSGH_BITS_REMOTE (msgh_bits msg) = 19 \<and> MACH_MSGH_BITS_LOCAL (msgh_bits msg) = 21 \<and>
     MACH_PORT_VALID (msgh_local_port msg) \<and> dest \<noteq> reply \<and> IO_VALID dest \<and> IO_VALID reply \<and>
     (is_fast sp \<longrightarrow> name_index (msgh_remote_port msg) < is_table_size sp \<and> name_index (msgh_local_port msg) < is_table_size sp) \<and>
     (\<exists>b n. is_names sp (msgh_remote_port msg) = Some (dest, b, n) \<and> 0 < IE_BITS_UREFS b \<and>
        IE_BITS_TYPE b \<in> {MACH_PORT_TYPE_SEND, MACH_PORT_TYPE_SEND_RECEIVE}) \<and>
     (\<exists>b n. is_names sp (msgh_local_port msg) = Some (reply, b, n) \<and>
        IE_BITS_TYPE b \<in> {MACH_PORT_TYPE_RECEIVE, MACH_PORT_TYPE_SEND_RECEIVE}) \<and>
     ks_ports s dest = Some p \<and> io_active p \<and> 0 < ip_srights p \<and> io_references p < IO_MAX_REFERENCES \<and>
     ks_ports s reply = Some q \<and> io_active q \<and> ip_receiver q = space \<and> io_receiver_name q = msgh_local_port msg \<and>
     io_references q < IO_MAX_REFERENCES - 1"

lemma copyin_request:
  assumes sp: "ks_spaces s space = Some sp" and ok: "space_ok sp its fl claimed"
    and rights: "request_rights s space sp msg dest p reply q"
  obtains s1 sp1 where "ipc_kmsg_copyin_header msg space 0 s =
      Some (MACH_MSG_SUCCESS, msg\<lparr>msgh_bits := MACH_MSGH_BITS_OTHER (bits_clear (msgh_bits msg) MACH_MSGH_BITS_CIRCULAR) OR 0x1211,
        msgh_remote_port := dest, msgh_local_port := reply\<rparr>, s1)"
    and "s1 = s\<lparr>ks_spaces := (ks_spaces s)(space \<mapsto> sp1),
      ks_ports := (ks_ports s)(dest \<mapsto> p\<lparr>ip_srights := ip_srights p + 1, io_references := io_references p + 1\<rparr>,
        reply \<mapsto> q\<lparr>ip_sorights := ip_sorights q + 1, io_references := io_references q + 1\<rparr>)\<rparr>"
    and "space_ok sp1 its fl claimed" "is_names sp1 = is_names sp"
proof -
  let ?d = "msgh_remote_port msg" and ?r = "msgh_local_port msg"
  obtain db dn rb rn where names: "is_names sp ?d = Some (dest, db, dn)" "is_names sp ?r = Some (reply, rb, rn)"
    and types: "0 < IE_BITS_UREFS db" "IE_BITS_TYPE db \<in> {MACH_PORT_TYPE_SEND, MACH_PORT_TYPE_SEND_RECEIVE}"
      "IE_BITS_TYPE rb \<in> {MACH_PORT_TYPE_RECEIVE, MACH_PORT_TYPE_SEND_RECEIVE}"
    and fast: "is_fast sp \<longrightarrow> name_index ?d < is_table_size sp" "is_fast sp \<longrightarrow> name_index ?r < is_table_size sp"
    using rights unfolding request_rights_def by blast
  obtain de e1 t1 where d: "ipc_kmsg_lookup space ?d s = Some (Some de, put_space space (sp\<lparr>is_tree := t1\<rparr>) s)"
      "ist_inv t1" "ist_entries t1 = ist_entries (is_tree sp)" "space_ok (sp\<lparr>is_tree := t1\<rparr>) its fl claimed"
      "is_names (sp\<lparr>is_tree := t1\<rparr>) = is_names sp" "is_entry sp de = Some e1" "ie_object e1 = dest"
      "IE_BITS_TYPE (ie_bits e1) = IE_BITS_TYPE db" "IE_BITS_UREFS (ie_bits e1) = IE_BITS_UREFS db"
    using header_lookup_spec [OF sp ok names(1) fast(1)] .
  let ?sp = "sp\<lparr>is_tree := t1\<rparr>"
  have sp2: "ks_spaces (put_space space ?sp s) space = Some ?sp" by simp
  have fast2: "is_fast ?sp \<longrightarrow> name_index ?r < is_table_size ?sp" using fast(2) by simp
  obtain re e2 t2 where r: "ipc_kmsg_lookup space ?r (put_space space ?sp s) =
        Some (Some re, put_space space (?sp\<lparr>is_tree := t2\<rparr>) (put_space space ?sp s))"
      "ist_inv t2" "ist_entries t2 = ist_entries (is_tree ?sp)" "space_ok (?sp\<lparr>is_tree := t2\<rparr>) its fl claimed"
      "is_names (?sp\<lparr>is_tree := t2\<rparr>) = is_names ?sp" "is_entry ?sp re = Some e2" "ie_object e2 = reply"
      "IE_BITS_TYPE (ie_bits e2) = IE_BITS_TYPE rb" "IE_BITS_UREFS (ie_bits e2) = IE_BITS_UREFS rb"
    using header_lookup_spec [OF sp2 d(4) names(2) [folded d(5)] fast2] .
  define sp1 where "sp1 = sp\<lparr>is_tree := t2\<rparr>"
  define s2 where "s2 = put_space space sp1 s"
  have s2: "ks_spaces s2 space = Some sp1" "is_active sp1" "ks_ports s2 = ks_ports s"
    using r(4) by (simp_all add: s2_def sp1_def space_ok_def)
  have lookup2: "ipc_kmsg_lookup space ?r (put_space space ?sp s) = Some (Some re, s2)"
    using r(1) by (simp add: s2_def sp1_def)
  have e1: "get_entry space de s2 = Some e1"
    using d(3,6) r(3) by (cases de) (simp_all add: get_entry_def s2 sp1_def)
  have e2: "get_entry space re s2 = Some e2"
    using r(3,6) d(3) by (cases re) (simp_all add: get_entry_def s2 sp1_def)
  have facts: "MACH_PORT_VALID ?r" "dest \<noteq> reply" "IO_VALID dest" "IO_VALID reply"
      "ks_ports s dest = Some p" "io_active p" "0 < ip_srights p" "io_references p < IO_MAX_REFERENCES"
      "ks_ports s reply = Some q" "io_active q" "ip_receiver q = space" "io_receiver_name q = ?r"
      "io_references q < IO_MAX_REFERENCES"
    and bits: "MACH_MSGH_BITS_REMOTE (msgh_bits msg) = 19" "MACH_MSGH_BITS_LOCAL (msgh_bits msg) = 21"
    using rights unfolding request_rights_def by (auto simp: IO_MAX_REFERENCES_eq word_less_nat_alt)
  have ne: "?d \<noteq> ?r" using names facts(2) by auto
  then have ne': "de \<noteq> re" using e1 e2 d(7) r(7) facts(2) by auto
  define s3 where "s3 = s2\<lparr>ks_ports := (ks_ports s2)(dest \<mapsto>
    p\<lparr>ip_srights := ip_srights p + 1, io_references := io_references p + 1\<rparr>)\<rparr>"
  define s4 where "s4 = s3\<lparr>ks_ports := (ks_ports s3)(reply \<mapsto>
    q\<lparr>ip_sorights := ip_sorights q + 1, io_references := io_references q + 1\<rparr>)\<rparr>"
  have check: "ipc_right_copyin_check space ?r re MACH_MSG_TYPE_MAKE_SEND_ONCE s2 = Some True"
    using copyin_make_sonce(1) [OF s2(1,2) e2, of q ?r] r(7,8) types(3) facts(4,9-13)
    by (simp add: s2(3) IO_VALID_def)
  have c1: "ipc_right_copyin space ?d de MACH_MSG_TYPE_COPY_SEND False s2 = Some (Inr (dest, IP_NULL), s3)"
    using copyin_copy_send [OF s2(1,2) e1, of p ?d False] d(7-9) types(1,2) facts(3,5-8)
    by (simp add: s2(3) s3_def IO_VALID_def)
  have s3: "ks_spaces s3 space = Some sp1" "get_entry space re s3 = Some e2" "ks_ports s3 reply = Some q"
    using s2(1,3) e2 facts(2,9) by (simp_all add: get_entry_def s3_def)
  have c2: "ipc_right_copyin space ?r re MACH_MSG_TYPE_MAKE_SEND_ONCE True s3 = Some (Inr (reply, IP_NULL), s4)"
    using copyin_make_sonce(2) [OF s3(1) s2(2) s3(2), of q ?r True] r(7,8) types(3) facts(4,10-13) s3(3)
    by (simp add: s4_def IO_VALID_def)
  have "get_entry space de s4 = Some e1" "get_entry space re s4 = Some e2"
    using s2(1) e1 e2 by (simp_all add: get_entry_def s3_def s4_def)
  then have stay: "ipc_kmsg_defunct space ?r re s4 = Some s4" "ipc_kmsg_defunct space ?d de s4 = Some s4"
    using d(8) r(8) types(2,3) by (auto simp: ipc_kmsg_defunct_def)
  have "ipc_kmsg_copyin_both space ?d ?r MACH_MSG_TYPE_COPY_SEND (Some MACH_MSG_TYPE_MAKE_SEND_ONCE) s =
      Some (Inr (dest, IP_NULL, reply, IP_NULL), s4)"
    using d(1) lookup2 ne' check c1 c2 facts(3) stay by (simp add: ipc_kmsg_copyin_both_def)
  then have "ipc_kmsg_copyin_header msg space 0 s =
      Some (MACH_MSG_SUCCESS, msg\<lparr>msgh_bits := MACH_MSGH_BITS_OTHER (bits_clear (msgh_bits msg) MACH_MSGH_BITS_CIRCULAR) OR 0x1211,
        msgh_remote_port := dest, msgh_local_port := reply\<rparr>, s4)"
    using sp ok ne facts(1) bits
    by (simp add: ipc_kmsg_copyin_header_def header_bits MACH_MSG_TYPE_PORT_ANY_SEND_def ipc_kmsg_notify_port_def
        mach_msg_type_name_of_def mach_msg_type_number_def MACH_MSGH_BITS_def space_ok_def Let_def)
  then show thesis
    using r(4,5) d(5) facts(2) by (intro that [of s4 sp1]) (simp_all add: s2_def s3_def s4_def sp1_def put_space_def)
qed

section \<open>Copyout of a request\<close>

text \<open>A fresh entry for a send-once right: the object first, the bits later.\<close>

lemma fresh_sonce:
  assumes ok: "space_ok sp its (i # fl) claimed"
  obtains name sp1 sp2 sp3 e where "ipc_entry_get sp = Some (Inr (name, Table_entry i), sp1)" "MACH_PORT_VALID name"
    "is_names sp name = None"
    and "is_entry sp1 (Table_entry i) = Some e" "ie_object e = IO_NULL" "IE_BITS_TYPE (ie_bits e) = 0"
    and "is_entry_upd (Table_entry i) (ie_object_update (\<lambda>_. object)) sp1 = Some sp2"
      "is_entry sp2 (Table_entry i) = Some (e\<lparr>ie_object := object\<rparr>)"
    and "is_entry_upd (Table_entry i) (ie_bits_update (\<lambda>_. ie_bits e OR (MACH_PORT_TYPE_SEND_ONCE OR 1))) sp2 = Some sp3"
      "space_ok sp3 its fl claimed" "is_active sp1"
      "is_names sp3 = (is_names sp)(name \<mapsto> (object, MACH_PORT_TYPE_SEND_ONCE OR 1, 0))"
proof -
  let ?type = "MACH_PORT_TYPE_SEND_ONCE OR 1 :: u32"
  define gen where "gen = IE_BITS_NEW_GEN (ie_bits (is_table sp ! i))"
  define name where "name = MACH_PORT_MAKE (of_nat i) gen"
  note g = get_spec [OF ok, folded gen_def, folded name_def]
  obtain sp1 where get: "ipc_entry_get sp = Some (Inr (name, Table_entry i), sp1)"
    and sp1: "space_ok sp1 its fl (insert (Table_entry i) claimed)" "is_names sp1 = is_names sp"
    "is_table sp1 ! i = (is_table sp ! i)\<lparr>ie_bits := gen, ie_request := 0\<rparr>" "is_table_size sp1 = is_table_size sp"
    using g(1) by blast
  define e where "e = is_table sp1 ! i"
  note i = free_entry [OF ok, of i, simplified]
  have len: "length (is_table sp1) = is_table_size sp" using sp1(1,4) by (simp add: space_ok_def table_ok_def)
  have notin: "i \<notin> set fl" "Table_entry i \<notin> claimed"
    using ok by (auto simp: space_ok_def table_ok_def entry_list.fl_full_def entry_list.fl_ok_def)
  have gen: "IE_BITS_GEN gen = gen" by (simp add: gen_def)
  have e: "ie_bits e = gen" "ie_request e = 0" "ie_object e = IO_NULL" using sp1(3) i(3) by (simp_all add: e_def)
  have ent: "is_entry sp1 (Table_entry i) = Some e" using i(2) len by (simp add: e_def)
  have at: "entry_at sp1 fl name (Table_entry i)" using i(1,2) notin g(3,4) gen sp1(3,4) by (simp add: entry_at_def)
  have type: "?type AND IE_BITS_RIGHT_MASK = ?type" "IE_BITS_TYPE ?type \<noteq> 0" by (simp_all add: IE_BITS_TYPE_def)
  let ?f = "\<lambda>e :: ipc_entry. e\<lparr>ie_bits := ie_bits e OR ?type, ie_object := object\<rparr>"
  note r = fresh_right [OF gen type e(1,2) refl, of object]
  obtain sp3 where sp3: "is_entry_upd (Table_entry i) ?f sp1 = Some sp3" "space_ok sp3 its fl claimed"
      "is_names sp3 = (is_names sp)(name \<mapsto> (object, ?type, 0))"
    using implements_claimed [OF sp1(1) at ent r(1) notin(2)] r(2) sp1(2) by auto
  define sp2 where "sp2 = sp1\<lparr>is_table := (is_table sp1)[i := e\<lparr>ie_object := object\<rparr>]\<rparr>"
  have upd2: "is_entry_upd (Table_entry i) (ie_object_update (\<lambda>_. object)) sp1 = Some sp2"
    "is_entry sp2 (Table_entry i) = Some (e\<lparr>ie_object := object\<rparr>)"
    using i(2) len by (simp_all add: sp2_def e_def)
  have "is_entry_upd (Table_entry i) (ie_bits_update (\<lambda>_. ie_bits e OR ?type)) sp2 = is_entry_upd (Table_entry i) ?f sp1"
    using i(2) len by (cases "is_table sp1 ! i") (simp add: sp2_def e_def)
  moreover have "IE_BITS_TYPE (ie_bits e) = 0" "is_active sp1"
    using gen e(1) sp1(1) using or_right_fields(3) [of 0 gen] by (simp_all add: space_ok_def IE_BITS_TYPE_def)
  ultimately show thesis
    using get g(2,5) ent e upd2 sp3 by (intro that [of name sp1 e sp2 sp3]) (simp_all del: is_entry_upd.simps is_entry.simps)
qed

text \<open>The reply port gets a name in the receiving space.\<close>

lemma copyout_reply_sonce:
  assumes sp: "ks_spaces s space = Some sp" and ok: "space_ok sp its (i # fl) claimed"
    and port: "ks_ports s reply = Some q" "io_active q" "io_otype q = IOT_PORT" "0 < ip_sorights q" "IO_VALID reply"
      "io_references q < IO_MAX_REFERENCES"
  obtains name sp1 sp2 where "ipc_kmsg_copyout_reply space reply MACH_MSG_TYPE_PORT_SEND_ONCE 0 s =
      Some (Inr (Some (name, Table_entry i, IP_NULL)), put_space space sp1 s)"
    and "ipc_right_copyout space name (Table_entry i) MACH_MSG_TYPE_PORT_SEND_ONCE True reply
        (put_port reply (q\<lparr>io_references := io_references q + 1\<rparr>) (put_space space sp1 s)) =
      Some (KERN_SUCCESS, put_space space sp2 (put_port reply (q\<lparr>io_references := io_references q + 1\<rparr>) (put_space space sp1 s)))"
    and "MACH_PORT_VALID name" "is_names sp name = None" "space_ok sp2 its fl claimed"
      "is_names sp2 = (is_names sp)(name \<mapsto> (reply, MACH_PORT_TYPE_SEND_ONCE OR 1, 0))"
proof -
  obtain name sp1 sp2 sp3 e where f: "ipc_entry_get sp = Some (Inr (name, Table_entry i), sp1)" "MACH_PORT_VALID name"
      "is_names sp name = None" "is_entry sp1 (Table_entry i) = Some e" "ie_object e = IO_NULL" "IE_BITS_TYPE (ie_bits e) = 0"
      "is_entry_upd (Table_entry i) (ie_object_update (\<lambda>_. reply)) sp1 = Some sp2"
      "is_entry sp2 (Table_entry i) = Some (e\<lparr>ie_object := reply\<rparr>)"
      "is_entry_upd (Table_entry i) (ie_bits_update (\<lambda>_. ie_bits e OR (MACH_PORT_TYPE_SEND_ONCE OR 1))) sp2 = Some sp3"
      "space_ok sp3 its fl claimed" "is_active sp1"
      "is_names sp3 = (is_names sp)(name \<mapsto> (reply, MACH_PORT_TYPE_SEND_ONCE OR 1, 0))"
    using fresh_sonce [OF ok, of reply] .
  have act: "is_active sp" using ok by (simp add: space_ok_def)
  note lazy = is_entry_upd.simps is_entry.simps
  have "ipc_kmsg_copyout_reply space reply MACH_MSG_TYPE_PORT_SEND_ONCE 0 s =
      Some (Inr (Some (name, Table_entry i, IP_NULL)), put_space space sp2 s)"
    by (subst ipc_kmsg_copyout_reply.simps)
      (simp add: sp act port f get_entry_def upd_entry_def del: lazy)
  moreover have "ipc_right_copyout space name (Table_entry i) MACH_MSG_TYPE_PORT_SEND_ONCE True reply
        (put_port reply (q\<lparr>io_references := io_references q + 1\<rparr>) (put_space space sp2 s)) =
      Some (KERN_SUCCESS, put_space space sp3 (put_port reply (q\<lparr>io_references := io_references q + 1\<rparr>) (put_space space sp2 s)))"
    using port(2-5) f(6,8,9)
    by (simp add: ipc_right_copyout_def ipc_right_copyout_sonce_def get_entry_def upd_entry_def io_active_def io_otype_def
        put_port_def put_space_def del: lazy)
  ultimately show thesis using f(2,3,10,12) that by blast
qed

lemma copyout_request:
  assumes sp: "ks_spaces s space = Some sp" and ok: "space_ok sp its (i # fl) claimed" and ne: "dest \<noteq> reply"
    and q: "ks_ports s reply = Some q" "io_active q" "io_otype q = IOT_PORT" "0 < ip_sorights q" "IO_VALID reply"
      "0 < io_references q" "io_references q < IO_MAX_REFERENCES"
    and p: "ks_ports s dest = Some p" "io_active p" "IO_VALID dest" "1 < ip_srights p" "1 < io_references p"
      "io_references p \<le> IO_MAX_REFERENCES" "ip_receiver p = space"
    and msg: "msgh_bits msg = MACH_MSGH_BITS_OTHER bits OR 0x1211" "msgh_remote_port msg = dest" "msgh_local_port msg = reply"
  obtains name sp2 s2 where "ipc_kmsg_copyout_header msg space 0 s = Some (MACH_MSG_SUCCESS,
      msg\<lparr>msgh_bits := MACH_MSGH_BITS_OTHER bits OR 0x1112, msgh_remote_port := name, msgh_local_port := io_receiver_name p\<rparr>, s2)"
    and "s2 = s\<lparr>ks_spaces := (ks_spaces s)(space \<mapsto> sp2), ks_ports := (ks_ports s)
      (dest \<mapsto> p\<lparr>io_references := io_references p - 1, ip_srights := ip_srights p - 1\<rparr>)\<rparr>"
    and "MACH_PORT_VALID name" "is_names sp name = None" "space_ok sp2 its fl claimed"
      "is_names sp2 = (is_names sp)(name \<mapsto> (reply, MACH_PORT_TYPE_SEND_ONCE OR 1, 0))"
proof -
  obtain name sp1 sp2 where c: "ipc_kmsg_copyout_reply space reply MACH_MSG_TYPE_PORT_SEND_ONCE 0 s =
      Some (Inr (Some (name, Table_entry i, IP_NULL)), put_space space sp1 s)"
    "ipc_right_copyout space name (Table_entry i) MACH_MSG_TYPE_PORT_SEND_ONCE True reply
        (put_port reply (q\<lparr>io_references := io_references q + 1\<rparr>) (put_space space sp1 s)) =
      Some (KERN_SUCCESS, put_space space sp2 (put_port reply (q\<lparr>io_references := io_references q + 1\<rparr>) (put_space space sp1 s)))"
    "MACH_PORT_VALID name" "is_names sp name = None" "space_ok sp2 its fl claimed"
    "is_names sp2 = (is_names sp)(name \<mapsto> (reply, MACH_PORT_TYPE_SEND_ONCE OR 1, 0))"
    using copyout_reply_sonce [OF sp ok q(1-5,7)] .
  define s1 where "s1 = put_space space sp2 (put_port reply (q\<lparr>io_references := io_references q + 1\<rparr>) (put_space space sp1 s))"
  define s2 where "s2 = s\<lparr>ks_spaces := (ks_spaces s)(space \<mapsto> sp2), ks_ports := (ks_ports s)
      (dest \<mapsto> p\<lparr>io_references := io_references p - 1, ip_srights := ip_srights p - 1\<rparr>)\<rparr>"
  let ?p1 = "p\<lparr>io_references := io_references p - 1\<rparr>"
  let ?s = "s1\<lparr>ks_ports := (ks_ports s1)(dest \<mapsto> p\<lparr>io_references := io_references p - 1, ip_srights := ip_srights p - 1\<rparr>)\<rparr>"
  have s1: "ks_ports s1 = (ks_ports s)(reply \<mapsto> q\<lparr>io_references := io_references q + 1\<rparr>)"
    by (simp add: s1_def put_port_def put_space_def)
  have refs: "0 < io_references p" "io_references q + 1 \<le> IO_MAX_REFERENCES" "0 < io_references q + 1"
      "0 < ip_srights p" "ip_srights p - 1 \<noteq> 0" "io_references q + 1 \<noteq> 1"
    using p(4,5) q(6,7) by (auto simp: IO_MAX_REFERENCES_eq word_less_nat_alt word_le_nat_alt unat_word_ariths)
  have dest: "ipc_object_copyout_dest space dest MACH_MSG_TYPE_PORT_SEND s1 = Some (io_receiver_name p, ?s)"
    using p ne refs s1 by (simp add: ipc_object_copyout_dest_def ip_release_def io_release_def ipc_port_drop_send_def put_port_def io_active_def)
  have "ipc_port_release reply ?s = Some (?s\<lparr>ks_ports := (ks_ports ?s)(reply \<mapsto> q)\<rparr>)"
    using port_release_eq [of ?s reply "q\<lparr>io_references := io_references q + 1\<rparr>"] refs ne s1 by simp
  moreover have "?s\<lparr>ks_ports := (ks_ports ?s)(reply \<mapsto> q)\<rparr> = s2"
    using ne q(1) by (simp add: s2_def s1_def put_port_def put_space_def fun_upd_twist fun_upd_idem)
  ultimately have name: "ipc_kmsg_copyout_dest_name space dest MACH_MSG_TYPE_PORT_SEND reply s1 = Some (io_receiver_name p, s2)"
    using p(1,2) ne q(5) s1 dest by (simp add: ipc_kmsg_copyout_dest_name_def)
  have "ip_reference reply (put_space space sp1 s) =
      Some (put_port reply (q\<lparr>io_references := io_references q + 1\<rparr>) (put_space space sp1 s))"
    using q(1,7) by (simp add: ip_reference_def io_reference_def)
  then have "ipc_kmsg_copyout_header msg space 0 s = Some (MACH_MSG_SUCCESS,
      msg\<lparr>msgh_bits := MACH_MSGH_BITS_OTHER bits OR 0x1112, msgh_remote_port := name, msgh_local_port := io_receiver_name p\<rparr>, s2)"
    using c(1,2) q(5) p(3) name
    by (simp add: ipc_kmsg_copyout_header_def msg header_bits mach_msg_type_name_of_def MACH_MSGH_BITS_def s1_def [symmetric])
  then show thesis using that c(3-6) s2_def by blast
qed

section \<open>Properties\<close>

text \<open>C12: A request arrives. A task sends a message with a copy of its send right as the destination and
  a new send-once right for its reply port; the owner of the destination receives it. The header goes through
  \<open>ipc_kmsg_copyin_header\<close>, which replaces the names by the ports, and \<open>ipc_kmsg_copyout_header\<close>, which
  replaces the ports by names of the receiver. Both succeed. The receiver sees, with the two halves of
  the header exchanged, a fresh valid name for a send-once right to the reply port, and its own name for the
  destination. Afterwards no right has got lost or multiplied: the sender has the same names and rights,
  the receiver one more, the reply port counts one send-once right and one reference more, and the
  destination counts what it did before. No notification is sent.\<close>

theorem request_delivered:
  assumes "ks_spaces s space = Some sp" and "space_ok sp its fl claimed"
    and "request_rights s space sp msg dest p reply q"
    and "ks_spaces s rspace = Some rsp" and "space_ok rsp rits (i # rfl) rclaimed" and "rspace \<noteq> space"
    and "ip_receiver p = rspace" and "0 < io_references p" and "ip_srights p < 0xffffffff"
    and "io_otype q = IOT_PORT" and "ip_sorights q < 0xffffffff"
  shows "\<exists>msg1 s1 name s2 sp' rsp'.
    ipc_kmsg_copyin_header msg space 0 s = Some (MACH_MSG_SUCCESS, msg1, s1) \<and>
    msgh_remote_port msg1 = dest \<and> msgh_local_port msg1 = reply \<and>
    ipc_kmsg_copyout_header msg1 rspace 0 s1 = Some (MACH_MSG_SUCCESS,
      msg\<lparr>msgh_bits := MACH_MSGH_BITS_OTHER (bits_clear (msgh_bits msg) MACH_MSGH_BITS_CIRCULAR) OR 0x1112,
       msgh_remote_port := name, msgh_local_port := io_receiver_name p\<rparr>, s2) \<and>
    ks_spaces s2 = (ks_spaces s)(space \<mapsto> sp', rspace \<mapsto> rsp') \<and>
    space_ok sp' its fl claimed \<and> is_names sp' = is_names sp \<and>
    MACH_PORT_VALID name \<and> is_names rsp name = None \<and> space_ok rsp' rits rfl rclaimed \<and>
    is_names rsp' = (is_names rsp)(name \<mapsto> (reply, MACH_PORT_TYPE_SEND_ONCE OR 1, 0)) \<and>
    ks_ports s2 = (ks_ports s)(reply \<mapsto> q\<lparr>ip_sorights := ip_sorights q + 1, io_references := io_references q + 1\<rparr>) \<and>
    ks_events s2 = ks_events s"
proof -
  let ?bits = "bits_clear (msgh_bits msg) MACH_MSGH_BITS_CIRCULAR"
  let ?p = "p\<lparr>ip_srights := ip_srights p + 1, io_references := io_references p + 1\<rparr>"
  let ?q = "q\<lparr>ip_sorights := ip_sorights q + 1, io_references := io_references q + 1\<rparr>"
  let ?msg1 = "msg\<lparr>msgh_bits := MACH_MSGH_BITS_OTHER ?bits OR 0x1211, msgh_remote_port := dest, msgh_local_port := reply\<rparr>"
  obtain s1 sp1 where c: "ipc_kmsg_copyin_header msg space 0 s = Some (MACH_MSG_SUCCESS, ?msg1, s1)"
      "s1 = s\<lparr>ks_spaces := (ks_spaces s)(space \<mapsto> sp1), ks_ports := (ks_ports s)(dest \<mapsto> ?p, reply \<mapsto> ?q)\<rparr>"
      "space_ok sp1 its fl claimed" "is_names sp1 = is_names sp"
    using copyin_request [OF assms(1-3)] .
  have facts: "dest \<noteq> reply" "IO_VALID dest" "IO_VALID reply" "ks_ports s dest = Some p" "io_active p" "0 < ip_srights p"
      "io_references p < IO_MAX_REFERENCES" "ks_ports s reply = Some q" "io_active q" "io_references q < IO_MAX_REFERENCES - 1"
    using assms(3) unfolding request_rights_def by blast+
  have g: "ks_spaces s1 rspace = Some rsp" "ks_ports s1 reply = Some ?q" "ks_ports s1 dest = Some ?p"
    using c(2) assms(4,6) facts(1) by simp_all
  have a: "io_active ?q" "io_otype ?q = IOT_PORT" "io_active ?p" "ip_receiver ?p = rspace"
    using facts(5,9) assms(7,10) by (simp_all add: io_active_def io_otype_def)
  have n: "0 < ip_sorights ?q" "0 < io_references ?q" "io_references ?q < IO_MAX_REFERENCES" "1 < ip_srights ?p"
      "1 < io_references ?p" "io_references ?p \<le> IO_MAX_REFERENCES"
    using facts(6,7,10) assms(8,9,11)
    by (simp_all add: IO_MAX_REFERENCES_eq word_less_nat_alt word_le_nat_alt unat_word_ariths)
  have m: "msgh_bits ?msg1 = MACH_MSGH_BITS_OTHER ?bits OR 0x1211" "msgh_remote_port ?msg1 = dest" "msgh_local_port ?msg1 = reply"
    by simp_all
  obtain name sp2 s2 where r: "ipc_kmsg_copyout_header ?msg1 rspace 0 s1 =
      Some (MACH_MSG_SUCCESS, ?msg1\<lparr>msgh_bits := MACH_MSGH_BITS_OTHER ?bits OR 0x1112, msgh_remote_port := name,
        msgh_local_port := io_receiver_name ?p\<rparr>, s2)"
      "s2 = s1\<lparr>ks_spaces := (ks_spaces s1)(rspace \<mapsto> sp2), ks_ports := (ks_ports s1)
        (dest \<mapsto> ?p\<lparr>io_references := io_references ?p - 1, ip_srights := ip_srights ?p - 1\<rparr>)\<rparr>"
      "MACH_PORT_VALID name" "is_names rsp name = None" "space_ok sp2 rits rfl rclaimed"
      "is_names sp2 = (is_names rsp)(name \<mapsto> (reply, MACH_PORT_TYPE_SEND_ONCE OR 1, 0))"
    using copyout_request [OF g(1) assms(5) facts(1) g(2) a(1,2) n(1) facts(3) n(2,3) g(3) a(3) facts(2) n(4-6) a(4) m] .
  have "?p\<lparr>io_references := io_references ?p - 1, ip_srights := ip_srights ?p - 1\<rparr> = p" by (cases p) simp
  then have "ks_ports s2 = (ks_ports s)(reply \<mapsto> ?q)"
    using r(2) c(2) facts(1,4) by (simp add: fun_upd_twist fun_upd_idem)
  moreover have "ks_spaces s2 = (ks_spaces s)(space \<mapsto> sp1, rspace \<mapsto> sp2)" "ks_events s2 = ks_events s"
    using r(2) c(2) by simp_all
  ultimately show ?thesis using c(1,3,4) r(1,3-6) by fastforce
qed

text \<open>The witness: the space 0x3000 has a send right 0x104 for the port 0x40 of the space 0x6000, and the
  receive right 0x208.\<close>

definition client_space :: ipc_space where
  "client_space = \<lparr>is_references = 1, is_active = True, is_growing = False,
     is_table = [\<lparr>ie_object = 0, ie_bits = 0, ie_request = 3, ie_index = 0\<rparr>,
                 \<lparr>ie_object = 0x40, ie_bits = 0x04010001, ie_request = 0, ie_index = 0\<rparr>,
                 \<lparr>ie_object = 0x80, ie_bits = 0x08020000, ie_request = 0, ie_index = 0\<rparr>,
                 \<lparr>ie_object = 0, ie_bits = 0xff000000, ie_request = 0, ie_index = 0\<rparr>],
     is_table_size = 4, is_table_next = 1, is_tree = is_tree sample_space,
     is_tree_total = 0, is_tree_small = 0, is_tree_hash = 0, is_fast = False\<rparr>"

definition client_kernel :: kernel where
  "client_kernel = port_kernel\<lparr>ks_spaces := [0x3000 \<mapsto> client_space, 0x6000 \<mapsto> sample_space],
     ks_ports := [0x40 \<mapsto> port_sample\<lparr>ip_data := 0x6000\<rparr>, 0x80 \<mapsto> port_sample\<lparr>io_receiver_name := 0x208\<rparr>]\<rparr>"

lemma client_space_ok: "space_ok client_space 8 [3] {}"
proof -
  have none: "ist_entries (is_tree client_space) = []" by (simp add: client_space_def sample_space_def ist_entries_def)
  then have indices: "tree_indices client_space = {}" by simp
  have "entry_list.fl_full (is_table client_space) [3] (claimed_table {})"
    unfolding entry_list.fl_full_def entry_list.fl_ok_def
    by (auto simp: client_space_def IE_BITS_TYPE_def less_4 less_Suc_eq_0_disj)
  then have "table_ok client_space [3] {}"
    unfolding table_ok_def indices by (auto simp: client_space_def IE_BITS_TYPE_def has_def less_4)
  moreover have "tree_ok client_space 8 {}"
    unfolding tree_ok_def ist_inv_def indices by (simp add: none) (simp add: client_space_def sample_space_def)
  ultimately show ?thesis by (simp add: space_ok_def client_space_def)
qed

lemma client_rights:
  "request_rights client_kernel 0x3000 client_space \<lparr>msgh_bits = 0x1513, msgh_size = 24, msgh_remote_port = 0x104, msgh_local_port = 0x208\<rparr>
     0x40 (port_sample\<lparr>ip_data := 0x6000\<rparr>) 0x80 (port_sample\<lparr>io_receiver_name := 0x208\<rparr>)"
  by (simp add: request_rights_def client_kernel_def client_space_def MACH_MSGH_BITS_REMOTE_def MACH_MSGH_BITS_LOCAL_def
      MACH_PORT_VALID_def IO_VALID_def is_names_def ie_right_def MACH_PORT_INDEX_def MACH_PORT_GEN_def IE_BITS_GEN_def
      IE_BITS_TYPE_def IE_BITS_UREFS_def port_sample_def io_active_def IO_MAX_REFERENCES_eq)

lemma request_delivered_witness:
  "\<exists>msg1 s1 name s2. ipc_kmsg_copyin_header \<lparr>msgh_bits = 0x1513, msgh_size = 24, msgh_remote_port = 0x104, msgh_local_port = 0x208\<rparr>
      0x3000 0 client_kernel = Some (MACH_MSG_SUCCESS, msg1, s1) \<and>
    ipc_kmsg_copyout_header msg1 0x6000 0 s1 =
      Some (MACH_MSG_SUCCESS, \<lparr>msgh_bits = 0x1112, msgh_size = 24, msgh_remote_port = name, msgh_local_port = 0x20f\<rparr>, s2) \<and>
    ks_ports s2 0x40 = Some (port_sample\<lparr>ip_data := 0x6000\<rparr>)"
proof -
  have sp: "ks_spaces client_kernel 0x3000 = Some client_space" "ks_spaces client_kernel 0x6000 = Some sample_space"
    and ports: "ks_ports client_kernel 0x40 = Some (port_sample\<lparr>ip_data := 0x6000\<rparr>)"
    by (simp_all add: client_kernel_def)
  have bits: "MACH_MSGH_BITS_OTHER (bits_clear 0x1513 MACH_MSGH_BITS_CIRCULAR) OR 0x1112 = 0x1112"
    by (simp add: MACH_MSGH_BITS_OTHER_def bits_clear_def)
  show ?thesis
    using request_delivered [OF sp(1) client_space_ok client_rights sp(2) sample_space_ok] ports bits
    by (fastforce simp: port_sample_def io_otype_def)
qed

definition collide_space :: ipc_space where
  "collide_space = \<lparr>is_references = 1, is_active = True, is_growing = False,
     is_table = [\<lparr>ie_object = 0, ie_bits = 0, ie_request = 2, ie_index = 0\<rparr>,
                 \<lparr>ie_object = 0x40, ie_bits = 0x04840001, ie_request = 0, ie_index = 0\<rparr>,
                 \<lparr>ie_object = 0, ie_bits = 0xff000000, ie_request = 0, ie_index = 0\<rparr>],
     is_table_size = 3, is_table_next = 1,
     is_tree = \<lparr>ist_name = 0x108,
       ist_root = Node Leaf (0x108, \<lparr>ie_object = 0x80, ie_bits = 0x40001, ie_request = 0, ie_index = 0\<rparr>) Leaf,
       ist_ltree = [], ist_rtree = []\<rparr>,
     is_tree_total = 1, is_tree_small = 0, is_tree_hash = 0, is_fast = False\<rparr>"

definition collide_kernel :: kernel where
  "collide_kernel = port_kernel\<lparr>ks_spaces := [0x3000 \<mapsto> collide_space],
     ks_ports := [0x40 \<mapsto> port_sample\<lparr>ip_sorights := 1, ip_data := 0x9000\<rparr>,
                  0x80 \<mapsto> port_sample\<lparr>ip_sorights := 1, ip_data := 0x9000\<rparr>]\<rparr>"

lemma collide_tree:
  "tree_map collide_space n = (if n = 0x108 then Some \<lparr>ie_object = 0x80, ie_bits = 0x40001, ie_request = 0, ie_index = 0\<rparr> else None)"
  by (simp add: collide_space_def ist_entries_def)

lemma collide_space_ok: "space_ok collide_space 8 [2] {}"
proof -
  have dom: "dom (tree_map collide_space) = {0x108}" by (auto simp: collide_tree split: if_splits)
  then have indices: "tree_indices collide_space = {1}" by (simp add: MACH_PORT_INDEX_def)
  have less_3: "i < 3 \<longleftrightarrow> i = 0 \<or> i = 1 \<or> i = 2" for i :: nat by auto
  have "entry_list.fl_full (is_table collide_space) [2] (claimed_table {})"
    unfolding entry_list.fl_full_def entry_list.fl_ok_def
    by (auto simp: collide_space_def IE_BITS_TYPE_def less_3 less_Suc_eq_0_disj)
  then have "table_ok collide_space [2] {}"
    unfolding table_ok_def indices by (auto simp: collide_space_def IE_BITS_TYPE_def has_def less_3)
  moreover have "tree_ok collide_space 8 {}"
  proof -
    have "ist_inv (is_tree collide_space)"
      unfolding ist_inv_def by (simp add: collide_space_def ist_entries_def splayed_def)
    then show ?thesis
      unfolding tree_ok_def indices dom
      by (auto simp: collide_tree MACH_PORT_VALID_def IE_BITS_TYPE_def split: if_splits)
        (simp_all add: collide_space_def IE_BITS_GEN_def MACH_PORT_GEN_def MACH_PORT_INDEX_def has_def)
  qed
  ultimately show ?thesis by (simp add: space_ok_def collide_space_def)
qed


end
