(* ===== verification/Ipc_Kmsg_Body_Spec.thy ===== *)
theory Ipc_Kmsg_Body_Spec
  imports Ipc_Kmsg_Copyout Ipc_Kmsg_Spec
begin

text \<open>
  What holds of the bodies of messages: a refused body is rolled back, the scatter list is checked pair by pair, the
  kernel memory for physical copies is counted exactly up to a limit; and what sizes, counts and
  types from the user the code trusts without a check.
\<close>

section \<open>Rights that a message takes along\<close>

text \<open>The ports when a message holds send rights for the ports \<open>xs\<close>, beyond those in \<open>P\<close>.\<close>

definition more_sends :: "(ipc_port_t \<Rightarrow> ipc_port option) \<Rightarrow> ipc_port_t list \<Rightarrow> ipc_port_t \<Rightarrow> ipc_port option" where
  "more_sends P xs a = map_option (\<lambda>p. p\<lparr>ip_srights := ip_srights p + of_nat (count_list xs a),
     io_references := io_references p + of_nat (count_list xs a)\<rparr>) (P a)"

lemma more_sends_Nil [simp]: "more_sends P [] = P"
  by (auto simp: more_sends_def fun_eq_iff map_option_case split: option.splits)

lemma more_sends_add:
  assumes "P a = Some p"
  shows "more_sends P (xs @ [a]) = (more_sends P xs)(a \<mapsto>
      (the (more_sends P xs a))\<lparr>ip_srights := ip_srights (the (more_sends P xs a)) + 1,
        io_references := io_references (the (more_sends P xs a)) + 1\<rparr>)"
  using assms by (auto simp: more_sends_def fun_eq_iff)

lemma more_sends_drop:
  assumes "P a = Some p"
  shows "more_sends P xs = (more_sends P (a # xs))(a \<mapsto>
      (the (more_sends P (a # xs) a))\<lparr>io_references := io_references (the (more_sends P (a # xs) a)) - 1,
        ip_srights := ip_srights (the (more_sends P (a # xs) a)) - 1\<rparr>)"
  using assms by (auto simp: more_sends_def fun_eq_iff)

text \<open>A port that can take \<open>n\<close> more rights without an overflow.\<close>

definition room_for :: "nat \<Rightarrow> ipc_port \<Rightarrow> bool" where
  "room_for n p \<longleftrightarrow> io_active p \<and> io_otype p = IOT_PORT \<and> 0 < ip_srights p \<and> 0 < io_references p \<and>
     unat (ip_srights p) + n < 2 ^ 32 \<and> unat (io_references p) + n < unat IO_MAX_REFERENCES"

lemma release_more:
  assumes P: "P a = Some p" "room_for n p" and valid: "IO_VALID a" and n: "count_list (a # xs) a \<le> n"
    and ports: "ks_ports s = more_sends P (a # xs)"
  shows "ipc_kmsg_destroy_right a 17 s = Some (s\<lparr>ks_ports := more_sends P xs\<rparr>)"
proof -
  let ?k = "count_list xs a"
  obtain q where q: "more_sends P (a # xs) a = Some q" and q_eq: "q = p\<lparr>ip_srights := ip_srights p + of_nat (?k + 1),
      io_references := io_references p + of_nat (?k + 1)\<rparr>"
    using P(1) by (simp add: more_sends_def)
  have "unat (io_references q) = unat (io_references p) + ?k + 1" "unat (ip_srights q) = unat (ip_srights p) + ?k + 1"
    using P(2) n unfolding q_eq room_for_def by (simp_all add: unat_word_ariths unat_of_nat IO_MAX_REFERENCES_eq)
  moreover have "0 < unat (ip_srights p)" "0 < unat (io_references p)" using P(2) by (simp_all add: room_for_def word_less_nat_alt)
  ultimately have u: "2 \<le> unat (ip_srights q)" "0 < unat (io_references q)" "unat (io_references q) \<le> unat IO_MAX_REFERENCES"
    using P(2) n by (simp_all add: room_for_def)
  have "ip_srights q \<noteq> 1" using u(1) by (metis Suc_1 not_less_eq_eq order_refl unat_1)
  then have c: "0 < io_references q" "io_references q \<le> IO_MAX_REFERENCES" "0 < ip_srights q" "ip_srights q - 1 \<noteq> 0"
    using u by (simp_all add: word_less_nat_alt word_le_nat_alt)
  have act: "io_active q" "io_otype q = IOT_PORT" using P(2) unfolding q_eq by (simp_all add: room_for_def io_active_def io_otype_def)
  have s: "ks_ports s a = Some q" using ports q by simp
  have rel: "ipc_port_release_send a s = Some (put_port a (q\<lparr>io_references := io_references q - 1,
      ip_srights := ip_srights q - 1\<rparr>) s)"
    using valid s c act
    by (simp add: ipc_port_release_send_def ip_release_def io_release_def ipc_port_drop_send_def io_active_def put_port_def Let_def)
  have "(ks_ports s)(a \<mapsto> q\<lparr>io_references := io_references q - 1, ip_srights := ip_srights q - 1\<rparr>) = more_sends P xs"
    using more_sends_drop [of P a p xs, OF P(1)] by (simp add: q ports)
  then show ?thesis
    using valid act rel s
    by (simp add: ipc_kmsg_destroy_right_def mach_msg_type_name_of_def ipc_object_destroy_def put_port_def)
qed

text \<open>A name of a space that stands for a send right on a live port, with room for \<open>n\<close> more of them.\<close>

definition send_name ::
  "ipc_space \<Rightarrow> (ipc_port_t \<Rightarrow> ipc_port option) \<Rightarrow> nat \<Rightarrow> mach_port_name_t \<times> ipc_port_t \<Rightarrow> bool" where
  "send_name sp P n = (\<lambda>(name, object). MACH_PORT_VALID name \<and> IO_VALID object \<and>
     (is_fast sp \<longrightarrow> name_index name < is_table_size sp) \<and> (\<exists>p. P object = Some p \<and> room_for n p) \<and>
     (\<exists>b request. is_names sp name = Some (object, b, request) \<and>
        IE_BITS_TYPE b \<in> {MACH_PORT_TYPE_SEND, MACH_PORT_TYPE_SEND_RECEIVE} \<and> 0 < IE_BITS_UREFS b))"

lemma send_name_entry:
  assumes sp: "ks_spaces s space = Some sp" "is_active sp" and ok: "space_ok sp its fl claimed"
    and name: "send_name sp P n (name, a)" and ports: "ks_ports s = more_sends P xs" and room: "count_list xs a < n"
  obtains entry e t s1 s2 where "ipc_entry_lookup sp name = Some (Some entry, sp\<lparr>is_tree := t\<rparr>)"
    "space_ok (sp\<lparr>is_tree := t\<rparr>) its fl claimed" "is_names (sp\<lparr>is_tree := t\<rparr>) = is_names sp"
    "s1 = put_space space (sp\<lparr>is_tree := t\<rparr>) s" "s2 = s1\<lparr>ks_ports := more_sends P (xs @ [a])\<rparr>"
    "\<And>deadok. ipc_right_copyin space name entry MACH_MSG_TYPE_COPY_SEND deadok s1 = Some (Inr (a, IP_NULL), s2)"
    "get_entry space entry s2 = Some e" "IE_BITS_TYPE (ie_bits e) \<in> {MACH_PORT_TYPE_SEND, MACH_PORT_TYPE_SEND_RECEIVE}"
proof -
  obtain p b request where p: "P a = Some p" "room_for n p" and fast: "is_fast sp \<longrightarrow> name_index name < is_table_size sp"
      and b: "is_names sp name = Some (a, b, request)" "IE_BITS_TYPE b \<in> {MACH_PORT_TYPE_SEND, MACH_PORT_TYPE_SEND_RECEIVE}"
      "0 < IE_BITS_UREFS b" and valid: "IO_VALID a"
    using name by (auto simp: send_name_def)
  obtain entry e t where d: "ipc_entry_lookup sp name = Some (Some entry, sp\<lparr>is_tree := t\<rparr>)"
      "ist_inv t" "ist_entries t = ist_entries (is_tree sp)" "space_ok (sp\<lparr>is_tree := t\<rparr>) its fl claimed"
      "is_names (sp\<lparr>is_tree := t\<rparr>) = is_names sp" "is_entry sp entry = Some e"
      "ie_object e = a" "IE_BITS_TYPE (ie_bits e) = IE_BITS_TYPE b" "IE_BITS_UREFS (ie_bits e) = IE_BITS_UREFS b"
    using entry_found [OF ok b(1) fast] .
  define s1 where "s1 = put_space space (sp\<lparr>is_tree := t\<rparr>) s"
  obtain q where q: "more_sends P xs a = Some q" and q_eq: "q = p\<lparr>ip_srights := ip_srights p + of_nat (count_list xs a),
      io_references := io_references p + of_nat (count_list xs a)\<rparr>"
    using p(1) by (simp add: more_sends_def)
  have "unat (io_references q) = unat (io_references p) + count_list xs a" "unat (ip_srights q) = unat (ip_srights p) + count_list xs a"
    using p(2) room unfolding q_eq room_for_def by (simp_all add: unat_word_ariths unat_of_nat IO_MAX_REFERENCES_eq)
  then have u: "0 < ip_srights q" "io_references q < IO_MAX_REFERENCES"
    using p(2) room by (simp_all add: room_for_def word_less_nat_alt)
  have act: "io_active q" using p(2) unfolding q_eq by (simp add: room_for_def io_active_def)
  have e1: "get_entry space entry s1 = Some e" using d(3,6) by (cases entry) (simp_all add: s1_def get_entry_def put_space_def)
  have e2: "get_entry space entry (s1\<lparr>ks_ports := h\<rparr>) = Some e" for h using e1 by (simp add: get_entry_def)
  have "more_sends P (xs @ [a]) = (more_sends P xs)(a \<mapsto> q\<lparr>ip_srights := ip_srights q + 1, io_references := io_references q + 1\<rparr>)"
    using more_sends_add [of P a p xs, OF p(1)] by (simp add: q)
  then have "ipc_right_copyin space name entry MACH_MSG_TYPE_COPY_SEND deadok s1 = Some (Inr (a, IP_NULL),
      s1\<lparr>ks_ports := more_sends P (xs @ [a])\<rparr>)" for deadok
    using copyin_copy_send [where s = s1 and space = space and entry = entry and e = e and p = q and sp = "sp\<lparr>is_tree := t\<rparr>"]
      e1 d(7-9) b(2,3) sp q act u valid by (simp add: s1_def put_space_def ports IO_VALID_def)
  then show thesis using that [OF d(1,4,5) s1_def refl] e2 d(8) b(2) by simp
qed

lemma copyin_more:
  assumes sp: "ks_spaces s space = Some sp" "is_active sp" and ok: "space_ok sp its fl claimed"
    and name: "send_name sp P n (name, a)" and ports: "ks_ports s = more_sends P xs" and room: "count_list xs a < n"
  obtains t where "ipc_kmsg_copyin_right space name 19 s =
      Some (Inr a, put_space space (sp\<lparr>is_tree := t\<rparr>) s\<lparr>ks_ports := more_sends P (xs @ [a])\<rparr>)"
    "space_ok (sp\<lparr>is_tree := t\<rparr>) its fl claimed" "is_names (sp\<lparr>is_tree := t\<rparr>) = is_names sp"
  by (rule send_name_entry [OF assms])
    (use sp that in \<open>auto simp: ipc_kmsg_copyin_right_def mach_msg_type_name_of_def ipc_object_copyin_def
        ipc_right_lookup_write_def\<close>)

text \<open>The header of a message without a reply port.\<close>

lemma copyin_notice:
  assumes sp: "ks_spaces s space = Some sp" and ok: "space_ok sp its fl claimed"
    and bits: "MACH_MSGH_BITS_REMOTE (msgh_bits msg) = 19" "MACH_MSGH_BITS_LOCAL (msgh_bits msg) = 0" "msgh_local_port msg = 0"
    and name: "send_name sp (ks_ports s) n (msgh_remote_port msg, dest)" "0 < n"
  obtains t where "ipc_kmsg_copyin_header msg space 0 s = Some (MACH_MSG_SUCCESS,
      msg\<lparr>msgh_bits := MACH_MSGH_BITS_OTHER (bits_clear (msgh_bits msg) MACH_MSGH_BITS_CIRCULAR) OR 17, msgh_remote_port := dest\<rparr>,
      put_space space (sp\<lparr>is_tree := t\<rparr>) s\<lparr>ks_ports := more_sends (ks_ports s) [dest]\<rparr>)"
    "space_ok (sp\<lparr>is_tree := t\<rparr>) its fl claimed" "is_names (sp\<lparr>is_tree := t\<rparr>) = is_names sp"
proof -
  let ?d = "msgh_remote_port msg"
  have act: "is_active sp" using ok by (simp add: space_ok_def)
  have h: "ks_ports s = more_sends (ks_ports s) []" "count_list [] dest < n" using name(2) by simp_all
  obtain entry e t s1 s2 where d: "ipc_entry_lookup sp ?d = Some (Some entry, sp\<lparr>is_tree := t\<rparr>)"
    "space_ok (sp\<lparr>is_tree := t\<rparr>) its fl claimed" "is_names (sp\<lparr>is_tree := t\<rparr>) = is_names sp"
    "s1 = put_space space (sp\<lparr>is_tree := t\<rparr>) s" "s2 = s1\<lparr>ks_ports := more_sends (ks_ports s) ([] @ [dest])\<rparr>"
    "\<And>deadok. ipc_right_copyin space ?d entry MACH_MSG_TYPE_COPY_SEND deadok s1 = Some (Inr (dest, IP_NULL), s2)"
    "get_entry space entry s2 = Some e" "IE_BITS_TYPE (ie_bits e) \<in> {MACH_PORT_TYPE_SEND, MACH_PORT_TYPE_SEND_RECEIVE}"
    by (rule send_name_entry [OF sp act ok name(1) h]) (rule that)
  have "ipc_kmsg_copyin_dest space ?d 0 MACH_MSG_TYPE_COPY_SEND s = Some (Inr (dest, IP_NULL, 0, IP_NULL), s2)"
    using sp d(1,6,7,8) by (auto simp: ipc_kmsg_copyin_dest_def ipc_kmsg_lookup_def ipc_kmsg_defunct_def d(4) [symmetric])
  then have "ipc_kmsg_copyin_header msg space 0 s = Some (MACH_MSG_SUCCESS,
      msg\<lparr>msgh_bits := MACH_MSGH_BITS_OTHER (bits_clear (msgh_bits msg) MACH_MSGH_BITS_CIRCULAR) OR 17, msgh_remote_port := dest\<rparr>, s2)"
    using sp act name(1) bits
    by (cases msg) (auto simp: ipc_kmsg_copyin_header_def header_bits MACH_MSG_TYPE_PORT_ANY_SEND_def ipc_kmsg_notify_port_def
        mach_msg_type_name_of_def mach_msg_type_number_def MACH_MSGH_BITS_def MACH_PORT_VALID_def send_name_def)
  then show thesis using that d(2,3) by (simp add: d(4,5))
qed

text \<open>A name that is not in the space.\<close>

lemma copyin_no_name:
  assumes sp: "ks_spaces s space = Some sp" and ok: "space_ok sp its fl claimed"
    and bad: "is_names sp name = None" "is_fast sp \<longrightarrow> name_index name < is_table_size sp"
  obtains t where "ipc_kmsg_copyin_right space name 19 s =
      Some (Inl KERN_INVALID_NAME, put_space space (sp\<lparr>is_tree := t\<rparr>) s)"
    "space_ok (sp\<lparr>is_tree := t\<rparr>) its fl claimed" "is_names (sp\<lparr>is_tree := t\<rparr>) = is_names sp"
proof -
  obtain sp' where l: "ipc_entry_lookup sp name = Some (None, sp')" "space_ok sp' its fl claimed" "is_names sp' = is_names sp"
    using entry_lookup_spec [OF ok bad(2)] bad(1) by (auto split: option.splits)
  obtain t where t: "sp' = sp\<lparr>is_tree := t\<rparr>" "ist_inv t" "ist_entries t = ist_entries (is_tree sp)"
    using lookup_tree [OF ok l(1)] .
  have "is_active sp" using ok by (simp add: space_ok_def)
  then have "ipc_kmsg_copyin_right space name 19 s = Some (Inl KERN_INVALID_NAME, put_space space (sp\<lparr>is_tree := t\<rparr>) s)"
    using sp l(1) t(1)
    by (simp add: ipc_kmsg_copyin_right_def mach_msg_type_name_of_def ipc_object_copyin_def ipc_right_lookup_write_def)
  then show thesis using that l(2,3) t(1) by simp
qed

lemma send_name_tree [simp]:
  assumes "is_names (sp\<lparr>is_tree := t\<rparr>) = is_names sp"
  shows "send_name (sp\<lparr>is_tree := t\<rparr>) P n x = send_name sp P n x"
  using assms by (simp add: send_name_def)

text \<open>The loop takes the rights of the descriptors one by one.\<close>

abbreviation port_descriptors :: "u32 \<Rightarrow> u32 list \<Rightarrow> mach_msg_descriptor list" where
  "port_descriptors disposition xs \<equiv> map (\<lambda>x. Port_descriptor x disposition) xs"

lemma copyin_loop_ports:
  assumes "ks_spaces s space = Some sp" and "is_active sp" and "space_ok sp its fl claimed"
    and "\<forall>x\<in>List.set nas. send_name sp P n x" and "ks_ports s = more_sends P xs" and "length xs + length nas \<le> n"
  shows "\<exists>t. space_ok (sp\<lparr>is_tree := t\<rparr>) its fl claimed \<and> is_names (sp\<lparr>is_tree := t\<rparr>) = is_names sp \<and>
    ipc_kmsg_copyin_loop space kmsg ikot ready (port_descriptors 19 (map fst nas) @ rest) cs s =
    ipc_kmsg_copyin_loop space kmsg ikot (ready @ port_descriptors 17 (map snd nas)) rest cs
      (put_space space (sp\<lparr>is_tree := t\<rparr>) s\<lparr>ks_ports := more_sends P (xs @ map snd nas)\<rparr>)"
  using assms
proof (induction nas arbitrary: s sp xs ready)
  case Nil
  then have "put_space space (sp\<lparr>is_tree := is_tree sp\<rparr>) s\<lparr>ks_ports := more_sends P xs\<rparr> = s"
    by (simp add: put_space_def fun_upd_idem)
  then show ?case using Nil by (intro exI [of _ "is_tree sp"]) simp
next
  case (Cons x nas)
  obtain name a where x: "x = (name, a)" by (cases x)
  have name: "send_name sp P n (name, a)" using Cons.prems(4) by (simp add: x)
  have room: "count_list xs a < n" using Cons.prems(6) count_le_length [of xs a] by simp
  obtain t where t: "ipc_kmsg_copyin_right space name 19 s =
      Some (Inr a, put_space space (sp\<lparr>is_tree := t\<rparr>) s\<lparr>ks_ports := more_sends P (xs @ [a])\<rparr>)"
    "space_ok (sp\<lparr>is_tree := t\<rparr>) its fl claimed" "is_names (sp\<lparr>is_tree := t\<rparr>) = is_names sp"
    using copyin_more [OF Cons.prems(1-3) name Cons.prems(5) room] .
  define s1 where "s1 = put_space space (sp\<lparr>is_tree := t\<rparr>) s\<lparr>ks_ports := more_sends P (xs @ [a])\<rparr>"
  have "MACH_PORT_VALID name" using name by (simp add: send_name_def)
  then have step: "ipc_kmsg_copyin_loop space kmsg ikot ready (port_descriptors 19 (map fst (x # nas)) @ rest) cs s =
      ipc_kmsg_copyin_loop space kmsg ikot (ready @ [Port_descriptor a 17]) (port_descriptors 19 (map fst nas) @ rest) cs s1"
    by (simp add: x t(1) s1_def copyin_type_def ipc_kmsg_circular_def mach_msg_type_name_of_def mach_msg_type_number_def)
  have "\<exists>t'. space_ok (sp\<lparr>is_tree := t\<rparr>\<lparr>is_tree := t'\<rparr>) its fl claimed \<and>
      is_names (sp\<lparr>is_tree := t\<rparr>\<lparr>is_tree := t'\<rparr>) = is_names (sp\<lparr>is_tree := t\<rparr>) \<and>
    ipc_kmsg_copyin_loop space kmsg ikot (ready @ [Port_descriptor a 17]) (port_descriptors 19 (map fst nas) @ rest) cs s1 =
    ipc_kmsg_copyin_loop space kmsg ikot ((ready @ [Port_descriptor a 17]) @ port_descriptors 17 (map snd nas)) rest cs
      (put_space space (sp\<lparr>is_tree := t\<rparr>\<lparr>is_tree := t'\<rparr>) s1\<lparr>ks_ports := more_sends P ((xs @ [a]) @ map snd nas)\<rparr>)"
    by (rule Cons.IH) (use Cons.prems t(2,3) in \<open>simp_all add: s1_def put_space_def space_ok_def\<close>)
  then show ?case unfolding step using t(3) by (auto simp: s1_def put_space_def x)
qed

lemma clean_more:
  assumes "\<forall>a\<in>List.set as. IO_VALID a \<and> (\<exists>p. P a = Some p \<and> room_for n p)" and "ks_ports s = more_sends P (as @ xs)"
    and "length as + length xs \<le> n"
  shows "ipc_kmsg_clean_descriptors rt (port_descriptors 17 as) s = Some (s\<lparr>ks_ports := more_sends P xs\<rparr>)"
  using assms
proof (induction as arbitrary: s)
  case (Cons a as)
  obtain p where p: "P a = Some p" "room_for n p" "IO_VALID a" using Cons.prems(1) by auto
  have "count_list (a # as @ xs) a \<le> n" using Cons.prems(3) count_le_length [of "a # as @ xs" a] by (simp del: count_list.simps)
  then have "ipc_kmsg_destroy_right a 17 s = Some (s\<lparr>ks_ports := more_sends P (as @ xs)\<rparr>)"
    using release_more [where P = P and xs = "as @ xs", OF p] Cons.prems(2) by simp
  then show ?case using Cons.IH [of "s\<lparr>ks_ports := more_sends P (as @ xs)\<rparr>"] Cons.prems by simp
qed simp

section \<open>A refused body\<close>

lemma copyin_space_ports: "list_all is_port_descriptor ds \<Longrightarrow> ipc_kmsg_copyin_space rt ikot ds n = Some (Inr n)"
  by (induction rt ikot ds n rule: ipc_kmsg_copyin_space.induct) simp_all

text \<open>When a right is refused, the rights that came before it and the right of the header go back.\<close>

lemma copyin_loop_refused:
  assumes sp: "ks_spaces s space = Some sp" and ok: "space_ok sp its fl claimed"
    and hdr: "MACH_MSGH_BITS_REMOTE (msgh_bits (ikm_header kmsg)) = 17" "msgh_remote_port (ikm_header kmsg) = dest"
      "msgh_local_port (ikm_header kmsg) = 0"
    and good: "\<forall>x\<in>List.set ((name, dest) # nas). send_name sp P (length nas + 1) x"
    and bad: "MACH_PORT_VALID bad" "is_names sp bad = None" "is_fast sp \<longrightarrow> name_index bad < is_table_size sp"
    and ports: "ks_ports s = more_sends P [dest]" and cs: "cs_paddr cs = 0"
  shows "\<exists>t. ipc_kmsg_copyin_loop space kmsg ikot [] (port_descriptors 19 (map fst nas) @ Port_descriptor bad 19 # rest) cs s =
      Some (Inl MACH_SEND_INVALID_RIGHT, cs, put_space space (sp\<lparr>is_tree := t\<rparr>) s\<lparr>ks_ports := P\<rparr>) \<and>
    space_ok (sp\<lparr>is_tree := t\<rparr>) its fl claimed \<and> is_names (sp\<lparr>is_tree := t\<rparr>) = is_names sp"
proof -
  have act: "is_active sp" using ok by (simp add: space_ok_def)
  let ?ready = "port_descriptors 17 (map snd nas)"
  have "\<exists>t. space_ok (sp\<lparr>is_tree := t\<rparr>) its fl claimed \<and> is_names (sp\<lparr>is_tree := t\<rparr>) = is_names sp \<and>
    ipc_kmsg_copyin_loop space kmsg ikot [] (port_descriptors 19 (map fst nas) @ Port_descriptor bad 19 # rest) cs s =
    ipc_kmsg_copyin_loop space kmsg ikot ([] @ ?ready) (Port_descriptor bad 19 # rest) cs
      (put_space space (sp\<lparr>is_tree := t\<rparr>) s\<lparr>ks_ports := more_sends P ([dest] @ map snd nas)\<rparr>)"
    by (rule copyin_loop_ports [where n = "length nas + 1", OF sp act ok _ ports]) (use good in simp_all)
  then obtain t where t: "space_ok (sp\<lparr>is_tree := t\<rparr>) its fl claimed" "is_names (sp\<lparr>is_tree := t\<rparr>) = is_names sp"
    and loop: "ipc_kmsg_copyin_loop space kmsg ikot [] (port_descriptors 19 (map fst nas) @ Port_descriptor bad 19 # rest) cs s =
    ipc_kmsg_copyin_loop space kmsg ikot ([] @ ?ready) (Port_descriptor bad 19 # rest) cs
      (put_space space (sp\<lparr>is_tree := t\<rparr>) s\<lparr>ks_ports := more_sends P ([dest] @ map snd nas)\<rparr>)"
    by blast
  define sp1 where "sp1 = sp\<lparr>is_tree := t\<rparr>"
  define s1 where "s1 = put_space space sp1 s\<lparr>ks_ports := more_sends P (dest # map snd nas)\<rparr>"
  have sp1: "ks_spaces s1 space = Some sp1" "space_ok sp1 its fl claimed" "is_names sp1 bad = None"
      "is_fast sp1 \<longrightarrow> name_index bad < is_table_size sp1"
    using t bad(2,3) by (simp_all add: s1_def sp1_def put_space_def)
  obtain t' where t': "ipc_kmsg_copyin_right space bad 19 s1 =
      Some (Inl KERN_INVALID_NAME, put_space space (sp1\<lparr>is_tree := t'\<rparr>) s1)"
      "space_ok (sp1\<lparr>is_tree := t'\<rparr>) its fl claimed" "is_names (sp1\<lparr>is_tree := t'\<rparr>) = is_names sp1"
    using copyin_no_name [OF sp1] .
  define s2 where "s2 = put_space space (sp1\<lparr>is_tree := t'\<rparr>) s1"
  have s2: "ks_ports s2 = more_sends P (dest # map snd nas)" by (simp add: s2_def s1_def put_space_def)
  obtain p where p: "P dest = Some p" "room_for (length nas + 1) p" "IO_VALID dest" using good by (auto simp: send_name_def)
  have rel: "ipc_kmsg_destroy_right dest 17 s2 = Some (s2\<lparr>ks_ports := more_sends P (map snd nas)\<rparr>)"
    using release_more [where P = P and xs = "map snd nas", OF p _ s2] count_le_length [of "map snd nas" dest] by simp
  have clean: "ipc_kmsg_clean_descriptors (KMSG_IS_RT kmsg) ?ready (s2\<lparr>ks_ports := more_sends P (map snd nas)\<rparr>) =
      Some (s2\<lparr>ks_ports := P\<rparr>)"
    using clean_more [of "map snd nas" P "length nas + 1" "s2\<lparr>ks_ports := more_sends P (map snd nas)\<rparr>" "[]"] good
    by (force simp: send_name_def)
  have "ipc_kmsg_copyin_loop space kmsg ikot ?ready (Port_descriptor bad 19 # rest) cs s1 =
      Some (Inl MACH_SEND_INVALID_RIGHT, cs, s2\<lparr>ks_ports := P\<rparr>)"
    using t'(1) bad(1) rel clean p(3) hdr cs
    by (simp add: copyin_type_def mach_msg_type_name_of_def mach_msg_type_number_def ipc_kmsg_clean_partial_def
        ipc_kmsg_clean_body_def KMSG_IS_RT_def s2_def [symmetric] ipc_kmsg_destroy_right_def [of 0] IO_VALID_def [of 0] Let_def)
  then show ?thesis
    using loop t' t(2) by (intro exI [of _ t']) (simp add: s1_def [symmetric] sp1_def [symmetric], simp add: s2_def s1_def sp1_def put_space_def)
qed

lemma notice_bits:
  "MACH_MSGH_BITS_REMOTE (MACH_MSGH_BITS_OTHER b OR 17) = 17" "MACH_MSGH_BITS_LOCAL (MACH_MSGH_BITS_OTHER b OR 17) = 0"
  "has b MACH_MSGH_BITS_COMPLEX \<Longrightarrow>
     has (MACH_MSGH_BITS_OTHER (bits_clear b MACH_MSGH_BITS_CIRCULAR) OR 17) MACH_MSGH_BITS_COMPLEX"
  by (simp_all add: MACH_MSGH_BITS_REMOTE_def MACH_MSGH_BITS_LOCAL_def MACH_MSGH_BITS_OTHER_def bits_clear_def has_def
      and.assoc bit.conj_disj_distrib2)



section \<open>What the body of a message from the user can do\<close>

definition body_kernel :: kernel where
  "body_kernel = client_kernel\<lparr>ks_ports := [0x40 \<mapsto> port_sample\<lparr>ip_data := 0x6000, ip_srights := 2\<rparr>,
     0x80 \<mapsto> port_sample\<lparr>io_receiver_name := 0x208\<rparr>]\<rparr>"

definition user_message :: "u32 \<Rightarrow> mach_msg_descriptor list \<Rightarrow> ipc_kmsg" where
  "user_message cnt ds = \<lparr>ikm_next = 0, ikm_prev = 0,
     ikm_header = \<lparr>msgh_bits = 0x80000013, msgh_size = 28 + 12 * of_nat (length ds), msgh_remote_port = 0x104,
       msgh_local_port = 0\<rparr>,
     ikm_descriptor_count = cnt, ikm_descriptors = ds\<rparr>"

definition user_map :: vm_map where
  "user_map = \<lparr>vm_words = [0x100 \<mapsto> 0x104, 0x104 \<mapsto> 0x208, 0x200 \<mapsto> 0, 0x204 \<mapsto> 0x304, 0x300 \<mapsto> 0x104, 0x304 \<mapsto> 0x304],
     vm_answers = [Inr 0x7000, Inr 0x7100, Inr 0x7200]\<rparr>"

abbreviation send_user_message :: "u32 \<Rightarrow> mach_msg_descriptor list \<Rightarrow> mach_msg_return_t option" where
  "send_user_message cnt ds \<equiv> map_option fst (ipc_kmsg_copyin (user_message cnt ds) 0x3000 user_map 0 body_kernel)"

lemma user_bodies:
  "send_user_message 1 [Port_descriptor 0x104 19] = Some MACH_MSG_SUCCESS"
  "send_user_message 1 [Port_descriptor 0 99] = None"
  "send_user_message 1 [Ool_ports_descriptor (User_address 0x300) 2 0 19 False] = Some MACH_SEND_INVALID_RIGHT"
  "send_user_message 1 [Ool_ports_descriptor (User_address 0x200) 2 0 19 False] = None"
  "send_user_message 1 [Ool_descriptor 0x1000 0x3000 0 False] = Some MACH_MSG_SUCCESS"
  "send_user_message 1 [Ool_descriptor 0x1000 0xfffff001 0 False] = None"
  "send_user_message 2 [Port_descriptor 0x104 19] = None"
  by code_simp+


section \<open>The size of an array of rights\<close>

lemma copyin_names_null:
  assumes "\<forall>x\<in>List.set objects. \<not> MACH_PORT_VALID x"
  shows "ipc_kmsg_copyin_names space dest name disposition n j objects c s =
    (if j + n \<le> length objects \<or> n = 0 then Some (Some (objects, c), s) else None)"
proof (induction n arbitrary: j)
  case (Suc n)
  then show ?case using assms by (auto simp: array_get_def)
qed simp

lemma those_length: "those xs = Some ys \<Longrightarrow> length ys = length xs"
  by (induction xs arbitrary: ys) (auto split: option.splits)

lemma length_copyinmap: "copyinmap m addr len = Some xs \<Longrightarrow> length xs = unat len div 4"
  using those_length unfolding copyinmap_def by fastforce

text \<open>The loop over an array of rights trusts the count of the sender, while the array is as long as
  \<^verbatim>\<open>dsc->count * sizeof(mach_port_name_t)\<close> says in 32 bits. For an array of null names the copyin succeeds
  exactly when that product does not overflow; when it does, the loop runs past the end of the buffer (\<open>None\<close>).\<close>

theorem array_size_wraps:
  assumes "cnt * 4 \<noteq> 0" and "kalloc s = (data, s1)" and "data \<noteq> 0" and "copyin_type name = Some disposition"
    and "copyinmap (cs_map cs) addr (cnt * 4) = Some objects" and "\<forall>x\<in>List.set objects. x = MACH_PORT_NULL"
  shows "ipc_kmsg_copyin_ool_ports space dest addr cnt cp name False cs s =
    (if 4 * unat cnt < 2 ^ 32
     then Some (Inr (Ool_ports_descriptor (Kernel_array data objects) cnt cp disposition False), cs, s1) else None)"
proof -
  have null: "\<forall>x\<in>List.set objects. \<not> MACH_PORT_VALID x" using assms(6) by (auto simp: MACH_PORT_VALID_def)
  have len: "length objects = unat (cnt * 4) div 4" using length_copyinmap [OF assms(5)] .
  have "0 < unat cnt" using assms(1) by (auto simp: unat_gt_0)
  have mult: "unat (cnt * 4) = unat cnt * 4 mod 2 ^ 32" by (simp add: unat_word_ariths)
  have fits: "unat cnt \<le> length objects \<longleftrightarrow> 4 * unat cnt < 2 ^ 32"
  proof
    assume "unat cnt \<le> length objects"
    then have "unat cnt * 4 \<le> unat (cnt * 4)" unfolding len by linarith
    also have "\<dots> < 2 ^ 32" unfolding mult by simp
    finally show "4 * unat cnt < 2 ^ 32" by simp
  qed (simp add: len mult)
  show ?thesis
    using assms(1-5) fits \<open>0 < unat cnt\<close>
    by (simp add: ipc_kmsg_copyin_ool_ports_def copyin_names_null [OF null] Let_def)
qed

lemma array_size_wraps_witness:
  "ipc_kmsg_copyin_ool_ports 0x3000 0x40 0x200 1 0 19 False \<lparr>cs_map = user_map, cs_paddr = 0, cs_needed = 0, cs_copy = 0,
       cs_circular = False\<rparr> body_kernel \<noteq> None \<and>
   ipc_kmsg_copyin_ool_ports 0x3000 0x40 0x200 0x40000001 0 19 False \<lparr>cs_map = user_map, cs_paddr = 0, cs_needed = 0, cs_copy = 0,
       cs_circular = False\<rparr> body_kernel = None"
proof -
  have array: "copyinmap user_map 0x200 4 = Some [0]" "copyinmap user_map 0x200 4294967300 = Some [0]" by code_simp+
  obtain data s1 where mem: "kalloc body_kernel = (data, s1)" "data \<noteq> 0"
    by (simp add: kalloc_def body_kernel_def client_kernel_def port_kernel_def)
  have ty: "copyin_type 19 = Some 17" by code_simp
  show ?thesis
    using array_size_wraps [OF _ mem ty, where cnt = 1 and addr = "0x200" and objects = "[0]"
        and cs = "\<lparr>cs_map = user_map, cs_paddr = 0, cs_needed = 0, cs_copy = 0, cs_circular = False\<rparr>"]
      array_size_wraps [OF _ mem ty, where cnt = "0x40000001" and addr = "0x200" and objects = "[0]"
        and cs = "\<lparr>cs_map = user_map, cs_paddr = 0, cs_needed = 0, cs_copy = 0, cs_circular = False\<rparr>"] array
    by simp
qed

end
