(* ===== verification/Ipc_Kmsg_Scatter_Spec.thy ===== *)
theory Ipc_Kmsg_Scatter_Spec
  imports Ipc_Kmsg_Copyout Ipc_Kmsg_Body_Spec
begin

text \<open>
  Scatter lists: the check of the list of the receiver compares it with the body pair by pair, and the
  copyout of a body that was checked stays inside the buffers that the list declares.
\<close>

section \<open>The check\<close>

text \<open>The descriptors that the check looks at, and what it wants of a pair.\<close>

abbreviation memory_descriptors :: "mach_msg_descriptor list \<Rightarrow> mach_msg_descriptor list" where
  "memory_descriptors ds \<equiv> filter (\<lambda>d. \<not> is_port_descriptor d) ds"

fun scatter_fits :: "mach_msg_descriptor \<times> mach_msg_descriptor \<Rightarrow> bool" where
  "scatter_fits (Ool_descriptor _ gsize _ _, Ool_descriptor _ ssize cp _) \<longleftrightarrow> (cp = MACH_MSG_OVERWRITE \<longrightarrow> gsize \<le> ssize)"
| "scatter_fits (Ool_ports_descriptor _ gcount _ _ _, Ool_ports_descriptor _ scount cp _ _) \<longleftrightarrow>
    (cp = MACH_MSG_OVERWRITE \<longrightarrow> gcount \<le> scount)"
| "scatter_fits _ \<longleftrightarrow> False"

fun is_unknown_descriptor :: "mach_msg_descriptor \<Rightarrow> bool" where
  "is_unknown_descriptor (Unknown_descriptor _) \<longleftrightarrow> True"
| "is_unknown_descriptor _ \<longleftrightarrow> False"

lemma filter_dropWhile: "filter (\<lambda>x. \<not> P x) (dropWhile P xs) = filter (\<lambda>x. \<not> P x) xs"
  by (induction xs) auto

lemma dropWhile_Cons: "dropWhile P xs = y # ys \<Longrightarrow> filter (\<lambda>x. \<not> P x) xs = y # filter (\<lambda>x. \<not> P x) ys"
  by (induction xs) (auto split: if_splits)

lemma dropWhile_Nil: "dropWhile P xs = [] \<Longrightarrow> filter (\<lambda>x. \<not> P x) xs = []"
  by (simp add: dropWhile_eq_Nil_conv)

lemma check_scatter_loop:
  assumes "list_all (\<lambda>g. \<not> is_unknown_descriptor g) gs"
  shows "\<exists>mr. ipc_kmsg_check_scatter_loop False gs sdescs = Some mr \<and>
    (mr = MACH_MSG_SUCCESS \<longleftrightarrow> list_all scatter_fits (zip (memory_descriptors gs) (memory_descriptors sdescs)))"
  using assms
proof (induction gs arbitrary: sdescs)
  case (Cons g gs)
  then have ih: "\<exists>mr. ipc_kmsg_check_scatter_loop False gs ds = Some mr \<and>
    (mr = MACH_MSG_SUCCESS \<longleftrightarrow> list_all scatter_fits (zip (memory_descriptors gs) (memory_descriptors ds)))" for ds
    by simp
  show ?case
  proof (cases "dropWhile is_port_descriptor sdescs")
    case Nil
    then show ?thesis
      by (cases "is_port_descriptor g") (use ih [of sdescs] in \<open>simp_all add: Nil dropWhile_Nil [OF Nil]\<close>)
  next
    case d: (Cons d ds)
    then have "\<not> is_port_descriptor d" by (metis hd_dropWhile list.distinct(1) list.sel(1))
    then show ?thesis
      using ih [of sdescs] ih [of ds] Cons.prems dropWhile_Cons [OF d] d
      by (cases g; cases d) (auto simp: not_less)
  qed
qed simp

text \<open>C36: \<^verbatim>\<open>ipc_kmsg_check_scatter\<close> accepts a scatter list exactly when it is not empty, or nothing needs it, and the
  out-of-line descriptors of the body and of the list, taken in order and as far as both go, agree in
  kind, and each that is to be overwritten declares at least the size or count that the body has. The port
  descriptors on either side do not matter. On a body without unknown descriptors, as copyin leaves it,
  the check always ends with an answer.\<close>

theorem check_scatter_correct:
  assumes "unat (ikm_descriptor_count kmsg) \<le> length (ikm_descriptors kmsg)"
    and "gs = take (unat (ikm_descriptor_count kmsg)) (ikm_descriptors kmsg)"
    and "list_all (\<lambda>g. \<not> is_unknown_descriptor g) gs"
  shows "\<exists>mr. ipc_kmsg_check_scatter kmsg slist = Some mr \<and>
    (mr = MACH_MSG_SUCCESS \<longleftrightarrow> (slist = [] \<longrightarrow> memory_descriptors gs = []) \<and>
       list_all scatter_fits (zip (memory_descriptors gs) (memory_descriptors slist)))"
proof (cases "slist = []")
  case True
  have "\<exists>mr. ipc_kmsg_check_scatter_loop True gs [] = Some mr \<and> (mr = MACH_MSG_SUCCESS \<longleftrightarrow> memory_descriptors gs = [])"
    by (induction gs) auto
  then show ?thesis using True assms(1,2) by (simp add: ipc_kmsg_check_scatter_def)
next
  case False
  then show ?thesis
    using check_scatter_loop [OF assms(3), of slist] assms(1,2) by (simp add: ipc_kmsg_check_scatter_def)
qed

lemma check_scatter_correct_witness:
  "\<exists>mr. ipc_kmsg_check_scatter (user_message 2 [Port_descriptor 0x40 17, Ool_descriptor 0x7000 0x3000 1 False])
      [Ool_descriptor 0x9000 0x2fff MACH_MSG_OVERWRITE False] = Some mr \<and> mr \<noteq> MACH_MSG_SUCCESS"
  using check_scatter_correct [of "user_message 2 [Port_descriptor 0x40 17, Ool_descriptor 0x7000 0x3000 1 False]"
      "[Port_descriptor 0x40 17, Ool_descriptor 0x7000 0x3000 1 False]" "[Ool_descriptor 0x9000 0x2fff MACH_MSG_OVERWRITE False]"]
  by (simp add: user_message_def)

section \<open>Copyout of a checked body\<close>

text \<open>Memory that a descriptor of a received message says to have overwritten is memory that the list offers.\<close>

definition offers_memory :: "mach_msg_descriptor list \<Rightarrow> u32 \<Rightarrow> u32 \<Rightarrow> bool" where
  "offers_memory slist address sz \<longleftrightarrow>
    (\<exists>ssize dealloc. Ool_descriptor address ssize MACH_MSG_OVERWRITE dealloc \<in> List.set slist \<and> sz \<le> ssize)"

definition offers_array :: "mach_msg_descriptor list \<Rightarrow> u32 \<Rightarrow> u32 \<Rightarrow> bool" where
  "offers_array slist address cnt \<longleftrightarrow>
    (\<exists>scount disposition dealloc. cnt \<le> scount \<and>
       Ool_ports_descriptor (User_address address) scount MACH_MSG_OVERWRITE disposition dealloc \<in> List.set slist)"

fun within_scatter :: "mach_msg_descriptor list \<Rightarrow> mach_msg_descriptor \<Rightarrow> bool" where
  "within_scatter slist (Ool_descriptor address sz cp _) \<longleftrightarrow>
    (cp = MACH_MSG_OVERWRITE \<and> address \<noteq> 0 \<longrightarrow> offers_memory slist address sz)"
| "within_scatter slist (Ool_ports_descriptor (User_address address) cnt cp _ _) \<longleftrightarrow>
    (cp = MACH_MSG_OVERWRITE \<and> address \<noteq> 0 \<and> cnt * 4 \<noteq> 0 \<longrightarrow> offers_array slist address cnt)"
| "within_scatter slist _ \<longleftrightarrow> True"

fun memory_size :: "mach_msg_descriptor \<Rightarrow> u32" where
  "memory_size (Ool_descriptor _ sz _ _) = sz"
| "memory_size (Ool_ports_descriptor _ cnt _ _ _) = cnt"
| "memory_size _ = 0"

text \<open>The current place of the list, after the port descriptors.\<close>

definition scatter_agrees :: "mach_msg_descriptor list \<Rightarrow> mach_msg_descriptor \<Rightarrow> scatter \<Rightarrow> bool" where
  "scatter_agrees slist g sl \<longleftrightarrow>
    (case SKIP_PORT_DESCRIPTORS sl of Some (d # ds) \<Rightarrow> scatter_fits (g, d) \<and> d \<in> List.set slist | _ \<Rightarrow> True)"

lemma scatter_place:
  assumes "scatter_overwrite (SKIP_PORT_DESCRIPTORS sl) = Some (Some address)" and "scatter_agrees slist g sl"
  shows "g = Ool_descriptor a sz cp dealloc \<Longrightarrow> offers_memory slist address sz"
    and "g = Ool_ports_descriptor b cnt cp disposition dealloc \<Longrightarrow> offers_array slist address cnt"
proof -
  obtain d ds where d: "SKIP_PORT_DESCRIPTORS sl = Some (d # ds)"
    using assms(1) by (auto simp: SKIP_PORT_DESCRIPTORS_def split: option.splits list.splits)
  then have place: "scatter_overwrite (Some (d # ds)) = Some (Some address)" "scatter_fits (g, d)" "d \<in> List.set slist"
    using assms by (simp_all add: scatter_agrees_def)
  show "g = Ool_descriptor a sz cp dealloc \<Longrightarrow> offers_memory slist address sz"
    using place by (cases d) (auto simp: offers_memory_def split: if_splits)
  show "g = Ool_ports_descriptor b cnt cp disposition dealloc \<Longrightarrow> offers_array slist address cnt"
    using place by (cases "Some (d # ds)" rule: scatter_overwrite.cases) (auto simp: offers_array_def split: if_splits)
qed

lemma copyout_ool_within:
  assumes "ipc_kmsg_copyout_ool rt address sz cp dealloc sl vmap s = Some (r, d', sl', vmap', s')"
    and "scatter_agrees slist (Ool_descriptor address sz cp dealloc) sl"
  shows "within_scatter slist d' \<and> memory_size d' = sz \<and> sl' = INCREMENT_SCATTER (SKIP_PORT_DESCRIPTORS sl)"
  using assms(1) scatter_place(1) [OF _ assms(2) refl]
  by (auto simp: ipc_kmsg_copyout_ool_def Let_def split: bind_splits if_splits sum.splits prod.splits option.splits)

lemma copyout_ool_ports_within:
  assumes "ipc_kmsg_copyout_ool_ports space kmsg address cnt cp disposition dealloc sl vmap s = Some (r, d', sl', vmap', s')"
    and "scatter_agrees slist (Ool_ports_descriptor address cnt cp disposition dealloc) sl"
  shows "within_scatter slist d' \<and> memory_size d' = cnt \<and> sl' = INCREMENT_SCATTER (SKIP_PORT_DESCRIPTORS sl)"
proof (cases "cnt * 4 = 0")
  case True
  then show ?thesis using assms(1) by (cases address) (auto simp: ipc_kmsg_copyout_ool_ports_def Let_def)
next
  case False
  then show ?thesis
    using assms(1) scatter_place(2) [OF _ assms(2) refl]
    by (auto simp: ipc_kmsg_copyout_ool_ports_def Let_def
        split: bind_splits if_splits sum.splits prod.splits option.splits ports_address.splits)
qed

lemma copyout_descriptor_within:
  assumes "ipc_kmsg_copyout_descriptor space kmsg g sl vmap s = Some (r, d', sl', vmap', s')"
    and "\<not> is_port_descriptor g \<Longrightarrow> scatter_agrees slist g sl"
  shows "within_scatter slist d' \<and> memory_size d' = memory_size g \<and>
    sl' = (if is_port_descriptor g then sl else INCREMENT_SCATTER (SKIP_PORT_DESCRIPTORS sl))"
proof (cases g)
  case (Port_descriptor object disposition)
  then show ?thesis using assms(1) by (auto split: bind_splits)
next
  case (Ool_descriptor address sz cp dealloc)
  then show ?thesis
    using copyout_ool_within [of "KMSG_IS_RT kmsg" address sz cp dealloc sl vmap s r d' sl' vmap' s' slist] assms by simp
next
  case (Ool_ports_descriptor address cnt cp disposition dealloc)
  then show ?thesis
    using copyout_ool_ports_within [of space kmsg address cnt cp disposition dealloc sl vmap s r d' sl' vmap' s' slist] assms
    by simp
next
  case (Unknown_descriptor x)
  then show ?thesis using assms(1) by simp
qed

text \<open>What the check leaves to the rest of the loop.\<close>

definition scatter_checked :: "mach_msg_descriptor list \<Rightarrow> mach_msg_descriptor list \<Rightarrow> scatter \<Rightarrow> bool" where
  "scatter_checked slist gs sl \<longleftrightarrow>
    (case sl of None \<Rightarrow> True
     | Some ds \<Rightarrow> ipc_kmsg_check_scatter_loop False gs ds = Some MACH_MSG_SUCCESS \<and> List.set ds \<subseteq> List.set slist)"

lemma scatter_checked_step:
  assumes "scatter_checked slist (g # gs) sl" and "\<not> is_port_descriptor g" and "\<not> is_unknown_descriptor g"
  shows "scatter_agrees slist g sl \<and> scatter_checked slist gs (INCREMENT_SCATTER (SKIP_PORT_DESCRIPTORS sl))"
proof (cases sl)
  case None
  then show ?thesis by (simp add: scatter_agrees_def scatter_checked_def SKIP_PORT_DESCRIPTORS_def INCREMENT_SCATTER_def)
next
  case (Some ds)
  show ?thesis
  proof (cases "dropWhile is_port_descriptor ds")
    case Nil
    then have "SKIP_PORT_DESCRIPTORS sl = None" unfolding SKIP_PORT_DESCRIPTORS_def Some option.case Nil by simp
    then show ?thesis by (simp add: scatter_agrees_def scatter_checked_def INCREMENT_SCATTER_def)
  next
    case (Cons d ds')
    have "List.set (d # ds') \<subseteq> List.set ds" unfolding Cons [symmetric] by (meson set_dropWhileD subsetI)
    then show ?thesis
      using assms Some Cons
      by (cases g; cases d) (auto simp: scatter_agrees_def scatter_checked_def SKIP_PORT_DESCRIPTORS_def INCREMENT_SCATTER_def
          split: if_splits)
  qed
qed

lemma copyout_loop_within:
  assumes "ipc_kmsg_copyout_loop space kmsg ready gs tail mr sl vmap s = Some (mr', kmsg', vmap', s')"
    and "scatter_checked slist gs sl" and "list_all (\<lambda>g. \<not> is_unknown_descriptor g) gs"
  shows "\<exists>ds. ikm_descriptors kmsg' = ready @ ds @ tail \<and> list_all (within_scatter slist) ds \<and>
    map memory_size ds = map memory_size gs"
  using assms
proof (induction gs arbitrary: ready mr sl vmap s)
  case Nil
  then show ?case by auto
next
  case (Cons g gs)
  obtain r d sl1 vmap1 s1 where step: "ipc_kmsg_copyout_descriptor space (kmsg\<lparr>ikm_descriptors := ready @ g # gs @ tail\<rparr>) g sl vmap s =
      Some (r, d, sl1, vmap1, s1)"
    and rest: "ipc_kmsg_copyout_loop space kmsg (ready @ [d]) gs tail (mr OR r) sl1 vmap1 s1 = Some (mr', kmsg', vmap', s')"
    using Cons.prems(1) by (auto split: bind_splits)
  have unknown: "\<not> is_unknown_descriptor g" using Cons.prems(3) by simp
  then have d: "within_scatter slist d \<and> memory_size d = memory_size g \<and>
      sl1 = (if is_port_descriptor g then sl else INCREMENT_SCATTER (SKIP_PORT_DESCRIPTORS sl))"
    using copyout_descriptor_within [OF step] scatter_checked_step [OF Cons.prems(2)] by blast
  have "scatter_checked slist gs sl1"
    using d unknown Cons.prems(2) scatter_checked_step [OF Cons.prems(2)]
    by (auto simp: scatter_checked_def split: option.splits)
  then show ?case using Cons.IH [OF rest] Cons.prems(3) d by fastforce
qed

text \<open>C14: a receiver whose scatter list passed \<^verbatim>\<open>ipc_kmsg_check_scatter\<close> gets no memory outside the buffers that the
  list declares: in the message that \<^verbatim>\<open>ipc_kmsg_copyout_body\<close> delivers, memory and arrays of names
  that are marked as overwritten lie at an address of the list, and their size is at most the size that the
  list gives there. The sizes are those of the message that was sent. The walk over the list at
  copyout and the walk at the check, written separately, therefore meet the same pairs.\<close>

theorem checked_scatter_safe:
  assumes "ipc_kmsg_check_scatter kmsg slist = Some MACH_MSG_SUCCESS"
    and "list_all (\<lambda>g. \<not> is_unknown_descriptor g) (ikm_descriptors kmsg)"
    and "unat (ikm_descriptor_count kmsg) = length (ikm_descriptors kmsg)"
    and "ipc_kmsg_copyout_body kmsg space vmap (Some slist) s = Some (mr, kmsg', vmap', s')"
  shows "list_all (within_scatter slist) (ikm_descriptors kmsg') \<and>
    map memory_size (ikm_descriptors kmsg') = map memory_size (ikm_descriptors kmsg)"
proof -
  let ?gs = "ikm_descriptors kmsg"
  have empty: "ipc_kmsg_check_scatter_loop False gs [] = Some MACH_MSG_SUCCESS" for gs by (induction gs) simp_all
  have "scatter_checked slist ?gs (Some slist)"
    using assms(1,3) empty by (cases "slist = []") (simp_all add: scatter_checked_def ipc_kmsg_check_scatter_def)
  moreover have "ipc_kmsg_copyout_loop space kmsg [] ?gs [] MACH_MSG_SUCCESS (Some slist) vmap s = Some (mr, kmsg', vmap', s')"
    using assms(3,4) by (simp add: ipc_kmsg_copyout_body_def)
  ultimately show ?thesis using copyout_loop_within [OF _ _ assms(2)] by fastforce
qed

definition scattered_message :: ipc_kmsg where
  "scattered_message = user_message 2 [Port_descriptor 0 17, Ool_descriptor 0x7000 0x3000 1 False]"

abbreviation (input) scatter_sample :: "mach_msg_descriptor list" where
  "scatter_sample \<equiv> [Ool_descriptor 0x9000 0x4000 MACH_MSG_OVERWRITE False]"

lemma scattered:
  "ipc_kmsg_check_scatter scattered_message scatter_sample = Some MACH_MSG_SUCCESS"
  "map_option (\<lambda>(mr, kmsg, _). (mr, ikm_descriptors kmsg))
     (ipc_kmsg_copyout_body scattered_message 0x6000 user_map (Some scatter_sample) body_kernel) =
   Some (MACH_MSG_SUCCESS, [Port_descriptor 0 17, Ool_descriptor 0x9000 0x3000 MACH_MSG_OVERWRITE False])"
  by code_simp+

lemma checked_scatter_safe_witness:
  "\<exists>mr kmsg' vmap' s'. ipc_kmsg_copyout_body scattered_message 0x6000 user_map (Some scatter_sample) body_kernel =
      Some (mr, kmsg', vmap', s') \<and>
    ikm_descriptors kmsg' = [Port_descriptor 0 17, Ool_descriptor 0x9000 0x3000 MACH_MSG_OVERWRITE False] \<and>
    list_all (within_scatter scatter_sample) (ikm_descriptors kmsg')"
proof -
  obtain mr kmsg' vmap' s' where run: "ipc_kmsg_copyout_body scattered_message 0x6000 user_map (Some scatter_sample) body_kernel =
      Some (mr, kmsg', vmap', s')" "ikm_descriptors kmsg' = [Port_descriptor 0 17, Ool_descriptor 0x9000 0x3000 MACH_MSG_OVERWRITE False]"
    using scattered(2) by auto
  have "list_all (\<lambda>g. \<not> is_unknown_descriptor g) (ikm_descriptors scattered_message)"
      "unat (ikm_descriptor_count scattered_message) = length (ikm_descriptors scattered_message)"
    by (simp_all add: scattered_message_def user_message_def)
  then have "list_all (within_scatter scatter_sample) (ikm_descriptors kmsg')"
    using checked_scatter_safe [OF scattered(1) _ _ run(1)] by blast
  then show ?thesis using run by blast
qed

end
