(* ===== verification/Ipc_Kmsg_Memory_Spec.thy ===== *)
theory Ipc_Kmsg_Memory_Spec
  imports Ipc_Kmsg_Copyout Ipc_Kmsg_Body_Spec
begin

text \<open>
  Memory that a message copies: the first pass over the body counts the pages of the kernel that the
  second pass uses. The bounds under which the 32-bit arithmetic of both passes is exact.
\<close>

section \<open>Pages\<close>

definition page_bytes :: "nat \<Rightarrow> nat" where
  "page_bytes n = 4096 * ((n + 4095) div 4096)"

lemma clear_low: "bits_clear (x :: u32) 0xfff = push_bit 12 (drop_bit 12 x)"
proof -
  have "(mask 12 :: u32) = 0xfff" by (simp add: mask_eq_exp_minus_1)
  moreover have "bits_clear x (mask 12) = push_bit 12 (drop_bit 12 x)"
    unfolding bits_clear_def by (rule bit_word_eqI) (auto simp: bit_simps)
  ultimately show ?thesis by simp
qed

lemma unat_clear_low: "unat (bits_clear (x :: u32) 0xfff) = unat x div 4096 * 4096"
proof -
  have "unat x < 2 ^ LENGTH(32)" by (rule unsigned_less)
  then have "unat x div 4096 * 4096 < 2 ^ 32" by simp
  then show ?thesis unfolding clear_low by (simp add: push_bit_eq_mult drop_bit_eq_div unat_word_ariths unat_div)
qed

lemma round_page_exact:
  assumes "unat x \<le> 0xfffff000"
  shows "unat (round_page x) = page_bytes (unat x)"
proof -
  have "unat (x + 0xfff) = unat x + 4095" using assms by (simp add: unat_word_ariths)
  then show ?thesis by (simp only: round_page_def unat_clear_low page_bytes_def mult.commute)
qed

lemma le_page_bytes: "n \<le> page_bytes n"
proof -
  have "n + 4095 = 4096 * ((n + 4095) div 4096) + (n + 4095) mod 4096" by simp
  moreover have "(n + 4095) mod 4096 \<le> 4095" using mod_less_divisor [of 4096 "n + 4095"] by simp
  ultimately show ?thesis unfolding page_bytes_def by linarith
qed

lemma page_bytes_pos: "MSG_OOL_SIZE_SMALL rt \<le> sz \<Longrightarrow> page_bytes (unat sz) \<noteq> 0"
  using le_page_bytes [of "unat sz"] by (auto simp: MSG_OOL_SIZE_SMALL_def word_le_nat_alt split: if_splits)

section \<open>The first pass\<close>

text \<open>The part of the region that a descriptor uses.\<close>

fun region_bytes :: "bool \<Rightarrow> mach_msg_descriptor \<Rightarrow> nat" where
  "region_bytes rt (Ool_descriptor address sz cp dealloc) =
    (if cp = MACH_MSG_PHYSICAL_COPY \<and> MSG_OOL_SIZE_SMALL rt \<le> sz \<and> \<not> dealloc then page_bytes (unat sz) else 0)"
| "region_bytes rt _ = 0"

text \<open>Memory whose size is far enough from \<open>2 ^ 32\<close> for both the rounding and the sum.\<close>

fun moderate :: "mach_msg_descriptor \<Rightarrow> bool" where
  "moderate (Ool_descriptor address sz cp dealloc) \<longleftrightarrow> unat sz \<le> 0xff8ff000"
| "moderate _ \<longleftrightarrow> True"

fun is_memory :: "mach_msg_descriptor \<Rightarrow> bool" where
  "is_memory (Ool_descriptor address sz cp dealloc) \<longleftrightarrow> cp \<in> {MACH_MSG_PHYSICAL_COPY, MACH_MSG_VIRTUAL_COPY}"
| "is_memory _ \<longleftrightarrow> True"

lemma copyin_space_exact:
  assumes "ipc_kmsg_copyin_space rt ikot ds n = Some (Inr m)" and "list_all moderate ds" and "unat n \<le> 0x700000"
  shows "unat m = unat n + sum_list (map (region_bytes rt) ds) \<and> unat m \<le> 0x700000 \<and> list_all is_memory ds"
  using assms
proof (induction ds arbitrary: n)
  case (Cons d ds)
  note ih = Cons.IH
  show ?case
  proof (cases "0 < region_bytes rt d")
    case True
    then obtain address sz cp dealloc where d: "d = Ool_descriptor address sz cp dealloc"
        "cp = MACH_MSG_PHYSICAL_COPY" "MSG_OOL_SIZE_SMALL rt \<le> sz" "\<not> dealloc"
      by (cases d) (auto split: if_splits)
    have sz: "unat sz \<le> 0xff8ff000" using Cons.prems(2) d(1) by simp
    have r: "unat (round_page sz) = page_bytes (unat sz)" by (rule round_page_exact) (use sz in linarith)
    have "(unat sz + 4095) div 4096 \<le> (0xff8ff000 + 4095) div 4096" by (rule div_le_mono) (use sz in simp)
    then have "page_bytes (unat sz) \<le> 0xff8ff000" by (simp add: page_bytes_def)
    then have u: "unat (n + round_page sz) = unat n + page_bytes (unat sz)"
      using Cons.prems(3) by (simp add: unat_word_ariths r)
    have rest: "ipc_kmsg_copyin_space rt ikot ds (n + round_page sz) = Some (Inr m)"
      and le: "unat (n + round_page sz) \<le> 0x700000"
      using Cons.prems(1) d by (auto simp: Let_def word_less_nat_alt split: if_splits bind_splits)
    show ?thesis using ih [OF rest _ le] Cons.prems(2) d u by simp
  next
    case False
    then have "ipc_kmsg_copyin_space rt ikot ds n = Some (Inr m) \<and> is_memory d"
      using Cons.prems(1) by (cases d) (auto simp: Let_def page_bytes_pos split: if_splits bind_splits)
    then show ?thesis using ih [of n] Cons.prems(2,3) False by simp
  qed
qed simp

section \<open>The second pass\<close>

text \<open>The virtual memory system and the allocator serve the next \<open>n\<close> descriptors.\<close>

definition memory_ready :: "nat \<Rightarrow> copyin_state \<Rightarrow> kernel \<Rightarrow> bool" where
  "memory_ready n cs s \<longleftrightarrow> 2 * n \<le> length (vm_answers (cs_map cs)) \<and> (\<forall>r\<in>List.set (vm_answers (cs_map cs)). \<exists>a. r = Inr a) \<and>
     n \<le> length (ks_free_memory s) \<and> 0 \<notin> List.set (ks_free_memory s)"

lemma vm_call_left:
  assumes "memory_ready (Suc n) cs s"
  obtains a m b m' where "vm_call (cs_map cs) = (Inr a, m)" "vm_call m = (Inr b, m')"
    "memory_ready n (cs\<lparr>cs_map := m\<rparr>) s" "memory_ready n (cs\<lparr>cs_map := m'\<rparr>) s"
proof -
  obtain r r' rs where rs: "vm_answers (cs_map cs) = r # r' # rs"
    using assms by (cases "vm_answers (cs_map cs)"; cases "tl (vm_answers (cs_map cs))") (auto simp: memory_ready_def)
  then obtain a b where "r = Inr a" "r' = Inr b" using assms by (auto simp: memory_ready_def)
  then show thesis using rs assms
    by (intro that [of a "cs_map cs\<lparr>vm_answers := r' # rs\<rparr>" b "cs_map cs\<lparr>vm_answers := rs\<rparr>"])
      (auto simp: vm_call_def memory_ready_def)
qed

lemma kalloc_left:
  assumes "memory_ready (Suc n) cs s"
  obtains a s' where "kalloc s = (a, s')" "a \<noteq> 0" "memory_ready n cs s'" "\<And>m. memory_ready n (cs\<lparr>cs_map := m\<rparr>) s \<Longrightarrow> memory_ready n (cs\<lparr>cs_map := m\<rparr>) s'"
proof (cases "ks_free_memory s")
  case Nil
  then show ?thesis using assms by (simp add: memory_ready_def)
next
  case (Cons a as)
  then show ?thesis using assms
    by (intro that [of a "s\<lparr>ks_free_memory := as\<rparr>"]) (auto simp: kalloc_def memory_ready_def)
qed

lemma memory_ready_simps [simp]:
  "memory_ready n cs (log_event e s) = memory_ready n cs s"
  "memory_ready n (cs\<lparr>cs_copy := c, cs_paddr := p, cs_needed := k\<rparr>) s = memory_ready n cs s"
  "memory_ready n (cs\<lparr>cs_copy := c\<rparr>) s = memory_ready n cs s"
  by (simp_all add: memory_ready_def log_event_def)

lemma memory_ready_Suc: "memory_ready (Suc n) cs s \<Longrightarrow> memory_ready n cs s"
  by (simp add: memory_ready_def)

text \<open>The region: \<open>paddr\<close> is its end, \<open>total\<close> what the descriptors to come use of it.\<close>

definition region_left :: "nat \<Rightarrow> nat \<Rightarrow> copyin_state \<Rightarrow> bool" where
  "region_left limit rest cs \<longleftrightarrow> unat (cs_needed cs) = rest \<and> unat (cs_paddr cs) + rest = limit \<and>
     (0 < rest \<longrightarrow> cs_paddr cs \<noteq> 0)"

lemma copyin_ool_in_region:
  assumes "is_memory (Ool_descriptor address sz cp dealloc)" and "unat sz \<le> 0xff8ff000"
    and "region_left limit (region_bytes False (Ool_descriptor address sz cp dealloc) + rest) cs" and "limit < 2 ^ 32"
    and "memory_ready (Suc n) cs s"
  shows "\<exists>d' cs' s'. ipc_kmsg_copyin_ool False 0 address sz cp dealloc cs s = Some (Inr d', cs', s') \<and>
    region_left limit rest cs' \<and> memory_ready n cs' s'"
proof -
  obtain a m b m' where vm: "vm_call (cs_map cs) = (Inr a, m)" "vm_call m = (Inr b, m')"
      "memory_ready n (cs\<lparr>cs_map := m\<rparr>) s" "memory_ready n (cs\<lparr>cs_map := m'\<rparr>) s"
    using vm_call_left [OF assms(5)] .
  obtain k s1 where k: "kalloc s = (k, s1)" "k \<noteq> 0" "memory_ready n (cs\<lparr>cs_map := m\<rparr>) s1"
    using kalloc_left [OF assms(5)] vm(3) by metis
  have left: "memory_ready n cs s" using memory_ready_Suc [OF assms(5)] .
  show ?thesis
  proof (cases "0 < region_bytes False (Ool_descriptor address sz cp dealloc)")
    case True
    then have c: "cp = MACH_MSG_PHYSICAL_COPY" "MSG_OOL_SIZE_SMALL False \<le> sz" "\<not> dealloc" by (auto split: if_splits)
    have r: "unat (round_page sz) = page_bytes (unat sz)" by (rule round_page_exact) (use assms(2) in linarith)
    have sz: "sz \<noteq> 0" "\<not> sz < MSG_OOL_SIZE_SMALL False" using c(2) by (auto simp: MSG_OOL_SIZE_SMALL_def)
    have needed: "unat (cs_needed cs) = page_bytes (unat sz) + rest" "unat (cs_paddr cs) + (page_bytes (unat sz) + rest) = limit"
        "cs_paddr cs \<noteq> 0"
      using assms(3) True c by (simp_all add: region_left_def)
    have fits: "sz \<le> cs_needed cs" using needed(1) le_page_bytes [of "unat sz"] by (simp add: word_le_nat_alt)
    have "unat (cs_needed cs - round_page sz) = rest"
      using needed(1) by (simp add: unat_sub word_le_nat_alt r)
    moreover have "unat (cs_paddr cs + round_page sz) = unat (cs_paddr cs) + page_bytes (unat sz)"
      using needed(2) assms(4) by (simp add: unat_word_ariths r)
    ultimately have "region_left limit rest (cs\<lparr>cs_map := m', cs_copy := b, cs_paddr := cs_paddr cs + round_page sz,
        cs_needed := cs_needed cs - round_page sz\<rparr>)"
      using needed(2) page_bytes_pos [OF c(2)] by (auto simp: region_left_def simp flip: unat_eq_0)
    then show ?thesis
      using c sz needed(3) fits vm by (simp add: ipc_kmsg_copyin_ool_def ipc_kobject_vm_page_list_def memory_ready_def)
  next
    case False
    then have "region_left limit rest cs" using assms(3) by simp
    then have cs: "region_left limit rest (cs\<lparr>cs_map := x, cs_copy := c\<rparr>)" "region_left limit rest (cs\<lparr>cs_map := x\<rparr>)" for x c
      by (simp_all add: region_left_def)
    have "\<not> (cp = MACH_MSG_PHYSICAL_COPY \<and> \<not> dealloc \<and> \<not> sz < MSG_OOL_SIZE_SMALL False)"
      using False page_bytes_pos [of False sz] by (auto split: if_splits)
    then show ?thesis
      using k vm left cs \<open>region_left limit rest cs\<close> by
      (auto simp: ipc_kmsg_copyin_ool_def ipc_kobject_vm_page_list_def memory_ready_def log_event_def)
  qed
qed

fun is_out_of_line :: "mach_msg_descriptor \<Rightarrow> bool" where
  "is_out_of_line (Ool_descriptor _ _ _ _) \<longleftrightarrow> True"
| "is_out_of_line _ \<longleftrightarrow> False"

lemma copyin_loop_in_region:
  assumes "list_all is_out_of_line ds" and "list_all is_memory ds" and "list_all moderate ds" and "\<not> KMSG_IS_RT kmsg"
    and "region_left limit (sum_list (map (region_bytes False) ds)) cs" and "limit < 2 ^ 32" and "memory_ready (length ds) cs s"
  shows "\<exists>ready' cs' s'. ipc_kmsg_copyin_loop space kmsg 0 ready ds cs s = Some (Inr (ready @ ready'), cs', s') \<and>
    length ready' = length ds \<and> region_left limit 0 cs'"
  using assms
proof (induction ds arbitrary: ready cs s)
  case (Cons d ds)
  obtain address sz cp dealloc where d: "d = Ool_descriptor address sz cp dealloc" using Cons.prems(1) by (cases d) auto
  have "\<exists>d' cs' s'. ipc_kmsg_copyin_ool False 0 address sz cp dealloc cs s = Some (Inr d', cs', s') \<and>
    region_left limit (sum_list (map (region_bytes False) ds)) cs' \<and> memory_ready (length ds) cs' s'"
    by (rule copyin_ool_in_region) (use Cons.prems d in simp_all)
  then obtain d' cs' s' where step: "ipc_kmsg_copyin_ool False 0 address sz cp dealloc cs s = Some (Inr d', cs', s')"
      "region_left limit (sum_list (map (region_bytes False) ds)) cs'" "memory_ready (length ds) cs' s'" by blast
  show ?case
    using Cons.IH [of cs' s' "ready @ [d']"] Cons.prems step d by (auto simp: exI [of _ "d' # _"])
qed auto

text \<open>C15: the pages of the kernel that the first pass over a body asks for are exactly those that the second pass
  uses. For a body of memory descriptors without real time to a port of a task, with sizes of at most
  \<open>0xff8ff000\<close>, the 32-bit sum of the rounded sizes is the true sum and within the limit of a message;
  when no call of the memory systems fails, all descriptors are taken in, each copy fits into what
  is left of the region, and at the end nothing of it is left. The bound on the sizes is needed: a size
  that rounds up to \<open>2 ^ 32\<close> counts as 0 pages.\<close>

theorem physical_copies_fit:
  assumes "list_all is_out_of_line ds" and "list_all moderate ds" and "\<not> KMSG_IS_RT kmsg"
    and "ipc_kmsg_copyin_space False 0 ds 0 = Some (Inr needed)"
    and "cs_needed cs = needed" and "0 < needed \<longrightarrow> cs_paddr cs \<noteq> 0" and "unat (cs_paddr cs) + unat needed < 2 ^ 32"
    and "memory_ready (length ds) cs s"
  shows "unat needed = sum_list (map (region_bytes False) ds) \<and> unat needed \<le> 0x700000 \<and>
    (\<exists>ready cs' s'. ipc_kmsg_copyin_loop space kmsg 0 [] ds cs s = Some (Inr ready, cs', s') \<and> length ready = length ds \<and>
       cs_needed cs' = 0 \<and> unat (cs_paddr cs') = unat (cs_paddr cs) + unat needed)"
proof -
  have n: "unat needed = sum_list (map (region_bytes False) ds)" "unat needed \<le> 0x700000" "list_all is_memory ds"
    using copyin_space_exact [OF assms(4,2)] by simp_all
  have "region_left (unat (cs_paddr cs) + unat needed) (sum_list (map (region_bytes False) ds)) cs"
    using assms(5,6) n(1) by (simp add: region_left_def word_less_nat_alt)
  then obtain ready cs' s' where "ipc_kmsg_copyin_loop space kmsg 0 [] ds cs s = Some (Inr ([] @ ready), cs', s')"
      "length ready = length ds" "region_left (unat (cs_paddr cs) + unat needed) 0 cs'"
    using copyin_loop_in_region [OF assms(1) n(3) assms(2,3) _ assms(7,8)] by meson
  then show ?thesis using n(1,2) by (auto simp: region_left_def unat_eq_0)
qed

definition copies_sample :: "mach_msg_descriptor list" where
  "copies_sample = [Ool_descriptor 0x1000 0x3001 0 False, Ool_descriptor 0x9000 0x20 0 False]"

lemma copies_sample_space: "ipc_kmsg_copyin_space False 0 copies_sample 0 = Some (Inr 0x4000)"
  by code_simp

lemma physical_copies_fit_witness:
  "\<exists>ready cs' s'. ipc_kmsg_copyin_loop 0x3000 (user_message 2 copies_sample) 0 [] copies_sample
       \<lparr>cs_map = user_map\<lparr>vm_answers := [Inr 0, Inr 0x7000, Inr 0, Inr 0]\<rparr>, cs_paddr = 0x10000, cs_needed = 0x4000, cs_copy = 0,
        cs_circular = False\<rparr> (body_kernel\<lparr>ks_free_memory := [0x500, 0x600]\<rparr>) = Some (Inr ready, cs', s') \<and>
     cs_needed cs' = 0 \<and> unat (cs_paddr cs') = 0x14000"
proof -
  have rt: "\<not> KMSG_IS_RT (user_message 2 copies_sample)" by (simp add: KMSG_IS_RT_def user_message_def has_def)
  show ?thesis
    using physical_copies_fit [OF _ _ rt copies_sample_space, of "\<lparr>cs_map = user_map\<lparr>vm_answers := [Inr 0, Inr 0x7000, Inr 0, Inr 0]\<rparr>,
        cs_paddr = 0x10000, cs_needed = 0x4000, cs_copy = 0, cs_circular = False\<rparr>" "body_kernel\<lparr>ks_free_memory := [0x500, 0x600]\<rparr>" "0x3000"]
    by (auto simp: copies_sample_def memory_ready_def)
qed

end
