(* ===== verification/Ipc_Kmsg_Copyout_Spec.thy ===== *)
theory Ipc_Kmsg_Copyout_Spec
  imports Ipc_Kmsg_Copyout Ipc_Kmsg_Body_Spec
begin

text \<open>
  Delivery of a right in a body: the receiver gets a fresh name. And what happens to the rights that
  were delivered when the memory for an array that follows them cannot be allocated.
\<close>

lemma copyout_right_sonce:
  assumes sp: "ks_spaces s space = Some sp" and ok: "space_ok sp its (i # fl) claimed"
    and port: "ks_ports s object = Some q" "io_active q" "io_otype q = IOT_PORT" "0 < ip_sorights q" "IO_VALID object"
  obtains name sp' where "ipc_kmsg_copyout_right space object 18 s = Some (MACH_MSG_SUCCESS, name, put_space space sp' s)"
    "MACH_PORT_VALID name" "is_names sp name = None" "space_ok sp' its fl claimed"
    "is_names sp' = (is_names sp)(name \<mapsto> (object, MACH_PORT_TYPE_SEND_ONCE OR 1, 0))"
proof -
  obtain name sp1 sp2 sp3 e where f: "ipc_entry_get sp = Some (Inr (name, Table_entry i), sp1)" "MACH_PORT_VALID name"
      "is_names sp name = None" "is_entry sp1 (Table_entry i) = Some e" "ie_object e = IO_NULL" "IE_BITS_TYPE (ie_bits e) = 0"
      "is_entry_upd (Table_entry i) (ie_object_update (\<lambda>_. object)) sp1 = Some sp2"
      "is_entry sp2 (Table_entry i) = Some (e\<lparr>ie_object := object\<rparr>)"
      "is_entry_upd (Table_entry i) (ie_bits_update (\<lambda>_. ie_bits e OR (MACH_PORT_TYPE_SEND_ONCE OR 1))) sp2 = Some sp3"
      "space_ok sp3 its fl claimed" "is_active sp1"
      "is_names sp3 = (is_names sp)(name \<mapsto> (object, MACH_PORT_TYPE_SEND_ONCE OR 1, 0))"
    using fresh_sonce [OF ok, of object] .
  have act: "is_active sp" using ok by (simp add: space_ok_def)
  note lazy = is_entry_upd.simps is_entry.simps
  have "ipc_object_copyout_entry space object MACH_MSG_TYPE_PORT_SEND_ONCE s = Some (Inr (name, Table_entry i), put_space space sp2 s)"
    by (subst ipc_object_copyout_entry.simps) (simp add: sp act port f get_entry_def upd_entry_def del: lazy)
  moreover have "ipc_right_copyout space name (Table_entry i) MACH_MSG_TYPE_PORT_SEND_ONCE True object (put_space space sp2 s) =
      Some (KERN_SUCCESS, put_space space sp3 s)"
    using port f(6,8,9)
    by (simp add: ipc_right_copyout_def ipc_right_copyout_sonce_def get_entry_def upd_entry_def put_space_def del: lazy)
  ultimately have "ipc_kmsg_copyout_right space object 18 s = Some (MACH_MSG_SUCCESS, name, put_space space sp3 s)"
    using port by (simp add: ipc_kmsg_copyout_right_def mach_msg_type_name_of_def ipc_kmsg_copyout_object_def ipc_object_copyout_def)
  then show thesis using f(2,3,10,12) that by blast
qed

lemma copyout_names_null:
  assumes "\<forall>x\<in>List.set objects. x = MACH_PORT_NULL" and "j + n \<le> length objects"
  shows "ipc_kmsg_copyout_names space disposition n j objects mr s = Some (objects, mr, s)"
  using assms
proof (induction n arbitrary: j)
  case (Suc n)
  have null: "objects ! j = 0" using Suc.prems by simp
  then have "objects[j := 0] = objects" by (metis list_update_id)
  then show ?case using Suc null by (simp add: ipc_kmsg_copyout_right_def IO_VALID_def)
qed simp

text \<open>C37: when the memory for an array of rights cannot be allocated, \<^verbatim>\<open>ipc_kmsg_copyout_body\<close> destroys the rights of
  all descriptors of the body, the ones that it has already turned into names of the receiver
  included. A body with a send-once right and an array is delivered when the memory is there: the right gets a fresh name. When the
  allocation fails, that name is taken for a port and destroyed: the model stops (\<open>None\<close>) as no port
  is at that address, the kernel writes to it.\<close>

theorem copyout_body_cleans_names:
  assumes "ks_spaces s space = Some sp" and "space_ok sp its (i # fl) claimed"
    and "ks_ports s object = Some q" and "io_active q" and "io_otype q = IOT_PORT" and "0 < ip_sorights q" and "IO_VALID object"
    and "\<forall>name. is_names sp name = None \<longrightarrow> ks_ports s name = None"
    and "\<not> KMSG_IS_RT kmsg" and "ikm_descriptor_count kmsg = 2" and "cnt * 4 \<noteq> 0"
    and "ikm_descriptors kmsg = [Port_descriptor object 18, Ool_ports_descriptor (Kernel_array data objects) cnt cp disposition dealloc]"
    and "length objects = unat cnt" and "\<forall>x\<in>List.set objects. x = MACH_PORT_NULL"
  shows "ipc_kmsg_copyout_body kmsg space \<lparr>vm_words = w, vm_answers = [Inl kr]\<rparr> None s = None \<and>
    (\<exists>kmsg' vmap' s' sp' name. ipc_kmsg_copyout_body kmsg space \<lparr>vm_words = w, vm_answers = [Inr addr]\<rparr> None s =
       Some (MACH_MSG_SUCCESS, kmsg', vmap', s') \<and>
     ikm_descriptors kmsg' = [Port_descriptor name 18, Ool_ports_descriptor (User_address addr) cnt MACH_MSG_ALLOCATE disposition dealloc] \<and>
     ks_spaces s' space = Some sp' \<and> is_names sp name = None \<and>
     is_names sp' = (is_names sp)(name \<mapsto> (object, MACH_PORT_TYPE_SEND_ONCE OR 1, 0)))"
proof -
  obtain name sp' where n: "ipc_kmsg_copyout_right space object 18 s = Some (MACH_MSG_SUCCESS, name, put_space space sp' s)"
    "MACH_PORT_VALID name" "is_names sp name = None" "space_ok sp' its fl claimed"
    "is_names sp' = (is_names sp)(name \<mapsto> (object, MACH_PORT_TYPE_SEND_ONCE OR 1, 0))"
    using copyout_right_sonce [OF assms(1-7)] .
  let ?s = "put_space space sp' s" and ?d = "Ool_ports_descriptor (Kernel_array data objects) cnt cp disposition dealloc"
  have "ks_ports ?s name = None" "IO_VALID name"
    using assms(8) n(2,3) by (simp_all add: put_space_def MACH_PORT_VALID_def IO_VALID_def)
  then have "ipc_kmsg_destroy_right name 18 ?s = None"
    by (simp add: ipc_kmsg_destroy_right_def mach_msg_type_name_of_def ipc_object_destroy_def)
  then have clean: "ipc_kmsg_clean_body (kmsg\<lparr>ikm_descriptors := [Port_descriptor name 18, ?d]\<rparr>) 2 ?s = None"
    by (simp add: ipc_kmsg_clean_body_def numeral_2_eq_2)
  have rt: "\<not> KMSG_IS_RT (kmsg\<lparr>ikm_descriptors := ds\<rparr>)" for ds using assms(9) by (simp add: KMSG_IS_RT_def)
  have skip: "SKIP_PORT_DESCRIPTORS None = None" "INCREMENT_SCATTER None = None"
    by (simp_all add: SKIP_PORT_DESCRIPTORS_def INCREMENT_SCATTER_def)
  have two: "take 2 (ikm_descriptors kmsg) = ikm_descriptors kmsg" "drop 2 (ikm_descriptors kmsg) = []" using assms(12) by simp_all
  have fails: "ipc_kmsg_copyout_body kmsg space \<lparr>vm_words = w, vm_answers = [Inl kr]\<rparr> None s = None"
    using assms(10,11,12) n(1) clean rt
    by (simp add: ipc_kmsg_copyout_body_def two ipc_kmsg_copyout_ool_ports_def skip vm_call_def Let_def)
  have nulls: "ipc_kmsg_copyout_names space disposition (unat cnt) 0 objects MACH_MSG_SUCCESS ?s = Some (objects, MACH_MSG_SUCCESS, ?s)"
    by (rule copyout_names_null [OF assms(14)]) (simp add: assms(13))
  obtain kmsg' vmap' s' where works: "ipc_kmsg_copyout_body kmsg space \<lparr>vm_words = w, vm_answers = [Inr addr]\<rparr> None s =
       Some (MACH_MSG_SUCCESS, kmsg', vmap', s')"
     "ikm_descriptors kmsg' = [Port_descriptor name 18, Ool_ports_descriptor (User_address addr) cnt MACH_MSG_ALLOCATE disposition dealloc]"
     "ks_spaces s' space = Some sp'"
    using assms(10,11,12) n(1) rt nulls
    by (simp add: ipc_kmsg_copyout_body_def two ipc_kmsg_copyout_ool_ports_def skip vm_call_def Let_def log_event_def put_space_def)
  show ?thesis using fails works n(3,5) by blast
qed

definition reply_kernel :: kernel where
  "reply_kernel = client_kernel\<lparr>ks_ports := [0x104 \<mapsto> port_sample\<lparr>ip_sorights := 1\<rparr>]\<rparr>"

definition array_message :: ipc_kmsg where
  "array_message = user_message 2 [Port_descriptor 0x104 18, Ool_ports_descriptor (Kernel_array 0x5000 [0, 0]) 2 0 17 False]"

lemma copyout_body_cleans_names_witness:
  "ipc_kmsg_copyout_body array_message 0x3000 \<lparr>vm_words = Map.empty, vm_answers = [Inl KERN_NO_SPACE]\<rparr> None reply_kernel = None \<and>
   (\<exists>kmsg' vmap' s'. ipc_kmsg_copyout_body array_message 0x3000 \<lparr>vm_words = Map.empty, vm_answers = [Inr 0x9000]\<rparr> None reply_kernel =
      Some (MACH_MSG_SUCCESS, kmsg', vmap', s'))"
proof -
  have sp: "ks_spaces reply_kernel 0x3000 = Some client_space"
    and port: "ks_ports reply_kernel 0x104 = Some (port_sample\<lparr>ip_sorights := 1\<rparr>)"
    by (simp_all add: reply_kernel_def client_kernel_def)
  have "is_names client_space 0x104 \<noteq> None"
    by (simp add: client_space_def is_names_def ie_right_def MACH_PORT_INDEX_def MACH_PORT_GEN_def IE_BITS_GEN_def IE_BITS_TYPE_def)
  then have names: "\<forall>name. is_names client_space name = None \<longrightarrow> ks_ports reply_kernel name = None"
    by (auto simp: reply_kernel_def)
  have msg: "ikm_descriptors array_message = [Port_descriptor 0x104 18, Ool_ports_descriptor (Kernel_array 0x5000 [0, 0]) 2 0 17 False]"
    "ikm_descriptor_count array_message = 2" "\<not> KMSG_IS_RT array_message"
    by (simp_all add: array_message_def user_message_def KMSG_IS_RT_def has_def)
  have q: "io_active (port_sample\<lparr>ip_sorights := 1\<rparr>)" "io_otype (port_sample\<lparr>ip_sorights := 1\<rparr>) = IOT_PORT"
      "0 < ip_sorights (port_sample\<lparr>ip_sorights := 1\<rparr>)" "IO_VALID 0x104"
    by (simp_all add: port_sample_def io_active_def io_otype_def IO_VALID_def)
  have cnt: "2 * 4 \<noteq> (0 :: u32)" "length [0, 0 :: u32] = unat (2 :: u32)" "\<forall>x\<in>List.set [0, 0 :: u32]. x = MACH_PORT_NULL" by simp_all
  note run = copyout_body_cleans_names [OF sp client_space_ok port q names msg(3,2) cnt(1) msg(1) cnt(2,3)]
  show ?thesis using run [of "Map.empty" KERN_NO_SPACE "0x9000"] by blast
qed

end
