(* ===== verification/Wait_Queue.thy ===== *)
theory Wait_Queue
  imports Ipc_Prelude
begin

text \<open>
  Wait queues (\<^verbatim>\<open>osfmk/kern/wait_queue.c\<close>), on which threads wait for events, and the routines of
  \<^verbatim>\<open>osfmk/kern/sched_prim.c\<close> that mark a thread as waiting and set it running again. An element
  of a queue is a thread or a link to a subordinate queue; the event of an element tells the
  code which of the two it is, here the constructor does.

  A routine here is a critical section: it runs with the lock of the queue held and takes the
  locks of subordinate queues and of threads inside of it, so it is one function of the
  state. The loops follow the list that a queue held when the loop began: the code reads the
  successor of an element before it handles the element, and it takes off the queue no other
  thread than that of the element, unless links form a cycle. The recursion ends only if they do
  not, so it is a partial function, whose result is then \<open>None\<close>.
\<close>

section \<open>Threads, queues and links\<close>

type_synonym wait_queue_t = u32
type_synonym wait_queue_link_t = u32
type_synonym thread_t = u32

text \<open>An event is an address; these are the address 0, the two variables of \<^verbatim>\<open>ipc_mqueue.c\<close>, and all
  others.\<close>

datatype event_t = NO_EVENT | IPC_MQUEUE_FULL | IPC_MQUEUE_RECEIVE | Other_event u32

datatype wait_result_t =
  THREAD_AWAKENED | THREAD_TIMED_OUT | THREAD_INTERRUPTED | THREAD_RESTART | THREAD_NO_RESULT

datatype wait_interrupt_t = THREAD_UNINT | THREAD_INTERRUPTIBLE | THREAD_ABORTSAFE

datatype wait_queue_element = Thread_element thread_t | Link_element wait_queue_link_t

record wait_queue =
  wq_fifo :: bool
  wq_issub :: bool
  wq_queue :: "wait_queue_element list"
  wqs_sublinks :: "wait_queue_link_t list"

record wait_queue_link_s =
  wql_queue :: wait_queue_t
  wql_subqueue :: wait_queue_t

text \<open>The part of a thread that waiting uses; the bits of its \<^verbatim>\<open>state\<close> are the fields \<open>th_wait\<close>,
  \<open>th_run\<close> and \<open>th_unint\<close>. The fields \<open>ith_\<close> pass a message from a sender to a receiver.\<close>

record thread =
  th_wait :: bool
  th_run :: bool
  th_unint :: bool
  th_wait_queue :: "wait_queue_t option"
  th_wait_event :: event_t
  th_wait_result :: wait_result_t
  th_at_safe_point :: bool
  th_vm_privilege :: bool
  th_active :: bool
  th_wait_timer_is_set :: bool
  ith_state :: u32
  ith_option :: u32
  ith_msize :: u32
  ith_kmsg :: u32
  ith_seqno :: u32

record sched =
  sc_waitqs :: "wait_queue_t \<Rightarrow> wait_queue option"
  sc_links :: "wait_queue_link_t \<Rightarrow> wait_queue_link_s option"
  sc_threads :: "thread_t \<Rightarrow> thread option"

definition upd_waitq :: "wait_queue_t \<Rightarrow> (wait_queue \<Rightarrow> wait_queue) \<Rightarrow> sched \<Rightarrow> sched option" where
  "upd_waitq wq f s =
    do { q \<leftarrow> sc_waitqs s wq; Some (s\<lparr>sc_waitqs := (sc_waitqs s)(wq \<mapsto> f q)\<rparr>) }"

definition upd_thread :: "thread_t \<Rightarrow> (thread \<Rightarrow> thread) \<Rightarrow> sched \<Rightarrow> sched option" where
  "upd_thread t f s =
    do { th \<leftarrow> sc_threads s t; Some (s\<lparr>sc_threads := (sc_threads s)(t \<mapsto> f th)\<rparr>) }"

section \<open>Queues and their links\<close>

abbreviation (input) SYNC_POLICY_FIFO :: u32 where "SYNC_POLICY_FIFO \<equiv> 0"

definition wait_queue_init :: "u32 \<Rightarrow> wait_queue" where
  "wait_queue_init policy =
    \<lparr>wq_fifo = (policy = SYNC_POLICY_FIFO), wq_issub = False, wq_queue = [], wqs_sublinks = []\<rparr>"

definition wait_queue_sub_init :: "u32 \<Rightarrow> wait_queue" where
  "wait_queue_sub_init policy = (wait_queue_init policy)\<lparr>wq_issub := True, wqs_sublinks := []\<rparr>"

definition wait_queue_is_sub :: "wait_queue_t \<Rightarrow> sched \<Rightarrow> bool option" where
  "wait_queue_is_sub wqs s = map_option wq_issub (sc_waitqs s wqs)"

text \<open>The first link of a list of elements, and the first link to a given queue.\<close>

fun first_link :: "wait_queue_element list \<Rightarrow> wait_queue_link_t option" where
  "first_link [] = None"
| "first_link (Thread_element t # es) = first_link es"
| "first_link (Link_element l # es) = Some l"

fun find_link :: "wait_queue_t \<Rightarrow> wait_queue_element list \<Rightarrow> sched \<Rightarrow> wait_queue_link_t option option" where
  "find_link wq_sub [] s = Some None"
| "find_link wq_sub (Thread_element t # es) s = find_link wq_sub es s"
| "find_link wq_sub (Link_element l # es) s =
    do { wql \<leftarrow> sc_links s l;
         if wql_subqueue wql = wq_sub then Some (Some l) else find_link wq_sub es s }"

definition wait_queue_member :: "wait_queue_t \<Rightarrow> wait_queue_t \<Rightarrow> sched \<Rightarrow> bool option" where
  "wait_queue_member wq wq_sub s =
    do { sub \<leftarrow> wait_queue_is_sub wq_sub s;
         kassert sub;
         q \<leftarrow> sc_waitqs s wq;
         l \<leftarrow> find_link wq_sub (wq_queue q) s;
         Some (l \<noteq> None) }"

text \<open>\<open>wql\<close> is the address that \<^verbatim>\<open>kalloc\<close> returns for the link, 0 if it fails.\<close>

definition wait_queue_link ::
  "wait_queue_link_t \<Rightarrow> wait_queue_t \<Rightarrow> wait_queue_t \<Rightarrow> sched \<Rightarrow> (kern_return_t \<times> sched) option" where
  "wait_queue_link wql wq wq_sub s =
    do { sub \<leftarrow> wait_queue_is_sub wq_sub s;
         kassert sub;
         m \<leftarrow> wait_queue_member wq wq_sub s;
         kassert (\<not> m);
         if wql = 0 then Some (KERN_RESOURCE_SHORTAGE, s)
         else
           (let s = s\<lparr>sc_links := (sc_links s)(wql \<mapsto> \<lparr>wql_queue = wq, wql_subqueue = wq_sub\<rparr>)\<rparr> in
            do { s \<leftarrow> upd_waitq wq (\<lambda>q. q\<lparr>wq_queue := wq_queue q @ [Link_element wql]\<rparr>) s;
                 s \<leftarrow> upd_waitq wq_sub (\<lambda>q. q\<lparr>wqs_sublinks := wqs_sublinks q @ [wql]\<rparr>) s;
                 Some (KERN_SUCCESS, s) }) }"

text \<open>Taking a link off the two queues that it is on, and freeing it.\<close>

definition remove_link :: "wait_queue_link_t \<Rightarrow> wait_queue_t \<Rightarrow> wait_queue_t \<Rightarrow> sched \<Rightarrow> sched option" where
  "remove_link wql wq wq_sub s =
    do { s \<leftarrow> upd_waitq wq (\<lambda>q. q\<lparr>wq_queue := remove1 (Link_element wql) (wq_queue q)\<rparr>) s;
         s \<leftarrow> upd_waitq wq_sub (\<lambda>q. q\<lparr>wqs_sublinks := remove1 wql (wqs_sublinks q)\<rparr>) s;
         Some (s\<lparr>sc_links := (sc_links s)(wql := None)\<rparr>) }"

definition wait_queue_unlink :: "wait_queue_t \<Rightarrow> wait_queue_t \<Rightarrow> sched \<Rightarrow> sched option" where
  "wait_queue_unlink wq wq_sub s =
    do { sub \<leftarrow> wait_queue_is_sub wq_sub s;
         kassert sub;
         m \<leftarrow> wait_queue_member wq wq_sub s;
         kassert m;
         q \<leftarrow> sc_waitqs s wq;
         l \<leftarrow> find_link wq_sub (wq_queue q) s;
         case l of None \<Rightarrow> None | Some wql \<Rightarrow> remove_link wql wq wq_sub s }"

definition wait_queue_unlink_one :: "wait_queue_t \<Rightarrow> sched \<Rightarrow> (wait_queue_t option \<times> sched) option" where
  "wait_queue_unlink_one wq s =
    do { q \<leftarrow> sc_waitqs s wq;
         case first_link (wq_queue q) of
           None \<Rightarrow> Some (None, s)
         | Some l \<Rightarrow>
             do { wql \<leftarrow> sc_links s l;
                  s \<leftarrow> remove_link l wq (wql_subqueue wql) s;
                  Some (Some (wql_subqueue wql), s) } }"

section \<open>Beginning and ending a wait\<close>

definition thread_mark_wait_locked :: "thread_t \<Rightarrow> wait_interrupt_t \<Rightarrow> sched \<Rightarrow> sched option" where
  "thread_mark_wait_locked thread interruptible =
    upd_thread thread (\<lambda>th. th\<lparr>th_wait_result := THREAD_NO_RESULT, th_wait := True,
      th_unint := (th_unint th \<or> interruptible = THREAD_UNINT),
      th_at_safe_point := (interruptible = THREAD_ABORTSAFE)\<rparr>)"

text \<open>\<open>thread\<close> is the current thread. A thread with the privilege goes to the head.\<close>

definition wait_queue_assert_wait_locked ::
  "thread_t \<Rightarrow> wait_queue_t \<Rightarrow> event_t \<Rightarrow> wait_interrupt_t \<Rightarrow> sched \<Rightarrow> sched option" where
  "wait_queue_assert_wait_locked thread wq event interruptible s =
    do { th \<leftarrow> sc_threads s thread;
         s \<leftarrow> upd_waitq wq (\<lambda>q. q\<lparr>wq_queue :=
                 (if th_vm_privilege th then Thread_element thread # wq_queue q
                  else wq_queue q @ [Thread_element thread])\<rparr>) s;
         s \<leftarrow> upd_thread thread (\<lambda>th. th\<lparr>th_wait_event := event, th_wait_queue := Some wq\<rparr>) s;
         thread_mark_wait_locked thread interruptible s }"

text \<open>Taking a thread off its queue, as every routine that selects a thread does.\<close>

definition unqueue_thread :: "wait_queue_t \<Rightarrow> thread_t \<Rightarrow> sched \<Rightarrow> sched option" where
  "unqueue_thread wq t s =
    do { s \<leftarrow> upd_waitq wq (\<lambda>q. q\<lparr>wq_queue := remove1 (Thread_element t) (wq_queue q)\<rparr>) s;
         upd_thread t (\<lambda>th. th\<lparr>th_wait_queue := None, th_wait_event := NO_EVENT,
           th_at_safe_point := False\<rparr>) s }"

text \<open>Putting the thread on a run queue is the work of its scheduling policy.\<close>

definition thread_go_locked :: "thread_t \<Rightarrow> wait_result_t \<Rightarrow> sched \<Rightarrow> sched option" where
  "thread_go_locked thread res s =
    do { th \<leftarrow> sc_threads s thread;
         kassert (th_at_safe_point th = False);
         kassert (th_wait_event th = NO_EVENT);
         kassert (th_wait_queue th = None);
         if th_wait th then
           upd_thread thread (\<lambda>th. th\<lparr>th_wait := False, th_run := True, th_wait_result := res\<rparr>) s
         else Some s }"

definition wait_queue_remove :: "thread_t \<Rightarrow> sched \<Rightarrow> (bool \<times> sched) option" where
  "wait_queue_remove thread s =
    do { th \<leftarrow> sc_threads s thread;
         case th_wait_queue th of
           None \<Rightarrow> Some (False, s)
         | Some wq \<Rightarrow> do { s \<leftarrow> unqueue_thread wq thread s; Some (True, s) } }"

definition clear_wait_internal :: "thread_t \<Rightarrow> wait_result_t \<Rightarrow> sched \<Rightarrow> sched option" where
  "clear_wait_internal thread res s =
    do { th \<leftarrow> sc_threads s thread;
         if th_wait_queue th = None then thread_go_locked thread res s
         else
           do { (removed, s) \<leftarrow> wait_queue_remove thread s;
                if removed then thread_go_locked thread res s else Some s } }"

definition clear_wait :: "thread_t \<Rightarrow> wait_result_t \<Rightarrow> bool \<Rightarrow> sched \<Rightarrow> sched option" where
  "clear_wait thread res interruptible s =
    do { th \<leftarrow> sc_threads s thread;
         if \<not> interruptible \<or> \<not> th_unint th then clear_wait_internal thread res s else Some s }"

text \<open>The timer of a thread: \<open>delayed\<close> says whether the call was entered anew, to run later.\<close>

definition thread_set_timer :: "thread_t \<Rightarrow> sched \<Rightarrow> sched option" where
  "thread_set_timer thread s =
    do { th \<leftarrow> sc_threads s thread;
         if th_wait th then
           do { kassert (\<not> th_wait_timer_is_set th);
                upd_thread thread (\<lambda>th. th\<lparr>th_wait_timer_is_set := True\<rparr>) s }
         else Some s }"

definition thread_cancel_timer :: "thread_t \<Rightarrow> sched \<Rightarrow> sched option" where
  "thread_cancel_timer thread = upd_thread thread (\<lambda>th. th\<lparr>th_wait_timer_is_set := False\<rparr>)"

definition thread_timer_expire :: "thread_t \<Rightarrow> bool \<Rightarrow> sched \<Rightarrow> sched option" where
  "thread_timer_expire thread delayed s =
    do { th \<leftarrow> sc_threads s thread;
         if th_wait_timer_is_set th \<and> \<not> delayed then
           do { s \<leftarrow> upd_thread thread (\<lambda>th. th\<lparr>th_wait_timer_is_set := False\<rparr>) s;
                if th_active th then clear_wait_internal thread THREAD_TIMED_OUT s else Some s }
         else Some s }"

section \<open>Selecting threads\<close>

text \<open>A result \<open>None\<close> inside of the pair is \<^verbatim>\<open>THREAD_NULL\<close>.\<close>

partial_function (option) select_one_from ::
  "wait_queue_t \<Rightarrow> event_t \<Rightarrow> wait_queue_element list \<Rightarrow> sched \<Rightarrow> (thread_t option \<times> sched) option" where
  "select_one_from wq event es s =
    (case es of
       [] \<Rightarrow> Some (None, s)
     | Link_element l # wqe_next \<Rightarrow>
         do { wql \<leftarrow> sc_links s l;
              sub_queue \<leftarrow> sc_waitqs s (wql_subqueue wql);
              (t, s) \<leftarrow> (if wq_queue sub_queue \<noteq> [] then
                          do { kassert (wq_fifo sub_queue);
                               select_one_from (wql_subqueue wql) event (wq_queue sub_queue) s }
                        else Some (None, s));
              if t \<noteq> None then Some (t, s) else select_one_from wq event wqe_next s }
     | Thread_element t # wqe_next \<Rightarrow>
         do { th \<leftarrow> sc_threads s t;
              if th_wait_event th = event then do { s \<leftarrow> unqueue_thread wq t s; Some (Some t, s) }
              else select_one_from wq event wqe_next s })"

definition wait_queue_select_one ::
  "wait_queue_t \<Rightarrow> event_t \<Rightarrow> sched \<Rightarrow> (thread_t option \<times> sched) option" where
  "wait_queue_select_one wq event s =
    do { q \<leftarrow> sc_waitqs s wq;
         kassert (wq_fifo q);
         select_one_from wq event (wq_queue q) s }"

partial_function (option) select_all_from ::
  "wait_queue_t \<Rightarrow> event_t \<Rightarrow> wait_queue_element list \<Rightarrow> thread_t list \<Rightarrow> sched \<Rightarrow>
    (thread_t list \<times> sched) option" where
  "select_all_from wq event es wake_queue s =
    (case es of
       [] \<Rightarrow> Some (wake_queue, s)
     | Link_element l # wqe_next \<Rightarrow>
         do { wql \<leftarrow> sc_links s l;
              sub_queue \<leftarrow> sc_waitqs s (wql_subqueue wql);
              (wake_queue, s) \<leftarrow> (if wq_queue sub_queue \<noteq> [] then
                  select_all_from (wql_subqueue wql) event (wq_queue sub_queue) wake_queue s
                else Some (wake_queue, s));
              select_all_from wq event wqe_next wake_queue s }
     | Thread_element t # wqe_next \<Rightarrow>
         do { th \<leftarrow> sc_threads s t;
              if th_wait_event th = event then
                do { s \<leftarrow> unqueue_thread wq t s;
                     select_all_from wq event wqe_next (wake_queue @ [t]) s }
              else select_all_from wq event wqe_next wake_queue s })"

definition wait_queue_select_all ::
  "wait_queue_t \<Rightarrow> event_t \<Rightarrow> sched \<Rightarrow> (thread_t list \<times> sched) option" where
  "wait_queue_select_all wq event s =
    do { q \<leftarrow> sc_waitqs s wq; select_all_from wq event (wq_queue q) [] s }"

partial_function (option) peek_from ::
  "wait_queue_t \<Rightarrow> event_t \<Rightarrow> wait_queue_element list \<Rightarrow> sched \<Rightarrow> (wait_queue_t \<times> thread_t) option option" where
  "peek_from wq event es s =
    (case es of
       [] \<Rightarrow> Some None
     | Link_element l # wqe_next \<Rightarrow>
         do { wql \<leftarrow> sc_links s l;
              sub_queue \<leftarrow> sc_waitqs s (wql_subqueue wql);
              tp \<leftarrow> (if wq_queue sub_queue \<noteq> [] then
                       do { kassert (wq_fifo sub_queue);
                            peek_from (wql_subqueue wql) event (wq_queue sub_queue) s }
                     else Some None);
              if tp \<noteq> None then Some tp else peek_from wq event wqe_next s }
     | Thread_element t # wqe_next \<Rightarrow>
         do { th \<leftarrow> sc_threads s t;
              if th_wait_event th = event then Some (Some (wq, t))
              else peek_from wq event wqe_next s })"

definition wait_queue_peek_locked ::
  "wait_queue_t \<Rightarrow> event_t \<Rightarrow> sched \<Rightarrow> (wait_queue_t \<times> thread_t) option option" where
  "wait_queue_peek_locked wq event s =
    do { q \<leftarrow> sc_waitqs s wq;
         kassert (wq_fifo q);
         peek_from wq event (wq_queue q) s }"

definition wait_queue_pull_thread_locked :: "wait_queue_t \<Rightarrow> thread_t \<Rightarrow> sched \<Rightarrow> sched option" where
  "wait_queue_pull_thread_locked waitq thread s =
    do { th \<leftarrow> sc_threads s thread;
         kassert (th_wait_queue th = Some waitq);
         unqueue_thread waitq thread s }"

text \<open>\<open>select_thread_from\<close> walks the links of a queue; the test of the queue itself comes first, also
  in the subordinate queues.\<close>

partial_function (option) select_thread_from ::
  "event_t \<Rightarrow> thread_t \<Rightarrow> wait_queue_element list \<Rightarrow> sched \<Rightarrow> (bool \<times> sched) option" where
  "select_thread_from event thread es s =
    (case es of
       [] \<Rightarrow> Some (False, s)
     | Thread_element t # wqe_next \<Rightarrow> select_thread_from event thread wqe_next s
     | Link_element l # wqe_next \<Rightarrow>
         do { wql \<leftarrow> sc_links s l;
              sub_queue \<leftarrow> sc_waitqs s (wql_subqueue wql);
              (res, s) \<leftarrow> (if wq_queue sub_queue \<noteq> [] then
                  do { kassert (wq_fifo sub_queue);
                       th \<leftarrow> sc_threads s thread;
                       if th_wait_queue th = Some (wql_subqueue wql) \<and> th_wait_event th = event then
                         do { s \<leftarrow> unqueue_thread (wql_subqueue wql) thread s; Some (True, s) }
                       else select_thread_from event thread (wq_queue sub_queue) s }
                else Some (False, s));
              if res then Some (True, s) else select_thread_from event thread wqe_next s })"

definition wait_queue_select_thread ::
  "wait_queue_t \<Rightarrow> event_t \<Rightarrow> thread_t \<Rightarrow> sched \<Rightarrow> (bool \<times> sched) option" where
  "wait_queue_select_thread wq event thread s =
    do { q \<leftarrow> sc_waitqs s wq;
         kassert (wq_fifo q);
         th \<leftarrow> sc_threads s thread;
         if th_wait_queue th = Some wq \<and> th_wait_event th = event then
           do { s \<leftarrow> unqueue_thread wq thread s; Some (True, s) }
         else select_thread_from event thread (wq_queue q) s }"

section \<open>Waking threads\<close>

fun go_all :: "thread_t list \<Rightarrow> wait_result_t \<Rightarrow> sched \<Rightarrow> sched option" where
  "go_all [] res s = Some s"
| "go_all (t # ts) res s = do { s \<leftarrow> thread_go_locked t res s; go_all ts res s }"

text \<open>\<open>True\<close> is \<^verbatim>\<open>KERN_SUCCESS\<close> and \<open>False\<close> is \<^verbatim>\<open>KERN_NOT_WAITING\<close>.\<close>

definition wait_queue_wakeup_all_locked ::
  "wait_queue_t \<Rightarrow> event_t \<Rightarrow> wait_result_t \<Rightarrow> sched \<Rightarrow> (bool \<times> sched) option" where
  "wait_queue_wakeup_all_locked wq event res s =
    do { (q, s) \<leftarrow> wait_queue_select_all wq event s;
         s \<leftarrow> go_all q res s;
         Some (q \<noteq> [], s) }"

definition wait_queue_wakeup_identity_locked ::
  "wait_queue_t \<Rightarrow> event_t \<Rightarrow> wait_result_t \<Rightarrow> sched \<Rightarrow> (thread_t option \<times> sched) option" where
  "wait_queue_wakeup_identity_locked wq event res s =
    do { (thread, s) \<leftarrow> wait_queue_select_one wq event s;
         case thread of
           Some t \<Rightarrow> do { s \<leftarrow> thread_go_locked t res s; Some (Some t, s) }
         | None \<Rightarrow> Some (None, s) }"

definition wait_queue_wakeup_one_locked ::
  "wait_queue_t \<Rightarrow> event_t \<Rightarrow> wait_result_t \<Rightarrow> sched \<Rightarrow> (bool \<times> sched) option" where
  "wait_queue_wakeup_one_locked wq event res s =
    do { (thread, s) \<leftarrow> wait_queue_select_one wq event s;
         case thread of
           Some t \<Rightarrow> do { s \<leftarrow> thread_go_locked t res s; Some (True, s) }
         | None \<Rightarrow> Some (False, s) }"

definition wait_queue_wakeup_thread_locked ::
  "wait_queue_t \<Rightarrow> event_t \<Rightarrow> thread_t \<Rightarrow> wait_result_t \<Rightarrow> sched \<Rightarrow> (bool \<times> sched) option" where
  "wait_queue_wakeup_thread_locked wq event thread res s =
    do { (found, s) \<leftarrow> wait_queue_select_thread wq event thread s;
         if \<not> found then Some (False, s)
         else do { s \<leftarrow> thread_go_locked thread res s; Some (True, s) } }"

text \<open>The routines that take the lock themselves.\<close>

definition wait_queue_assert_wait ::
  "thread_t \<Rightarrow> wait_queue_t \<Rightarrow> event_t \<Rightarrow> wait_interrupt_t \<Rightarrow> sched \<Rightarrow> sched option" where
  "wait_queue_assert_wait thread wq event interruptible s =
    wait_queue_assert_wait_locked thread wq event interruptible s"

definition wait_queue_wakeup_all ::
  "wait_queue_t \<Rightarrow> event_t \<Rightarrow> wait_result_t \<Rightarrow> sched \<Rightarrow> (bool \<times> sched) option" where
  "wait_queue_wakeup_all wq event res s = wait_queue_wakeup_all_locked wq event res s"

definition wait_queue_wakeup_one ::
  "wait_queue_t \<Rightarrow> event_t \<Rightarrow> wait_result_t \<Rightarrow> sched \<Rightarrow> (bool \<times> sched) option" where
  "wait_queue_wakeup_one wq event res s =
    do { (thread, s) \<leftarrow> wait_queue_select_one wq event s;
         case thread of
           Some t \<Rightarrow> do { s \<leftarrow> thread_go_locked t res s; Some (True, s) }
         | None \<Rightarrow> Some (False, s) }"

definition wait_queue_wakeup_thread ::
  "wait_queue_t \<Rightarrow> event_t \<Rightarrow> thread_t \<Rightarrow> wait_result_t \<Rightarrow> sched \<Rightarrow> (bool \<times> sched) option" where
  "wait_queue_wakeup_thread wq event thread res s =
    do { (found, s) \<leftarrow> wait_queue_select_thread wq event thread s;
         if found then do { s \<leftarrow> thread_go_locked thread res s; Some (True, s) } else Some (False, s) }"

end
