(* ===== verification/Wait_Queue_Spec.thy ===== *)
theory Wait_Queue_Spec
  imports Wait_Queue
begin

text \<open>
  What wait queues promise: a thread is on the one queue that it says, the searches through a
  queue and its subordinates find threads in the order of the queue and return if the links form no
  cycle, and waking takes exactly the chosen threads off and sets them running.
\<close>

section \<open>Consistent queues\<close>

definition queue_of :: "sched \<Rightarrow> thread_t \<Rightarrow> wait_queue_t option" where
  "queue_of s t = (case sc_threads s t of None \<Rightarrow> None | Some th \<Rightarrow> th_wait_queue th)"

definition event_of :: "sched \<Rightarrow> thread_t \<Rightarrow> event_t" where
  "event_of s t = (case sc_threads s t of None \<Rightarrow> NO_EVENT | Some th \<Rightarrow> th_wait_event th)"

definition thread_ok :: "thread \<Rightarrow> bool" where
  "thread_ok th \<longleftrightarrow>
    (if th_wait_queue th = None then th_wait_event th = NO_EVENT \<and> \<not> th_at_safe_point th
     else th_wait_event th \<noteq> NO_EVENT \<and> th_wait th)"

definition elements_ok :: "sched \<Rightarrow> bool" where
  "elements_ok s \<longleftrightarrow>
    (\<forall>a q. sc_waitqs s a = Some q \<longrightarrow> wq_fifo q \<and> distinct (wq_queue q) \<and>
       (\<forall>t. Thread_element t \<in> set (wq_queue q) \<longleftrightarrow> queue_of s t = Some a)) \<and>
    (\<forall>t a. queue_of s t = Some a \<longrightarrow> sc_waitqs s a \<noteq> None) \<and>
    (\<forall>t th. sc_threads s t = Some th \<longrightarrow> thread_ok th)"

definition links_ok :: "sched \<Rightarrow> bool" where
  "links_ok s \<longleftrightarrow>
    (\<forall>a q l. sc_waitqs s a = Some q \<longrightarrow> distinct (wqs_sublinks q) \<and>
       (Link_element l \<in> set (wq_queue q) \<longleftrightarrow> (\<exists>wql. sc_links s l = Some wql \<and> wql_queue wql = a)) \<and>
       (l \<in> set (wqs_sublinks q) \<longleftrightarrow> (\<exists>wql. sc_links s l = Some wql \<and> wql_subqueue wql = a))) \<and>
    (\<forall>l wql. sc_links s l = Some wql \<longrightarrow>
       (\<exists>q. sc_waitqs s (wql_queue wql) = Some q \<and> \<not> wq_issub q) \<and>
       (\<exists>q. sc_waitqs s (wql_subqueue wql) = Some q \<and> wq_issub q)) \<and>
    inj_on (sc_links s) (dom (sc_links s))"

definition sched_ok :: "sched \<Rightarrow> bool" where
  "sched_ok s \<longleftrightarrow> elements_ok s \<and> links_ok s"

section \<open>Taking threads off their queues\<close>

definition map_threads :: "(thread \<Rightarrow> thread) \<Rightarrow> thread_t set \<Rightarrow> sched \<Rightarrow> sched" where
  "map_threads f T s =
    s\<lparr>sc_threads := (\<lambda>t. if t \<in> T then map_option f (sc_threads s t) else sc_threads s t)\<rparr>"

definition drop_threads :: "thread_t set \<Rightarrow> wait_queue \<Rightarrow> wait_queue" where
  "drop_threads T q = q\<lparr>wq_queue := filter (\<lambda>e. e \<notin> Thread_element ` T) (wq_queue q)\<rparr>"

definition take_off :: "(thread \<Rightarrow> thread) \<Rightarrow> thread_t set \<Rightarrow> sched \<Rightarrow> sched" where
  "take_off f T s = map_threads f T (s\<lparr>sc_waitqs := map_option (drop_threads T) \<circ> sc_waitqs s\<rparr>)"

definition off :: "thread \<Rightarrow> thread" where
  "off th = th\<lparr>th_wait_queue := None, th_wait_event := NO_EVENT, th_at_safe_point := False\<rparr>"

definition go :: "wait_result_t \<Rightarrow> thread \<Rightarrow> thread" where
  "go res th = th\<lparr>th_wait := False, th_run := True, th_wait_result := res\<rparr>"

abbreviation wake :: "wait_result_t \<Rightarrow> thread \<Rightarrow> thread" where
  "wake res \<equiv> go res \<circ> off"

lemma take_off_simps [simp]:
  "sc_links (take_off f T s) = sc_links s"
  "sc_waitqs (take_off f T s) a = map_option (drop_threads T) (sc_waitqs s a)"
  "sc_threads (take_off f T s) t = (if t \<in> T then map_option f (sc_threads s t) else sc_threads s t)"
  by (simp_all add: take_off_def map_threads_def)

lemma drop_threads_simps [simp]:
  "wq_fifo (drop_threads T q) = wq_fifo q" "wq_issub (drop_threads T q) = wq_issub q"
  "wqs_sublinks (drop_threads T q) = wqs_sublinks q"
  "wq_queue (drop_threads T q) = filter (\<lambda>e. e \<notin> Thread_element ` T) (wq_queue q)"
  by (simp_all add: drop_threads_def)

lemma off_simps [simp]:
  "th_wait_queue (off th) = None" "th_wait_event (off th) = NO_EVENT" "th_at_safe_point (off th) = False"
  "th_wait (off th) = th_wait th"
  by (simp_all add: off_def)

lemma go_simps [simp]:
  "th_wait_queue (go res th) = th_wait_queue th" "th_wait_event (go res th) = th_wait_event th"
  "th_at_safe_point (go res th) = th_at_safe_point th" "th_wait (go res th) = False"
  by (simp_all add: go_def)

lemma sched_eqI:
  fixes s s' :: sched
  assumes "\<And>a. sc_waitqs s a = sc_waitqs s' a" "\<And>l. sc_links s l = sc_links s' l" "\<And>t. sc_threads s t = sc_threads s' t"
  shows "s = s'"
  by (rule sched.equality) (use assms in \<open>auto intro!: ext\<close>)

lemma take_off_Un: "T \<inter> U = {} \<Longrightarrow> take_off f T (take_off f U s) = take_off f (T \<union> U) s"
  by (rule sched_eqI)
    (auto simp: option.map_comp comp_def drop_threads_def conj_commute image_Un intro!: option.map_cong0)

lemma map_take_off: "map_threads g T (take_off f T s) = take_off (g \<circ> f) T s"
  by (rule sched_eqI) (auto simp: map_threads_def option.map_comp)

lemma take_off_empty [simp]: "take_off f {} s = s"
  by (rule sched_eqI) (simp_all add: option.map_ident_strong drop_threads_def)

lemma queue_of_take_off [simp]:
  "(\<And>th. th_wait_queue (f th) = None) \<Longrightarrow> queue_of (take_off f T s) t = (if t \<in> T then None else queue_of s t)"
  by (simp add: queue_of_def split: option.splits)

lemma event_of_take_off [simp]:
  "(\<And>th. th_wait_event (f th) = NO_EVENT) \<Longrightarrow> event_of (take_off f T s) t = (if t \<in> T then NO_EVENT else event_of s t)"
  by (simp add: event_of_def split: option.splits)

text \<open>Queues stay consistent when threads leave them, whatever else happens to these threads.\<close>

lemma take_off_elements_ok:
  assumes "elements_ok s" and f: "\<And>th. th_wait_queue (f th) = None" "\<And>th. thread_ok (f th)"
  shows "elements_ok (take_off f T s)"
  unfolding elements_ok_def
proof (intro conjI allI impI)
  fix a q assume "sc_waitqs (take_off f T s) a = Some q"
  then obtain q0 where q0: "sc_waitqs s a = Some q0" and q: "q = drop_threads T q0" by auto
  then show "wq_fifo q" "distinct (wq_queue q)" using assms(1) by (auto simp: elements_ok_def)
  show "Thread_element t \<in> set (wq_queue q) \<longleftrightarrow> queue_of (take_off f T s) t = Some a" for t
    using assms(1) q0 by (auto simp: q f elements_ok_def)
next
  fix t a assume "queue_of (take_off f T s) t = Some a"
  then show "sc_waitqs (take_off f T s) a \<noteq> None" using assms(1) by (auto simp: f elements_ok_def split: if_splits)
next
  fix t th assume "sc_threads (take_off f T s) t = Some th"
  then show "thread_ok th" using assms(1) f by (auto simp: elements_ok_def split: if_splits)
qed

lemma take_off_links_ok:
  assumes "links_ok s"
  shows "links_ok (take_off f T s)"
  unfolding links_ok_def
proof (intro conjI allI impI)
  fix l wql assume "sc_links (take_off f T s) l = Some wql"
  then have "sc_links s l = Some wql" by simp
  then obtain q r where "sc_waitqs s (wql_queue wql) = Some q" "\<not> wq_issub q"
    "sc_waitqs s (wql_subqueue wql) = Some r" "wq_issub r"
    using assms unfolding links_ok_def by blast
  then show "\<exists>q. sc_waitqs (take_off f T s) (wql_queue wql) = Some q \<and> \<not> wq_issub q"
    "\<exists>q. sc_waitqs (take_off f T s) (wql_subqueue wql) = Some q \<and> wq_issub q" by simp_all
qed (use assms in \<open>auto simp: links_ok_def\<close>)

lemma thread_ok_off [simp]: "thread_ok (off th)" "thread_ok (go res (off th))"
  by (simp_all add: thread_ok_def)

lemma take_off_ok [simp]:
  "sched_ok s \<Longrightarrow> sched_ok (take_off off T s)" "sched_ok s \<Longrightarrow> sched_ok (take_off (wake res) T s)"
  by (simp_all add: sched_ok_def take_off_elements_ok take_off_links_ok)

lemma unqueue_thread_eq:
  assumes "elements_ok s" "queue_of s t = Some wq"
  shows "unqueue_thread wq t s = Some (take_off off {t} s)"
proof -
  obtain th where th: "sc_threads s t = Some th" using assms(2) by (auto simp: queue_of_def split: option.splits)
  obtain q where q: "sc_waitqs s wq = Some q" using assms by (fastforce simp: elements_ok_def)
  have "remove1 (Thread_element t) (wq_queue q) = wq_queue (drop_threads {t} q)"
    using assms(1) q by (simp add: elements_ok_def distinct_remove1_removeAll removeAll_filter_not_eq eq_commute)
  moreover have "drop_threads {t} r = r" if "sc_waitqs s a = Some r" "a \<noteq> wq" for a r
  proof -
    have "Thread_element t \<notin> set (wq_queue r)" using assms that by (auto simp: elements_ok_def)
    then have "filter (\<lambda>e. e \<noteq> Thread_element t) (wq_queue r) = wq_queue r" by (intro filter_True) auto
    then show ?thesis by (simp add: drop_threads_def)
  qed
  ultimately show ?thesis
    by (auto simp: unqueue_thread_def upd_waitq_def upd_thread_def th q off_def drop_threads_def
        map_option_case intro!: sched_eqI split: option.split)
qed

lemma go_locked_eq:
  assumes "sc_threads s t = Some th" "th_wait th" "th_wait_queue th = None" "thread_ok th"
  shows "thread_go_locked t res s = Some (map_threads (go res) {t} s)"
  using assms by (auto simp: thread_go_locked_def thread_ok_def upd_thread_def map_threads_def go_def intro!: sched_eqI)

lemma go_all_eq:
  assumes "distinct ts" "\<And>t. t \<in> set ts \<Longrightarrow> \<exists>th. sc_threads s t = Some th \<and> th_wait th \<and> th_wait_queue th = None \<and> thread_ok th"
  shows "go_all ts res s = Some (map_threads (go res) (set ts) s)"
  using assms
proof (induction ts arbitrary: s)
  case Nil
  then show ?case by (auto simp: map_threads_def intro!: sched_eqI)
next
  case (Cons t ts)
  obtain th where "sc_threads s t = Some th" "th_wait th" "th_wait_queue th = None" "thread_ok th"
    using Cons.prems(2) [of t] by auto
  note go_locked_eq [OF this, of res]
  moreover have "go_all ts res (map_threads (go res) {t} s) = Some (map_threads (go res) (set ts) (map_threads (go res) {t} s))"
    by (rule Cons.IH) (use Cons.prems in \<open>auto simp: map_threads_def\<close>)
  moreover have "map_threads (go res) (set ts) (map_threads (go res) {t} s) = map_threads (go res) (set (t # ts)) s"
    using Cons.prems(1) by (auto simp: map_threads_def intro!: sched_eqI)
  ultimately show ?case by simp
qed

section \<open>The threads that a search passes\<close>

text \<open>\<open>waiters s wq es ts\<close>: the walk of the elements \<open>es\<close> of the queue \<open>wq\<close>, and of the queues behind its
  links, meets the threads \<open>ts\<close>, each with its queue, in this order. There is such a list exactly
  if the walk ends.\<close>

inductive waiters ::
  "sched \<Rightarrow> wait_queue_t \<Rightarrow> wait_queue_element list \<Rightarrow> (wait_queue_t \<times> thread_t) list \<Rightarrow> bool" for s where
  waiters_end: "waiters s wq [] []"
| waiters_thread: "\<lbrakk>sc_threads s t \<noteq> None; waiters s wq es ts\<rbrakk> \<Longrightarrow> waiters s wq (Thread_element t # es) ((wq, t) # ts)"
| waiters_link: "\<lbrakk>sc_links s l = Some wql; sc_waitqs s (wql_subqueue wql) = Some sub; wq_fifo sub;
    waiters s (wql_subqueue wql) (wq_queue sub) us; waiters s wq es ts\<rbrakk>
    \<Longrightarrow> waiters s wq (Link_element l # es) (us @ ts)"

inductive_cases waiters_endE [elim!]: "waiters s wq [] ts"

definition chosen :: "sched \<Rightarrow> event_t \<Rightarrow> (wait_queue_t \<times> thread_t) list \<Rightarrow> (wait_queue_t \<times> thread_t) option" where
  "chosen s event ts = List.find (\<lambda>(a, t). event_of s t = event) ts"

lemma chosen_simps [simp]:
  "chosen s event [] = None"
  "chosen s event ((a, t) # ts) = (if event_of s t = event then Some (a, t) else chosen s event ts)"
  by (simp_all add: chosen_def)

lemma chosen_append [simp]:
  "chosen s event (us @ ts) = (case chosen s event us of None \<Rightarrow> chosen s event ts | Some x \<Rightarrow> Some x)"
  by (induction us) auto

lemma chosen_Some: "chosen s event ts = Some (a, t) \<Longrightarrow> (a, t) \<in> set ts \<and> event_of s t = event"
  by (auto simp: chosen_def find_Some_iff in_set_conv_nth)

lemma chosen_None: "chosen s event ts = None \<longleftrightarrow> (\<forall>(a, t) \<in> set ts. event_of s t \<noteq> event)"
  by (auto simp: chosen_def find_None_iff)

text \<open>Each thread is met on its own queue, if the walk began with elements of \<open>wq\<close>.\<close>

lemma waiters_queue_of:
  assumes "waiters s wq es ts" "elements_ok s" "sc_waitqs s wq = Some q" "set es \<subseteq> set (wq_queue q)" "(a, t) \<in> set ts"
  shows "queue_of s t = Some a"
  using assms
proof (induction arbitrary: q rule: waiters.induct)
  case (waiters_thread t' wq' es ts)
  then show ?case by (auto simp: elements_ok_def)
next
  case (waiters_link l wql sub us wq es ts)
  then show ?case by auto
qed simp

text \<open>Searching for one thread.\<close>

lemma select_one_from_spec:
  assumes "waiters s wq es ts" "elements_ok s" "sc_waitqs s wq = Some q" "set es \<subseteq> set (wq_queue q)"
  shows "select_one_from wq event es s =
    (case chosen s event ts of None \<Rightarrow> Some (None, s) | Some (a, t) \<Rightarrow> Some (Some t, take_off off {t} s))"
  using assms
proof (induction arbitrary: q rule: waiters.induct)
  case (waiters_end wq)
  then show ?case by (simp add: select_one_from.simps)
next
  case (waiters_thread t wq es ts)
  then obtain th where "sc_threads s t = Some th" by blast
  moreover have "queue_of s t = Some wq" using waiters_thread.prems by (auto simp: elements_ok_def)
  ultimately show ?case using waiters_thread.IH [OF waiters_thread.prems(1,2)] waiters_thread.prems
    by (subst select_one_from.simps) (simp add: event_of_def unqueue_thread_eq)
next
  case (waiters_link l wql sub us wq es ts)
  have us: "wq_queue sub = [] \<Longrightarrow> us = []" using waiters_link.hyps(4) by auto
  have rest: "select_one_from wq event es s = (case chosen s event ts of None \<Rightarrow> Some (None, s)
      | Some (a, t) \<Rightarrow> Some (Some t, take_off off {t} s))"
    by (rule waiters_link.IH(2)) (use waiters_link.prems in auto)
  show ?case
    using waiters_link.IH(1) [OF waiters_link.prems(1) waiters_link.hyps(2) subset_refl] waiters_link.hyps us
    by (subst select_one_from.simps) (auto simp: rest split: option.splits)
qed

lemma peek_from_spec:
  assumes "waiters s wq es ts"
  shows "peek_from wq event es s = Some (chosen s event ts)"
  using assms
proof (induction rule: waiters.induct)
  case (waiters_end wq)
  then show ?case by (simp add: peek_from.simps)
next
  case (waiters_thread t wq es ts)
  then show ?case by (subst peek_from.simps) (auto simp: event_of_def)
next
  case (waiters_link l wql sub us wq es ts)
  have us: "wq_queue sub = [] \<Longrightarrow> us = []" using waiters_link.hyps(4) by auto
  then show ?case using waiters_link.hyps waiters_link.IH
    by (subst peek_from.simps) (auto split: option.splits)
qed

text \<open>Searching for a given thread.\<close>

lemma waiters_elements: "\<lbrakk>waiters s wq es ts; Thread_element t \<in> set es\<rbrakk> \<Longrightarrow> (wq, t) \<in> set ts"
  by (induction rule: waiters.induct) auto

lemma select_thread_from_spec:
  assumes "waiters s wq es ts" "elements_ok s" "sc_waitqs s wq = Some q" "set es \<subseteq> set (wq_queue q)"
    and "sc_threads s t \<noteq> None" "\<not> (queue_of s t = Some wq \<and> event_of s t = event)"
  shows "select_thread_from event t es s =
    Some (if event_of s t = event \<and> t \<in> snd ` set ts then (True, take_off off {t} s) else (False, s))"
  using assms
proof (induction arbitrary: q rule: waiters.induct)
  case (waiters_end wq)
  then show ?case by (simp add: select_thread_from.simps)
next
  case (waiters_thread t' wq es ts)
  have "event_of s t = event \<Longrightarrow> t' \<noteq> t"
    using waiters_thread.prems by (auto simp: elements_ok_def)
  then show ?case using waiters_thread.IH [OF waiters_thread.prems(1,2)] waiters_thread.prems
    by (subst select_thread_from.simps) auto
next
  case (waiters_link l wql sub us wq es ts)
  have us: "wq_queue sub = [] \<Longrightarrow> us = []" using waiters_link.hyps(4) by auto
  obtain th where th: "sc_threads s t = Some th" using waiters_link.prems by blast
  have rest: "select_thread_from event t es s =
      Some (if event_of s t = event \<and> t \<in> snd ` set ts then (True, take_off off {t} s) else (False, s))"
    by (rule waiters_link.IH(2)) (use waiters_link.prems in auto)
  show ?case
  proof (cases "queue_of s t = Some (wql_subqueue wql) \<and> event_of s t = event")
    case True
    then have "Thread_element t \<in> set (wq_queue sub)"
      using waiters_link.prems(1) waiters_link.hyps(2) by (auto simp: elements_ok_def)
    moreover from this have "t \<in> snd ` set us"
      using waiters_elements [OF waiters_link.hyps(4)] by force
    moreover have "th_wait_queue th = Some (wql_subqueue wql)" "th_wait_event th = event"
      using True th by (simp_all add: queue_of_def event_of_def)
    ultimately show ?thesis
      using waiters_link.hyps True th unqueue_thread_eq [OF waiters_link.prems(1), of t]
      by (subst select_thread_from.simps) auto
  next
    case False
    then have "\<not> (th_wait_queue th = Some (wql_subqueue wql) \<and> th_wait_event th = event)"
      using th by (simp add: queue_of_def event_of_def)
    with waiters_link.IH(1) [OF waiters_link.prems(1) waiters_link.hyps(2) subset_refl waiters_link.prems(4) False]
    show ?thesis using waiters_link.hyps th us
      by (subst select_thread_from.simps) (auto simp: rest)
  qed
qed

text \<open>Collecting all threads that wait for an event, from a state in which those in \<open>U\<close> were taken.\<close>

definition all_chosen :: "sched \<Rightarrow> event_t \<Rightarrow> (wait_queue_t \<times> thread_t) list \<Rightarrow> thread_t list" where
  "all_chosen s event ts = filter (\<lambda>t. event_of s t = event) (map snd ts)"

lemma all_chosen_simps [simp]:
  "all_chosen s event [] = []"
  "all_chosen s event ((a, t) # ts) = (if event_of s t = event then t # all_chosen s event ts else all_chosen s event ts)"
  "all_chosen s event (us @ ts) = all_chosen s event us @ all_chosen s event ts"
  by (simp_all add: all_chosen_def)

lemma all_chosen_subset: "set (all_chosen s event ts) \<subseteq> snd ` set ts"
  by (auto simp: all_chosen_def)

lemma drop_threads_id: "(\<And>t. t \<in> T \<Longrightarrow> Thread_element t \<notin> set (wq_queue q)) \<Longrightarrow> drop_threads T q = q"
proof -
  assume "\<And>t. t \<in> T \<Longrightarrow> Thread_element t \<notin> set (wq_queue q)"
  then have "filter (\<lambda>e. e \<notin> Thread_element ` T) (wq_queue q) = wq_queue q" by (intro filter_True) auto
  then show ?thesis by (simp add: drop_threads_def)
qed

lemma select_all_from_spec:
  assumes "waiters s wq es ts" "elements_ok s" "sc_waitqs s wq = Some q" "set es \<subseteq> set (wq_queue q)"
    and "distinct (map snd ts)" "snd ` set ts \<inter> U = {}"
  shows "select_all_from wq event es ws (take_off off U s) =
    Some (ws @ all_chosen s event ts, take_off off (set (all_chosen s event ts) \<union> U) s)"
  using assms
proof (induction arbitrary: q ws U rule: waiters.induct)
  case (waiters_end wq)
  then show ?case by (simp add: select_all_from.simps)
next
  case (waiters_thread t wq es ts)
  obtain th where th: "sc_threads s t = Some th" using waiters_thread.hyps by blast
  have t: "t \<notin> U" "t \<notin> snd ` set ts" using waiters_thread.prems by auto
  have "queue_of s t = Some wq" using waiters_thread.prems by (auto simp: elements_ok_def)
  then have unq: "unqueue_thread wq t (take_off off U s) = Some (take_off off (insert t U) s)"
    using t by (subst unqueue_thread_eq) (simp_all add: take_off_elements_ok waiters_thread.prems(1) take_off_Un)
  have IH: "select_all_from wq event es ws (take_off off V s) =
      Some (ws @ all_chosen s event ts, take_off off (set (all_chosen s event ts) \<union> V) s)"
    if "snd ` set ts \<inter> V = {}" for ws V
    by (rule waiters_thread.IH) (use waiters_thread.prems that in auto)
  show ?case
    using IH [of U ws] IH [of "insert t U" "ws @ [t]"] waiters_thread.prems t th
    by (subst select_all_from.simps) (auto simp: unq event_of_def)
next
  case (waiters_link l wql sub us wq es ts)
  have us: "wq_queue sub = [] \<Longrightarrow> us = []" using waiters_link.hyps(4) by auto
  have sub: "drop_threads U sub = sub"
    by (rule drop_threads_id) (use waiters_elements [OF waiters_link.hyps(4)] waiters_link.prems(5) in force)
  have IH1: "select_all_from (wql_subqueue wql) event (wq_queue sub) ws (take_off off U s) =
      Some (ws @ all_chosen s event us, take_off off (set (all_chosen s event us) \<union> U) s)"
    by (rule waiters_link.IH(1)) (use waiters_link.prems waiters_link.hyps in auto)
  have "snd ` set ts \<inter> (set (all_chosen s event us) \<union> U) = {}"
    using waiters_link.prems(4,5) all_chosen_subset [of s event us] by auto
  then have IH2: "select_all_from wq event es ws (take_off off (set (all_chosen s event us) \<union> U) s) =
      Some (ws @ all_chosen s event ts, take_off off (set (all_chosen s event ts) \<union> (set (all_chosen s event us) \<union> U)) s)" for ws
    by (rule waiters_link.IH(2) [rotated -1]) (use waiters_link.prems in auto)
  show ?case
  proof (cases "wq_queue sub = []")
    case True
    then show ?thesis using us IH2 [of ws] waiters_link.hyps sub
      by (subst select_all_from.simps) auto
  next
    case False
    then show ?thesis using IH1 IH2 [of "ws @ all_chosen s event us"] waiters_link.hyps sub
      by (subst select_all_from.simps) (auto simp: Un_ac)
  qed
qed

section \<open>Walks end\<close>

definition sub_of :: "sched \<Rightarrow> (wait_queue_t \<times> wait_queue_t) set" where
  "sub_of s = {(wql_subqueue wql, wql_queue wql) | l wql. sc_links s l = Some wql}"

definition links_valid :: "sched \<Rightarrow> bool" where
  "links_valid s \<longleftrightarrow>
    (\<forall>a q l. sc_waitqs s a = Some q \<longrightarrow> Link_element l \<in> set (wq_queue q) \<longrightarrow>
       (\<exists>wql. sc_links s l = Some wql \<and> wql_queue wql = a \<and> sc_waitqs s (wql_subqueue wql) \<noteq> None))"

lemma waiters_exist:
  assumes "elements_ok s" "links_valid s" "wf (sub_of s)"
  shows "sc_waitqs s wq = Some q \<Longrightarrow> set es \<subseteq> set (wq_queue q) \<Longrightarrow> \<exists>ts. waiters s wq es ts"
  using assms(3)
proof (induction wq arbitrary: q es rule: wf_induct_rule)
  case (less wq)
  from less.prems(2) show ?case
  proof (induction es)
    case Nil
    show ?case by (blast intro: waiters_end)
  next
    case (Cons e es)
    then obtain ts where ts: "waiters s wq es ts" by auto
    show ?case
    proof (cases e)
      case (Thread_element t)
      then have "queue_of s t = Some wq" using Cons.prems assms(1) less.prems(1) by (auto simp: elements_ok_def)
      then have "sc_threads s t \<noteq> None" by (auto simp: queue_of_def split: option.splits)
      then show ?thesis using ts waiters_thread Thread_element by blast
    next
      case (Link_element l)
      then obtain wql sub where wql: "sc_links s l = Some wql" "wql_queue wql = wq" "sc_waitqs s (wql_subqueue wql) = Some sub"
        using Cons.prems less.prems(1) assms(2) unfolding links_valid_def by fastforce
      then have "(wql_subqueue wql, wq) \<in> sub_of s" by (auto simp: sub_of_def)
      from less.IH [OF this wql(3)] obtain us where "waiters s (wql_subqueue wql) (wq_queue sub) us" by blast
      moreover have "wq_fifo sub" using wql(3) assms(1) by (auto simp: elements_ok_def)
      ultimately show ?thesis using ts waiters_link wql Link_element by blast
    qed
  qed
qed

lemma links_ok_valid: "links_ok s \<Longrightarrow> links_valid s"
  unfolding links_ok_def links_valid_def by fastforce

lemma links_ok_wf:
  assumes "links_ok s"
  shows "wf (sub_of s)"
proof (rule wfI_min)
  fix x Q assume x: "(x :: wait_queue_t) \<in> Q"
  have issub: "\<exists>q r. sc_waitqs s a = Some q \<and> \<not> wq_issub q \<and> sc_waitqs s b = Some r \<and> wq_issub r"
    if ba: "(b, a) \<in> sub_of s" for a b
  proof -
    obtain l wql where "sc_links s l = Some wql" "wql_subqueue wql = b" "wql_queue wql = a"
      using ba by (auto simp: sub_of_def)
    then show ?thesis using assms unfolding links_ok_def by blast
  qed
  have no: "(c, b) \<notin> sub_of s" if "(b, a) \<in> sub_of s" for a b c
    using issub [OF that] issub [of c b] by auto
  show "\<exists>z\<in>Q. \<forall>y. (y, z) \<in> sub_of s \<longrightarrow> y \<notin> Q"
  proof (cases "\<exists>y\<in>Q. (y, x) \<in> sub_of s")
    case True
    then show ?thesis using no by blast
  next
    case False
    then show ?thesis using x by blast
  qed
qed

text \<open>What a walk meets: the threads on the queue and those on its subordinates, each once.\<close>

definition reaches :: "sched \<Rightarrow> wait_queue_t \<Rightarrow> wait_queue_t \<Rightarrow> bool" where
  "reaches s wq a \<longleftrightarrow> a = wq \<or> (\<exists>l wql. sc_links s l = Some wql \<and> wql_queue wql = wq \<and> wql_subqueue wql = a)"

lemma wq_link_ok:
  assumes "sched_ok s" "sc_waitqs s wq = Some q" "Link_element l \<in> set (wq_queue q)"
  obtains wql sub where "sc_links s l = Some wql" "wql_queue wql = wq" "\<not> wq_issub q"
    "sc_waitqs s (wql_subqueue wql) = Some sub" "wq_issub sub" "wql_subqueue wql \<noteq> wq"
proof -
  obtain wql where l: "sc_links s l = Some wql" "wql_queue wql = wq"
    using assms unfolding sched_ok_def links_ok_def by blast
  then obtain q' sub where q': "sc_waitqs s wq = Some q'" "\<not> wq_issub q'"
    and sub: "sc_waitqs s (wql_subqueue wql) = Some sub" "wq_issub sub"
    using assms unfolding sched_ok_def links_ok_def by blast
  have "\<not> wq_issub q" "wql_subqueue wql \<noteq> wq" using q' sub assms(2) by auto
  with that [of wql sub] l sub show ?thesis by simp
qed

lemma waiters_where:
  assumes "waiters s wq es ts" "sched_ok s" "sc_waitqs s wq = Some q" "set es \<subseteq> set (wq_queue q)" "(a, t) \<in> set ts"
  shows "(a = wq \<and> Thread_element t \<in> set es) \<or>
    (\<exists>l wql. Link_element l \<in> set es \<and> sc_links s l = Some wql \<and> wql_subqueue wql = a)"
  using assms
proof (induction arbitrary: q rule: waiters.induct)
  case (waiters_link l wql sub us wq es ts)
  have l: "Link_element l \<in> set (wq_queue q)" using waiters_link.prems(3) by simp
  obtain sub' where sub: "sc_waitqs s (wql_subqueue wql) = Some sub'" "wq_issub sub'"
    by (rule wq_link_ok [OF waiters_link.prems(1,2) l]) (use waiters_link.hyps in simp)
  show ?case
  proof (cases "(a, t) \<in> set us")
    case True
    have "\<nexists>l'. Link_element l' \<in> set (wq_queue sub)"
    proof
      assume "\<exists>l'. Link_element l' \<in> set (wq_queue sub)"
      then obtain l' where "Link_element l' \<in> set (wq_queue sub)" by blast
      then show False
        by (rule wq_link_ok [OF waiters_link.prems(1) waiters_link.hyps(2)]) (use sub waiters_link.hyps(2) in simp)
    qed
    then show ?thesis using waiters_link.IH(1) [OF waiters_link.prems(1) waiters_link.hyps(2) subset_refl True]
        waiters_link.hyps by auto
  next
    case False
    then show ?thesis using waiters_link.IH(2) [OF waiters_link.prems(1,2)] waiters_link.prems by auto
  qed
qed auto

lemma waiters_reach:
  assumes "waiters s wq (wq_queue q) ts" "sched_ok s" "sc_waitqs s wq = Some q"
  shows "snd ` set ts = {t. \<exists>a. queue_of s t = Some a \<and> reaches s wq a}"
proof (intro equalityI subsetI)
  fix t assume "t \<in> snd ` set ts"
  then obtain a where a: "(a, t) \<in> set ts" by auto
  have "queue_of s t = Some a"
    by (rule waiters_queue_of [OF assms(1) _ assms(3) subset_refl a]) (use assms(2) in \<open>simp add: sched_ok_def\<close>)
  moreover have "reaches s wq a"
    using waiters_where [OF assms subset_refl a] wq_link_ok [OF assms(2,3)]
    unfolding reaches_def by (metis option.inject)
  ultimately show "t \<in> {t. \<exists>a. queue_of s t = Some a \<and> reaches s wq a}" by blast
next
  fix t assume "t \<in> {t. \<exists>a. queue_of s t = Some a \<and> reaches s wq a}"
  then obtain a where a: "queue_of s t = Some a" "reaches s wq a" by blast
  have here: "(b, t) \<in> set us" if "waiters s b (wq_queue r) us" "sc_waitqs s b = Some r" "queue_of s t = Some b" for b r us
    using waiters_elements [OF that(1)] that(2,3) assms(2) unfolding sched_ok_def elements_ok_def by blast
  show "t \<in> snd ` set ts"
  proof (cases "a = wq")
    case True
    then show ?thesis using here [OF assms(1,3)] a(1) by force
  next
    case False
    then obtain l wql where l: "sc_links s l = Some wql" "wql_queue wql = wq" "wql_subqueue wql = a"
      using a(2) by (auto simp: reaches_def)
    then have "Link_element l \<in> set (wq_queue q)" using assms(2,3) unfolding sched_ok_def links_ok_def by blast
    moreover have "\<exists>b. (b, t) \<in> set ts" if "waiters s wq' es ts" "Link_element l \<in> set es" for wq' es ts
      using that
    proof (induction rule: waiters.induct)
      case (waiters_link l' wql' sub us wq es ts)
      then show ?case using here l a(1) by fastforce
    qed auto
    ultimately show ?thesis using assms(1) by force
  qed
qed

lemma waiters_distinct:
  assumes "waiters s wq es ts" "sched_ok s" "sc_waitqs s wq = Some q" "set es \<subseteq> set (wq_queue q)" "distinct es"
  shows "distinct (map snd ts)"
  using assms
proof (induction arbitrary: q rule: waiters.induct)
  case (waiters_thread t wq es ts)
  have ok: "elements_ok s" using waiters_thread.prems(1) by (simp add: sched_ok_def)
  have "t \<notin> snd ` set ts"
  proof
    assume "t \<in> snd ` set ts"
    then obtain a where a: "(a, t) \<in> set ts" by auto
    have "queue_of s t = Some a" "queue_of s t = Some wq"
      using waiters_queue_of [OF waiters_thread.hyps(2) ok waiters_thread.prems(2) _ a] waiters_thread.prems ok
      by (auto simp: elements_ok_def)
    then have "a = wq" by simp
    then have "Thread_element t \<in> set es"
      using waiters_where [OF waiters_thread.hyps(2) waiters_thread.prems(1,2) _ a] waiters_thread.prems
      by (auto elim!: wq_link_ok [OF waiters_thread.prems(1,2)])
    then show False using waiters_thread.prems(4) by simp
  qed
  then show ?case using waiters_thread.IH [OF waiters_thread.prems(1,2)] waiters_thread.prems by auto
next
  case (waiters_link l wql sub us wq es ts)
  have ok: "elements_ok s" "links_ok s" using waiters_link.prems(1) by (simp_all add: sched_ok_def)
  have "snd ` set us \<inter> snd ` set ts = {}"
  proof (rule ccontr)
    assume "\<not> ?thesis"
    then obtain t a b where t: "(a, t) \<in> set us" "(b, t) \<in> set ts" by force
    have "Link_element l \<in> set (wq_queue q)" using waiters_link.prems by simp
    then obtain "sc_waitqs s (wql_subqueue wql) = Some sub" "wq_issub sub" "wql_subqueue wql \<noteq> wq" "wql_queue wql = wq"
      by (rule wq_link_ok [OF waiters_link.prems(1,2)]) (use waiters_link.hyps in simp)
    note sub = this
    have "queue_of s t = Some a" "queue_of s t = Some b"
      using waiters_queue_of [OF waiters_link.hyps(4) ok(1) sub(1) subset_refl t(1)]
        waiters_queue_of [OF waiters_link.hyps(5) ok(1) waiters_link.prems(2) _ t(2)] waiters_link.prems(3) by auto
    moreover have "a = wql_subqueue wql"
      using waiters_where [OF waiters_link.hyps(4) waiters_link.prems(1) sub(1) subset_refl t(1)] sub
      by (auto elim!: wq_link_ok [OF waiters_link.prems(1) sub(1)])
    ultimately have b: "b = wql_subqueue wql" by simp
    then obtain l' wql' where l': "Link_element l' \<in> set es" "sc_links s l' = Some wql'" "wql_subqueue wql' = b"
      using waiters_where [OF waiters_link.hyps(5) waiters_link.prems(1,2) _ t(2)] waiters_link.prems(3) sub(3) by auto
    then have "Link_element l' \<in> set (wq_queue q)" using waiters_link.prems(3) by auto
    then have "wql_queue wql' = wq"
      by (rule wq_link_ok [OF waiters_link.prems(1,2)]) (use l' in simp)
    then have "wql' = wql" using l' b sub(4) by simp
    then have "l' = l" using ok(2) l'(2) waiters_link.hyps(1) unfolding links_ok_def inj_on_def by (metis domI)
    then show False using l'(1) waiters_link.prems(4) by simp
  qed
  moreover have "distinct (map snd us)"
    by (rule waiters_link.IH(1) [OF waiters_link.prems(1) waiters_link.hyps(2) subset_refl])
      (use ok(1) waiters_link.hyps(2) in \<open>auto simp: elements_ok_def\<close>)
  moreover have "distinct (map snd ts)"
    using waiters_link.IH(2) [OF waiters_link.prems(1,2)] waiters_link.prems(3,4) by simp
  ultimately show ?case by auto
qed simp

text \<open>The one fact about searches that the clients of wait queues need.\<close>

lemma walk:
  assumes "sched_ok s" "sc_waitqs s wq = Some q"
  obtains ts where "waiters s wq (wq_queue q) ts" "distinct (map snd ts)"
    "\<And>a t. (a, t) \<in> set ts \<Longrightarrow> queue_of s t = Some a"
    "snd ` set ts = {t. \<exists>a. queue_of s t = Some a \<and> reaches s wq a}"
proof -
  have ok: "elements_ok s" "links_ok s" using assms(1) by (simp_all add: sched_ok_def)
  obtain ts where ts: "waiters s wq (wq_queue q) ts"
    using waiters_exist [OF ok(1) links_ok_valid [OF ok(2)] links_ok_wf [OF ok(2)] assms(2) subset_refl] by blast
  have "distinct (wq_queue q)" using ok(1) assms(2) by (auto simp: elements_ok_def)
  then show ?thesis
    by (rule that [OF ts waiters_distinct [OF ts assms subset_refl] waiters_queue_of [OF ts ok(1) assms(2) subset_refl]
          waiters_reach [OF ts assms]])
qed

section \<open>Waking\<close>

definition waiting_at :: "sched \<Rightarrow> wait_queue_t \<Rightarrow> event_t \<Rightarrow> thread_t set" where
  "waiting_at s wq event = {t. \<exists>a. queue_of s t = Some a \<and> reaches s wq a \<and> event_of s t = event}"

lemma waiting_threads:
  assumes "sched_ok s" "queue_of s t = Some a"
  obtains th where "sc_threads s t = Some th" "th_wait_queue th = Some a" "th_wait th"
    "th_wait_event th = event_of s t" "event_of s t \<noteq> NO_EVENT"
proof -
  obtain th where th: "sc_threads s t = Some th" "th_wait_queue th = Some a"
    using assms(2) by (auto simp: queue_of_def split: option.splits)
  then have "thread_ok th" using assms(1) by (auto simp: sched_ok_def elements_ok_def)
  with th that [of th] show ?thesis by (simp add: thread_ok_def event_of_def)
qed

lemma reaches_take_off [simp]: "reaches (take_off f T s) = reaches s"
  by (simp add: reaches_def fun_eq_iff)

text \<open>Setting threads running after they were taken off.\<close>

lemma go_all_off:
  assumes "sched_ok s" "distinct ts" "\<And>t. t \<in> set ts \<Longrightarrow> queue_of s t \<noteq> None"
  shows "go_all ts res (take_off off (set ts) s) = Some (take_off (wake res) (set ts) s)"
proof (subst map_take_off [symmetric], rule go_all_eq [OF assms(2)])
  fix t assume t: "t \<in> set ts"
  then obtain a where "queue_of s t = Some a" using assms(3) by blast
  then obtain th where "sc_threads s t = Some th" "th_wait th" by (rule waiting_threads [OF assms(1)])
  then show "\<exists>th. sc_threads (take_off off (set ts) s) t = Some th \<and> th_wait th \<and> th_wait_queue th = None \<and> thread_ok th"
    using t by simp
qed

lemma go_off:
  assumes "sched_ok s" "queue_of s t \<noteq> None"
  shows "thread_go_locked t res (take_off off {t} s) = Some (take_off (wake res) {t} s)"
  using go_all_off [OF assms(1), of "[t]" res] assms(2) by (simp split: bind_splits)

lemma select_one_spec:
  assumes "sched_ok s" "sc_waitqs s wq = Some q" "waiters s wq (wq_queue q) ts"
  shows "wait_queue_select_one wq event s =
    (case chosen s event ts of None \<Rightarrow> Some (None, s) | Some (a, t) \<Rightarrow> Some (Some t, take_off off {t} s))"
proof -
  have ok: "elements_ok s" and "wq_fifo q" using assms(1,2) by (auto simp: sched_ok_def elements_ok_def)
  then show ?thesis using select_one_from_spec [OF assms(3) ok assms(2) subset_refl] assms(2)
    by (simp add: wait_queue_select_one_def)
qed

lemma chosen_waiting:
  assumes "snd ` set ts = {t. \<exists>a. queue_of s t = Some a \<and> reaches s wq a}"
    and "\<And>a t. (a, t) \<in> set ts \<Longrightarrow> queue_of s t = Some a"
  shows "chosen s event ts = None \<longleftrightarrow> waiting_at s wq event = {}"
    and "chosen s event ts = Some (a, t) \<Longrightarrow> t \<in> waiting_at s wq event \<and> queue_of s t = Some a"
proof -
  have "waiting_at s wq event = {t \<in> snd ` set ts. event_of s t = event}"
    by (auto simp: waiting_at_def assms(1))
  then show "chosen s event ts = None \<longleftrightarrow> waiting_at s wq event = {}"
    by (auto simp: chosen_None)
  assume "chosen s event ts = Some (a, t)"
  then show "t \<in> waiting_at s wq event \<and> queue_of s t = Some a"
    using assms chosen_Some [of s event ts a t] by (force simp: waiting_at_def)
qed

lemma select_one_cases:
  assumes "sched_ok s" "sc_waitqs s wq = Some q"
  obtains (nobody) "waiting_at s wq event = {}" "wait_queue_select_one wq event s = Some (None, s)"
  | (found) t where "t \<in> waiting_at s wq event" "wait_queue_select_one wq event s = Some (Some t, take_off off {t} s)"
proof -
  obtain ts where ts: "waiters s wq (wq_queue q) ts" "distinct (map snd ts)"
    "\<And>a t. (a, t) \<in> set ts \<Longrightarrow> queue_of s t = Some a"
    "snd ` set ts = {t. \<exists>a. queue_of s t = Some a \<and> reaches s wq a}"
    by (rule walk [OF assms]) (rule that)
  show ?thesis
  proof (cases "chosen s event ts")
    case None
    then show ?thesis using nobody select_one_spec [OF assms ts(1), of event] chosen_waiting(1) [OF ts(4,3), of event] by simp
  next
    case (Some at)
    then show ?thesis using found select_one_spec [OF assms ts(1), of event] chosen_waiting(2) [OF ts(4,3)]
      by (cases at) auto
  qed
qed

lemma wakeup_cases:
  assumes "sched_ok s" "sc_waitqs s wq = Some q"
  obtains (nobody) "waiting_at s wq event = {}"
      "wait_queue_wakeup_identity_locked wq event res s = Some (None, s)"
      "wait_queue_wakeup_one_locked wq event res s = Some (False, s)"
  | (found) t where "t \<in> waiting_at s wq event"
      "wait_queue_wakeup_identity_locked wq event res s = Some (Some t, take_off (wake res) {t} s)"
      "wait_queue_wakeup_one_locked wq event res s = Some (True, take_off (wake res) {t} s)"
proof (cases rule: select_one_cases [OF assms, of event, case_names nobody' found'])
  case nobody'
  then show ?thesis using nobody
    by (simp add: wait_queue_wakeup_identity_locked_def wait_queue_wakeup_one_locked_def)
next
  case (found' t)
  then have "queue_of s t \<noteq> None" by (auto simp: waiting_at_def)
  from go_off [OF assms(1) this, of res] show ?thesis using found [of t] found'
    by (simp add: wait_queue_wakeup_identity_locked_def wait_queue_wakeup_one_locked_def)
qed

lemma wakeup_all_spec:
  assumes "sched_ok s" "sc_waitqs s wq = Some q"
  shows "wait_queue_wakeup_all_locked wq event res s =
    Some (waiting_at s wq event \<noteq> {}, take_off (wake res) (waiting_at s wq event) s)"
proof -
  obtain ts where ts: "waiters s wq (wq_queue q) ts" "distinct (map snd ts)"
    "\<And>a t. (a, t) \<in> set ts \<Longrightarrow> queue_of s t = Some a"
    "snd ` set ts = {t. \<exists>a. queue_of s t = Some a \<and> reaches s wq a}"
    by (rule walk [OF assms]) (rule that)
  have ok: "elements_ok s" using assms(1) by (simp add: sched_ok_def)
  have W: "set (all_chosen s event ts) = waiting_at s wq event"
    using ts(4) by (auto simp: all_chosen_def waiting_at_def)
  have "wait_queue_select_all wq event s = Some (all_chosen s event ts, take_off off (set (all_chosen s event ts)) s)"
    using select_all_from_spec [OF ts(1) ok assms(2) subset_refl ts(2), of "{}" event "[]"] assms(2)
    by (simp add: wait_queue_select_all_def)
  moreover have "go_all (all_chosen s event ts) res (take_off off (set (all_chosen s event ts)) s) =
      Some (take_off (wake res) (set (all_chosen s event ts)) s)"
    by (rule go_all_off [OF assms(1)])
      (use ts(2) W in \<open>auto simp: all_chosen_def distinct_filter waiting_at_def\<close>)
  ultimately show ?thesis using W by (auto simp: wait_queue_wakeup_all_locked_def)
qed

lemma wakeup_thread_spec:
  assumes "sched_ok s" "sc_waitqs s wq = Some q" "sc_threads s t \<noteq> None"
  shows "wait_queue_wakeup_thread_locked wq event t res s =
    Some (if t \<in> waiting_at s wq event then (True, take_off (wake res) {t} s) else (False, s))"
proof -
  obtain ts where ts: "waiters s wq (wq_queue q) ts" "distinct (map snd ts)"
    "\<And>a t. (a, t) \<in> set ts \<Longrightarrow> queue_of s t = Some a"
    "snd ` set ts = {t. \<exists>a. queue_of s t = Some a \<and> reaches s wq a}"
    by (rule walk [OF assms(1,2)]) (rule that)
  obtain th where th: "sc_threads s t = Some th" using assms(3) by blast
  have ok: "elements_ok s" "wq_fifo q" using assms(1,2) by (auto simp: sched_ok_def elements_ok_def)
  have W: "t \<in> waiting_at s wq event \<longleftrightarrow> event_of s t = event \<and> t \<in> snd ` set ts"
    using ts(4) by (auto simp: waiting_at_def)
  have sel: "wait_queue_select_thread wq event t s =
      Some (if t \<in> waiting_at s wq event then (True, take_off off {t} s) else (False, s))"
  proof (cases "queue_of s t = Some wq \<and> event_of s t = event")
    case True
    then show ?thesis using unqueue_thread_eq [OF ok(1), of t wq] assms(2) ok(2) th
      by (simp add: wait_queue_select_thread_def queue_of_def event_of_def waiting_at_def reaches_def)
  next
    case False
    then show ?thesis
      using select_thread_from_spec [OF ts(1) ok(1) assms(2) subset_refl assms(3) False] assms(2) ok(2) th
      unfolding W by (auto simp: wait_queue_select_thread_def queue_of_def event_of_def)
  qed
  moreover have "queue_of s t \<noteq> None" if "t \<in> waiting_at s wq event" using that by (auto simp: waiting_at_def)
  ultimately show ?thesis using go_off [OF assms(1), of t res]
    by (simp add: wait_queue_wakeup_thread_locked_def)
qed

lemma clear_wait_internal_spec:
  assumes "sched_ok s" "sc_threads s t = Some th"
  shows "clear_wait_internal t res s = Some
    (if th_wait_queue th \<noteq> None then take_off (wake res) {t} s
     else if th_wait th then map_threads (go res) {t} s else s)"
proof (cases "th_wait_queue th")
  case None
  moreover have "thread_ok th" using assms by (auto simp: sched_ok_def elements_ok_def)
  ultimately show ?thesis using go_locked_eq [OF assms(2)] assms(2)
    by (auto simp: clear_wait_internal_def thread_go_locked_def thread_ok_def)
next
  case (Some a)
  then have "queue_of s t = Some a" using assms(2) by (simp add: queue_of_def)
  moreover have "elements_ok s" using assms(1) by (simp add: sched_ok_def)
  ultimately show ?thesis using Some assms(2) unqueue_thread_eq [of s t a] go_off [OF assms(1), of t res]
    by (simp add: clear_wait_internal_def wait_queue_remove_def)
qed

end
