(* ===== verification/Wait_Queue_Steps.thy ===== *)
theory Wait_Queue_Steps
  imports Wait_Queue_Spec
begin

text \<open>
  The operations that put threads and links on wait queues keep the queues consistent, and so does
  every sequence of operations. The properties of wait queues are at the end.
\<close>

section \<open>Beginning to wait\<close>

fun links_in :: "wait_queue_element list \<Rightarrow> wait_queue_link_t list" where
  "links_in [] = []"
| "links_in (Thread_element t # es) = links_in es"
| "links_in (Link_element l # es) = l # links_in es"

lemma links_in_append [simp]: "links_in (es @ es') = links_in es @ links_in es'"
  by (induction es rule: links_in.induct) simp_all

lemma links_in_drop [simp]: "links_in (filter (\<lambda>e. e \<notin> Thread_element ` T) es) = links_in es"
  by (induction es rule: links_in.induct) auto

lemma in_links_in: "l \<in> set (links_in es) \<longleftrightarrow> Link_element l \<in> set es"
  by (induction es rule: links_in.induct) auto

text \<open>What waiting and waking leave alone: the links, and their order on the queues.\<close>

definition same_shape :: "sched \<Rightarrow> sched \<Rightarrow> bool" where
  "same_shape s s' \<longleftrightarrow> sc_links s' = sc_links s \<and>
    (\<forall>a. map_option (\<lambda>q. (wq_fifo q, wq_issub q, wqs_sublinks q, links_in (wq_queue q))) (sc_waitqs s' a) =
         map_option (\<lambda>q. (wq_fifo q, wq_issub q, wqs_sublinks q, links_in (wq_queue q))) (sc_waitqs s a))"

lemma same_shape_refl [simp]: "same_shape s s"
  by (simp add: same_shape_def)

lemma same_shape_trans: "\<lbrakk>same_shape s s'; same_shape s' s''\<rbrakk> \<Longrightarrow> same_shape s s''"
  by (simp add: same_shape_def)

lemma same_shape_sym: "same_shape s s' \<Longrightarrow> same_shape s' s"
  by (simp add: same_shape_def)

lemma same_shape_take_off [simp]: "same_shape s (take_off f T s)"
  by (simp add: same_shape_def option.map_comp comp_def)

lemma same_shape_map_threads [simp]: "same_shape s (map_threads f T s)"
  by (simp add: same_shape_def map_threads_def)

lemma same_shape_reaches: "same_shape s s' \<Longrightarrow> reaches s' = reaches s"
  by (simp add: same_shape_def reaches_def fun_eq_iff)

lemma same_shape_waitq:
  "\<lbrakk>same_shape s s'; sc_waitqs s a = Some q\<rbrakk> \<Longrightarrow>
    \<exists>q'. sc_waitqs s' a = Some q' \<and> wq_fifo q' = wq_fifo q \<and> wq_issub q' = wq_issub q \<and> wqs_sublinks q' = wqs_sublinks q \<and>
       links_in (wq_queue q') = links_in (wq_queue q)"
  unfolding same_shape_def by (drule conjunct2) (drule spec [of _ a], auto)

text \<open>Threads come and go; links stay consistent if their places in the queues do.\<close>

lemma links_ok_same:
  assumes "links_ok s" "same_shape s s'"
  shows "links_ok s'"
  unfolding links_ok_def
proof (intro conjI allI impI)
  have L: "sc_links s' = sc_links s" using assms(2) by (simp add: same_shape_def)
  fix a q' assume q': "sc_waitqs s' a = Some q'"
  then obtain q where q: "sc_waitqs s a = Some q" "wqs_sublinks q' = wqs_sublinks q" "links_in (wq_queue q') = links_in (wq_queue q)"
    using same_shape_waitq [OF same_shape_sym [OF assms(2)] q'] by auto
  show "distinct (wqs_sublinks q')" using assms(1) q unfolding links_ok_def by auto
  show "Link_element l \<in> set (wq_queue q') \<longleftrightarrow> (\<exists>wql. sc_links s' l = Some wql \<and> wql_queue wql = a)" for l
    using assms(1) q(1) q(3) unfolding links_ok_def L by (metis in_links_in)
  show "l \<in> set (wqs_sublinks q') \<longleftrightarrow> (\<exists>wql. sc_links s' l = Some wql \<and> wql_subqueue wql = a)" for l
    using assms(1) q unfolding links_ok_def L by auto
next
  have L: "sc_links s' = sc_links s" using assms(2) by (simp add: same_shape_def)
  fix l wql assume "sc_links s' l = Some wql"
  then obtain q r where q: "sc_waitqs s (wql_queue wql) = Some q" "\<not> wq_issub q"
    and r: "sc_waitqs s (wql_subqueue wql) = Some r" "wq_issub r"
    using assms(1) L unfolding links_ok_def by metis
  show "\<exists>q. sc_waitqs s' (wql_queue wql) = Some q \<and> \<not> wq_issub q"
    "\<exists>q. sc_waitqs s' (wql_subqueue wql) = Some q \<and> wq_issub q"
    using same_shape_waitq [OF assms(2) q(1)] same_shape_waitq [OF assms(2) r(1)] q r by auto
next
  have L: "sc_links s' = sc_links s" using assms(2) by (simp add: same_shape_def)
  show "inj_on (sc_links s') (dom (sc_links s'))" using assms(1) unfolding links_ok_def L by blast
qed

lemma assert_wait_spec:
  assumes ok: "sched_ok s" and t: "sc_threads s t = Some th" "th_wait_queue th = None"
    and q: "sc_waitqs s wq = Some q" and ev: "event \<noteq> NO_EVENT"
  obtains s' where "wait_queue_assert_wait_locked t wq event i s = Some s'" "sched_ok s'" "same_shape s s'"
    "queue_of s' = (queue_of s)(t \<mapsto> wq)" "event_of s' = (event_of s)(t := event)"
    "sc_threads s' = (sc_threads s)(t \<mapsto> th\<lparr>th_wait_event := event, th_wait_queue := Some wq,
       th_wait_result := THREAD_NO_RESULT, th_wait := True, th_unint := (th_unint th \<or> i = THREAD_UNINT),
       th_at_safe_point := (i = THREAD_ABORTSAFE)\<rparr>)"
proof -
  define new where "new = (if th_vm_privilege th then Thread_element t # wq_queue q else wq_queue q @ [Thread_element t])"
  define th' where "th' = th\<lparr>th_wait_event := event, th_wait_queue := Some wq,
       th_wait_result := THREAD_NO_RESULT, th_wait := True, th_unint := (th_unint th \<or> i = THREAD_UNINT),
       th_at_safe_point := (i = THREAD_ABORTSAFE)\<rparr>"
  define s' where "s' = s\<lparr>sc_waitqs := (sc_waitqs s)(wq \<mapsto> q\<lparr>wq_queue := new\<rparr>), sc_threads := (sc_threads s)(t \<mapsto> th')\<rparr>"
  have eq: "wait_queue_assert_wait_locked t wq event i s = Some s'"
    by (simp add: wait_queue_assert_wait_locked_def upd_waitq_def upd_thread_def thread_mark_wait_locked_def t q
        s'_def new_def th'_def)
  have no: "queue_of s t = None" using t by (simp add: queue_of_def)
  have el: "elements_ok s" and li: "links_ok s" using ok by (simp_all add: sched_ok_def)
  have notin: "Thread_element t \<notin> set (wq_queue q)" using el q no by (auto simp: elements_ok_def)
  have Q: "queue_of s' = (queue_of s)(t \<mapsto> wq)" by (auto simp: queue_of_def s'_def th'_def)
  have shape: "same_shape s s'" by (simp add: same_shape_def s'_def q new_def)
  have "elements_ok s'"
    unfolding elements_ok_def
  proof (intro conjI allI impI)
    fix a q' assume q': "sc_waitqs s' a = Some q'"
    then show "wq_fifo q'" "distinct (wq_queue q')"
      using el q notin by (auto simp: elements_ok_def s'_def new_def split: if_splits)
    show "Thread_element u \<in> set (wq_queue q') \<longleftrightarrow> queue_of s' u = Some a" for u
      using q' el q no unfolding Q elements_ok_def by (auto simp: s'_def new_def split: if_splits)
  next
    fix u a assume "queue_of s' u = Some a"
    then show "sc_waitqs s' a \<noteq> None" using el q unfolding Q elements_ok_def by (auto simp: s'_def split: if_splits)
  next
    fix u thu assume "sc_threads s' u = Some thu"
    then show "thread_ok thu" using el ev by (auto simp: elements_ok_def s'_def th'_def thread_ok_def split: if_splits)
  qed
  moreover have "links_ok s'"
    by (rule links_ok_same [OF li shape])
  ultimately have "sched_ok s'" by (simp add: sched_ok_def)
  moreover have "event_of s' = (event_of s)(t := event)" by (auto simp: event_of_def s'_def th'_def)
  moreover have "sc_threads s' = (sc_threads s)(t \<mapsto> th')" by (simp add: s'_def)
  ultimately show ?thesis using that [OF eq _ shape Q] by (simp add: th'_def)
qed

section \<open>Links\<close>

lemma find_link_spec:
  assumes "sched_ok s" "sc_waitqs s wq = Some q" "set es \<subseteq> set (wq_queue q)"
  shows "(find_link sub es s = Some None \<and> (\<forall>l wql. Link_element l \<in> set es \<longrightarrow> sc_links s l = Some wql \<longrightarrow> wql_subqueue wql \<noteq> sub)) \<or>
    (\<exists>l wql. find_link sub es s = Some (Some l) \<and> Link_element l \<in> set es \<and> sc_links s l = Some wql \<and>
       wql_queue wql = wq \<and> wql_subqueue wql = sub)"
  using assms(3)
proof (induction es)
  case (Cons e es)
  show ?case
  proof (cases e)
    case (Thread_element t)
    then show ?thesis using Cons by auto
  next
    case (Link_element l)
    then have "Link_element l \<in> set (wq_queue q)" using Cons.prems by simp
    then obtain wql where "sc_links s l = Some wql" "wql_queue wql = wq"
      by (rule wq_link_ok [OF assms(1,2)]) (rule that)
    then show ?thesis using Cons Link_element by (cases "wql_subqueue wql = sub") auto
  qed
qed simp

definition wq_linked :: "sched \<Rightarrow> wait_queue_t \<Rightarrow> wait_queue_t \<Rightarrow> bool" where
  "wq_linked s wq sub \<longleftrightarrow> (\<exists>l wql. sc_links s l = Some wql \<and> wql_queue wql = wq \<and> wql_subqueue wql = sub)"

lemma find_link_cases:
  assumes "sched_ok s" "sc_waitqs s wq = Some q"
  obtains (no) "\<not> wq_linked s wq sub" "find_link sub (wq_queue q) s = Some None"
  | (yes) l where "wq_linked s wq sub" "find_link sub (wq_queue q) s = Some (Some l)"
      "sc_links s l = Some \<lparr>wql_queue = wq, wql_subqueue = sub\<rparr>"
proof -
  consider (a) "find_link sub (wq_queue q) s = Some None"
      "\<forall>l wql. Link_element l \<in> set (wq_queue q) \<longrightarrow> sc_links s l = Some wql \<longrightarrow> wql_subqueue wql \<noteq> sub"
    | (b) l wql where "find_link sub (wq_queue q) s = Some (Some l)" "sc_links s l = Some wql"
       "wql_queue wql = wq" "wql_subqueue wql = sub"
    using find_link_spec [OF assms subset_refl, of sub] by blast
  then show ?thesis
  proof cases
    case a
    then have "\<not> wq_linked s wq sub" using assms unfolding wq_linked_def sched_ok_def links_ok_def by blast
    then show ?thesis using no a(1) by blast
  next
    case b
    then have "wq_linked s wq sub" "wql = \<lparr>wql_queue = wq, wql_subqueue = sub\<rparr>" by (auto simp: wq_linked_def)
    then show ?thesis using yes b by blast
  qed
qed

lemma member_spec:
  assumes "sched_ok s" "sc_waitqs s wq = Some q" "sc_waitqs s sub = Some r" "wq_issub r"
  shows "wait_queue_member wq sub s = Some (wq_linked s wq sub)"
  by (rule find_link_cases [OF assms(1,2), of sub]) (simp_all add: wait_queue_member_def wait_queue_is_sub_def assms)

text \<open>The state in which \<open>l\<close> links \<open>sub\<close> to \<open>wq\<close>, and that in which it does not any more.\<close>

definition with_link :: "wait_queue_link_t \<Rightarrow> wait_queue_t \<Rightarrow> wait_queue_t \<Rightarrow> sched \<Rightarrow> sched" where
  "with_link l wq sub s =
    s\<lparr>sc_links := (sc_links s)(l \<mapsto> \<lparr>wql_queue = wq, wql_subqueue = sub\<rparr>),
      sc_waitqs := (\<lambda>a. if a = wq then map_option (\<lambda>q. q\<lparr>wq_queue := wq_queue q @ [Link_element l]\<rparr>) (sc_waitqs s a)
        else if a = sub then map_option (\<lambda>q. q\<lparr>wqs_sublinks := wqs_sublinks q @ [l]\<rparr>) (sc_waitqs s a)
        else sc_waitqs s a)\<rparr>"

definition without_link :: "wait_queue_link_t \<Rightarrow> wait_queue_t \<Rightarrow> wait_queue_t \<Rightarrow> sched \<Rightarrow> sched" where
  "without_link l wq sub s =
    s\<lparr>sc_links := (sc_links s)(l := None),
      sc_waitqs := (\<lambda>a. if a = wq then map_option (\<lambda>q. q\<lparr>wq_queue := remove1 (Link_element l) (wq_queue q)\<rparr>) (sc_waitqs s a)
        else if a = sub then map_option (\<lambda>q. q\<lparr>wqs_sublinks := remove1 l (wqs_sublinks q)\<rparr>) (sc_waitqs s a)
        else sc_waitqs s a)\<rparr>"

lemma remove_link_eq:
  assumes "sc_waitqs s wq \<noteq> None" "sc_waitqs s sub \<noteq> None" "wq \<noteq> sub"
  shows "remove_link l wq sub s = Some (without_link l wq sub s)"
  using assms by (auto simp: remove_link_def without_link_def upd_waitq_def intro!: sched_eqI)

lemma elements_ok_links:
  assumes "elements_ok s" "sc_threads s' = sc_threads s"
    and "\<And>a q'. sc_waitqs s' a = Some q' \<Longrightarrow> \<exists>q. sc_waitqs s a = Some q \<and> wq_fifo q' = wq_fifo q \<and>
           distinct (wq_queue q') \<and> (\<forall>t. Thread_element t \<in> set (wq_queue q') \<longleftrightarrow> Thread_element t \<in> set (wq_queue q))"
    and "\<And>a. sc_waitqs s a \<noteq> None \<Longrightarrow> sc_waitqs s' a \<noteq> None"
  shows "elements_ok s'"
proof -
  have Q: "queue_of s' = queue_of s" by (simp add: queue_of_def assms(2) fun_eq_iff)
  show ?thesis
    unfolding elements_ok_def Q assms(2)
  proof (intro conjI allI impI)
    fix a q' assume "sc_waitqs s' a = Some q'"
    from assms(3) [OF this] obtain q where q: "sc_waitqs s a = Some q" "wq_fifo q' = wq_fifo q" "distinct (wq_queue q')"
      "\<forall>t. Thread_element t \<in> set (wq_queue q') \<longleftrightarrow> Thread_element t \<in> set (wq_queue q)" by blast
    then show "wq_fifo q'" "distinct (wq_queue q')" "Thread_element t \<in> set (wq_queue q') \<longleftrightarrow> queue_of s t = Some a" for t
      using assms(1) by (auto simp: elements_ok_def)
  next
    fix t a assume "queue_of s t = Some a"
    then show "sc_waitqs s' a \<noteq> None" by (intro assms(4)) (use assms(1) in \<open>auto simp: elements_ok_def\<close>)
  next
    fix t th assume "sc_threads s t = Some th"
    then show "thread_ok th" using assms(1) by (auto simp: elements_ok_def)
  qed
qed

lemma with_link_ok:
  assumes ok: "sched_ok s" and q: "sc_waitqs s wq = Some q" "\<not> wq_issub q" and r: "sc_waitqs s sub = Some r" "wq_issub r"
    and l: "sc_links s l = None" and no: "\<not> wq_linked s wq sub"
  shows "sched_ok (with_link l wq sub s)"
proof -
  have el: "elements_ok s" and li: "links_ok s" using ok by (simp_all add: sched_ok_def)
  have ne: "wq \<noteq> sub" using q r by auto
  have fresh: "Link_element l \<notin> set (wq_queue p)" "l \<notin> set (wqs_sublinks p)" if "sc_waitqs s a = Some p" for a p
    using li l that unfolding links_ok_def by auto
  have "elements_ok (with_link l wq sub s)"
  proof (rule elements_ok_links [OF el])
    fix a q' assume "sc_waitqs (with_link l wq sub s) a = Some q'"
    then show "\<exists>q. sc_waitqs s a = Some q \<and> wq_fifo q' = wq_fifo q \<and> distinct (wq_queue q') \<and>
        (\<forall>t. Thread_element t \<in> set (wq_queue q') \<longleftrightarrow> Thread_element t \<in> set (wq_queue q))"
      using el fresh by (auto simp: with_link_def elements_ok_def split: if_splits)
  qed (auto simp: with_link_def)
  moreover have "links_ok (with_link l wq sub s)"
    unfolding links_ok_def
  proof (intro conjI allI impI)
    fix a q' assume q': "sc_waitqs (with_link l wq sub s) a = Some q'"
    then obtain q0 where q0: "sc_waitqs s a = Some q0" by (auto simp: with_link_def split: if_splits)
    note old = li [unfolded links_ok_def, THEN conjunct1, rule_format, OF q0]
    show "distinct (wqs_sublinks q')" using q' q0 old [of l] fresh by (auto simp: with_link_def split: if_splits)
    show "Link_element k \<in> set (wq_queue q') \<longleftrightarrow>
        (\<exists>wql. sc_links (with_link l wq sub s) k = Some wql \<and> wql_queue wql = a)" for k
      using q' q0 old [of k] fresh [OF q0] l by (auto simp: with_link_def split: if_splits)
    show "k \<in> set (wqs_sublinks q') \<longleftrightarrow>
        (\<exists>wql. sc_links (with_link l wq sub s) k = Some wql \<and> wql_subqueue wql = a)" for k
      using q' q0 old [of k] fresh [OF q0] l ne by (auto simp: with_link_def split: if_splits)
  next
    fix k wql assume k: "sc_links (with_link l wq sub s) k = Some wql"
    have "(\<exists>q. sc_waitqs s (wql_queue wql) = Some q \<and> \<not> wq_issub q) \<and> (\<exists>q. sc_waitqs s (wql_subqueue wql) = Some q \<and> wq_issub q)"
    proof (cases "k = l")
      case True
      then show ?thesis using k q r by (auto simp: with_link_def)
    next
      case False
      then have "sc_links s k = Some wql" using k by (simp add: with_link_def)
      then show ?thesis using li unfolding links_ok_def by blast
    qed
    then show "\<exists>q. sc_waitqs (with_link l wq sub s) (wql_queue wql) = Some q \<and> \<not> wq_issub q"
      "\<exists>q. sc_waitqs (with_link l wq sub s) (wql_subqueue wql) = Some q \<and> wq_issub q"
      by (auto simp: with_link_def)
  next
    have "sc_links s k \<noteq> Some \<lparr>wql_queue = wq, wql_subqueue = sub\<rparr>" for k
      using no unfolding wq_linked_def by (metis wait_queue_link_s.select_convs)
    then have "inj_on ((sc_links s)(l \<mapsto> \<lparr>wql_queue = wq, wql_subqueue = sub\<rparr>)) (insert l (dom (sc_links s)))"
      using li l unfolding links_ok_def inj_on_def by auto
    then show "inj_on (sc_links (with_link l wq sub s)) (dom (sc_links (with_link l wq sub s)))"
      by (simp add: with_link_def)
  qed
  ultimately show ?thesis by (simp add: sched_ok_def)
qed

lemma without_link_ok:
  assumes ok: "sched_ok s" and l: "sc_links s l = Some \<lparr>wql_queue = wq, wql_subqueue = sub\<rparr>"
  shows "sched_ok (without_link l wq sub s)"
proof -
  have el: "elements_ok s" and li: "links_ok s" using ok by (simp_all add: sched_ok_def)
  obtain q r where qr: "sc_waitqs s wq = Some q" "\<not> wq_issub q" "sc_waitqs s sub = Some r" "wq_issub r"
    using li l unfolding links_ok_def by (metis wait_queue_link_s.select_convs)
  then have ne: "wq \<noteq> sub" by auto
  obtain w where w: "sc_links s l = Some w" "wql_queue w = wq" "wql_subqueue w = sub"
    by (rule that [of "\<lparr>wql_queue = wq, wql_subqueue = sub\<rparr>"]) (use l in simp_all)
  have "elements_ok (without_link l wq sub s)"
  proof (rule elements_ok_links [OF el])
    fix a q' assume "sc_waitqs (without_link l wq sub s) a = Some q'"
    then show "\<exists>q. sc_waitqs s a = Some q \<and> wq_fifo q' = wq_fifo q \<and> distinct (wq_queue q') \<and>
        (\<forall>t. Thread_element t \<in> set (wq_queue q') \<longleftrightarrow> Thread_element t \<in> set (wq_queue q))"
      using el by (auto simp: without_link_def elements_ok_def distinct_remove1 split: if_splits)
  qed (auto simp: without_link_def)
  moreover have "links_ok (without_link l wq sub s)"
    unfolding links_ok_def
  proof (intro conjI allI impI)
    fix a q' assume q': "sc_waitqs (without_link l wq sub s) a = Some q'"
    then obtain q0 where q0: "sc_waitqs s a = Some q0" by (auto simp: without_link_def split: if_splits)
    note old = li [unfolded links_ok_def, THEN conjunct1, rule_format, OF q0]
    have dist: "distinct (wq_queue q0)" using el q0 by (auto simp: elements_ok_def)
    show "distinct (wqs_sublinks q')" using q' q0 old [of l] by (auto simp: without_link_def split: if_splits)
    show "Link_element k \<in> set (wq_queue q') \<longleftrightarrow>
        (\<exists>wql. sc_links (without_link l wq sub s) k = Some wql \<and> wql_queue wql = a)" for k
      using q' q0 old [of k] w dist ne by (auto simp: without_link_def split: if_splits)
    show "k \<in> set (wqs_sublinks q') \<longleftrightarrow>
        (\<exists>wql. sc_links (without_link l wq sub s) k = Some wql \<and> wql_subqueue wql = a)" for k
      using q' q0 old [of k] w ne by (auto simp: without_link_def split: if_splits)
  next
    fix k wql assume "sc_links (without_link l wq sub s) k = Some wql"
    then have "sc_links s k = Some wql" by (simp add: without_link_def split: if_splits)
    then have "(\<exists>q. sc_waitqs s (wql_queue wql) = Some q \<and> \<not> wq_issub q) \<and> (\<exists>q. sc_waitqs s (wql_subqueue wql) = Some q \<and> wq_issub q)"
      using li unfolding links_ok_def by blast
    then show "\<exists>q. sc_waitqs (without_link l wq sub s) (wql_queue wql) = Some q \<and> \<not> wq_issub q"
      "\<exists>q. sc_waitqs (without_link l wq sub s) (wql_subqueue wql) = Some q \<and> wq_issub q"
      by (auto simp: without_link_def)
  next
    show "inj_on (sc_links (without_link l wq sub s)) (dom (sc_links (without_link l wq sub s)))"
      using li unfolding links_ok_def inj_on_def by (auto simp: without_link_def)
  qed
  ultimately show ?thesis by (simp add: sched_ok_def)
qed

lemma link_spec:
  assumes ok: "sched_ok s" and q: "sc_waitqs s wq = Some q" "\<not> wq_issub q" and r: "sc_waitqs s sub = Some r" "wq_issub r"
    and no: "\<not> wq_linked s wq sub" and l: "l \<noteq> 0"
  shows "wait_queue_link l wq sub s = Some (KERN_SUCCESS, with_link l wq sub s)"
proof -
  have "wq \<noteq> sub" using q r by auto
  then have "upd_waitq sub (\<lambda>q. q\<lparr>wqs_sublinks := wqs_sublinks q @ [l]\<rparr>)
      (s\<lparr>sc_links := (sc_links s)(l \<mapsto> \<lparr>wql_queue = wq, wql_subqueue = sub\<rparr>),
         sc_waitqs := (sc_waitqs s)(wq \<mapsto> q\<lparr>wq_queue := wq_queue q @ [Link_element l]\<rparr>)\<rparr>) = Some (with_link l wq sub s)"
    using q r by (auto simp: upd_waitq_def with_link_def intro!: sched_eqI)
  then show ?thesis
    using q r l member_spec [OF ok q(1) r] no
    by (simp add: wait_queue_link_def wait_queue_is_sub_def upd_waitq_def [of wq])
qed

lemma linked_queues:
  assumes "sched_ok s" "sc_links s l = Some \<lparr>wql_queue = wq, wql_subqueue = sub\<rparr>"
  obtains q r where "sc_waitqs s wq = Some q" "\<not> wq_issub q" "sc_waitqs s sub = Some r" "wq_issub r"
  using assms unfolding sched_ok_def links_ok_def by (metis wait_queue_link_s.select_convs)

lemma remove_link_ok:
  assumes "sched_ok s" "sc_links s l = Some \<lparr>wql_queue = wq, wql_subqueue = sub\<rparr>"
  shows "remove_link l wq sub s = Some (without_link l wq sub s)"
proof -
  obtain q r where "sc_waitqs s wq = Some q" "\<not> wq_issub q" "sc_waitqs s sub = Some r" "wq_issub r"
    by (rule linked_queues [OF assms]) (rule that)
  then show ?thesis by (intro remove_link_eq) auto
qed

lemma wq_unlink_spec:
  assumes "sched_ok s" "wait_queue_unlink wq sub s = Some s'"
  obtains l where "sc_links s l = Some \<lparr>wql_queue = wq, wql_subqueue = sub\<rparr>" "s' = without_link l wq sub s"
proof -
  obtain q where q: "sc_waitqs s wq = Some q"
    using assms(2) by (auto simp: wait_queue_unlink_def bind_eq_Some_conv)
  show ?thesis
  proof (cases rule: find_link_cases [OF assms(1) q, of sub, case_names no yes])
    case no
    then show ?thesis using assms(2) q by (auto simp: wait_queue_unlink_def bind_eq_Some_conv wait_queue_member_def)
  next
    case (yes l)
    then show ?thesis using assms(2) q remove_link_ok [OF assms(1) yes(3)] that [OF yes(3)]
      by (auto simp: wait_queue_unlink_def bind_eq_Some_conv)
  qed
qed

lemma first_link_in: "first_link es = Some l \<Longrightarrow> Link_element l \<in> set es"
  by (induction es rule: first_link.induct) auto

lemma first_link_None: "first_link es = None \<longleftrightarrow> (\<forall>l. Link_element l \<notin> set es)"
  by (induction es rule: first_link.induct) auto

lemma unlink_one_cases:
  assumes "sched_ok s" "wait_queue_unlink_one wq s = Some (r, s')"
  obtains (no) "r = None" "s' = s" "\<forall>sub. \<not> wq_linked s wq sub"
  | (yes) l sub where "r = Some sub" "sc_links s l = Some \<lparr>wql_queue = wq, wql_subqueue = sub\<rparr>" "s' = without_link l wq sub s"
proof -
  obtain q where q: "sc_waitqs s wq = Some q"
    using assms(2) by (auto simp: wait_queue_unlink_one_def bind_eq_Some_conv)
  show ?thesis
  proof (cases "first_link (wq_queue q)")
    case None
    moreover have "\<forall>sub. \<not> wq_linked s wq sub"
      using None assms(1) q unfolding first_link_None wq_linked_def sched_ok_def links_ok_def by blast
    ultimately show ?thesis using no assms(2) q by (simp add: wait_queue_unlink_one_def)
  next
    case (Some l)
    obtain wql where wql: "sc_links s l = Some wql" "wql_queue wql = wq"
      by (rule wq_link_ok [OF assms(1) q first_link_in [OF Some]]) (rule that)
    then have l: "sc_links s l = Some \<lparr>wql_queue = wq, wql_subqueue = wql_subqueue wql\<rparr>" by auto
    then show ?thesis
      using assms(2) q Some wql(1) remove_link_ok [OF assms(1) l] yes [OF _ l]
      by (auto simp: wait_queue_unlink_one_def bind_eq_Some_conv)
  qed
qed

section \<open>Sequences of operations\<close>

text \<open>The threads that begin to wait are running, the memory of new links is not in use, and links lead from
  plain queues to subordinate ones, as they do from ports to port sets.\<close>

inductive wq_step :: "sched \<Rightarrow> sched \<Rightarrow> bool" where
  step_wait: "\<lbrakk>sc_threads s t = Some th; th_wait_queue th = None; event \<noteq> NO_EVENT;
    wait_queue_assert_wait_locked t wq event i s = Some s'\<rbrakk> \<Longrightarrow> wq_step s s'"
| step_link: "\<lbrakk>sc_links s l = None; sc_waitqs s wq = Some q; \<not> wq_issub q; wait_queue_link l wq sub s = Some (kr, s')\<rbrakk>
    \<Longrightarrow> wq_step s s'"
| step_unlink: "wait_queue_unlink wq sub s = Some s' \<Longrightarrow> wq_step s s'"
| step_unlink_one: "wait_queue_unlink_one wq s = Some (r, s') \<Longrightarrow> wq_step s s'"
| step_one: "wait_queue_wakeup_one_locked wq event res s = Some (b, s') \<Longrightarrow> wq_step s s'"
| step_identity: "wait_queue_wakeup_identity_locked wq event res s = Some (t', s') \<Longrightarrow> wq_step s s'"
| step_all: "wait_queue_wakeup_all_locked wq event res s = Some (b, s') \<Longrightarrow> wq_step s s'"
| step_thread: "wait_queue_wakeup_thread_locked wq event t res s = Some (b, s') \<Longrightarrow> wq_step s s'"
| step_pull: "wait_queue_pull_thread_locked wq t s = Some s' \<Longrightarrow> wq_step s s'"
| step_clear: "clear_wait t res intr s = Some s' \<Longrightarrow> wq_step s s'"
| step_set_timer: "thread_set_timer t s = Some s' \<Longrightarrow> wq_step s s'"
| step_cancel_timer: "thread_cancel_timer t s = Some s' \<Longrightarrow> wq_step s s'"
| step_expire: "thread_timer_expire t delayed s = Some s' \<Longrightarrow> wq_step s s'"

lemma map_threads_ok:
  assumes "sched_ok s"
    and "\<And>th. th_wait_queue (f th) = th_wait_queue th"
    and "\<And>t th. \<lbrakk>t \<in> T; sc_threads s t = Some th\<rbrakk> \<Longrightarrow> thread_ok (f th)"
  shows "sched_ok (map_threads f T s)"
proof -
  have "queue_of (map_threads f T s) = queue_of s"
    by (auto simp: queue_of_def map_threads_def fun_eq_iff assms(2) split: option.splits)
  then have "elements_ok (map_threads f T s)"
    using assms(1,3) unfolding sched_ok_def elements_ok_def by (auto simp: map_threads_def split: if_splits)
  moreover have "links_ok (map_threads f T s)"
    using assms(1) by (simp add: sched_ok_def links_ok_def map_threads_def)
  ultimately show ?thesis by (simp add: sched_ok_def)
qed

lemma upd_thread_eq: "upd_thread t f s = Some s' \<longleftrightarrow> sc_threads s t \<noteq> None \<and> s' = map_threads f {t} s"
  by (auto simp: upd_thread_def map_threads_def bind_eq_Some_conv intro!: sched_eqI)

lemma timer_ok:
  "sched_ok s \<Longrightarrow> sched_ok (map_threads (\<lambda>th. th\<lparr>th_wait_timer_is_set := b\<rparr>) T s)"
  by (rule map_threads_ok) (auto simp: sched_ok_def elements_ok_def thread_ok_def)

lemma go_waiting_ok:
  "\<lbrakk>sched_ok s; sc_threads s t = Some th; th_wait_queue th = None\<rbrakk> \<Longrightarrow> sched_ok (map_threads (go res) {t} s)"
  by (rule map_threads_ok) (auto simp: sched_ok_def elements_ok_def thread_ok_def)

lemma clear_wait_internal_ok:
  assumes "sched_ok s" "clear_wait_internal t res s = Some s'"
  shows "sched_ok s'"
proof -
  obtain th where th: "sc_threads s t = Some th"
    using assms(2) by (auto simp: clear_wait_internal_def bind_eq_Some_conv)
  show ?thesis using assms(2) clear_wait_internal_spec [OF assms(1) th, of res] go_waiting_ok [OF assms(1) th, of res] assms(1)
    by (auto split: if_splits)
qed

lemma wq_step_ok: "\<lbrakk>wq_step s s'; sched_ok s\<rbrakk> \<Longrightarrow> sched_ok s'"
proof (induction rule: wq_step.induct)
  case (step_wait s t th event wq i s')
  then obtain q where "sc_waitqs s wq = Some q"
    by (auto simp: wait_queue_assert_wait_locked_def upd_waitq_def bind_eq_Some_conv)
  then show ?case
    by (rule assert_wait_spec [OF step_wait.prems step_wait.hyps(1,2) _ step_wait.hyps(3), of wq _ i]) (use step_wait.hyps(4) in simp)
next
  case (step_link s l wq q sub kr s')
  then obtain r where r: "sc_waitqs s sub = Some r" "wq_issub r" and no: "\<not> wq_linked s wq sub"
    using member_spec [OF step_link.prems step_link.hyps(2)]
    by (auto simp: wait_queue_link_def wait_queue_is_sub_def bind_eq_Some_conv)
  show ?case
  proof (cases "l = 0")
    case True
    then show ?thesis using step_link.hyps(4) step_link.prems by (auto simp: wait_queue_link_def bind_eq_Some_conv)
  next
    case False
    then show ?thesis using link_spec [OF step_link.prems step_link.hyps(2,3) r no False] step_link.hyps(4)
        with_link_ok [OF step_link.prems step_link.hyps(2,3) r step_link.hyps(1) no] by simp
  qed
next
  case (step_unlink wq sub s s')
  then show ?case by (elim wq_unlink_spec [rotated]) (simp_all add: without_link_ok)
next
  case (step_unlink_one wq s r s')
  then show ?case by (elim unlink_one_cases [rotated]) (simp_all add: without_link_ok)
next
  case (step_one wq event res s b s')
  then obtain q where "sc_waitqs s wq = Some q"
    by (auto simp: wait_queue_wakeup_one_locked_def wait_queue_select_one_def bind_eq_Some_conv)
  then show ?case by (rule wakeup_cases [OF step_one.prems, where event = event and res = res]) (use step_one in simp_all)
next
  case (step_identity wq event res s t' s')
  then obtain q where "sc_waitqs s wq = Some q"
    by (auto simp: wait_queue_wakeup_identity_locked_def wait_queue_select_one_def bind_eq_Some_conv)
  then show ?case by (rule wakeup_cases [OF step_identity.prems, where event = event and res = res]) (use step_identity in simp_all)
next
  case (step_all wq event res s b s')
  then obtain q where "sc_waitqs s wq = Some q"
    by (auto simp: wait_queue_wakeup_all_locked_def wait_queue_select_all_def bind_eq_Some_conv)
  from wakeup_all_spec [OF step_all.prems this, of event res] show ?case using step_all by simp
next
  case (step_thread wq event t res s b s')
  then obtain q where q: "sc_waitqs s wq = Some q" "sc_threads s t \<noteq> None"
    by (auto simp: wait_queue_wakeup_thread_locked_def wait_queue_select_thread_def bind_eq_Some_conv)
  from wakeup_thread_spec [OF step_thread.prems this, of event res] show ?case using step_thread by (auto split: if_splits)
next
  case (step_pull wq t s s')
  then have "queue_of s t = Some wq" by (auto simp: wait_queue_pull_thread_locked_def queue_of_def bind_eq_Some_conv)
  then have "unqueue_thread wq t s = Some (take_off off {t} s)"
    by (rule unqueue_thread_eq [rotated]) (use step_pull in \<open>simp add: sched_ok_def\<close>)
  then show ?case using step_pull by (auto simp: wait_queue_pull_thread_locked_def bind_eq_Some_conv)
next
  case (step_clear t res intr s s')
  then show ?case by (auto simp: clear_wait_def bind_eq_Some_conv clear_wait_internal_ok split: if_splits)
next
  case (step_set_timer t s s')
  then show ?case by (auto simp: thread_set_timer_def bind_eq_Some_conv upd_thread_eq timer_ok split: if_splits)
next
  case (step_cancel_timer t s s')
  then show ?case by (auto simp: thread_cancel_timer_def upd_thread_eq timer_ok)
next
  case (step_expire t delayed s s')
  then show ?case
    by (auto simp: thread_timer_expire_def bind_eq_Some_conv upd_thread_eq timer_ok split: if_splits
        elim!: clear_wait_internal_ok [rotated])
qed

end
