(* ===== verification/Wait_Queue_Props.thy ===== *)
theory Wait_Queue_Props
  imports Wait_Queue_Steps
begin

text \<open>
  The properties of wait queues, each with a concrete state to which it applies.
\<close>

section \<open>A port in a set\<close>

text \<open>Queue 1 has the thread 5 and, through the link 9, the subordinate queue 2 with the thread 6.\<close>

definition idle_thread_record :: thread where
  "idle_thread_record = \<lparr>th_wait = False, th_run = True, th_unint = False, th_wait_queue = None, th_wait_event = NO_EVENT,
     th_wait_result = THREAD_NO_RESULT, th_at_safe_point = False, th_vm_privilege = False, th_active = True,
     th_wait_timer_is_set = False, ith_state = 0, ith_option = 0, ith_msize = 0, ith_kmsg = 0, ith_seqno = 0\<rparr>"

definition waiting_thread :: "wait_queue_t \<Rightarrow> thread" where
  "waiting_thread a = idle_thread_record\<lparr>th_wait := True, th_wait_queue := Some a, th_wait_event := IPC_MQUEUE_RECEIVE\<rparr>"

definition two_queues :: sched where
  "two_queues =
    \<lparr>sc_waitqs = [1 \<mapsto> \<lparr>wq_fifo = True, wq_issub = False, wq_queue = [Link_element 9, Thread_element 5], wqs_sublinks = []\<rparr>,
                  2 \<mapsto> \<lparr>wq_fifo = True, wq_issub = True, wq_queue = [Thread_element 6], wqs_sublinks = [9]\<rparr>],
     sc_links = [9 \<mapsto> \<lparr>wql_queue = 1, wql_subqueue = 2\<rparr>],
     sc_threads = [5 \<mapsto> waiting_thread 1, 6 \<mapsto> waiting_thread 2]\<rparr>"

lemma two_queues_ok: "sched_ok two_queues"
  by (auto simp: sched_ok_def elements_ok_def links_ok_def two_queues_def queue_of_def thread_ok_def
      waiting_thread_def idle_thread_record_def split: if_splits)

lemma two_queues_1: "sc_waitqs two_queues 1 =
    Some \<lparr>wq_fifo = True, wq_issub = False, wq_queue = [Link_element 9, Thread_element 5], wqs_sublinks = []\<rparr>"
  by (simp add: two_queues_def)

lemmas two_queues_walks =
  two_queues_ok [unfolded sched_ok_def, THEN conjunct1]
  two_queues_ok [unfolded sched_ok_def, THEN conjunct2, THEN links_ok_valid]
  two_queues_ok [unfolded sched_ok_def, THEN conjunct2, THEN links_ok_wf]

section \<open>Properties\<close>

text \<open>C22: The search of a queue for one thread returns whenever its links form no cycle. It takes off the
  first thread that waits for the event, in the order in which the walk through the queue and the queues
  behind its links meets the threads, and if there is none it changes nothing.\<close>

theorem select_one_in_order:
  assumes "elements_ok s" "links_valid s" "wf (sub_of s)" "sc_waitqs s wq = Some q"
  shows "\<exists>ts. waiters s wq (wq_queue q) ts \<and>
    wait_queue_select_one wq event s =
      (case chosen s event ts of
         None \<Rightarrow> Some (None, s)
       | Some (a, t) \<Rightarrow> Some (Some t, take_off off {t} s))"
proof -
  obtain ts where ts: "waiters s wq (wq_queue q) ts"
    using waiters_exist [OF assms(1-4) subset_refl] by blast
  moreover have "wq_fifo q" using assms(1,4) by (auto simp: elements_ok_def)
  ultimately show ?thesis
    using select_one_from_spec [OF ts assms(1,4) subset_refl, of event] assms(4)
    by (auto simp: wait_queue_select_one_def)
qed

lemma select_one_in_order_witness:
  "\<exists>ts. waiters two_queues 1 [Link_element 9, Thread_element 5] ts \<and>
    wait_queue_select_one 1 IPC_MQUEUE_RECEIVE two_queues =
      (case chosen two_queues IPC_MQUEUE_RECEIVE ts of
         None \<Rightarrow> Some (None, two_queues)
       | Some (a, t) \<Rightarrow> Some (Some t, take_off off {t} two_queues))"
  using select_one_in_order [OF two_queues_walks two_queues_1, of IPC_MQUEUE_RECEIVE] by simp

text \<open>Peeking at a queue and then pulling the thread that was found, as the fast path of messages does
  under the locks of both, is the same as selecting one thread.\<close>

theorem peek_pull_selects:
  assumes "elements_ok s" "links_valid s" "wf (sub_of s)" "sc_waitqs s wq = Some q"
  shows "wait_queue_select_one wq event s =
    do { found \<leftarrow> wait_queue_peek_locked wq event s;
         case found of
           None \<Rightarrow> Some (None, s)
         | Some (waitq, t) \<Rightarrow> do { s \<leftarrow> wait_queue_pull_thread_locked waitq t s; Some (Some t, s) } }"
proof -
  obtain ts where ts: "waiters s wq (wq_queue q) ts"
    using waiters_exist [OF assms(1-4) subset_refl] by blast
  have fifo: "wq_fifo q" using assms(1,4) by (auto simp: elements_ok_def)
  show ?thesis
  proof (cases "chosen s event ts")
    case None
    then show ?thesis
      using select_one_from_spec [OF ts assms(1,4) subset_refl, of event] peek_from_spec [OF ts, of event] fifo assms(4)
      by (simp add: wait_queue_select_one_def wait_queue_peek_locked_def)
  next
    case (Some at)
    then obtain a t where at: "chosen s event ts = Some (a, t)" by (cases at) auto
    then have q: "queue_of s t = Some a"
      using chosen_Some [OF at] waiters_queue_of [OF ts assms(1,4) subset_refl] by blast
    then obtain th where "sc_threads s t = Some th" "th_wait_queue th = Some a"
      by (auto simp: queue_of_def split: option.splits)
    then show ?thesis
      using select_one_from_spec [OF ts assms(1,4) subset_refl, of event] peek_from_spec [OF ts, of event] fifo assms(4)
        unqueue_thread_eq [OF assms(1) q] at
      by (simp add: wait_queue_select_one_def wait_queue_peek_locked_def wait_queue_pull_thread_locked_def)
  qed
qed

lemma peek_pull_selects_witness:
  "wait_queue_select_one 1 IPC_MQUEUE_RECEIVE two_queues =
    do { found \<leftarrow> wait_queue_peek_locked 1 IPC_MQUEUE_RECEIVE two_queues;
         case found of
           None \<Rightarrow> Some (None, two_queues)
         | Some (waitq, t) \<Rightarrow> do { s \<leftarrow> wait_queue_pull_thread_locked waitq t two_queues; Some (Some t, s) } }"
  by (rule peek_pull_selects [OF two_queues_walks two_queues_1])

text \<open>C24: Waking all threads wakes exactly those that wait for the event on the queue or on one behind its
  links: each is off its queue and runnable with the given result, no other thread changes, and nobody waits
  there for the event any more. The return value tells whether there was one.\<close>

theorem wakeup_all_exact:
  assumes "sched_ok s" "sc_waitqs s wq = Some q"
  shows "\<exists>s'. wait_queue_wakeup_all_locked wq event res s = Some (waiting_at s wq event \<noteq> {}, s') \<and>
    (\<forall>t. sc_threads s' t =
       (if t \<in> waiting_at s wq event
        then map_option (\<lambda>th. th\<lparr>th_wait_queue := None, th_wait_event := NO_EVENT, th_at_safe_point := False,
               th_wait := False, th_run := True, th_wait_result := res\<rparr>) (sc_threads s t)
        else sc_threads s t)) \<and>
    waiting_at s' wq event = {} \<and> sched_ok s'"
proof -
  let ?T = "waiting_at s wq event"
  have "wake res = (\<lambda>th. th\<lparr>th_wait_queue := None, th_wait_event := NO_EVENT, th_at_safe_point := False,
      th_wait := False, th_run := True, th_wait_result := res\<rparr>)"
    by (simp add: go_def off_def fun_eq_iff)
  moreover have "waiting_at (take_off (wake res) ?T s) wq event = {}"
    by (auto simp: waiting_at_def event_of_def split: if_splits)
  ultimately show ?thesis
    using wakeup_all_spec [OF assms, of event res] take_off_ok(2) [OF assms(1), of res ?T] by simp
qed

lemma wakeup_all_exact_witness:
  "\<exists>s'. wait_queue_wakeup_all_locked 1 IPC_MQUEUE_RECEIVE THREAD_RESTART two_queues =
      Some (waiting_at two_queues 1 IPC_MQUEUE_RECEIVE \<noteq> {}, s') \<and> waiting_at s' 1 IPC_MQUEUE_RECEIVE = {}"
  using wakeup_all_exact [OF two_queues_ok two_queues_1, of IPC_MQUEUE_RECEIVE THREAD_RESTART] by blast

text \<open>C21: Every sequence of operations on wait queues keeps them consistent: a thread is on a queue exactly if
  it says so, and then it waits; queues and their subordinates agree on the links between them; no link
  leads from a subordinate queue.\<close>

theorem wait_queues_consistent:
  assumes "wq_step\<^sup>*\<^sup>* s s'" "sched_ok s"
  shows "sched_ok s'"
  using assms by (induction rule: rtranclp_induct) (auto intro: wq_step_ok)

lemma wait_queues_consistent_witness:
  "sched_ok (the (clear_wait 5 THREAD_INTERRUPTED False two_queues))"
proof (rule wait_queues_consistent [OF _ two_queues_ok])
  have th: "sc_threads two_queues 5 = Some (waiting_thread 1)" by (simp add: two_queues_def)
  have "clear_wait 5 THREAD_INTERRUPTED False two_queues = Some (take_off (wake THREAD_INTERRUPTED) {5} two_queues)"
    using clear_wait_internal_spec [OF two_queues_ok th] th by (simp add: clear_wait_def waiting_thread_def)
  then show "wq_step\<^sup>*\<^sup>* two_queues (the (clear_wait 5 THREAD_INTERRUPTED False two_queues))"
    by (intro r_into_rtranclp) (auto intro: step_clear)
qed

end
