(* ===== verification/Ipc_Mqueue.thy ===== *)
theory Ipc_Mqueue
  imports Wait_Queue Ipc_Kmsg_Body
begin

text \<open>
  Message queues (\<^verbatim>\<open>osfmk/ipc/ipc_mqueue.c\<close>): sending a message to a port, receiving from a port or
  a port set, and what happens to the threads that wait for room or for messages. A message queue
  has the address of its wait queue, which comes first in it.

  A routine that blocks is two functions, up to the call of \<^verbatim>\<open>thread_block\<close> and from its return. Each
  function is one critical section under the lock of the queue; the timer of a thread that is about to
  block is set after the release of the lock and counts to the section. The messages of a queue are a
  list here; the theory Ipc\_Kmsg\_Queue shows that their circular pointers represent
  lists and that the operations on the pointers are those on the lists. The counters
  \<^verbatim>\<open>messages_sent\<close> and \<^verbatim>\<open>messages_received\<close> of tasks and the event counters are left out.
\<close>

section \<open>The state\<close>

type_synonym ipc_mqueue_t = u32

record port_mqueue =
  pmq_messages :: "u32 list"
  pmq_msgcount :: u32
  pmq_qlimit :: u32
  pmq_seqno :: u32
  pmq_fullwaiters :: bool

record mq_state =
  mq_sched :: sched
  mq_ports :: "ipc_mqueue_t \<Rightarrow> port_mqueue option"
  mq_kmsgs :: ikm_heap

definition upd_mqueue :: "ipc_mqueue_t \<Rightarrow> (port_mqueue \<Rightarrow> port_mqueue) \<Rightarrow> mq_state \<Rightarrow> mq_state option" where
  "upd_mqueue mqueue f w =
    do { p \<leftarrow> mq_ports w mqueue; Some (w\<lparr>mq_ports := (mq_ports w)(mqueue \<mapsto> f p)\<rparr>) }"

text \<open>A step of the wait queues, and one with a result.\<close>

definition on_sched :: "(sched \<Rightarrow> sched option) \<Rightarrow> mq_state \<Rightarrow> mq_state option" where
  "on_sched f w = do { s \<leftarrow> f (mq_sched w); Some (w\<lparr>mq_sched := s\<rparr>) }"

definition from_sched :: "(sched \<Rightarrow> ('r \<times> sched) option) \<Rightarrow> mq_state \<Rightarrow> ('r \<times> mq_state) option" where
  "from_sched f w = do { (r, s) \<leftarrow> f (mq_sched w); Some (r, w\<lparr>mq_sched := s\<rparr>) }"

definition imq_full :: "port_mqueue \<Rightarrow> bool" where
  "imq_full mq \<longleftrightarrow> pmq_qlimit mq \<le> pmq_msgcount mq"

definition imq_is_set :: "ipc_mqueue_t \<Rightarrow> mq_state \<Rightarrow> bool option" where
  "imq_is_set mq w = wait_queue_is_sub mq (mq_sched w)"

abbreviation MACH_SEND_TIMED_OUT :: mach_msg_return_t where "MACH_SEND_TIMED_OUT \<equiv> 0x10000004"
abbreviation MACH_SEND_INTERRUPTED :: mach_msg_return_t where "MACH_SEND_INTERRUPTED \<equiv> 0x10000007"
abbreviation MACH_RCV_IN_PROGRESS :: mach_msg_return_t where "MACH_RCV_IN_PROGRESS \<equiv> 0x10004001"
abbreviation MACH_RCV_TIMED_OUT :: mach_msg_return_t where "MACH_RCV_TIMED_OUT \<equiv> 0x10004003"
abbreviation MACH_RCV_TOO_LARGE :: mach_msg_return_t where "MACH_RCV_TOO_LARGE \<equiv> 0x10004004"
abbreviation MACH_RCV_INTERRUPTED :: mach_msg_return_t where "MACH_RCV_INTERRUPTED \<equiv> 0x10004005"
abbreviation MACH_RCV_PORT_CHANGED :: mach_msg_return_t where "MACH_RCV_PORT_CHANGED \<equiv> 0x10004006"

abbreviation MACH_RCV_LARGE :: u32 where "MACH_RCV_LARGE \<equiv> 0x4"
abbreviation MACH_SEND_TIMEOUT :: u32 where "MACH_SEND_TIMEOUT \<equiv> 0x10"
abbreviation MACH_SEND_ALWAYS :: u32 where "MACH_SEND_ALWAYS \<equiv> 0x10000"
abbreviation MACH_RCV_TIMEOUT :: u32 where "MACH_RCV_TIMEOUT \<equiv> 0x100"

definition option_set :: "u32 \<Rightarrow> u32 \<Rightarrow> bool" where
  "option_set opt flag \<longleftrightarrow> opt AND flag \<noteq> 0"

text \<open>The sizes of the three trailers are in an array, and the index into it comes from the options
  of the receiver.\<close>

definition trailer_size :: "u32 list" where
  "trailer_size = [8, 12, 20]"

definition GET_RCV_ELEMENTS :: "u32 \<Rightarrow> u32" where
  "GET_RCV_ELEMENTS y = drop_bit 24 y AND 0xf"

definition REQUESTED_TRAILER_SIZE :: "u32 \<Rightarrow> u32 option" where
  "REQUESTED_TRAILER_SIZE y = array_get trailer_size (unat (GET_RCV_ELEMENTS y))"

section \<open>Queues and sets\<close>

definition mqueue_init_port :: port_mqueue where
  "mqueue_init_port = \<lparr>pmq_messages = [], pmq_msgcount = 0, pmq_qlimit = MACH_PORT_QLIMIT_DEFAULT,
     pmq_seqno = 0, pmq_fullwaiters = False\<rparr>"

definition mqueue_init :: "ipc_mqueue_t \<Rightarrow> bool \<Rightarrow> mq_state \<Rightarrow> mq_state" where
  "mqueue_init mqueue is_set w =
    (if is_set then
       w\<lparr>mq_sched := (mq_sched w)\<lparr>sc_waitqs := (sc_waitqs (mq_sched w))(mqueue \<mapsto> wait_queue_sub_init SYNC_POLICY_FIFO)\<rparr>\<rparr>
     else
       w\<lparr>mq_sched := (mq_sched w)\<lparr>sc_waitqs := (sc_waitqs (mq_sched w))(mqueue \<mapsto> wait_queue_init SYNC_POLICY_FIFO)\<rparr>,
         mq_ports := (mq_ports w)(mqueue \<mapsto> mqueue_init_port)\<rparr>)"

definition mqueue_member :: "ipc_mqueue_t \<Rightarrow> ipc_mqueue_t \<Rightarrow> mq_state \<Rightarrow> bool option" where
  "mqueue_member port_mqueue set_mqueue w = wait_queue_member port_mqueue set_mqueue (mq_sched w)"

definition mqueue_remove :: "ipc_mqueue_t \<Rightarrow> ipc_mqueue_t \<Rightarrow> mq_state \<Rightarrow> (kern_return_t \<times> mq_state) option" where
  "mqueue_remove mqueue sub_mqueue w =
    do { m \<leftarrow> wait_queue_member mqueue sub_mqueue (mq_sched w);
         if m then do { w \<leftarrow> on_sched (wait_queue_unlink mqueue sub_mqueue) w; Some (KERN_SUCCESS, w) }
         else Some (KERN_NOT_IN_SET, w) }"

definition mqueue_remove_one :: "ipc_mqueue_t \<Rightarrow> mq_state \<Rightarrow> (ipc_mqueue_t option \<times> mq_state) option" where
  "mqueue_remove_one mqueue = from_sched (wait_queue_unlink_one mqueue)"

definition ipc_mqueue_changed :: "ipc_mqueue_t \<Rightarrow> mq_state \<Rightarrow> mq_state option" where
  "ipc_mqueue_changed mqueue w =
    do { (woken, w) \<leftarrow> from_sched (wait_queue_wakeup_all_locked mqueue IPC_MQUEUE_RECEIVE THREAD_RESTART) w;
         Some w }"

section \<open>Sending\<close>

text \<open>The count of messages includes places that were granted to senders. A waiting sender gets the
  place of the message that leaves.\<close>

definition ipc_mqueue_release_msgcount :: "ipc_mqueue_t \<Rightarrow> mq_state \<Rightarrow> mq_state option" where
  "ipc_mqueue_release_msgcount mqueue w =
    do { p \<leftarrow> mq_ports w mqueue;
         kassert (0 < pmq_msgcount p);
         w \<leftarrow> upd_mqueue mqueue (\<lambda>p. p\<lparr>pmq_msgcount := pmq_msgcount p - 1\<rparr>) w;
         p \<leftarrow> mq_ports w mqueue;
         if \<not> imq_full p \<and> pmq_fullwaiters p then
           do { (woken, w) \<leftarrow> from_sched (wait_queue_wakeup_one_locked mqueue IPC_MQUEUE_FULL THREAD_AWAKENED) w;
                if \<not> woken then upd_mqueue mqueue (\<lambda>p. p\<lparr>pmq_fullwaiters := False\<rparr>) w
                else upd_mqueue mqueue (\<lambda>p. p\<lparr>pmq_msgcount := pmq_msgcount p + 1\<rparr>) w }
         else Some w }"

text \<open>The state and the size that a receiver is told of a message: too large or not.\<close>

definition message_fits :: "thread \<Rightarrow> ipc_kmsg \<Rightarrow> (mach_msg_return_t \<times> u32) option" where
  "message_fits th kmsg =
    do { trailer \<leftarrow> REQUESTED_TRAILER_SIZE (ith_option th);
         Some (if ith_msize th < msgh_size (ikm_header kmsg) + trailer
               then (MACH_RCV_TOO_LARGE, msgh_size (ikm_header kmsg))
               else (MACH_MSG_SUCCESS, ith_msize th)) }"

text \<open>The loops that look for a receiver begin alike: they wake the next one and leave the state for it. The
  result has the options of the receiver, on which its further treatment depends.\<close>

definition offer_message ::
  "ipc_mqueue_t \<Rightarrow> u32 \<Rightarrow> mq_state \<Rightarrow> ((thread_t \<times> mach_msg_return_t \<times> u32) option \<times> mq_state) option" where
  "offer_message mqueue kmsg w =
    do { (receiver, w) \<leftarrow>
           from_sched (wait_queue_wakeup_identity_locked mqueue IPC_MQUEUE_RECEIVE THREAD_AWAKENED) w;
         case receiver of
           None \<Rightarrow> Some (None, w)
         | Some t \<Rightarrow>
             do { th \<leftarrow> sc_threads (mq_sched w) t;
                  k \<leftarrow> mq_kmsgs w kmsg;
                  (state, msize) \<leftarrow> message_fits th k;
                  w \<leftarrow> on_sched (upd_thread t (\<lambda>th. th\<lparr>ith_state := state, ith_msize := msize\<rparr>)) w;
                  Some (Some (t, state, ith_option th), w) } }"

definition set_ith_kmsg :: "thread_t \<Rightarrow> u32 \<Rightarrow> u32 \<Rightarrow> mq_state \<Rightarrow> mq_state option" where
  "set_ith_kmsg t kmsg seqno = on_sched (upd_thread t (\<lambda>th. th\<lparr>ith_kmsg := kmsg, ith_seqno := seqno\<rparr>))"

text \<open>Handing the message to the receiver, with the next sequence number.\<close>

definition give_message :: "ipc_mqueue_t \<Rightarrow> thread_t \<Rightarrow> u32 \<Rightarrow> mq_state \<Rightarrow> mq_state option" where
  "give_message mqueue t kmsg w =
    do { p \<leftarrow> mq_ports w mqueue;
         w \<leftarrow> set_ith_kmsg t kmsg (pmq_seqno p) w;
         upd_mqueue mqueue (\<lambda>p. p\<lparr>pmq_seqno := pmq_seqno p + 1\<rparr>) w }"

partial_function (option) ipc_mqueue_post :: "ipc_mqueue_t \<Rightarrow> u32 \<Rightarrow> mq_state \<Rightarrow> mq_state option" where
  "ipc_mqueue_post mqueue kmsg w =
    do { (receiver, w) \<leftarrow> offer_message mqueue kmsg w;
         case receiver of
           None \<Rightarrow>
             do { p \<leftarrow> mq_ports w mqueue;
                  kassert (0 < pmq_msgcount p);
                  upd_mqueue mqueue (\<lambda>p. p\<lparr>pmq_messages := pmq_messages p @ [kmsg]\<rparr>) w }
         | Some (t, state, opt) \<Rightarrow>
             (if state = MACH_MSG_SUCCESS \<or> \<not> option_set opt MACH_RCV_LARGE then
                do { w \<leftarrow> give_message mqueue t kmsg w;
                     ipc_mqueue_release_msgcount mqueue w }
              else
                do { w \<leftarrow> set_ith_kmsg t IKM_NULL 0 w;
                     ipc_mqueue_post mqueue kmsg w }) }"

datatype send_outcome = Send_granted | Send_blocked | Send_failed mach_msg_return_t

text \<open>\<^verbatim>\<open>ipc_mqueue_send\<close> by the thread \<open>self\<close>: up to the call of \<^verbatim>\<open>ipc_mqueue_post\<close> or \<^verbatim>\<open>thread_block\<close>.\<close>

definition ipc_mqueue_send ::
  "thread_t \<Rightarrow> ipc_mqueue_t \<Rightarrow> u32 \<Rightarrow> u32 \<Rightarrow> u32 \<Rightarrow> mq_state \<Rightarrow> (send_outcome \<times> mq_state) option" where
  "ipc_mqueue_send self mqueue kmsg opt timeout w =
    do { p \<leftarrow> mq_ports w mqueue;
         k \<leftarrow> mq_kmsgs w kmsg;
         if \<not> imq_full p \<or> option_set opt MACH_SEND_ALWAYS \<or>
            MACH_MSGH_BITS_REMOTE (msgh_bits (ikm_header k)) = mach_msg_type_number (Some MACH_MSG_TYPE_PORT_SEND_ONCE) then
           do { w \<leftarrow> upd_mqueue mqueue (\<lambda>p. p\<lparr>pmq_msgcount := pmq_msgcount p + 1\<rparr>) w;
                Some (Send_granted, w) }
         else if option_set opt MACH_SEND_TIMEOUT \<and> timeout = 0 then Some (Send_failed MACH_SEND_TIMED_OUT, w)
         else
           do { w \<leftarrow> upd_mqueue mqueue (\<lambda>p. p\<lparr>pmq_fullwaiters := True\<rparr>) w;
                w \<leftarrow> on_sched (wait_queue_assert_wait_locked self mqueue IPC_MQUEUE_FULL THREAD_ABORTSAFE) w;
                w \<leftarrow> (if option_set opt MACH_SEND_TIMEOUT then on_sched (thread_set_timer self) w else Some w);
                Some (Send_blocked, w) } }"

text \<open>After \<^verbatim>\<open>thread_block\<close>, with the result of the wait.\<close>

definition ipc_mqueue_send_woken :: "thread_t \<Rightarrow> u32 \<Rightarrow> mq_state \<Rightarrow> (send_outcome \<times> mq_state) option" where
  "ipc_mqueue_send_woken self opt w =
    do { th \<leftarrow> sc_threads (mq_sched w) self;
         w \<leftarrow> (if option_set opt MACH_SEND_TIMEOUT then on_sched (thread_cancel_timer self) w else Some w);
         case th_wait_result th of
           THREAD_TIMED_OUT \<Rightarrow>
             do { kassert (option_set opt MACH_SEND_TIMEOUT); Some (Send_failed MACH_SEND_TIMED_OUT, w) }
         | THREAD_AWAKENED \<Rightarrow> Some (Send_granted, w)
         | THREAD_INTERRUPTED \<Rightarrow> Some (Send_failed MACH_SEND_INTERRUPTED, w)
         | THREAD_RESTART \<Rightarrow> None
         | THREAD_NO_RESULT \<Rightarrow> None }"

section \<open>Adding a port to a set\<close>

text \<open>Finding a receiver for one message: \<open>False\<close> when there is none.\<close>

partial_function (option) match_message :: "ipc_mqueue_t \<Rightarrow> u32 \<Rightarrow> mq_state \<Rightarrow> (bool \<times> mq_state) option" where
  "match_message port_mqueue kmsg w =
    do { (receiver, w) \<leftarrow> offer_message port_mqueue kmsg w;
         case receiver of
           None \<Rightarrow> Some (False, w)
         | Some (t, state, opt) \<Rightarrow>
             (if state = MACH_RCV_TOO_LARGE \<and> option_set opt MACH_RCV_LARGE then
                do { w \<leftarrow> set_ith_kmsg t IKM_NULL 0 w;
                     match_message port_mqueue kmsg w }
              else
                do { w \<leftarrow> ipc_mqueue_release_msgcount port_mqueue w;
                     w \<leftarrow> upd_mqueue port_mqueue (\<lambda>p. p\<lparr>pmq_messages := remove1 kmsg (pmq_messages p)\<rparr>) w;
                     w \<leftarrow> give_message port_mqueue t kmsg w;
                     Some (True, w) }) }"

fun match_messages :: "ipc_mqueue_t \<Rightarrow> u32 list \<Rightarrow> mq_state \<Rightarrow> mq_state option" where
  "match_messages port_mqueue [] w = Some w"
| "match_messages port_mqueue (kmsg # next) w =
    do { (found, w) \<leftarrow> match_message port_mqueue kmsg w;
         if found then match_messages port_mqueue next w else Some w }"

definition mqueue_add ::
  "wait_queue_link_t \<Rightarrow> ipc_mqueue_t \<Rightarrow> ipc_mqueue_t \<Rightarrow> mq_state \<Rightarrow> (kern_return_t \<times> mq_state) option" where
  "mqueue_add wql port_mqueue set_mqueue w =
    do { (kr, w) \<leftarrow> from_sched (wait_queue_link wql port_mqueue set_mqueue) w;
         if kr \<noteq> KERN_SUCCESS then Some (kr, w)
         else
           do { p \<leftarrow> mq_ports w port_mqueue;
                w \<leftarrow> match_messages port_mqueue (pmq_messages p) w;
                Some (KERN_SUCCESS, w) } }"

section \<open>Receiving\<close>

text \<open>Return code, the word that \<^verbatim>\<open>kmsgp\<close> points to (a message, or the size of one), and the sequence
  number; \<open>None\<close> where the code leaves them alone.\<close>

datatype receive_outcome = Receive_blocked | Received mach_msg_return_t "u32 option" "u32 option"

definition ipc_mqueue_select :: "ipc_mqueue_t \<Rightarrow> u32 \<Rightarrow> u32 \<Rightarrow> mq_state \<Rightarrow> (receive_outcome \<times> mq_state) option" where
  "ipc_mqueue_select mqueue opt max_size w =
    do { p \<leftarrow> mq_ports w mqueue;
         kassert (pmq_messages p \<noteq> []);
         let kmsg = hd (pmq_messages p);
         k \<leftarrow> mq_kmsgs w kmsg;
         trailer \<leftarrow> REQUESTED_TRAILER_SIZE opt;
         let mr = (if max_size < msgh_size (ikm_header k) + trailer then MACH_RCV_TOO_LARGE else MACH_MSG_SUCCESS);
         if mr = MACH_RCV_TOO_LARGE \<and> option_set opt MACH_RCV_LARGE then
           Some (Received mr (Some (msgh_size (ikm_header k))) (Some 0), w)
         else
           do { w \<leftarrow> upd_mqueue mqueue (\<lambda>p. p\<lparr>pmq_messages := tl (pmq_messages p)\<rparr>) w;
                w \<leftarrow> ipc_mqueue_release_msgcount mqueue w;
                p \<leftarrow> mq_ports w mqueue;
                w \<leftarrow> upd_mqueue mqueue (\<lambda>p. p\<lparr>pmq_seqno := pmq_seqno p + 1\<rparr>) w;
                Some (Received mr (Some kmsg) (Some (pmq_seqno p)), w) } }"

text \<open>The first link of a set to a port with a message.\<close>

fun search_set :: "wait_queue_link_t list \<Rightarrow> mq_state \<Rightarrow> (wait_queue_link_t \<times> ipc_mqueue_t) option option" where
  "search_set [] w = Some None"
| "search_set (l # ls) w =
    do { wql \<leftarrow> sc_links (mq_sched w) l;
         p \<leftarrow> mq_ports w (wql_queue wql);
         if pmq_messages p = [] then search_set ls w else Some (Some (l, wql_queue wql)) }"

text \<open>Beginning to wait for a message.\<close>

definition receive_block ::
  "thread_t \<Rightarrow> ipc_mqueue_t \<Rightarrow> u32 \<Rightarrow> u32 \<Rightarrow> u32 \<Rightarrow> wait_interrupt_t \<Rightarrow> mq_state \<Rightarrow> (receive_outcome \<times> mq_state) option" where
  "receive_block self mqueue opt max_size timeout interruptible w =
    (if option_set opt MACH_RCV_TIMEOUT \<and> timeout = 0 then Some (Received MACH_RCV_TIMED_OUT None None, w)
     else
       do { w \<leftarrow> on_sched (upd_thread self (\<lambda>th. th\<lparr>ith_state := MACH_RCV_IN_PROGRESS, ith_option := opt, ith_msize := max_size\<rparr>)) w;
            w \<leftarrow> on_sched (wait_queue_assert_wait_locked self mqueue IPC_MQUEUE_RECEIVE interruptible) w;
            w \<leftarrow> (if option_set opt MACH_RCV_TIMEOUT then on_sched (thread_set_timer self) w else Some w);
            Some (Receive_blocked, w) })"

definition ipc_mqueue_receive ::
  "thread_t \<Rightarrow> ipc_mqueue_t \<Rightarrow> u32 \<Rightarrow> u32 \<Rightarrow> u32 \<Rightarrow> wait_interrupt_t \<Rightarrow> mq_state \<Rightarrow> (receive_outcome \<times> mq_state) option" where
  "ipc_mqueue_receive self mqueue opt max_size timeout interruptible w =
    do { is_set \<leftarrow> imq_is_set mqueue w;
         if is_set then
           do { q \<leftarrow> sc_waitqs (mq_sched w) mqueue;
                found \<leftarrow> search_set (wqs_sublinks q) w;
                case found of
                  Some (l, port_mq) \<Rightarrow>
                    do { w \<leftarrow> on_sched (upd_waitq mqueue (\<lambda>q. q\<lparr>wqs_sublinks := remove1 l (wqs_sublinks q) @ [l]\<rparr>)) w;
                         ipc_mqueue_select port_mq opt max_size w }
                | None \<Rightarrow> receive_block self mqueue opt max_size timeout interruptible w }
         else
           do { p \<leftarrow> mq_ports w mqueue;
                if pmq_messages p \<noteq> [] then ipc_mqueue_select mqueue opt max_size w
                else receive_block self mqueue opt max_size timeout interruptible w } }"

definition ipc_mqueue_receive_woken :: "thread_t \<Rightarrow> u32 \<Rightarrow> mq_state \<Rightarrow> (receive_outcome \<times> mq_state) option" where
  "ipc_mqueue_receive_woken self opt w =
    do { th \<leftarrow> sc_threads (mq_sched w) self;
         w \<leftarrow> (if option_set opt MACH_RCV_TIMEOUT then on_sched (thread_cancel_timer self) w else Some w);
         case th_wait_result th of
           THREAD_TIMED_OUT \<Rightarrow> Some (Received MACH_RCV_TIMED_OUT None None, w)
         | THREAD_INTERRUPTED \<Rightarrow> Some (Received MACH_RCV_INTERRUPTED None None, w)
         | THREAD_RESTART \<Rightarrow> Some (Received MACH_RCV_PORT_CHANGED None None, w)
         | THREAD_AWAKENED \<Rightarrow>
             (if ith_state th = MACH_RCV_SCATTER_SMALL \<or> ith_state th = MACH_RCV_TOO_LARGE then
                (if option_set opt MACH_RCV_LARGE then
                   Some (Received (ith_state th)
                     (if ith_state th = MACH_RCV_TOO_LARGE then Some (ith_msize th) else None) None, w)
                 else Some (Received (ith_state th) (Some (ith_kmsg th)) (Some (ith_seqno th)), w))
              else if ith_state th = MACH_MSG_SUCCESS then
                Some (Received MACH_MSG_SUCCESS (Some (ith_kmsg th)) (Some (ith_seqno th)), w)
              else None)
         | THREAD_NO_RESULT \<Rightarrow> None }"

section \<open>Limits and the end of a queue\<close>

text \<open>\<open>wakeup\<close> rounds of the loop in \<^verbatim>\<open>ipc_mqueue_set_qlimit\<close>.\<close>

primrec wake_senders :: "nat \<Rightarrow> ipc_mqueue_t \<Rightarrow> mq_state \<Rightarrow> mq_state option" where
  "wake_senders 0 mqueue w = Some w"
| "wake_senders (Suc n) mqueue w =
    do { (woken, w) \<leftarrow> from_sched (wait_queue_wakeup_one_locked mqueue IPC_MQUEUE_FULL THREAD_AWAKENED) w;
         if \<not> woken then upd_mqueue mqueue (\<lambda>p. p\<lparr>pmq_fullwaiters := False\<rparr>) w
         else wake_senders n mqueue w }"

definition mqueue_set_qlimit :: "ipc_mqueue_t \<Rightarrow> u32 \<Rightarrow> mq_state \<Rightarrow> mq_state option" where
  "mqueue_set_qlimit mqueue qlimit w =
    do { p \<leftarrow> mq_ports w mqueue;
         w \<leftarrow> (if pmq_qlimit p < qlimit then wake_senders (unat (qlimit - pmq_qlimit p)) mqueue w else Some w);
         upd_mqueue mqueue (\<lambda>p. p\<lparr>pmq_qlimit := qlimit\<rparr>) w }"

definition mqueue_set_seqno :: "ipc_mqueue_t \<Rightarrow> u32 \<Rightarrow> mq_state \<Rightarrow> mq_state option" where
  "mqueue_set_seqno mqueue seqno = upd_mqueue mqueue (\<lambda>p. p\<lparr>pmq_seqno := seqno\<rparr>)"

text \<open>\<^verbatim>\<open>ipc_mqueue_destroy\<close> gives up the lock for each message that it destroys: its first section
  and one round of its loop, which yields the message to destroy.\<close>

definition ipc_mqueue_destroy_first :: "ipc_mqueue_t \<Rightarrow> mq_state \<Rightarrow> mq_state option" where
  "ipc_mqueue_destroy_first mqueue w =
    do { w \<leftarrow> upd_mqueue mqueue (\<lambda>p. p\<lparr>pmq_fullwaiters := False\<rparr>) w;
         (woken, w) \<leftarrow> from_sched (wait_queue_wakeup_all_locked mqueue IPC_MQUEUE_FULL THREAD_AWAKENED) w;
         Some w }"

definition ipc_mqueue_destroy_next :: "ipc_mqueue_t \<Rightarrow> mq_state \<Rightarrow> (u32 option \<times> mq_state) option" where
  "ipc_mqueue_destroy_next mqueue w =
    do { p \<leftarrow> mq_ports w mqueue;
         case pmq_messages p of
           [] \<Rightarrow> Some (None, w)
         | kmsg # rest \<Rightarrow>
             do { w \<leftarrow> upd_mqueue mqueue (\<lambda>p. p\<lparr>pmq_messages := rest\<rparr>) w; Some (Some kmsg, w) } }"

section \<open>The queue of a name\<close>

abbreviation MACH_RCV_INVALID_NAME :: mach_msg_return_t where "MACH_RCV_INVALID_NAME \<equiv> 0x10004002"

text \<open>The queue of an object has the address of the object here. The state is that of the names and
  ports; lookup may splay the tree of the space.\<close>

definition ipc_mqueue_copyin ::
  "ipc_space_t \<Rightarrow> mach_port_name_t \<Rightarrow> kernel \<Rightarrow> ((mach_msg_return_t + ipc_object_t) \<times> kernel) option" where
  "ipc_mqueue_copyin space name s =
    do { sp \<leftarrow> ks_spaces s space;
         if \<not> is_active sp then Some (Inl MACH_RCV_INVALID_NAME, s)
         else
           do { (r, sp) \<leftarrow> ipc_entry_lookup sp name;
                let s = put_space space sp s;
                case r of
                  None \<Rightarrow> Some (Inl MACH_RCV_INVALID_NAME, s)
                | Some entry \<Rightarrow>
                    do { e \<leftarrow> get_entry space entry s;
                         let obj = ie_object e;
                         if has (ie_bits e) MACH_PORT_TYPE_RECEIVE then
                           do { kassert (obj \<noteq> IP_NULL);
                                port \<leftarrow> ks_ports s obj;
                                kassert (io_active port);
                                kassert (io_receiver_name port = name);
                                kassert (ip_receiver port = space);
                                s \<leftarrow> ip_reference obj s;
                                Some (Inr obj, s) }
                         else if has (ie_bits e) MACH_PORT_TYPE_PORT_SET then
                           do { kassert (obj \<noteq> IO_NULL);
                                pset \<leftarrow> ks_psets s obj;
                                kassert (io_active pset);
                                kassert (io_receiver_name pset = name);
                                s \<leftarrow> ips_reference obj s;
                                Some (Inr obj, s) }
                         else Some (Inl MACH_RCV_INVALID_NAME, s) } } }"

end
