(* ===== verification/Ipc_Mqueue_Spec.thy ===== *)
theory Ipc_Mqueue_Spec
  imports Ipc_Mqueue Wait_Queue_Steps
begin

text \<open>
  Message queues under all interleavings of senders, receivers, timeouts and interruptions. The
  invariant: the count of a queue is the number of its messages and of the places that were
  granted to senders, no message lies in a queue that a receiver waits for, and no sender waits
  for a queue with room.
\<close>

section \<open>Threads in the system\<close>

text \<open>Where a thread is: outside of the message queues; holding a granted place, about to post; or
  blocked in a send or a receive, or woken there and not yet resumed.\<close>

datatype ipc_pc =
    Idle
  | Posting ipc_mqueue_t u32
  | Send_wait ipc_mqueue_t u32 u32
  | Receive_wait ipc_mqueue_t u32

definition pc_ok :: "mq_state \<Rightarrow> ipc_pc \<Rightarrow> thread \<Rightarrow> bool" where
  "pc_ok w pc th \<longleftrightarrow>
    (case pc of
       Idle \<Rightarrow> th_wait_queue th = None \<and> \<not> th_wait th \<and> \<not> th_wait_timer_is_set th
     | Posting a k \<Rightarrow> th_wait_queue th = None \<and> \<not> th_wait th \<and> \<not> th_wait_timer_is_set th \<and>
         mq_ports w a \<noteq> None \<and> mq_kmsgs w k \<noteq> None
     | Send_wait a k opt \<Rightarrow>
         mq_ports w a \<noteq> None \<and> mq_kmsgs w k \<noteq> None \<and>
         (th_wait_timer_is_set th \<longrightarrow> option_set opt MACH_SEND_TIMEOUT) \<and>
         (if th_wait_queue th \<noteq> None then th_wait_queue th = Some a \<and> th_wait_event th = IPC_MQUEUE_FULL
          else \<not> th_wait th \<and> (th_wait_result th = THREAD_AWAKENED \<or> th_wait_result th = THREAD_INTERRUPTED \<or>
                 th_wait_result th = THREAD_TIMED_OUT \<and> option_set opt MACH_SEND_TIMEOUT))
     | Receive_wait a opt \<Rightarrow>
         ith_option th = opt \<and> REQUESTED_TRAILER_SIZE opt \<noteq> None \<and>
         (th_wait_timer_is_set th \<longrightarrow> option_set opt MACH_RCV_TIMEOUT) \<and>
         (if th_wait_queue th \<noteq> None then th_wait_queue th = Some a \<and> th_wait_event th = IPC_MQUEUE_RECEIVE
          else \<not> th_wait th \<and> th_wait_result th \<noteq> THREAD_NO_RESULT \<and>
            (th_wait_result th = THREAD_AWAKENED \<longrightarrow>
               ith_state th = MACH_MSG_SUCCESS \<or> ith_state th = MACH_RCV_TOO_LARGE)))"

text \<open>The threads that hold a granted place.\<close>

definition holds :: "ipc_pc \<Rightarrow> thread \<Rightarrow> ipc_mqueue_t \<Rightarrow> bool" where
  "holds pc th a \<longleftrightarrow> (case pc of
     Posting b k \<Rightarrow> b = a
   | Send_wait b k opt \<Rightarrow> b = a \<and> th_wait_queue th = None \<and> th_wait_result th = THREAD_AWAKENED
   | _ \<Rightarrow> False)"

definition reserved :: "mq_state \<Rightarrow> (thread_t \<Rightarrow> ipc_pc) \<Rightarrow> ipc_mqueue_t \<Rightarrow> thread_t set" where
  "reserved w pc a = {t. \<exists>th. sc_threads (mq_sched w) t = Some th \<and> holds (pc t) th a}"

definition ports_ok :: "mq_state \<Rightarrow> bool" where
  "ports_ok w \<longleftrightarrow>
    (\<forall>a p. mq_ports w a = Some p \<longrightarrow>
       (\<exists>q. sc_waitqs (mq_sched w) a = Some q \<and> \<not> wq_issub q) \<and> (\<forall>k \<in> set (pmq_messages p). mq_kmsgs w k \<noteq> None)) \<and>
    (\<forall>l wql. sc_links (mq_sched w) l = Some wql \<longrightarrow> mq_ports w (wql_queue wql) \<noteq> None)"

definition senders_ok :: "mq_state \<Rightarrow> bool" where
  "senders_ok w \<longleftrightarrow> (\<forall>a p. mq_ports w a = Some p \<longrightarrow> waiting_at (mq_sched w) a IPC_MQUEUE_FULL \<noteq> {} \<longrightarrow>
     pmq_fullwaiters p \<and> imq_full p)"

definition pcs_ok :: "mq_state \<Rightarrow> (thread_t \<Rightarrow> ipc_pc) \<Rightarrow> bool" where
  "pcs_ok w pc \<longleftrightarrow> 
    (\<forall>t th. sc_threads (mq_sched w) t = Some th \<longrightarrow> pc_ok w (pc t) th) \<and>
    (\<forall>t. sc_threads (mq_sched w) t = None \<longrightarrow> pc t = Idle)"

text \<open>\<open>x a\<close> places of the queue \<open>a\<close> belong to the operation that is in progress. The number is negative
  when the operation has given up the place of a message that is still in the queue.\<close>

definition counts_ok :: "mq_state \<Rightarrow> (thread_t \<Rightarrow> ipc_pc) \<Rightarrow> (ipc_mqueue_t \<Rightarrow> int) \<Rightarrow> bool" where
  "counts_ok w pc x \<longleftrightarrow> (\<forall>a p. mq_ports w a = Some p \<longrightarrow> finite (reserved w pc a) \<and>
     int (unat (pmq_msgcount p)) = int (length (pmq_messages p)) + int (card (reserved w pc a)) + x a)"

definition mq_inv :: "mq_state \<Rightarrow> (thread_t \<Rightarrow> ipc_pc) \<Rightarrow> (ipc_mqueue_t \<Rightarrow> int) \<Rightarrow> bool" where
  "mq_inv w pc x \<longleftrightarrow> sched_ok (mq_sched w) \<and> ports_ok w \<and> senders_ok w \<and> pcs_ok w pc \<and> counts_ok w pc x"

definition no_lost_message :: "mq_state \<Rightarrow> bool" where
  "no_lost_message w \<longleftrightarrow> (\<forall>a p. mq_ports w a = Some p \<longrightarrow> pmq_messages p \<noteq> [] \<longrightarrow>
     waiting_at (mq_sched w) a IPC_MQUEUE_RECEIVE = {})"

lemma mq_invD:
  assumes "mq_inv w pc x"
  shows "sched_ok (mq_sched w)" "ports_ok w" "senders_ok w" "pcs_ok w pc" "counts_ok w pc x"
  using assms by (simp_all add: mq_inv_def)

lemma pcs_okD: "\<lbrakk>pcs_ok w pc; sc_threads (mq_sched w) t = Some th\<rbrakk> \<Longrightarrow> pc_ok w (pc t) th"
  by (simp add: pcs_ok_def)

lemma port_waitq: "\<lbrakk>ports_ok w; mq_ports w a = Some p\<rbrakk> \<Longrightarrow> \<exists>q. sc_waitqs (mq_sched w) a = Some q \<and> \<not> wq_issub q"
  by (simp add: ports_ok_def)

text \<open>The program counter of a waiting thread tells what it waits for.\<close>

lemma waiting_receiver:
  assumes "mq_inv w pc x" "t \<in> waiting_at (mq_sched w) a IPC_MQUEUE_RECEIVE"
  obtains th b opt where "sc_threads (mq_sched w) t = Some th" "pc t = Receive_wait b opt" "ith_option th = opt"
    "REQUESTED_TRAILER_SIZE opt \<noteq> None" "th_wait th" "th_wait_queue th = Some b"
proof -
  obtain b where b: "queue_of (mq_sched w) t = Some b" "event_of (mq_sched w) t = IPC_MQUEUE_RECEIVE"
    using assms(2) by (auto simp: waiting_at_def)
  obtain th where th: "sc_threads (mq_sched w) t = Some th" "th_wait_queue th = Some b" "th_wait th"
    "th_wait_event th = IPC_MQUEUE_RECEIVE"
    by (rule waiting_threads [OF mq_invD(1) [OF assms(1)] b(1)]) (use b(2) that in simp)
  have "pc_ok w (pc t) th" by (rule pcs_okD [OF mq_invD(4) [OF assms(1)] th(1)])
  then show ?thesis using that [OF th(1)] th by (auto simp: pc_ok_def split: ipc_pc.splits)
qed

lemma waiting_sender:
  assumes "mq_inv w pc x" "mq_ports w a = Some p" "t \<in> waiting_at (mq_sched w) a IPC_MQUEUE_FULL"
  obtains th k opt where "sc_threads (mq_sched w) t = Some th" "pc t = Send_wait a k opt" "th_wait th" "th_wait_queue th = Some a"
proof -
  obtain b where b: "queue_of (mq_sched w) t = Some b" "event_of (mq_sched w) t = IPC_MQUEUE_FULL" "reaches (mq_sched w) a b"
    using assms(3) by (auto simp: waiting_at_def)
  obtain th where th: "sc_threads (mq_sched w) t = Some th" "th_wait_queue th = Some b" "th_wait th"
    "th_wait_event th = IPC_MQUEUE_FULL"
    by (rule waiting_threads [OF mq_invD(1) [OF assms(1)] b(1)]) (use b(2) that in simp)
  have "pc_ok w (pc t) th" by (rule pcs_okD [OF mq_invD(4) [OF assms(1)] th(1)])
  then obtain k opt p' where pc: "pc t = Send_wait b k opt" "mq_ports w b = Some p'"
    using th by (auto simp: pc_ok_def split: ipc_pc.splits)
  have "b = a"
  proof (rule ccontr)
    assume "b \<noteq> a"
    then obtain l wql where "sc_links (mq_sched w) l = Some wql" "wql_subqueue wql = b"
      using b(3) by (auto simp: reaches_def)
    then obtain q where "sc_waitqs (mq_sched w) b = Some q" "wq_issub q"
      using mq_invD(1) [OF assms(1)] unfolding sched_ok_def links_ok_def by blast
    then show False using port_waitq [OF mq_invD(2) [OF assms(1)] pc(2)] by auto
  qed
  then show ?thesis using that [OF th(1)] pc th by simp
qed

section \<open>Threads that leave their queues\<close>

lemma waiting_at_take_off:
  assumes "\<And>th. th_wait_queue (f th) = None"
  shows "waiting_at (take_off f T s) a e = waiting_at s a e - T"
  using assms by (auto simp: waiting_at_def event_of_def split: if_splits)

lemma mq_state_take_off [simp]:
  "pc_ok (w\<lparr>mq_sched := s\<rparr>) = pc_ok w"
  by (simp add: pc_ok_def fun_eq_iff split: ipc_pc.split)

lemma take_off_ports_ok: "ports_ok w \<Longrightarrow> ports_ok (w\<lparr>mq_sched := take_off f T (mq_sched w)\<rparr>)"
  unfolding ports_ok_def by fastforce

lemma take_off_senders_ok:
  assumes "senders_ok w" "\<And>th. th_wait_queue (f th) = None"
  shows "senders_ok (w\<lparr>mq_sched := take_off f T (mq_sched w)\<rparr>)"
  using assms(1) by (auto simp: senders_ok_def waiting_at_take_off assms(2))

lemma take_off_pcs_ok:
  assumes "pcs_ok w pc" "\<And>t th. t \<in> T \<Longrightarrow> sc_threads (mq_sched w) t = Some th \<Longrightarrow> pc_ok w (pc t) (f th)"
  shows "pcs_ok (w\<lparr>mq_sched := take_off f T (mq_sched w)\<rparr>) pc"
  using assms by (auto simp: pcs_ok_def split: option.splits)

lemma take_off_sched_ok:
  assumes "sched_ok s" "\<And>th. th_wait_queue (f th) = None" "\<And>th. thread_ok (f th)"
  shows "sched_ok (take_off f T s)"
  using assms by (simp add: sched_ok_def take_off_elements_ok take_off_links_ok)

text \<open>Waiting threads that do not get a place with their wakeup.\<close>

lemma take_off_inv:
  assumes inv: "mq_inv w pc x"
    and f: "\<And>th. th_wait_queue (f th) = None" "\<And>th. thread_ok (f th)"
    and pc: "\<And>t th. t \<in> T \<Longrightarrow> sc_threads (mq_sched w) t = Some th \<Longrightarrow> pc_ok w (pc t) (f th)"
    and no: "\<And>t th a. t \<in> T \<Longrightarrow> sc_threads (mq_sched w) t = Some th \<Longrightarrow> holds (pc t) (f th) a = holds (pc t) th a"
  shows "mq_inv (w\<lparr>mq_sched := take_off f T (mq_sched w)\<rparr>) pc x"
proof -
  have "reserved (w\<lparr>mq_sched := take_off f T (mq_sched w)\<rparr>) pc a = reserved w pc a" for a
    using no by (auto simp: reserved_def)
  then have "counts_ok (w\<lparr>mq_sched := take_off f T (mq_sched w)\<rparr>) pc x"
    using mq_invD(5) [OF inv] by (simp add: counts_ok_def)
  then show ?thesis
    using inv take_off_sched_ok [of _ f] take_off_ports_ok take_off_senders_ok [of _ f] take_off_pcs_ok [of w pc T f] f pc
    by (simp add: mq_inv_def)
qed

lemma take_off_no_lost:
  "\<lbrakk>no_lost_message w; \<And>th. th_wait_queue (f th) = None\<rbrakk> \<Longrightarrow>
    no_lost_message (w\<lparr>mq_sched := take_off f T (mq_sched w)\<rparr>)"
  by (auto simp: no_lost_message_def waiting_at_take_off)

section \<open>Changes of one thread\<close>

lemma card_change:
  assumes "finite A" "\<And>u. u \<noteq> t \<Longrightarrow> u \<in> B \<longleftrightarrow> u \<in> A"
  shows "finite B" and "card B + (if t \<in> A then 1 else 0) = card A + (if t \<in> B then 1 else 0)"
proof -
  define C where "C = A - {t}"
  have "t \<notin> C" "finite C" using assms(1) by (simp_all add: C_def)
  then have C: "finite C" "card (insert t C) = Suc (card C)" by simp_all
  have A: "A = (if t \<in> A then insert t C else C)" by (auto simp: C_def)
  have "u \<in> B \<longleftrightarrow> u \<in> (if t \<in> B then insert t C else C)" for u
    using assms(2) [of u] by (cases "u = t") (auto simp: C_def)
  then have B: "B = (if t \<in> B then insert t C else C)" by blast
  show "finite B" using B C(1) by (metis finite_insert)
  have "card A = card C + (if t \<in> A then 1 else 0)" "card B = card C + (if t \<in> B then 1 else 0)"
    using A B C(2) by (metis add.right_neutral Suc_eq_plus1)+
  then show "card B + (if t \<in> A then 1 else 0) = card A + (if t \<in> B then 1 else 0)" by simp
qed

lemma port_reached:
  assumes "sched_ok (mq_sched w)" "ports_ok w" "mq_ports w b = Some p" "reaches (mq_sched w) a b"
  shows "a = b"
proof (rule ccontr)
  assume "a \<noteq> b"
  then obtain l wql where "sc_links (mq_sched w) l = Some wql" "wql_subqueue wql = b"
    using assms(4) by (auto simp: reaches_def)
  then obtain q where "sc_waitqs (mq_sched w) b = Some q" "wq_issub q"
    using assms(1) unfolding sched_ok_def links_ok_def by blast
  then show False using port_waitq [OF assms(2,3)] by auto
qed

text \<open>What may change about one thread: its queue, its result, its program counter, and who holds a
  place.\<close>

lemma thread_step_inv:
  assumes inv: "mq_inv w pc x" and th: "sc_threads (mq_sched w) t = Some th"
    and s': "sched_ok s'" "same_shape (mq_sched w) s'" "sc_threads s' = (sc_threads (mq_sched w))(t \<mapsto> th')"
    and pc: "pc_ok w n th'"
    and full: "\<And>b. \<lbrakk>th_wait_event th' = IPC_MQUEUE_FULL; th_wait_queue th' = Some b\<rbrakk> \<Longrightarrow>
      \<exists>p. mq_ports w b = Some p \<and> pmq_fullwaiters p \<and> imq_full p"
    and x: "\<And>a. x a + (if holds (pc t) th a then 1 else 0) = x' a + (if holds n th' a then 1 else 0)"
  shows "mq_inv (w\<lparr>mq_sched := s'\<rparr>) (pc(t := n)) x'"
proof -
  let ?w = "w\<lparr>mq_sched := s'\<rparr>"
  note I = mq_invD [OF inv]
  have R: "reaches s' = reaches (mq_sched w)" by (rule same_shape_reaches [OF s'(2)])
  have L: "sc_links s' = sc_links (mq_sched w)" using s'(2) by (simp add: same_shape_def)
  have "ports_ok ?w"
    unfolding ports_ok_def
  proof (intro conjI allI impI)
    fix a p assume "mq_ports ?w a = Some p"
    then have p: "mq_ports w a = Some p" by simp
    then obtain q where "sc_waitqs (mq_sched w) a = Some q" "\<not> wq_issub q" using port_waitq [OF I(2)] by blast
    then show "\<exists>q. sc_waitqs (mq_sched ?w) a = Some q \<and> \<not> wq_issub q"
      using same_shape_waitq [OF s'(2), of a q] by auto
    show "\<forall>k\<in>set (pmq_messages p). mq_kmsgs ?w k \<noteq> None" using I(2) p by (simp add: ports_ok_def)
  next
    fix l wql assume "sc_links (mq_sched ?w) l = Some wql"
    then show "mq_ports ?w (wql_queue wql) \<noteq> None" using I(2) L by (simp add: ports_ok_def)
  qed
  moreover have "senders_ok ?w"
    unfolding senders_ok_def
  proof (intro allI impI)
    fix a p assume p: "mq_ports ?w a = Some p" and "waiting_at (mq_sched ?w) a IPC_MQUEUE_FULL \<noteq> {}"
    then obtain u b where u: "queue_of s' u = Some b" "event_of s' u = IPC_MQUEUE_FULL" "reaches (mq_sched w) a b"
      by (auto simp: waiting_at_def R)
    show "pmq_fullwaiters p \<and> imq_full p"
    proof (cases "u = t")
      case True
      then have "th_wait_queue th' = Some b" "th_wait_event th' = IPC_MQUEUE_FULL"
        using u(1,2) s'(3) by (simp_all add: queue_of_def event_of_def)
      then obtain p' where "mq_ports w b = Some p'" "pmq_fullwaiters p'" "imq_full p'" using full by blast
      then show ?thesis using port_reached [OF I(1,2) _ u(3)] p by simp
    next
      case False
      then have "u \<in> waiting_at (mq_sched w) a IPC_MQUEUE_FULL"
        using u s'(3) by (auto simp: waiting_at_def queue_of_def event_of_def)
      then show ?thesis using I(3) p by (auto simp: senders_ok_def)
    qed
  qed
  moreover have "pcs_ok ?w (pc(t := n))"
    using I(4) pc s'(3) th by (auto simp: pcs_ok_def)
  moreover have "counts_ok ?w (pc(t := n)) x'"
    unfolding counts_ok_def
  proof (intro allI impI)
    fix a p assume p: "mq_ports ?w a = Some p"
    then have old: "finite (reserved w pc a)"
      "int (unat (pmq_msgcount p)) = int (length (pmq_messages p)) + int (card (reserved w pc a)) + x a"
      using I(5) by (auto simp: counts_ok_def)
    have "u \<in> reserved ?w (pc(t := n)) a \<longleftrightarrow> u \<in> reserved w pc a" if "u \<noteq> t" for u
      using that s'(3) by (auto simp: reserved_def)
    note c = card_change [where t = t, OF old(1) this]
    moreover have "t \<in> reserved ?w (pc(t := n)) a \<longleftrightarrow> holds n th' a" "t \<in> reserved w pc a \<longleftrightarrow> holds (pc t) th a"
      using s'(3) th by (simp_all add: reserved_def)
    ultimately show "finite (reserved ?w (pc(t := n)) a) \<and>
        int (unat (pmq_msgcount p)) = int (length (pmq_messages p)) + int (card (reserved ?w (pc(t := n)) a)) + x' a"
      using old(2) x [of a] by (auto split: if_splits)
  qed
  ultimately show ?thesis using s'(1) by (simp add: mq_inv_def)
qed

lemma thread_step_no_lost:
  assumes "no_lost_message w" "same_shape (mq_sched w) s'" "sc_threads s' = (sc_threads (mq_sched w))(t \<mapsto> th')"
    and "\<And>a b p. \<lbrakk>th_wait_event th' = IPC_MQUEUE_RECEIVE; th_wait_queue th' = Some b; reaches (mq_sched w) a b;
      mq_ports w a = Some p\<rbrakk> \<Longrightarrow> pmq_messages p = []"
  shows "no_lost_message (w\<lparr>mq_sched := s'\<rparr>)"
  unfolding no_lost_message_def
proof (intro allI impI)
  fix a p assume p: "mq_ports (w\<lparr>mq_sched := s'\<rparr>) a = Some p" "pmq_messages p \<noteq> []"
  have "u \<notin> waiting_at s' a IPC_MQUEUE_RECEIVE" for u
  proof
    assume "u \<in> waiting_at s' a IPC_MQUEUE_RECEIVE"
    then obtain b where u: "queue_of s' u = Some b" "event_of s' u = IPC_MQUEUE_RECEIVE" "reaches (mq_sched w) a b"
      by (auto simp: waiting_at_def same_shape_reaches [OF assms(2)])
    show False
    proof (cases "u = t")
      case True
      then show ?thesis using u assms(3) assms(4) [OF _ _ u(3)] p by (simp add: queue_of_def event_of_def)
    next
      case False
      then have "u \<in> waiting_at (mq_sched w) a IPC_MQUEUE_RECEIVE"
        using u assms(3) by (auto simp: waiting_at_def queue_of_def event_of_def)
      then show ?thesis using assms(1) p by (auto simp: no_lost_message_def)
    qed
  qed
  then show "waiting_at (mq_sched (w\<lparr>mq_sched := s'\<rparr>)) a IPC_MQUEUE_RECEIVE = {}" by auto
qed

section \<open>Changes of one port\<close>

lemma port_step_inv:
  assumes inv: "mq_inv w pc x" and p: "mq_ports w a = Some p"
    and k: "\<And>k. k \<in> set (pmq_messages p') \<Longrightarrow> mq_kmsgs w k \<noteq> None"
    and full: "waiting_at (mq_sched w) a IPC_MQUEUE_FULL \<noteq> {} \<Longrightarrow> pmq_fullwaiters p' \<and> imq_full p'"
    and c: "int (unat (pmq_msgcount p')) + int (length (pmq_messages p)) + x a =
      int (unat (pmq_msgcount p)) + int (length (pmq_messages p')) + y"
  shows "mq_inv (w\<lparr>mq_ports := (mq_ports w)(a \<mapsto> p')\<rparr>) pc (x(a := y))"
proof -
  let ?w = "w\<lparr>mq_ports := (mq_ports w)(a \<mapsto> p')\<rparr>"
  note I = mq_invD [OF inv]
  have "pc_ok w n th \<Longrightarrow> pc_ok ?w n th" for n th by (auto simp: pc_ok_def split: ipc_pc.splits)
  then have "pcs_ok ?w pc" using I(4) by (simp add: pcs_ok_def)
  moreover have "reserved ?w pc = reserved w pc" by (simp add: reserved_def fun_eq_iff)
  then have "counts_ok ?w pc (x(a := y))" using I(5) p c by (auto simp: counts_ok_def)
  moreover have "senders_ok ?w" using I(3) full by (auto simp: senders_ok_def)
  moreover have "ports_ok ?w" using I(2) p k by (auto simp: ports_ok_def)
  ultimately show ?thesis using I(1) by (simp add: mq_inv_def)
qed

end
