(* ===== verification/Ipc_Mqueue_Steps.thy ===== *)
theory Ipc_Mqueue_Steps
  imports Ipc_Mqueue_Spec
begin

text \<open>
  The operations on message queues keep the invariant and do not panic.
\<close>

section \<open>The parts of the operations\<close>

definition no_more_waiting :: "mq_state \<Rightarrow> mq_state \<Rightarrow> bool" where
  "no_more_waiting w w' \<longleftrightarrow>
    (\<forall>a e. waiting_at (mq_sched w') a e \<subseteq> waiting_at (mq_sched w) a e) \<and> mq_kmsgs w' = mq_kmsgs w \<and>
    dom (sc_threads (mq_sched w')) = dom (sc_threads (mq_sched w)) \<and> same_shape (mq_sched w) (mq_sched w')"

lemma no_more_waiting_refl [simp]: "no_more_waiting w w"
  by (simp add: no_more_waiting_def)

lemma no_more_waiting_trans: "\<lbrakk>no_more_waiting w w'; no_more_waiting w' w''\<rbrakk> \<Longrightarrow> no_more_waiting w w''"
  unfolding no_more_waiting_def by (metis order_trans same_shape_trans)

lemma no_more_waiting_ports [simp]: "no_more_waiting w (w\<lparr>mq_ports := P\<rparr>)"
  by (simp add: no_more_waiting_def)

lemma no_lost_mono:
  assumes "no_lost_message w" "no_more_waiting w w'"
    and "\<And>a p'. mq_ports w' a = Some p' \<Longrightarrow> pmq_messages p' \<noteq> [] \<Longrightarrow> \<exists>p. mq_ports w a = Some p \<and> pmq_messages p \<noteq> []"
  shows "no_lost_message w'"
  using assms unfolding no_lost_message_def no_more_waiting_def by (metis subset_empty)

lemma finite_waiting:
  assumes "sched_ok s" "sc_waitqs s a = Some q"
  shows "finite (waiting_at s a e)"
proof -
  obtain ts where ts: "waiters s a (wq_queue q) ts" "distinct (map snd ts)"
    "\<And>b t. (b, t) \<in> set ts \<Longrightarrow> queue_of s t = Some b" "snd ` set ts = {t. \<exists>b. queue_of s t = Some b \<and> reaches s a b}"
    by (rule walk [OF assms]) (rule that)
  have "waiting_at s a e \<subseteq> snd ` set ts" unfolding ts(4) by (auto simp: waiting_at_def)
  then show ?thesis by (rule finite_subset) simp
qed

lemma same_shape_take_off1: "same_shape (mq_sched w) (mq_sched (w\<lparr>mq_sched := take_off f T (mq_sched w)\<rparr>))"
  by simp

text \<open>Waking the next receiver.\<close>

lemma message_fits_cases:
  assumes "REQUESTED_TRAILER_SIZE (ith_option th) \<noteq> None"
  obtains st ms where "message_fits th k = Some (st, ms)" "st = MACH_MSG_SUCCESS \<or> st = MACH_RCV_TOO_LARGE"
proof -
  obtain n where "REQUESTED_TRAILER_SIZE (ith_option th) = Some n" using assms by blast
  then show ?thesis
    using that [of MACH_RCV_TOO_LARGE] that [of MACH_MSG_SUCCESS]
    by (cases "ith_msize th < msgh_size (ikm_header k) + n") (auto simp: message_fits_def)
qed

lemma upd_thread_Some: "sc_threads s t \<noteq> None \<Longrightarrow> upd_thread t f s = Some (map_threads f {t} s)"
  by (simp add: upd_thread_eq)

lemma offer_cases:
  assumes inv: "mq_inv w pc x" and p: "mq_ports w a = Some p" and k: "mq_kmsgs w kmsg = Some k"
  obtains (nobody) "waiting_at (mq_sched w) a IPC_MQUEUE_RECEIVE = {}" "offer_message a kmsg w = Some (None, w)"
  | (told) t st opt w' where "t \<in> waiting_at (mq_sched w) a IPC_MQUEUE_RECEIVE"
      "offer_message a kmsg w = Some (Some (t, st, opt), w')" "mq_inv w' pc x" "no_more_waiting w w'"
      "mq_ports w' = mq_ports w" "sc_threads (mq_sched w') t \<noteq> None"
      "t \<notin> waiting_at (mq_sched w') a IPC_MQUEUE_RECEIVE" "st = MACH_MSG_SUCCESS \<or> st = MACH_RCV_TOO_LARGE"
proof -
  obtain q where q: "sc_waitqs (mq_sched w) a = Some q" using port_waitq [OF mq_invD(2) [OF inv] p] by blast
  show ?thesis
  proof (cases rule: wakeup_cases [OF mq_invD(1) [OF inv] q, of IPC_MQUEUE_RECEIVE THREAD_AWAKENED, case_names nobody' found'])
    case nobody'
    then show ?thesis using nobody by (simp add: offer_message_def from_sched_def)
  next
    case (found' t)
    obtain th b opt where th: "sc_threads (mq_sched w) t = Some th" "pc t = Receive_wait b opt" "ith_option th = opt"
      "REQUESTED_TRAILER_SIZE opt \<noteq> None" "th_wait th" "th_wait_queue th = Some b"
      by (rule waiting_receiver [OF inv found'(1)]) (rule that)
    obtain st ms where fits: "message_fits th k = Some (st, ms)" "st = MACH_MSG_SUCCESS \<or> st = MACH_RCV_TOO_LARGE"
      by (rule message_fits_cases [of th k]) (use th that in simp_all)
    define f where "f = (\<lambda>th :: thread. (wake THREAD_AWAKENED th)\<lparr>ith_state := st, ith_msize := ms\<rparr>)"
    define w' where "w' = w\<lparr>mq_sched := take_off f {t} (mq_sched w)\<rparr>"
    have f: "th_wait_queue (f th) = None" "thread_ok (f th)" for th by (simp_all add: f_def thread_ok_def)
    have "message_fits (wake THREAD_AWAKENED th) k = Some (st, ms)" "ith_option (wake THREAD_AWAKENED th) = opt"
      using fits(1) th(3) by (simp_all add: message_fits_def go_def off_def cong: if_cong)
    then have "offer_message a kmsg w = Some (Some (t, st, opt), w')"
      using found'(2) th k
      by (simp add: offer_message_def from_sched_def on_sched_def upd_thread_Some map_take_off w'_def f_def comp_def)
    moreover have "mq_inv w' pc x"
      unfolding w'_def
    proof (rule take_off_inv [OF inv f])
      fix u thu assume u: "u \<in> {t}" "sc_threads (mq_sched w) u = Some thu"
      then show "pc_ok w (pc u) (f thu)"
        using th fits(2) pcs_okD [OF mq_invD(4) [OF inv] u(2)] by (auto simp: pc_ok_def f_def go_def off_def)
      show "holds (pc u) (f thu) b = holds (pc u) thu b" for b using u th by (auto simp: holds_def)
    qed
    moreover have W: "waiting_at (mq_sched w') b e = waiting_at (mq_sched w) b e - {t}" for b e
      unfolding w'_def by (simp add: waiting_at_take_off f)
    have "dom (sc_threads (mq_sched w')) = dom (sc_threads (mq_sched w))"
      using th(1) by (auto simp: w'_def split: if_splits)
    then have "no_more_waiting w w'" using W by (simp add: no_more_waiting_def w'_def)
    ultimately show ?thesis
      by (intro told [where t = t and st = st and opt = opt and w' = w', OF found'(1)])
        (use fits(2) W th(1) in \<open>simp_all add: w'_def\<close>)
  qed
qed

text \<open>What a receiver finds when it runs again.\<close>

definition got :: "mq_state \<Rightarrow> thread_t \<Rightarrow> u32 \<Rightarrow> u32 \<Rightarrow> bool" where
  "got w t kmsg seqno \<longleftrightarrow>
    (\<exists>th. sc_threads (mq_sched w) t = Some th \<and> ith_kmsg th = kmsg \<and> ith_seqno th = seqno)"

lemma set_ith_kmsg_inv:
  assumes inv: "mq_inv w pc x" and t: "sc_threads (mq_sched w) t \<noteq> None"
  obtains w' where "set_ith_kmsg t k sq w = Some w'" "mq_inv w' pc x" "no_more_waiting w w'" "mq_ports w' = mq_ports w"
    "\<And>a e. waiting_at (mq_sched w') a e = waiting_at (mq_sched w) a e" "got w' t k sq"
proof -
  obtain th where th: "sc_threads (mq_sched w) t = Some th" using t by blast
  define f where "f = (\<lambda>th :: thread. th\<lparr>ith_kmsg := k, ith_seqno := sq\<rparr>)"
  define s' where "s' = map_threads f {t} (mq_sched w)"
  have T: "sc_threads s' = (sc_threads (mq_sched w))(t \<mapsto> f th)"
    using th by (auto simp: s'_def map_threads_def)
  have eq: "set_ith_kmsg t k sq w = Some (w\<lparr>mq_sched := s'\<rparr>)"
    using th by (simp add: set_ith_kmsg_def on_sched_def upd_thread_Some s'_def f_def)
  have ok: "sched_ok s'"
    unfolding s'_def
    by (rule map_threads_ok) (use mq_invD(1) [OF inv] in \<open>auto simp: f_def sched_ok_def elements_ok_def thread_ok_def\<close>)
  have shape: "same_shape (mq_sched w) s'" by (simp add: s'_def)
  have Q: "queue_of s' = queue_of (mq_sched w)" "event_of s' = event_of (mq_sched w)"
    using th by (auto simp: queue_of_def event_of_def T f_def)
  then have W: "waiting_at s' a e = waiting_at (mq_sched w) a e" for a e
    by (simp add: waiting_at_def same_shape_reaches [OF shape])
  have pc: "pc_ok w (pc t) th" by (rule pcs_okD [OF mq_invD(4) [OF inv] th])
  have "mq_inv (w\<lparr>mq_sched := s'\<rparr>) (pc(t := pc t)) x"
  proof (rule thread_step_inv [OF inv th ok shape T])
    show "pc_ok w (pc t) (f th)" using pc by (auto simp: pc_ok_def f_def split: ipc_pc.splits)
    fix b assume e: "th_wait_event (f th) = IPC_MQUEUE_FULL" "th_wait_queue (f th) = Some b"
    then have "pc t \<noteq> Idle \<Longrightarrow> \<exists>k opt. pc t = Send_wait b k opt \<and> mq_ports w b \<noteq> None"
      using pc by (auto simp: pc_ok_def f_def split: ipc_pc.splits)
    moreover have "pc t \<noteq> Idle" using pc e by (auto simp: pc_ok_def f_def)
    ultimately obtain p where p: "mq_ports w b = Some p" by blast
    moreover have "t \<in> waiting_at (mq_sched w) b IPC_MQUEUE_FULL"
      using e th by (auto simp: waiting_at_def queue_of_def event_of_def reaches_def f_def)
    ultimately show "\<exists>p. mq_ports w b = Some p \<and> pmq_fullwaiters p \<and> imq_full p"
      using mq_invD(3) [OF inv] by (auto simp: senders_ok_def)
  qed (simp add: holds_def f_def split: ipc_pc.split)
  then have "mq_inv (w\<lparr>mq_sched := s'\<rparr>) pc x" by simp
  moreover have "no_more_waiting w (w\<lparr>mq_sched := s'\<rparr>)"
    using W shape T th by (auto simp: no_more_waiting_def)
  moreover have "got (w\<lparr>mq_sched := s'\<rparr>) t k sq" by (simp add: got_def T f_def)
  ultimately show ?thesis using that [OF eq] W by simp
qed

text \<open>Releasing a place: it is free, or a waiting sender has it.\<close>

definition same_messages :: "ipc_mqueue_t \<Rightarrow> port_mqueue \<Rightarrow> mq_state \<Rightarrow> mq_state \<Rightarrow> bool" where
  "same_messages a p w w' \<longleftrightarrow> (\<exists>p'. mq_ports w' = (mq_ports w)(a \<mapsto> p') \<and>
     pmq_messages p' = pmq_messages p \<and> pmq_seqno p' = pmq_seqno p \<and> pmq_qlimit p' = pmq_qlimit p)"

lemma release_inv:
  assumes inv: "mq_inv w pc x" and p: "mq_ports w a = Some p" and pos: "0 < pmq_msgcount p"
  obtains w' where "ipc_mqueue_release_msgcount a w = Some w'" "mq_inv w' pc (x(a := x a - 1))" "no_more_waiting w w'"
    "same_messages a p w w'" "\<And>t k sq. got w t k sq \<Longrightarrow> got w' t k sq"
proof -
  note I = mq_invD [OF inv]
  obtain q where q: "sc_waitqs (mq_sched w) a = Some q" using port_waitq [OF I(2) p] by blast
  have c1: "unat (pmq_msgcount p - 1) = unat (pmq_msgcount p) - 1" by (rule unat_dec [OF pos])
  have k: "\<And>k. k \<in> set (pmq_messages p) \<Longrightarrow> mq_kmsgs w k \<noteq> None" using I(2) p by (auto simp: ports_ok_def)
  define p1 where "p1 = p\<lparr>pmq_msgcount := pmq_msgcount p - 1\<rparr>"
  define w1 where "w1 = w\<lparr>mq_ports := (mq_ports w)(a \<mapsto> p1)\<rparr>"
  note result = that
  have kept: ?thesis
    if r: "ipc_mqueue_release_msgcount a w = Some (w\<lparr>mq_ports := (mq_ports w)(a \<mapsto> p1\<lparr>pmq_fullwaiters := b\<rparr>)\<rparr>)"
      and b: "waiting_at (mq_sched w) a IPC_MQUEUE_FULL \<noteq> {} \<Longrightarrow> b \<and> imq_full p1" for b
  proof (rule result [OF r])
    show "mq_inv (w\<lparr>mq_ports := (mq_ports w)(a \<mapsto> p1\<lparr>pmq_fullwaiters := b\<rparr>)\<rparr>) pc (x(a := x a - 1))"
    proof (rule port_step_inv [OF inv p])
      assume "waiting_at (mq_sched w) a IPC_MQUEUE_FULL \<noteq> {}"
      then show "pmq_fullwaiters (p1\<lparr>pmq_fullwaiters := b\<rparr>) \<and> imq_full (p1\<lparr>pmq_fullwaiters := b\<rparr>)"
        using b by (simp add: imq_full_def)
    next
      have "0 < unat (pmq_msgcount p)" using pos by (simp add: word_less_nat_alt)
      then show "int (unat (pmq_msgcount (p1\<lparr>pmq_fullwaiters := b\<rparr>))) + int (length (pmq_messages p)) + x a =
          int (unat (pmq_msgcount p)) + int (length (pmq_messages (p1\<lparr>pmq_fullwaiters := b\<rparr>))) + (x a - 1)"
        using c1 by (simp add: p1_def)
    qed (simp add: k p1_def)
    show "same_messages a p w (w\<lparr>mq_ports := (mq_ports w)(a \<mapsto> p1\<lparr>pmq_fullwaiters := b\<rparr>)\<rparr>)"
      by (auto simp: same_messages_def p1_def)
  qed (simp_all add: got_def)
  show ?thesis
  proof (cases "\<not> imq_full p1 \<and> pmq_fullwaiters p1")
    case False
    have "ipc_mqueue_release_msgcount a w = Some (w\<lparr>mq_ports := (mq_ports w)(a \<mapsto> p1\<lparr>pmq_fullwaiters := pmq_fullwaiters p1\<rparr>)\<rparr>)"
      using False p pos by (auto simp: ipc_mqueue_release_msgcount_def upd_mqueue_def p1_def)
    then show ?thesis
      by (rule kept) (use I(3) p False in \<open>auto simp: senders_ok_def p1_def\<close>)
  next
    case True
    note rel = ipc_mqueue_release_msgcount_def upd_mqueue_def from_sched_def
    show ?thesis
    proof (cases rule: wakeup_cases [OF I(1) q, of IPC_MQUEUE_FULL THREAD_AWAKENED, case_names nobody found])
      case nobody
      then have "ipc_mqueue_release_msgcount a w = Some (w\<lparr>mq_ports := (mq_ports w)(a \<mapsto> p1\<lparr>pmq_fullwaiters := False\<rparr>)\<rparr>)"
        using True p pos by (simp add: rel p1_def)
      then show ?thesis by (rule kept) (simp add: nobody)
    next
      case (found t)
      let ?s = "take_off (wake THREAD_AWAKENED) {t} (mq_sched w)"
      have "ipc_mqueue_release_msgcount a w = Some (w\<lparr>mq_sched := ?s, mq_ports := (mq_ports w)(a \<mapsto> p)\<rparr>)"
        using True p pos found by (simp add: rel p1_def)
      also have "w\<lparr>mq_sched := ?s, mq_ports := (mq_ports w)(a \<mapsto> p)\<rparr> = w\<lparr>mq_sched := ?s\<rparr>" using p by (simp add: map_upd_triv)
      finally have r: "ipc_mqueue_release_msgcount a w = Some (w\<lparr>mq_sched := ?s\<rparr>)" .
      obtain th k opt where th: "sc_threads (mq_sched w) t = Some th" "pc t = Send_wait a k opt" "th_wait th" "th_wait_queue th = Some a"
        by (rule waiting_sender [OF inv p found(1)]) (rule that)
      have "mq_inv (w\<lparr>mq_sched := ?s\<rparr>) (pc(t := pc t)) (x(a := x a - 1))"
      proof (rule thread_step_inv [OF inv th(1)])
        show "pc_ok w (pc t) (wake THREAD_AWAKENED th)"
          using pcs_okD [OF I(4) th(1)] th by (simp add: pc_ok_def go_def off_def)
        show "x b + (if holds (pc t) th b then 1 else 0) =
            (x(a := x a - 1)) b + (if holds (pc t) (wake THREAD_AWAKENED th) b then 1 else 0)" for b
          using th by (auto simp: holds_def go_def)
      qed (use I(1) th(1) in \<open>auto simp: fun_eq_iff\<close>)
      moreover have "no_more_waiting w (w\<lparr>mq_sched := ?s\<rparr>)"
        using th(1) by (auto simp: no_more_waiting_def waiting_at_take_off split: if_splits)
      moreover have "same_messages a p w (w\<lparr>mq_sched := ?s\<rparr>)"
        using p by (auto simp: same_messages_def map_upd_triv intro!: exI [of _ p])
      moreover have "got (w\<lparr>mq_sched := ?s\<rparr>) u k sq" if "got w u k sq" for u k sq
        using that by (auto simp: got_def go_def off_def)
      ultimately show ?thesis using result [OF r] by simp
    qed
  qed
qed

lemma same_messages_no_lost:
  "\<lbrakk>no_lost_message w; no_more_waiting w w'; mq_ports w a = Some p; same_messages a p w w'\<rbrakk> \<Longrightarrow> no_lost_message w'"
  by (erule no_lost_mono) (auto simp: same_messages_def split: if_splits)

lemma give_inv:
  assumes inv: "mq_inv w pc x" and p: "mq_ports w a = Some p" and t: "sc_threads (mq_sched w) t \<noteq> None"
  obtains w' where "give_message a t kmsg w = Some w'" "mq_inv w' pc x" "no_more_waiting w w'"
    "mq_ports w' = (mq_ports w)(a \<mapsto> p\<lparr>pmq_seqno := pmq_seqno p + 1\<rparr>)" "got w' t kmsg (pmq_seqno p)"
proof -
  obtain w1 where w1: "set_ith_kmsg t kmsg (pmq_seqno p) w = Some w1" "mq_inv w1 pc x" "no_more_waiting w w1" "mq_ports w1 = mq_ports w"
    "got w1 t kmsg (pmq_seqno p)"
    by (rule set_ith_kmsg_inv [OF inv t]) (rule that)
  define w' where "w' = w1\<lparr>mq_ports := (mq_ports w)(a \<mapsto> p\<lparr>pmq_seqno := pmq_seqno p + 1\<rparr>)\<rparr>"
  have p1: "mq_ports w1 a = Some p" using p w1(4) by simp
  have "mq_inv (w1\<lparr>mq_ports := (mq_ports w1)(a \<mapsto> p\<lparr>pmq_seqno := pmq_seqno p + 1\<rparr>)\<rparr>) pc (x(a := x a))"
    by (rule port_step_inv [OF w1(2) p1])
      (use mq_invD(2,3) [OF w1(2)] p1 in \<open>auto simp: ports_ok_def senders_ok_def imq_full_def\<close>)
  then have "mq_inv w' pc x" by (simp add: w'_def w1(4))
  moreover have "give_message a t kmsg w = Some w'"
    using p w1(1,4) by (simp add: give_message_def upd_mqueue_def w'_def)
  moreover have "no_more_waiting w w'"
    using no_more_waiting_trans [OF w1(3) no_more_waiting_ports] by (simp add: w'_def)
  moreover have "got w' t kmsg (pmq_seqno p)" using w1(5) by (simp add: got_def w'_def)
  ultimately show ?thesis using that by (simp add: w'_def)
qed

section \<open>Posting\<close>

lemma count_pos:
  assumes "mq_inv w pc x" "mq_ports w a = Some p" "0 < int (length (pmq_messages p)) + x a"
  shows "0 < pmq_msgcount p"
proof -
  have "int (unat (pmq_msgcount p)) = int (length (pmq_messages p)) + int (card (reserved w pc a)) + x a"
    using mq_invD(5) [OF assms(1)] assms(2) by (simp add: counts_ok_def)
  then show ?thesis using assms(3) by (simp add: word_less_def)
qed

lemma no_more_waiting_card:
  assumes "mq_inv w pc x" "mq_ports w a = Some p" "no_more_waiting w w'"
    and "t \<in> waiting_at (mq_sched w) a e" "t \<notin> waiting_at (mq_sched w') a e"
  shows "card (waiting_at (mq_sched w') a e) < card (waiting_at (mq_sched w) a e)"
proof -
  obtain q where "sc_waitqs (mq_sched w) a = Some q" using port_waitq [OF mq_invD(2) [OF assms(1)] assms(2)] by blast
  from finite_waiting [OF mq_invD(1) [OF assms(1)] this, of e] show ?thesis
    by (rule psubset_card_mono) (use assms(3-5) in \<open>auto simp: no_more_waiting_def\<close>)
qed

definition queued :: "ipc_mqueue_t \<Rightarrow> port_mqueue \<Rightarrow> u32 \<Rightarrow> mq_state \<Rightarrow> bool" where
  "queued a p kmsg w' \<longleftrightarrow> waiting_at (mq_sched w') a IPC_MQUEUE_RECEIVE = {} \<and>
     mq_ports w' a = Some (p\<lparr>pmq_messages := pmq_messages p @ [kmsg]\<rparr>)"

definition delivered :: "ipc_mqueue_t \<Rightarrow> port_mqueue \<Rightarrow> u32 \<Rightarrow> mq_state \<Rightarrow> mq_state \<Rightarrow> bool" where
  "delivered a p kmsg w w' \<longleftrightarrow> (\<exists>t p'. t \<in> waiting_at (mq_sched w) a IPC_MQUEUE_RECEIVE \<and> got w' t kmsg (pmq_seqno p) \<and>
     mq_ports w' a = Some p' \<and> pmq_messages p' = pmq_messages p \<and> pmq_seqno p' = pmq_seqno p + 1)"

lemma post_inv:
  assumes "mq_inv w pc x" "mq_ports w a = Some p" "0 < x a" "mq_kmsgs w kmsg = Some k"
  shows "\<exists>w'. ipc_mqueue_post a kmsg w = Some w' \<and> mq_inv w' pc (x(a := x a - 1)) \<and> no_more_waiting w w' \<and>
    (no_lost_message w \<longrightarrow> no_lost_message w') \<and> (queued a p kmsg w' \<or> delivered a p kmsg w w')"
  using assms
proof (induction "card (waiting_at (mq_sched w) a IPC_MQUEUE_RECEIVE)" arbitrary: w rule: less_induct)
  case less
  note inv = less.prems(1) and p = less.prems(2)
  show ?case
  proof (cases rule: offer_cases [OF inv p less.prems(4), case_names nobody told])
    case nobody
    define p' where "p' = p\<lparr>pmq_messages := pmq_messages p @ [kmsg]\<rparr>"
    define w' where "w' = w\<lparr>mq_ports := (mq_ports w)(a \<mapsto> p')\<rparr>"
    note I = mq_invD [OF inv]
    have "0 < pmq_msgcount p" by (rule count_pos [OF inv p]) (use less.prems(3) in simp)
    then have "ipc_mqueue_post a kmsg w = Some w'"
      using nobody p by (subst ipc_mqueue_post.simps) (simp add: upd_mqueue_def w'_def p'_def)
    moreover have "mq_inv w' pc (x(a := x a - 1))"
      unfolding w'_def
      by (rule port_step_inv [OF inv p])
        (use I(2,3) p less.prems(3,4) in \<open>auto simp: p'_def ports_ok_def senders_ok_def imq_full_def\<close>)
    moreover have "no_lost_message w \<longrightarrow> no_lost_message w'"
      using nobody(1) by (auto simp: no_lost_message_def w'_def)
    moreover have "queued a p kmsg w'" using nobody(1) by (simp add: queued_def w'_def p'_def)
    ultimately show ?thesis using no_more_waiting_ports [of w] unfolding w'_def by blast
  next
    case (told t st opt w1)
    note inv1 = told(3)
    have p1: "mq_ports w1 a = Some p" and k1: "mq_kmsgs w1 kmsg = Some k"
      using told(4,5) p less.prems(4) by (simp_all add: no_more_waiting_def)
    have lost1: "no_lost_message w \<longrightarrow> no_lost_message w1"
      using told(4,5) by (auto elim: no_lost_mono)
    show ?thesis
    proof (cases "st = MACH_MSG_SUCCESS \<or> \<not> option_set opt MACH_RCV_LARGE")
      case True
      define p2 where "p2 = p\<lparr>pmq_seqno := pmq_seqno p + 1\<rparr>"
      obtain w2 where w2: "give_message a t kmsg w1 = Some w2" "mq_inv w2 pc x" "no_more_waiting w1 w2"
        "mq_ports w2 = (mq_ports w1)(a \<mapsto> p\<lparr>pmq_seqno := pmq_seqno p + 1\<rparr>)" "got w2 t kmsg (pmq_seqno p)"
        by (rule give_inv [OF inv1 p1 told(6)]) (rule that)
      note w2 = w2 [folded p2_def]
      have a2: "mq_ports w2 a = Some p2" using w2(4) by simp
      have pos2: "0 < pmq_msgcount p2" by (rule count_pos [OF w2(2) a2]) (use less.prems(3) in simp)
      obtain w3 where w3: "ipc_mqueue_release_msgcount a w2 = Some w3" "mq_inv w3 pc (x(a := x a - 1))"
        "no_more_waiting w2 w3" "same_messages a p2 w2 w3" "\<And>t k sq. got w2 t k sq \<Longrightarrow> got w3 t k sq"
        by (rule release_inv [OF w2(2) a2 pos2]) (rule that)
      have n: "no_more_waiting w w3" by (meson no_more_waiting_trans told(4) w2(3) w3(3))
      have eq: "ipc_mqueue_post a kmsg w = Some w3"
        using told(2) True w2(1) w3(1) by (subst ipc_mqueue_post.simps) simp
      have "no_lost_message w1 \<Longrightarrow> no_lost_message w2"
        by (erule no_lost_mono [OF _ w2(3)]) (use w2(4) p1 in \<open>auto simp: p2_def split: if_splits\<close>)
      then have lost: "no_lost_message w \<longrightarrow> no_lost_message w3"
        using lost1 same_messages_no_lost [OF _ w3(3) a2 w3(4)] by blast
      have "delivered a p kmsg w w3"
        using told(1) w3(5) [OF w2(5)] w3(4) unfolding delivered_def same_messages_def p2_def by auto
      then show ?thesis using eq w3(2) n lost by blast
    next
      case False
      obtain w2 where w2: "set_ith_kmsg t IKM_NULL 0 w1 = Some w2" "mq_inv w2 pc x" "no_more_waiting w1 w2"
        "mq_ports w2 = mq_ports w1" "\<And>a e. waiting_at (mq_sched w2) a e = waiting_at (mq_sched w1) a e"
        by (rule set_ith_kmsg_inv [OF inv1 told(6)]) (rule that)
      have n2: "no_more_waiting w w2" by (rule no_more_waiting_trans [OF told(4) w2(3)])
      have p2: "mq_ports w2 a = Some p" and k2: "mq_kmsgs w2 kmsg = Some k"
        using w2(3,4) p1 k1 by (simp_all add: no_more_waiting_def)
      have "card (waiting_at (mq_sched w2) a IPC_MQUEUE_RECEIVE) < card (waiting_at (mq_sched w) a IPC_MQUEUE_RECEIVE)"
        by (rule no_more_waiting_card [OF inv p n2 told(1)]) (use told(7) w2(5) in simp)
      from less.hyps [OF this w2(2) p2 less.prems(3) k2]
      obtain w' where w': "ipc_mqueue_post a kmsg w2 = Some w'" "mq_inv w' pc (x(a := x a - 1))" "no_more_waiting w2 w'"
        "no_lost_message w2 \<longrightarrow> no_lost_message w'" "queued a p kmsg w' \<or> delivered a p kmsg w2 w'" by blast
      have eq: "ipc_mqueue_post a kmsg w = Some w'"
        using told(2) False w2(1) w'(1) by (subst ipc_mqueue_post.simps) simp
      have "no_lost_message w1 \<Longrightarrow> no_lost_message w2"
        by (erule no_lost_mono [OF _ w2(3)]) (simp add: w2(4))
      moreover have "delivered a p kmsg w2 w' \<Longrightarrow> delivered a p kmsg w w'"
        using n2 unfolding delivered_def no_more_waiting_def by blast
      ultimately show ?thesis
        using eq w'(2,4,5) lost1 no_more_waiting_trans [OF n2 w'(3)] by blast
    qed
  qed
qed

end
