(* ===== verification/Ipc_Mqueue_Safe.thy ===== *)
theory Ipc_Mqueue_Safe
  imports Ipc_Mqueue_Steps
begin

text \<open>
  All operations on message queues, under every interleaving: they keep the invariant and no
  assertion fails.
\<close>

section \<open>Taking messages off a queue\<close>

lemma count_eq:
  assumes "mq_inv w pc x" "mq_ports w a = Some p"
  shows "int (unat (pmq_msgcount p)) = int (length (pmq_messages p)) + int (card (reserved w pc a)) + x a"
  using mq_invD(5) [OF assms(1)] assms(2) by (simp add: counts_ok_def)

lemma port_messages: "\<lbrakk>mq_inv w pc x; mq_ports w a = Some p; k \<in> set (pmq_messages p)\<rbrakk> \<Longrightarrow> mq_kmsgs w k \<noteq> None"
  using mq_invD(2) by (auto simp: ports_ok_def)

text \<open>A change of a port that waiting senders do not see.\<close>

lemma port_quiet_inv:
  assumes inv: "mq_inv w pc x" and p: "mq_ports w a = Some p"
    and same: "pmq_msgcount p' = pmq_msgcount p" "pmq_qlimit p' = pmq_qlimit p" "pmq_fullwaiters p' = pmq_fullwaiters p"
    and ms: "set (pmq_messages p') \<subseteq> set (pmq_messages p)"
  shows "mq_inv (w\<lparr>mq_ports := (mq_ports w)(a \<mapsto> p')\<rparr>) pc
    (x(a := x a + int (length (pmq_messages p)) - int (length (pmq_messages p'))))"
proof (rule port_step_inv [OF inv p])
  fix k assume "k \<in> set (pmq_messages p')"
  then show "mq_kmsgs w k \<noteq> None" using port_messages [OF inv p] ms by auto
next
  assume "waiting_at (mq_sched w) a IPC_MQUEUE_FULL \<noteq> {}"
  then show "pmq_fullwaiters p' \<and> imq_full p'"
    using mq_invD(3) [OF inv] p same by (auto simp: senders_ok_def imq_full_def)
qed (simp add: same)

lemma match_message_inv:
  assumes "mq_inv w pc x" "mq_ports w a = Some p" "kmsg \<in> set (pmq_messages p)" "x a = 0"
  shows "\<exists>b w'. match_message a kmsg w = Some (b, w') \<and> mq_inv w' pc x \<and> no_more_waiting w w' \<and>
    (if b then \<exists>p'. mq_ports w' = (mq_ports w)(a \<mapsto> p') \<and> pmq_messages p' = remove1 kmsg (pmq_messages p)
     else mq_ports w' = mq_ports w \<and> waiting_at (mq_sched w') a IPC_MQUEUE_RECEIVE = {})"
  using assms
proof (induction "card (waiting_at (mq_sched w) a IPC_MQUEUE_RECEIVE)" arbitrary: w rule: less_induct)
  case less
  note inv = less.prems(1) and p = less.prems(2)
  obtain k where k: "mq_kmsgs w kmsg = Some k" using port_messages [OF inv p less.prems(3)] by blast
  show ?case
  proof (cases rule: offer_cases [OF inv p k, case_names nobody told])
    case nobody
    then have "match_message a kmsg w = Some (False, w)" by (subst match_message.simps) simp
    then show ?thesis using inv nobody(1) by auto
  next
    case (told t st opt w1)
    note inv1 = told(3)
    have p1: "mq_ports w1 a = Some p" and k1: "mq_kmsgs w1 kmsg = Some k"
      using told(4,5) p k by (simp_all add: no_more_waiting_def)
    show ?thesis
    proof (cases "st = MACH_RCV_TOO_LARGE \<and> option_set opt MACH_RCV_LARGE")
      case False
      have "0 < int (length (pmq_messages p)) + x a" using less.prems(3,4) by (cases "pmq_messages p") auto
      from count_pos [OF inv1 p1 this] have pos: "0 < pmq_msgcount p" .
      obtain w2 where w2: "ipc_mqueue_release_msgcount a w1 = Some w2" "mq_inv w2 pc (x(a := x a - 1))"
        "no_more_waiting w1 w2" "same_messages a p w1 w2"
        by (rule release_inv [OF inv1 p1 pos]) (rule that)
      obtain p2 where p2: "mq_ports w2 = (mq_ports w1)(a \<mapsto> p2)" "pmq_messages p2 = pmq_messages p"
        using w2(4) by (auto simp: same_messages_def)
      define p3 where "p3 = p2\<lparr>pmq_messages := remove1 kmsg (pmq_messages p2)\<rparr>"
      define w3 where "w3 = w2\<lparr>mq_ports := (mq_ports w2)(a \<mapsto> p3)\<rparr>"
      have a2: "mq_ports w2 a = Some p2" by (simp add: p2(1))
      have "mq_inv w3 pc ((x(a := x a - 1))(a := (x(a := x a - 1)) a + int (length (pmq_messages p2)) - int (length (pmq_messages p3))))"
        unfolding w3_def
        by (rule port_quiet_inv [OF w2(2) a2]) (simp_all add: p3_def set_remove1_subset)
      moreover have "length (pmq_messages p3) = length (pmq_messages p) - 1" "0 < length (pmq_messages p)"
        using less.prems(3) p2(2) by (auto simp: p3_def length_remove1)
      ultimately have inv3: "mq_inv w3 pc x" using less.prems(4) by (simp add: p2(2) fun_upd_idem of_nat_diff)
      have a3: "mq_ports w3 a = Some p3" by (simp add: w3_def)
      have t3: "sc_threads (mq_sched w3) t \<noteq> None"
        using told(6) w2(3) unfolding no_more_waiting_def w3_def by (auto simp: dom_def)
      obtain w4 where w4: "give_message a t kmsg w3 = Some w4" "mq_inv w4 pc x" "no_more_waiting w3 w4"
        "mq_ports w4 = (mq_ports w3)(a \<mapsto> p3\<lparr>pmq_seqno := pmq_seqno p3 + 1\<rparr>)"
        by (rule give_inv [OF inv3 a3 t3]) (rule that)
      have u: "upd_mqueue a (\<lambda>p. p\<lparr>pmq_messages := remove1 kmsg (pmq_messages p)\<rparr>) w2 = Some w3"
        using a2 by (simp add: upd_mqueue_def w3_def p3_def)
      have "match_message a kmsg w = Some (True, w4)"
        using told(2) False w2(1) u w4(1) by (subst match_message.simps) auto
      moreover have "no_more_waiting w w4"
        using told(4) w2(3) w4(3) no_more_waiting_ports [of w2] unfolding w3_def by (meson no_more_waiting_trans)
      moreover have "mq_ports w4 = (mq_ports w)(a \<mapsto> p3\<lparr>pmq_seqno := pmq_seqno p3 + 1\<rparr>)"
        by (simp add: w4(4) w3_def p2(1) told(5))
      ultimately show ?thesis using w4(2) p2(2)
        by (intro exI [of _ True] exI [of _ w4]) (simp add: p3_def exI [of _ "p3\<lparr>pmq_seqno := pmq_seqno p3 + 1\<rparr>"])
    next
      case True
      obtain w2 where w2: "set_ith_kmsg t IKM_NULL 0 w1 = Some w2" "mq_inv w2 pc x" "no_more_waiting w1 w2"
        "mq_ports w2 = mq_ports w1" "\<And>a e. waiting_at (mq_sched w2) a e = waiting_at (mq_sched w1) a e"
        by (rule set_ith_kmsg_inv [OF inv1 told(6)]) (rule that)
      have n2: "no_more_waiting w w2" by (rule no_more_waiting_trans [OF told(4) w2(3)])
      have p2: "mq_ports w2 a = Some p" using w2(4) p1 by simp
      have "card (waiting_at (mq_sched w2) a IPC_MQUEUE_RECEIVE) < card (waiting_at (mq_sched w) a IPC_MQUEUE_RECEIVE)"
        by (rule no_more_waiting_card [OF inv p n2 told(1)]) (use told(7) w2(5) in simp)
      from less.hyps [OF this w2(2) p2 less.prems(3,4)] obtain b w' where w': "match_message a kmsg w2 = Some (b, w')"
        "mq_inv w' pc x" "no_more_waiting w2 w'"
        "if b then \<exists>p'. mq_ports w' = (mq_ports w2)(a \<mapsto> p') \<and> pmq_messages p' = remove1 kmsg (pmq_messages p)
         else mq_ports w' = mq_ports w2 \<and> waiting_at (mq_sched w') a IPC_MQUEUE_RECEIVE = {}" by blast
      have "match_message a kmsg w = Some (b, w')"
        using told(2) True w2(1) w'(1) by (subst match_message.simps) simp
      then show ?thesis using w'(2,4) no_more_waiting_trans [OF n2 w'(3)] w2(4) told(5) by (cases b) auto
    qed
  qed
qed

lemma match_messages_inv:
  assumes "mq_inv w pc x" "mq_ports w a = Some p" "pmq_messages p = ms" "x a = 0"
  shows "\<exists>w' p'. match_messages a ms w = Some w' \<and> mq_inv w' pc x \<and> no_more_waiting w w' \<and>
    mq_ports w' = (mq_ports w)(a \<mapsto> p') \<and>
    (pmq_messages p' = [] \<or> waiting_at (mq_sched w') a IPC_MQUEUE_RECEIVE = {})"
  using assms
proof (induction ms arbitrary: w p)
  case Nil
  then show ?case by (intro exI [of _ w] exI [of _ p]) (simp add: fun_upd_idem)
next
  case (Cons kmsg ms)
  have "kmsg \<in> set (pmq_messages p)" using Cons.prems by simp
  from match_message_inv [OF Cons.prems(1,2) this Cons.prems(4)]
  obtain b w1 where w1: "match_message a kmsg w = Some (b, w1)" "mq_inv w1 pc x" "no_more_waiting w w1"
    "if b then \<exists>p'. mq_ports w1 = (mq_ports w)(a \<mapsto> p') \<and> pmq_messages p' = remove1 kmsg (pmq_messages p)
     else mq_ports w1 = mq_ports w \<and> waiting_at (mq_sched w1) a IPC_MQUEUE_RECEIVE = {}" by blast
  show ?case
  proof (cases b)
    case True
    then obtain p1 where p1: "mq_ports w1 = (mq_ports w)(a \<mapsto> p1)" "pmq_messages p1 = ms"
      using w1(4) Cons.prems(3) by auto
    from p1(1) have "mq_ports w1 a = Some p1" by simp
    from Cons.IH [OF w1(2) this p1(2) Cons.prems(4)]
    obtain w' p' where "match_messages a ms w1 = Some w'" "mq_inv w' pc x" "no_more_waiting w1 w'"
      "mq_ports w' = (mq_ports w1)(a \<mapsto> p')"
      "pmq_messages p' = [] \<or> waiting_at (mq_sched w') a IPC_MQUEUE_RECEIVE = {}"
      by blast
    then show ?thesis using w1(1,3) True p1(1) no_more_waiting_trans [of w w1 w']
      by (intro exI [of _ w'] exI [of _ p']) simp
  next
    case False
    then show ?thesis using w1 Cons.prems(2)
      by (intro exI [of _ w1] exI [of _ p]) (simp add: fun_upd_idem)
  qed
qed

lemma select_inv:
  assumes inv: "mq_inv w pc x" and p: "mq_ports w a = Some p" "pmq_messages p \<noteq> []" and x: "x a = 0"
    and opt: "REQUESTED_TRAILER_SIZE opt \<noteq> None"
  shows "\<exists>mr k sq w'. ipc_mqueue_select a opt max_size w = Some (Received mr k sq, w') \<and> mq_inv w' pc x \<and>
    no_more_waiting w w' \<and> (no_lost_message w \<longrightarrow> no_lost_message w')"
proof -
  obtain k where k: "mq_kmsgs w (hd (pmq_messages p)) = Some k"
    using port_messages [OF inv p(1), of "hd (pmq_messages p)"] p(2) by auto
  obtain n where n: "REQUESTED_TRAILER_SIZE opt = Some n" using opt by blast
  define mr where "mr = (if max_size < msgh_size (ikm_header k) + n then MACH_RCV_TOO_LARGE else MACH_MSG_SUCCESS)"
  show ?thesis
  proof (cases "mr = MACH_RCV_TOO_LARGE \<and> option_set opt MACH_RCV_LARGE")
    case True
    then show ?thesis using inv p k n by (auto simp: ipc_mqueue_select_def mr_def)
  next
    case False
    define p1 where "p1 = p\<lparr>pmq_messages := tl (pmq_messages p)\<rparr>"
    define w1 where "w1 = w\<lparr>mq_ports := (mq_ports w)(a \<mapsto> p1)\<rparr>"
    have "int (length (pmq_messages p1)) = int (length (pmq_messages p)) - 1"
      using p(2) by (cases "pmq_messages p") (simp_all add: p1_def)
    moreover have "mq_inv w1 pc (x(a := x a + int (length (pmq_messages p)) - int (length (pmq_messages p1))))"
      unfolding w1_def
      by (rule port_quiet_inv [OF inv p(1)]) (use list.set_sel(2) [OF p(2)] in \<open>auto simp: p1_def\<close>)
    ultimately have inv1: "mq_inv w1 pc (x(a := x a + 1))" by simp
    have a1: "mq_ports w1 a = Some p1" by (simp add: w1_def)
    have pos: "0 < pmq_msgcount p1" by (rule count_pos [OF inv1 a1]) (simp add: x)
    obtain w2 where w2: "ipc_mqueue_release_msgcount a w1 = Some w2" "mq_inv w2 pc ((x(a := x a + 1))(a := (x(a := x a + 1)) a - 1))"
      "no_more_waiting w1 w2" "same_messages a p1 w1 w2"
      by (rule release_inv [OF inv1 a1 pos]) (rule that)
    then have inv2: "mq_inv w2 pc x" by (simp add: fun_upd_idem)
    obtain p2 where p2: "mq_ports w2 = (mq_ports w1)(a \<mapsto> p2)" "pmq_messages p2 = pmq_messages p1"
      using w2(4) by (auto simp: same_messages_def)
    define w3 where "w3 = w2\<lparr>mq_ports := (mq_ports w2)(a \<mapsto> p2\<lparr>pmq_seqno := pmq_seqno p2 + 1\<rparr>)\<rparr>"
    have a2: "mq_ports w2 a = Some p2" by (simp add: p2(1))
    have "mq_inv w3 pc (x(a := x a + int (length (pmq_messages p2)) - int (length (pmq_messages (p2\<lparr>pmq_seqno := pmq_seqno p2 + 1\<rparr>)))))"
      unfolding w3_def by (rule port_quiet_inv [OF inv2 a2]) simp_all
    then have inv3: "mq_inv w3 pc x" by (simp add: fun_upd_idem)
    have nm: "no_more_waiting w w3"
      using w2(3) no_more_waiting_ports [of w] no_more_waiting_ports [of w2] unfolding w1_def w3_def
      by (meson no_more_waiting_trans)
    have eq: "ipc_mqueue_select a opt max_size w = Some (Received mr (Some (hd (pmq_messages p))) (Some (pmq_seqno p2)), w3)"
      using False p k n w2(1) a2
      by (auto simp: ipc_mqueue_select_def upd_mqueue_def mr_def w1_def p1_def w3_def)
    have "\<exists>p0. mq_ports w b = Some p0 \<and> pmq_messages p0 \<noteq> []" if "mq_ports w3 b = Some p'" "pmq_messages p' \<noteq> []" for b p'
      using that p p2 by (auto simp: w3_def w1_def split: if_splits)
    then have "no_lost_message w \<longrightarrow> no_lost_message w3" using no_lost_mono [OF _ nm] by blast
    then show ?thesis using eq inv3 nm by blast
  qed
qed

section \<open>Blocking and resuming\<close>

text \<open>A thread that blocks, with or without a timer.\<close>

lemma block_spec:
  assumes ok: "sched_ok s" and t: "sc_threads s t = Some th" "th_wait_queue th = None" "\<not> th_wait_timer_is_set th"
    and q: "sc_waitqs s a = Some q" and ev: "event \<noteq> NO_EVENT"
  obtains s' th' where
    "\<And>w. mq_sched w = s \<Longrightarrow> on_sched (wait_queue_assert_wait_locked t a event i) w \<bind>
       (\<lambda>w. (if tm then on_sched (thread_set_timer t) w else Some w) \<bind> (\<lambda>w. Some (r, w))) = Some (r, w\<lparr>mq_sched := s'\<rparr>)"
    "sched_ok s'" "same_shape s s'" "sc_threads s' = (sc_threads s)(t \<mapsto> th')"
    "th_wait_queue th' = Some a" "th_wait_event th' = event" "th_wait_timer_is_set th' = tm" "ith_option th' = ith_option th"
proof -
  define th1 where "th1 = th\<lparr>th_wait_event := event, th_wait_queue := Some a, th_wait_result := THREAD_NO_RESULT,
    th_wait := True, th_unint := (th_unint th \<or> i = THREAD_UNINT), th_at_safe_point := (i = THREAD_ABORTSAFE)\<rparr>"
  obtain s1 where s1: "wait_queue_assert_wait_locked t a event i s = Some s1" "sched_ok s1" "same_shape s s1"
    "sc_threads s1 = (sc_threads s)(t \<mapsto> th1)"
    by (rule assert_wait_spec [OF ok t(1,2) q ev, of i]) (use that in \<open>simp add: th1_def\<close>)
  define s2 where "s2 = (if tm then map_threads (\<lambda>th. th\<lparr>th_wait_timer_is_set := True\<rparr>) {t} s1 else s1)"
  have "sched_ok s2" using timer_ok [OF s1(2)] s1(2) by (simp add: s2_def)
  moreover have "same_shape s s2" using same_shape_trans [OF s1(3) same_shape_map_threads] s1(3) by (simp add: s2_def)
  moreover have "sc_threads s2 = (sc_threads s)(t \<mapsto> th1\<lparr>th_wait_timer_is_set := tm\<rparr>)"
    using t(3) by (auto simp: s2_def map_threads_def s1(4) th1_def)
  moreover have "on_sched (wait_queue_assert_wait_locked t a event i) w \<bind>
       (\<lambda>w. (if tm then on_sched (thread_set_timer t) w else Some w) \<bind> (\<lambda>w. Some (r, w))) = Some (r, w\<lparr>mq_sched := s2\<rparr>)"
    if "mq_sched w = s" for w
    using that s1(1,4) t(3)
    by (simp add: on_sched_def s2_def thread_set_timer_def upd_thread_Some th1_def)
  ultimately show ?thesis using that [of s2 "th1\<lparr>th_wait_timer_is_set := tm\<rparr>"] by (simp add: th1_def)
qed

lemma idle_thread:
  assumes "mq_inv w pc x" "pc t = Idle" "sc_threads (mq_sched w) t = Some th"
  shows "th_wait_queue th = None" "\<not> th_wait th" "\<not> th_wait_timer_is_set th"
  using pcs_okD [OF mq_invD(4) [OF assms(1)] assms(3)] assms(2) by (simp_all add: pc_ok_def)

definition send_pc :: "ipc_mqueue_t \<Rightarrow> u32 \<Rightarrow> u32 \<Rightarrow> send_outcome \<Rightarrow> ipc_pc" where
  "send_pc a k opt r = (case r of Send_granted \<Rightarrow> Posting a k | Send_blocked \<Rightarrow> Send_wait a k opt | Send_failed mr \<Rightarrow> Idle)"

definition receive_pc :: "ipc_mqueue_t \<Rightarrow> u32 \<Rightarrow> receive_outcome \<Rightarrow> ipc_pc" where
  "receive_pc a opt r = (case r of Receive_blocked \<Rightarrow> Receive_wait a opt | Received mr k sq \<Rightarrow> Idle)"

lemma sched_triv [simp]: "w\<lparr>mq_sched := mq_sched w\<rparr> = w"
  by simp

text \<open>A change of the program counter alone.\<close>

lemma pc_step_inv:
  assumes inv: "mq_inv w pc x" and th: "sc_threads (mq_sched w) t = Some th" "th_wait_queue th = None"
    and n: "pc_ok w n th"
    and x: "\<And>a. x a + (if holds (pc t) th a then 1 else 0) = x' a + (if holds n th a then 1 else 0)"
  shows "mq_inv w (pc(t := n)) x'"
proof -
  have "mq_inv (w\<lparr>mq_sched := mq_sched w\<rparr>) (pc(t := n)) x'"
    by (rule thread_step_inv [OF inv th(1) mq_invD(1) [OF inv] same_shape_refl _ n _ x])
      (use th in \<open>auto simp: map_upd_triv\<close>)
  then show ?thesis by simp
qed

lemma send_inv:
  assumes inv: "mq_inv w pc x" and pc: "pc t = Idle" and t: "sc_threads (mq_sched w) t \<noteq> None"
    and p: "mq_ports w a = Some p" and k: "mq_kmsgs w kmsg \<noteq> None" and room: "unat (pmq_msgcount p) + 1 < 2 ^ 32"
  shows "\<exists>r w'. ipc_mqueue_send t a kmsg opt timeout w = Some (r, w') \<and> mq_inv w' (pc(t := send_pc a kmsg opt r)) x \<and>
    (no_lost_message w \<longrightarrow> no_lost_message w')"
proof -
  obtain th where th: "sc_threads (mq_sched w) t = Some th" using t by blast
  note idle = idle_thread [OF inv pc th]
  obtain km where km: "mq_kmsgs w kmsg = Some km" using k by blast
  define free where "free \<longleftrightarrow> \<not> imq_full p \<or> option_set opt MACH_SEND_ALWAYS \<or>
    MACH_MSGH_BITS_REMOTE (msgh_bits (ikm_header km)) = mach_msg_type_number (Some MACH_MSG_TYPE_PORT_SEND_ONCE)"
  consider (granted) free | (failed) "\<not> free" "option_set opt MACH_SEND_TIMEOUT \<and> timeout = 0"
    | (blocked) "\<not> free" "\<not> (option_set opt MACH_SEND_TIMEOUT \<and> timeout = 0)" by blast
  then show ?thesis
  proof cases
    case granted
    define p1 where "p1 = p\<lparr>pmq_msgcount := pmq_msgcount p + 1\<rparr>"
    define w1 where "w1 = w\<lparr>mq_ports := (mq_ports w)(a \<mapsto> p1)\<rparr>"
    have c: "unat (pmq_msgcount p + 1) = unat (pmq_msgcount p) + 1" by (rule unat_inc [OF room])
    have "mq_inv w1 pc (x(a := x a + 1))"
      unfolding w1_def
    proof (rule port_step_inv [OF inv p])
      assume "waiting_at (mq_sched w) a IPC_MQUEUE_FULL \<noteq> {}"
      then have "pmq_fullwaiters p" "imq_full p" using mq_invD(3) [OF inv] p by (auto simp: senders_ok_def)
      then show "pmq_fullwaiters p1 \<and> imq_full p1" using c by (simp add: p1_def imq_full_def word_le_nat_alt)
    qed (use port_messages [OF inv p] c in \<open>auto simp: p1_def\<close>)
    then have "mq_inv w1 (pc(t := Posting a kmsg)) x"
      by (rule pc_step_inv [where th = th])
        (use th idle km pc in \<open>auto simp: w1_def pc_ok_def holds_def\<close>)
    moreover have "ipc_mqueue_send t a kmsg opt timeout w = Some (Send_granted, w1)"
      using granted p km by (auto simp: ipc_mqueue_send_def upd_mqueue_def free_def w1_def p1_def)
    moreover have "no_lost_message w \<longrightarrow> no_lost_message w1"
      using p by (auto simp: no_lost_message_def w1_def p1_def)
    ultimately show ?thesis by (auto simp: send_pc_def)
  next
    case failed
    then have "ipc_mqueue_send t a kmsg opt timeout w = Some (Send_failed MACH_SEND_TIMED_OUT, w)"
      using p km by (simp add: ipc_mqueue_send_def free_def)
    then show ?thesis using inv pc by (auto simp: send_pc_def fun_upd_idem)
  next
    case blocked
    define p1 where "p1 = p\<lparr>pmq_fullwaiters := True\<rparr>"
    define w1 where "w1 = w\<lparr>mq_ports := (mq_ports w)(a \<mapsto> p1)\<rparr>"
    have full: "imq_full p" using blocked(1) by (simp add: free_def)
    have "mq_inv w1 pc (x(a := x a))"
      unfolding w1_def by (rule port_step_inv [OF inv p])
        (use port_messages [OF inv p] full in \<open>auto simp: p1_def imq_full_def\<close>)
    then have inv1: "mq_inv w1 pc x" by simp
    obtain q where q: "sc_waitqs (mq_sched w) a = Some q" using port_waitq [OF mq_invD(2) [OF inv] p] by blast
    obtain s' th' where s': "\<And>w'. mq_sched w' = mq_sched w \<Longrightarrow>
        on_sched (wait_queue_assert_wait_locked t a IPC_MQUEUE_FULL THREAD_ABORTSAFE) w' \<bind>
        (\<lambda>w. (if option_set opt MACH_SEND_TIMEOUT then on_sched (thread_set_timer t) w else Some w) \<bind>
           (\<lambda>w. Some (Send_blocked, w))) = Some (Send_blocked, w'\<lparr>mq_sched := s'\<rparr>)"
      "sched_ok s'" "same_shape (mq_sched w) s'" "sc_threads s' = (sc_threads (mq_sched w))(t \<mapsto> th')"
      "th_wait_queue th' = Some a" "th_wait_event th' = IPC_MQUEUE_FULL"
      "th_wait_timer_is_set th' = option_set opt MACH_SEND_TIMEOUT"
      by (rule block_spec [OF mq_invD(1) [OF inv] th idle(1,3) q, of IPC_MQUEUE_FULL THREAD_ABORTSAFE
            "option_set opt MACH_SEND_TIMEOUT" Send_blocked]) (simp, rule that, assumption+)
    have "mq_inv (w1\<lparr>mq_sched := s'\<rparr>) (pc(t := Send_wait a kmsg opt)) x"
      by (rule thread_step_inv [OF inv1 _ s'(2), where th = th and th' = th'])
        (use th pc s' km full in \<open>auto simp: w1_def p1_def pc_ok_def holds_def imq_full_def\<close>)
    moreover have "ipc_mqueue_send t a kmsg opt timeout w = Some (Send_blocked, w1\<lparr>mq_sched := s'\<rparr>)"
      using blocked p km s'(1) [of w1] by (auto simp: ipc_mqueue_send_def upd_mqueue_def free_def w1_def p1_def)
    moreover have "no_lost_message w \<longrightarrow> no_lost_message (w1\<lparr>mq_sched := s'\<rparr>)"
    proof
      assume "no_lost_message w"
      then have "no_lost_message w1" using p by (auto simp: no_lost_message_def w1_def p1_def)
      then show "no_lost_message (w1\<lparr>mq_sched := s'\<rparr>)"
        by (rule thread_step_no_lost [where t = t and th' = th']) (use s' in \<open>simp_all add: w1_def\<close>)
    qed
    ultimately show ?thesis by (auto simp: send_pc_def)
  qed
qed

text \<open>Resuming: the timer is cancelled if there was one.\<close>

lemma cancel_timer_spec:
  assumes "sched_ok (mq_sched w)" "sc_threads (mq_sched w) t = Some th"
  obtains s' where "(if b then on_sched (thread_cancel_timer t) w else Some w) = Some (w\<lparr>mq_sched := s'\<rparr>)"
    "sched_ok s'" "same_shape (mq_sched w) s'"
    "sc_threads s' = (sc_threads (mq_sched w))(t \<mapsto> th\<lparr>th_wait_timer_is_set := th_wait_timer_is_set th \<and> \<not> b\<rparr>)"
proof (cases b)
  case True
  show ?thesis
  proof (rule that [of "map_threads (\<lambda>th. th\<lparr>th_wait_timer_is_set := False\<rparr>) {t} (mq_sched w)"])
    show "sched_ok (map_threads (\<lambda>th. th\<lparr>th_wait_timer_is_set := False\<rparr>) {t} (mq_sched w))"
      by (rule timer_ok [OF assms(1)])
    show "same_shape (mq_sched w) (map_threads (\<lambda>th. th\<lparr>th_wait_timer_is_set := False\<rparr>) {t} (mq_sched w))"
      by simp
  qed (use assms(2) True in \<open>auto simp: on_sched_def thread_cancel_timer_def upd_thread_Some map_threads_def\<close>)
next
  case False
  show ?thesis
    by (rule that [of "mq_sched w"]) (use assms False in \<open>auto simp: map_upd_triv\<close>)
qed

lemma not_waiting:
  assumes "mq_inv w pc x" "sc_threads (mq_sched w) t = Some th" "\<not> th_wait th"
  shows "th_wait_queue th = None"
proof -
  have "thread_ok th" using mq_invD(1) [OF assms(1)] assms(2) by (auto simp: sched_ok_def elements_ok_def)
  then show ?thesis using assms(3) by (auto simp: thread_ok_def split: if_splits)
qed

lemma resume_inv:
  assumes inv: "mq_inv w pc x" and th: "sc_threads (mq_sched w) t = Some th" "th_wait_queue th = None"
    and s': "sched_ok s'" "same_shape (mq_sched w) s'" "sc_threads s' = (sc_threads (mq_sched w))(t \<mapsto> th')"
    and th': "th_wait_queue th' = None" and n: "pc_ok w n th'" and h: "\<And>a. holds n th' a = holds (pc t) th a"
  shows "mq_inv (w\<lparr>mq_sched := s'\<rparr>) (pc(t := n)) x \<and> (no_lost_message w \<longrightarrow> no_lost_message (w\<lparr>mq_sched := s'\<rparr>))"
proof -
  have "mq_inv (w\<lparr>mq_sched := s'\<rparr>) (pc(t := n)) x"
    by (rule thread_step_inv [OF inv th(1) s' n]) (use th' h in auto)
  moreover have "no_lost_message w \<Longrightarrow> no_lost_message (w\<lparr>mq_sched := s'\<rparr>)"
    by (rule thread_step_no_lost [OF _ s'(2,3)]) (use th' in auto)
  ultimately show ?thesis by blast
qed

lemma send_woken_inv:
  assumes inv: "mq_inv w pc x" and pc: "pc t = Send_wait a k opt"
    and th: "sc_threads (mq_sched w) t = Some th" "\<not> th_wait th"
  shows "\<exists>r w'. ipc_mqueue_send_woken t opt w = Some (r, w') \<and> mq_inv w' (pc(t := send_pc a k opt r)) x \<and>
    (no_lost_message w \<longrightarrow> no_lost_message w')"
proof -
  have nq: "th_wait_queue th = None" by (rule not_waiting [OF inv th])
  have ok: "pc_ok w (Send_wait a k opt) th" using pcs_okD [OF mq_invD(4) [OF inv] th(1)] pc by simp
  define th' where "th' = th\<lparr>th_wait_timer_is_set := th_wait_timer_is_set th \<and> \<not> option_set opt MACH_SEND_TIMEOUT\<rparr>"
  obtain s' where s': "(if option_set opt MACH_SEND_TIMEOUT then on_sched (thread_cancel_timer t) w else Some w) =
      Some (w\<lparr>mq_sched := s'\<rparr>)" "sched_ok s'" "same_shape (mq_sched w) s'"
      "sc_threads s' = (sc_threads (mq_sched w))(t \<mapsto> th')"
    by (rule cancel_timer_spec [OF mq_invD(1) [OF inv] th(1), of "option_set opt MACH_SEND_TIMEOUT"])
      (rule that [unfolded th'_def])
  define r where "r = (case th_wait_result th of THREAD_AWAKENED \<Rightarrow> Send_granted
    | THREAD_TIMED_OUT \<Rightarrow> Send_failed MACH_SEND_TIMED_OUT | _ \<Rightarrow> Send_failed MACH_SEND_INTERRUPTED)"
  have "ipc_mqueue_send_woken t opt w = Some (r, w\<lparr>mq_sched := s'\<rparr>)"
    using th(1) s'(1) ok nq by (auto simp: ipc_mqueue_send_woken_def pc_ok_def r_def)
  moreover have "mq_inv (w\<lparr>mq_sched := s'\<rparr>) (pc(t := send_pc a k opt r)) x \<and>
      (no_lost_message w \<longrightarrow> no_lost_message (w\<lparr>mq_sched := s'\<rparr>))"
    by (rule resume_inv [OF inv th(1) nq s'(2-4)])
      (use ok nq pc th(2) in \<open>auto simp: th'_def pc_ok_def holds_def send_pc_def r_def split: if_splits\<close>)
  ultimately show ?thesis by blast
qed

lemma receive_woken_inv:
  assumes inv: "mq_inv w pc x" and pc: "pc t = Receive_wait a opt"
    and th: "sc_threads (mq_sched w) t = Some th" "\<not> th_wait th"
  shows "\<exists>mr k sq w'. ipc_mqueue_receive_woken t opt w = Some (Received mr k sq, w') \<and> mq_inv w' (pc(t := Idle)) x \<and>
    (no_lost_message w \<longrightarrow> no_lost_message w')"
proof -
  have nq: "th_wait_queue th = None" by (rule not_waiting [OF inv th])
  have ok: "pc_ok w (Receive_wait a opt) th" using pcs_okD [OF mq_invD(4) [OF inv] th(1)] pc by simp
  define th' where "th' = th\<lparr>th_wait_timer_is_set := th_wait_timer_is_set th \<and> \<not> option_set opt MACH_RCV_TIMEOUT\<rparr>"
  obtain s' where s': "(if option_set opt MACH_RCV_TIMEOUT then on_sched (thread_cancel_timer t) w else Some w) =
      Some (w\<lparr>mq_sched := s'\<rparr>)" "sched_ok s'" "same_shape (mq_sched w) s'"
      "sc_threads s' = (sc_threads (mq_sched w))(t \<mapsto> th')"
    by (rule cancel_timer_spec [OF mq_invD(1) [OF inv] th(1), of "option_set opt MACH_RCV_TIMEOUT"])
      (rule that [unfolded th'_def])
  have "\<exists>mr k sq. ipc_mqueue_receive_woken t opt w = Some (Received mr k sq, w\<lparr>mq_sched := s'\<rparr>)"
    using th(1) s'(1) ok nq
    by (cases "th_wait_result th") (auto simp: ipc_mqueue_receive_woken_def pc_ok_def)
  moreover have "mq_inv (w\<lparr>mq_sched := s'\<rparr>) (pc(t := Idle)) x \<and>
      (no_lost_message w \<longrightarrow> no_lost_message (w\<lparr>mq_sched := s'\<rparr>))"
    by (rule resume_inv [OF inv th(1) nq s'(2-4)])
      (use ok nq pc th(2) in \<open>auto simp: th'_def pc_ok_def holds_def split: if_splits\<close>)
  ultimately show ?thesis by blast
qed

section \<open>Interrupted waits\<close>

lemma clear_wait_inv:
  assumes inv: "mq_inv w pc x" and th: "sc_threads (mq_sched w) t = Some th"
    and res: "res = THREAD_INTERRUPTED \<or> res = THREAD_TIMED_OUT"
    and timed: "res = THREAD_TIMED_OUT \<Longrightarrow> \<forall>a k opt. pc t = Send_wait a k opt \<longrightarrow> option_set opt MACH_SEND_TIMEOUT"
  shows "\<exists>w'. on_sched (clear_wait_internal t res) w = Some w' \<and> mq_inv w' pc x \<and>
    (no_lost_message w \<longrightarrow> no_lost_message w')"
proof -
  have ok: "pc_ok w (pc t) th" by (rule pcs_okD [OF mq_invD(4) [OF inv] th])
  show ?thesis
  proof (cases "th_wait_queue th")
    case None
    then have "\<not> th_wait th" using ok by (auto simp: pc_ok_def split: ipc_pc.splits)
    then show ?thesis using None clear_wait_internal_spec [OF mq_invD(1) [OF inv] th, of res] inv
      by (simp add: on_sched_def)
  next
    case (Some b)
    define w' where "w' = w\<lparr>mq_sched := take_off (wake res) {t} (mq_sched w)\<rparr>"
    have "on_sched (clear_wait_internal t res) w = Some w'"
      using Some clear_wait_internal_spec [OF mq_invD(1) [OF inv] th, of res] by (simp add: on_sched_def w'_def)
    moreover have "mq_inv w' pc x"
      unfolding w'_def
      by (rule take_off_inv [OF inv])
        (use Some th ok res timed in \<open>auto simp: pc_ok_def holds_def go_def off_def thread_ok_def split: ipc_pc.splits\<close>)
    moreover have "no_lost_message w \<longrightarrow> no_lost_message w'"
      unfolding w'_def by (auto intro: take_off_no_lost)
    ultimately show ?thesis by blast
  qed
qed

lemma interrupt_inv:
  assumes "mq_inv w pc x" "sc_threads (mq_sched w) t \<noteq> None"
  shows "\<exists>w'. on_sched (clear_wait t THREAD_INTERRUPTED intr) w = Some w' \<and> mq_inv w' pc x \<and>
    (no_lost_message w \<longrightarrow> no_lost_message w')"
proof -
  obtain th where th: "sc_threads (mq_sched w) t = Some th" using assms(2) by blast
  show ?thesis using clear_wait_inv [OF assms(1) th, of THREAD_INTERRUPTED] th assms(1)
    by (auto simp: clear_wait_def on_sched_def)
qed

lemma expire_inv:
  assumes inv: "mq_inv w pc x" and t: "sc_threads (mq_sched w) t \<noteq> None"
  shows "\<exists>w'. on_sched (thread_timer_expire t delayed) w = Some w' \<and> mq_inv w' pc x \<and>
    (no_lost_message w \<longrightarrow> no_lost_message w')"
proof -
  obtain th where th: "sc_threads (mq_sched w) t = Some th" using t by blast
  show ?thesis
  proof (cases "th_wait_timer_is_set th \<and> \<not> delayed")
    case False
    then show ?thesis using th inv by (auto simp: on_sched_def thread_timer_expire_def)
  next
    case True
    have ok: "pc_ok w (pc t) th" by (rule pcs_okD [OF mq_invD(4) [OF inv] th])
    define th1 where "th1 = th\<lparr>th_wait_timer_is_set := False\<rparr>"
    define s1 where "s1 = map_threads (\<lambda>th. th\<lparr>th_wait_timer_is_set := False\<rparr>) {t} (mq_sched w)"
    have "sc_threads s1 = (sc_threads (mq_sched w))(t \<mapsto> th1)"
      using th by (auto simp: s1_def th1_def map_threads_def)
    then have s1: "sched_ok s1" "same_shape (mq_sched w) s1" "sc_threads s1 = (sc_threads (mq_sched w))(t \<mapsto> th1)"
      using timer_ok [OF mq_invD(1) [OF inv]] by (simp_all add: s1_def)
    have full: "\<exists>p. mq_ports w b = Some p \<and> pmq_fullwaiters p \<and> imq_full p"
      if "th_wait_event th1 = IPC_MQUEUE_FULL" "th_wait_queue th1 = Some b" for b
    proof -
      have "\<exists>k opt. pc t = Send_wait b k opt" "mq_ports w b \<noteq> None"
        using that ok by (auto simp: pc_ok_def th1_def split: ipc_pc.splits)
      moreover have "t \<in> waiting_at (mq_sched w) b IPC_MQUEUE_FULL"
        using that th by (auto simp: waiting_at_def queue_of_def event_of_def reaches_def th1_def)
      ultimately show ?thesis using mq_invD(3) [OF inv] by (auto simp: senders_ok_def)
    qed
    have lost: "no_lost_message w \<Longrightarrow> no_lost_message (w\<lparr>mq_sched := s1\<rparr>)"
    proof (rule thread_step_no_lost [OF _ s1(2,3)])
      fix a b p assume lost: "no_lost_message w" and "th_wait_event th1 = IPC_MQUEUE_RECEIVE" "th_wait_queue th1 = Some b"
        "reaches (mq_sched w) a b" and p: "mq_ports w a = Some p"
      then have "t \<in> waiting_at (mq_sched w) a IPC_MQUEUE_RECEIVE"
        using th by (auto simp: waiting_at_def queue_of_def event_of_def th1_def)
      then show "pmq_messages p = []" using lost p by (auto simp: no_lost_message_def)
    qed
    have inv1: "mq_inv (w\<lparr>mq_sched := s1\<rparr>) (pc(t := pc t)) x"
      by (rule thread_step_inv [OF inv th s1])
        (use ok full in \<open>auto simp: pc_ok_def holds_def th1_def split: ipc_pc.splits\<close>)
    have upd: "upd_thread t (\<lambda>th. th\<lparr>th_wait_timer_is_set := False\<rparr>) (mq_sched w) = Some s1"
      using th by (simp add: upd_thread_Some s1_def)
    have timed: "\<forall>a k opt. pc t = Send_wait a k opt \<longrightarrow> option_set opt MACH_SEND_TIMEOUT"
      using ok True by (auto simp: pc_ok_def)
    show ?thesis
    proof (cases "th_active th")
      case False
      then show ?thesis using True th upd inv1 lost by (auto simp: on_sched_def thread_timer_expire_def)
    next
      case active: True
      have "on_sched (thread_timer_expire t delayed) w = on_sched (clear_wait_internal t THREAD_TIMED_OUT) (w\<lparr>mq_sched := s1\<rparr>)"
        using True th upd active by (simp add: on_sched_def thread_timer_expire_def)
      moreover have "\<exists>w'. on_sched (clear_wait_internal t THREAD_TIMED_OUT) (w\<lparr>mq_sched := s1\<rparr>) = Some w' \<and> mq_inv w' pc x \<and>
          (no_lost_message (w\<lparr>mq_sched := s1\<rparr>) \<longrightarrow> no_lost_message w')"
        by (rule clear_wait_inv [where th = th1]) (use inv1 s1(3) timed in auto)
      ultimately show ?thesis using lost by auto
    qed
  qed
qed

lemma changed_inv:
  assumes inv: "mq_inv w pc x" and q: "sc_waitqs (mq_sched w) a = Some q"
  shows "\<exists>w'. ipc_mqueue_changed a w = Some w' \<and> mq_inv w' pc x \<and> (no_lost_message w \<longrightarrow> no_lost_message w') \<and>
    waiting_at (mq_sched w') a IPC_MQUEUE_RECEIVE = {}"
proof -
  let ?T = "waiting_at (mq_sched w) a IPC_MQUEUE_RECEIVE"
  define w' where "w' = w\<lparr>mq_sched := take_off (wake THREAD_RESTART) ?T (mq_sched w)\<rparr>"
  have "ipc_mqueue_changed a w = Some w'"
    using wakeup_all_spec [OF mq_invD(1) [OF inv] q] by (simp add: ipc_mqueue_changed_def from_sched_def w'_def)
  moreover have "mq_inv w' pc x"
    unfolding w'_def
  proof (rule take_off_inv [OF inv])
    fix t th assume t: "t \<in> ?T" "sc_threads (mq_sched w) t = Some th"
    have ok: "pc_ok w (pc t) th" by (rule pcs_okD [OF mq_invD(4) [OF inv] t(2)])
    obtain b opt where "pc t = Receive_wait b opt" using waiting_receiver [OF inv t(1)] by metis
    then show "pc_ok w (pc t) (wake THREAD_RESTART th)" "holds (pc t) (wake THREAD_RESTART th) b = holds (pc t) th b" for b
      using ok by (auto simp: pc_ok_def holds_def go_def off_def)
  qed simp_all
  moreover have "no_lost_message w \<longrightarrow> no_lost_message w'"
    unfolding w'_def by (auto intro: take_off_no_lost)
  moreover have "waiting_at (mq_sched w') a IPC_MQUEUE_RECEIVE = {}"
    by (simp add: w'_def waiting_at_take_off)
  ultimately show ?thesis by blast
qed

section \<open>Receiving\<close>

text \<open>Changes of the queues that leave the threads alone.\<close>

lemma quiet_sched_inv:
  assumes inv: "mq_inv w pc x" and s': "sched_ok s'" "sc_threads s' = sc_threads (mq_sched w)" "ports_ok (w\<lparr>mq_sched := s'\<rparr>)"
    and full: "\<And>a p. mq_ports w a = Some p \<Longrightarrow>
      waiting_at s' a IPC_MQUEUE_FULL \<subseteq> waiting_at (mq_sched w) a IPC_MQUEUE_FULL"
  shows "mq_inv (w\<lparr>mq_sched := s'\<rparr>) pc x"
proof -
  have "senders_ok (w\<lparr>mq_sched := s'\<rparr>)" using mq_invD(3) [OF inv] full by (fastforce simp: senders_ok_def)
  moreover have "reserved (w\<lparr>mq_sched := s'\<rparr>) pc = reserved w pc" by (simp add: reserved_def s'(2) fun_eq_iff)
  then have "counts_ok (w\<lparr>mq_sched := s'\<rparr>) pc x" using mq_invD(5) [OF inv] by (simp add: counts_ok_def)
  moreover have "pcs_ok (w\<lparr>mq_sched := s'\<rparr>) pc" using mq_invD(4) [OF inv] by (simp add: pcs_ok_def s'(2))
  ultimately show ?thesis using s' by (simp add: mq_inv_def)
qed

lemma ports_ok_sched:
  assumes "ports_ok w"
    and "\<And>a q. sc_waitqs (mq_sched w) a = Some q \<Longrightarrow> \<exists>q'. sc_waitqs s' a = Some q' \<and> wq_issub q' = wq_issub q"
    and "\<And>l wql. sc_links s' l = Some wql \<Longrightarrow> mq_ports w (wql_queue wql) \<noteq> None"
  shows "ports_ok (w\<lparr>mq_sched := s'\<rparr>)"
  unfolding ports_ok_def
proof (intro conjI allI impI)
  fix a p assume "mq_ports (w\<lparr>mq_sched := s'\<rparr>) a = Some p"
  then have p: "mq_ports w a = Some p" by simp
  obtain q where "sc_waitqs (mq_sched w) a = Some q" "\<not> wq_issub q" using port_waitq [OF assms(1) p] by blast
  then show "\<exists>q. sc_waitqs (mq_sched (w\<lparr>mq_sched := s'\<rparr>)) a = Some q \<and> \<not> wq_issub q" using assms(2) by fastforce
  show "\<forall>k\<in>set (pmq_messages p). mq_kmsgs (w\<lparr>mq_sched := s'\<rparr>) k \<noteq> None" using assms(1) p by (simp add: ports_ok_def)
next
  fix l wql assume "sc_links (mq_sched (w\<lparr>mq_sched := s'\<rparr>)) l = Some wql"
  then show "mq_ports (w\<lparr>mq_sched := s'\<rparr>) (wql_queue wql) \<noteq> None" using assms(3) by simp
qed

lemma rotate_ok:
  assumes ok: "sched_ok s" and q: "sc_waitqs s a = Some q" and l: "l \<in> set (wqs_sublinks q)"
  shows "sched_ok (s\<lparr>sc_waitqs := (sc_waitqs s)(a \<mapsto> q\<lparr>wqs_sublinks := remove1 l (wqs_sublinks q) @ [l]\<rparr>)\<rparr>)"
    (is "sched_ok ?s")
proof -
  have el: "elements_ok s" and li: "links_ok s" using ok by (simp_all add: sched_ok_def)
  have d: "distinct (wqs_sublinks r)" if "sc_waitqs s b = Some r" for b r using li that unfolding links_ok_def by blast
  have r: "set (remove1 l (wqs_sublinks q) @ [l]) = set (wqs_sublinks q)" "distinct (remove1 l (wqs_sublinks q) @ [l])"
    using l d [OF q] by auto
  have "elements_ok ?s"
    by (rule elements_ok_links [OF el]) (use q el in \<open>auto simp: elements_ok_def split: if_splits\<close>)
  moreover have "links_ok ?s"
    unfolding links_ok_def
  proof (intro conjI allI impI)
    fix b q' assume q': "sc_waitqs ?s b = Some q'"
    then obtain q0 where q0: "sc_waitqs s b = Some q0" "wq_queue q' = wq_queue q0"
      "set (wqs_sublinks q') = set (wqs_sublinks q0)" "distinct (wqs_sublinks q')"
      using q r d [of b] by (cases "b = a") auto
    note old = li [unfolded links_ok_def, THEN conjunct1, rule_format, OF q0(1)]
    show "distinct (wqs_sublinks q')" by (rule q0(4))
    show "Link_element k \<in> set (wq_queue q') \<longleftrightarrow> (\<exists>wql. sc_links ?s k = Some wql \<and> wql_queue wql = b)" for k
      using old [of k] q0(2) by simp
    show "k \<in> set (wqs_sublinks q') \<longleftrightarrow> (\<exists>wql. sc_links ?s k = Some wql \<and> wql_subqueue wql = b)" for k
      using old [of k] q0(3) by simp
  next
    fix k wql assume "sc_links ?s k = Some wql"
    then have "sc_links s k = Some wql" by simp
    then have "(\<exists>q. sc_waitqs s (wql_queue wql) = Some q \<and> \<not> wq_issub q) \<and> (\<exists>q. sc_waitqs s (wql_subqueue wql) = Some q \<and> wq_issub q)"
      using li unfolding links_ok_def by blast
    then show "\<exists>q. sc_waitqs ?s (wql_queue wql) = Some q \<and> \<not> wq_issub q"
      "\<exists>q. sc_waitqs ?s (wql_subqueue wql) = Some q \<and> wq_issub q"
      using q by auto
  next
    show "inj_on (sc_links ?s) (dom (sc_links ?s))" using li by (simp add: links_ok_def)
  qed
  ultimately show ?thesis by (simp add: sched_ok_def)
qed

lemma search_set_cases:
  assumes inv: "mq_inv w pc x" and q: "sc_waitqs (mq_sched w) a = Some q" and ls: "set ls \<subseteq> set (wqs_sublinks q)"
  shows "(search_set ls w = Some None \<and> (\<forall>l wql p. l \<in> set ls \<longrightarrow> sc_links (mq_sched w) l = Some wql \<longrightarrow>
       mq_ports w (wql_queue wql) = Some p \<longrightarrow> pmq_messages p = [])) \<or>
    (\<exists>l b p. search_set ls w = Some (Some (l, b)) \<and> l \<in> set ls \<and> mq_ports w b = Some p \<and> pmq_messages p \<noteq> [])"
  using ls
proof (induction ls)
  case (Cons l ls)
  have "l \<in> set (wqs_sublinks q)" using Cons.prems by simp
  then obtain wql where wql: "sc_links (mq_sched w) l = Some wql" "wql_subqueue wql = a"
    using mq_invD(1) [OF inv] q unfolding sched_ok_def links_ok_def by blast
  then obtain p where p: "mq_ports w (wql_queue wql) = Some p"
    using mq_invD(2) [OF inv] unfolding ports_ok_def by blast
  show ?case using Cons wql p by (cases "pmq_messages p = []") auto
qed simp

lemma receive_block_inv:
  assumes inv: "mq_inv w pc x" and pc: "pc t = Idle" and t: "sc_threads (mq_sched w) t \<noteq> None"
    and q: "sc_waitqs (mq_sched w) a = Some q" and opt: "REQUESTED_TRAILER_SIZE opt \<noteq> None"
    and empty: "\<And>b p. \<lbrakk>reaches (mq_sched w) b a; mq_ports w b = Some p\<rbrakk> \<Longrightarrow> pmq_messages p = []"
  shows "\<exists>r w'. receive_block t a opt max_size timeout intr w = Some (r, w') \<and> mq_inv w' (pc(t := receive_pc a opt r)) x \<and>
    (no_lost_message w \<longrightarrow> no_lost_message w')"
proof -
  obtain th where th: "sc_threads (mq_sched w) t = Some th" using t by blast
  note idle = idle_thread [OF inv pc th]
  show ?thesis
  proof (cases "option_set opt MACH_RCV_TIMEOUT \<and> timeout = 0")
    case True
    then show ?thesis using inv pc by (auto simp: receive_block_def receive_pc_def fun_upd_idem)
  next
    case False
    define f where "f = (\<lambda>th :: thread. th\<lparr>ith_state := MACH_RCV_IN_PROGRESS, ith_option := opt, ith_msize := max_size\<rparr>)"
    define s1 where "s1 = map_threads f {t} (mq_sched w)"
    have ok1: "sched_ok s1"
      unfolding s1_def
      by (rule map_threads_ok) (use mq_invD(1) [OF inv] in \<open>auto simp: f_def sched_ok_def elements_ok_def thread_ok_def\<close>)
    have t1: "sc_threads s1 t = Some (f th)" "sc_waitqs s1 a = Some q"
      "th_wait_queue (f th) = None" "\<not> th_wait_timer_is_set (f th)"
      using th q idle by (auto simp: s1_def map_threads_def f_def)
    have upd: "on_sched (upd_thread t f) w = Some (w\<lparr>mq_sched := s1\<rparr>)"
      using th by (simp add: on_sched_def upd_thread_Some s1_def)
    obtain s' th' where s': "\<And>w'. mq_sched w' = s1 \<Longrightarrow>
        on_sched (wait_queue_assert_wait_locked t a IPC_MQUEUE_RECEIVE intr) w' \<bind>
        (\<lambda>w. (if option_set opt MACH_RCV_TIMEOUT then on_sched (thread_set_timer t) w else Some w) \<bind>
           (\<lambda>w. Some (Receive_blocked, w))) = Some (Receive_blocked, w'\<lparr>mq_sched := s'\<rparr>)"
      "sched_ok s'" "same_shape s1 s'" "sc_threads s' = (sc_threads s1)(t \<mapsto> th')"
      "th_wait_queue th' = Some a" "th_wait_event th' = IPC_MQUEUE_RECEIVE"
      "th_wait_timer_is_set th' = option_set opt MACH_RCV_TIMEOUT" "ith_option th' = ith_option (f th)"
      by (rule block_spec [OF ok1 t1(1,3,4,2), of IPC_MQUEUE_RECEIVE intr
            "option_set opt MACH_RCV_TIMEOUT" Receive_blocked]) (simp, rule that, assumption+)
    have shape: "same_shape (mq_sched w) s'"
      using same_shape_trans [OF same_shape_map_threads s'(3) [unfolded s1_def]] .
    have threads: "sc_threads s' = (sc_threads (mq_sched w))(t \<mapsto> th')"
      by (auto simp: s'(4) s1_def map_threads_def)
    have eq: "receive_block t a opt max_size timeout intr w = Some (Receive_blocked, w\<lparr>mq_sched := s'\<rparr>)"
      using False upd s'(1) [of "w\<lparr>mq_sched := s1\<rparr>"] unfolding receive_block_def f_def by auto
    have "mq_inv (w\<lparr>mq_sched := s'\<rparr>) (pc(t := Receive_wait a opt)) x"
      by (rule thread_step_inv [OF inv th s'(2) shape threads])
        (use pc s' opt in \<open>auto simp: pc_ok_def holds_def f_def\<close>)
    moreover have "no_lost_message w \<Longrightarrow> no_lost_message (w\<lparr>mq_sched := s'\<rparr>)"
      by (rule thread_step_no_lost [OF _ shape threads]) (use s'(5,6) empty in auto)
    ultimately show ?thesis using eq by (auto simp: receive_pc_def)
  qed
qed

lemma receive_inv:
  assumes inv: "mq_inv w pc (\<lambda>_. 0)" and pc: "pc t = Idle" and t: "sc_threads (mq_sched w) t \<noteq> None"
    and q: "sc_waitqs (mq_sched w) a = Some q" "wq_issub q \<or> mq_ports w a \<noteq> None"
    and opt: "REQUESTED_TRAILER_SIZE opt \<noteq> None"
  shows "\<exists>r w'. ipc_mqueue_receive t a opt max_size timeout intr w = Some (r, w') \<and>
    mq_inv w' (pc(t := receive_pc a opt r)) (\<lambda>_. 0) \<and> (no_lost_message w \<longrightarrow> no_lost_message w')"
proof -
  note I = mq_invD [OF inv]
  show ?thesis
  proof (cases "wq_issub q")
    case False
    then obtain p where p: "mq_ports w a = Some p" using q(2) by blast
    show ?thesis
    proof (cases "pmq_messages p = []")
      case True
      have empty: "pmq_messages p' = []" if "reaches (mq_sched w) b a" "mq_ports w b = Some p'" for b p'
        using port_reached [OF I(1,2) p that(1)] that(2) p True by simp
      have "\<exists>r w'. receive_block t a opt max_size timeout intr w = Some (r, w') \<and> mq_inv w' (pc(t := receive_pc a opt r)) (\<lambda>_. 0) \<and>
          (no_lost_message w \<longrightarrow> no_lost_message w')"
        by (rule receive_block_inv [OF inv pc t q(1) opt])
          (rule empty)
      then show ?thesis using q(1) False p True
        by (simp add: ipc_mqueue_receive_def imq_is_set_def wait_queue_is_sub_def)
    next
      case ne: False
      from select_inv [OF inv p ne _ opt, of max_size]
      show ?thesis using q(1) False p ne pc
        by (auto simp: ipc_mqueue_receive_def imq_is_set_def wait_queue_is_sub_def receive_pc_def fun_upd_idem)
    qed
  next
    case sub: True
    consider (no) "search_set (wqs_sublinks q) w = Some None"
        "\<forall>l wql p. l \<in> set (wqs_sublinks q) \<longrightarrow> sc_links (mq_sched w) l = Some wql \<longrightarrow>
          mq_ports w (wql_queue wql) = Some p \<longrightarrow> pmq_messages p = []"
      | (yes) l b p where "search_set (wqs_sublinks q) w = Some (Some (l, b))" "l \<in> set (wqs_sublinks q)"
          "mq_ports w b = Some p" "pmq_messages p \<noteq> []"
      using search_set_cases [OF inv q(1) subset_refl] by blast
    then show ?thesis
    proof cases
      case no
      have empty: "pmq_messages p = []" if bp: "reaches (mq_sched w) b a" "mq_ports w b = Some p" for b p
      proof -
        obtain r where "sc_waitqs (mq_sched w) b = Some r" "\<not> wq_issub r" using port_waitq [OF I(2) bp(2)] by blast
        then have "b \<noteq> a" using sub q(1) by auto
        then obtain l wql where l: "sc_links (mq_sched w) l = Some wql" "wql_queue wql = b" "wql_subqueue wql = a"
          using bp(1) by (auto simp: reaches_def)
        then have "l \<in> set (wqs_sublinks q)" using I(1) q(1) unfolding sched_ok_def links_ok_def by blast
        then show ?thesis using no(2) l bp(2) by auto
      qed
      have "\<exists>r w'. receive_block t a opt max_size timeout intr w = Some (r, w') \<and> mq_inv w' (pc(t := receive_pc a opt r)) (\<lambda>_. 0) \<and>
          (no_lost_message w \<longrightarrow> no_lost_message w')"
        by (rule receive_block_inv [OF inv pc t q(1) opt]) (use empty in auto)
      then show ?thesis using q(1) sub no(1)
        by (simp add: ipc_mqueue_receive_def imq_is_set_def wait_queue_is_sub_def)
    next
      case yes
      define s1 where "s1 = (mq_sched w)\<lparr>sc_waitqs := (sc_waitqs (mq_sched w))
        (a \<mapsto> q\<lparr>wqs_sublinks := remove1 l (wqs_sublinks q) @ [l]\<rparr>)\<rparr>"
      have W: "waiting_at s1 b e = waiting_at (mq_sched w) b e" for b e
        by (simp add: waiting_at_def s1_def queue_of_def event_of_def reaches_def)
      have "ports_ok (w\<lparr>mq_sched := s1\<rparr>)"
        by (rule ports_ok_sched [OF I(2)]) (use q(1) I(2) in \<open>auto simp: s1_def ports_ok_def\<close>)
      then have inv1: "mq_inv (w\<lparr>mq_sched := s1\<rparr>) pc (\<lambda>_. 0)"
        by (intro quiet_sched_inv [OF inv]) (use rotate_ok [OF I(1) q(1) yes(2)] W in \<open>simp_all add: s1_def\<close>)
      have upd: "on_sched (upd_waitq a (\<lambda>q. q\<lparr>wqs_sublinks := remove1 l (wqs_sublinks q) @ [l]\<rparr>)) w = Some (w\<lparr>mq_sched := s1\<rparr>)"
        using q(1) by (simp add: on_sched_def upd_waitq_def s1_def)
      have "mq_ports (w\<lparr>mq_sched := s1\<rparr>) b = Some p" using yes(3) by simp
      from select_inv [OF inv1 this yes(4) _ opt, of max_size]
      obtain mr k sq w' where w': "ipc_mqueue_select b opt max_size (w\<lparr>mq_sched := s1\<rparr>) = Some (Received mr k sq, w')"
        "mq_inv w' pc (\<lambda>_. 0)" "no_lost_message (w\<lparr>mq_sched := s1\<rparr>) \<longrightarrow> no_lost_message w'" by auto
      have "no_lost_message (w\<lparr>mq_sched := s1\<rparr>) = no_lost_message w" by (simp add: no_lost_message_def W)
      moreover have "ipc_mqueue_receive t a opt max_size timeout intr w = Some (Received mr k sq, w')"
        using q(1) sub yes(1) upd w'(1) by (simp add: ipc_mqueue_receive_def imq_is_set_def wait_queue_is_sub_def)
      ultimately show ?thesis using w'(2,3) pc by (auto simp: receive_pc_def fun_upd_idem)
    qed
  qed
qed

end
