(* ===== verification/Ipc_Mqueue_Machine.thy ===== *)
theory Ipc_Mqueue_Machine
  imports Ipc_Mqueue_Safe
begin

text \<open>
  The system of threads that send to and receive from message queues, as a state machine whose steps
  are the critical sections of the operations in any order, and the properties of message queues.
\<close>

section \<open>Ports and sets\<close>

lemma no_FULL_through_links:
  assumes inv: "mq_inv w pc x" and s': "sched_ok s'" "ports_ok (w\<lparr>mq_sched := s'\<rparr>)" "sc_threads s' = sc_threads (mq_sched w)"
    and p: "mq_ports w a = Some p"
  shows "waiting_at s' a IPC_MQUEUE_FULL \<subseteq> waiting_at (mq_sched w) a IPC_MQUEUE_FULL"
proof
  fix t assume "t \<in> waiting_at s' a IPC_MQUEUE_FULL"
  then obtain b where b: "queue_of (mq_sched w) t = Some b" "event_of (mq_sched w) t = IPC_MQUEUE_FULL" "reaches s' a b"
    by (auto simp: waiting_at_def queue_of_def event_of_def s'(3))
  obtain th where th: "sc_threads (mq_sched w) t = Some th" "th_wait_queue th = Some b" "th_wait_event th = IPC_MQUEUE_FULL"
    by (rule waiting_threads [OF mq_invD(1) [OF inv] b(1)]) (use b(2) that in simp)
  have "pc_ok w (pc t) th" by (rule pcs_okD [OF mq_invD(4) [OF inv] th(1)])
  then obtain p' where "mq_ports w b = Some p'" using th by (auto simp: pc_ok_def split: ipc_pc.splits)
  then have "a = b" using port_reached [of "w\<lparr>mq_sched := s'\<rparr>" b p' a] s' b(3) by simp
  then show "t \<in> waiting_at (mq_sched w) a IPC_MQUEUE_FULL" using b by (auto simp: waiting_at_def reaches_def)
qed

lemma with_link_inv:
  assumes inv: "mq_inv w pc x" and p: "mq_ports w a = Some p"
    and r: "sc_waitqs (mq_sched w) sub = Some r" "wq_issub r"
    and l: "sc_links (mq_sched w) l = None" and no: "\<not> wq_linked (mq_sched w) a sub"
  shows "mq_inv (w\<lparr>mq_sched := with_link l a sub (mq_sched w)\<rparr>) pc x"
proof -
  note I = mq_invD [OF inv]
  obtain q where q: "sc_waitqs (mq_sched w) a = Some q" "\<not> wq_issub q" using port_waitq [OF I(2) p] by blast
  define s1 where "s1 = with_link l a sub (mq_sched w)"
  have ok1: "sched_ok s1" unfolding s1_def by (rule with_link_ok [OF I(1) q r l no])
  have po1: "ports_ok (w\<lparr>mq_sched := s1\<rparr>)"
    by (rule ports_ok_sched [OF I(2)])
      (use I(2) p in \<open>auto simp: s1_def with_link_def ports_ok_def split: if_splits\<close>)
  have th1: "sc_threads s1 = sc_threads (mq_sched w)" by (simp add: s1_def with_link_def)
  show ?thesis
    using quiet_sched_inv [OF inv ok1 th1 po1 no_FULL_through_links [OF inv ok1 po1 th1]] by (simp add: s1_def)
qed

lemma add_inv:
  assumes inv: "mq_inv w pc (\<lambda>_. 0)" and p: "mq_ports w a = Some p"
    and r: "sc_waitqs (mq_sched w) sub = Some r" "wq_issub r"
    and l: "sc_links (mq_sched w) l = None" and no: "\<not> wq_linked (mq_sched w) a sub"
  shows "\<exists>kr w'. mqueue_add l a sub w = Some (kr, w') \<and> mq_inv w' pc (\<lambda>_. 0) \<and> (no_lost_message w \<longrightarrow> no_lost_message w')"
proof -
  note I = mq_invD [OF inv]
  obtain q where q: "sc_waitqs (mq_sched w) a = Some q" "\<not> wq_issub q" using port_waitq [OF I(2) p] by blast
  show ?thesis
  proof (cases "l = 0")
    case True
    have "wait_queue_link l a sub (mq_sched w) = Some (KERN_RESOURCE_SHORTAGE, mq_sched w)"
      using True r no member_spec [OF I(1) q(1) r] by (simp add: wait_queue_link_def wait_queue_is_sub_def)
    then show ?thesis using inv by (simp add: mqueue_add_def from_sched_def)
  next
    case False
    define s1 where "s1 = with_link l a sub (mq_sched w)"
    define w1 where "w1 = w\<lparr>mq_sched := s1\<rparr>"
    have th1: "sc_threads s1 = sc_threads (mq_sched w)" by (simp add: s1_def with_link_def)
    have inv1: "mq_inv w1 pc (\<lambda>_. 0)"
      unfolding w1_def s1_def by (rule with_link_inv [OF inv p r l no])
    have p1: "mq_ports w1 a = Some p" using p by (simp add: w1_def)
    obtain w' p' where w': "match_messages a (pmq_messages p) w1 = Some w'" "mq_inv w' pc (\<lambda>_. 0)" "no_more_waiting w1 w'"
      "mq_ports w' = (mq_ports w1)(a \<mapsto> p')" "pmq_messages p' = [] \<or> waiting_at (mq_sched w') a IPC_MQUEUE_RECEIVE = {}"
      using match_messages_inv [OF inv1 p1 refl] by auto
    have "mqueue_add l a sub w = Some (KERN_SUCCESS, w')"
      using link_spec [OF I(1) q r no False] p w'(1) by (simp add: mqueue_add_def from_sched_def w1_def s1_def)
    moreover have "no_lost_message w \<Longrightarrow> no_lost_message w'"
      unfolding no_lost_message_def
    proof (intro allI impI)
      fix b pb assume lost: "\<forall>a p. mq_ports w a = Some p \<longrightarrow> pmq_messages p \<noteq> [] \<longrightarrow> waiting_at (mq_sched w) a IPC_MQUEUE_RECEIVE = {}"
        and pb: "mq_ports w' b = Some pb" "pmq_messages pb \<noteq> []"
      show "waiting_at (mq_sched w') b IPC_MQUEUE_RECEIVE = {}"
      proof (cases "b = a")
        case True
        then show ?thesis using w'(4,5) pb by simp
      next
        case ne: False
        then have "mq_ports w b = Some pb" using w'(4) pb(1) by (simp add: w1_def)
        then have "waiting_at (mq_sched w) b IPC_MQUEUE_RECEIVE = {}" using lost pb(2) by blast
        moreover have "sc_links s1 k = Some wql \<and> wql_queue wql = b \<longleftrightarrow> sc_links (mq_sched w) k = Some wql \<and> wql_queue wql = b" for k wql
          using ne l by (auto simp: s1_def with_link_def)
        then have "reaches s1 b c = reaches (mq_sched w) b c" for c unfolding reaches_def by metis
        then have "waiting_at s1 b IPC_MQUEUE_RECEIVE = waiting_at (mq_sched w) b IPC_MQUEUE_RECEIVE"
          by (simp add: waiting_at_def queue_of_def event_of_def th1)
        moreover have "waiting_at (mq_sched w') b IPC_MQUEUE_RECEIVE \<subseteq> waiting_at s1 b IPC_MQUEUE_RECEIVE"
          using w'(3) by (simp add: no_more_waiting_def w1_def)
        ultimately show ?thesis by simp
      qed
    qed
    ultimately show ?thesis using w'(2) by blast
  qed
qed

lemma without_link_inv:
  assumes inv: "mq_inv w pc x" and l: "sc_links (mq_sched w) l = Some \<lparr>wql_queue = a, wql_subqueue = sub\<rparr>"
  shows "mq_inv (w\<lparr>mq_sched := without_link l a sub (mq_sched w)\<rparr>) pc x \<and>
    (no_lost_message w \<longrightarrow> no_lost_message (w\<lparr>mq_sched := without_link l a sub (mq_sched w)\<rparr>))"
proof -
  note I = mq_invD [OF inv]
  define s1 where "s1 = without_link l a sub (mq_sched w)"
  have ok1: "sched_ok s1" unfolding s1_def by (rule without_link_ok [OF I(1) l])
  have po1: "ports_ok (w\<lparr>mq_sched := s1\<rparr>)"
    by (rule ports_ok_sched [OF I(2)]) (use I(2) in \<open>auto simp: s1_def without_link_def ports_ok_def split: if_splits\<close>)
  have th1: "sc_threads s1 = sc_threads (mq_sched w)" by (simp add: s1_def without_link_def)
  have "reaches s1 b c \<Longrightarrow> reaches (mq_sched w) b c" for b c
    by (auto simp: reaches_def s1_def without_link_def split: if_splits)
  then have W: "waiting_at s1 b e \<subseteq> waiting_at (mq_sched w) b e" for b e
    by (auto simp: waiting_at_def queue_of_def event_of_def th1)
  have "mq_inv (w\<lparr>mq_sched := s1\<rparr>) pc x" by (rule quiet_sched_inv [OF inv ok1 th1 po1 W])
  moreover have "no_lost_message w \<Longrightarrow> no_lost_message (w\<lparr>mq_sched := s1\<rparr>)"
    using W [of _ IPC_MQUEUE_RECEIVE] by (simp add: no_lost_message_def) blast
  ultimately show ?thesis by (simp add: s1_def)
qed

lemma remove_inv:
  assumes inv: "mq_inv w pc x" and p: "mq_ports w a = Some p" and r: "sc_waitqs (mq_sched w) sub = Some r" "wq_issub r"
  shows "\<exists>kr w'. mqueue_remove a sub w = Some (kr, w') \<and> mq_inv w' pc x \<and> (no_lost_message w \<longrightarrow> no_lost_message w')"
proof -
  note I = mq_invD [OF inv]
  obtain q where q: "sc_waitqs (mq_sched w) a = Some q" using port_waitq [OF I(2) p] by blast
  note m = member_spec [OF I(1) q r]
  show ?thesis
  proof (cases rule: find_link_cases [OF I(1) q, of sub, case_names no yes])
    case no
    then show ?thesis using m inv by (simp add: mqueue_remove_def)
  next
    case (yes l)
    then have "wait_queue_unlink a sub (mq_sched w) = Some (without_link l a sub (mq_sched w))"
      using q r m remove_link_ok [OF I(1) yes(3)] by (simp add: wait_queue_unlink_def wait_queue_is_sub_def)
    then show ?thesis using m yes(1) without_link_inv [OF inv yes(3)] by (simp add: mqueue_remove_def on_sched_def)
  qed
qed

lemma remove_one_inv:
  assumes inv: "mq_inv w pc x" and p: "mq_ports w a = Some p"
  shows "\<exists>r w'. mqueue_remove_one a w = Some (r, w') \<and> mq_inv w' pc x \<and> (no_lost_message w \<longrightarrow> no_lost_message w')"
proof -
  note I = mq_invD [OF inv]
  obtain q where q: "sc_waitqs (mq_sched w) a = Some q" using port_waitq [OF I(2) p] by blast
  show ?thesis
  proof (cases "first_link (wq_queue q)")
    case None
    then show ?thesis using q inv by (simp add: mqueue_remove_one_def from_sched_def wait_queue_unlink_one_def)
  next
    case (Some l)
    obtain wql where wql: "sc_links (mq_sched w) l = Some wql" "wql_queue wql = a"
      by (rule wq_link_ok [OF I(1) q first_link_in [OF Some]]) (rule that)
    then have l: "sc_links (mq_sched w) l = Some \<lparr>wql_queue = a, wql_subqueue = wql_subqueue wql\<rparr>" by auto
    show ?thesis using q Some wql(1) remove_link_ok [OF I(1) l] without_link_inv [OF inv l]
      by (simp add: mqueue_remove_one_def from_sched_def wait_queue_unlink_one_def)
  qed
qed

section \<open>Limits and new queues\<close>

lemma set_qlimit_inv:
  assumes inv: "mq_inv w pc (\<lambda>_. 0)" and p: "mq_ports w a = Some p"
    and ok: "n \<le> pmq_qlimit p \<or> waiting_at (mq_sched w) a IPC_MQUEUE_FULL = {}"
  shows "\<exists>w'. mqueue_set_qlimit a n w = Some w' \<and> mq_inv w' pc (\<lambda>_. 0) \<and> (no_lost_message w \<longrightarrow> no_lost_message w')"
proof -
  note I = mq_invD [OF inv]
  define b where "b = (if pmq_qlimit p < n then False else pmq_fullwaiters p)"
  define w' where "w' = w\<lparr>mq_ports := (mq_ports w)(a \<mapsto> p\<lparr>pmq_fullwaiters := b, pmq_qlimit := n\<rparr>)\<rparr>"
  have run: "mqueue_set_qlimit a n w = Some w'"
  proof (cases "pmq_qlimit p < n")
    case True
    then have none: "waiting_at (mq_sched w) a IPC_MQUEUE_FULL = {}" using ok by auto
    obtain q where q: "sc_waitqs (mq_sched w) a = Some q" using port_waitq [OF I(2) p] by blast
    have "wait_queue_wakeup_one_locked a IPC_MQUEUE_FULL THREAD_AWAKENED (mq_sched w) = Some (False, mq_sched w)"
      by (rule wakeup_cases [OF I(1) q, where event = IPC_MQUEUE_FULL and res = THREAD_AWAKENED]) (use none in auto)
    moreover have "unat (n - pmq_qlimit p) \<noteq> 0" using True by (auto simp: unat_eq_0)
    then obtain m where "unat (n - pmq_qlimit p) = Suc m" by (cases "unat (n - pmq_qlimit p)") auto
    ultimately show ?thesis using True p
      by (simp add: mqueue_set_qlimit_def from_sched_def upd_mqueue_def w'_def b_def)
  next
    case False
    then show ?thesis using p by (simp add: mqueue_set_qlimit_def upd_mqueue_def w'_def b_def)
  qed
  have "mq_inv w' pc ((\<lambda>_. 0)(a := 0))"
    unfolding w'_def
  proof (rule port_step_inv [OF inv p])
    assume full: "waiting_at (mq_sched w) a IPC_MQUEUE_FULL \<noteq> {}"
    then have "pmq_fullwaiters p \<and> imq_full p" using I(3) p by (auto simp: senders_ok_def)
    moreover have "n \<le> pmq_qlimit p" using ok full by blast
    ultimately show "pmq_fullwaiters (p\<lparr>pmq_fullwaiters := b, pmq_qlimit := n\<rparr>) \<and> imq_full (p\<lparr>pmq_fullwaiters := b, pmq_qlimit := n\<rparr>)"
      by (auto simp: imq_full_def b_def)
  qed (use port_messages [OF inv p] in auto)
  moreover have "no_lost_message w \<longrightarrow> no_lost_message w'"
    using p by (auto simp: no_lost_message_def w'_def)
  ultimately show ?thesis using run by (simp add: fun_upd_idem)
qed

lemma set_seqno_inv:
  assumes inv: "mq_inv w pc (\<lambda>_. 0)" and p: "mq_ports w a = Some p"
  shows "\<exists>w'. mqueue_set_seqno a n w = Some w' \<and> mq_inv w' pc (\<lambda>_. 0) \<and> (no_lost_message w \<longrightarrow> no_lost_message w')"
proof -
  define w' where "w' = w\<lparr>mq_ports := (mq_ports w)(a \<mapsto> p\<lparr>pmq_seqno := n\<rparr>)\<rparr>"
  have "mqueue_set_seqno a n w = Some w'" using p by (simp add: mqueue_set_seqno_def upd_mqueue_def w'_def)
  moreover have "mq_inv w' pc (\<lambda>_. 0)"
    using port_quiet_inv [OF inv p, of "p\<lparr>pmq_seqno := n\<rparr>"] by (simp add: w'_def fun_upd_idem)
  moreover have "no_lost_message w \<longrightarrow> no_lost_message w'"
    using p by (auto simp: no_lost_message_def w'_def)
  ultimately show ?thesis by blast
qed

text \<open>A fresh queue: nothing waits there and nothing links to it.\<close>

lemma fresh_no_queue: "\<lbrakk>elements_ok s; sc_waitqs s a = None\<rbrakk> \<Longrightarrow> queue_of s t \<noteq> Some a"
  unfolding elements_ok_def by (metis option.distinct(1))

lemma fresh_sched_ok:
  assumes ok: "sched_ok s" and fresh: "sc_waitqs s a = None"
    and q: "wq_fifo q" "wq_queue q = []" "wqs_sublinks q = []"
  shows "sched_ok (s\<lparr>sc_waitqs := (sc_waitqs s)(a \<mapsto> q)\<rparr>)"
proof -
  let ?s = "s\<lparr>sc_waitqs := (sc_waitqs s)(a \<mapsto> q)\<rparr>"
  have el: "elements_ok s" and li: "links_ok s" using ok by (simp_all add: sched_ok_def)
  have no: "queue_of s t \<noteq> Some a" for t by (rule fresh_no_queue [OF el fresh])
  have nol: "wql_queue wql \<noteq> a \<and> wql_subqueue wql \<noteq> a" if "sc_links s l = Some wql" for l wql
    using li fresh that unfolding links_ok_def by fastforce
  have Q: "queue_of ?s = queue_of s" by (simp add: queue_of_def fun_eq_iff)
  have "elements_ok ?s"
    using el q no unfolding elements_ok_def Q by (auto split: if_splits)
  moreover have "links_ok ?s"
    unfolding links_ok_def
  proof (intro conjI allI impI)
    fix b q' assume q': "sc_waitqs ?s b = Some q'"
    show "distinct (wqs_sublinks q')" using q' q li by (auto simp: links_ok_def split: if_splits)
    show "Link_element l \<in> set (wq_queue q') \<longleftrightarrow> (\<exists>wql. sc_links ?s l = Some wql \<and> wql_queue wql = b)" for l
      using q' q nol li by (cases "b = a") (auto simp: links_ok_def)
    show "l \<in> set (wqs_sublinks q') \<longleftrightarrow> (\<exists>wql. sc_links ?s l = Some wql \<and> wql_subqueue wql = b)" for l
      using q' q nol li by (cases "b = a") (auto simp: links_ok_def)
  next
    fix l wql assume "sc_links ?s l = Some wql"
    then have l: "sc_links s l = Some wql" by simp
    then have "(\<exists>q. sc_waitqs s (wql_queue wql) = Some q \<and> \<not> wq_issub q) \<and> (\<exists>q. sc_waitqs s (wql_subqueue wql) = Some q \<and> wq_issub q)"
      using li unfolding links_ok_def by blast
    then show "\<exists>q. sc_waitqs ?s (wql_queue wql) = Some q \<and> \<not> wq_issub q"
      "\<exists>q. sc_waitqs ?s (wql_subqueue wql) = Some q \<and> wq_issub q"
      using nol [OF l] by auto
  next
    show "inj_on (sc_links ?s) (dom (sc_links ?s))" using li by (simp add: links_ok_def)
  qed
  ultimately show ?thesis by (simp add: sched_ok_def)
qed

lemma init_inv:
  assumes inv: "mq_inv w pc (\<lambda>_. 0)" and fresh: "sc_waitqs (mq_sched w) a = None"
  shows "mq_inv (mqueue_init a is_set w) pc (\<lambda>_. 0) \<and> (no_lost_message w \<longrightarrow> no_lost_message (mqueue_init a is_set w))"
proof -
  note I = mq_invD [OF inv]
  define q where "q = (if is_set then wait_queue_sub_init SYNC_POLICY_FIFO else wait_queue_init SYNC_POLICY_FIFO)"
  define s1 where "s1 = (mq_sched w)\<lparr>sc_waitqs := (sc_waitqs (mq_sched w))(a \<mapsto> q)\<rparr>"
  have ok1: "sched_ok s1"
    unfolding s1_def by (rule fresh_sched_ok [OF I(1) fresh]) (simp_all add: q_def wait_queue_sub_init_def wait_queue_init_def)
  have th1: "sc_threads s1 = sc_threads (mq_sched w)" by (simp add: s1_def)
  have po1: "ports_ok (w\<lparr>mq_sched := s1\<rparr>)"
    by (rule ports_ok_sched [OF I(2)]) (use I(2) fresh in \<open>auto simp: s1_def ports_ok_def\<close>)
  have W: "waiting_at s1 b e = waiting_at (mq_sched w) b e" for b e
    by (simp add: waiting_at_def s1_def queue_of_def event_of_def reaches_def)
  have inv1: "mq_inv (w\<lparr>mq_sched := s1\<rparr>) pc (\<lambda>_. 0)" by (rule quiet_sched_inv [OF inv ok1 th1 po1]) (simp add: W)
  have lost1: "no_lost_message w \<Longrightarrow> no_lost_message (w\<lparr>mq_sched := s1\<rparr>)" by (simp add: no_lost_message_def W)
  show ?thesis
  proof (cases is_set)
    case True
    then show ?thesis using inv1 lost1 by (simp add: mqueue_init_def s1_def q_def)
  next
    case False
    define w1 where "w1 = w\<lparr>mq_sched := s1, mq_ports := (mq_ports w)(a \<mapsto> mqueue_init_port)\<rparr>"
    have none: "mq_ports w a = None"
    proof (rule ccontr)
      assume "mq_ports w a \<noteq> None"
      then obtain p where "mq_ports w a = Some p" by blast
      then show False using port_waitq [OF I(2)] fresh by fastforce
    qed
    have nowait: "waiting_at (mq_sched w) a e = {}" for e
    proof -
      have "queue_of (mq_sched w) t \<noteq> Some a" for t
        by (rule fresh_no_queue [OF _ fresh]) (use I(1) in \<open>simp add: sched_ok_def\<close>)
      moreover have "\<not> (\<exists>l wql. sc_links (mq_sched w) l = Some wql \<and> wql_queue wql = a)"
        using I(1) fresh unfolding sched_ok_def links_ok_def by fastforce
      ultimately show ?thesis by (auto simp: waiting_at_def reaches_def)
    qed
    have res: "reserved w1 pc = reserved w pc" by (simp add: reserved_def w1_def th1 fun_eq_iff)
    have "t \<notin> reserved w pc a" for t
    proof
      assume "t \<in> reserved w pc a"
      then obtain th where "sc_threads (mq_sched w) t = Some th" "holds (pc t) th a" by (auto simp: reserved_def)
      then show False using pcs_okD [OF I(4), of t th] none by (auto simp: holds_def pc_ok_def split: ipc_pc.splits)
    qed
    then have none_reserved: "reserved w pc a = {}" by blast
    have "mq_ports w1 = (mq_ports w)(a \<mapsto> mqueue_init_port)" by (simp add: w1_def)
    then have "counts_ok w1 pc (\<lambda>_. 0)"
      using I(5) none_reserved unfolding counts_ok_def res by (auto simp: mqueue_init_port_def split: if_splits)
    moreover have "pc_ok w n th \<Longrightarrow> pc_ok w1 n th" for n th by (auto simp: pc_ok_def w1_def split: ipc_pc.splits)
    then have "pcs_ok w1 pc" using I(4) by (simp add: pcs_ok_def w1_def th1)
    moreover have "senders_ok w1" using I(3) nowait by (auto simp: senders_ok_def w1_def W)
    moreover have "ports_ok w1"
      using po1 False I(2) by (auto simp: ports_ok_def w1_def s1_def q_def wait_queue_init_def mqueue_init_port_def)
    ultimately have "mq_inv w1 pc (\<lambda>_. 0)" using ok1 by (simp add: mq_inv_def w1_def)
    moreover have "no_lost_message w \<Longrightarrow> no_lost_message w1"
      by (auto simp: no_lost_message_def w1_def W mqueue_init_port_def)
    moreover have "mqueue_init a is_set w = w1" using False by (simp add: mqueue_init_def w1_def s1_def q_def)
    ultimately show ?thesis by simp
  qed
qed

section \<open>The machine\<close>

text \<open>The critical sections, each with the thread that runs it and the arguments.\<close>

datatype mq_op =
    Init ipc_mqueue_t bool
  | Add wait_queue_link_t ipc_mqueue_t ipc_mqueue_t
  | Remove ipc_mqueue_t ipc_mqueue_t
  | Remove_one ipc_mqueue_t
  | Send thread_t ipc_mqueue_t u32 u32 u32
  | Send_woken thread_t
  | Post thread_t
  | Receive thread_t ipc_mqueue_t u32 u32 u32 wait_interrupt_t
  | Receive_woken thread_t
  | Interrupt thread_t bool
  | Expire thread_t bool
  | Changed ipc_mqueue_t
  | Set_qlimit ipc_mqueue_t u32
  | Set_seqno ipc_mqueue_t u32

type_synonym mq_config = "mq_state \<times> (thread_t \<Rightarrow> ipc_pc)"

fun mq_run :: "mq_op \<Rightarrow> mq_config \<Rightarrow> mq_config option" where
  "mq_run (Init a is_set) (w, pc) = Some (mqueue_init a is_set w, pc)"
| "mq_run (Add l a sub) (w, pc) = do { (kr, w) \<leftarrow> mqueue_add l a sub w; Some (w, pc) }"
| "mq_run (Remove a sub) (w, pc) = do { (kr, w) \<leftarrow> mqueue_remove a sub w; Some (w, pc) }"
| "mq_run (Remove_one a) (w, pc) = do { (r, w) \<leftarrow> mqueue_remove_one a w; Some (w, pc) }"
| "mq_run (Send t a kmsg opt timeout) (w, pc) =
    do { (r, w) \<leftarrow> ipc_mqueue_send t a kmsg opt timeout w; Some (w, pc(t := send_pc a kmsg opt r)) }"
| "mq_run (Send_woken t) (w, pc) =
    (case pc t of
       Send_wait a kmsg opt \<Rightarrow> do { (r, w) \<leftarrow> ipc_mqueue_send_woken t opt w; Some (w, pc(t := send_pc a kmsg opt r)) }
     | _ \<Rightarrow> None)"
| "mq_run (Post t) (w, pc) =
    (case pc t of
       Posting a kmsg \<Rightarrow> do { w \<leftarrow> ipc_mqueue_post a kmsg w; Some (w, pc(t := Idle)) }
     | _ \<Rightarrow> None)"
| "mq_run (Receive t a opt max_size timeout intr) (w, pc) =
    do { (r, w) \<leftarrow> ipc_mqueue_receive t a opt max_size timeout intr w; Some (w, pc(t := receive_pc a opt r)) }"
| "mq_run (Receive_woken t) (w, pc) =
    (case pc t of
       Receive_wait a opt \<Rightarrow> do { (r, w) \<leftarrow> ipc_mqueue_receive_woken t opt w; Some (w, pc(t := Idle)) }
     | _ \<Rightarrow> None)"
| "mq_run (Interrupt t intr) (w, pc) = do { w \<leftarrow> on_sched (clear_wait t THREAD_INTERRUPTED intr) w; Some (w, pc) }"
| "mq_run (Expire t delayed) (w, pc) = do { w \<leftarrow> on_sched (thread_timer_expire t delayed) w; Some (w, pc) }"
| "mq_run (Changed a) (w, pc) = do { w \<leftarrow> ipc_mqueue_changed a w; Some (w, pc) }"
| "mq_run (Set_qlimit a n) (w, pc) = do { w \<leftarrow> mqueue_set_qlimit a n w; Some (w, pc) }"
| "mq_run (Set_seqno a n) (w, pc) = do { w \<leftarrow> mqueue_set_seqno a n w; Some (w, pc) }"

text \<open>What the callers ensure. A section runs for a thread that is where the section begins. Queues are
  initialised in fresh memory; a port is added to a set that it is not in; a receiver asks for one of the
  three trailers. The last condition is not ensured by the callers: the limit is not raised while senders
  wait.\<close>

definition is_port :: "mq_state \<Rightarrow> ipc_mqueue_t \<Rightarrow> bool" where
  "is_port w a \<longleftrightarrow> mq_ports w a \<noteq> None"

definition is_set_queue :: "mq_state \<Rightarrow> ipc_mqueue_t \<Rightarrow> bool" where
  "is_set_queue w a \<longleftrightarrow> (case sc_waitqs (mq_sched w) a of None \<Rightarrow> False | Some q \<Rightarrow> wq_issub q)"

definition is_thread :: "mq_state \<Rightarrow> thread_t \<Rightarrow> bool" where
  "is_thread w t \<longleftrightarrow> sc_threads (mq_sched w) t \<noteq> None"

definition runnable :: "mq_state \<Rightarrow> thread_t \<Rightarrow> bool" where
  "runnable w t \<longleftrightarrow> (case sc_threads (mq_sched w) t of None \<Rightarrow> False | Some th \<Rightarrow> \<not> th_wait th)"

fun enabled :: "mq_op \<Rightarrow> mq_config \<Rightarrow> bool" where
  "enabled (Init a is_set) (w, pc) \<longleftrightarrow> sc_waitqs (mq_sched w) a = None"
| "enabled (Add l a sub) (w, pc) \<longleftrightarrow> is_port w a \<and> is_set_queue w sub \<and> sc_links (mq_sched w) l = None \<and>
     \<not> wq_linked (mq_sched w) a sub"
| "enabled (Remove a sub) (w, pc) \<longleftrightarrow> is_port w a \<and> is_set_queue w sub"
| "enabled (Remove_one a) (w, pc) \<longleftrightarrow> is_port w a"
| "enabled (Send t a kmsg opt timeout) (w, pc) \<longleftrightarrow> is_thread w t \<and> pc t = Idle \<and> mq_kmsgs w kmsg \<noteq> None \<and>
     (case mq_ports w a of None \<Rightarrow> False | Some p \<Rightarrow> unat (pmq_msgcount p) + 1 < 2 ^ 32)"
| "enabled (Send_woken t) (w, pc) \<longleftrightarrow> runnable w t \<and> (\<exists>a kmsg opt. pc t = Send_wait a kmsg opt)"
| "enabled (Post t) (w, pc) \<longleftrightarrow> (\<exists>a kmsg. pc t = Posting a kmsg)"
| "enabled (Receive t a opt max_size timeout intr) (w, pc) \<longleftrightarrow> is_thread w t \<and> pc t = Idle \<and>
     (is_port w a \<or> is_set_queue w a) \<and> GET_RCV_ELEMENTS opt < 3"
| "enabled (Receive_woken t) (w, pc) \<longleftrightarrow> runnable w t \<and> (\<exists>a opt. pc t = Receive_wait a opt)"
| "enabled (Interrupt t intr) (w, pc) \<longleftrightarrow> is_thread w t"
| "enabled (Expire t delayed) (w, pc) \<longleftrightarrow> is_thread w t"
| "enabled (Changed a) (w, pc) \<longleftrightarrow> is_port w a \<or> is_set_queue w a"
| "enabled (Set_qlimit a n) (w, pc) \<longleftrightarrow> (case mq_ports w a of None \<Rightarrow> False
     | Some p \<Rightarrow> n \<le> pmq_qlimit p \<or> waiting_at (mq_sched w) a IPC_MQUEUE_FULL = {})"
| "enabled (Set_seqno a n) (w, pc) \<longleftrightarrow> is_port w a"

definition mq_good :: "mq_config \<Rightarrow> bool" where
  "mq_good c \<longleftrightarrow> mq_inv (fst c) (snd c) (\<lambda>_. 0) \<and> no_lost_message (fst c)"

lemma trailer_valid: "GET_RCV_ELEMENTS opt < 3 \<Longrightarrow> REQUESTED_TRAILER_SIZE opt \<noteq> None"
  by (simp add: REQUESTED_TRAILER_SIZE_def array_get_def trailer_size_def word_less_nat_alt)

lemma good_run:
  assumes "\<exists>w'. f w = Some w' \<and> mq_inv w' pc (\<lambda>_. 0) \<and> (no_lost_message w \<longrightarrow> no_lost_message w')" "no_lost_message w"
  shows "\<exists>c. (do { w \<leftarrow> f w; Some (w, pc) }) = Some c \<and> mq_good c"
  using assms by (auto simp: mq_good_def)

lemma good_run2:
  assumes "\<exists>r w'. f w = Some (r, w') \<and> mq_inv w' (g r) (\<lambda>_. 0) \<and> (no_lost_message w \<longrightarrow> no_lost_message w')" "no_lost_message w"
  shows "\<exists>c. (do { (r, w) \<leftarrow> f w; Some (w, g r) }) = Some c \<and> mq_good c"
  using assms by (auto simp: mq_good_def)

text \<open>The place of a thread that is about to post belongs to the post.\<close>

lemma posting_place:
  assumes inv: "mq_inv w pc (\<lambda>_. 0)" and pc: "pc t = Posting a kmsg"
  obtains p k where "mq_ports w a = Some p" "mq_kmsgs w kmsg = Some k" "mq_inv w (pc(t := Idle)) ((\<lambda>_. 0)(a := 1))"
proof -
  note I = mq_invD [OF inv]
  have "sc_threads (mq_sched w) t \<noteq> None" using I(4) pc unfolding pcs_ok_def by (metis ipc_pc.distinct(1))
  then obtain th where th: "sc_threads (mq_sched w) t = Some th" by blast
  have ok: "pc_ok w (Posting a kmsg) th" using pcs_okD [OF I(4) th] pc by simp
  then obtain p k where "mq_ports w a = Some p" "mq_kmsgs w kmsg = Some k" by (auto simp: pc_ok_def)
  moreover have "mq_inv w (pc(t := Idle)) ((\<lambda>_. 0)(a := 1))"
    by (rule pc_step_inv [OF inv th]) (use ok pc in \<open>auto simp: pc_ok_def holds_def\<close>)
  ultimately show ?thesis by (rule that)
qed

lemma post_step:
  assumes inv: "mq_inv w pc (\<lambda>_. 0)" and pc: "pc t = Posting a kmsg"
  shows "\<exists>w'. ipc_mqueue_post a kmsg w = Some w' \<and> mq_inv w' (pc(t := Idle)) (\<lambda>_. 0) \<and>
    (no_lost_message w \<longrightarrow> no_lost_message w')"
proof -
  obtain p k where p: "mq_ports w a = Some p" and k: "mq_kmsgs w kmsg = Some k"
    and place: "mq_inv w (pc(t := Idle)) ((\<lambda>_. 0)(a := 1))"
    by (rule posting_place [OF inv pc]) (rule that)
  from post_inv [OF place p _ k] show ?thesis by (auto simp: fun_upd_idem)
qed

lemma mq_run_good:
  assumes "mq_good c" "enabled op c"
  shows "\<exists>c'. mq_run op c = Some c' \<and> mq_good c'"
proof -
  obtain w pc where c: "c = (w, pc)" by (cases c)
  have inv: "mq_inv w pc (\<lambda>_. 0)" and lost: "no_lost_message w" using assms(1) by (simp_all add: mq_good_def c)
  note I = mq_invD [OF inv]
  have idle: "pc(t := pc t) = pc" for t by simp
  show ?thesis
  proof (cases op)
    case (Init a is_set)
    then show ?thesis using init_inv [OF inv, of a is_set] lost assms(2) by (simp add: mq_good_def c)
  next
    case (Add l a sub)
    then obtain p r where "mq_ports w a = Some p" "sc_waitqs (mq_sched w) sub = Some r" "wq_issub r"
      using assms(2) by (auto simp: c is_port_def is_set_queue_def split: option.splits)
    from add_inv [OF inv this] show ?thesis
      unfolding Add c mq_run.simps by (intro good_run2 [where g = "\<lambda>_. pc"]) (use Add assms(2) lost c in auto)
  next
    case (Remove a sub)
    then obtain p r where "mq_ports w a = Some p" "sc_waitqs (mq_sched w) sub = Some r" "wq_issub r"
      using assms(2) by (auto simp: c is_port_def is_set_queue_def split: option.splits)
    from remove_inv [OF inv this] show ?thesis
      unfolding Remove c mq_run.simps by (intro good_run2 [where g = "\<lambda>_. pc"]) (use lost in auto)
  next
    case (Remove_one a)
    then obtain p where "mq_ports w a = Some p" using assms(2) by (auto simp: c is_port_def)
    from remove_one_inv [OF inv this] show ?thesis
      unfolding Remove_one c mq_run.simps by (intro good_run2 [where g = "\<lambda>_. pc"]) (use lost in auto)
  next
    case (Send t a kmsg opt timeout)
    then obtain p where "mq_ports w a = Some p" "unat (pmq_msgcount p) + 1 < 2 ^ 32"
      using assms(2) by (auto simp: c split: option.splits)
    moreover have "pc t = Idle" "sc_threads (mq_sched w) t \<noteq> None" "mq_kmsgs w kmsg \<noteq> None"
      using assms(2) Send by (auto simp: c is_thread_def)
    ultimately show ?thesis unfolding Send c mq_run.simps by (intro good_run2 send_inv [OF inv] lost)
  next
    case (Send_woken t)
    then obtain a kmsg opt th where "pc t = Send_wait a kmsg opt" "sc_threads (mq_sched w) t = Some th" "\<not> th_wait th"
      using assms(2) by (auto simp: c runnable_def split: option.splits)
    then show ?thesis unfolding Send_woken c mq_run.simps
      by (simp only: ipc_pc.case) (intro good_run2 send_woken_inv [OF inv] lost)
  next
    case (Post t)
    then obtain a kmsg where "pc t = Posting a kmsg" using assms(2) by (auto simp: c)
    then show ?thesis unfolding Post c mq_run.simps
      by (simp only: ipc_pc.case) (intro good_run post_step [OF inv] lost)
  next
    case (Receive t a opt max_size timeout intr)
    then obtain q where q: "sc_waitqs (mq_sched w) a = Some q" "wq_issub q \<or> mq_ports w a \<noteq> None"
      using assms(2) port_waitq [OF I(2), of a] by (fastforce simp: c is_port_def is_set_queue_def split: option.splits)
    moreover have "pc t = Idle" "sc_threads (mq_sched w) t \<noteq> None" "REQUESTED_TRAILER_SIZE opt \<noteq> None"
      using assms(2) Receive trailer_valid [of opt] by (auto simp: c is_thread_def)
    ultimately show ?thesis unfolding Receive c mq_run.simps by (intro good_run2 receive_inv [OF inv] lost)
  next
    case (Receive_woken t)
    then obtain a opt th where t: "pc t = Receive_wait a opt" "sc_threads (mq_sched w) t = Some th" "\<not> th_wait th"
      using assms(2) by (auto simp: c runnable_def split: option.splits)
    from receive_woken_inv [OF inv this] show ?thesis unfolding Receive_woken c mq_run.simps t(1) ipc_pc.case
      by (intro good_run2 [where g = "\<lambda>_. pc(t := Idle)"] lost) auto
  next
    case (Interrupt t intr)
    then have "sc_threads (mq_sched w) t \<noteq> None" using assms(2) by (simp add: c is_thread_def)
    then show ?thesis unfolding Interrupt c mq_run.simps by (intro good_run interrupt_inv [OF inv] lost)
  next
    case (Expire t delayed)
    then have "sc_threads (mq_sched w) t \<noteq> None" using assms(2) by (simp add: c is_thread_def)
    then show ?thesis unfolding Expire c mq_run.simps by (intro good_run expire_inv [OF inv] lost)
  next
    case (Changed a)
    then obtain q where "sc_waitqs (mq_sched w) a = Some q"
      using assms(2) port_waitq [OF I(2), of a] by (fastforce simp: c is_port_def is_set_queue_def split: option.splits)
    from changed_inv [OF inv this] show ?thesis unfolding Changed c mq_run.simps by (intro good_run lost) auto
  next
    case (Set_qlimit a n)
    then obtain p where "mq_ports w a = Some p" "n \<le> pmq_qlimit p \<or> waiting_at (mq_sched w) a IPC_MQUEUE_FULL = {}"
      using assms(2) by (auto simp: c split: option.splits)
    then show ?thesis unfolding Set_qlimit c mq_run.simps by (intro good_run set_qlimit_inv [OF inv] lost)
  next
    case (Set_seqno a n)
    then obtain p where "mq_ports w a = Some p" using assms(2) by (auto simp: c is_port_def)
    then show ?thesis unfolding Set_seqno c mq_run.simps by (intro good_run set_seqno_inv [OF inv] lost)
  qed
qed

end
