(* ===== verification/Ipc_Mqueue_Sets.thy ===== *)
theory Ipc_Mqueue_Sets
  imports Ipc_Mqueue_Machine Ipc_Pset
begin

text \<open>
  The theory Ipc\_Pset represents the wait queue of a port by the list of the sets that the port is linked
  to. Here the links of the wait queue give this list, and the operations on the links are refinements of
  those on the list.
\<close>

section \<open>The sets of a port\<close>

definition sets_of :: "sched \<Rightarrow> wait_queue_t \<Rightarrow> wait_queue_t list" where
  "sets_of s a = map (\<lambda>l. wql_subqueue (the (sc_links s l))) (links_in (wq_queue (the (sc_waitqs s a))))"

lemma same_shape_sets_of: "same_shape s s' \<Longrightarrow> sc_waitqs s a = Some q \<Longrightarrow> sets_of s' a = sets_of s a"
  using same_shape_waitq [of s s' a q] by (auto simp: sets_of_def same_shape_def)

lemma sets_of_links:
  assumes "sched_ok s" "sc_waitqs s a = Some q" "l \<in> set (links_in (wq_queue q))"
  obtains sub where "sc_links s l = Some \<lparr>wql_queue = a, wql_subqueue = sub\<rparr>"
proof -
  have "Link_element l \<in> set (wq_queue q)" using assms(3) by (simp add: in_links_in)
  then obtain wql where "sc_links s l = Some wql" "wql_queue wql = a"
    by (rule wq_link_ok [OF assms(1,2)]) (rule that)
  then show ?thesis using that [of "wql_subqueue wql"] by simp
qed

lemma in_sets_of:
  assumes "sched_ok s" "sc_waitqs s a = Some q"
  shows "sub \<in> set (sets_of s a) \<longleftrightarrow> wq_linked s a sub"
proof
  assume "sub \<in> set (sets_of s a)"
  then obtain l where "l \<in> set (links_in (wq_queue q))" "sub = wql_subqueue (the (sc_links s l))"
    using assms(2) by (auto simp: sets_of_def)
  moreover obtain sub' where "sc_links s l = Some \<lparr>wql_queue = a, wql_subqueue = sub'\<rparr>"
    by (rule sets_of_links [OF assms calculation(1)]) (rule that)
  ultimately show "wq_linked s a sub" by (auto simp: wq_linked_def intro!: exI [of _ l])
next
  assume "wq_linked s a sub"
  then obtain l wql where l: "sc_links s l = Some wql" "wql_queue wql = a" "wql_subqueue wql = sub"
    by (auto simp: wq_linked_def)
  then have "Link_element l \<in> set (wq_queue q)" using assms unfolding sched_ok_def links_ok_def by blast
  then show "sub \<in> set (sets_of s a)" using l assms(2) by (force simp: sets_of_def in_links_in)
qed

lemma map_remove1: "inj_on f (set xs) \<Longrightarrow> x \<in> set xs \<Longrightarrow> map f (remove1 x xs) = remove1 (f x) (map f xs)"
  by (induction xs) (auto simp: inj_on_def)

lemma links_in_remove1: "links_in (remove1 (Link_element l) es) = remove1 l (links_in es)"
  by (induction es rule: links_in.induct) auto

lemma links_in_distinct: "distinct es \<Longrightarrow> distinct (links_in es)"
  by (induction es rule: links_in.induct) (auto simp: in_links_in)

lemma sets_of_with_link:
  assumes "sched_ok s" "sc_waitqs s a = Some q" "sc_links s l = None"
  shows "sets_of (with_link l a sub s) a = sets_of s a @ [sub]"
proof -
  have "l \<notin> set (links_in (wq_queue q))"
    using sets_of_links [OF assms(1,2), of l] assms(3) by (metis option.distinct(1))
  then show ?thesis using assms(2) by (auto simp: sets_of_def with_link_def)
qed

lemma sets_of_without_link:
  assumes ok: "sched_ok s" and q: "sc_waitqs s a = Some q" and l: "sc_links s l = Some \<lparr>wql_queue = a, wql_subqueue = sub\<rparr>"
  shows "sets_of (without_link l a sub s) a = remove1 sub (sets_of s a)"
proof -
  let ?ls = "links_in (wq_queue q)"
  let ?f = "\<lambda>k. wql_subqueue (the (sc_links s k))"
  have "Link_element l \<in> set (wq_queue q)"
    using l ok q unfolding sched_ok_def links_ok_def by fastforce
  then have "l \<in> set ?ls" by (simp add: in_links_in)
  moreover have "inj_on ?f (set ?ls)"
  proof (rule inj_onI)
    fix k k' assume k: "k \<in> set ?ls" "k' \<in> set ?ls" "?f k = ?f k'"
    obtain b where b: "sc_links s k = Some \<lparr>wql_queue = a, wql_subqueue = b\<rparr>"
      by (rule sets_of_links [OF ok q k(1)]) (rule that)
    obtain b' where b': "sc_links s k' = Some \<lparr>wql_queue = a, wql_subqueue = b'\<rparr>"
      by (rule sets_of_links [OF ok q k(2)]) (rule that)
    have "inj_on (sc_links s) (dom (sc_links s))" using ok by (simp add: sched_ok_def links_ok_def)
    moreover have "k \<in> dom (sc_links s)" "k' \<in> dom (sc_links s)" "sc_links s k = sc_links s k'" using b b' k(3) by auto
    ultimately show "k = k'" by (blast dest: inj_onD)
  qed
  ultimately have "map ?f (remove1 l ?ls) = remove1 sub (map ?f ?ls)" using map_remove1 [of ?f ?ls l] l by simp
  moreover have "distinct (wq_queue q)" using ok q by (auto simp: sched_ok_def elements_ok_def)
  then have "l \<notin> set (remove1 l ?ls)" using links_in_distinct by simp
  then have "map (\<lambda>k. wql_subqueue (the (sc_links (without_link l a sub s) k))) (remove1 l ?ls) = map ?f (remove1 l ?ls)"
    by (intro map_cong refl) (auto simp: without_link_def)
  ultimately show ?thesis using q by (simp add: sets_of_def without_link_def links_in_remove1)
qed

section \<open>Refinement\<close>

lemma remove_refines:
  assumes ok: "sched_ok (mq_sched w)" and q: "sc_waitqs (mq_sched w) a = Some q"
    and r: "sc_waitqs (mq_sched w) sub = Some r" "wq_issub r" and mq: "imq_sets mq = sets_of (mq_sched w) a"
  shows "\<exists>w'. mqueue_remove a sub w = Some (fst (ipc_mqueue_remove mq sub), w') \<and>
    sets_of (mq_sched w') a = imq_sets (snd (ipc_mqueue_remove mq sub))"
proof (cases rule: find_link_cases [OF ok q, of sub, case_names no yes])
  case no
  then show ?thesis using member_spec [OF ok q r] in_sets_of [OF ok q, of sub] mq
    by (simp add: mqueue_remove_def ipc_mqueue_remove_def ipc_mqueue_member_def)
next
  case (yes l)
  note m = member_spec [OF ok q r]
  have "wait_queue_unlink a sub (mq_sched w) = Some (without_link l a sub (mq_sched w))"
    using yes q r m remove_link_ok [OF ok yes(3)] by (simp add: wait_queue_unlink_def wait_queue_is_sub_def)
  then show ?thesis using m yes(1) in_sets_of [OF ok q, of sub] mq sets_of_without_link [OF ok q yes(3)]
    by (simp add: mqueue_remove_def on_sched_def ipc_mqueue_remove_def ipc_mqueue_member_def)
qed

lemma first_link_links_in: "first_link es = (case links_in es of [] \<Rightarrow> None | l # ls \<Rightarrow> Some l)"
  by (induction es rule: first_link.induct) auto

lemma remove_one_refines:
  assumes ok: "sched_ok (mq_sched w)" and q: "sc_waitqs (mq_sched w) a = Some q"
    and mq: "imq_sets mq = sets_of (mq_sched w) a"
  shows "\<exists>w'. mqueue_remove_one a w = Some (fst (ipc_mqueue_remove_one mq), w') \<and>
    sets_of (mq_sched w') a = imq_sets (snd (ipc_mqueue_remove_one mq))"
proof (cases "links_in (wq_queue q)")
  case Nil
  then show ?thesis using q mq
    by (simp add: mqueue_remove_one_def from_sched_def wait_queue_unlink_one_def ipc_mqueue_remove_one_def
        first_link_links_in sets_of_def)
next
  case (Cons l ls)
  obtain sub where l: "sc_links (mq_sched w) l = Some \<lparr>wql_queue = a, wql_subqueue = sub\<rparr>"
    by (rule sets_of_links [OF ok q, of l]) (use Cons that in auto)
  have "sets_of (mq_sched w) a = sub # map (\<lambda>l. wql_subqueue (the (sc_links (mq_sched w) l))) ls"
    using Cons q l by (simp add: sets_of_def)
  then show ?thesis using q mq Cons l remove_link_ok [OF ok l] sets_of_without_link [OF ok q l]
    by (simp add: mqueue_remove_one_def from_sched_def wait_queue_unlink_one_def ipc_mqueue_remove_one_def
        first_link_links_in)
qed

lemma add_refines:
  assumes inv: "mq_inv w pc (\<lambda>_. 0)" and p: "mq_ports w a = Some p"
    and r: "sc_waitqs (mq_sched w) sub = Some r" "wq_issub r" and l: "sc_links (mq_sched w) l = None" "l \<noteq> 0"
    and mq: "imq_sets mq = sets_of (mq_sched w) a" and no: "\<not> ipc_mqueue_member mq sub"
  shows "\<exists>w'. mqueue_add l a sub w = Some (KERN_SUCCESS, w') \<and>
    sets_of (mq_sched w') a = imq_sets (ipc_mqueue_add mq sub)"
proof -
  note I = mq_invD [OF inv]
  obtain q where q: "sc_waitqs (mq_sched w) a = Some q" "\<not> wq_issub q" using port_waitq [OF I(2) p] by blast
  have nl: "\<not> wq_linked (mq_sched w) a sub" using no mq in_sets_of [OF I(1) q(1)] by (simp add: ipc_mqueue_member_def)
  define w1 where "w1 = w\<lparr>mq_sched := with_link l a sub (mq_sched w)\<rparr>"
  have inv1: "mq_inv w1 pc (\<lambda>_. 0)" unfolding w1_def by (rule with_link_inv [OF inv p r l(1) nl])
  have p1: "mq_ports w1 a = Some p" using p by (simp add: w1_def)
  obtain w' where w': "match_messages a (pmq_messages p) w1 = Some w'" "no_more_waiting w1 w'"
    using match_messages_inv [OF inv1 p1 refl] by auto
  have "mqueue_add l a sub w = Some (KERN_SUCCESS, w')"
    using link_spec [OF I(1) q r nl l(2)] p w'(1) by (simp add: mqueue_add_def from_sched_def w1_def)
  moreover obtain q1 where "sc_waitqs (mq_sched w1) a = Some q1"
    using port_waitq [OF mq_invD(2) [OF inv1] p1] by blast
  then have "sets_of (mq_sched w') a = sets_of (mq_sched w1) a"
    using w'(2) same_shape_sets_of by (simp add: no_more_waiting_def)
  ultimately show ?thesis
    using sets_of_with_link [OF I(1) q(1) l(1)] mq by (simp add: w1_def ipc_mqueue_add_def)
qed

end
