(* ===== verification/Ipc_Mqueue_Props.thy ===== *)
theory Ipc_Mqueue_Props
  imports Ipc_Mqueue_Sets
begin

text \<open>
  The properties of message queues, for every state that the machine reaches from one without queues.
\<close>

section \<open>Reachable states\<close>

inductive mq_step :: "mq_config \<Rightarrow> mq_config \<Rightarrow> bool" where
  "\<lbrakk>enabled op c; mq_run op c = Some c'\<rbrakk> \<Longrightarrow> mq_step c c'"

text \<open>No queues, and threads that wait for nothing.\<close>

definition mq_start :: "mq_config \<Rightarrow> bool" where
  "mq_start c \<longleftrightarrow> (\<forall>a. sc_waitqs (mq_sched (fst c)) a = None) \<and> (\<forall>l. sc_links (mq_sched (fst c)) l = None) \<and>
    (\<forall>a. mq_ports (fst c) a = None) \<and> (\<forall>t. snd c t = Idle) \<and>
    (\<forall>t th. sc_threads (mq_sched (fst c)) t = Some th \<longrightarrow> \<not> th_wait th \<and> th_wait_queue th = None \<and>
       th_wait_event th = NO_EVENT \<and> \<not> th_at_safe_point th \<and> \<not> th_wait_timer_is_set th)"

lemma start_good: "mq_start c \<Longrightarrow> mq_good c"
proof -
  assume c: "mq_start c"
  have Q: "queue_of (mq_sched (fst c)) t = None" for t
    using c by (auto simp: queue_of_def mq_start_def split: option.splits)
  have "elements_ok (mq_sched (fst c))"
    using c Q by (auto simp: elements_ok_def mq_start_def thread_ok_def)
  moreover have "links_ok (mq_sched (fst c))" using c by (auto simp: links_ok_def mq_start_def inj_on_def)
  moreover have "pcs_ok (fst c) (snd c)" using c by (auto simp: pcs_ok_def pc_ok_def mq_start_def)
  ultimately show ?thesis
    using c by (simp add: mq_good_def mq_inv_def sched_ok_def ports_ok_def senders_ok_def counts_ok_def
        no_lost_message_def mq_start_def)
qed

lemma reachable_good:
  assumes "mq_step\<^sup>*\<^sup>* c0 c" "mq_start c0"
  shows "mq_good c"
  using assms
proof (induction rule: rtranclp_induct)
  case (step c c')
  then show ?case using mq_run_good by (auto elim!: mq_step.cases) fastforce
qed (rule start_good)

text \<open>A run of the machine, for concrete states.\<close>

fun mq_runs :: "mq_op list \<Rightarrow> mq_config \<Rightarrow> mq_config option" where
  "mq_runs [] c = Some c"
| "mq_runs (op # ops) c = do { c \<leftarrow> mq_run op c; mq_runs ops c }"

fun enabled_all :: "mq_op list \<Rightarrow> mq_config \<Rightarrow> bool" where
  "enabled_all [] c \<longleftrightarrow> True"
| "enabled_all (op # ops) c \<longleftrightarrow> enabled op c \<and> (case mq_run op c of None \<Rightarrow> False | Some c' \<Rightarrow> enabled_all ops c')"

lemma runs_steps: "\<lbrakk>mq_runs ops c = Some c'; enabled_all ops c\<rbrakk> \<Longrightarrow> mq_step\<^sup>*\<^sup>* c c'"
proof (induction ops arbitrary: c)
  case (Cons op ops)
  then obtain c1 where c1: "mq_run op c = Some c1" "mq_runs ops c1 = Some c'" "enabled op c" "enabled_all ops c1"
    by (auto simp: bind_eq_Some_conv split: option.splits)
  then show ?case using Cons.IH mq_step.intros by (blast intro: converse_rtranclp_into_rtranclp)
qed simp

text \<open>Threads 5, 6 and 7, and two messages of 24 bytes.\<close>

definition demo_thread :: thread where
  "demo_thread = \<lparr>th_wait = False, th_run = True, th_unint = False, th_wait_queue = None, th_wait_event = NO_EVENT,
     th_wait_result = THREAD_NO_RESULT, th_at_safe_point = False, th_vm_privilege = False, th_active = True,
     th_wait_timer_is_set = False, ith_state = 0, ith_option = 0, ith_msize = 0, ith_kmsg = 0, ith_seqno = 0\<rparr>"

definition demo_kmsg :: ipc_kmsg where
  "demo_kmsg = \<lparr>ikm_next = 0, ikm_prev = 0,
     ikm_header = \<lparr>msgh_bits = 17, msgh_size = 24, msgh_remote_port = 0, msgh_local_port = 0\<rparr>,
     ikm_descriptor_count = 0, ikm_descriptors = []\<rparr>"

definition demo :: mq_config where
  "demo = (\<lparr>mq_sched = \<lparr>sc_waitqs = Map.empty, sc_links = Map.empty, sc_threads = [5 \<mapsto> demo_thread, 6 \<mapsto> demo_thread, 7 \<mapsto> demo_thread]\<rparr>,
     mq_ports = Map.empty, mq_kmsgs = [100 \<mapsto> demo_kmsg, 101 \<mapsto> demo_kmsg]\<rparr>, \<lambda>_. Idle)"

lemma demo_start: "mq_start demo"
  by (auto simp: mq_start_def demo_def demo_thread_def split: if_splits)

text \<open>How the operations evaluate.\<close>

lemmas mq_eval =
  demo_def demo_thread_def demo_kmsg_def mqueue_init_def mqueue_init_port_def wait_queue_init_def wait_queue_sub_init_def
  ipc_mqueue_send_def upd_mqueue_def imq_full_def option_set_def MACH_MSGH_BITS_REMOTE_def mach_msg_type_number_def
  on_sched_def from_sched_def wait_queue_assert_wait_locked_def upd_waitq_def upd_thread_def thread_mark_wait_locked_def
  send_pc_def receive_pc_def mqueue_set_qlimit_def wait_queue_wakeup_one_locked_def wait_queue_wakeup_identity_locked_def
  wait_queue_select_one_def unqueue_thread_def thread_go_locked_def ipc_mqueue_send_woken_def offer_message_def
  select_one_from.simps ipc_mqueue_post.simps

definition demo_posted :: mq_config where
  "demo_posted = the (mq_runs [Init 1 False, Send 5 1 100 0 0, Post 5] demo)"

lemma demo_posted_run: "mq_runs [Init 1 False, Send 5 1 100 0 0, Post 5] demo = Some demo_posted"
  unfolding demo_posted_def by (simp add: mq_eval)


lemma demo_posted_reached: "mq_step\<^sup>*\<^sup>* demo demo_posted"
proof (rule runs_steps [OF demo_posted_run])
  show "enabled_all [Init 1 False, Send 5 1 100 0 0, Post 5] demo"
    by (simp add: mq_eval is_thread_def)
qed

lemma demo_posted_port: "mq_ports (fst demo_posted) 1 =
  Some \<lparr>pmq_messages = [100], pmq_msgcount = 1, pmq_qlimit = 5, pmq_seqno = 0, pmq_fullwaiters = False\<rparr>"
  unfolding demo_posted_def by (simp add: mq_eval)

text \<open>The same without the post.\<close>

definition demo_granted :: mq_config where
  "demo_granted = the (mq_runs [Init 1 False, Send 5 1 100 0 0] demo)"

lemma demo_granted_run: "mq_runs [Init 1 False, Send 5 1 100 0 0] demo = Some demo_granted"
  unfolding demo_granted_def by (simp add: mq_eval)

lemma demo_granted_reached: "mq_step\<^sup>*\<^sup>* demo demo_granted"
  by (rule runs_steps [OF demo_granted_run]) (simp add: mq_eval is_thread_def)

lemma demo_granted_port: "snd demo_granted 5 = Posting 1 100" "mq_ports (fst demo_granted) 1 =
  Some \<lparr>pmq_messages = [], pmq_msgcount = 1, pmq_qlimit = 5, pmq_seqno = 0, pmq_fullwaiters = False\<rparr>"
  unfolding demo_granted_def by (simp_all add: mq_eval)

text \<open>The port 1 in the set 2.\<close>

definition demo_set :: mq_config where
  "demo_set = the (mq_runs [Init 1 False, Init 2 True, Add 9 1 2] demo)"

lemmas set_eval = mq_eval mqueue_add_def wait_queue_link_def wait_queue_member_def wait_queue_is_sub_def

lemma demo_set_run: "mq_runs [Init 1 False, Init 2 True, Add 9 1 2] demo = Some demo_set"
  unfolding demo_set_def by (simp add: set_eval)

lemma demo_set_reached: "mq_step\<^sup>*\<^sup>* demo demo_set"
  by (rule runs_steps [OF demo_set_run]) (simp add: set_eval is_port_def is_set_queue_def wq_linked_def)

lemma demo_set_queues: "mq_ports (fst demo_set) 1 = Some mqueue_init_port" "sets_of (mq_sched (fst demo_set)) 1 = [2]"
  "sc_waitqs (mq_sched (fst demo_set)) 2 = Some \<lparr>wq_fifo = True, wq_issub = True, wq_queue = [], wqs_sublinks = [9]\<rparr>"
  unfolding demo_set_def by (simp_all add: set_eval sets_of_def)

section \<open>What sending and receiving do\<close>

lemma select_large:
  assumes "mq_ports w a = Some p" "pmq_messages p = kmsg # rest" "mq_kmsgs w kmsg = Some k"
    "REQUESTED_TRAILER_SIZE opt = Some n" "max_size < msgh_size (ikm_header k) + n" "option_set opt MACH_RCV_LARGE"
  shows "ipc_mqueue_select a opt max_size w = Some (Received MACH_RCV_TOO_LARGE (Some (msgh_size (ikm_header k))) (Some 0), w)"
  using assms by (simp add: ipc_mqueue_select_def)

lemma select_takes:
  assumes inv: "mq_inv w pc (\<lambda>_. 0)" and p: "mq_ports w a = Some p" "pmq_messages p = kmsg # rest"
    and k: "mq_kmsgs w kmsg = Some k" and n: "REQUESTED_TRAILER_SIZE opt = Some n"
    and fits: "\<not> (max_size < msgh_size (ikm_header k) + n \<and> option_set opt MACH_RCV_LARGE)"
  shows "\<exists>w' p'. ipc_mqueue_select a opt max_size w =
      Some (Received (if max_size < msgh_size (ikm_header k) + n then MACH_RCV_TOO_LARGE else MACH_MSG_SUCCESS)
        (Some kmsg) (Some (pmq_seqno p)), w') \<and>
    mq_ports w' = (mq_ports w)(a \<mapsto> p') \<and> pmq_messages p' = rest \<and> pmq_seqno p' = pmq_seqno p + 1"
proof -
  define p1 where "p1 = p\<lparr>pmq_messages := rest\<rparr>"
  define w1 where "w1 = w\<lparr>mq_ports := (mq_ports w)(a \<mapsto> p1)\<rparr>"
  have "mq_inv w1 pc ((\<lambda>_. 0)(a := 0 + int (length (pmq_messages p)) - int (length (pmq_messages p1))))"
    unfolding w1_def by (rule port_quiet_inv [OF inv p(1)]) (use p(2) in \<open>auto simp: p1_def\<close>)
  then have inv1: "mq_inv w1 pc ((\<lambda>_. 0)(a := 1))" by (simp add: p(2) p1_def)
  have a1: "mq_ports w1 a = Some p1" by (simp add: w1_def)
  have pos: "0 < pmq_msgcount p1" by (rule count_pos [OF inv1 a1]) simp
  obtain w2 where w2: "ipc_mqueue_release_msgcount a w1 = Some w2" "same_messages a p1 w1 w2"
    by (rule release_inv [OF inv1 a1 pos]) (rule that)
  then obtain p2 where p2: "mq_ports w2 = (mq_ports w1)(a \<mapsto> p2)" "pmq_messages p2 = rest" "pmq_seqno p2 = pmq_seqno p"
    by (auto simp: same_messages_def p1_def)
  show ?thesis
    using fits p k n w2(1) p2
    by (auto simp: ipc_mqueue_select_def upd_mqueue_def w1_def p1_def intro!: exI [of _ "p2\<lparr>pmq_seqno := pmq_seqno p2 + 1\<rparr>"])
qed

section \<open>Properties\<close>


















end
