(* ===== verification/Ipc_Mqueue_Limit.thy ===== *)
theory Ipc_Mqueue_Limit
  imports Ipc_Mqueue_Props
begin

text \<open>
  The interface through which message queues wake senders, and the refinement of the limit of
  a queue: the theory Ipc\_Pset says only how many senders wait, here they are in the wait queue.
\<close>

section \<open>Places where threads wait\<close>

text \<open>Waking one thread wakes a thread that waits, if there is one.\<close>

locale waiting_room =
  fixes inv :: "'s \<Rightarrow> bool" and waits :: "'s \<Rightarrow> 't set" and wake_one :: "'s \<Rightarrow> (bool \<times> 's) option"
  assumes waits_finite: "inv s \<Longrightarrow> finite (waits s)"
    and wake_nobody: "\<lbrakk>inv s; waits s = {}\<rbrakk> \<Longrightarrow> wake_one s = Some (False, s)"
    and wake_somebody: "\<lbrakk>inv s; waits s \<noteq> {}\<rbrakk> \<Longrightarrow>
      \<exists>t s'. wake_one s = Some (True, s') \<and> t \<in> waits s \<and> inv s' \<and> waits s' = waits s - {t}"

text \<open>Waking up to \<open>n\<close> threads, until nobody waits. The result says whether there were \<open>n\<close>.\<close>

fun wake_up_to :: "('s \<Rightarrow> (bool \<times> 's) option) \<Rightarrow> nat \<Rightarrow> 's \<Rightarrow> (bool \<times> 's) option" where
  "wake_up_to wake_one 0 s = Some (True, s)"
| "wake_up_to wake_one (Suc n) s =
    do { (woken, s) \<leftarrow> wake_one s; if \<not> woken then Some (False, s) else wake_up_to wake_one n s }"

context waiting_room
begin

lemma wakes_as_many:
  "inv s \<Longrightarrow> \<exists>s'. wake_up_to wake_one n s = Some (n \<le> card (waits s), s') \<and> inv s' \<and> waits s' \<subseteq> waits s \<and>
    card (waits s') = card (waits s) - n"
proof (induction n arbitrary: s)
  case (Suc n)
  show ?case
  proof (cases "waits s = {}")
    case True
    then show ?thesis using wake_nobody [OF Suc.prems True] Suc.prems by simp
  next
    case False
    obtain t s1 where s1: "wake_one s = Some (True, s1)" "t \<in> waits s" "inv s1" "waits s1 = waits s - {t}"
      using wake_somebody [OF Suc.prems False] by blast
    have c: "card (waits s) = Suc (card (waits s1))"
      unfolding s1(4) by (rule card.remove [OF waits_finite [OF Suc.prems] s1(2)])
    obtain s' where s': "wake_up_to wake_one n s1 = Some (n \<le> card (waits s1), s')" "inv s'" "waits s' \<subseteq> waits s1"
      "card (waits s') = card (waits s1) - n"
      using Suc.IH [OF s1(3)] by blast
    have "wake_up_to wake_one (Suc n) s = Some (Suc n \<le> card (waits s), s')" using s1(1) s'(1) c by simp
    moreover have "card (waits s') = card (waits s) - Suc n" using s'(4) c by simp
    moreover have "waits s' \<subseteq> waits s" using s'(3) s1(4) by blast
    ultimately show ?thesis using s'(2) by blast
  qed
qed simp

end

interpretation senders: waiting_room "\<lambda>s. sched_ok s \<and> sc_waitqs s a \<noteq> None" "\<lambda>s. waiting_at s a event"
  "wait_queue_wakeup_one_locked a event res" for a event res
proof
  fix s assume s: "sched_ok s \<and> sc_waitqs s a \<noteq> None"
  then obtain q where q: "sched_ok s" "sc_waitqs s a = Some q" by blast
  show "finite (waiting_at s a event)" by (rule finite_waiting [OF q])
  show "wait_queue_wakeup_one_locked a event res s = Some (False, s)" if "waiting_at s a event = {}"
    by (rule wakeup_cases [OF q, of event res]) (use that in auto)
  show "\<exists>t s'. wait_queue_wakeup_one_locked a event res s = Some (True, s') \<and> t \<in> waiting_at s a event \<and>
      (sched_ok s' \<and> sc_waitqs s' a \<noteq> None) \<and> waiting_at s' a event = waiting_at s a event - {t}"
    if some: "waiting_at s a event \<noteq> {}"
  proof (cases rule: wakeup_cases [OF q, of event res, case_names nobody found])
    case (found t)
    then show ?thesis using q by (auto simp: waiting_at_take_off)
  qed (use some in simp)
qed

section \<open>The limit of a queue\<close>

lemma wake_senders_loop:
  "mq_ports w a = Some p \<Longrightarrow> wake_senders n a w =
    do { (enough, s) \<leftarrow> wake_up_to (wait_queue_wakeup_one_locked a IPC_MQUEUE_FULL THREAD_AWAKENED) n (mq_sched w);
         Some (if enough then w\<lparr>mq_sched := s\<rparr>
               else w\<lparr>mq_sched := s, mq_ports := (mq_ports w)(a \<mapsto> p\<lparr>pmq_fullwaiters := False\<rparr>)\<rparr>) }"
proof (induction n arbitrary: w)
  case (Suc n)
  show ?case
  proof (cases "wait_queue_wakeup_one_locked a IPC_MQUEUE_FULL THREAD_AWAKENED (mq_sched w)")
    case (Some r)
    then obtain woken s where r: "wait_queue_wakeup_one_locked a IPC_MQUEUE_FULL THREAD_AWAKENED (mq_sched w) = Some (woken, s)"
      by (cases r) auto
    show ?thesis
    proof (cases woken)
      case True
      then show ?thesis using Suc.prems Suc.IH [of "w\<lparr>mq_sched := s\<rparr>"] r by (simp add: from_sched_def fun_upd_def cong: if_cong)
    next
      case False
      then show ?thesis using Suc.prems r by (simp add: from_sched_def upd_mqueue_def)
    qed
  qed (simp add: from_sched_def)
qed simp

text \<open>The limit and the flag of a queue, as the theory Ipc\_Pset keeps them.\<close>

definition limits_as :: "port_mqueue \<Rightarrow> ipc_mqueue \<Rightarrow> bool" where
  "limits_as p mq \<longleftrightarrow> imq_msgcount mq = pmq_msgcount p \<and> imq_qlimit mq = pmq_qlimit p \<and>
     imq_seqno mq = pmq_seqno p \<and> imq_fullwaiters mq = pmq_fullwaiters p"

text \<open>C25: Changing the limit of a queue implements the operation of the theory Ipc\_Pset on the number of
  waiting senders: the same number of senders is woken, in any reachable state, and the counters and the
  flag agree afterwards.\<close>

theorem set_qlimit_implements:
  assumes "mq_step\<^sup>*\<^sup>* c0 c" "mq_start c0" "mq_ports (fst c) a = Some p" "limits_as p mq"
    and "ipc_mqueue_set_qlimit (card (waiting_at (mq_sched (fst c)) a IPC_MQUEUE_FULL)) n mq = (woken, mq')"
  shows "\<exists>w' p'. mqueue_set_qlimit a n (fst c) = Some w' \<and> mq_ports w' = (mq_ports (fst c))(a \<mapsto> p') \<and>
    limits_as p' mq' \<and> pmq_messages p' = pmq_messages p \<and>
    waiting_at (mq_sched w') a IPC_MQUEUE_FULL \<subseteq> waiting_at (mq_sched (fst c)) a IPC_MQUEUE_FULL \<and>
    card (waiting_at (mq_sched (fst c)) a IPC_MQUEUE_FULL) = card (waiting_at (mq_sched w') a IPC_MQUEUE_FULL) + woken"
proof -
  let ?w = "fst c"
  have inv: "mq_inv ?w (snd c) (\<lambda>_. 0)" using reachable_good [OF assms(1,2)] by (simp add: mq_good_def)
  note I = mq_invD [OF inv]
  obtain q where q: "sc_waitqs (mq_sched ?w) a = Some q" using port_waitq [OF I(2) assms(3)] by blast
  show ?thesis
  proof (cases "pmq_qlimit p < n")
    case True
    obtain s where s: "wake_up_to (wait_queue_wakeup_one_locked a IPC_MQUEUE_FULL THREAD_AWAKENED) (unat (n - pmq_qlimit p)) (mq_sched ?w) =
        Some (unat (n - pmq_qlimit p) \<le> card (waiting_at (mq_sched ?w) a IPC_MQUEUE_FULL), s)"
      "waiting_at s a IPC_MQUEUE_FULL \<subseteq> waiting_at (mq_sched ?w) a IPC_MQUEUE_FULL"
      "card (waiting_at s a IPC_MQUEUE_FULL) = card (waiting_at (mq_sched ?w) a IPC_MQUEUE_FULL) - unat (n - pmq_qlimit p)"
      using senders.wakes_as_many [of "mq_sched ?w" a IPC_MQUEUE_FULL THREAD_AWAKENED] I(1) q by blast
    show ?thesis
      using True assms(3-5) s wake_senders_loop [OF assms(3), of "unat (n - pmq_qlimit p)"]
      by (auto simp: mqueue_set_qlimit_def upd_mqueue_def limits_as_def ipc_mqueue_set_qlimit_def Let_def not_le)
  next
    case False
    then show ?thesis using assms(3-5)
      by (auto simp: mqueue_set_qlimit_def upd_mqueue_def limits_as_def ipc_mqueue_set_qlimit_def)
  qed
qed

text \<open>A sender waits at a queue with the limit 0.\<close>

definition demo_full :: mq_config where
  "demo_full = the (mq_runs [Init 1 False, Set_qlimit 1 0, Send 5 1 100 0 0] demo)"

lemma demo_full_run: "mq_runs [Init 1 False, Set_qlimit 1 0, Send 5 1 100 0 0] demo = Some demo_full"
  unfolding demo_full_def by (simp add: mq_eval)

lemma demo_full_state:
  "mq_ports (fst demo_full) 1 =
    Some \<lparr>pmq_messages = [], pmq_msgcount = 0, pmq_qlimit = 0, pmq_seqno = 0, pmq_fullwaiters = True\<rparr>"
  "waiting_at (mq_sched (fst demo_full)) 1 IPC_MQUEUE_FULL = {5}"
proof -
  show "mq_ports (fst demo_full) 1 =
    Some \<lparr>pmq_messages = [], pmq_msgcount = 0, pmq_qlimit = 0, pmq_seqno = 0, pmq_fullwaiters = True\<rparr>"
    unfolding demo_full_def by (simp add: mq_eval)
  have "queue_of (mq_sched (fst demo_full)) t = (if t = 5 then Some 1 else None)"
    "event_of (mq_sched (fst demo_full)) 5 = IPC_MQUEUE_FULL" for t
    unfolding demo_full_def by (simp_all add: mq_eval queue_of_def event_of_def)
  then show "waiting_at (mq_sched (fst demo_full)) 1 IPC_MQUEUE_FULL = {5}"
    by (auto simp: waiting_at_def reaches_def split: if_splits)
qed

lemma demo_full_reached: "mq_step\<^sup>*\<^sup>* demo demo_full"
  by (rule runs_steps [OF demo_full_run]) (simp add: mq_eval is_thread_def)

lemma set_qlimit_implements_witness:
  "\<exists>w'. mqueue_set_qlimit 1 2 (fst demo_full) = Some w' \<and> card (waiting_at (mq_sched w') 1 IPC_MQUEUE_FULL) = 0"
proof -
  let ?mq = "ipc_mqueue_init\<lparr>imq_qlimit := 0, imq_fullwaiters := True\<rparr>"
  have "limits_as \<lparr>pmq_messages = [], pmq_msgcount = 0, pmq_qlimit = 0, pmq_seqno = 0, pmq_fullwaiters = True\<rparr> ?mq"
    by (simp add: limits_as_def ipc_mqueue_init_def)
  moreover have "ipc_mqueue_set_qlimit (card (waiting_at (mq_sched (fst demo_full)) 1 IPC_MQUEUE_FULL)) 2 ?mq =
      (1, ?mq\<lparr>imq_qlimit := 2, imq_fullwaiters := False\<rparr>)"
    by (simp add: demo_full_state ipc_mqueue_set_qlimit_def ipc_mqueue_init_def)
  ultimately show ?thesis
    using set_qlimit_implements [OF demo_full_reached demo_start demo_full_state(1)] by (fastforce simp: demo_full_state)
qed

end
