(* ===== verification/Ipc_Mqueue_Copyin.thy ===== *)
theory Ipc_Mqueue_Copyin
  imports Ipc_Mqueue Ipc_Port_Spec Ipc_Entry_Spec
begin

text \<open>
  Finding the message queue of a name: what \<open>ipc_mqueue_copyin\<close> does, told by the abstract map from the names
  of the space to rights.
\<close>

lemma has_right_mask:
  "has (b AND IE_BITS_RIGHT_MASK) MACH_PORT_TYPE_RECEIVE = has b MACH_PORT_TYPE_RECEIVE"
  "has (b AND IE_BITS_RIGHT_MASK) MACH_PORT_TYPE_PORT_SET = has b MACH_PORT_TYPE_PORT_SET"
  by (simp_all add: has_def and.assoc)

text \<open>What the assertions of the code say about a right to receive from.\<close>

definition receiver_typed ::
  "kernel \<Rightarrow> ipc_space_t \<Rightarrow> mach_port_name_t \<Rightarrow> ipc_object_t \<Rightarrow> u32 \<Rightarrow> bool" where
  "receiver_typed s space name obj bits \<longleftrightarrow>
     (has bits MACH_PORT_TYPE_RECEIVE \<longrightarrow> obj \<noteq> IP_NULL \<and> (\<exists>p. ks_ports s obj = Some p \<and> io_active p \<and>
        io_receiver_name p = name \<and> ip_receiver p = space \<and> io_references p < IO_MAX_REFERENCES)) \<and>
     (has bits MACH_PORT_TYPE_PORT_SET \<longrightarrow> obj \<noteq> IO_NULL \<and> (\<exists>ps. ks_psets s obj = Some ps \<and> io_active ps \<and>
        io_receiver_name ps = name \<and> io_references ps < IO_MAX_REFERENCES))"

text \<open>C26: Finding the queue of a name never trips an assertion. A name with a receive right yields its port
  and one with a port set the set, each with one more reference; every other name is refused and no
  reference is taken.\<close>

theorem mqueue_copyin_exact:
  assumes "ks_spaces s space = Some sp" "space_ok sp its_size fl claimed"
    and "is_fast sp \<longrightarrow> name_index name < is_table_size sp" and "\<And>obj bits req. is_names sp name = Some (obj, bits, req) \<Longrightarrow> receiver_typed s space name obj bits"
  shows "\<exists>r s'. ipc_mqueue_copyin space name s = Some (r, s') \<and>
    (case is_names sp name of
       Some (obj, bits, req) \<Rightarrow>
         if has bits MACH_PORT_TYPE_RECEIVE then
           r = Inr obj \<and> ks_psets s' = ks_psets s \<and>
           (\<exists>p. ks_ports s obj = Some p \<and> ks_ports s' = (ks_ports s)(obj \<mapsto> p\<lparr>io_references := io_references p + 1\<rparr>))
         else if has bits MACH_PORT_TYPE_PORT_SET then
           r = Inr obj \<and> ks_ports s' = ks_ports s \<and>
           (\<exists>ps. ks_psets s obj = Some ps \<and> ks_psets s' = (ks_psets s)(obj \<mapsto> ps\<lparr>io_references := io_references ps + 1\<rparr>))
         else r = Inl MACH_RCV_INVALID_NAME \<and> ks_ports s' = ks_ports s \<and> ks_psets s' = ks_psets s
     | None \<Rightarrow> r = Inl MACH_RCV_INVALID_NAME \<and> ks_ports s' = ks_ports s \<and> ks_psets s' = ks_psets s)"
proof -
  obtain r sp' where l: "ipc_entry_lookup sp name = Some (r, sp')"
    "case r of None \<Rightarrow> is_names sp name = None
     | Some entry \<Rightarrow> \<exists>e. is_entry sp' entry = Some e \<and> is_names sp name = ie_right e \<and> is_names sp name \<noteq> None"
    using entry_lookup_spec [OF assms(2,3)] by blast
  have act: "is_active sp" using assms(2) by (simp add: space_ok_def)
  note run = ipc_mqueue_copyin_def Let_def assms(1) act l(1) get_entry_def
  show ?thesis
  proof (cases r)
    case None
    then show ?thesis using l(2) by (simp add: run put_space_def)
  next
    case (Some entry)
    then obtain e where e: "is_entry sp' entry = Some e" "is_names sp name = Some (ie_object e, ie_bits e AND IE_BITS_RIGHT_MASK, ie_request e)"
      using l(2) by (auto simp: ie_right_def split: if_splits)
    note t = assms(4) [OF e(2), unfolded receiver_typed_def has_right_mask]
    consider (receive) "has (ie_bits e) MACH_PORT_TYPE_RECEIVE"
      | (port_set) "\<not> has (ie_bits e) MACH_PORT_TYPE_RECEIVE" "has (ie_bits e) MACH_PORT_TYPE_PORT_SET"
      | (other) "\<not> has (ie_bits e) MACH_PORT_TYPE_RECEIVE" "\<not> has (ie_bits e) MACH_PORT_TYPE_PORT_SET"
      by blast
    then show ?thesis
    proof cases
      case receive
      then obtain p where "ie_object e \<noteq> IP_NULL" "ks_ports s (ie_object e) = Some p" "io_active p" "io_receiver_name p = name"
        "ip_receiver p = space" "io_references p < IO_MAX_REFERENCES" using t by blast
      then show ?thesis using receive e Some
        by (simp add: run put_space_def has_right_mask ip_reference_def io_reference_def put_port_def)
    next
      case port_set
      then obtain ps where "ie_object e \<noteq> IO_NULL" "ks_psets s (ie_object e) = Some ps" "io_active ps" "io_receiver_name ps = name"
        "io_references ps < IO_MAX_REFERENCES" using t by blast
      then show ?thesis using port_set e Some
        by (simp add: run put_space_def has_right_mask ips_reference_def io_reference_def put_pset_def)
    next
      case other
      then show ?thesis using e Some by (simp add: run put_space_def has_right_mask)
    qed
  qed
qed

definition copyin_kernel :: kernel where
  "copyin_kernel = port_kernel\<lparr>ks_spaces := [0x3000 \<mapsto> entry_sample],
     ks_ports := [0x2000 \<mapsto> port_sample\<lparr>io_receiver_name := 0x108\<rparr>]\<rparr>"

lemma entry_sample_108: "is_names entry_sample 0x108 = Some (0x2000, 0x20001, 0)"
  by (simp add: is_names_def Let_def entry_sample_map)
    (simp add: entry_sample_def ie_right_def MACH_PORT_INDEX_def MACH_PORT_GEN_def IE_BITS_GEN_def IE_BITS_TYPE_def)

lemma mqueue_copyin_exact_witness:
  "\<exists>s'. ipc_mqueue_copyin 0x3000 0x108 copyin_kernel = Some (Inr 0x2000, s') \<and>
    ks_ports s' 0x2000 = Some (port_sample\<lparr>io_receiver_name := 0x108, io_references := 4\<rparr>)"
proof -
  have sp: "ks_spaces copyin_kernel 0x3000 = Some entry_sample"
    and p: "ks_ports copyin_kernel = [0x2000 \<mapsto> port_sample\<lparr>io_receiver_name := 0x108\<rparr>]"
    by (simp_all add: copyin_kernel_def)
  have typed: "receiver_typed copyin_kernel 0x3000 0x108 obj bits"
    if "is_names entry_sample 0x108 = Some (obj, bits, req)" for obj and bits and req :: u32
    using that p by (auto simp: entry_sample_108 receiver_typed_def has_def port_sample_def io_active_def IO_MAX_REFERENCES_eq)
  have "is_fast entry_sample \<longrightarrow> name_index 0x108 < is_table_size entry_sample" by (simp add: entry_sample_def)
  from mqueue_copyin_exact [OF sp entry_sample_ok this] typed show ?thesis
    using p by (auto simp: entry_sample_108 has_def port_sample_def)
qed

end
