(* ===== verification/Spec2Isabelle.thy ===== *)
theory Spec2Isabelle
  imports Mach_Port_Spec Ipc_Table_Spec Ipc_Hash_Init Ipc_Kmsg_Queue Ipc_Kmsg_Scatter_Spec Ipc_Kmsg_Memory_Spec Ipc_Kmsg_Copyout_Spec Wait_Queue_Props Ipc_Mqueue_Props Ipc_Mqueue_Limit Ipc_Mqueue_Copyin
begin

text \<open>
  Mach IPC, the capability system of the Darwin kernel (\<^verbatim>\<open>src/xnu-1-1/osfmk/ipc\<close>).

  \<^bold>\<open>The program.\<close> A task has a space (\<^verbatim>\<open>ipc_space_t\<close>), which maps names, 32-bit words, to
  rights. A right is an entry: the object (a port or a port set), the type of the right, a count of
  user references, and an index into the dead-name requests of the port. The index part of a name
  selects an element of the entry table of the space, the generation part tells successive uses of
  one element apart. A name that does not fit there lives in a splay tree; the element then has its
  collision bit set. Free elements form a list through the table, and the table of a space with
  many names grows along a fixed array of sizes, taking in names of the tree. For a pure send right a
  reverse hash table finds the name again, inside the entry table (linear probing) or, for names of the
  tree, in a global table with chains. Ports count the rights that refer to them and send
  notifications when the last send right goes, when they die, and when their receive
  right is destroyed. A receive right that is in transit in a message points to its destination; the
  graph of these pointers must not have circles. A message goes into the queue of its port, or straight to a thread
  that waits for one at the port or at a set with the port; such threads, and senders that wait for room, are in wait queues,
  and links lead from the wait queue of a port to those of its sets.

  \<^bold>\<open>The model.\<close> The state is the record \<open>kernel\<close> of Ipc_Types: the spaces, ports and port sets by
  address, the global hash table, the clock of port deaths, the two arrays of table sizes, the results that the
  allocators will return (an address, or 0 for a failure), and a log of what leaves the model
  (notifications that are sent, wake-ups, calls to other subsystems). A routine is a function of the state;
  \<open>None\<close> is a panic in the sense of Ipc_Prelude (a failed assertion, a null or dangling pointer, an index outside
  an array, a loop that does not end), \<open>Inl kr\<close> an error code. Words keep their width and
  wrap around. A pointer to an entry is \<open>Table_entry i\<close> or \<open>Tree_entry name\<close>. Loops that might not end are
  partial functions, and the properties prove that they do; no fuel is used.

  \<^bold>\<open>The theories\<close>, after the files they model:

    \<^item> Ipc_Prelude: machine types, return codes, the panic monad, lemmas on words.
    \<^item> Ipc_Bits (\<^verbatim>\<open>mach/port.h\<close>, \<^verbatim>\<open>port.h\<close>, \<^verbatim>\<open>ipc_entry.h\<close>): the layout of names and entry bits, generations,
      user references. All reasoning on single bits is here.
    \<^item> Ipc_Splay (\<^verbatim>\<open>ipc_splay.c\<close>): the splay tree with its two spines and the traversal with
      reversed links; the locale \<open>ordered_name_map\<close> is its interface.
    \<^item> Ipc_Types (\<^verbatim>\<open>ipc_object.h\<close>, \<^verbatim>\<open>ipc_port.h\<close>, \<^verbatim>\<open>ipc_pset.h\<close>, \<^verbatim>\<open>ipc_space.h\<close>): the records and the counting
      of references.
    \<^item> Ipc_Hash, Ipc_Hash_Init (\<^verbatim>\<open>ipc_hash.c\<close>): the reverse tables; the locale \<open>reverse_table\<close> is the interface
      of the local one.
    \<^item> Ipc_Freelist: the locale \<open>free_list\<close>, interpreted for the entry table (Ipc_Names) and for the table of
      dead-name requests (Ipc_Port_Spec).
    \<^item> Ipc_Entry (\<^verbatim>\<open>ipc_entry.c\<close>), with Ipc_Names (the abstract map \<open>is_names\<close> from names to rights and the
      invariant \<open>space_ok\<close>) and Ipc_Entry_Spec.
    \<^item> Ipc_Table, Ipc_Table_Spec (\<^verbatim>\<open>ipc_table.c\<close>): the arrays of table sizes.
    \<^item> Ipc_Pset, Ipc_Pset_Spec (\<^verbatim>\<open>ipc_pset.c\<close>, parts of \<^verbatim>\<open>ipc_mqueue.c\<close>): membership of ports in port sets.
    \<^item> Ipc_Port, Ipc_Port_Spec (\<^verbatim>\<open>ipc_port.c\<close>, \<^verbatim>\<open>ipc_notify.c\<close>): dead-name requests, notifications, circles of
      receive rights, destruction.
    \<^item> Ipc_Right, Ipc_Copyin, Ipc_Right_Spec (\<^verbatim>\<open>ipc_right.c\<close>): operations on the right of an entry, and the
      transfer of rights out of and into a space.
    \<^item> Ipc_Object (\<^verbatim>\<open>ipc_object.c\<close>), Ipc_Space, Ipc_Space_Spec (\<^verbatim>\<open>ipc_space.c\<close>), Mach_Port, Mach_Port_Spec
      (\<^verbatim>\<open>mach_port.c\<close>): objects by name, spaces, and the kernel calls.
    \<^item> Ipc_Kmsg (\<^verbatim>\<open>ipc_kmsg.c\<close>, \<^verbatim>\<open>ipc_kmsg.h\<close>): message records, queues, headers, cleaning and destruction;
      Ipc_Kmsg_Body and Ipc_Kmsg_Copyout: copyin and copyout of bodies and scatter lists. Their properties are in Ipc_Kmsg_Queue (with the
      locale \<open>message_queue\<close>), Ipc_Kmsg_Spec (headers), Ipc_Kmsg_Body_Spec, Ipc_Kmsg_Memory_Spec,
      Ipc_Kmsg_Scatter_Spec and Ipc_Kmsg_Copyout_Spec.

    \<^item> Wait_Queue (\<^verbatim>\<open>kern/wait_queue.c\<close>, parts of \<^verbatim>\<open>kern/sched_prim.c\<close>): threads that wait, links between
      queues, selection and wakeup. Wait_Queue_Spec: the order of the walk through a queue and the queues behind its links;
      Wait_Queue_Steps: consistency under all operations; Wait_Queue_Props: the properties.
    \<^item> Ipc_Mqueue (\<^verbatim>\<open>ipc_mqueue.c\<close>): sending, receiving, limits, destruction. Ipc_Mqueue_Spec has the program counters
      of threads and the invariant; Ipc_Mqueue_Steps and Ipc_Mqueue_Safe show that the operations keep it; Ipc_Mqueue_Machine is the
      state machine of all interleavings; Ipc_Mqueue_Sets relates links to the lists of sets in Ipc_Pset; Ipc_Mqueue_Props has the
      properties; Ipc_Mqueue_Limit has the locale \<open>waiting_room\<close>, the interface for waking senders, and the refinement of
      the limit; Ipc_Mqueue_Copyin finds the queue of a name.

  \<^bold>\<open>What is shown.\<close>

    \<^item> A space implements a finite map: every run of the entry routines from the creation of a space is a
      run of map updates (\<open>names_run_refines\<close>), by refinement lemmas for lookup, allocation and
      deallocation that cover the table, the tree, collisions and the free list, and by an invariant
      that ties them together. Freed names come back only with a new generation.
    \<^item> The splay tree is a map in ascending order under all operations; the local hash
      table stays searchable when an element is deleted (the hole is closed by moving elements back).
    \<^item> Ports: no circle of receive rights arises; requests are kept when their table grows;
      death, and the loss of the last sender, are notified to everyone who asked, exactly once.
    \<^item> Rights: the check before a transfer agrees with the transfer; user references change exactly by the delta or
      the call is refused; wrong rights are refused without effect.
    \<^item> Port sets: runs of the calls keep both sides of every membership and the counts.
    \<^item> Messages: queues are lists under all runs of their operations; a request passes from one space to another
      with the reply right under a fresh name; a message that is refused gives back every right; the kernel
      memory for physical copies is counted exactly within a bound on the sizes; the check of a
      scatter list is the comparison pair by pair, and the copyout after it stays inside the list.
    \<^item> Wait queues: selection follows the order of the walk, a wakeup of all wakes exactly those that wait for the
      event, and queues, links and threads stay consistent under every sequence of operations.
    \<^item> Message queues, for every interleaving of senders, receivers, timers, interruptions and changes of sets: no section
      panics; the count is that of the messages and of the granted places; no wakeup is lost; a posted message is queued last or
      handed to a waiting receiver with the next sequence number; a receive takes the oldest message. The links of a port
      implement the list of its sets, and a change of the limit wakes as many senders as the operation on the number of
      senders in Ipc_Pset says.
    \<^item> The arrays of table sizes grow strictly within bounds, and the loops that fill them end.
    \<^item> Deviations that modelling brought up, most with a theorem: the leak of destroyed port sets, the
      subsystem that is released on the wrong field, a growth that is skipped, a send right that stays
      counted, the index 0 of a new space, the traversal that \<^verbatim>\<open>ipc_space_clean\<close> breaks off, an entry that moves between two
      uses in a header, a queue limit that wakes senders without a place, a destroyed queue that still gets messages, and what counts, sizes and types of a sender can do to the kernel, or a receiver without memory.

  \<^bold>\<open>Bounds.\<close> The hypotheses ask for what the kernel maintains: a table below \<open>2 ^ 24\<close> elements (\<open>ipc_table_init\<close>
  stays below \<open>2 ^ 20\<close>), reference counts below the limit that \<^verbatim>\<open>io_reference\<close> asserts, well-typed entries, and
  where a result depends on memory, an address in the list of the allocators.

  \<^bold>\<open>Not modelled.\<close> Locks and other processors. A routine on names, rights, ports and messages runs to its end, so that
  the branches for a space or port that changes while it is unlocked do not arise. Wait queues and message queues have a state of their
  own, \<open>mq_state\<close>, in which the critical sections of different threads interleave; a section is what runs under one hold of
  the lock of the queue, and setting a timer after the release counts to it. A message there is a member of a list (Ipc_Kmsg_Queue
  shows that the circular pointers represent one), and \<open>kernel\<close> keeps only the sets, the limit and the sequence number of a
  port (Ipc_Mqueue_Sets relates the sets). The machine assumes of callers that fresh queues are initialised, that a port joins a set that it
  is not in, that a receiver asks for a trailer that exists, that the count does not wrap around, and that a limit is not
  raised while senders wait; \<open>ipc_mqueue_destroy\<close> is modelled but not a step of it. Of the scheduler: run queues and policies. The system call
  \<^verbatim>\<open>mach_msg.c\<close>. Of \<^verbatim>\<open>ipc_kmsg.c\<close>: buffers and their cache (\<^verbatim>\<open>ipc_kmsg_get\<close>, \<^verbatim>\<open>ipc_kmsg_put\<close>, \<^verbatim>\<open>ipc_kmsg_free\<close>), \<^verbatim>\<open>ipc_kmsg_send\<close>
  and printing; messages that are destroyed with a port are events of the log. The virtual memory system is a list of the answers of
  its calls, and its effects on the memory of tasks are events. Pointers that wrap around are not modelled. Kernel objects, thread pools and RPC subsystems are events of the log. Allocation and
  release of page tables (\<^verbatim>\<open>ipc_table_alloc\<close> and relatives) are part of the allocators. Printing, tracking and
  other debugging support. The rest of the kernel and of the distribution.
\<close>

end
